(* ===== verification/Prelude.thy ===== *)
theory Prelude
  imports Complex_Main "HOL-Library.AList" "HOL-Library.Char_ord"
    "HOL-Library.List_Lexorder" "HOL-Library.Product_Lexorder" "HOL-Library.Multiset"
begin

text \<open>
  What the component theories share: the model of Python's dictionaries, sets, bounded
  deques, slices, text operations and decimal rounding, with the lemmas about them.

  A dictionary keeps its insertion order and has one entry per key. It is an association
  list: reading is \<open>map_of\<close>, assignment \<open>d[k] = v\<close> is \<open>AList.update\<close> (which overwrites in
  place or appends, as Python does) and removal is \<open>AList.delete\<close>.

  A float is modelled by the rational number it denotes: comparisons are exact, and the
  rounding error of an arithmetic operation is not modelled. A string is a list of
  characters; the model's 256 characters stand for the code points below 256.
\<close>

section \<open>Dictionaries\<close>

named_theorems dict_simps \<open>reading and writing dictionaries\<close>

type_synonym ('k, 'v) dict = "('k \<times> 'v) list"

abbreviation dget :: "('k, 'v) dict \<Rightarrow> 'k \<Rightarrow> 'v option" where
  "dget d k \<equiv> map_of d k"

abbreviation dset :: "('k, 'v) dict \<Rightarrow> 'k \<Rightarrow> 'v \<Rightarrow> ('k, 'v) dict" where
  "dset d k v \<equiv> AList.update k v d"

abbreviation dpop :: "('k, 'v) dict \<Rightarrow> 'k \<Rightarrow> ('k, 'v) dict" where
  "dpop d k \<equiv> AList.delete k d"

abbreviation keys :: "('k, 'v) dict \<Rightarrow> 'k list" where
  "keys d \<equiv> map fst d"

definition wf_dict :: "('k, 'v) dict \<Rightarrow> bool" where
  "wf_dict d \<longleftrightarrow> distinct (keys d)"

text \<open>\<open>d.get(k, default)\<close> and the nested lookup \<open>d.get(k, {})\<close> of a dictionary of dictionaries.\<close>

definition dget_or :: "'v \<Rightarrow> ('k, 'v) dict \<Rightarrow> 'k \<Rightarrow> 'v" where
  "dget_or x d k = (case dget d k of None \<Rightarrow> x | Some v \<Rightarrow> v)"

abbreviation dsub :: "('k, ('a, 'b) dict) dict \<Rightarrow> 'k \<Rightarrow> ('a, 'b) dict" where
  "dsub d k \<equiv> dget_or [] d k"

text \<open>\<open>d.update(other)\<close>: assign every entry of \<open>other\<close>, in order.\<close>

definition dmerge :: "('k, 'v) dict \<Rightarrow> ('k, 'v) dict \<Rightarrow> ('k, 'v) dict" where
  "dmerge d e = foldl (\<lambda>acc (k, v). dset acc k v) d e"

text \<open>\<open>{k: v for k, v in d.items() if p(k)}\<close>.\<close>

definition drestrict :: "('k \<Rightarrow> bool) \<Rightarrow> ('k, 'v) dict \<Rightarrow> ('k, 'v) dict" where
  "drestrict p d = filter (\<lambda>kv. p (fst kv)) d"

text \<open>\<open>dict(pairs)\<close>: later pairs win.\<close>

definition dict_of :: "('k \<times> 'v) list \<Rightarrow> ('k, 'v) dict" where
  "dict_of ps = dmerge [] ps"

text \<open>\<open>d.setdefault(k, []).append(v)\<close>.\<close>

definition dappend :: "('k, 'v list) dict \<Rightarrow> 'k \<Rightarrow> 'v \<Rightarrow> ('k, 'v list) dict" where
  "dappend d k v = dset d k (dget_or [] d k @ [v])"

lemma dget_dset [simp, dict_simps]:
  "dget (dset d k v) j = (if j = k then Some v else dget d j)"
  by (simp add: update_conv)

lemma dget_dpop [simp, dict_simps]:
  "dget (dpop d k) j = (if j = k then None else dget d j)"
  by (simp add: delete_conv)

lemma wf_dict_Nil [simp, intro]: "wf_dict []"
  by (simp add: wf_dict_def)

lemma wf_dict_Cons [simp]: "wf_dict ((k, v) # d) \<longleftrightarrow> k \<notin> fst ` set d \<and> wf_dict d"
  by (simp add: wf_dict_def)

lemma wf_dict_dset [simp, intro]: "wf_dict d \<Longrightarrow> wf_dict (dset d k v)"
  by (simp add: wf_dict_def distinct_update)

lemma wf_dict_dpop [simp, intro]: "wf_dict d \<Longrightarrow> wf_dict (dpop d k)"
  by (simp add: wf_dict_def distinct_delete)

lemma keys_dset [simp]: "fst ` set (dset d k v) = insert k (fst ` set d)"
  using dom_update [of k v d] by (simp add: dom_map_of_conv_image_fst)

lemma keys_dpop [simp]: "fst ` set (dpop d k) = fst ` set d - {k}"
  by (induction d) (auto simp: AList.delete_eq)

lemma dget_None_iff: "dget d k = None \<longleftrightarrow> k \<notin> fst ` set d"
  by (rule map_of_eq_None_iff)

lemma dget_Some_keys: "dget d k = Some v \<Longrightarrow> k \<in> fst ` set d"
  by (metis dget_None_iff option.distinct(1))

lemma keys_obtain: "k \<in> fst ` set d \<Longrightarrow> \<exists>v. dget d k = Some v"
  by (metis dget_None_iff not_None_eq)

lemma dget_mem: "dget d k = Some v \<Longrightarrow> (k, v) \<in> set d"
  by (rule map_of_SomeD)

lemma wf_dget_mem: "wf_dict d \<Longrightarrow> (k, v) \<in> set d \<Longrightarrow> dget d k = Some v"
  by (simp add: wf_dict_def)

lemma dget_or_dset [simp, dict_simps]:
  "dget_or x (dset d k v) j = (if j = k then v else dget_or x d j)"
  by (simp add: dget_or_def)

lemma dget_or_dpop [simp, dict_simps]:
  "dget_or x (dpop d k) j = (if j = k then x else dget_or x d j)"
  by (simp add: dget_or_def)

lemma dget_or_Nil [simp]: "dget_or x [] j = x"
  by (simp add: dget_or_def)

lemma dmerge_Nil [simp]: "dmerge d [] = d"
  by (simp add: dmerge_def)

lemma dmerge_Cons: "dmerge d ((k, v) # e) = dmerge (dset d k v) e"
  by (simp add: dmerge_def)

lemma wf_dict_dmerge [simp, intro]: "wf_dict d \<Longrightarrow> wf_dict (dmerge d e)"
proof (induction e arbitrary: d)
  case (Cons kv e)
  then show ?case by (cases kv) (simp add: dmerge_Cons)
qed simp

lemma wf_dict_dict_of [simp, intro]: "wf_dict (dict_of ps)"
  by (simp add: dict_of_def)

lemma keys_dmerge [simp]: "fst ` set (dmerge d e) = fst ` set d \<union> fst ` set e"
proof (induction e arbitrary: d)
  case (Cons kv e)
  then show ?case by (cases kv) (simp add: dmerge_Cons)
qed simp

lemma keys_dict_of [simp]: "fst ` set (dict_of ps) = fst ` set ps"
  by (simp add: dict_of_def)

lemma dget_dmerge:
  "dget (dmerge d e) k = (case dget (rev e) k of None \<Rightarrow> dget d k | Some v \<Rightarrow> Some v)"
proof (induction e arbitrary: d)
  case (Cons kv e)
  then show ?case
    by (cases kv) (simp add: dmerge_Cons map_add_def split: option.split)
qed simp

lemma dget_dmerge_wf:
  assumes "wf_dict e"
  shows "dget (dmerge d e) k = (case dget e k of None \<Rightarrow> dget d k | Some v \<Rightarrow> Some v)"
proof -
  have "map_of (rev e) k = map_of e k"
  proof (cases "map_of e k")
    case None
    then show ?thesis by (metis dget_None_iff set_rev)
  next
    case (Some v)
    then have "(k, v) \<in> set (rev e)" by (simp add: map_of_SomeD)
    moreover have "distinct (map fst (rev e))"
      using assms by (simp add: wf_dict_def rev_map [symmetric])
    ultimately show ?thesis using Some by simp
  qed
  then show ?thesis by (simp add: dget_dmerge)
qed

lemma dget_drestrict [simp, dict_simps]:
  "dget (drestrict p d) k = (if p k then dget d k else None)"
  by (induction d) (auto simp: drestrict_def)

lemma wf_dict_drestrict [simp, intro]: "wf_dict d \<Longrightarrow> wf_dict (drestrict p d)"
  by (simp add: drestrict_def wf_dict_def distinct_map_filter)

lemma keys_drestrict: "fst ` set (drestrict p d) = {k \<in> fst ` set d. p k}"
  by (auto simp: drestrict_def)

lemma set_drestrict: "set (drestrict p d) \<subseteq> set d"
  by (auto simp: drestrict_def)

lemma set_dset: "set (dset d k v) \<subseteq> insert (k, v) (set d)"
  by (induction d) auto

lemma set_dpop: "set (dpop d k) \<subseteq> set d"
  by (simp add: AList.delete_eq)

lemma length_dict: "wf_dict d \<Longrightarrow> length d = card (fst ` set d)"
  unfolding wf_dict_def by (metis distinct_card length_map set_map)

lemma length_dpop:
  assumes "wf_dict d"
  shows "length (dpop d k) = length d - (if dget d k = None then 0 else 1)"
  using length_dict [OF assms] length_dict [OF wf_dict_dpop [OF assms, of k]]
  by (simp add: card_Diff_singleton_if dget_None_iff)

lemma length_dset_absent: "dget d k = None \<Longrightarrow> length (dset d k v) = Suc (length d)"
  by (induction d) (auto split: if_splits)

lemma length_dset_present: "dget d k \<noteq> None \<Longrightarrow> length (dset d k v) = length d"
  by (induction d) (auto split: if_splits)

lemma length_drestrict: "length (drestrict p d) \<le> length d"
  by (simp add: drestrict_def)

section \<open>Sets\<close>

text \<open>
  Python iterates a set in an order the language leaves open (for strings it changes from
  run to run). The order is an argument of the model: \<open>set_iter h xs\<close> lists the distinct
  elements of \<open>xs\<close> in the order of an arbitrary ranking \<open>h\<close>, so that a theorem that holds
  for every \<open>h\<close> holds for every iteration order.
\<close>

definition set_iter :: "('a \<Rightarrow> nat) \<Rightarrow> 'a list \<Rightarrow> 'a list" where
  "set_iter h xs = sort_key h (remdups xs)"

lemma set_set_iter [simp]: "set (set_iter h xs) = set xs"
  by (simp add: set_iter_def)

lemma distinct_set_iter [simp]: "distinct (set_iter h xs)"
  by (simp add: set_iter_def)

lemma length_set_iter: "distinct xs \<Longrightarrow> length (set_iter h xs) = length xs"
  by (simp add: set_iter_def distinct_remdups_id)

text \<open>\<open>sorted(s)\<close> of a set given by its elements.\<close>

definition sorted_set :: "('a::linorder) list \<Rightarrow> 'a list" where
  "sorted_set xs = sort (remdups xs)"

lemma set_sorted_set [simp]: "set (sorted_set xs) = set xs"
  by (simp add: sorted_set_def)

lemma distinct_sorted_set [simp]: "distinct (sorted_set xs)"
  by (simp add: sorted_set_def)

lemma sorted_sorted_set [simp]: "sorted (sorted_set xs)"
  by (simp add: sorted_set_def)

text \<open>A dictionary in key order.\<close>

lemma sorted_dict [simp]:
  fixes d :: "('k :: linorder, 'v) dict"
  assumes "wf_dict d"
  shows "dget (sort_key fst d) k = dget d k" and "distinct (map fst (sort_key fst d))"
proof -
  have "mset (map fst (sort_key fst d)) = mset (map fst d)" by simp
  then show dist: "distinct (map fst (sort_key fst d))"
    using assms mset_eq_imp_distinct_iff unfolding wf_dict_def by blast
  have "map_of (sort_key fst d) = map_of d"
    using assms dist by (intro iffD2 [OF map_of_inject_set]) (simp_all add: wf_dict_def)
  then show "dget (sort_key fst d) k = dget d k" by simp
qed

section \<open>Bounded deques and slices\<close>

text \<open>\<open>xs[-n:]\<close> for a non-negative \<open>n\<close>; \<open>xs[-0:]\<close> is the whole list.\<close>

definition slice_last :: "nat \<Rightarrow> 'a list \<Rightarrow> 'a list" where
  "slice_last n xs = (if n = 0 then xs else drop (length xs - n) xs)"

text \<open>\<open>deque(xs, maxlen=n)\<close> keeps the last \<open>n\<close> elements; \<open>append\<close> drops from the left.\<close>

definition deque_of :: "nat \<Rightarrow> 'a list \<Rightarrow> 'a list" where
  "deque_of n xs = drop (length xs - n) xs"

definition deque_append :: "nat \<Rightarrow> 'a list \<Rightarrow> 'a \<Rightarrow> 'a list" where
  "deque_append n xs x = deque_of n (xs @ [x])"

definition deque_extend :: "nat \<Rightarrow> 'a list \<Rightarrow> 'a list \<Rightarrow> 'a list" where
  "deque_extend n xs ys = foldl (deque_append n) xs ys"

lemma length_deque_of [simp]: "length (deque_of n xs) = min n (length xs)"
  by (simp add: deque_of_def)

lemma deque_of_short: "length xs \<le> n \<Longrightarrow> deque_of n xs = xs"
  by (simp add: deque_of_def)

lemma set_deque_of: "set (deque_of n xs) \<subseteq> set xs"
  by (simp add: deque_of_def set_drop_subset)

lemma deque_of_append: "deque_of n (deque_of n xs @ ys) = deque_of n (xs @ ys)"
proof (cases "length xs \<le> n")
  case True
  then show ?thesis by (simp add: deque_of_def)
next
  case False
  then show ?thesis by (simp add: deque_of_def add.commute)
qed

lemma deque_extend_eq: "length xs \<le> n \<Longrightarrow> deque_extend n xs ys = deque_of n (xs @ ys)"
proof (induction ys arbitrary: xs)
  case Nil
  then show ?case by (simp add: deque_extend_def deque_of_short)
next
  case (Cons y ys)
  have "deque_extend n xs (y # ys) = deque_extend n (deque_of n (xs @ [y])) ys"
    by (simp add: deque_extend_def deque_append_def)
  also have "\<dots> = deque_of n (deque_of n (xs @ [y]) @ ys)"
    by (rule Cons.IH) simp
  finally show ?case by (simp add: deque_of_append)
qed

lemma length_deque_append: "length (deque_append n xs x) = min n (Suc (length xs))"
  by (simp add: deque_append_def)

lemma length_deque_extend: "length xs \<le> n \<Longrightarrow> length (deque_extend n xs ys) \<le> n"
  by (simp add: deque_extend_eq)

lemma sorted_wrt_deque_of: "sorted_wrt R xs \<Longrightarrow> sorted_wrt R (deque_of n xs)"
  by (simp add: deque_of_def sorted_wrt_drop)

end
