(* ===== verification/PyText.thy ===== *)
theory PyText
  imports Prelude
begin

text \<open>
  The text and number operations of Python's standard types that the modelled code uses:
  \<open>str.partition\<close>, \<open>startswith\<close>, \<open>in\<close>, \<open>lower\<close>, \<open>strip\<close>, \<open>join\<close>, \<open>str(int)\<close>, \<open>round\<close>
  (half to even) and the \<open>repr\<close> of a float with at most two decimals.
\<close>

section \<open>Strings\<close>

definition startswith :: "string \<Rightarrow> string \<Rightarrow> bool" where
  "startswith s p \<longleftrightarrow> take (length p) s = p"

definition endswith :: "string \<Rightarrow> string \<Rightarrow> bool" where
  "endswith s p \<longleftrightarrow> length p \<le> length s \<and> drop (length s - length p) s = p"

text \<open>\<open>needle in text\<close>.\<close>

fun contains :: "string \<Rightarrow> string \<Rightarrow> bool" where
  "contains needle [] \<longleftrightarrow> needle = []"
| "contains needle (c # cs) \<longleftrightarrow> startswith (c # cs) needle \<or> contains needle cs"

text \<open>\<open>text.partition(sep)\<close> with a one-character separator: what precedes and follows its first
  occurrence (the whole text and the empty one when there is none).\<close>

definition part_before :: "char \<Rightarrow> string \<Rightarrow> string" where
  "part_before c s = takeWhile (\<lambda>x. x \<noteq> c) s"

definition part_after :: "char \<Rightarrow> string \<Rightarrow> string" where
  "part_after c s = drop 1 (dropWhile (\<lambda>x. x \<noteq> c) s)"

definition lower_char :: "char \<Rightarrow> char" where
  "lower_char c =
     (let n = of_char c :: nat
      in if (65 \<le> n \<and> n \<le> 90) \<or> (192 \<le> n \<and> n \<le> 222 \<and> n \<noteq> 215) then char_of (n + 32) else c)"

definition lower :: "string \<Rightarrow> string" where
  "lower s = map lower_char s"

definition is_space :: "char \<Rightarrow> bool" where
  "is_space c \<longleftrightarrow>
     (let n = of_char c :: nat
      in (9 \<le> n \<and> n \<le> 13) \<or> (28 \<le> n \<and> n \<le> 32) \<or> n = 133 \<or> n = 160)"

definition strip :: "string \<Rightarrow> string" where
  "strip s = rev (dropWhile is_space (rev (dropWhile is_space s)))"

definition join :: "string \<Rightarrow> string list \<Rightarrow> string" where
  "join sep xs = (case xs of [] \<Rightarrow> [] | x # ys \<Rightarrow> x @ concat (map (\<lambda>y. sep @ y) ys))"

definition replace_char :: "char \<Rightarrow> string \<Rightarrow> string \<Rightarrow> string" where
  "replace_char c new s = concat (map (\<lambda>x. if x = c then new else [x]) s)"

lemma part_after_simps [simp]:
  "part_after c [] = []"
  "part_after c (x # xs) = (if x = c then xs else part_after c xs)"
  by (simp_all add: part_after_def)

lemma part_before_simps [simp]:
  "part_before c [] = []"
  "part_before c (x # xs) = (if x = c then [] else x # part_before c xs)"
  by (simp_all add: part_before_def)

lemma part_before_append [simp]: "c \<notin> set p \<Longrightarrow> part_before c (p @ c # s) = p"
  by (induction p) (auto simp: part_before_def)

lemma part_after_append [simp]: "c \<notin> set p \<Longrightarrow> part_after c (p @ c # s) = s"
  by (induction p) (auto simp: part_after_def)

lemma startswith_refl_append [simp]: "startswith (p @ s) p"
  by (simp add: startswith_def)

lemma startswith_exD: "startswith s p \<Longrightarrow> \<exists>r. s = p @ r"
  unfolding startswith_def by (metis append_take_drop_id)

lemma endswith_append [simp]: "endswith (s @ p) p"
  by (simp add: endswith_def)

section \<open>Decimal rendering of integers\<close>

definition digit_char :: "int \<Rightarrow> char" where
  "digit_char d = char_of (48 + d)"

text \<open>The decimal digits of a non-negative integer.\<close>

function dec_str :: "int \<Rightarrow> string" where
  "dec_str n = (if n < 10 then [digit_char n] else dec_str (n div 10) @ [digit_char (n mod 10)])"
  by pat_completeness auto
termination
  by (relation "measure nat") auto

declare dec_str.simps [simp del]

definition int_str :: "int \<Rightarrow> string" where
  "int_str i = (if i < 0 then CHR ''-'' # dec_str (- i) else dec_str i)"

definition digit_of :: "char \<Rightarrow> int option" where
  "digit_of c = (let n = of_char c :: int in if 48 \<le> n \<and> n \<le> 57 then Some (n - 48) else None)"

definition is_digit :: "char \<Rightarrow> bool" where
  "is_digit c \<longleftrightarrow> digit_of c \<noteq> None"

fun digits_value :: "int \<Rightarrow> string \<Rightarrow> int option" where
  "digits_value acc [] = Some acc"
| "digits_value acc (c # cs) =
     (case digit_of c of None \<Rightarrow> None | Some d \<Rightarrow> digits_value (10 * acc + d) cs)"

text \<open>A non-empty run of decimal digits.\<close>

definition parse_nat :: "string \<Rightarrow> int option" where
  "parse_nat s = (if s = [] then None else digits_value 0 s)"

lemma digit_of_digit_char [simp]: "0 \<le> d \<Longrightarrow> d < 10 \<Longrightarrow> digit_of (digit_char d) = Some d"
  by (simp add: digit_of_def digit_char_def)

lemma digits_value_append:
  "digits_value acc (xs @ ys) =
     (case digits_value acc xs of None \<Rightarrow> None | Some a \<Rightarrow> digits_value a ys)"
  by (induction acc xs rule: digits_value.induct) (auto split: option.splits)

lemma dec_str_nonempty [simp]: "dec_str n \<noteq> []"
  by (subst dec_str.simps) simp

lemma digits_value_dec_str: "0 \<le> n \<Longrightarrow> digits_value 0 (dec_str n) = Some n"
proof (induction n rule: dec_str.induct)
  case (1 n)
  show ?case
  proof (cases "n < 10")
    case True
    with "1.prems" show ?thesis by (subst dec_str.simps) simp
  next
    case False
    with "1" have "digits_value 0 (dec_str (n div 10)) = Some (n div 10)" by simp
    with False show ?thesis
      by (subst dec_str.simps) (simp add: digits_value_append)
  qed
qed

lemma parse_dec_str [simp]: "0 \<le> n \<Longrightarrow> parse_nat (dec_str n) = Some n"
  by (simp add: parse_nat_def digits_value_dec_str)

lemma dec_str_inj: "dec_str m = dec_str n \<Longrightarrow> 0 \<le> m \<Longrightarrow> 0 \<le> n \<Longrightarrow> m = n"
  by (metis parse_dec_str option.inject)

lemma digit_char_is_digit: "0 \<le> d \<Longrightarrow> d < 10 \<Longrightarrow> is_digit (digit_char d)"
  by (simp add: is_digit_def)

lemma dec_str_digits: "c \<in> set (dec_str n) \<Longrightarrow> 0 \<le> n \<Longrightarrow> is_digit c"
proof (induction n rule: dec_str.induct)
  case (1 n)
  show ?case
  proof (cases "n < 10")
    case True
    with "1.prems" show ?thesis by (simp add: dec_str.simps [of n] digit_char_is_digit)
  next
    case False
    with "1" show ?thesis by (auto simp: dec_str.simps [of n] digit_char_is_digit)
  qed
qed

lemma dec_str_no_minus: "0 \<le> n \<Longrightarrow> dec_str n \<noteq> CHR ''-'' # s"
proof
  assume "0 \<le> n" and "dec_str n = CHR ''-'' # s"
  then have "is_digit (CHR ''-'')" using dec_str_digits [of "CHR ''-''" n] by simp
  then show False by (simp add: is_digit_def digit_of_def)
qed

lemma int_str_inj: "int_str i = int_str j \<Longrightarrow> i = j"
  using dec_str_inj [of i j] dec_str_inj [of "- i" "- j"]
    dec_str_no_minus [of i "dec_str (- j)"] dec_str_no_minus [of j "dec_str (- i)"]
  by (auto simp: int_str_def split: if_splits dest: sym)

section \<open>Rounding\<close>

text \<open>\<open>round(x)\<close>: to the nearest integer, ties to the even one. \<open>round(x, n)\<close> likewise on the
  \<open>n\<close>-th decimal.\<close>

definition py_round :: "rat \<Rightarrow> int" where
  "py_round x =
     (let n = \<lfloor>x\<rfloor>; d = x - of_int n
      in if d < 1 / 2 then n else if 1 / 2 < d then n + 1 else if even n then n else n + 1)"

definition round_to :: "nat \<Rightarrow> rat \<Rightarrow> rat" where
  "round_to n x = of_int (py_round (x * 10 ^ n)) / 10 ^ n"

lemma py_round_error: "\<bar>of_int (py_round x) - x\<bar> \<le> 1 / 2"
proof -
  define n where "n = \<lfloor>x\<rfloor>"
  have "of_int n \<le> x" "x < of_int n + 1" unfolding n_def by linarith+
  then show ?thesis
    unfolding py_round_def Let_def abs_le_iff n_def [symmetric] by (auto split: if_splits)
qed

lemma py_round_of_int [simp]: "py_round (of_int i) = i"
  by (simp add: py_round_def)

lemma py_round_mono: "x \<le> y \<Longrightarrow> py_round x \<le> py_round y"
proof -
  assume le: "x \<le> y"
  then have fl: "\<lfloor>x\<rfloor> \<le> \<lfloor>y\<rfloor>" by (rule floor_mono)
  have bounds: "\<lfloor>z\<rfloor> \<le> py_round z" "py_round z \<le> \<lfloor>z\<rfloor> + 1" for z
    by (auto simp: py_round_def Let_def)
  show ?thesis
  proof (cases "\<lfloor>x\<rfloor> = \<lfloor>y\<rfloor>")
    case True
    with le show ?thesis by (auto simp: py_round_def Let_def)
  next
    case False
    with fl have "\<lfloor>x\<rfloor> + 1 \<le> \<lfloor>y\<rfloor>" by simp
    with bounds [of x] bounds [of y] show ?thesis by linarith
  qed
qed

lemma round_to_error: "\<bar>round_to n x - x\<bar> \<le> 1 / (2 * 10 ^ n)"
proof -
  have "\<bar>of_int (py_round (x * 10 ^ n)) - x * 10 ^ n\<bar> \<le> (1 / 2 :: rat)"
    by (rule py_round_error)
  then have "\<bar>(round_to n x - x) * 10 ^ n\<bar> \<le> 1 / 2"
    by (simp add: round_to_def left_diff_distrib)
  then have "\<bar>round_to n x - x\<bar> * 10 ^ n \<le> 1 / 2"
    by (simp add: abs_mult)
  then show ?thesis by (simp add: field_simps)
qed

lemma round_to_mono: "x \<le> y \<Longrightarrow> round_to n x \<le> round_to n y"
  unfolding round_to_def
  by (intro divide_right_mono) (simp_all add: py_round_mono mult_right_mono)

text \<open>Rounding keeps a bound that is itself a decimal with \<open>n\<close> places.\<close>

lemma round_to_fixed: "x * 10 ^ n = of_int i \<Longrightarrow> round_to n x = x"
  by (simp add: round_to_def field_simps)

lemma round_to_nonneg: "0 \<le> x \<Longrightarrow> 0 \<le> round_to n x"
  using round_to_mono [of 0 x n] round_to_fixed [of 0 n 0] by simp

text \<open>
  \<open>f"{round(x, 2)}"\<close>: the shortest decimal of a float with at most two decimals. A float
  keeps one decimal (\<open>3.0\<close>); the exponent form of magnitudes from \<open>10^16\<close> on is not modelled,
  as the code renders percentages.
\<close>

definition float2_str :: "rat \<Rightarrow> string" where
  "float2_str x =
     (let h = \<bar>py_round (x * 100)\<bar>;
          sign = (if x < 0 then ''-'' else '''');
          frac = (if h mod 10 = 0 then [digit_char (h div 10 mod 10)]
                  else [digit_char (h div 10 mod 10), digit_char (h mod 10)])
      in sign @ dec_str (h div 100) @ ''.'' @ frac)"

end
