(* ===== verification/PyValue.thy ===== *)
theory PyValue
  imports PyText
begin

text \<open>
  Values of the dynamic type \<open>object\<close> where the code handles them as such: the JSON documents
  it writes and the ones it reads back. Integers and floats are distinct (the code tests
  \<open>isinstance\<close>); a float is finite (a rational) or one of the three special values.
\<close>

datatype pyval =
    PNone
  | PBool bool
  | PInt int
  | PFloat rat
  | PInf bool
  | PNan
  | PStr string
  | PList "pyval list"
  | PDict "(string \<times> pyval) list"

type_synonym obj = "(string, pyval) dict"

definition popt :: "('a \<Rightarrow> pyval) \<Rightarrow> 'a option \<Rightarrow> pyval" where
  "popt f x = (case x of None \<Rightarrow> PNone | Some v \<Rightarrow> f v)"

text \<open>\<open>bool(value)\<close>.\<close>

fun truthy :: "pyval \<Rightarrow> bool" where
  "truthy PNone = False"
| "truthy (PBool b) = b"
| "truthy (PInt i) = (i \<noteq> 0)"
| "truthy (PFloat x) = (x \<noteq> 0)"
| "truthy (PInf _) = True"
| "truthy PNan = True"
| "truthy (PStr s) = (s \<noteq> [])"
| "truthy (PList xs) = (xs \<noteq> [])"
| "truthy (PDict d) = (d \<noteq> [])"

text \<open>\<open>d.get(k)\<close>: a missing key and a stored \<open>None\<close> read alike.\<close>

definition oget :: "obj \<Rightarrow> string \<Rightarrow> pyval" where
  "oget d k = dget_or PNone d k"

text \<open>A number that is not a Boolean, when it is finite.\<close>

fun finite_number :: "pyval \<Rightarrow> rat option" where
  "finite_number (PInt i) = Some (of_int i)"
| "finite_number (PFloat x) = Some x"
| "finite_number _ = None"

fun as_text :: "pyval \<Rightarrow> string option" where
  "as_text (PStr s) = Some s"
| "as_text _ = None"

text \<open>A stored text, \<open>None\<close> for any other value and for the empty text: the test
  \<open>isinstance(x, str) and x\<close>.\<close>

definition nonempty_text :: "pyval \<Rightarrow> string option" where
  "nonempty_text v = (case as_text v of Some s \<Rightarrow> if s = [] then None else Some s | None \<Rightarrow> None)"

lemma popt_simps [simp]: "popt f None = PNone" "popt f (Some x) = f x"
  by (simp_all add: popt_def)

lemma oget_dset [simp]: "oget (dset d k v) j = (if j = k then v else oget d j)"
  by (simp add: oget_def)

lemma oget_Cons [simp]: "oget ((k, v) # d) j = (if j = k then v else oget d j)"
  by (simp add: oget_def dget_or_def)

lemma oget_Nil [simp]: "oget [] j = PNone"
  by (simp add: oget_def)

lemma popt_text [simp]: "as_text (popt PStr x) = x"
  by (cases x) simp_all

lemma finite_number_popt [simp]: "finite_number (popt PFloat x) = x"
  by (cases x) simp_all

end
