(* ===== verification/Models.thy ===== *)
theory Models
  imports PyValue
begin

text \<open>
  The immutable results of a collection (\<open>models.py\<close>): what one probe of one host reports, and
  the current-state record of a server with the way a result changes it. Each record has the
  fields of its dataclass under a short prefix; \<open>None\<close> in an optional field is \<open>None\<close>.
\<close>

section \<open>Samples\<close>

datatype probe_status = Online | Unreachable | ProbeError

record workload_metadata =
  wm_kind :: string
  wm_workload_id :: "string option"
  wm_name :: "string option"
  wm_owner :: "string option"
  wm_queue :: "string option"
  wm_namespace :: "string option"
  wm_command :: "string option"
  wm_started_at :: "string option"
  wm_cpu_seconds :: "rat option"
  wm_rss_mib :: "rat option"

definition workload_to_dict :: "workload_metadata \<Rightarrow> obj" where
  "workload_to_dict w =
    [(''kind'', PStr (wm_kind w)),
     (''workload_id'', popt PStr (wm_workload_id w)),
     (''name'', popt PStr (wm_name w)),
     (''owner'', popt PStr (wm_owner w)),
     (''queue'', popt PStr (wm_queue w)),
     (''namespace'', popt PStr (wm_namespace w)),
     (''command'', popt PStr (wm_command w)),
     (''started_at'', popt PStr (wm_started_at w)),
     (''cpu_seconds'', popt PFloat (wm_cpu_seconds w)),
     (''rss_mib'', popt PFloat (wm_rss_mib w))]"

record gpu_process =
  gp_pid :: int
  gp_name :: string
  gp_used_memory_mib :: "rat option"
  gp_workload :: "workload_metadata option"
  gp_first_seen_at :: "string option"

definition gpu_process_to_dict :: "gpu_process \<Rightarrow> obj" where
  "gpu_process_to_dict p =
    [(''pid'', PInt (gp_pid p)),
     (''name'', PStr (gp_name p)),
     (''used_memory_mib'', popt PFloat (gp_used_memory_mib p)),
     (''workload'', popt (\<lambda>w. PDict (workload_to_dict w)) (gp_workload p)),
     (''first_seen_at'', popt PStr (gp_first_seen_at p))]"

record gpu_health =
  gh_ecc_uncorrected_volatile :: "int option"
  gh_retired_pages_pending :: "bool option"
  gh_remapped_rows_pending :: "bool option"
  gh_thermal_slowdown :: "bool option"
  gh_power_brake_slowdown :: "bool option"
  gh_mig_mode :: "string option"

definition gpu_health_to_dict :: "gpu_health \<Rightarrow> obj" where
  "gpu_health_to_dict h =
    [(''ecc_uncorrected_volatile'', popt PInt (gh_ecc_uncorrected_volatile h)),
     (''retired_pages_pending'', popt PBool (gh_retired_pages_pending h)),
     (''remapped_rows_pending'', popt PBool (gh_remapped_rows_pending h)),
     (''thermal_slowdown'', popt PBool (gh_thermal_slowdown h)),
     (''power_brake_slowdown'', popt PBool (gh_power_brake_slowdown h)),
     (''mig_mode'', popt PStr (gh_mig_mode h))]"

record gpu_metrics =
  gm_index :: int
  gm_uuid :: string
  gm_name :: string
  gm_driver_version :: string
  gm_pstate :: "string option"
  gm_temperature_c :: "rat option"
  gm_utilization_gpu_pct :: "rat option"
  gm_utilization_memory_pct :: "rat option"
  gm_memory_total_mib :: "rat option"
  gm_memory_used_mib :: "rat option"
  gm_memory_free_mib :: "rat option"
  gm_power_draw_w :: "rat option"
  gm_power_limit_w :: "rat option"
  gm_processes :: "gpu_process list"
  gm_processes_available :: bool
  gm_processes_sampled :: bool
  gm_processes_observed_at :: "string option"
  gm_health :: "gpu_health option"

definition gpu_metrics_to_dict :: "gpu_metrics \<Rightarrow> obj" where
  "gpu_metrics_to_dict g =
    [(''index'', PInt (gm_index g)),
     (''uuid'', PStr (gm_uuid g)),
     (''name'', PStr (gm_name g)),
     (''driver_version'', PStr (gm_driver_version g)),
     (''pstate'', popt PStr (gm_pstate g)),
     (''temperature_c'', popt PFloat (gm_temperature_c g)),
     (''utilization_gpu_pct'', popt PFloat (gm_utilization_gpu_pct g)),
     (''utilization_memory_pct'', popt PFloat (gm_utilization_memory_pct g)),
     (''memory_total_mib'', popt PFloat (gm_memory_total_mib g)),
     (''memory_used_mib'', popt PFloat (gm_memory_used_mib g)),
     (''memory_free_mib'', popt PFloat (gm_memory_free_mib g)),
     (''power_draw_w'', popt PFloat (gm_power_draw_w g)),
     (''power_limit_w'', popt PFloat (gm_power_limit_w g)),
     (''processes'', PList (map (\<lambda>p. PDict (gpu_process_to_dict p)) (gm_processes g))),
     (''processes_available'', PBool (gm_processes_available g)),
     (''processes_sampled'', PBool (gm_processes_sampled g)),
     (''processes_observed_at'', popt PStr (gm_processes_observed_at g)),
     (''health'', popt (\<lambda>h. PDict (gpu_health_to_dict h)) (gm_health g))]"

record pressure_sample =
  ps_some_avg10 :: rat
  ps_some_avg60 :: rat
  ps_full_avg10 :: "rat option"
  ps_full_avg60 :: "rat option"

definition pressure_sample_to_dict :: "pressure_sample \<Rightarrow> obj" where
  "pressure_sample_to_dict s =
    [(''some_avg10'', PFloat (ps_some_avg10 s)),
     (''some_avg60'', PFloat (ps_some_avg60 s)),
     (''full_avg10'', popt PFloat (ps_full_avg10 s)),
     (''full_avg60'', popt PFloat (ps_full_avg60 s))]"

record pressure_metrics =
  pm_cpu :: "pressure_sample option"
  pm_memory :: "pressure_sample option"
  pm_io :: "pressure_sample option"

definition pressure_to_dict :: "pressure_metrics \<Rightarrow> obj" where
  "pressure_to_dict p =
    [(''cpu'', popt (\<lambda>s. PDict (pressure_sample_to_dict s)) (pm_cpu p)),
     (''memory'', popt (\<lambda>s. PDict (pressure_sample_to_dict s)) (pm_memory p)),
     (''io'', popt (\<lambda>s. PDict (pressure_sample_to_dict s)) (pm_io p))]"

record disk_metrics =
  dm_device :: string
  dm_filesystem_type :: string
  dm_mountpoint :: string
  dm_total_mib :: rat
  dm_used_mib :: rat
  dm_available_mib :: rat
  dm_used_pct :: rat

definition disk_to_dict :: "disk_metrics \<Rightarrow> obj" where
  "disk_to_dict d =
    [(''device'', PStr (dm_device d)),
     (''filesystem_type'', PStr (dm_filesystem_type d)),
     (''mountpoint'', PStr (dm_mountpoint d)),
     (''total_mib'', PFloat (dm_total_mib d)),
     (''used_mib'', PFloat (dm_used_mib d)),
     (''available_mib'', PFloat (dm_available_mib d)),
     (''used_pct'', PFloat (dm_used_pct d))]"

record system_metrics =
  sm_hostname :: string
  sm_uptime_seconds :: rat
  sm_load_1m :: rat
  sm_load_5m :: rat
  sm_load_15m :: rat
  sm_cpu_cores :: int
  sm_cpu_usage_pct :: "rat option"
  sm_memory_total_mib :: rat
  sm_memory_used_mib :: rat
  sm_memory_available_mib :: rat
  sm_swap_total_mib :: rat
  sm_swap_used_mib :: rat
  sm_disk_total_mib :: rat
  sm_disk_used_mib :: rat
  sm_network_rx_bps :: "rat option"
  sm_network_tx_bps :: "rat option"
  sm_disk_read_bps :: "rat option"
  sm_disk_write_bps :: "rat option"
  sm_disks :: "disk_metrics list"
  sm_pressure :: "pressure_metrics option"

definition system_to_dict :: "system_metrics \<Rightarrow> obj" where
  "system_to_dict s =
    [(''hostname'', PStr (sm_hostname s)),
     (''uptime_seconds'', PFloat (sm_uptime_seconds s)),
     (''load_1m'', PFloat (sm_load_1m s)),
     (''load_5m'', PFloat (sm_load_5m s)),
     (''load_15m'', PFloat (sm_load_15m s)),
     (''cpu_cores'', PInt (sm_cpu_cores s)),
     (''cpu_usage_pct'', popt PFloat (sm_cpu_usage_pct s)),
     (''memory_total_mib'', PFloat (sm_memory_total_mib s)),
     (''memory_used_mib'', PFloat (sm_memory_used_mib s)),
     (''memory_available_mib'', PFloat (sm_memory_available_mib s)),
     (''swap_total_mib'', PFloat (sm_swap_total_mib s)),
     (''swap_used_mib'', PFloat (sm_swap_used_mib s)),
     (''disk_total_mib'', PFloat (sm_disk_total_mib s)),
     (''disk_used_mib'', PFloat (sm_disk_used_mib s)),
     (''network_rx_bps'', popt PFloat (sm_network_rx_bps s)),
     (''network_tx_bps'', popt PFloat (sm_network_tx_bps s)),
     (''disk_read_bps'', popt PFloat (sm_disk_read_bps s)),
     (''disk_write_bps'', popt PFloat (sm_disk_write_bps s)),
     (''disks'', PList (map (\<lambda>d. PDict (disk_to_dict d)) (sm_disks s))),
     (''pressure'', popt (\<lambda>p. PDict (pressure_to_dict p)) (sm_pressure s))]"

record probe_result =
  pr_host :: string
  pr_status :: probe_status
  pr_latency_ms :: int
  pr_gpus :: "gpu_metrics list"
  pr_message :: "string option"
  pr_observed_at :: string
  pr_system :: "system_metrics option"
  pr_transport_retries :: int

section \<open>The state of a server\<close>

text \<open>A server is \<open>pending\<close> until its first result.\<close>

datatype server_status = Pending | Probed probe_status

record server_state =
  sv_host :: string
  sv_status :: server_status
  sv_polling :: bool
  sv_latency_ms :: "int option"
  sv_gpus :: "gpu_metrics list"
  sv_system :: "system_metrics option"
  sv_message :: "string option"
  sv_last_attempt_at :: "string option"
  sv_last_success_at :: "string option"
  sv_next_retry_at :: "string option"
  sv_consecutive_failures :: int
  sv_transport_retried :: bool

definition new_server :: "string \<Rightarrow> server_state" where
  "new_server host =
    \<lparr>sv_host = host, sv_status = Pending, sv_polling = False, sv_latency_ms = None,
     sv_gpus = [], sv_system = None, sv_message = None, sv_last_attempt_at = None,
     sv_last_success_at = None, sv_next_retry_at = None, sv_consecutive_failures = 0,
     sv_transport_retried = False\<rparr>"

definition server_apply :: "server_state \<Rightarrow> probe_result \<Rightarrow> string option \<Rightarrow> server_state" where
  "server_apply s r next_retry_at =
    (let s = s\<lparr>sv_status := Probed (pr_status r), sv_polling := False,
               sv_latency_ms := Some (pr_latency_ms r), sv_message := pr_message r,
               sv_last_attempt_at := Some (pr_observed_at r),
               sv_transport_retried := pr_transport_retries r > 0\<rparr>
     in if pr_status r = Online
        then s\<lparr>sv_gpus := pr_gpus r, sv_system := pr_system r,
               sv_last_success_at := Some (pr_observed_at r), sv_next_retry_at := None,
               sv_consecutive_failures := 0\<rparr>
        else s\<lparr>sv_next_retry_at := next_retry_at,
               sv_consecutive_failures := sv_consecutive_failures s + 1\<rparr>)"

fun status_text :: "server_status \<Rightarrow> string" where
  "status_text Pending = ''pending''"
| "status_text (Probed Online) = ''online''"
| "status_text (Probed Unreachable) = ''unreachable''"
| "status_text (Probed ProbeError) = ''error''"

definition server_stale :: "server_state \<Rightarrow> bool" where
  "server_stale s \<longleftrightarrow> sv_status s \<noteq> Probed Online \<and> sv_last_success_at s \<noteq> None"

definition server_to_dict :: "server_state \<Rightarrow> obj" where
  "server_to_dict s =
    [(''host'', PStr (sv_host s)),
     (''status'', PStr (status_text (sv_status s))),
     (''polling'', PBool (sv_polling s)),
     (''latencyMs'', popt PInt (sv_latency_ms s)),
     (''message'', popt PStr (sv_message s)),
     (''lastAttemptAt'', popt PStr (sv_last_attempt_at s)),
     (''lastSuccessAt'', popt PStr (sv_last_success_at s)),
     (''nextRetryAt'', popt PStr (sv_next_retry_at s)),
     (''stale'', PBool (server_stale s)),
     (''consecutiveFailures'', PInt (sv_consecutive_failures s)),
     (''transportRetried'', PBool (sv_transport_retried s)),
     (''system'', popt (\<lambda>m. PDict (system_to_dict m)) (sv_system s)),
     (''gpus'', PList (map (\<lambda>g. PDict (gpu_metrics_to_dict g)) (sv_gpus s)))]"

text \<open>Applying the results of a host in order.\<close>

definition server_run :: "server_state \<Rightarrow> (probe_result \<times> string option) list \<Rightarrow> server_state" where
  "server_run s rs = foldl (\<lambda>acc (r, n). server_apply acc r n) s rs"

section \<open>Lemmas\<close>

lemma server_apply_host [simp]: "sv_host (server_apply s r n) = sv_host s"
  by (simp add: server_apply_def Let_def)

lemma server_apply_status [simp]: "sv_status (server_apply s r n) = Probed (pr_status r)"
  by (simp add: server_apply_def Let_def)

lemma server_apply_polling [simp]: "\<not> sv_polling (server_apply s r n)"
  by (simp add: server_apply_def Let_def)

lemma server_apply_failures:
  "sv_consecutive_failures (server_apply s r n) =
     (if pr_status r = Online then 0 else sv_consecutive_failures s + 1)"
  by (simp add: server_apply_def Let_def)

lemma server_apply_retains:
  "pr_status r \<noteq> Online \<Longrightarrow>
     sv_gpus (server_apply s r n) = sv_gpus s \<and> sv_system (server_apply s r n) = sv_system s
     \<and> sv_last_success_at (server_apply s r n) = sv_last_success_at s"
  by (simp add: server_apply_def Let_def)

lemma server_apply_online:
  "pr_status r = Online \<Longrightarrow>
     sv_gpus (server_apply s r n) = pr_gpus r \<and> sv_system (server_apply s r n) = pr_system r
     \<and> sv_last_success_at (server_apply s r n) = Some (pr_observed_at r)
     \<and> sv_next_retry_at (server_apply s r n) = None"
  by (simp add: server_apply_def Let_def)

lemma server_run_snoc:
  "server_run s (rs @ [(r, n)]) = server_apply (server_run s rs) r n"
  by (simp add: server_run_def)

text \<open>The last online result of a run, and the number of failed results after it.\<close>

definition last_online :: "(probe_result \<times> string option) list \<Rightarrow> probe_result option" where
  "last_online rs = (case filter (\<lambda>(r, n). pr_status r = Online) (rev rs) of
     [] \<Rightarrow> None | (r, n) # _ \<Rightarrow> Some r)"

definition trailing_failures :: "(probe_result \<times> string option) list \<Rightarrow> nat" where
  "trailing_failures rs = length (takeWhile (\<lambda>(r, n). pr_status r \<noteq> Online) (rev rs))"

lemma last_online_snoc:
  "last_online (rs @ [(r, n)]) = (if pr_status r = Online then Some r else last_online rs)"
  by (simp add: last_online_def)

lemma trailing_failures_snoc:
  "trailing_failures (rs @ [(r, n)]) = (if pr_status r = Online then 0 else trailing_failures rs + 1)"
  by (simp add: trailing_failures_def)

end
