(* ===== verification/Timestamp.thy ===== *)
theory Timestamp
  imports PyText
begin

text \<open>
  UTC timestamps. A moment (an aware \<open>datetime\<close>) is its number of microseconds since the
  epoch; \<open>iso_z\<close> is the \<open>Z\<close>-suffixed text of \<open>models.utc_now\<close> and \<open>epoch_seconds\<close> the
  parser of \<open>models.epoch_seconds\<close>, over the grammar of \<open>datetime.fromisoformat\<close> of
  Python 3.10, the oldest version the program supports. A text without an offset is read in
  the process's local zone, which the model takes to be UTC (the program writes the \<open>Z\<close>
  form only). The clock itself is an argument wherever the code reads it.
\<close>

type_synonym moment = int

definition us_per_second :: int where "us_per_second = 1000000"
definition us_per_minute :: int where "us_per_minute = 60000000"
definition us_per_day :: int where "us_per_day = 86400000000"

lemmas us_defs = us_per_second_def us_per_minute_def us_per_day_def

section \<open>The proleptic Gregorian calendar\<close>

definition is_leap :: "int \<Rightarrow> bool" where
  "is_leap y \<longleftrightarrow> y mod 4 = 0 \<and> (y mod 100 \<noteq> 0 \<or> y mod 400 = 0)"

definition month_lengths :: "int \<Rightarrow> int list" where
  "month_lengths y = [31, if is_leap y then 29 else 28, 31, 30, 31, 30, 31, 31, 30, 31, 30, 31]"

definition days_before_year :: "int \<Rightarrow> int" where
  "days_before_year y = (let p = y - 1 in p * 365 + p div 4 - p div 100 + p div 400)"

definition valid_date :: "int \<Rightarrow> int \<Rightarrow> int \<Rightarrow> bool" where
  "valid_date y m d \<longleftrightarrow>
     1 \<le> y \<and> 1 \<le> m \<and> m \<le> 12 \<and> 1 \<le> d \<and> d \<le> month_lengths y ! nat (m - 1)"

text \<open>\<open>date.toordinal()\<close>: day 1 is 0001-01-01.\<close>

definition to_ordinal :: "int \<Rightarrow> int \<Rightarrow> int \<Rightarrow> int" where
  "to_ordinal y m d = days_before_year y + sum_list (take (nat (m - 1)) (month_lengths y)) + d"

text \<open>The month and day of the \<open>n\<close>-th day (from 0) of a year with the given months.\<close>

fun split_month :: "int \<Rightarrow> int list \<Rightarrow> int \<Rightarrow> int \<times> int" where
  "split_month m [] n = (m, n + 1)"
| "split_month m (l # ls) n = (if n < l then (m, n + 1) else split_month (m + 1) ls (n - l))"

text \<open>\<open>date.fromordinal(n)\<close>.\<close>

definition from_ordinal :: "int \<Rightarrow> int \<times> int \<times> int" where
  "from_ordinal ord =
     (let n = ord - 1;
          a = n div 146097; n1 = n mod 146097;
          b = min 3 (n1 div 36524); n2 = n1 - b * 36524;
          c = n2 div 1461; n3 = n2 mod 1461;
          e = min 3 (n3 div 365); n4 = n3 - e * 365;
          y = a * 400 + b * 100 + c * 4 + e + 1;
          (m, d) = split_month 1 (month_lengths y) n4
      in (y, m, d))"

definition epoch_ordinal :: int where "epoch_ordinal = 719163"

section \<open>Rendering\<close>

definition pad2 :: "int \<Rightarrow> string" where
  "pad2 n = [digit_char (n div 10 mod 10), digit_char (n mod 10)]"

definition pad4 :: "int \<Rightarrow> string" where
  "pad4 n = pad2 (n div 100) @ pad2 (n mod 100)"

text \<open>\<open>moment.isoformat(timespec="seconds").replace("+00:00", "Z")\<close>.\<close>

definition iso_z :: "moment \<Rightarrow> string" where
  "iso_z t =
     (let s = t div us_per_second;
          (y, m, d) = from_ordinal (s div 86400 + epoch_ordinal);
          r = s mod 86400
      in pad4 y @ ''-'' @ pad2 m @ ''-'' @ pad2 d @ ''T''
         @ pad2 (r div 3600) @ '':'' @ pad2 (r div 60 mod 60) @ '':'' @ pad2 (r mod 60) @ ''Z'')"

text \<open>\<open>models.utc_after\<close>: the clock \<open>now\<close> moved forward by a number of seconds, rounded to the
  microsecond as \<open>timedelta\<close> does.\<close>

definition utc_after :: "moment \<Rightarrow> rat \<Rightarrow> string" where
  "utc_after now seconds = iso_z (now + py_round (max 0 seconds * 1000000))"

section \<open>Parsing\<close>

definition two_digits :: "char \<Rightarrow> char \<Rightarrow> int option" where
  "two_digits a b = parse_nat [a, b]"

fun parse_date :: "string \<Rightarrow> int option" where
  "parse_date [a, b, c, d, s1, e, f, s2, g, h] =
     (case (parse_nat [a, b, c, d], two_digits e f, two_digits g h) of
        (Some y, Some m, Some dd) \<Rightarrow>
          if s1 = CHR ''-'' \<and> s2 = CHR ''-'' \<and> valid_date y m dd
          then Some (to_ordinal y m dd) else None
      | _ \<Rightarrow> None)"
| "parse_date _ = None"

text \<open>The fraction after the point: three or six digits, as microseconds.\<close>

definition parse_fraction :: "string \<Rightarrow> int option" where
  "parse_fraction s =
     (if length s = 3 then map_option (\<lambda>n. n * 1000) (parse_nat s)
      else if length s = 6 then parse_nat s else None)"

text \<open>\<open>HH[:MM[:SS]]\<close> with an optional fraction, as (hours, minutes, seconds, microseconds).\<close>

fun parse_clock :: "string \<Rightarrow> (int \<times> int \<times> int \<times> int) option" where
  "parse_clock (a # b # []) = map_option (\<lambda>h. (h, 0, 0, 0)) (two_digits a b)"
| "parse_clock (a # b # s1 # rest) =
     (case two_digits a b of None \<Rightarrow> None | Some h \<Rightarrow>
      if s1 = CHR ''.'' then map_option (\<lambda>u. (h, 0, 0, u)) (parse_fraction rest)
      else if s1 \<noteq> CHR '':'' then None
      else (case rest of
        c # d # [] \<Rightarrow> map_option (\<lambda>m. (h, m, 0, 0)) (two_digits c d)
      | c # d # s2 # rest2 \<Rightarrow>
          (case two_digits c d of None \<Rightarrow> None | Some m \<Rightarrow>
           if s2 = CHR ''.'' then map_option (\<lambda>u. (h, m, 0, u)) (parse_fraction rest2)
           else if s2 \<noteq> CHR '':'' then None
           else (case rest2 of
             e # f # [] \<Rightarrow> map_option (\<lambda>s. (h, m, s, 0)) (two_digits e f)
           | e # f # s3 # rest3 \<Rightarrow>
               (case (two_digits e f, parse_fraction rest3) of
                  (Some s, Some u) \<Rightarrow> if s3 = CHR ''.'' then Some (h, m, s, u) else None
                | _ \<Rightarrow> None)
           | _ \<Rightarrow> None))
      | _ \<Rightarrow> None))"
| "parse_clock _ = None"

definition is_sign :: "char \<Rightarrow> bool" where
  "is_sign c \<longleftrightarrow> c = CHR ''+'' \<or> c = CHR ''-''"

text \<open>The offset after its sign, in microseconds; it must stay below one day.\<close>

definition parse_offset :: "string \<Rightarrow> int option" where
  "parse_offset s =
     (if length s \<noteq> 5 \<and> length s \<noteq> 8 \<and> length s \<noteq> 15 then None
      else case parse_clock s of
        None \<Rightarrow> None
      | Some (h, m, sec, u) \<Rightarrow>
          (let off = (h * 3600 + m * 60 + sec) * 1000000 + u
           in if off < us_per_day then Some off else None))"

text \<open>The time of day with its optional offset, as microseconds of the UTC day.\<close>

definition parse_time :: "string \<Rightarrow> int option" where
  "parse_time s =
     (let body = takeWhile (\<lambda>c. \<not> is_sign c) s; zone = dropWhile (\<lambda>c. \<not> is_sign c) s
      in case parse_clock body of
           None \<Rightarrow> None
         | Some (h, m, sec, u) \<Rightarrow>
             if 23 < h \<or> 59 < m \<or> 59 < sec then None
             else (let t = (h * 3600 + m * 60 + sec) * 1000000 + u
                   in case zone of
                        [] \<Rightarrow> Some t
                      | sg # off \<Rightarrow>
                          map_option (\<lambda>o'. if sg = CHR ''-'' then t + o' else t - o')
                            (parse_offset off)))"

definition parse_moment :: "string \<Rightarrow> moment option" where
  "parse_moment s =
     (case parse_date (take 10 s) of
        None \<Rightarrow> None
      | Some ord \<Rightarrow>
          (let day = (ord - epoch_ordinal) * us_per_day
           in if drop 11 s = [] then Some day
              else map_option (\<lambda>t. day + t) (parse_time (drop 11 s))))"

text \<open>\<open>models.epoch_seconds\<close> of a text: seconds since the epoch, \<open>None\<close> when malformed.\<close>

definition epoch_seconds :: "string \<Rightarrow> rat option" where
  "epoch_seconds s =
     map_option (\<lambda>t. of_int t / 1000000) (parse_moment (replace_char (CHR ''Z'') ''+00:00'' s))"


section \<open>Rendering and parsing agree\<close>

lemma split_month_correct:
  assumes "0 \<le> n" and "n < sum_list ls" and "split_month m0 ls n = (m, d)"
  shows "m0 \<le> m \<and> m < m0 + int (length ls) \<and> 1 \<le> d \<and> d \<le> ls ! nat (m - m0)
    \<and> sum_list (take (nat (m - m0)) ls) + d = n + 1"
  using assms
proof (induction m0 ls n rule: split_month.induct)
  case (1 m n)
  then show ?case by simp
next
  case (2 m0 l ls n)
  show ?case
  proof (cases "n < l")
    case True
    with "2.prems" show ?thesis by auto
  next
    case False
    with "2" have IH: "m0 + 1 \<le> m" "m < m0 + 1 + int (length ls)" "1 \<le> d"
      "d \<le> ls ! nat (m - (m0 + 1))"
      "sum_list (take (nat (m - (m0 + 1))) ls) + d = n - l + 1"
      by auto
    have "nat (m - m0) = Suc (nat (m - (m0 + 1)))" using IH(1) by simp
    with IH show ?thesis by simp
  qed
qed

lemma sum_month_lengths: "sum_list (month_lengths y) = (if is_leap y then 366 else 365)"
  by (simp add: month_lengths_def)

text \<open>The quotients of the year of a 400-, 100-, 4- and 1-year split.\<close>

lemma days_before_split:
  fixes a b c e :: int
  assumes "0 \<le> b" "b \<le> 3" "0 \<le> c" "c \<le> 24" "0 \<le> e" "e \<le> 3"
  shows "days_before_year (a * 400 + b * 100 + c * 4 + e + 1)
    = a * 146097 + b * 36524 + c * 1461 + e * 365"
proof -
  have "(a * 400 + b * 100 + c * 4 + e) div 4 = a * 100 + b * 25 + c"
    by (rule int_div_pos_eq [where r = e]) (use assms in simp_all)
  moreover have "(a * 400 + b * 100 + c * 4 + e) div 100 = a * 4 + b"
    by (rule int_div_pos_eq [where r = "c * 4 + e"]) (use assms in simp_all)
  moreover have "(a * 400 + b * 100 + c * 4 + e) div 400 = a"
    by (rule int_div_pos_eq [where r = "b * 100 + c * 4 + e"]) (use assms in simp_all)
  ultimately show ?thesis by (simp add: days_before_year_def Let_def algebra_simps)
qed

lemma leap_split:
  fixes a b c :: int
  assumes "0 \<le> b" "b \<le> 3" "0 \<le> c" "c \<le> 24" and "c = 24 \<Longrightarrow> b = 3"
  shows "is_leap (a * 400 + b * 100 + c * 4 + 3 + 1)"
proof -
  have "(a * 400 + b * 100 + c * 4 + 4) mod 4 = 0" by presburger
  moreover have "(a * 400 + b * 100 + c * 4 + 4) mod 100 = c * 4 + 4" if "c < 24"
    by (rule int_mod_pos_eq [where q = "a * 4 + b"]) (use that assms(3) in simp_all)
  moreover have "(a * 400 + b * 100 + c * 4 + 4) mod 400 = 0" if "c = 24"
    by (rule int_mod_pos_eq [where q = "a + 1"]) (use that assms(5) in simp_all)
  ultimately show ?thesis
    using assms(3,4) unfolding is_leap_def by (cases "c = 24") (simp_all add: add.assoc)
qed

lemma min_div_bounds:
  fixes x q :: int
  assumes "0 < q" "0 \<le> x" "x \<le> 4 * q" and "b = min 3 (x div q)"
  shows "0 \<le> b \<and> b \<le> 3 \<and> 0 \<le> x - b * q \<and> x - b * q \<le> q \<and> (x - b * q = q \<longrightarrow> b = 3 \<and> x = 4 * q)"
proof -
  have x: "x = x div q * q + x mod q" "0 \<le> x mod q" "x mod q < q" using assms(1) by simp_all
  have nn: "0 \<le> x div q" using assms(1,2) by (simp add: pos_imp_zdiv_nonneg_iff)
  show ?thesis
  proof (cases "x div q \<le> 3")
    case True
    then have b: "b = x div q" using assms(4) by simp
    have "x - b * q = x mod q" unfolding b using x(1) by linarith
    with x nn True b show ?thesis by simp
  next
    case False
    then have "b = 3" "4 * q \<le> x div q * q" using assms(1,4) by simp_all
    moreover from this have "x = 4 * q" using x(1,2) assms(3) by linarith
    ultimately show ?thesis using assms(1) by simp
  qed
qed

lemma from_ordinal_correct:
  assumes "1 \<le> ord" and "from_ordinal ord = (y, m, d)"
  shows "to_ordinal y m d = ord \<and> valid_date y m d"
proof -
  define n where "n = ord - 1"
  define a where "a = n div 146097"
  define n1 where "n1 = n mod 146097"
  define b where "b = min 3 (n1 div 36524)"
  define n2 where "n2 = n1 - b * 36524"
  define c where "c = n2 div 1461"
  define n3 where "n3 = n2 mod 1461"
  define e where "e = min 3 (n3 div 365)"
  define n4 where "n4 = n3 - e * 365"
  have n: "n = a * 146097 + n1" "0 \<le> n1" "n1 < 146097" "0 \<le> a"
    using assms(1) by (auto simp: n_def a_def n1_def)
  have b: "0 \<le> b" "b \<le> 3" "0 \<le> n2" "n2 \<le> 36524" "n2 = 36524 \<Longrightarrow> b = 3"
    using min_div_bounds [of 36524 n1 b] n(2,3) b_def unfolding n2_def by linarith+
  have c: "0 \<le> c" "c \<le> 24" "n2 = c * 1461 + n3" "0 \<le> n3" "n3 < 1461"
    using b by (auto simp: c_def n3_def)
  have e: "0 \<le> e" "e \<le> 3" "0 \<le> n4" "n4 \<le> 365" "n4 = 365 \<Longrightarrow> e = 3 \<and> n3 = 1460"
    using min_div_bounds [of 365 n3 e] c(4,5) e_def unfolding n4_def by linarith+
  define yr where "yr = a * 400 + b * 100 + c * 4 + e + 1"
  have "from_ordinal ord = (case split_month 1 (month_lengths yr) n4 of (m, d) \<Rightarrow> (yr, m, d))"
    unfolding from_ordinal_def Let_def yr_def n4_def e_def n3_def c_def n2_def b_def n1_def a_def n_def
    by (rule refl)
  then have "y = yr" and md: "split_month 1 (month_lengths y) n4 = (m, d)"
    using assms(2) by (auto split: prod.splits)
  then have y: "y = a * 400 + b * 100 + c * 4 + e + 1" by (simp add: yr_def)
  have "is_leap y" if "n4 = 365"
  proof -
    from e(5) [OF that] have *: "e = 3" "n3 = 1460" by auto
    have "b = 3" if "c = 24" using that * c b by simp
    then show ?thesis using leap_split [of b c a] b c y * by simp
  qed
  then have "n4 < sum_list (month_lengths y)"
    using e(4) by (cases "n4 = 365") (simp_all add: sum_month_lengths)
  from split_month_correct [OF e(3) this md]
  have md': "1 \<le> m" "m \<le> 12" "1 \<le> d" "d \<le> month_lengths y ! nat (m - 1)"
    "sum_list (take (nat (m - 1)) (month_lengths y)) + d = n4 + 1"
    by (auto simp: month_lengths_def)
  have "days_before_year y = n - n4"
    using days_before_split [OF b(1,2) c(1,2) e(1,2), of a] y n(1) c(3)
    by (simp add: n2_def n4_def)
  with md' have "to_ordinal y m d = ord" by (simp add: to_ordinal_def n_def)
  moreover have "1 \<le> y" using y n b c e by simp
  ultimately show ?thesis using md' by (simp add: valid_date_def)
qed

lemma from_ordinal_year:
  assumes "1 \<le> ord" "ord \<le> 3652059" and "from_ordinal ord = (y, m, d)"
  shows "1 \<le> y \<and> y \<le> 9999"
proof -
  from from_ordinal_correct [OF assms(1,3)]
  have v: "valid_date y m d" and t: "to_ordinal y m d = ord" by auto
  have "sum_list (take (nat (m - 1)) (month_lengths y)) \<ge> 0"
  proof (intro sum_list_nonneg)
    fix l
    assume "l \<in> set (take (nat (m - 1)) (month_lengths y))"
    then have "l \<in> set (month_lengths y)" by (rule in_set_takeD)
    then show "0 \<le> l" by (auto simp: month_lengths_def)
  qed
  with t v have "days_before_year y < ord" by (simp add: to_ordinal_def valid_date_def)
  then have "days_before_year y < 3652059" using assms(2) by simp
  moreover have "p * 365 + p div 4 - p div 100 + p div 400 \<ge> 3652059" if "9999 \<le> p" for p :: int
  proof -
    have "p = 4 * (p div 4) + p mod 4" "p mod 4 \<le> 3" "p = 100 * (p div 100) + p mod 100"
      "0 \<le> p mod 100" "p = 400 * (p div 400) + p mod 400" "p mod 400 \<le> 399"
      using pos_mod_bound [of 4 p] pos_mod_bound [of 400 p] by simp_all
    with that show ?thesis by linarith
  qed
  ultimately have "\<not> 9999 \<le> y - 1" by (force simp: days_before_year_def Let_def)
  with v show ?thesis by (simp add: valid_date_def)
qed

lemma pad2_digits:
  assumes "0 \<le> n" and "n < 100"
  shows "\<exists>a b. pad2 n = [a, b] \<and> two_digits a b = Some n"
  using assms by (simp add: pad2_def two_digits_def parse_nat_def)

lemma parse_date_pad:
  assumes "valid_date y m d" and "y \<le> 9999"
  shows "parse_date (pad4 y @ ''-'' @ pad2 m @ ''-'' @ pad2 d) = Some (to_ordinal y m d)"
proof -
  have "month_lengths y ! nat (m - 1) \<le> 31"
  proof -
    have "nat (m - 1) < length (month_lengths y)"
      using assms(1) by (auto simp: valid_date_def month_lengths_def)
    then have "month_lengths y ! nat (m - 1) \<in> set (month_lengths y)" by simp
    then show ?thesis by (auto simp: month_lengths_def split: if_splits)
  qed
  then have b: "0 \<le> y" "1 \<le> m" "m \<le> 12" "1 \<le> d" "d \<le> 31"
    using assms(1) by (auto simp: valid_date_def)
  have "parse_nat (pad4 y) = Some y"
  proof -
    define q where "q = y div 100"
    define r where "r = y mod 100"
    have "y = 100 * q + r" "0 \<le> q" "q < 100" "0 \<le> r" "r < 100"
      using assms(2) b(1) by (auto simp: q_def r_def)
    moreover from this have "q div 10 mod 10 = q div 10" "r div 10 mod 10 = r div 10" by simp_all
    moreover have "q = 10 * (q div 10) + q mod 10" "r = 10 * (r div 10) + r mod 10" by simp_all
    ultimately show ?thesis
      by (simp add: parse_nat_def pad4_def pad2_def flip: q_def r_def)
  qed
  moreover obtain y1 y2 y3 y4 where "pad4 y = [y1, y2, y3, y4]" by (simp add: pad4_def pad2_def)
  moreover obtain m1 m2 where "pad2 m = [m1, m2]" "two_digits m1 m2 = Some m"
    using pad2_digits [of m] b by auto
  moreover obtain d1 d2 where "pad2 d = [d1, d2]" "two_digits d1 d2 = Some d"
    using pad2_digits [of d] b by auto
  ultimately show ?thesis using assms by simp
qed

lemma digit_char_plain: "0 \<le> d \<Longrightarrow> d < 10 \<Longrightarrow>
    digit_char d \<noteq> CHR ''Z'' \<and> \<not> is_sign (digit_char d)"
proof -
  assume "0 \<le> d" "d < 10"
  then have "is_digit (digit_char d)" by (rule digit_char_is_digit)
  then show ?thesis by (auto simp: is_digit_def digit_of_def is_sign_def)
qed

lemma pad2_plain: "c \<in> set (pad2 n) \<Longrightarrow> c \<noteq> CHR ''Z'' \<and> \<not> is_sign c"
  using digit_char_plain by (auto simp: pad2_def)

lemma replace_char_absent: "c \<notin> set s \<Longrightarrow> replace_char c new s = s"
  by (induction s) (auto simp: replace_char_def)

text \<open>Parsing what \<open>iso_z\<close> writes gives the moment back, to the second, in every year that
  \<open>datetime\<close> can represent.\<close>

lemma epoch_seconds_iso_z:
  assumes "- 62135596800000000 \<le> t" and "t < 253402300800000000"
  shows "epoch_seconds (iso_z t) = Some (of_int (t div us_per_second))"
proof -
  define s where "s = t div us_per_second"
  define r where "r = s mod 86400"
  obtain y m d where ymd: "from_ordinal (s div 86400 + epoch_ordinal) = (y, m, d)"
    by (metis prod_cases3)
  have ord: "1 \<le> s div 86400 + epoch_ordinal" "s div 86400 + epoch_ordinal \<le> 3652059"
  proof -
    have t: "t = 1000000 * s + t mod 1000000" "0 \<le> t mod 1000000" "t mod 1000000 < 1000000"
      by (simp_all add: s_def us_per_second_def)
    then have s: "- 62135596800 \<le> s" "s < 253402300800" using assms by linarith+
    have "s = 86400 * (s div 86400) + s mod 86400" "0 \<le> s mod 86400" "s mod 86400 < 86400"
      by simp_all
    with s show "1 \<le> s div 86400 + epoch_ordinal" "s div 86400 + epoch_ordinal \<le> 3652059"
      unfolding epoch_ordinal_def by linarith+
  qed
  from from_ordinal_correct [OF ord(1) ymd] from_ordinal_year [OF ord ymd]
  have date: "parse_date (pad4 y @ ''-'' @ pad2 m @ ''-'' @ pad2 d)
      = Some (s div 86400 + epoch_ordinal)"
    by (auto dest: parse_date_pad)
  define clock where
    "clock = pad2 (r div 3600) @ '':'' @ pad2 (r div 60 mod 60) @ '':'' @ pad2 (r mod 60)"
  have r: "0 \<le> r" "r < 86400" by (auto simp: r_def)
  have plain: "\<forall>c \<in> set clock. c \<noteq> CHR ''Z'' \<and> \<not> is_sign c"
    using pad2_plain by (auto simp: clock_def is_sign_def)
  have small: "r div 3600 \<le> 23" "r div 60 mod 60 \<le> 59" "r mod 60 \<le> 59"
    using r pos_mod_bound [of 60 "r div 60"] pos_mod_bound [of 60 r] by simp_all
  have hms: "parse_clock clock = Some (r div 3600, r div 60 mod 60, r mod 60, 0)"
  proof -
    obtain a b where "pad2 (r div 3600) = [a, b]" "two_digits a b = Some (r div 3600)"
      using pad2_digits [of "r div 3600"] small pos_imp_zdiv_nonneg_iff [of 3600 r] r by auto
    moreover obtain c d where "pad2 (r div 60 mod 60) = [c, d]" "two_digits c d = Some (r div 60 mod 60)"
      using pad2_digits [of "r div 60 mod 60"] small by auto
    moreover obtain e f where "pad2 (r mod 60) = [e, f]" "two_digits e f = Some (r mod 60)"
      using pad2_digits [of "r mod 60"] small by auto
    ultimately show ?thesis by (simp add: clock_def)
  qed
  have sum: "r div 3600 * 3600 + r div 60 mod 60 * 60 + r mod 60 = r"
  proof -
    have "r div 3600 = r div 60 div 60" by (simp add: zdiv_zmult2_eq [symmetric])
    moreover have "r div 60 = 60 * (r div 60 div 60) + r div 60 mod 60"
      "r = 60 * (r div 60) + r mod 60" by simp_all
    ultimately show ?thesis by linarith
  qed
  have time: "parse_time (clock @ ''+00:00'') = Some (r * us_per_second)"
  proof -
    have "takeWhile (\<lambda>c. \<not> is_sign c) (clock @ ''+00:00'') = clock"
      "dropWhile (\<lambda>c. \<not> is_sign c) (clock @ ''+00:00'') = ''+00:00''"
      using plain by (auto simp: takeWhile_append dropWhile_append is_sign_def)
    moreover have "parse_offset ''00:00'' = Some 0"
      by (simp add: parse_offset_def two_digits_def parse_nat_def digit_of_def us_defs)
    ultimately show ?thesis
      using hms small sum by (simp add: parse_time_def Let_def us_per_second_def)
  qed
  have shape: "replace_char (CHR ''Z'') ''+00:00'' (iso_z t)
      = (pad4 y @ ''-'' @ pad2 m @ ''-'' @ pad2 d) @ CHR ''T'' # clock @ ''+00:00''"
  proof -
    let ?head = "pad4 y @ ''-'' @ pad2 m @ ''-'' @ pad2 d @ ''T'' @ clock"
    have "iso_z t = ?head @ ''Z''"
      using ymd by (simp add: iso_z_def Let_def s_def r_def clock_def)
    moreover have "CHR ''Z'' \<notin> set ?head"
      using pad2_plain plain by (auto simp: pad4_def)
    ultimately show ?thesis
      using replace_char_absent [of "CHR ''Z''" ?head "''+00:00''"]
      by (simp add: replace_char_def)
  qed
  have "length (pad4 y @ ''-'' @ pad2 m @ ''-'' @ pad2 d) = 10"
    by (simp add: pad4_def pad2_def)
  then have "parse_moment (replace_char (CHR ''Z'') ''+00:00'' (iso_z t))
      = Some (s div 86400 * us_per_day + r * us_per_second)"
    unfolding shape using date time by (simp add: parse_moment_def clock_def pad2_def)
  moreover have "s div 86400 * us_per_day + r * us_per_second = s * us_per_second"
  proof -
    have "s = s div 86400 * 86400 + r" by (simp add: r_def)
    then show ?thesis unfolding us_defs by linarith
  qed
  ultimately show ?thesis by (simp add: epoch_seconds_def s_def us_per_second_def)
qed

end
