(* ===== verification/Config.thy ===== *)
theory Config
  imports PyValue Timestamp
begin

text \<open>
  The configuration the runtime components read (\<open>config.py\<close>): thresholds and confirmation
  policy of incidents, scoped overrides, durable incident actions, webhook endpoints, host
  overrides and the connection topology.
\<close>

record threshold_config =
  th_cpu_warning_pct :: rat
  th_memory_warning_pct :: rat
  th_swap_warning_pct :: rat
  th_disk_warning_pct :: rat
  th_disk_min_free_gib :: rat
  th_psi_memory_some_pct :: rat
  th_psi_io_some_pct :: rat
  th_gpu_temperature_warning_c :: rat
  th_gpu_busy_pct :: rat
  th_gpu_memory_warning_pct :: rat
  th_gpu_idle_memory_pct :: rat

definition default_thresholds :: threshold_config where
  "default_thresholds =
    \<lparr>th_cpu_warning_pct = 85, th_memory_warning_pct = 90, th_swap_warning_pct = 50,
     th_disk_warning_pct = 85, th_disk_min_free_gib = 5, th_psi_memory_some_pct = 20,
     th_psi_io_some_pct = 30, th_gpu_temperature_warning_c = 80, th_gpu_busy_pct = 10,
     th_gpu_memory_warning_pct = 90, th_gpu_idle_memory_pct = 20\<rparr>"

definition thresholds_to_dict :: "threshold_config \<Rightarrow> (string, rat) dict" where
  "thresholds_to_dict t =
    [(''cpu_warning_pct'', th_cpu_warning_pct t),
     (''memory_warning_pct'', th_memory_warning_pct t),
     (''swap_warning_pct'', th_swap_warning_pct t),
     (''disk_warning_pct'', th_disk_warning_pct t),
     (''disk_min_free_gib'', th_disk_min_free_gib t),
     (''psi_memory_some_pct'', th_psi_memory_some_pct t),
     (''psi_io_some_pct'', th_psi_io_some_pct t),
     (''gpu_temperature_warning_c'', th_gpu_temperature_warning_c t),
     (''gpu_busy_pct'', th_gpu_busy_pct t),
     (''gpu_memory_warning_pct'', th_gpu_memory_warning_pct t),
     (''gpu_idle_memory_pct'', th_gpu_idle_memory_pct t)]"

record incident_config =
  in_resource_open_cycles :: int
  in_recovery_cycles :: int
  in_gpu_idle_memory_cycles :: int
  in_resource_open_seconds :: rat
  in_gpu_idle_memory_seconds :: rat
  in_recovery_margin :: rat

definition default_incidents :: incident_config where
  "default_incidents =
    \<lparr>in_resource_open_cycles = 2, in_recovery_cycles = 2, in_gpu_idle_memory_cycles = 12,
     in_resource_open_seconds = 60, in_gpu_idle_memory_seconds = 300, in_recovery_margin = 5\<rparr>"

text \<open>A durable operator action on one condition: \<open>silenced\<close> or \<open>acknowledged\<close>.\<close>

record incident_action =
  ia_host :: string
  ia_condition_key :: string
  ia_action :: string
  ia_until :: moment
  ia_reason :: string
  ia_incident_started_at :: "string option"

definition action_is_active :: "incident_action \<Rightarrow> moment \<Rightarrow> bool" where
  "action_is_active a now \<longleftrightarrow> ia_until a > now"

definition action_to_dict :: "incident_action \<Rightarrow> (string, string option) dict" where
  "action_to_dict a =
    [(''host'', Some (ia_host a)), (''condition_key'', Some (ia_condition_key a)),
     (''action'', Some (ia_action a)), (''until'', Some (iso_z (ia_until a))),
     (''reason'', Some (ia_reason a)), (''incident_started_at'', ia_incident_started_at a)]"

record scope_override =
  so_thresholds :: "(string \<times> rat) list"
  so_exclude_disk_mounts :: "string list"

definition override_threshold :: "scope_override \<Rightarrow> string \<Rightarrow> rat option" where
  "override_threshold o' name = map_of (so_thresholds o') name"

record webhook_config =
  wh_name :: string
  wh_url_env :: string
  wh_secret_env :: "string option"
  wh_events :: "string list"
  wh_timeout_seconds :: rat
  wh_max_attempts :: nat
  wh_retry_base_seconds :: rat
  wh_min_interval_seconds :: rat
  wh_allow_private_networks :: bool

record host_override =
  ho_poll_interval_seconds :: "rat option"
  ho_probe_timeout_seconds :: "rat option"
  ho_display_name :: "string option"

record topology_link =
  tl_source :: string
  tl_target :: string
  tl_transport :: string
  tl_label :: "string option"

definition link_to_dict :: "topology_link \<Rightarrow> (string, string) dict" where
  "link_to_dict l =
    (let value = [(''source'', tl_source l), (''target'', tl_target l),
                  (''transport'', tl_transport l)]
     in case tl_label l of None \<Rightarrow> value | Some label \<Rightarrow> dset value ''label'' label)"

record topology =
  tp_root :: string
  tp_links :: "topology_link list"

section \<open>Aliases\<close>

text \<open>\<open>_SAFE_ALIAS\<close>: one ASCII letter or digit, then at most 252 of these or \<open>. _ -\<close>.\<close>

definition alnum :: "char \<Rightarrow> bool" where
  "alnum c \<longleftrightarrow> (let n = of_char c :: int
     in (48 \<le> n \<and> n \<le> 57) \<or> (65 \<le> n \<and> n \<le> 90) \<or> (97 \<le> n \<and> n \<le> 122))"

definition is_safe_alias :: "string \<Rightarrow> bool" where
  "is_safe_alias s =
    (case s of
       [] \<Rightarrow> False
     | c # cs \<Rightarrow> alnum c \<and> length cs \<le> 252
         \<and> list_all (\<lambda>x. alnum x \<or> x = CHR ''.'' \<or> x = CHR ''_'' \<or> x = CHR ''-'') cs)"

lemma override_threshold_first:
  "override_threshold o' name = Some v \<Longrightarrow> (name, v) \<in> set (so_thresholds o')"
  by (simp add: override_threshold_def map_of_SomeD)

end
