(* ===== verification/Incident_Types.thy ===== *)
theory Incident_Types
  imports Models Config
begin

text \<open>
  The incident vocabulary (\<open>incident_types.py\<close>), the telemetry domains a condition's recovery
  needs (\<open>incident_domains.py\<close>) and the GPU hardware-health conditions
  (\<open>incident_health.py\<close>).
\<close>

section \<open>Conditions and events\<close>

datatype severity = Warning | Critical

datatype incident_state = Opened | Resolved | Escalated | Deescalated

record condition =
  ic_key :: string
  ic_category :: string
  ic_resource :: string
  ic_severity :: severity
  ic_value :: "rat option"
  ic_threshold :: "rat option"
  ic_observed_at :: string
  ic_detail :: "string option"
  ic_open_after_cycles :: int
  ic_recovery_cycles :: int
  ic_group_key :: "string option"
  ic_open_after_seconds :: rat
  ic_below_threshold :: bool
  ic_critical_at :: "rat option"
  ic_recovery_margin :: rat

text \<open>The dataclass's defaults, over the fields every constructor call gives.\<close>

definition mk_condition ::
  "string \<Rightarrow> string \<Rightarrow> string \<Rightarrow> severity \<Rightarrow> rat option \<Rightarrow> rat option \<Rightarrow> string \<Rightarrow> condition" where
  "mk_condition key category resource sev value thr observed_at =
    \<lparr>ic_key = key, ic_category = category, ic_resource = resource, ic_severity = sev,
     ic_value = value, ic_threshold = thr, ic_observed_at = observed_at, ic_detail = None,
     ic_open_after_cycles = 2, ic_recovery_cycles = 2, ic_group_key = None,
     ic_open_after_seconds = 0, ic_below_threshold = False, ic_critical_at = None,
     ic_recovery_margin = 0\<rparr>"

fun severity_text :: "severity \<Rightarrow> string" where
  "severity_text Warning = ''warning''"
| "severity_text Critical = ''critical''"

fun state_text :: "incident_state \<Rightarrow> string" where
  "state_text Opened = ''opened''"
| "state_text Resolved = ''resolved''"
| "state_text Escalated = ''escalated''"
| "state_text Deescalated = ''deescalated''"

definition active_dict :: "condition \<Rightarrow> string \<Rightarrow> obj" where
  "active_dict c host =
    [(''host'', PStr host),
     (''conditionKey'', PStr (ic_key c)),
     (''category'', PStr (ic_category c)),
     (''resource'', PStr (ic_resource c)),
     (''severity'', PStr (severity_text (ic_severity c))),
     (''value'', popt PFloat (ic_value c)),
     (''threshold'', popt PFloat (ic_threshold c)),
     (''observedAt'', PStr (ic_observed_at c)),
     (''detail'', popt PStr (ic_detail c)),
     (''groupKey'', popt PStr (ic_group_key c)),
     (''belowThreshold'', PBool (ic_below_threshold c))]"

record event =
  ev_event_id :: nat
  ev_host :: string
  ev_condition :: condition
  ev_state :: incident_state
  ev_observed_at :: string

definition event_to_dict :: "event \<Rightarrow> obj" where
  "event_to_dict e =
    dmerge (active_dict (ev_condition e) (ev_host e))
      [(''eventId'', PInt (int (ev_event_id e))),
       (''state'', PStr (state_text (ev_state e))),
       (''observedAt'', PStr (ev_observed_at e))]"

text \<open>A condition that was open when the previous process stopped.\<close>

record open_incident =
  oi_host :: string
  oi_condition :: condition
  oi_opened_at :: string

section \<open>Telemetry domains\<close>

definition system_categories :: "string list" where
  "system_categories = [''cpu'', ''memory'', ''swap'', ''disk'', ''pressure'']"

definition gpu_health_categories :: "string list" where
  "gpu_health_categories = [''gpu_ecc'', ''gpu_memory_repair'', ''gpu_slowdown'']"

definition condition_domains :: "string \<Rightarrow> string \<Rightarrow> string list" where
  "condition_domains category key =
    (let identity = part_after (CHR '':'') key in
     if category = ''cpu'' then [''system'', ''system_cpu'']
     else if category = ''pressure'' then [''system'', key]
     else if category \<in> set system_categories then [''system'']
     else if category \<in> {''gpu_availability'', ''gpu_count''} then [''gpu_query'']
     else if category = ''gpu_ecc'' then [''gpu_present:'' @ identity, ''gpu_ecc:'' @ identity]
     else if category \<in> set gpu_health_categories
       then [''gpu_present:'' @ identity, ''gpu_health:'' @ identity]
     else if category = ''gpu_processes'' then [''gpu_processes'']
     else if category = ''gpu_temperature''
       then [''gpu_present:'' @ identity, ''gpu_temperature:'' @ identity]
     else if category = ''gpu_memory'' then [''gpu_present:'' @ identity, ''gpu_memory:'' @ identity]
     else if category = ''gpu_idle_memory''
       then [''gpu_present:'' @ identity, ''gpu_memory:'' @ identity, ''gpu_utilization:'' @ identity]
     else [])"

definition per_identity_gpu_domains :: "string list" where
  "per_identity_gpu_domains =
    [''gpu_present'', ''gpu_health'', ''gpu_ecc'', ''gpu_temperature'', ''gpu_memory'',
     ''gpu_utilization'']"

definition telemetry_unknown :: "string \<Rightarrow> string \<Rightarrow> string list \<Rightarrow> bool" where
  "telemetry_unknown category key observed =
    (let missing = filter (\<lambda>d. d \<notin> set observed) (condition_domains category key) in
     if missing = [] then False
     else if ''gpu_inventory'' \<in> set observed then
       (if \<exists>d \<in> set missing. part_before (CHR '':'') d \<notin> set per_identity_gpu_domains then True
        else if \<forall>d \<in> set missing. ''gpu_present:'' @ part_after (CHR '':'') d \<notin> set observed
          then False
        else True)
     else True)"

section \<open>GPU hardware health\<close>

text \<open>The confirmation parameters a resource condition takes from the policy.\<close>

definition with_resource_cycles :: "incident_config \<Rightarrow> condition \<Rightarrow> condition" where
  "with_resource_cycles cfg c =
    c\<lparr>ic_open_after_cycles := in_resource_open_cycles cfg,
      ic_open_after_seconds := in_resource_open_seconds cfg,
      ic_recovery_cycles := in_recovery_cycles cfg\<rparr>"

definition gpu_health_conditions ::
  "gpu_metrics \<Rightarrow> string \<Rightarrow> string \<Rightarrow> incident_config \<Rightarrow> (string, condition) dict" where
  "gpu_health_conditions gpu identity observed_at cfg =
    (case gm_health gpu of
       None \<Rightarrow> []
     | Some health \<Rightarrow>
        (let d0 = [];
             ecc = (case gh_ecc_uncorrected_volatile health of None \<Rightarrow> 0 | Some n \<Rightarrow> n);
             d1 = (if 0 < ecc then
                (let key = ''gpu_ecc:'' @ identity in
                 dset d0 key (with_resource_cycles cfg
                   ((mk_condition key ''gpu_ecc'' (''GPU '' @ int_str (gm_index gpu) @ '' ECC'')
                       Critical (Some (of_int ecc)) (Some 0) observed_at)
                    \<lparr>ic_detail := Some ''Volatile uncorrected ECC errors detected''\<rparr>)))
               else d0);
             d2 = (if gh_retired_pages_pending health = Some True
                      \<or> gh_remapped_rows_pending health = Some True then
                (let key = ''gpu_memory_repair:'' @ identity in
                 dset d1 key (with_resource_cycles cfg
                   ((mk_condition key ''gpu_memory_repair''
                       (''GPU '' @ int_str (gm_index gpu) @ '' memory'')
                       Critical None None observed_at)
                    \<lparr>ic_detail := Some ''GPU memory repair is pending''\<rparr>)))
               else d1);
             thermal = gh_thermal_slowdown health = Some True;
             brake = gh_power_brake_slowdown health = Some True;
             d3 = (if thermal \<or> brake then
                (let key = ''gpu_slowdown:'' @ identity;
                     causes = (if thermal then [''thermal''] else [])
                              @ (if brake then [''power brake''] else [])
                 in dset d2 key (with_resource_cycles cfg
                   ((mk_condition key ''gpu_slowdown'' (''GPU '' @ int_str (gm_index gpu))
                       (if thermal then Critical else Warning) None None observed_at)
                    \<lparr>ic_detail := Some (''Hardware slowdown active: '' @ join '', '' causes)\<rparr>)))
               else d2)
         in d3))"

section \<open>Lemmas\<close>

named_theorems condition_simps \<open>fields of the constructed conditions\<close>

lemma mk_condition_sel [simp, condition_simps]:
  "ic_key (mk_condition k c r s v t ob) = k"
  "ic_category (mk_condition k c r s v t ob) = c"
  "ic_severity (mk_condition k c r s v t ob) = s"
  "ic_value (mk_condition k c r s v t ob) = v"
  "ic_threshold (mk_condition k c r s v t ob) = t"
  "ic_observed_at (mk_condition k c r s v t ob) = ob"
  "ic_below_threshold (mk_condition k c r s v t ob) = False"
  "ic_open_after_cycles (mk_condition k c r s v t ob) = 2"
  "ic_critical_at (mk_condition k c r s v t ob) = None"
  by (simp_all add: mk_condition_def)

lemma with_resource_cycles_sel [simp, condition_simps]:
  "ic_key (with_resource_cycles cfg c) = ic_key c"
  "ic_category (with_resource_cycles cfg c) = ic_category c"
  "ic_severity (with_resource_cycles cfg c) = ic_severity c"
  "ic_value (with_resource_cycles cfg c) = ic_value c"
  "ic_threshold (with_resource_cycles cfg c) = ic_threshold c"
  "ic_observed_at (with_resource_cycles cfg c) = ic_observed_at c"
  "ic_below_threshold (with_resource_cycles cfg c) = ic_below_threshold c"
  "ic_open_after_cycles (with_resource_cycles cfg c) = in_resource_open_cycles cfg"
  "ic_recovery_cycles (with_resource_cycles cfg c) = in_recovery_cycles cfg"
  by (simp_all add: with_resource_cycles_def)

text \<open>Every condition a dictionary holds is stored under its own key.\<close>

definition keyed :: "(string, condition) dict \<Rightarrow> bool" where
  "keyed d \<longleftrightarrow> (\<forall>(k, c) \<in> set d. ic_key c = k)"

lemma keyed_Nil [simp, intro]: "keyed []"
  by (simp add: keyed_def)

lemma keyed_Cons [simp]: "keyed ((k, c) # d) \<longleftrightarrow> ic_key c = k \<and> keyed d"
  by (auto simp: keyed_def)

lemma keyed_dset [intro]: "keyed d \<Longrightarrow> ic_key c = k \<Longrightarrow> keyed (dset d k c)"
  using set_dset [of k c d] by (auto simp: keyed_def)

lemma keyed_dmerge [intro]: "keyed d \<Longrightarrow> keyed e \<Longrightarrow> keyed (dmerge d e)"
proof (induction e arbitrary: d)
  case (Cons kv e)
  obtain k c where kv: "kv = (k, c)" by fastforce
  with Cons.prems have "keyed (dset d k c)" "keyed e" by (auto intro: keyed_dset)
  then show ?case unfolding kv dmerge_Cons by (rule Cons.IH)
qed simp

lemma keyedD: "keyed d \<Longrightarrow> dget d k = Some c \<Longrightarrow> ic_key c = k"
  by (auto simp: keyed_def dest: map_of_SomeD)

lemma keyed_gpu_health: "keyed (gpu_health_conditions g i ob cfg)"
  unfolding gpu_health_conditions_def Let_def
  by (auto split: option.split intro!: keyed_dset)

lemma wf_gpu_health: "wf_dict (gpu_health_conditions g i ob cfg)"
  unfolding gpu_health_conditions_def Let_def
  by (auto split: option.split)

text \<open>A condition all of whose domains were observed is never unknown; without a complete
  GPU inventory, one missing domain is enough to freeze it.\<close>

lemma telemetry_known:
  "set (condition_domains category key) \<subseteq> set observed \<Longrightarrow> \<not> telemetry_unknown category key observed"
  by (auto simp: telemetry_unknown_def filter_empty_conv)

lemma telemetry_unknown_no_inventory:
  "''gpu_inventory'' \<notin> set observed \<Longrightarrow>
    telemetry_unknown category key observed
      \<longleftrightarrow> \<not> set (condition_domains category key) \<subseteq> set observed"
  by (auto simp: telemetry_unknown_def filter_empty_conv)


lemma condition_domains_simps [simp]:
  "condition_domains ''cpu'' k = [''system'', ''system_cpu'']"
  "condition_domains ''pressure'' k = [''system'', k]"
  "condition_domains ''memory'' k = [''system'']"
  "condition_domains ''swap'' k = [''system'']"
  "condition_domains ''disk'' k = [''system'']"
  "condition_domains ''gpu_availability'' k = [''gpu_query'']"
  "condition_domains ''gpu_count'' k = [''gpu_query'']"
  "condition_domains ''gpu_processes'' k = [''gpu_processes'']"
  "condition_domains ''connectivity'' k = []"
  by (simp_all add: condition_domains_def Let_def system_categories_def gpu_health_categories_def)

lemma condition_domains_gpu [simp]:
  "condition_domains ''gpu_ecc'' k =
    [''gpu_present:'' @ part_after (CHR '':'') k, ''gpu_ecc:'' @ part_after (CHR '':'') k]"
  "condition_domains ''gpu_memory_repair'' k =
    [''gpu_present:'' @ part_after (CHR '':'') k, ''gpu_health:'' @ part_after (CHR '':'') k]"
  "condition_domains ''gpu_slowdown'' k =
    [''gpu_present:'' @ part_after (CHR '':'') k, ''gpu_health:'' @ part_after (CHR '':'') k]"
  "condition_domains ''gpu_temperature'' k =
    [''gpu_present:'' @ part_after (CHR '':'') k, ''gpu_temperature:'' @ part_after (CHR '':'') k]"
  "condition_domains ''gpu_memory'' k =
    [''gpu_present:'' @ part_after (CHR '':'') k, ''gpu_memory:'' @ part_after (CHR '':'') k]"
  "condition_domains ''gpu_idle_memory'' k =
    [''gpu_present:'' @ part_after (CHR '':'') k, ''gpu_memory:'' @ part_after (CHR '':'') k,
     ''gpu_utilization:'' @ part_after (CHR '':'') k]"
  by (simp_all add: condition_domains_def Let_def system_categories_def gpu_health_categories_def)

end
