(* ===== verification/Threshold_Policy.thy ===== *)
theory Threshold_Policy
  imports Incident_Types
begin

text \<open>
  The threshold policy (\<open>ThresholdIncidentPolicy\<close> of \<open>incidents.py\<close>): it turns one probe
  result into the conditions the result shows and says which telemetry the result observed.
  Its state is the configured thresholds and overrides with two per-host caches; the lemmas
  show that the caches never change an answer.
\<close>

section \<open>State\<close>

record policy =
  po_threshold_values :: "(string, rat) dict"
  po_expected_gpu_counts :: "(string, int) dict"
  po_incidents :: incident_config
  po_host_overrides :: "(string, scope_override) dict"
  po_group_overrides :: "(string, scope_override) dict"
  po_host_groups :: "(string, string) dict"
  po_effective_thresholds :: "(string, (string, rat) dict) dict"
  po_effective_disk_exclusions :: "(string, string list) dict"

definition new_policy ::
  "threshold_config \<Rightarrow> (string \<times> int) list \<Rightarrow> incident_config option \<Rightarrow>
   (string \<times> scope_override) list \<Rightarrow> (string \<times> scope_override) list \<Rightarrow> (string \<times> string) list \<Rightarrow> policy"
  where
  "new_policy thresholds expected incidents host_overrides group_overrides host_groups =
    \<lparr>po_threshold_values = thresholds_to_dict thresholds,
     po_expected_gpu_counts = dict_of expected,
     po_incidents = (case incidents of None \<Rightarrow> default_incidents | Some i \<Rightarrow> i),
     po_host_overrides = dict_of host_overrides,
     po_group_overrides = dict_of group_overrides,
     po_host_groups = dict_of host_groups,
     po_effective_thresholds = [],
     po_effective_disk_exclusions = []\<rparr>"

definition update_expected_gpu_counts :: "policy \<Rightarrow> (string \<times> int) list \<Rightarrow> policy" where
  "update_expected_gpu_counts p expected = p\<lparr>po_expected_gpu_counts := dict_of expected\<rparr>"

definition update_overrides ::
  "policy \<Rightarrow> (string \<times> scope_override) list \<Rightarrow> (string \<times> scope_override) list \<Rightarrow>
   (string \<times> string) list \<Rightarrow> policy" where
  "update_overrides p host_overrides group_overrides host_groups =
    p\<lparr>po_host_overrides := dict_of host_overrides,
      po_group_overrides := dict_of group_overrides,
      po_host_groups := dict_of host_groups,
      po_effective_thresholds := [],
      po_effective_disk_exclusions := []\<rparr>"

definition retain_hosts :: "policy \<Rightarrow> string list \<Rightarrow> policy" where
  "retain_hosts p hosts =
    (if set (keys (po_effective_thresholds p)) \<subseteq> set hosts
        \<and> set (keys (po_effective_disk_exclusions p)) \<subseteq> set hosts
     then p
     else p\<lparr>po_effective_thresholds := drestrict (\<lambda>h. h \<in> set hosts) (po_effective_thresholds p),
            po_effective_disk_exclusions :=
              drestrict (\<lambda>h. h \<in> set hosts) (po_effective_disk_exclusions p)\<rparr>)"

section \<open>Effective thresholds and exclusions\<close>

text \<open>The group's override a host falls under; an empty group name counts as no group.\<close>

definition group_override_for :: "policy \<Rightarrow> string \<Rightarrow> scope_override option" where
  "group_override_for p host =
    (case dget (po_host_groups p) host of
       None \<Rightarrow> None
     | Some grp \<Rightarrow> if grp = [] then None else dget (po_group_overrides p) grp)"

definition fresh_thresholds :: "policy \<Rightarrow> string \<Rightarrow> (string, rat) dict" where
  "fresh_thresholds p host =
    (let values = po_threshold_values p;
         values = (case group_override_for p host of
                     None \<Rightarrow> values | Some o' \<Rightarrow> dmerge values (so_thresholds o'))
     in case dget (po_host_overrides p) host of
          None \<Rightarrow> values | Some o' \<Rightarrow> dmerge values (so_thresholds o'))"

definition thresholds_for :: "policy \<Rightarrow> string \<Rightarrow> (string, rat) dict \<times> policy" where
  "thresholds_for p host =
    (case dget (po_effective_thresholds p) host of
       Some cached \<Rightarrow> (cached, p)
     | None \<Rightarrow>
        (let values = fresh_thresholds p host
         in (values, p\<lparr>po_effective_thresholds := dset (po_effective_thresholds p) host values\<rparr>)))"

definition fresh_exclusions :: "policy \<Rightarrow> string \<Rightarrow> string list" where
  "fresh_exclusions p host =
    (case group_override_for p host of None \<Rightarrow> [] | Some o' \<Rightarrow> so_exclude_disk_mounts o')
    @ (case dget (po_host_overrides p) host of None \<Rightarrow> [] | Some o' \<Rightarrow> so_exclude_disk_mounts o')"

definition excluded_disk_mounts :: "policy \<Rightarrow> string \<Rightarrow> string list \<times> policy" where
  "excluded_disk_mounts p host =
    (case dget (po_effective_disk_exclusions p) host of
       Some cached \<Rightarrow> (cached, p)
     | None \<Rightarrow>
        (let result = fresh_exclusions p host
         in (result, p\<lparr>po_effective_disk_exclusions :=
                          dset (po_effective_disk_exclusions p) host result\<rparr>)))"

text \<open>\<open>thresholds[name]\<close>; the names the policy asks for are always present
  (\<open>fresh_thresholds_complete\<close>), so the default is never read.\<close>

definition threshold_of :: "(string, rat) dict \<Rightarrow> string \<Rightarrow> rat" where
  "threshold_of d name = dget_or 0 d name"

section \<open>Deriving conditions\<close>

definition gpu_query_failure_messages :: "string list" where
  "gpu_query_failure_messages =
    [''nvidia-smi is unavailable'', ''nvidia-smi query failed'', ''nvidia-smi output was malformed'']"

definition gpu_query_failed :: "probe_result \<Rightarrow> bool" where
  "gpu_query_failed r \<longleftrightarrow>
    (case pr_message r of None \<Rightarrow> False | Some m \<Rightarrow> m \<in> set gpu_query_failure_messages)"

definition percentage :: "rat \<Rightarrow> rat \<Rightarrow> rat" where
  "percentage used whole = (if 0 < whole then round_to 2 (used / whole * 100) else 0)"

definition severity_of :: "rat \<Rightarrow> rat \<Rightarrow> severity" where
  "severity_of value critical_at = (if critical_at \<le> value then Critical else Warning)"

definition network_disk_group_key :: "string \<Rightarrow> string \<Rightarrow> string option" where
  "network_disk_group_key device filesystem_type =
    (let fs = lower filesystem_type;
         is_network =
           fs \<in> {''nfs'', ''nfs4'', ''cifs'', ''smb3'', ''sshfs'', ''ceph'', ''glusterfs''}
           \<or> startswith fs ''fuse.sshfs'' \<or> startswith fs ''fuse.glusterfs''
           \<or> startswith device ''//''
           \<or> (CHR '':'' \<in> set device \<and> \<not> startswith device ''/'')
     in if is_network then Some (fs @ ''|'' @ device) else None)"

definition percentage_condition ::
  "incident_config \<Rightarrow> string \<Rightarrow> string \<Rightarrow> string \<Rightarrow> rat \<Rightarrow> rat \<Rightarrow> string \<Rightarrow> rat \<Rightarrow>
   string option \<Rightarrow> string option \<Rightarrow> condition" where
  "percentage_condition cfg key category resource rounded thr observed_at critical_at group_key detail =
    \<lparr>ic_key = key, ic_category = category, ic_resource = resource,
     ic_severity = severity_of rounded critical_at, ic_value = Some rounded,
     ic_threshold = Some thr, ic_observed_at = observed_at, ic_detail = detail,
     ic_open_after_cycles = in_resource_open_cycles cfg,
     ic_recovery_cycles = in_recovery_cycles cfg, ic_group_key = group_key,
     ic_open_after_seconds = in_resource_open_seconds cfg,
     ic_below_threshold = (rounded < thr), ic_critical_at = Some critical_at,
     ic_recovery_margin = in_recovery_margin cfg\<rparr>"

text \<open>\<open>_add_percentage\<close>: derived down to the recovery margin below the threshold.\<close>

definition add_percentage ::
  "incident_config \<Rightarrow> string \<Rightarrow> string \<Rightarrow> string \<Rightarrow> rat option \<Rightarrow> rat \<Rightarrow> string \<Rightarrow> rat \<Rightarrow>
   string option \<Rightarrow> string option \<Rightarrow> (string, condition) dict \<Rightarrow> (string, condition) dict" where
  "add_percentage cfg key category resource value thr observed_at critical_at group_key detail d =
    (case value of
       None \<Rightarrow> d
     | Some v \<Rightarrow>
        if v < thr - in_recovery_margin cfg then d
        else dset d key (percentage_condition cfg key category resource (round_to 2 v) thr
               observed_at critical_at group_key detail))"

definition connectivity_condition :: "incident_config \<Rightarrow> probe_result \<Rightarrow> condition" where
  "connectivity_condition cfg r =
    (mk_condition ''connectivity'' ''connectivity'' ''SSH'' Critical None None (pr_observed_at r))
      \<lparr>ic_detail := pr_message r, ic_open_after_cycles := 1,
       ic_recovery_cycles := in_recovery_cycles cfg\<rparr>"

definition add_gpu_availability ::
  "incident_config \<Rightarrow> probe_result \<Rightarrow> (string, condition) dict \<Rightarrow> (string, condition) dict" where
  "add_gpu_availability cfg r d =
    (if gpu_query_failed r then
       dset d ''gpu_availability''
         ((mk_condition ''gpu_availability'' ''gpu_availability'' ''NVIDIA telemetry'' Critical
             None None (pr_observed_at r))
           \<lparr>ic_detail := pr_message r, ic_open_after_cycles := 1,
            ic_recovery_cycles := in_recovery_cycles cfg\<rparr>)
     else d)"

definition add_gpu_count ::
  "policy \<Rightarrow> probe_result \<Rightarrow> (string, condition) dict \<Rightarrow> (string, condition) dict" where
  "add_gpu_count p r d =
    (case dget (po_expected_gpu_counts p) (pr_host r) of
       None \<Rightarrow> d
     | Some expected \<Rightarrow>
        (let n = int (length (pr_gpus r)) in
         if \<not> gpu_query_failed r \<and> n \<noteq> expected then
           dset d ''gpu_count''
             ((mk_condition ''gpu_count'' ''gpu_count'' ''GPU inventory''
                 (if n < expected then Critical else Warning)
                 (Some (of_int n)) (Some (of_int expected)) (pr_observed_at r))
               \<lparr>ic_detail := Some (''Expected '' @ int_str expected @ '' GPUs; observed '' @ int_str n),
                ic_open_after_cycles := 1,
                ic_recovery_cycles := in_recovery_cycles (po_incidents p)\<rparr>)
         else d))"

definition add_memory_conditions ::
  "incident_config \<Rightarrow> (string \<Rightarrow> rat) \<Rightarrow> string \<Rightarrow> system_metrics \<Rightarrow>
   (string, condition) dict \<Rightarrow> (string, condition) dict" where
  "add_memory_conditions cfg thr ob s d =
    (let d = add_percentage cfg ''cpu'' ''cpu'' ''CPU'' (sm_cpu_usage_pct s)
               (thr ''cpu_warning_pct'') ob 95 None None d;
         d = add_percentage cfg ''memory'' ''memory'' ''RAM''
               (Some (percentage (sm_memory_used_mib s) (sm_memory_total_mib s)))
               (thr ''memory_warning_pct'') ob 95 None None d
     in if 0 < sm_swap_total_mib s
        then add_percentage cfg ''swap'' ''swap'' ''Swap''
               (Some (percentage (sm_swap_used_mib s) (sm_swap_total_mib s)))
               (thr ''swap_warning_pct'') ob 90 None None d
        else d)"

definition add_pressure ::
  "incident_config \<Rightarrow> (string \<Rightarrow> rat) \<Rightarrow> string \<Rightarrow> string \<Rightarrow> string \<Rightarrow> string \<Rightarrow>
   pressure_sample option \<Rightarrow> (string, condition) dict \<Rightarrow> (string, condition) dict" where
  "add_pressure cfg thr ob resource threshold_name label sample d =
    (case sample of
       None \<Rightarrow> d
     | Some s \<Rightarrow>
        (let psi_threshold = thr threshold_name in
         add_percentage cfg (''pressure:'' @ resource) ''pressure'' (label @ '' pressure'')
           (Some (ps_some_avg60 s)) psi_threshold ob (min 100 (psi_threshold * 2)) None
           (Some (''Tasks stalled on '' @ resource @ '' for '' @ float2_str (ps_some_avg60 s)
                  @ ''% of the last minute'')) d))"

definition add_pressures ::
  "incident_config \<Rightarrow> (string \<Rightarrow> rat) \<Rightarrow> string \<Rightarrow> system_metrics \<Rightarrow>
   (string, condition) dict \<Rightarrow> (string, condition) dict" where
  "add_pressures cfg thr ob s d =
    (case sm_pressure s of
       None \<Rightarrow> d
     | Some p \<Rightarrow>
        add_pressure cfg thr ob ''io'' ''psi_io_some_pct'' ''I/O'' (pm_io p)
          (add_pressure cfg thr ob ''memory'' ''psi_memory_some_pct'' ''Memory'' (pm_memory p) d))"

definition add_disk ::
  "incident_config \<Rightarrow> (string \<Rightarrow> rat) \<Rightarrow> string \<Rightarrow> string list \<Rightarrow> disk_metrics \<Rightarrow>
   (string, condition) dict \<Rightarrow> (string, condition) dict" where
  "add_disk cfg thr ob excluded disk d =
    (if dm_mountpoint disk \<in> set excluded then d
     else (let starved = dm_available_mib disk < thr ''disk_min_free_gib'' * 1024 in
       add_percentage cfg (''disk:'' @ dm_device disk @ '':'' @ dm_mountpoint disk) ''disk''
         (dm_mountpoint disk) (Some (dm_used_pct disk)) (thr ''disk_warning_pct'') ob
         (if starved then 0 else 95)
         (network_disk_group_key (dm_device disk) (dm_filesystem_type disk)) None d))"

definition add_gpu_processes ::
  "incident_config \<Rightarrow> probe_result \<Rightarrow> (string, condition) dict \<Rightarrow> (string, condition) dict" where
  "add_gpu_processes cfg r d =
    (if \<exists>g \<in> set (pr_gpus r). gm_processes_sampled g \<and> \<not> gm_processes_available g then
       dset d ''gpu_processes''
         (with_resource_cycles cfg
           ((mk_condition ''gpu_processes'' ''gpu_processes'' ''GPU processes'' Warning None None
               (pr_observed_at r))
             \<lparr>ic_detail := Some ''GPU process telemetry is unavailable''\<rparr>))
     else d)"

definition gpu_identity :: "gpu_metrics \<Rightarrow> string" where
  "gpu_identity g = (if gm_uuid g = [] then int_str (gm_index g) else gm_uuid g)"

definition gpu_memory_pct :: "gpu_metrics \<Rightarrow> rat option" where
  "gpu_memory_pct g =
    (case (gm_memory_used_mib g, gm_memory_total_mib g) of
       (Some used, Some whole) \<Rightarrow> if 0 < whole then Some (percentage used whole) else None
     | _ \<Rightarrow> None)"

definition add_idle_memory ::
  "incident_config \<Rightarrow> (string \<Rightarrow> rat) \<Rightarrow> string \<Rightarrow> gpu_metrics \<Rightarrow>
   (string, condition) dict \<Rightarrow> (string, condition) dict" where
  "add_idle_memory cfg thr ob g d =
    (let margin = in_recovery_margin cfg; idle_threshold = thr ''gpu_idle_memory_pct'' in
     case (gpu_memory_pct g, gm_utilization_gpu_pct g) of
       (Some memory_pct, Some utilization) \<Rightarrow>
         if idle_threshold - margin \<le> memory_pct
            \<and> utilization < thr ''gpu_busy_pct'' + margin
            \<and> 0 < (case gm_memory_used_mib g of None \<Rightarrow> 0 | Some u \<Rightarrow> u)
         then (let key = ''gpu_idle_memory:'' @ gpu_identity g in
           dset d key
             ((mk_condition key ''gpu_idle_memory'' (''GPU '' @ int_str (gm_index g) @ '' VRAM'')
                 Warning (Some memory_pct) (Some idle_threshold) ob)
               \<lparr>ic_detail := Some (''GPU utilization is '' @ float2_str utilization @ ''%''),
                ic_open_after_cycles := in_gpu_idle_memory_cycles cfg,
                ic_open_after_seconds := in_gpu_idle_memory_seconds cfg,
                ic_recovery_cycles := in_recovery_cycles cfg,
                ic_below_threshold :=
                  (memory_pct < idle_threshold \<or> thr ''gpu_busy_pct'' \<le> utilization),
                ic_recovery_margin := margin\<rparr>))
         else d
     | _ \<Rightarrow> d)"

definition add_gpu ::
  "incident_config \<Rightarrow> (string \<Rightarrow> rat) \<Rightarrow> string \<Rightarrow> gpu_metrics \<Rightarrow>
   (string, condition) dict \<Rightarrow> (string, condition) dict" where
  "add_gpu cfg thr ob g d =
    (let identity = gpu_identity g;
         temperature_threshold = thr ''gpu_temperature_warning_c'';
         d = add_percentage cfg (''gpu_temperature:'' @ identity) ''gpu_temperature''
               (''GPU '' @ int_str (gm_index g)) (gm_temperature_c g) temperature_threshold ob
               (temperature_threshold + 5) None None d;
         d = add_percentage cfg (''gpu_memory:'' @ identity) ''gpu_memory''
               (''GPU '' @ int_str (gm_index g) @ '' VRAM'') (gpu_memory_pct g)
               (thr ''gpu_memory_warning_pct'') ob 95 None None d;
         d = add_idle_memory cfg thr ob g d
     in dmerge d (gpu_health_conditions g identity ob cfg))"

text \<open>The online branch, over the host's effective thresholds and excluded mounts.\<close>

definition online_conditions ::
  "policy \<Rightarrow> (string \<Rightarrow> rat) \<Rightarrow> string list \<Rightarrow> probe_result \<Rightarrow> (string, condition) dict" where
  "online_conditions p thr excluded r =
    (let cfg = po_incidents p; ob = pr_observed_at r;
         d = add_gpu_availability cfg r [];
         d = add_gpu_count p r d;
         d = (case pr_system r of
                None \<Rightarrow> d
              | Some s \<Rightarrow>
                 fold (add_disk cfg thr ob excluded) (sm_disks s)
                   (add_pressures cfg thr ob s (add_memory_conditions cfg thr ob s d)));
         d = add_gpu_processes cfg r d
     in fold (add_gpu cfg thr ob) (pr_gpus r) d)"

text \<open>\<open>conditions\<close>: the exclusions are asked for (and cached) once the first disk needs them.\<close>

definition has_disks :: "probe_result \<Rightarrow> bool" where
  "has_disks r \<longleftrightarrow> (case pr_system r of None \<Rightarrow> False | Some s \<Rightarrow> sm_disks s \<noteq> [])"

definition conditions :: "policy \<Rightarrow> probe_result \<Rightarrow> (string, condition) dict \<times> policy" where
  "conditions p r =
    (let (values, p1) = thresholds_for p (pr_host r) in
     if pr_status r \<noteq> Online then
       ([(''connectivity'', connectivity_condition (po_incidents p1) r)], p1)
     else
       (let (excluded, p2) = (if has_disks r then excluded_disk_mounts p1 (pr_host r) else ([], p1))
        in (online_conditions p2 (threshold_of values) excluded r, p2)))"

definition recovery_cycles :: "policy \<Rightarrow> int" where
  "recovery_cycles p = in_recovery_cycles (po_incidents p)"

section \<open>Observed telemetry\<close>

definition system_domains :: "system_metrics \<Rightarrow> string list" where
  "system_domains s =
    [''system'']
    @ (if sm_cpu_usage_pct s \<noteq> None then [''system_cpu''] else [])
    @ (case sm_pressure s of
         None \<Rightarrow> []
       | Some p \<Rightarrow> (if pm_memory p \<noteq> None then [''pressure:memory''] else [])
                  @ (if pm_io p \<noteq> None then [''pressure:io''] else []))"

definition gpu_domains :: "gpu_metrics \<Rightarrow> string list" where
  "gpu_domains g =
    (let identity = gpu_identity g in
     [''gpu_present:'' @ identity]
     @ (if gm_temperature_c g \<noteq> None then [''gpu_temperature:'' @ identity] else [])
     @ (case (gm_memory_used_mib g, gm_memory_total_mib g) of
          (Some used, Some whole) \<Rightarrow> if 0 < whole then [''gpu_memory:'' @ identity] else []
        | _ \<Rightarrow> [])
     @ (if gm_utilization_gpu_pct g \<noteq> None then [''gpu_utilization:'' @ identity] else [])
     @ (case gm_health g of
          None \<Rightarrow> []
        | Some h \<Rightarrow> [''gpu_health:'' @ identity]
            @ (if gh_ecc_uncorrected_volatile h \<noteq> None then [''gpu_ecc:'' @ identity] else [])))"

definition observed_domains :: "probe_result \<Rightarrow> string list" where
  "observed_domains r =
    (if pr_status r \<noteq> Online then []
     else
       (case pr_system r of None \<Rightarrow> [] | Some s \<Rightarrow> system_domains s)
       @ (if gpu_query_failed r then []
          else [''gpu_query'', ''gpu_inventory'']
               @ (if \<forall>g \<in> set (pr_gpus r). gm_processes_sampled g then [''gpu_processes''] else [])
               @ concat (map gpu_domains (pr_gpus r))))"

definition condition_observed :: "probe_result \<Rightarrow> string \<Rightarrow> bool" where
  "condition_observed r key =
    (if key = ''connectivity'' then True
     else (\<forall>d \<in> set (condition_domains (part_before (CHR '':'') key) key). d \<in> set (observed_domains r)))"


section \<open>Lemmas: the caches\<close>

definition cache_ok :: "policy \<Rightarrow> bool" where
  "cache_ok p \<longleftrightarrow>
    (\<forall>host v. dget (po_effective_thresholds p) host = Some v \<longrightarrow> v = fresh_thresholds p host)
    \<and> (\<forall>host v. dget (po_effective_disk_exclusions p) host = Some v \<longrightarrow> v = fresh_exclusions p host)"

text \<open>The conditions with nothing cached.\<close>

definition pure_conditions :: "policy \<Rightarrow> probe_result \<Rightarrow> (string, condition) dict" where
  "pure_conditions p r =
    (if pr_status r \<noteq> Online then [(''connectivity'', connectivity_condition (po_incidents p) r)]
     else online_conditions p (threshold_of (fresh_thresholds p (pr_host r)))
            (if has_disks r then fresh_exclusions p (pr_host r) else []) r)"

text \<open>A policy is determined, as far as its answers go, by its configuration.\<close>

definition same_config :: "policy \<Rightarrow> policy \<Rightarrow> bool" where
  "same_config p q \<longleftrightarrow>
    po_threshold_values p = po_threshold_values q
    \<and> po_expected_gpu_counts p = po_expected_gpu_counts q
    \<and> po_incidents p = po_incidents q
    \<and> po_host_overrides p = po_host_overrides q
    \<and> po_group_overrides p = po_group_overrides q
    \<and> po_host_groups p = po_host_groups q"

lemma same_config_refl [simp]: "same_config p p"
  by (simp add: same_config_def)

lemma same_config_trans: "same_config p q \<Longrightarrow> same_config q s \<Longrightarrow> same_config p s"
  by (simp add: same_config_def)

lemma same_config_fresh:
  assumes "same_config p q"
  shows "fresh_thresholds p host = fresh_thresholds q host"
    and "fresh_exclusions p host = fresh_exclusions q host"
    and "online_conditions p thr excl r = online_conditions q thr excl r"
proof -
  have "p = q\<lparr>po_effective_thresholds := po_effective_thresholds p,
              po_effective_disk_exclusions := po_effective_disk_exclusions p\<rparr>"
    using assms by (cases p, cases q) (simp add: same_config_def)
  then obtain a b where
    p: "p = q\<lparr>po_effective_thresholds := a, po_effective_disk_exclusions := b\<rparr>" by blast
  show "fresh_thresholds p host = fresh_thresholds q host"
    and "fresh_exclusions p host = fresh_exclusions q host"
    and "online_conditions p thr excl r = online_conditions q thr excl r"
    unfolding p
    by (simp_all add: fresh_thresholds_def fresh_exclusions_def group_override_for_def
        online_conditions_def add_gpu_count_def cong: option.case_cong if_cong)
qed

lemma thresholds_for_correct:
  assumes "cache_ok p" and "thresholds_for p host = (v, q)"
  shows "v = fresh_thresholds p host \<and> same_config p q \<and> cache_ok q"
proof (cases "dget (po_effective_thresholds p) host")
  case None
  with assms(2) have v: "v = fresh_thresholds p host"
    and q: "q = p\<lparr>po_effective_thresholds := dset (po_effective_thresholds p) host v\<rparr>"
    by (auto simp: thresholds_for_def Let_def)
  then have s: "same_config p q" by (simp add: same_config_def)
  have "cache_ok q"
    unfolding cache_ok_def same_config_fresh [OF s, symmetric]
    using q assms(1) v by (simp add: cache_ok_def)
  with v s show ?thesis by simp
next
  case (Some c)
  with assms show ?thesis by (auto simp: thresholds_for_def cache_ok_def)
qed

lemma excluded_disk_mounts_correct:
  assumes "cache_ok p" and "excluded_disk_mounts p host = (v, q)"
  shows "v = fresh_exclusions p host \<and> same_config p q \<and> cache_ok q"
proof (cases "dget (po_effective_disk_exclusions p) host")
  case None
  with assms(2) have v: "v = fresh_exclusions p host"
    and q: "q = p\<lparr>po_effective_disk_exclusions := dset (po_effective_disk_exclusions p) host v\<rparr>"
    by (auto simp: excluded_disk_mounts_def Let_def)
  then have s: "same_config p q" by (simp add: same_config_def)
  have "cache_ok q"
    unfolding cache_ok_def same_config_fresh [OF s, symmetric]
    using q assms(1) v by (simp add: cache_ok_def)
  with v s show ?thesis by simp
next
  case (Some c)
  with assms show ?thesis by (auto simp: excluded_disk_mounts_def cache_ok_def)
qed

lemma conditions_correct:
  assumes "cache_ok p" and "conditions p r = (d, q)"
  shows "d = pure_conditions p r \<and> same_config p q \<and> cache_ok q"
proof -
  obtain vals p1 where t: "thresholds_for p (pr_host r) = (vals, p1)" by fastforce
  from thresholds_for_correct [OF assms(1) t]
  have 1: "vals = fresh_thresholds p (pr_host r)" "same_config p p1" "cache_ok p1" by auto
  obtain excluded p2 where e:
    "(if has_disks r then excluded_disk_mounts p1 (pr_host r) else ([], p1)) = (excluded, p2)"
    by fastforce
  have 2: "excluded = (if has_disks r then fresh_exclusions p1 (pr_host r) else [])"
    "same_config p1 p2" "cache_ok p2"
    using e excluded_disk_mounts_correct [OF 1(3)] 1(3) by (auto split: if_splits)
  have c: "po_incidents p1 = po_incidents p" using 1(2) by (simp add: same_config_def)
  have s: "same_config p p2" by (rule same_config_trans [OF 1(2) 2(2)])
  show ?thesis
  proof (cases "pr_status r = Online")
    case True
    then have d: "d = online_conditions p2 (threshold_of vals) excluded r" and q: "q = p2"
      using assms(2) t e by (auto simp add: conditions_def)
    have "d = pure_conditions p r"
      unfolding d pure_conditions_def 1(1) 2(1) same_config_fresh(3) [OF s, symmetric]
        same_config_fresh(2) [OF 1(2), symmetric]
      using True by simp
    with q s 2(3) show ?thesis by simp
  next
    case False
    then show ?thesis using assms(2) t c 1 by (auto simp: conditions_def pure_conditions_def)
  qed
qed

lemma cache_ok_new: "cache_ok (new_policy t e i h g hg)"
  by (simp add: cache_ok_def new_policy_def)

lemma cache_ok_update_overrides: "cache_ok (update_overrides p h g hg)"
  by (simp add: cache_ok_def update_overrides_def)

lemma cache_ok_expected: "cache_ok p \<Longrightarrow> cache_ok (update_expected_gpu_counts p e)"
  by (simp add: cache_ok_def update_expected_gpu_counts_def fresh_thresholds_def
      fresh_exclusions_def group_override_for_def cong: option.case_cong if_cong)

lemma retain_hosts_correct:
  "cache_ok p \<Longrightarrow> same_config p (retain_hosts p hosts) \<and> cache_ok (retain_hosts p hosts)"
proof -
  assume ok: "cache_ok p"
  have s: "same_config p (retain_hosts p hosts)"
    by (simp add: retain_hosts_def same_config_def)
  have "cache_ok (retain_hosts p hosts)"
    unfolding cache_ok_def same_config_fresh [OF s, symmetric]
    using ok by (simp add: cache_ok_def retain_hosts_def)
  with s show ?thesis by simp
qed

text \<open>The eleven thresholds are there for every host, whatever the overrides.\<close>

lemma fresh_thresholds_keys:
  "fst ` set (po_threshold_values p) \<subseteq> fst ` set (fresh_thresholds p host)"
  by (auto simp: fresh_thresholds_def Let_def split: option.splits)

lemma fresh_thresholds_complete:
  assumes "po_threshold_values p = thresholds_to_dict t"
    and "name \<in> fst ` set (thresholds_to_dict t)"
  shows "dget (fresh_thresholds p host) name = Some (threshold_of (fresh_thresholds p host) name)"
  using fresh_thresholds_keys [of p host] assms
  by (auto simp: threshold_of_def dget_or_def split: option.split dest: keys_obtain
      simp: dget_None_iff)

section \<open>Lemmas: what is derived\<close>

definition all_conds :: "(string \<Rightarrow> condition \<Rightarrow> bool) \<Rightarrow> (string, condition) dict \<Rightarrow> bool" where
  "all_conds P d \<longleftrightarrow> (\<forall>(k, c) \<in> set d. P k c)"

named_theorems all_conds_intros \<open>what every derived condition satisfies\<close>

lemma all_conds_Nil [simp, all_conds_intros]: "all_conds P []"
  by (simp add: all_conds_def)

lemma all_conds_Cons [simp]: "all_conds P ((k, c) # d) \<longleftrightarrow> P k c \<and> all_conds P d"
  by (auto simp: all_conds_def)

lemma all_conds_dset: "all_conds P d \<Longrightarrow> P k c \<Longrightarrow> all_conds P (dset d k c)"
  using set_dset [of k c d] by (auto simp: all_conds_def)

lemma all_conds_if:
  "all_conds P d \<Longrightarrow> (b \<Longrightarrow> P k c) \<Longrightarrow> all_conds P (if b then dset d k c else d)"
  by (simp add: all_conds_dset)

lemma all_conds_dmerge: "all_conds P d \<Longrightarrow> all_conds P e \<Longrightarrow> all_conds P (dmerge d e)"
proof (induction e arbitrary: d)
  case (Cons kv e)
  obtain k c where kv: "kv = (k, c)" by fastforce
  with Cons.prems have "all_conds P (dset d k c)" "all_conds P e" by (auto intro: all_conds_dset)
  then show ?case unfolding kv dmerge_Cons by (rule Cons.IH)
qed simp

lemma all_conds_fold:
  "all_conds P d \<Longrightarrow> (\<And>x d. x \<in> set xs \<Longrightarrow> all_conds P d \<Longrightarrow> all_conds P (f x d)) \<Longrightarrow>
    all_conds P (fold f xs d)"
  by (induction xs arbitrary: d) simp_all

lemma all_condsD: "all_conds P d \<Longrightarrow> (k, c) \<in> set d \<Longrightarrow> P k c"
  by (auto simp: all_conds_def)

lemma all_conds_add_percentage:
  assumes "all_conds P d"
    and "\<And>v. value = Some v \<Longrightarrow> thr - in_recovery_margin cfg \<le> v \<Longrightarrow>
      P key (percentage_condition cfg key category resource (round_to 2 v) thr ob ca gk dt)"
  shows "all_conds P (add_percentage cfg key category resource value thr ob ca gk dt d)"
  using assms by (auto simp: add_percentage_def not_less intro: all_conds_dset split: option.splits)

lemma percentage_condition_sel [simp, condition_simps]:
  "ic_key (percentage_condition cfg key cat res v thr ob ca gk dt) = key"
  "ic_category (percentage_condition cfg key cat res v thr ob ca gk dt) = cat"
  "ic_severity (percentage_condition cfg key cat res v thr ob ca gk dt) = severity_of v ca"
  "ic_value (percentage_condition cfg key cat res v thr ob ca gk dt) = Some v"
  "ic_threshold (percentage_condition cfg key cat res v thr ob ca gk dt) = Some thr"
  "ic_observed_at (percentage_condition cfg key cat res v thr ob ca gk dt) = ob"
  "ic_below_threshold (percentage_condition cfg key cat res v thr ob ca gk dt) = (v < thr)"
  "ic_critical_at (percentage_condition cfg key cat res v thr ob ca gk dt) = Some ca"
  "ic_recovery_margin (percentage_condition cfg key cat res v thr ob ca gk dt) = in_recovery_margin cfg"
  by (simp_all add: percentage_condition_def)

text \<open>Every derived condition is stored under its own key.\<close>

lemma keyed_all_conds: "keyed d \<longleftrightarrow> all_conds (\<lambda>k c. ic_key c = k) d"
  by (simp add: keyed_def all_conds_def)

lemma keyed_add_percentage:
  "keyed d \<Longrightarrow> keyed (add_percentage cfg key cat res v thr ob ca gk dt d)"
  unfolding keyed_all_conds by (rule all_conds_add_percentage) simp_all

lemma wf_add_percentage:
  "wf_dict d \<Longrightarrow> wf_dict (add_percentage cfg key cat res v thr ob ca gk dt d)"
  by (simp add: add_percentage_def split: option.split)

definition good_dict :: "(string, condition) dict \<Rightarrow> bool" where
  "good_dict d \<longleftrightarrow> keyed d \<and> wf_dict d"

lemma good_Nil [simp]: "good_dict []"
  by (simp add: good_dict_def)

lemma good_Cons [simp]:
  "good_dict ((k, c) # d) \<longleftrightarrow> ic_key c = k \<and> k \<notin> fst ` set d \<and> good_dict d"
  by (auto simp: good_dict_def)

lemma good_dset: "good_dict d \<Longrightarrow> ic_key c = k \<Longrightarrow> good_dict (dset d k c)"
  by (auto simp: good_dict_def intro: keyed_dset)

lemma good_add_percentage:
  "good_dict d \<Longrightarrow> good_dict (add_percentage cfg key cat res v thr ob ca gk dt d)"
  by (simp add: good_dict_def keyed_add_percentage wf_add_percentage)

lemma good_fold: "good_dict d \<Longrightarrow> (\<And>x d. good_dict d \<Longrightarrow> good_dict (f x d)) \<Longrightarrow> good_dict (fold f xs d)"
  by (induction xs arbitrary: d) simp_all

lemma good_add_gpu: "good_dict d \<Longrightarrow> good_dict (add_gpu cfg thr ob g d)"
proof -
  have idle: "good_dict d \<Longrightarrow> good_dict (add_idle_memory cfg thr ob g d)" for d
    unfolding add_idle_memory_def Let_def
    by (auto split: option.split intro!: good_dset)
  assume "good_dict d"
  then have "good_dict (add_idle_memory cfg thr ob g
    (add_percentage cfg (''gpu_memory:'' @ gpu_identity g) ''gpu_memory''
      (''GPU '' @ int_str (gm_index g) @ '' VRAM'') (gpu_memory_pct g)
      (thr ''gpu_memory_warning_pct'') ob 95 None None
      (add_percentage cfg (''gpu_temperature:'' @ gpu_identity g) ''gpu_temperature''
        (''GPU '' @ int_str (gm_index g)) (gm_temperature_c g) (thr ''gpu_temperature_warning_c'') ob
        (thr ''gpu_temperature_warning_c'' + 5) None None d)))"
    by (intro idle good_add_percentage)
  then show ?thesis
    unfolding add_gpu_def Let_def good_dict_def
    by (auto intro!: keyed_dmerge wf_dict_dmerge keyed_gpu_health)
qed

lemma good_online_conditions: "good_dict (online_conditions p thr excluded r)"
proof -
  let ?cfg = "po_incidents p" and ?ob = "pr_observed_at r"
  have 1: "good_dict (add_gpu_count p r (add_gpu_availability ?cfg r []))"
    unfolding add_gpu_count_def add_gpu_availability_def Let_def
    by (simp split: option.split)
  have mem: "good_dict d \<Longrightarrow> good_dict (add_memory_conditions ?cfg thr ?ob s d)" for s d
    by (simp add: add_memory_conditions_def Let_def good_add_percentage)
  have psi: "good_dict d \<Longrightarrow> good_dict (add_pressures ?cfg thr ?ob s d)" for s d
    by (simp add: add_pressures_def add_pressure_def Let_def good_add_percentage split: option.split)
  have disk: "good_dict d \<Longrightarrow> good_dict (add_disk ?cfg thr ?ob excluded x d)" for x d
    by (simp add: add_disk_def Let_def good_add_percentage)
  have procs: "good_dict d \<Longrightarrow> good_dict (add_gpu_processes ?cfg r d)" for d
    by (simp add: add_gpu_processes_def good_dset)
  show ?thesis
    unfolding online_conditions_def Let_def
    by (auto intro!: good_fold good_add_gpu procs disk psi mem 1 split: option.split)
qed

lemma good_conditions: "good_dict (fst (conditions p r))"
  by (simp add: conditions_def good_online_conditions connectivity_condition_def split: prod.split)


section \<open>Lemmas: a condition is derived from observed telemetry\<close>

definition backed :: "probe_result \<Rightarrow> string \<Rightarrow> condition \<Rightarrow> bool" where
  "backed r k c \<longleftrightarrow> ic_category c = ''gpu_processes'' \<or>
    set (condition_domains (ic_category c) k) \<subseteq> set (observed_domains r)"

lemma observed_system:
  assumes "pr_status r = Online" and "pr_system r = Some s"
  shows "set (system_domains s) \<subseteq> set (observed_domains r)"
  using assms by (auto simp: observed_domains_def)

lemma observed_gpu:
  assumes "pr_status r = Online" and "\<not> gpu_query_failed r" and "g \<in> set (pr_gpus r)"
  shows "set (gpu_domains g) \<subseteq> set (observed_domains r)"
  using assms by (auto simp: observed_domains_def)

lemma backed_system:
  assumes "pr_status r = Online" and "pr_system r = Some s"
    and "set (condition_domains (ic_category c) k) \<subseteq> set (system_domains s)"
  shows "backed r k c"
  using observed_system [OF assms(1,2)] assms(3) by (auto simp: backed_def)

lemma backed_gpu:
  assumes "pr_status r = Online" and "\<not> gpu_query_failed r" and "g \<in> set (pr_gpus r)"
    and "set (condition_domains (ic_category c) k) \<subseteq> set (gpu_domains g)"
  shows "backed r k c"
  using observed_gpu [OF assms(1-3)] assms(4) by (auto simp: backed_def)

lemma gpu_memory_pct_domain:
  "gpu_memory_pct g \<noteq> None \<Longrightarrow> ''gpu_memory:'' @ gpu_identity g \<in> set (gpu_domains g)"
  by (auto simp: gpu_memory_pct_def gpu_domains_def Let_def split: option.splits if_splits)

lemma health_backed:
  assumes "pr_status r = Online" "\<not> gpu_query_failed r" "g \<in> set (pr_gpus r)"
  shows "all_conds (backed r) (gpu_health_conditions g (gpu_identity g) ob cfg)"
proof (cases "gm_health g")
  case None
  then show ?thesis by (simp add: gpu_health_conditions_def)
next
  case (Some h)
  have dom: "''gpu_present:'' @ gpu_identity g \<in> set (gpu_domains g)"
    "''gpu_health:'' @ gpu_identity g \<in> set (gpu_domains g)"
    "gh_ecc_uncorrected_volatile h \<noteq> None \<Longrightarrow> ''gpu_ecc:'' @ gpu_identity g \<in> set (gpu_domains g)"
    by (simp_all add: gpu_domains_def Let_def Some)
  show ?thesis
    unfolding gpu_health_conditions_def Some option.case Let_def
    by (intro all_conds_if all_conds_Nil backed_gpu [OF assms])
      (use dom in \<open>auto split: option.splits\<close>)
qed

lemma gpu_backed:
  assumes "pr_status r = Online" "\<not> gpu_query_failed r" "g \<in> set (pr_gpus r)"
    and "all_conds (backed r) d"
  shows "all_conds (backed r) (add_gpu cfg thr ob g d)"
proof -
  note b = backed_gpu [OF assms(1-3)]
  let ?i = "gpu_identity g"
  have pres: "''gpu_present:'' @ ?i \<in> set (gpu_domains g)"
    by (simp add: gpu_domains_def Let_def)
  have temp: "''gpu_temperature:'' @ ?i \<in> set (gpu_domains g)" if "gm_temperature_c g \<noteq> None"
    using that by (simp add: gpu_domains_def Let_def)
  have util: "''gpu_utilization:'' @ ?i \<in> set (gpu_domains g)" if "gm_utilization_gpu_pct g \<noteq> None"
    using that by (simp add: gpu_domains_def Let_def)
  note mem = gpu_memory_pct_domain [of g]
  have idle: "all_conds (backed r) (add_idle_memory cfg thr ob g d)" if "all_conds (backed r) d" for d
    using that pres mem util unfolding add_idle_memory_def Let_def
    by (auto split: option.split intro!: all_conds_dset b)
  have "all_conds (backed r) (add_idle_memory cfg thr ob g
    (add_percentage cfg (''gpu_memory:'' @ ?i) ''gpu_memory''
      (''GPU '' @ int_str (gm_index g) @ '' VRAM'') (gpu_memory_pct g)
      (thr ''gpu_memory_warning_pct'') ob 95 None None
      (add_percentage cfg (''gpu_temperature:'' @ ?i) ''gpu_temperature''
        (''GPU '' @ int_str (gm_index g)) (gm_temperature_c g) (thr ''gpu_temperature_warning_c'') ob
        (thr ''gpu_temperature_warning_c'' + 5) None None d)))"
    using assms(4) pres temp mem by (intro idle all_conds_add_percentage b) auto
  then show ?thesis
    unfolding add_gpu_def Let_def by (intro all_conds_dmerge health_backed assms(1-3))
qed

lemma system_backed:
  assumes "pr_status r = Online" "pr_system r = Some s" and "all_conds (backed r) d"
  shows "all_conds (backed r)
    (fold (add_disk cfg thr ob excluded) (sm_disks s)
      (add_pressures cfg thr ob s (add_memory_conditions cfg thr ob s d)))"
proof -
  note b = backed_system [OF assms(1,2)]
  have "all_conds (backed r) (add_memory_conditions cfg thr ob s d)"
    unfolding add_memory_conditions_def Let_def
    using assms(3) by (auto intro!: all_conds_add_percentage b simp: system_domains_def)
  then have "all_conds (backed r) (add_pressures cfg thr ob s (add_memory_conditions cfg thr ob s d))"
    unfolding add_pressures_def add_pressure_def Let_def
    by (auto intro!: all_conds_add_percentage b simp: system_domains_def split: option.split)
  then show ?thesis
    by (intro all_conds_fold)
      (auto simp: add_disk_def Let_def system_domains_def intro!: all_conds_add_percentage b)
qed

lemma online_backed:
  assumes "pr_status r = Online" "\<not> gpu_query_failed r"
  shows "all_conds (backed r) (online_conditions p thr excluded r)"
proof -
  let ?cfg = "po_incidents p" and ?ob = "pr_observed_at r"
  have "''gpu_query'' \<in> set (observed_domains r)"
    using assms by (simp add: observed_domains_def)
  then have 1: "all_conds (backed r) (add_gpu_count p r (add_gpu_availability ?cfg r []))"
    using assms(2) unfolding add_gpu_count_def add_gpu_availability_def Let_def
    by (simp add: backed_def split: option.split)
  have procs: "all_conds (backed r) (add_gpu_processes ?cfg r d)" if "all_conds (backed r) d" for d
    using that by (simp add: add_gpu_processes_def all_conds_dset backed_def)
  show ?thesis
    unfolding online_conditions_def Let_def
    using assms
    by (intro all_conds_fold gpu_backed procs)
      (auto intro!: system_backed 1 split: option.split)
qed

lemma pure_conditions_backed:
  assumes "pr_status r = Online" "\<not> gpu_query_failed r" "(k, c) \<in> set (pure_conditions p r)"
  shows "backed r k c"
  using all_condsD [OF online_backed [OF assms(1,2)]] assms(1,3)
  by (simp add: pure_conditions_def)

section \<open>Lemmas: thresholds, hysteresis and severity\<close>

text \<open>What the numbers of a condition with a critical line say.\<close>

definition banded :: "rat \<Rightarrow> condition \<Rightarrow> bool" where
  "banded margin c \<longleftrightarrow>
    (case (ic_critical_at c, ic_value c, ic_threshold c) of
       (Some ca, Some v, Some t) \<Rightarrow>
         t - margin - 1 / 200 \<le> v \<and> (ic_below_threshold c \<longleftrightarrow> v < t)
         \<and> (ic_severity c = Critical \<longleftrightarrow> ca \<le> v) \<and> ic_recovery_margin c = margin
     | (Some ca, _, _) \<Rightarrow> False
     | _ \<Rightarrow> True)"

lemma banded_no_line [simp]: "ic_critical_at c = None \<Longrightarrow> banded m c"
  by (simp add: banded_def)

lemma banded_add_percentage:
  assumes "all_conds (\<lambda>k c. banded (in_recovery_margin cfg) c) d"
  shows "all_conds (\<lambda>k c. banded (in_recovery_margin cfg) c)
    (add_percentage cfg key cat res v thr ob ca gk dt d)"
proof (rule all_conds_add_percentage [OF assms])
  fix x
  assume "thr - in_recovery_margin cfg \<le> x"
  moreover have "\<bar>round_to 2 x - x\<bar> \<le> 1 / 200" using round_to_error [of 2 x] by simp
  ultimately have "thr - in_recovery_margin cfg - 1 / 200 \<le> round_to 2 x" by linarith
  then show "banded (in_recovery_margin cfg)
      (percentage_condition cfg key cat res (round_to 2 x) thr ob ca gk dt)"
    by (simp add: banded_def severity_of_def)
qed

lemma banded_health: "all_conds (\<lambda>k c. banded m c) (gpu_health_conditions g i ob cfg)"
proof (cases "gm_health g")
  case None
  then show ?thesis by (simp add: gpu_health_conditions_def)
next
  case (Some h)
  have "banded m (with_resource_cycles cfg c)" if "ic_critical_at c = None" for c
    using that by (simp add: banded_def with_resource_cycles_def)
  then show ?thesis
    unfolding gpu_health_conditions_def Some option.case Let_def
    by (auto intro!: all_conds_dset)
qed

lemma online_banded:
  "all_conds (\<lambda>k c. banded (in_recovery_margin (po_incidents p)) c)
    (online_conditions p thr excluded r)"
proof -
  let ?cfg = "po_incidents p" and ?ob = "pr_observed_at r"
  let ?P = "\<lambda>k c. banded (in_recovery_margin (po_incidents p)) c"
  note pct = banded_add_percentage [of "po_incidents p"]
  have 1: "all_conds ?P (add_gpu_count p r (add_gpu_availability ?cfg r []))"
    unfolding add_gpu_count_def add_gpu_availability_def Let_def
    by (simp add: banded_def split: option.split)
  have procs: "all_conds ?P (add_gpu_processes ?cfg r d)" if "all_conds ?P d" for d
    using that
    by (simp add: add_gpu_processes_def all_conds_dset banded_def with_resource_cycles_def)
  have sys: "all_conds ?P (fold (add_disk ?cfg thr ?ob excluded) (sm_disks s)
      (add_pressures ?cfg thr ?ob s (add_memory_conditions ?cfg thr ?ob s d)))"
    if "all_conds ?P d" for s d
  proof -
    have "all_conds ?P (add_memory_conditions ?cfg thr ?ob s d)"
      unfolding add_memory_conditions_def Let_def using that by (auto intro!: pct)
    then have "all_conds ?P (add_pressures ?cfg thr ?ob s (add_memory_conditions ?cfg thr ?ob s d))"
      unfolding add_pressures_def add_pressure_def Let_def by (auto intro!: pct split: option.split)
    then show ?thesis
      by (intro all_conds_fold) (auto simp: add_disk_def Let_def intro!: pct)
  qed
  have gpu: "all_conds ?P (add_gpu ?cfg thr ?ob g d)" if "all_conds ?P d" for g d
  proof -
    have "all_conds ?P (add_idle_memory ?cfg thr ?ob g d)" if "all_conds ?P d" for d
      using that unfolding add_idle_memory_def Let_def
      by (auto split: option.split intro!: all_conds_dset)
    then show ?thesis
      unfolding add_gpu_def Let_def using that by (intro all_conds_dmerge banded_health) (auto intro!: pct)
  qed
  show ?thesis
    unfolding online_conditions_def Let_def
    by (intro all_conds_fold gpu procs) (auto intro!: sys 1 split: option.split)
qed

end
