(* ===== verification/Incident_Tracker.thy ===== *)
theory Incident_Tracker
  imports Threshold_Policy
begin

text \<open>
  The incident tracker (\<open>IncidentTracker\<close> of \<open>incidents.py\<close>): it opens, escalates, resolves
  and freezes the conditions a policy derives from each probe result, and keeps a bounded log
  of the transitions. The state is the tracker's six per-host dictionaries with its log;
  \<open>tracker_update\<close> is \<open>update\<close>, step by step. Reading a missing key would raise, so the
  recovery loop returns an error there; the tracker's invariant shows that it never does.
\<close>

section \<open>State\<close>

record event_log =
  el_events :: "event list"
  el_capacity :: nat
  el_version :: nat
  el_next_event_id :: nat

record tracker =
  tr_active :: "(string, (string, condition) dict) dict"
  tr_candidates :: "(string, (string, condition \<times> int \<times> string) dict) dict"
  tr_recoveries :: "(string, (string, int) dict) dict"
  tr_severity_changes :: "(string, (string, severity \<times> int \<times> string) dict) dict"
  tr_opened_at :: "(string, (string, string) dict) dict"
  tr_last_observed_at :: "(string, (string, string) dict) dict"
  tr_log :: event_log

text \<open>The six dictionaries of one host, as one \<open>update\<close> works on them.\<close>

record host_work =
  hw_current :: "(string, condition) dict"
  hw_candidates :: "(string, condition \<times> int \<times> string) dict"
  hw_recoveries :: "(string, int) dict"
  hw_severity_changes :: "(string, severity \<times> int \<times> string) dict"
  hw_opened_at :: "(string, string) dict"
  hw_last_observed_at :: "(string, string) dict"

definition load_host :: "tracker \<Rightarrow> string \<Rightarrow> host_work" where
  "load_host t host =
    \<lparr>hw_current = dsub (tr_active t) host,
     hw_candidates = dsub (tr_candidates t) host,
     hw_recoveries = dsub (tr_recoveries t) host,
     hw_severity_changes = dsub (tr_severity_changes t) host,
     hw_opened_at = dsub (tr_opened_at t) host,
     hw_last_observed_at = dsub (tr_last_observed_at t) host\<rparr>"

definition store_host :: "tracker \<Rightarrow> string \<Rightarrow> host_work \<Rightarrow> event_log \<Rightarrow> tracker" where
  "store_host t host w lg =
    \<lparr>tr_active = dset (tr_active t) host (hw_current w),
     tr_candidates = dset (tr_candidates t) host (hw_candidates w),
     tr_recoveries = dset (tr_recoveries t) host (hw_recoveries w),
     tr_severity_changes = dset (tr_severity_changes t) host (hw_severity_changes w),
     tr_opened_at = dset (tr_opened_at t) host (hw_opened_at w),
     tr_last_observed_at = dset (tr_last_observed_at t) host (hw_last_observed_at w),
     tr_log = lg\<rparr>"

section \<open>Construction\<close>

definition restore_open :: "int \<Rightarrow> tracker \<Rightarrow> open_incident \<Rightarrow> tracker" where
  "restore_open cycles t oi =
    (let host = oi_host oi; key = ic_key (oi_condition oi) in
     t\<lparr>tr_active := dset (tr_active t) host
         (dset (dsub (tr_active t) host) key ((oi_condition oi)\<lparr>ic_recovery_cycles := cycles\<rparr>)),
       tr_opened_at := dset (tr_opened_at t) host
         (dset (dsub (tr_opened_at t) host) key (oi_opened_at oi)),
       tr_last_observed_at := dset (tr_last_observed_at t) host
         (dset (dsub (tr_last_observed_at t) host) key (ic_observed_at (oi_condition oi)))\<rparr>)"

definition new_tracker :: "int \<Rightarrow> nat \<Rightarrow> event list \<Rightarrow> open_incident list \<Rightarrow> tracker" where
  "new_tracker cycles history_points historical_events open_incidents =
    (let retained = slice_last history_points historical_events;
         last_event_id = foldl max 0 (map ev_event_id retained);
         lg = \<lparr>el_events = deque_of history_points retained, el_capacity = history_points,
                el_version = last_event_id, el_next_event_id = last_event_id + 1\<rparr>
     in foldl (restore_open cycles)
          \<lparr>tr_active = [], tr_candidates = [], tr_recoveries = [], tr_severity_changes = [],
           tr_opened_at = [], tr_last_observed_at = [], tr_log = lg\<rparr>
          open_incidents)"

section \<open>The transition log\<close>

definition append_event ::
  "event_log \<Rightarrow> string \<Rightarrow> condition \<Rightarrow> incident_state \<Rightarrow> string \<Rightarrow> event \<times> event_log" where
  "append_event lg host c st observed_at =
    (let ev = \<lparr>ev_event_id = el_next_event_id lg, ev_host = host, ev_condition = c,
               ev_state = st, ev_observed_at = observed_at\<rparr>
     in (ev, lg\<lparr>el_events := deque_append (el_capacity lg) (el_events lg) ev,
                 el_next_event_id := el_next_event_id lg + 1,
                 el_version := el_version lg + 1\<rparr>))"

section \<open>Confirmation\<close>

definition holds_severity :: "condition \<Rightarrow> condition \<Rightarrow> bool" where
  "holds_severity new previous \<longleftrightarrow>
    ic_severity previous = Critical \<and> ic_severity new = Warning
    \<and> (case (ic_value new, ic_critical_at new) of
         (Some v, Some ca) \<Rightarrow>
           ic_critical_at previous = Some ca \<and> ca - ic_recovery_margin new \<le> v
       | _ \<Rightarrow> False)"

definition sustained :: "string \<Rightarrow> condition \<Rightarrow> bool" where
  "sustained since c \<longleftrightarrow>
    (if ic_open_after_seconds c \<le> 0 then True
     else case (epoch_seconds since, epoch_seconds (ic_observed_at c)) of
       (Some started, Some now) \<Rightarrow> ic_open_after_seconds c \<le> now - started
     | _ \<Rightarrow> True)"

text \<open>Between the work on one host, the log and the events created so far.\<close>

type_synonym progress = "host_work \<times> event_log \<times> event list"

definition emit :: "string \<Rightarrow> string \<Rightarrow> condition \<Rightarrow> incident_state \<Rightarrow> progress \<Rightarrow> progress" where
  "emit host observed_at c st pg =
    (let (w, lg, created) = pg; (ev, lg') = append_event lg host c st observed_at
     in (w, lg', created @ [ev]))"

text \<open>An observed condition that is already active.\<close>

definition step_active ::
  "string \<Rightarrow> string \<Rightarrow> string \<Rightarrow> condition \<Rightarrow> condition \<Rightarrow> progress \<Rightarrow> progress" where
  "step_active host observed_at key old new pg =
    (let (w, lg, created) = pg;
         w = w\<lparr>hw_candidates := dpop (hw_candidates w) key,
               hw_last_observed_at := dset (hw_last_observed_at w) key (ic_observed_at new)\<rparr>;
         new = (if holds_severity new old then new\<lparr>ic_severity := ic_severity old\<rparr> else new)
     in if ic_severity old = ic_severity new then
          (w\<lparr>hw_severity_changes := dpop (hw_severity_changes w) key,
             hw_current := dset (hw_current w) key new\<rparr>, lg, created)
        else
          (let (pending, count, since) =
                 dget_or (ic_severity new, 0, ic_observed_at new) (hw_severity_changes w) key;
               (count, since) =
                 (if pending \<noteq> ic_severity new then (0, ic_observed_at new) else (count, since));
               count = count + 1
           in if count < ic_open_after_cycles new \<or> \<not> sustained since new then
                (w\<lparr>hw_severity_changes :=
                     dset (hw_severity_changes w) key (ic_severity new, count, since),
                   hw_current := dset (hw_current w) key
                     (new\<lparr>ic_severity := ic_severity old, ic_critical_at := ic_critical_at old\<rparr>)\<rparr>,
                 lg, created)
              else
                emit host observed_at new
                  (if ic_severity new = Critical then Escalated else Deescalated)
                  (w\<lparr>hw_severity_changes := dpop (hw_severity_changes w) key,
                     hw_current := dset (hw_current w) key new\<rparr>, lg, created)))"

text \<open>An observed condition that is not active: it confirms, or it opens.\<close>

definition step_inactive ::
  "string \<Rightarrow> string \<Rightarrow> string \<Rightarrow> condition \<Rightarrow> progress \<Rightarrow> progress" where
  "step_inactive host observed_at key new pg =
    (let (w, lg, created) = pg in
     if ic_below_threshold new then pg
     else
       (let (candidate, count, since) = dget_or (new, 0, ic_observed_at new) (hw_candidates w) key;
            (count, since) =
              (if ic_severity candidate \<noteq> ic_severity new then (0, ic_observed_at new)
               else (count, since));
            count = count + 1
        in if ic_open_after_cycles new \<le> count \<and> sustained since new then
             emit host observed_at new Opened
               (w\<lparr>hw_candidates := dpop (hw_candidates w) key,
                  hw_current := dset (hw_current w) key new,
                  hw_opened_at := dset (hw_opened_at w) key (ic_observed_at new),
                  hw_last_observed_at := dset (hw_last_observed_at w) key (ic_observed_at new)\<rparr>,
                lg, created)
           else
             (w\<lparr>hw_candidates := dset (hw_candidates w) key (new, count, since)\<rparr>, lg, created)))"

definition step_observed ::
  "string \<Rightarrow> string \<Rightarrow> (string, condition) dict \<Rightarrow> string \<times> condition \<Rightarrow> progress \<Rightarrow> progress" where
  "step_observed host observed_at previous kc pg =
    (let (key, new) = kc; (w, lg, created) = pg;
         pg = (w\<lparr>hw_recoveries := dpop (hw_recoveries w) key\<rparr>, lg, created)
     in case dget previous key of
          Some old \<Rightarrow> step_active host observed_at key old new pg
        | None \<Rightarrow> step_inactive host observed_at key new pg)"

section \<open>Recovery\<close>

datatype py_error = KeyError string

definition delayed :: "string \<Rightarrow> string \<Rightarrow> bool" where
  "delayed observed_at opened_at \<longleftrightarrow>
    (case (epoch_seconds observed_at, epoch_seconds opened_at) of
       (Some sample_time, Some opening_time) \<Rightarrow> sample_time < opening_time
     | _ \<Rightarrow> False)"

definition step_recovery ::
  "string \<Rightarrow> string \<Rightarrow> string list \<Rightarrow> string \<Rightarrow> condition \<Rightarrow> progress \<Rightarrow> py_error + progress" where
  "step_recovery host observed_at domains key old pg =
    (let (w, lg, created) = pg in
     case dget (hw_opened_at w) key of
       None \<Rightarrow> Inl (KeyError key)
     | Some opened \<Rightarrow>
        if delayed observed_at opened then Inr pg
        else if telemetry_unknown (ic_category old) key domains then Inr pg
        else
          (let w = w\<lparr>hw_severity_changes := dpop (hw_severity_changes w) key\<rparr>;
               recovery_count = dget_or 0 (hw_recoveries w) key + 1
           in if ic_recovery_cycles old \<le> recovery_count then
                Inr (emit host observed_at old Resolved
                  (w\<lparr>hw_recoveries := dpop (hw_recoveries w) key,
                     hw_current := dpop (hw_current w) key,
                     hw_opened_at := dpop (hw_opened_at w) key,
                     hw_last_observed_at := dpop (hw_last_observed_at w) key\<rparr>, lg, created))
              else
                Inr (w\<lparr>hw_recoveries := dset (hw_recoveries w) key recovery_count\<rparr>, lg, created)))"

fun recover_all ::
  "string \<Rightarrow> string \<Rightarrow> string list \<Rightarrow> (string, condition) dict \<Rightarrow> string list \<Rightarrow> progress \<Rightarrow>
   py_error + progress" where
  "recover_all host observed_at domains previous [] pg = Inr pg"
| "recover_all host observed_at domains previous (key # ks) pg =
    (case dget previous key of
       None \<Rightarrow> Inl (KeyError key)
     | Some old \<Rightarrow>
        (case step_recovery host observed_at domains key old pg of
           Inl e \<Rightarrow> Inl e
         | Inr pg' \<Rightarrow> recover_all host observed_at domains previous ks pg'))"

section \<open>The update of one result\<close>

text \<open>
  \<open>h\<close> ranks the keys of the set \<open>set(previous) - set(observed)\<close>, whose iteration order Python
  leaves open. The two clean-up loops delete keys, in any order.
\<close>

definition confirming :: "(string, condition) dict \<Rightarrow> (string, condition) dict" where
  "confirming observed = filter (\<lambda>kc. \<not> ic_below_threshold (snd kc)) observed"

definition prepare :: "(string, condition) dict \<Rightarrow> host_work \<Rightarrow> host_work" where
  "prepare observed w =
    w\<lparr>hw_candidates := drestrict (\<lambda>k. k \<in> set (keys (confirming observed))) (hw_candidates w),
      hw_severity_changes := drestrict (\<lambda>k. k \<in> set (keys observed)) (hw_severity_changes w)\<rparr>"

definition tracker_apply ::
  "(string \<Rightarrow> nat) \<Rightarrow> (string, condition) dict \<Rightarrow> string list \<Rightarrow> probe_result \<Rightarrow> tracker \<Rightarrow>
   py_error + (event list \<times> tracker)" where
  "tracker_apply h observed domains r t =
    (let host = pr_host r; ob = pr_observed_at r;
         w0 = load_host t host;
         previous = hw_current w0;
         pg = fold (step_observed host ob previous) observed (prepare observed w0, tr_log t, [])
     in case (if pr_status r = Online
              then recover_all host ob domains previous
                     (set_iter h (filter (\<lambda>k. k \<notin> set (keys observed)) (keys previous))) pg
              else Inr pg) of
          Inl e \<Rightarrow> Inl e
        | Inr (w, lg, created) \<Rightarrow> Inr (created, store_host t host w lg))"

definition tracker_update ::
  "(string \<Rightarrow> nat) \<Rightarrow> policy \<Rightarrow> probe_result \<Rightarrow> tracker \<Rightarrow>
   py_error + (event list \<times> tracker \<times> policy)" where
  "tracker_update h p r t =
    (let (observed, p') = conditions p r in
     case tracker_apply h observed (observed_domains r) r t of
       Inl e \<Rightarrow> Inl e
     | Inr (created, t') \<Rightarrow> Inr (created, t', p'))"

section \<open>Removing hosts and reading the state\<close>

definition remove_host :: "tracker \<Rightarrow> string \<Rightarrow> tracker" where
  "remove_host t host =
    (let had_active = dsub (tr_active t) host \<noteq> []; lg = tr_log t in
     t\<lparr>tr_active := dpop (tr_active t) host,
       tr_candidates := dpop (tr_candidates t) host,
       tr_recoveries := dpop (tr_recoveries t) host,
       tr_severity_changes := dpop (tr_severity_changes t) host,
       tr_opened_at := dpop (tr_opened_at t) host,
       tr_last_observed_at := dpop (tr_last_observed_at t) host,
       tr_log := (if had_active then lg\<lparr>el_version := el_version lg + 1\<rparr> else lg)\<rparr>)"

definition remove_hosts :: "tracker \<Rightarrow> string list \<Rightarrow> tracker" where
  "remove_hosts t desired =
    foldl remove_host t (filter (\<lambda>host. host \<notin> set desired) (keys (tr_active t)))"

definition has_active_condition :: "tracker \<Rightarrow> string \<Rightarrow> string \<Rightarrow> bool" where
  "has_active_condition t host key \<longleftrightarrow> dget (dsub (tr_active t) host) key \<noteq> None"

definition has_pending_condition :: "tracker \<Rightarrow> string \<Rightarrow> string \<Rightarrow> bool" where
  "has_pending_condition t host key \<longleftrightarrow> dget (dsub (tr_candidates t) host) key \<noteq> None"

definition active_started_at :: "tracker \<Rightarrow> string \<Rightarrow> string \<Rightarrow> string option" where
  "active_started_at t host key =
    (if has_active_condition t host key then dget (dsub (tr_opened_at t) host) key else None)"

type_synonym signature_row =
  "string \<times> severity \<times> rat option \<times> rat option \<times> string option \<times> string"

definition active_signature :: "tracker \<Rightarrow> string \<Rightarrow> signature_row list" where
  "active_signature t host =
    map (\<lambda>(key, c). (key, ic_severity c, ic_value c, ic_threshold c, ic_detail c, ic_resource c))
      (sort_key fst (dsub (tr_active t) host))"

text \<open>One entry of the active list, with the two timestamps \<open>snapshot\<close> adds.\<close>

record incident_item =
  it_host :: string
  it_condition :: condition
  it_first_observed_at :: string
  it_last_observed_at :: string

definition item_of :: "tracker \<Rightarrow> string \<Rightarrow> string \<times> condition \<Rightarrow> incident_item" where
  "item_of t host kc =
    \<lparr>it_host = host, it_condition = snd kc,
     it_first_observed_at = dget_or (ic_observed_at (snd kc)) (dsub (tr_opened_at t) host) (fst kc),
     it_last_observed_at =
       dget_or (ic_observed_at (snd kc)) (dsub (tr_last_observed_at t) host) (fst kc)\<rparr>"

definition item_order :: "incident_item \<Rightarrow> bool \<times> string \<times> string" where
  "item_order i = (ic_severity (it_condition i) \<noteq> Critical, it_host i, ic_key (it_condition i))"

record tracker_snapshot =
  ts_version :: nat
  ts_active :: "incident_item list"
  ts_events :: "event list"
  ts_event_capacity :: nat

definition snapshot_active :: "tracker \<Rightarrow> incident_item list" where
  "snapshot_active t =
    sort_key item_order
      (concat (map (\<lambda>host. map (item_of t host) (sort_key fst (dsub (tr_active t) host)))
        (sort (keys (tr_active t)))))"

definition tracker_snapshot :: "tracker \<Rightarrow> nat \<Rightarrow> tracker_snapshot" where
  "tracker_snapshot t limit =
    \<lparr>ts_version = el_version (tr_log t), ts_active = snapshot_active t,
     ts_events = rev (slice_last limit (el_events (tr_log t))),
     ts_event_capacity = el_capacity (tr_log t)\<rparr>"

end
