(* ===== verification/Incident_Lifecycle.thy ===== *)
theory Incident_Lifecycle
  imports Incident_Tracker
begin

text \<open>
  The abstract specification of the incident tracker and the proof that the tracker implements
  it. One incident (a host and a condition key) is a small state machine, the \<open>phase\<close>: idle,
  pending confirmation, or active. \<open>phase_step\<close> is its reaction to one sample. The tracker
  keeps the same information spread over six dictionaries of dictionaries;
  \<open>tracker_apply_refines\<close> shows that one update moves every incident of the sampled host
  by \<open>phase_step\<close>, leaves the other hosts alone and never raises.
\<close>

section \<open>The specification of one incident\<close>

datatype phase =
    Idle
  | Pending condition int string
  | Active condition string string "(severity \<times> int \<times> string) option" "int option"

type_synonym transition = "incident_state \<times> condition"

text \<open>A confirmable observation while the incident is not active; \<open>n\<close> observations of the
  same severity came before it, the first one at \<open>since\<close>.\<close>

definition confirm :: "condition \<Rightarrow> int \<Rightarrow> string \<Rightarrow> phase \<times> transition list" where
  "confirm new n since =
    (if ic_below_threshold new then (Idle, [])
     else if ic_open_after_cycles new \<le> n + 1 \<and> sustained since new
       then (Active new (ic_observed_at new) (ic_observed_at new) None None, [(Opened, new)])
     else (Pending new (n + 1) since, []))"

definition hold :: "condition \<Rightarrow> condition \<Rightarrow> condition" where
  "hold new old = (if holds_severity new old then new\<lparr>ic_severity := ic_severity old\<rparr> else new)"

fun change_streak :: "condition \<Rightarrow> (severity \<times> int \<times> string) option \<Rightarrow> int \<times> string" where
  "change_streak new None = (0, ic_observed_at new)"
| "change_streak new (Some (p, n, since)) =
    (if p \<noteq> ic_severity new then (0, ic_observed_at new) else (n, since))"

fun observe :: "condition \<Rightarrow> phase \<Rightarrow> phase \<times> transition list" where
  "observe new Idle = confirm new 0 (ic_observed_at new)"
| "observe new (Pending c n since) =
    (if ic_severity c \<noteq> ic_severity new then confirm new 0 (ic_observed_at new)
     else confirm new n since)"
| "observe new (Active old opened seen sc rc) =
    (let new = hold new old in
     if ic_severity old = ic_severity new
       then (Active new opened (ic_observed_at new) None None, [])
     else
       (let (n, since) = change_streak new sc in
        if n + 1 < ic_open_after_cycles new \<or> \<not> sustained since new then
          (Active (new\<lparr>ic_severity := ic_severity old, ic_critical_at := ic_critical_at old\<rparr>)
             opened (ic_observed_at new) (Some (ic_severity new, n + 1, since)) None, [])
        else
          (Active new opened (ic_observed_at new) None None,
           [(if ic_severity new = Critical then Escalated else Deescalated, new)])))"

text \<open>A sample that does not show the condition.\<close>

definition speaks :: "bool \<Rightarrow> string \<Rightarrow> string list \<Rightarrow> condition \<Rightarrow> string \<Rightarrow> bool" where
  "speaks online ob domains c opened \<longleftrightarrow>
    online \<and> \<not> delayed ob opened \<and> \<not> telemetry_unknown (ic_category c) (ic_key c) domains"

fun absent :: "bool \<Rightarrow> string \<Rightarrow> string list \<Rightarrow> phase \<Rightarrow> phase \<times> transition list" where
  "absent online ob domains (Active c opened seen sc rc) =
    (if \<not> speaks online ob domains c opened then (Active c opened seen None rc, [])
     else
       (let n = (case rc of None \<Rightarrow> 0 | Some m \<Rightarrow> m) + 1 in
        if ic_recovery_cycles c \<le> n then (Idle, [(Resolved, c)])
        else (Active c opened seen None (Some n), [])))"
| "absent online ob domains _ = (Idle, [])"

definition phase_step ::
  "bool \<Rightarrow> string \<Rightarrow> string list \<Rightarrow> condition option \<Rightarrow> phase \<Rightarrow> phase \<times> transition list" where
  "phase_step online ob domains obs ph =
    (case obs of Some new \<Rightarrow> observe new ph | None \<Rightarrow> absent online ob domains ph)"

section \<open>The tracker's entries for one incident\<close>

record slot =
  sl_current :: "condition option"
  sl_candidate :: "(condition \<times> int \<times> string) option"
  sl_recovery :: "int option"
  sl_change :: "(severity \<times> int \<times> string) option"
  sl_opened :: "string option"
  sl_last :: "string option"

definition slot_at :: "host_work \<Rightarrow> string \<Rightarrow> slot" where
  "slot_at w k =
    \<lparr>sl_current = dget (hw_current w) k, sl_candidate = dget (hw_candidates w) k,
     sl_recovery = dget (hw_recoveries w) k, sl_change = dget (hw_severity_changes w) k,
     sl_opened = dget (hw_opened_at w) k, sl_last = dget (hw_last_observed_at w) k\<rparr>"

fun rep :: "phase \<Rightarrow> slot" where
  "rep Idle =
    \<lparr>sl_current = None, sl_candidate = None, sl_recovery = None, sl_change = None,
     sl_opened = None, sl_last = None\<rparr>"
| "rep (Pending c n since) =
    \<lparr>sl_current = None, sl_candidate = Some (c, n, since), sl_recovery = None, sl_change = None,
     sl_opened = None, sl_last = None\<rparr>"
| "rep (Active c opened seen sc rc) =
    \<lparr>sl_current = Some c, sl_candidate = None, sl_recovery = rc, sl_change = sc,
     sl_opened = Some opened, sl_last = Some seen\<rparr>"

definition phase_of :: "slot \<Rightarrow> phase" where
  "phase_of s =
    (case sl_current s of
       Some c \<Rightarrow> Active c (the (sl_opened s)) (the (sl_last s)) (sl_change s) (sl_recovery s)
     | None \<Rightarrow> (case sl_candidate s of None \<Rightarrow> Idle | Some (c, n, since) \<Rightarrow> Pending c n since))"

lemma phase_of_rep [simp]: "phase_of (rep ph) = ph"
  by (cases ph) (simp_all add: phase_of_def)

text \<open>The six entries are consistent, and an active condition is stored under its own key.\<close>

fun phase_keyed :: "string \<Rightarrow> phase \<Rightarrow> bool" where
  "phase_keyed k (Active c opened seen sc rc) \<longleftrightarrow> ic_key c = k"
| "phase_keyed k _ \<longleftrightarrow> True"

definition slot_ok :: "string \<Rightarrow> slot \<Rightarrow> bool" where
  "slot_ok k s \<longleftrightarrow> rep (phase_of s) = s \<and> phase_keyed k (phase_of s)"

lemma slot_ok_rep [simp]: "slot_ok k (rep ph) \<longleftrightarrow> phase_keyed k ph"
  by (simp add: slot_ok_def)

lemma slot_okE:
  assumes "slot_ok k s"
  obtains ph where "s = rep ph" "phase_keyed k ph"
  using assms unfolding slot_ok_def by metis

lemma hold_sel [simp]:
  "ic_key (hold new old) = ic_key new"
  "ic_observed_at (hold new old) = ic_observed_at new"
  "ic_open_after_cycles (hold new old) = ic_open_after_cycles new"
  by (simp_all add: hold_def)

lemma confirm_keyed: "ic_key new = k \<Longrightarrow> phase_keyed k (fst (confirm new n since))"
  by (simp add: confirm_def)

lemma observe_keyed: "ic_key new = k \<Longrightarrow> phase_keyed k (fst (observe new ph))"
  by (cases ph) (auto simp: confirm_keyed Let_def split: prod.split)

lemma absent_keyed: "phase_keyed k ph \<Longrightarrow> phase_keyed k (fst (absent online ob domains ph))"
  by (cases ph) (auto simp: Let_def)

lemma confirm_events: "ic_key new = k \<Longrightarrow> \<forall>e \<in> set (snd (confirm new n since)). ic_key (snd e) = k"
  by (simp add: confirm_def)

lemma observe_events: "ic_key new = k \<Longrightarrow> \<forall>e \<in> set (snd (observe new ph)). ic_key (snd e) = k"
  by (cases ph) (auto simp: confirm_events Let_def split: prod.split)

section \<open>Folds that work on one key at a time\<close>

text \<open>
  A pass over a dictionary whose step for key \<open>k\<close> changes nothing but what concerns \<open>k\<close>:
  the result for each key is the step's effect on that key alone.
\<close>

locale pointwise_fold =
  fixes proj :: "'k \<Rightarrow> 's \<Rightarrow> 'x"
    and step :: "'k \<times> 'c \<Rightarrow> 's \<Rightarrow> 's"
    and act :: "'k \<Rightarrow> 'c \<Rightarrow> 'x \<Rightarrow> 'x"
    and ok :: "'k \<Rightarrow> 'c \<Rightarrow> 'x \<Rightarrow> bool"
  assumes same: "ok k c (proj k s) \<Longrightarrow> proj k (step (k, c) s) = act k c (proj k s)"
    and other: "ok k c (proj k s) \<Longrightarrow> j \<noteq> k \<Longrightarrow> proj j (step (k, c) s) = proj j s"
begin

lemma proj_fold:
  "wf_dict xs \<Longrightarrow> \<forall>(k, c) \<in> set xs. ok k c (proj k s) \<Longrightarrow>
    proj j (fold step xs s) =
      (case dget xs j of None \<Rightarrow> proj j s | Some c \<Rightarrow> act j c (proj j s))"
proof (induction xs arbitrary: s)
  case (Cons x xs)
  obtain k c where x: "x = (k, c)" by fastforce
  have wf: "k \<notin> fst ` set xs" "wf_dict xs" using Cons.prems x by auto
  have k: "ok k c (proj k s)" using Cons.prems x by auto
  have step: "proj i (step (k, c) s) = (if i = k then act k c (proj k s) else proj i s)" for i
    using same [OF k] other [OF k] by simp
  have "\<forall>(i, b) \<in> set xs. ok i b (proj i (step (k, c) s))"
    using Cons.prems wf by (force simp: x step)
  then have "proj j (fold step (x # xs) s) =
      (case dget xs j of None \<Rightarrow> proj j (step (k, c) s) | Some b \<Rightarrow> act j b (proj j (step (k, c) s)))"
    using Cons.IH [OF wf(2)] by (simp add: x)
  then show ?case
    using wf(1) by (auto simp: x step dget_None_iff [symmetric] split: option.split)
qed simp

end

section \<open>The two passes of an update\<close>

definition events_of :: "string \<Rightarrow> event list \<Rightarrow> transition list" where
  "events_of k created =
    map (\<lambda>e. (ev_state e, ev_condition e)) (filter (\<lambda>e. ic_key (ev_condition e) = k) created)"

definition view :: "string \<Rightarrow> progress \<Rightarrow> slot \<times> transition list" where
  "view k pg = (slot_at (fst pg) k, events_of k (snd (snd pg)))"

definition moved :: "(phase \<Rightarrow> phase \<times> transition list) \<Rightarrow> slot \<times> transition list \<Rightarrow>
    slot \<times> transition list" where
  "moved f v = (rep (fst (f (phase_of (fst v)))), snd v @ snd (f (phase_of (fst v))))"

lemma events_of_append [simp]: "events_of k (xs @ ys) = events_of k xs @ events_of k ys"
  by (simp add: events_of_def)

lemma view_emit:
  "view k (emit host ob c st (w, lg, created)) =
    (slot_at w k, events_of k created @ (if ic_key c = k then [(st, c)] else []))"
  by (simp add: view_def emit_def append_event_def events_of_def Let_def)

text \<open>What the first pass meets at key \<open>k\<close>: consistent entries that are still the ones of
  \<open>previous\<close>, and no candidate when the observation is below its threshold.\<close>

definition observe_ok :: "(string, condition) dict \<Rightarrow> string \<Rightarrow> condition \<Rightarrow> slot \<times> transition list \<Rightarrow> bool" where
  "observe_ok previous k c v \<longleftrightarrow>
    ic_key c = k \<and> slot_ok k (fst v) \<and> dget previous k = sl_current (fst v)
    \<and> (ic_below_threshold c \<longrightarrow> sl_candidate (fst v) = None)"

text \<open>The code's steps with their confirmation written through \<open>hold\<close>, \<open>change_streak\<close> and
  \<open>confirm\<close>'s test.\<close>

lemma severity_change_eq:
  "(let (pending, cnt, since) = dget_or (ic_severity new, 0, ic_observed_at new) d key;
        (cnt, since) =
          (if pending \<noteq> ic_severity new then (0, ic_observed_at new) else (cnt, since))
    in f cnt since)
   = (case change_streak new (dget d key) of (cnt, since) \<Rightarrow> f cnt since)"
  by (cases "dget d key") (auto simp: dget_or_def)

definition touched :: "host_work \<Rightarrow> string \<Rightarrow> string \<Rightarrow> host_work" where
  "touched w key ob =
    w\<lparr>hw_candidates := dpop (hw_candidates w) key,
      hw_last_observed_at := dset (hw_last_observed_at w) key ob\<rparr>"

lemma step_active_eq:
  "step_active host ob key old new (w, lg, created) =
    (let w = touched w key (ic_observed_at new); new = hold new old in
     if ic_severity old = ic_severity new then
       (w\<lparr>hw_severity_changes := dpop (hw_severity_changes w) key,
          hw_current := dset (hw_current w) key new\<rparr>, lg, created)
     else
       (case change_streak new (dget (hw_severity_changes w) key) of (n, since) \<Rightarrow>
          if n + 1 < ic_open_after_cycles new \<or> \<not> sustained since new then
            (w\<lparr>hw_severity_changes :=
                 dset (hw_severity_changes w) key (ic_severity new, n + 1, since),
               hw_current := dset (hw_current w) key
                 (new\<lparr>ic_severity := ic_severity old, ic_critical_at := ic_critical_at old\<rparr>)\<rparr>,
             lg, created)
          else
            emit host ob new (if ic_severity new = Critical then Escalated else Deescalated)
              (w\<lparr>hw_severity_changes := dpop (hw_severity_changes w) key,
                 hw_current := dset (hw_current w) key new\<rparr>, lg, created)))"
  unfolding step_active_def hold_def [symmetric] touched_def [symmetric] Let_def prod.case
  unfolding severity_change_eq [unfolded Let_def] ..

lemma step_active_cases:
  fixes w :: host_work and key :: string and new old :: condition
  defines "w' \<equiv> touched w key (ic_observed_at new)" and "new' \<equiv> hold new old"
  obtains (same) "ic_severity old = ic_severity new'"
      "step_active host ob key old new (w, lg, created) =
        (w'\<lparr>hw_severity_changes := dpop (hw_severity_changes w) key,
            hw_current := dset (hw_current w) key new'\<rparr>, lg, created)"
  | (streak) n since where "ic_severity old \<noteq> ic_severity new'"
      "change_streak new' (dget (hw_severity_changes w) key) = (n, since)"
      "n + 1 < ic_open_after_cycles new' \<or> \<not> sustained since new'"
      "step_active host ob key old new (w, lg, created) =
        (w'\<lparr>hw_severity_changes :=
              dset (hw_severity_changes w) key (ic_severity new', n + 1, since),
            hw_current := dset (hw_current w) key
              (new'\<lparr>ic_severity := ic_severity old, ic_critical_at := ic_critical_at old\<rparr>)\<rparr>,
         lg, created)"
  | (change) n since where "ic_severity old \<noteq> ic_severity new'"
      "change_streak new' (dget (hw_severity_changes w) key) = (n, since)"
      "\<not> (n + 1 < ic_open_after_cycles new' \<or> \<not> sustained since new')"
      "step_active host ob key old new (w, lg, created) =
        emit host ob new' (if ic_severity new' = Critical then Escalated else Deescalated)
          (w'\<lparr>hw_severity_changes := dpop (hw_severity_changes w) key,
              hw_current := dset (hw_current w) key new'\<rparr>, lg, created)"
proof -
  have w': "hw_severity_changes w' = hw_severity_changes w" "hw_current w' = hw_current w"
    by (simp_all add: w'_def touched_def)
  obtain n since where "change_streak new' (dget (hw_severity_changes w) key) = (n, since)"
    by fastforce
  then show thesis
    using same streak change w'
    unfolding step_active_eq Let_def w'_def [symmetric] new'_def [symmetric]
    by (auto split: if_splits)
qed

fun candidate_streak :: "condition \<Rightarrow> (condition \<times> int \<times> string) option \<Rightarrow> int \<times> string" where
  "candidate_streak new None = (0, ic_observed_at new)"
| "candidate_streak new (Some (c, n, since)) =
    (if ic_severity c \<noteq> ic_severity new then (0, ic_observed_at new) else (n, since))"

lemma candidate_eq:
  "(let (candidate, cnt, since) = dget_or (new, 0, ic_observed_at new) d key;
        (cnt, since) =
          (if ic_severity candidate \<noteq> ic_severity new then (0, ic_observed_at new)
           else (cnt, since))
    in f cnt since)
   = (case candidate_streak new (dget d key) of (cnt, since) \<Rightarrow> f cnt since)"
  by (cases "dget d key") (auto simp: dget_or_def)

lemma step_inactive_cases:
  fixes w :: host_work and key :: string and new :: condition
  obtains (below) "ic_below_threshold new"
      "step_inactive host ob key new (w, lg, created) = (w, lg, created)"
  | (opens) n since where "\<not> ic_below_threshold new"
      "candidate_streak new (dget (hw_candidates w) key) = (n, since)"
      "ic_open_after_cycles new \<le> n + 1 \<and> sustained since new"
      "step_inactive host ob key new (w, lg, created) =
        emit host ob new Opened
          (w\<lparr>hw_candidates := dpop (hw_candidates w) key,
             hw_current := dset (hw_current w) key new,
             hw_opened_at := dset (hw_opened_at w) key (ic_observed_at new),
             hw_last_observed_at := dset (hw_last_observed_at w) key (ic_observed_at new)\<rparr>,
           lg, created)"
  | (waits) n since where "\<not> ic_below_threshold new"
      "candidate_streak new (dget (hw_candidates w) key) = (n, since)"
      "\<not> (ic_open_after_cycles new \<le> n + 1 \<and> sustained since new)"
      "step_inactive host ob key new (w, lg, created) =
        (w\<lparr>hw_candidates := dset (hw_candidates w) key (new, n + 1, since)\<rparr>, lg, created)"
proof -
  obtain n since where streak: "candidate_streak new (dget (hw_candidates w) key) = (n, since)"
    by fastforce
  have "step_inactive host ob key new (w, lg, created) =
    (if ic_below_threshold new then (w, lg, created)
     else if ic_open_after_cycles new \<le> n + 1 \<and> sustained since new then
       emit host ob new Opened
          (w\<lparr>hw_candidates := dpop (hw_candidates w) key,
             hw_current := dset (hw_current w) key new,
             hw_opened_at := dset (hw_opened_at w) key (ic_observed_at new),
             hw_last_observed_at := dset (hw_last_observed_at w) key (ic_observed_at new)\<rparr>,
           lg, created)
     else (w\<lparr>hw_candidates := dset (hw_candidates w) key (new, n + 1, since)\<rparr>, lg, created))"
    unfolding step_inactive_def Let_def prod.case candidate_eq [unfolded Let_def] streak ..
  then show thesis using below opens waits streak by (auto split: if_splits)
qed

lemma dpop_absent: "dget d k = None \<Longrightarrow> dget (dpop d k) k = None"
  by simp

lemma step_active_view:
  assumes "slot_at w k = rep (Active old opened seen sc rc)" "ic_key new = k"
  shows "view k (step_active host ob k old new
      (w\<lparr>hw_recoveries := dpop (hw_recoveries w) k\<rparr>, lg, created)) =
    moved (observe new) (view k (w, lg, created))"
    (is "view k (step_active host ob k old new (?w, lg, created)) = _")
proof -
  have w: "dget (hw_current w) k = Some old" "dget (hw_opened_at w) k = Some opened"
    "dget (hw_severity_changes w) k = sc"
    using assms(1) by (simp_all add: slot_at_def)
  have slot: "slot_at w k = rep (Active old opened seen sc rc)" by (fact assms(1))
  show ?thesis
    by (cases rule: step_active_cases [of old new host ob k ?w lg created])
       (simp_all add: view_emit moved_def, simp_all add: view_def slot_at_def touched_def phase_of_def w
          assms(2) Let_def, auto)
qed

lemma step_inactive_view:
  assumes "slot_at w k = rep ph" "sl_current (rep ph) = None" "ic_key new = k"
    "ic_below_threshold new \<longrightarrow> sl_candidate (rep ph) = None"
  shows "view k (step_inactive host ob k new
      (w\<lparr>hw_recoveries := dpop (hw_recoveries w) k\<rparr>, lg, created)) =
    moved (observe new) (view k (w, lg, created))"
    (is "view k (step_inactive host ob k new (?w, lg, created)) = _")
proof (cases ph)
  case Idle
  with assms show ?thesis
    by (cases rule: step_inactive_cases [of new host ob k ?w lg created])
       (simp_all add: view_emit moved_def, simp_all add: view_def slot_at_def confirm_def phase_of_def)
next
  case (Pending c n since)
  with assms show ?thesis
    by (cases rule: step_inactive_cases [of new host ob k ?w lg created])
       (simp_all add: view_emit moved_def,
        auto simp: view_def slot_at_def confirm_def phase_of_def split: if_splits)
qed (use assms in simp)

lemma step_active_other:
  assumes "ic_key new = k" "j \<noteq> k"
  shows "view j (step_active host ob k old new (w, lg, created)) = view j (w, lg, created)"
  using assms
  by (cases rule: step_active_cases [of old new host ob k w lg created])
     (simp_all add: view_emit, simp_all add: view_def slot_at_def touched_def)

lemma step_inactive_other:
  assumes "ic_key new = k" "j \<noteq> k"
  shows "view j (step_inactive host ob k new (w, lg, created)) = view j (w, lg, created)"
  using assms
  by (cases rule: step_inactive_cases [of new host ob k w lg created])
     (simp_all add: view_emit, simp_all add: view_def slot_at_def)

interpretation observed_pass: pointwise_fold view "step_observed host ob previous"
  "\<lambda>k c. moved (observe c)" "observe_ok previous" for host ob previous
proof
  fix k c and pg :: progress
  obtain w lg created where pg: "pg = (w, lg, created)" by (metis prod_cases3)
  assume ok: "observe_ok previous k c (view k pg)"
  then obtain ph where ph: "slot_at w k = rep ph" "dget previous k = sl_current (rep ph)"
    "ic_key c = k" "ic_below_threshold c \<longrightarrow> sl_candidate (rep ph) = None"
    by (auto simp: observe_ok_def view_def pg elim: slot_okE)
  show "view k (step_observed host ob previous (k, c) pg) = moved (observe c) (view k pg)"
  proof (cases "sl_current (rep ph)")
    case None
    then show ?thesis
      using ph step_inactive_view [OF ph(1) None ph(3,4)] by (simp add: step_observed_def pg)
  next
    case (Some old)
    then obtain opened seen sc rc where act: "ph = Active old opened seen sc rc"
      by (cases ph) auto
    then show ?thesis
      using ph Some step_active_view [OF ph(1) [unfolded act] ph(3)]
      by (simp add: step_observed_def pg)
  qed
next
  fix k c and pg :: progress and j
  assume ok: "observe_ok previous k c (view k pg)" and j: "j \<noteq> k"
  obtain w lg created where pg: "pg = (w, lg, created)" by (metis prod_cases3)
  have k: "ic_key c = k" using ok by (simp add: observe_ok_def)
  show "view j (step_observed host ob previous (k, c) pg) = view j pg"
    using j by (cases "dget previous k")
      (simp_all add: step_observed_def pg Let_def step_inactive_other [OF k] step_active_other [OF k],
       simp_all add: view_def slot_at_def)
qed

text \<open>The recovery loop without its error branch.\<close>

definition recover_step ::
  "string \<Rightarrow> string \<Rightarrow> string list \<Rightarrow> string \<times> condition \<Rightarrow> progress \<Rightarrow> progress" where
  "recover_step host ob domains kc pg =
    (case step_recovery host ob domains (fst kc) (snd kc) pg of Inl _ \<Rightarrow> pg | Inr pg' \<Rightarrow> pg')"

definition recover_ok :: "string \<Rightarrow> condition \<Rightarrow> slot \<times> transition list \<Rightarrow> bool" where
  "recover_ok k old v \<longleftrightarrow>
    ic_key old = k \<and> (\<exists>opened seen rc. fst v = rep (Active old opened seen None rc))"

lemma step_recovery_view:
  assumes "slot_at w k = rep (Active old opened seen None rc)" "ic_key old = k"
  shows "\<exists>pg'. step_recovery host ob domains k old (w, lg, created) = Inr pg'
    \<and> view k pg' = moved (absent True ob domains) (view k (w, lg, created))
    \<and> (\<forall>j. j \<noteq> k \<longrightarrow> view j pg' = view j (w, lg, created))"
proof -
  have w: "dget (hw_current w) k = Some old" "dget (hw_opened_at w) k = Some opened"
    "dget (hw_severity_changes w) k = None" "dget (hw_candidates w) k = None"
    "dget (hw_last_observed_at w) k = Some seen" "dget (hw_recoveries w) k = rc"
    using assms(1) by (simp_all add: slot_at_def)
  show ?thesis
  proof (cases "speaks True ob domains old opened")
    case False
    then show ?thesis
      using assms(2)
      by (auto simp: step_recovery_def w Let_def moved_def view_def slot_at_def phase_of_def speaks_def)
  next
    case True
    note T = True [unfolded speaks_def]
    let ?n = "dget_or 0 (hw_recoveries w) k + 1"
    have n: "(case rc of None \<Rightarrow> 0 | Some m \<Rightarrow> m) + 1 = ?n" by (simp add: dget_or_def w)
    show ?thesis
    proof (cases "ic_recovery_cycles old \<le> ?n")
      case le: True
      then show ?thesis
        using T n assms(2)
        by (simp add: step_recovery_def w Let_def view_emit moved_def)
           (simp add: view_def slot_at_def phase_of_def w True)
    next
      case False
      then show ?thesis
        using T n assms(2)
        by (simp add: step_recovery_def w Let_def view_emit moved_def)
           (simp add: view_def slot_at_def phase_of_def w True)
    qed
  qed
qed

interpretation recovery_pass: pointwise_fold view "recover_step host ob domains"
  "\<lambda>k c. moved (absent True ob domains)" recover_ok for host ob domains
proof
  fix k c and pg :: progress
  obtain w lg created where pg: "pg = (w, lg, created)" by (metis prod_cases3)
  assume "recover_ok k c (view k pg)"
  then obtain opened seen rc
    where "slot_at w k = rep (Active c opened seen None rc)" "ic_key c = k"
    by (auto simp: recover_ok_def view_def pg)
  from step_recovery_view [OF this, of host ob domains lg created]
  show "view k (recover_step host ob domains (k, c) pg) = moved (absent True ob domains) (view k pg)"
    by (auto simp: recover_step_def pg)
next
  fix k c and pg :: progress and j
  obtain w lg created where pg: "pg = (w, lg, created)" by (metis prod_cases3)
  assume "recover_ok k c (view k pg)" and j: "j \<noteq> k"
  then obtain opened seen rc
    where "slot_at w k = rep (Active c opened seen None rc)" "ic_key c = k"
    by (auto simp: recover_ok_def view_def pg)
  from step_recovery_view [OF this, of host ob domains lg created] j
  show "view j (recover_step host ob domains (k, c) pg) = view j pg"
    by (auto simp: recover_step_def pg)
qed

text \<open>With the invariant's entries, the recovery loop never meets a missing key.\<close>

lemma recover_all_fold:
  "distinct ks \<Longrightarrow> \<forall>k \<in> set ks. \<exists>old. dget previous k = Some old \<and> recover_ok k old (view k pg) \<Longrightarrow>
    recover_all host ob domains previous ks pg =
      Inr (fold (recover_step host ob domains) (map (\<lambda>k. (k, the (dget previous k))) ks) pg)"
proof (induction ks arbitrary: pg)
  case (Cons k ks)
  obtain old where old: "dget previous k = Some old" "recover_ok k old (view k pg)"
    using Cons.prems by auto
  obtain w lg created where pg: "pg = (w, lg, created)" by (metis prod_cases3)
  from old(2) obtain opened seen rc
    where "slot_at w k = rep (Active old opened seen None rc)" "ic_key old = k"
    by (auto simp: recover_ok_def view_def pg)
  from step_recovery_view [OF this, of host ob domains lg created]
  obtain pg' where pg': "step_recovery host ob domains k old pg = Inr pg'" by (auto simp: pg)
  then have step: "recover_step host ob domains (k, old) pg = pg'" by (simp add: recover_step_def)
  have "\<forall>j \<in> set ks. \<exists>c. dget previous j = Some c \<and> recover_ok j c (view j pg')"
    using Cons.prems recovery_pass.other [OF old(2)] step by fastforce
  from Cons.IH [OF _ this] Cons.prems(1) show ?case by (simp add: old pg' step)
qed simp

section \<open>The log\<close>

definition log_extends :: "event_log \<Rightarrow> event list \<Rightarrow> event_log \<Rightarrow> bool" where
  "log_extends lg evs lg' \<longleftrightarrow>
    el_capacity lg' = el_capacity lg
    \<and> el_events lg' = deque_extend (el_capacity lg) (el_events lg) evs
    \<and> el_version lg' = el_version lg + length evs
    \<and> el_next_event_id lg' = el_next_event_id lg + length evs
    \<and> map ev_event_id evs = [el_next_event_id lg..<el_next_event_id lg + length evs]"

lemma log_extends_refl [simp]: "log_extends lg [] lg"
  by (simp add: log_extends_def deque_extend_def)

lemma log_extends_trans:
  "log_extends a xs b \<Longrightarrow> log_extends b ys c \<Longrightarrow> log_extends a (xs @ ys) c"
  using upt_add_eq_append [of "el_next_event_id a" "el_next_event_id a + length xs" "length ys"]
  by (auto simp: log_extends_def deque_extend_def add.assoc)

lemma log_extends_append:
  "log_extends lg [fst (append_event lg host c st ob)] (snd (append_event lg host c st ob))"
  by (simp add: log_extends_def append_event_def Let_def deque_extend_def)

definition extends :: "string \<Rightarrow> string \<Rightarrow> progress \<Rightarrow> progress \<Rightarrow> bool" where
  "extends host ob pg pg' \<longleftrightarrow>
    (wf_dict (hw_current (fst pg)) \<longrightarrow> wf_dict (hw_current (fst pg')))
    \<and> (\<exists>evs. snd (snd pg') = snd (snd pg) @ evs \<and> log_extends (fst (snd pg)) evs (fst (snd pg'))
        \<and> (\<forall>e \<in> set evs. ev_host e = host \<and> ev_observed_at e = ob))"

lemma extends_refl: "extends host ob pg pg"
  by (auto simp: extends_def intro: exI [of _ "[]"])

lemma extends_trans [trans]: "extends host ob a b \<Longrightarrow> extends host ob b c \<Longrightarrow> extends host ob a c"
  unfolding extends_def
proof (elim conjE exE, intro conjI)
  fix xs ys
  assume "snd (snd b) = snd (snd a) @ xs" "log_extends (fst (snd a)) xs (fst (snd b))"
    "\<forall>e \<in> set xs. ev_host e = host \<and> ev_observed_at e = ob"
    "snd (snd c) = snd (snd b) @ ys" "log_extends (fst (snd b)) ys (fst (snd c))"
    "\<forall>e \<in> set ys. ev_host e = host \<and> ev_observed_at e = ob"
  then show "\<exists>evs. snd (snd c) = snd (snd a) @ evs \<and> log_extends (fst (snd a)) evs (fst (snd c))
      \<and> (\<forall>e \<in> set evs. ev_host e = host \<and> ev_observed_at e = ob)"
    by (intro exI [of _ "xs @ ys"]) (auto intro: log_extends_trans)
qed simp

lemma extends_quiet:
  "(wf_dict (hw_current w) \<Longrightarrow> wf_dict (hw_current w')) \<Longrightarrow>
    extends host ob (w, lg, created) (w', lg, created)"
  by (auto simp: extends_def intro: exI [of _ "[]"])

lemma extends_emit:
  "(wf_dict (hw_current w) \<Longrightarrow> wf_dict (hw_current w')) \<Longrightarrow>
    extends host ob (w, lg, created) (emit host ob c st (w', lg, created))"
  using log_extends_append [of lg host c st ob]
  by (auto simp: extends_def emit_def append_event_def Let_def)

lemmas extends_intros = extends_quiet extends_emit

lemma step_observed_extends: "extends host ob pg (step_observed host ob previous (k, c) pg)"
proof -
  obtain w lg created where pg: "pg = (w, lg, created)" by (metis prod_cases3)
  let ?w = "w\<lparr>hw_recoveries := dpop (hw_recoveries w) k\<rparr>"
  show ?thesis
  proof (cases "dget previous k")
    case None
    then show ?thesis
      by (cases rule: step_inactive_cases [of c host ob k ?w lg created])
         (simp_all add: pg step_observed_def extends_intros)
  next
    case (Some old)
    then show ?thesis
      by (cases rule: step_active_cases [of old c host ob k ?w lg created])
         (simp_all add: pg step_observed_def extends_intros touched_def)
  qed
qed

lemma recover_step_extends: "extends host ob pg (recover_step host ob domains (k, c) pg)"
proof -
  obtain w lg created where pg: "pg = (w, lg, created)" by (metis prod_cases3)
  show ?thesis
    by (auto simp: pg recover_step_def step_recovery_def Let_def extends_intros extends_refl
        split: option.split)
qed

lemma fold_extends:
  assumes "\<And>k c pg. extends host ob pg (f (k, c) pg)"
  shows "extends host ob pg (fold f xs pg)"
proof (induction xs arbitrary: pg)
  case (Cons x xs)
  have "extends host ob pg (f x pg)" using assms by (cases x) blast
  then show ?case using Cons.IH [of "f x pg"] by (auto intro: extends_trans)
qed (simp add: extends_refl)

definition log_ok :: "event_log \<Rightarrow> bool" where
  "log_ok lg \<longleftrightarrow>
    length (el_events lg) \<le> el_capacity lg
    \<and> sorted_wrt (<) (map ev_event_id (el_events lg))
    \<and> (\<forall>e \<in> set (el_events lg). ev_event_id e < el_next_event_id lg)
    \<and> el_next_event_id lg \<le> el_version lg + 1"

lemma log_extends_ok:
  assumes ok: "log_ok lg" and ext: "log_extends lg evs lg'"
  shows "log_ok lg'"
proof -
  let ?all = "el_events lg @ evs"
  have ids: "map ev_event_id evs = [el_next_event_id lg..<el_next_event_id lg + length evs]"
    using ext by (simp add: log_extends_def)
  have new: "ev_event_id e \<in> {el_next_event_id lg..<el_next_event_id lg + length evs}"
    if "e \<in> set evs" for e
    using that arg_cong [OF ids, of set] by auto
  have events: "el_events lg' = deque_of (el_capacity lg) ?all"
    using ok ext by (simp add: log_extends_def log_ok_def deque_extend_eq)
  have "sorted_wrt (<) (map ev_event_id ?all)"
    using ok new by (auto simp: sorted_wrt_append ids log_ok_def sorted_wrt_upt dest!: new)
  then have "sorted_wrt (<) (map ev_event_id (el_events lg'))"
    by (simp only: events deque_of_def drop_map [symmetric] sorted_wrt_drop)
  moreover have "\<forall>e \<in> set (el_events lg'). ev_event_id e < el_next_event_id lg'"
    using set_deque_of [of "el_capacity lg" ?all] ok ext new
    by (fastforce simp: events log_extends_def log_ok_def)
  ultimately show ?thesis using ok ext by (simp add: log_extends_def log_ok_def length_deque_extend)
qed

section \<open>The invariant\<close>

definition phase_at :: "tracker \<Rightarrow> string \<Rightarrow> string \<Rightarrow> phase" where
  "phase_at t host k = phase_of (slot_at (load_host t host) k)"

definition tracker_inv :: "tracker \<Rightarrow> bool" where
  "tracker_inv t \<longleftrightarrow>
    wf_dict (tr_active t) \<and> (\<forall>host. wf_dict (dsub (tr_active t) host))
    \<and> (\<forall>host k. slot_ok k (slot_at (load_host t host) k))
    \<and> fst ` set (tr_candidates t) \<subseteq> fst ` set (tr_active t)
    \<and> log_ok (tr_log t)"

lemma tracker_inv_slot:
  "tracker_inv t \<Longrightarrow> slot_at (load_host t host) k = rep (phase_at t host k)"
  by (simp add: tracker_inv_def slot_ok_def phase_at_def)

lemma tracker_inv_keyed: "tracker_inv t \<Longrightarrow> phase_keyed k (phase_at t host k)"
  by (simp add: tracker_inv_def slot_ok_def phase_at_def)

lemma load_store_same [simp]: "load_host (store_host t host w lg) host = w"
  by (simp add: load_host_def store_host_def)

lemma load_store_other [simp]:
  "other \<noteq> host \<Longrightarrow> load_host (store_host t host w lg) other = load_host t other"
  by (simp add: load_host_def store_host_def)

lemma tr_log_store [simp]: "tr_log (store_host t host w lg) = lg"
  by (simp add: store_host_def)

lemma phase_at_store [simp]:
  "phase_at (store_host t host w lg) host k = phase_of (slot_at w k)"
  "other \<noteq> host \<Longrightarrow> phase_at (store_host t host w lg) other k = phase_at t other k"
  by (simp_all add: phase_at_def)

section \<open>The refinement\<close>

text \<open>The clean-up before the first pass.\<close>

fun prepared :: "condition option \<Rightarrow> phase \<Rightarrow> phase" where
  "prepared obs (Active c opened seen sc rc) =
    Active c opened seen (if obs = None then None else sc) rc"
| "prepared None ph = Idle"
| "prepared (Some new) ph = (if ic_below_threshold new then Idle else ph)"

lemma observe_prepared: "observe new (prepared (Some new) ph) = observe new ph"
  by (cases ph) (auto simp: confirm_def)

lemma absent_prepared: "absent online ob domains (prepared None ph) = absent online ob domains ph"
  by (cases ph) (auto simp: Let_def)

lemma absent_offline: "absent False ob domains ph = (prepared None ph, [])"
  by (cases ph) (auto simp: speaks_def)

lemma confirming_keys:
  "wf_dict observed \<Longrightarrow>
    k \<in> set (keys (confirming observed))
      \<longleftrightarrow> (\<exists>c. dget observed k = Some c \<and> \<not> ic_below_threshold c)"
  by (force simp: confirming_def dest: dget_mem wf_dget_mem)

lemma prepare_slot:
  assumes "wf_dict observed" "slot_at w k = rep ph"
  shows "slot_at (prepare observed w) k = rep (prepared (dget observed k) ph)"
proof -
  have "k \<in> set (keys observed) \<longleftrightarrow> dget observed k \<noteq> None" by (simp add: dget_None_iff)
  then show ?thesis
    using assms(2) confirming_keys [OF assms(1), of k]
    by (cases ph; cases "dget observed k")
       (auto simp: slot_at_def prepare_def simp del: set_map)
qed

lemma rep_current: "sl_current (rep ph) = (case ph of Active c _ _ _ _ \<Rightarrow> Some c | _ \<Rightarrow> None)"
  by (cases ph) simp_all

lemma rep_eqD: "rep ph = rep ph' \<Longrightarrow> ph = ph'"
  by (metis phase_of_rep)

lemma tracker_apply_refines:
  assumes inv: "tracker_inv t" and wf: "wf_dict observed" and kd: "keyed observed"
  obtains created t' where
    "tracker_apply h observed domains r t = Inr (created, t')"
    "\<And>k. (phase_at t' (pr_host r) k, events_of k created) =
      phase_step (pr_status r = Online) (pr_observed_at r) domains (dget observed k)
        (phase_at t (pr_host r) k)"
    "\<And>host k. host \<noteq> pr_host r \<Longrightarrow> phase_at t' host k = phase_at t host k"
    "log_extends (tr_log t) created (tr_log t')"
    "\<forall>e \<in> set created. ev_host e = pr_host r \<and> ev_observed_at e = pr_observed_at r"
    "tracker_inv t'"
proof -
  let ?host = "pr_host r" and ?ob = "pr_observed_at r" and ?online = "pr_status r = Online"
  define w0 where "w0 = load_host t ?host"
  define previous where "previous = hw_current w0"
  define pg0 where "pg0 = (prepare observed w0, tr_log t, [] :: event list)"
  define pg1 where "pg1 = fold (step_observed ?host ?ob previous) observed pg0"
  let ?ph = "phase_at t ?host"
  let ?pre = "\<lambda>k. prepared (dget observed k) (?ph k)"
  have slot0: "slot_at w0 k = rep (?ph k)" for k
    unfolding w0_def by (rule tracker_inv_slot [OF inv])
  have view0: "view k pg0 = (rep (?pre k), [])" for k
    by (simp add: view_def pg0_def prepare_slot [OF wf slot0] events_of_def)
  have prev: "dget previous k = sl_current (rep (?ph k))" for k
    using arg_cong [OF slot0 [of k], of sl_current] by (simp add: slot_at_def previous_def)
  have cur: "sl_current (rep (prepared x ph)) = sl_current (rep ph)" for x ph
    by (cases "(x, ph)" rule: prepared.cases) simp_all
  have keyed0: "phase_keyed k (?pre k)" for k
    using tracker_inv_keyed [OF inv, of k ?host]
    by (cases "(dget observed k, ?ph k)" rule: prepared.cases) simp_all
  have "\<forall>(k, c) \<in> set observed. observe_ok previous k c (view k pg0)"
  proof clarify
    fix k c assume mem: "(k, c) \<in> set observed"
    have k: "dget observed k = Some c" by (rule wf_dget_mem [OF wf mem])
    have "sl_candidate (rep (?pre k)) = None" if "ic_below_threshold c"
      using that by (cases "?ph k") (simp_all add: k)
    then show "observe_ok previous k c (view k pg0)"
      using keyedD [OF kd k] keyed0 [of k] by (simp add: observe_ok_def view0 prev cur)
  qed
  note proj1 = observed_pass.proj_fold [OF wf this, of _ ?host ?ob, folded pg1_def]
  have view1: "view k pg1 =
      (case dget observed k of None \<Rightarrow> (rep (?pre k), [])
       | Some c \<Rightarrow> (rep (fst (observe c (?ph k))), snd (observe c (?ph k))))" for k
    unfolding proj1 view0
    by (auto simp: moved_def observe_prepared split: option.split)
  have ext1: "extends ?host ?ob pg0 pg1"
    unfolding pg1_def by (intro fold_extends step_observed_extends)
  define ks where "ks = set_iter h (filter (\<lambda>k. k \<notin> set (keys observed)) (keys previous))"
  define kcs where "kcs = map (\<lambda>k. (k, the (dget previous k))) ks"
  define pg2 where "pg2 = (if ?online then fold (recover_step ?host ?ob domains) kcs pg1 else pg1)"
  have ks: "k \<in> set ks \<longleftrightarrow> dget observed k = None \<and> dget previous k \<noteq> None" for k
    by (auto simp: ks_def dget_None_iff)
  have rec_ok: "\<exists>old. dget previous k = Some old \<and> recover_ok k old (view k pg1)"
    if k: "k \<in> set ks" for k
  proof -
    obtain old opened seen sc rc where "?ph k = Active old opened seen sc rc"
      using k prev [of k] by (cases "?ph k") (auto simp: ks)
    then show ?thesis
      using k keyed0 [of k] by (auto simp: ks prev view1 recover_ok_def)
  qed
  have pass2: "(if ?online then recover_all ?host ?ob domains previous ks pg1 else Inr pg1) = Inr pg2"
    using recover_all_fold [of ks previous pg1 ?host ?ob domains] rec_ok
    by (simp add: ks_def pg2_def kcs_def)
  have dkcs: "dget kcs k = (if k \<in> set ks then dget previous k else None)" for k
    using ks [of k] by (auto simp: kcs_def map_of_map_restrict restrict_map_def)
  have "wf_dict kcs" by (simp add: kcs_def wf_dict_def ks_def o_def)
  moreover have "\<forall>(k, c) \<in> set kcs. recover_ok k c (view k pg1)"
    using rec_ok by (force simp: kcs_def)
  ultimately have fold2: "view k (fold (recover_step ?host ?ob domains) kcs pg1) =
      (case dget kcs k of None \<Rightarrow> view k pg1 | Some c \<Rightarrow> moved (absent True ?ob domains) (view k pg1))" for k
    by (rule recovery_pass.proj_fold)
  let ?step = "\<lambda>k. phase_step ?online ?ob domains (dget observed k) (?ph k)"
  have view2: "view k pg2 = (rep (fst (?step k)), snd (?step k))" for k
  proof (cases "dget observed k")
    case (Some c)
    then show ?thesis
      by (simp add: pg2_def fold2 dkcs ks view1 phase_step_def)
  next
    case None
    show ?thesis
    proof (cases "?ph k")
      case (Active old opened seen sc rc)
      then show ?thesis using None prev [of k]
        by (simp add: pg2_def fold2 dkcs ks view1 phase_step_def moved_def
            absent_offline phase_of_def del: absent.simps) (simp add: Let_def)
    qed (use None prev [of k] in
        \<open>simp_all add: pg2_def fold2 dkcs ks view1 phase_step_def moved_def\<close>)
  qed
  have ext2: "extends ?host ?ob pg0 pg2"
    unfolding pg2_def
    by (auto intro: extends_trans [OF ext1] ext1 fold_extends recover_step_extends)
  obtain w lg created where pg2: "pg2 = (w, lg, created)" by (metis prod_cases3)
  define t' where "t' = store_host t ?host w lg"
  have run: "tracker_apply h observed domains r t = Inr (created, t')"
    unfolding tracker_apply_def Let_def t'_def w0_def [symmetric] previous_def [symmetric]
      pg0_def [symmetric] pg1_def [symmetric] ks_def [symmetric] pass2 pg2
    by simp
  have slot2: "slot_at w k = rep (fst (?step k))" and ev2: "events_of k created = snd (?step k)" for k
    using view2 [of k] by (simp_all add: view_def pg2)
  have keyed2: "phase_keyed k (fst (?step k))" for k
    using observe_keyed keyedD [OF kd] absent_keyed tracker_inv_keyed [OF inv]
    by (simp add: phase_step_def split: option.split)
  have wf0: "wf_dict (hw_current w0)"
    using inv by (simp add: tracker_inv_def w0_def load_host_def)
  have log2: "log_extends (tr_log t) created lg"
    and evs2: "\<forall>e \<in> set created. ev_host e = ?host \<and> ev_observed_at e = ?ob"
    and wf2: "wf_dict (hw_current w)"
    using ext2 wf0 by (auto simp: extends_def pg0_def pg2 prepare_def)
  have "tracker_inv t'"
    unfolding tracker_inv_def
  proof (intro conjI allI)
    show "slot_ok k (slot_at (load_host t' other) k)" for other k
      using inv slot2 keyed2 by (cases "other = ?host") (simp_all add: t'_def tracker_inv_def)
    show "log_ok (tr_log t')"
      using inv log_extends_ok [OF _ log2] by (simp add: tracker_inv_def t'_def store_host_def)
  qed (use inv wf2 in \<open>auto simp: tracker_inv_def t'_def store_host_def\<close>)
  with run log2 evs2 show thesis
    by (intro that [of created t']) (simp_all add: t'_def slot2 ev2)
qed

end
