(* ===== verification/Incident_History.thy ===== *)
theory Incident_History
  imports Incident_Lifecycle
begin

text \<open>
  What the tracker does over a history of samples: the contract it needs from its policy (the
  \<open>IncidentPolicy\<close> protocol, as a locale), the reachable states and their invariant, the
  refinement of whole histories, and the properties of confirmation, recovery, restart and
  host removal.
\<close>

section \<open>The policy the tracker needs\<close>

locale incident_policy =
  fixes conds :: "'p \<Rightarrow> probe_result \<Rightarrow> (string, condition) dict \<times> 'p"
    and valid :: "'p \<Rightarrow> bool"
    and derived :: "'p \<Rightarrow> probe_result \<Rightarrow> (string, condition) dict"
    and same :: "'p \<Rightarrow> 'p \<Rightarrow> bool"
  assumes conds_good: "valid p \<Longrightarrow> good_dict (fst (conds p r))"
    and conds_derived: "valid p \<Longrightarrow> fst (conds p r) = derived p r"
    and conds_valid: "valid p \<Longrightarrow> valid (snd (conds p r))"
    and conds_same: "valid p \<Longrightarrow> same p (snd (conds p r))"
    and derived_same: "same p q \<Longrightarrow> derived p r = derived q r"
begin

lemma apply_refines:
  assumes "tracker_inv t" "valid p"
  obtains created t' where
    "tracker_apply h (fst (conds p r)) domains r t = Inr (created, t')"
    "\<And>k. (phase_at t' (pr_host r) k, events_of k created) =
      phase_step (pr_status r = Online) (pr_observed_at r) domains (dget (derived p r) k)
        (phase_at t (pr_host r) k)"
    "\<And>host k. host \<noteq> pr_host r \<Longrightarrow> phase_at t' host k = phase_at t host k"
    "log_extends (tr_log t) created (tr_log t')"
    "\<forall>e \<in> set created. ev_host e = pr_host r \<and> ev_observed_at e = pr_observed_at r"
    "tracker_inv t'"
proof -
  have "wf_dict (fst (conds p r))" "keyed (fst (conds p r))"
    using conds_good [OF assms(2)] by (simp_all add: good_dict_def)
  from tracker_apply_refines [OF assms(1) this, of h domains r] conds_derived [OF assms(2)]
  show thesis using that by metis
qed

end

lemma same_config_sym: "same_config p q \<Longrightarrow> same_config q p"
  by (simp add: same_config_def)

lemma pure_conditions_same: "same_config p q \<Longrightarrow> pure_conditions p r = pure_conditions q r"
  using same_config_fresh [of p q] by (simp add: pure_conditions_def same_config_def)

interpretation threshold_policy: incident_policy conditions cache_ok pure_conditions same_config
proof
  fix p q :: policy and r
  assume ok: "cache_ok p"
  show "good_dict (fst (conditions p r))" by (rule good_conditions)
  show "fst (conditions p r) = pure_conditions p r" "cache_ok (snd (conditions p r))"
    "same_config p (snd (conditions p r))"
    using conditions_correct [OF ok, of r "fst (conditions p r)" "snd (conditions p r)"] by simp_all
qed (rule pure_conditions_same)

section \<open>Histories\<close>

text \<open>The updates of a sequence of results.\<close>

fun updates ::
  "(string \<Rightarrow> nat) \<Rightarrow> policy \<Rightarrow> tracker \<Rightarrow> probe_result list \<Rightarrow>
   py_error + (event list \<times> tracker \<times> policy)" where
  "updates h p t [] = Inr ([], t, p)"
| "updates h p t (r # rs) =
    (case tracker_update h p r t of
       Inl e \<Rightarrow> Inl e
     | Inr (created, t1, p1) \<Rightarrow>
        (case updates h p1 t1 rs of
           Inl e \<Rightarrow> Inl e
         | Inr (rest, t2, p2) \<Rightarrow> Inr (created @ rest, t2, p2)))"

type_synonym sample = "bool \<times> string \<times> string list \<times> condition option"

fun sample_step :: "sample \<Rightarrow> phase \<Rightarrow> phase \<times> transition list" where
  "sample_step (online, ob, domains, obs) ph = phase_step online ob domains obs ph"

fun phase_run :: "phase \<Rightarrow> sample list \<Rightarrow> phase \<times> transition list" where
  "phase_run ph [] = (ph, [])"
| "phase_run ph (s # ss) =
    (let (ph1, es) = sample_step s ph; (ph2, es') = phase_run ph1 ss in (ph2, es @ es'))"

text \<open>What a result says about one condition of its host.\<close>

definition sample_of :: "policy \<Rightarrow> string \<Rightarrow> probe_result \<Rightarrow> sample" where
  "sample_of p k r =
    (pr_status r = Online, pr_observed_at r, observed_domains r, dget (pure_conditions p r) k)"

definition samples_of :: "policy \<Rightarrow> string \<Rightarrow> string \<Rightarrow> probe_result list \<Rightarrow> sample list" where
  "samples_of p host k rs = map (sample_of p k) (filter (\<lambda>r. pr_host r = host) rs)"

definition host_events :: "string \<Rightarrow> event list \<Rightarrow> event list" where
  "host_events host evs = filter (\<lambda>e. ev_host e = host) evs"

lemma host_events_append [simp]: "host_events host (xs @ ys) = host_events host xs @ host_events host ys"
  by (simp add: host_events_def)

lemma tracker_update_eq:
  "tracker_update h p r t =
    (case tracker_apply h (fst (conditions p r)) (observed_domains r) r t of
       Inl e \<Rightarrow> Inl e | Inr (created, t') \<Rightarrow> Inr (created, t', snd (conditions p r)))"
  by (cases "conditions p r") (simp add: tracker_update_def split: sum.split)

lemma tracker_update_refines:
  assumes "tracker_inv t" "cache_ok p"
  obtains created t' where
    "tracker_update h p r t = Inr (created, t', snd (conditions p r))"
    "\<And>host k. (phase_at t' host k, events_of k (host_events host created)) =
      phase_run (phase_at t host k) (samples_of p host k [r])"
    "log_extends (tr_log t) created (tr_log t')"
    "\<forall>e \<in> set created. ev_host e = pr_host r \<and> ev_observed_at e = pr_observed_at r"
    "tracker_inv t'"
proof -
  obtain created t' where run:
    "tracker_apply h (fst (conditions p r)) (observed_domains r) r t = Inr (created, t')"
    and same: "\<And>k. (phase_at t' (pr_host r) k, events_of k created) =
      phase_step (pr_status r = Online) (pr_observed_at r) (observed_domains r)
        (dget (pure_conditions p r) k) (phase_at t (pr_host r) k)"
    and other: "\<And>host k. host \<noteq> pr_host r \<Longrightarrow> phase_at t' host k = phase_at t host k"
    and lg: "log_extends (tr_log t) created (tr_log t')"
    and evs: "\<forall>e \<in> set created. ev_host e = pr_host r \<and> ev_observed_at e = pr_observed_at r"
    and inv: "tracker_inv t'"
    by (rule threshold_policy.apply_refines [OF assms]) blast
  have hev: "host_events host created = (if host = pr_host r then created else [])" for host
    using evs by (auto simp: host_events_def filter_id_conv filter_empty_conv)
  have "(phase_at t' host k, events_of k (host_events host created)) =
      phase_run (phase_at t host k) (samples_of p host k [r])" for host k
  proof (cases "host = pr_host r")
    case True
    then show ?thesis
      using same [of k] by (simp add: hev samples_of_def sample_of_def split: prod.split)
  next
    case False
    then show ?thesis by (simp add: hev other samples_of_def events_of_def)
  qed
  with run lg evs inv show thesis by (intro that) (simp_all add: tracker_update_eq)
qed

lemma phase_run_append:
  "phase_run ph (xs @ ys) =
    (let (ph1, es) = phase_run ph xs; (ph2, es') = phase_run ph1 ys in (ph2, es @ es'))"
  by (induction xs arbitrary: ph) (auto split: prod.split)

lemma samples_of_append: "samples_of p host k (xs @ ys) = samples_of p host k xs @ samples_of p host k ys"
  by (simp add: samples_of_def)

lemma samples_of_same: "same_config p q \<Longrightarrow> samples_of p host k rs = samples_of q host k rs"
  using pure_conditions_same by (simp add: samples_of_def sample_of_def)

lemma updates_refine:
  assumes "tracker_inv t" "cache_ok p"
  shows "\<exists>created t' p'. updates h p t rs = Inr (created, t', p')
    \<and> tracker_inv t' \<and> cache_ok p' \<and> same_config p p'
    \<and> log_extends (tr_log t) created (tr_log t')
    \<and> (\<forall>host k. (phase_at t' host k, events_of k (host_events host created)) =
        phase_run (phase_at t host k) (samples_of p host k rs))"
  using assms
proof (induction rs arbitrary: t p)
  case Nil
  then show ?case by (simp add: samples_of_def events_of_def host_events_def)
next
  case (Cons r rs)
  define p1 where "p1 = snd (conditions p r)"
  have p1: "cache_ok p1" "same_config p p1"
    using conditions_correct [OF Cons.prems(2), of r "fst (conditions p r)" p1]
    by (simp_all add: p1_def)
  obtain created t1 where one: "tracker_update h p r t = Inr (created, t1, p1)"
    "\<And>host k. (phase_at t1 host k, events_of k (host_events host created)) =
      phase_run (phase_at t host k) (samples_of p host k [r])"
    "log_extends (tr_log t) created (tr_log t1)" "tracker_inv t1"
    by (rule tracker_update_refines [OF Cons.prems, of h r]) (auto simp: p1_def)
  obtain rest t2 p2 where two: "updates h p1 t1 rs = Inr (rest, t2, p2)"
    "tracker_inv t2" "cache_ok p2" "same_config p1 p2" "log_extends (tr_log t1) rest (tr_log t2)"
    "\<And>host k. (phase_at t2 host k, events_of k (host_events host rest)) =
      phase_run (phase_at t1 host k) (samples_of p1 host k rs)"
    using Cons.IH [OF one(4) p1(1)] by blast
  have "(phase_at t2 host k, events_of k (host_events host (created @ rest))) =
      phase_run (phase_at t host k) (samples_of p host k (r # rs))" for host k
    using one(2) [of host k, symmetric] two(6) [of host k, symmetric] samples_of_append [of p host k "[r]" rs]
      samples_of_same [OF p1(2), of host k rs]
    by (simp add: phase_run_append split: prod.split)
  moreover have "log_extends (tr_log t) (created @ rest) (tr_log t2)"
    by (rule log_extends_trans [OF one(3) two(5)])
  ultimately show ?case
    using one(1) two(1-4) same_config_trans [OF p1(2) two(4)] by simp
qed

section \<open>Restart and host removal\<close>

lemma load_remove_other [simp]:
  "other \<noteq> host \<Longrightarrow> load_host (remove_host t host) other = load_host t other"
  by (simp add: load_host_def remove_host_def Let_def)

lemma slot_remove_same [simp]: "slot_at (load_host (remove_host t host) host) k = rep Idle"
  by (simp add: load_host_def remove_host_def Let_def slot_at_def)

lemma idle_slot [simp]:
  "phase_of \<lparr>sl_current = None, sl_candidate = None, sl_recovery = None, sl_change = None,
     sl_opened = None, sl_last = None\<rparr> = Idle"
  "slot_ok k \<lparr>sl_current = None, sl_candidate = None, sl_recovery = None, sl_change = None,
     sl_opened = None, sl_last = None\<rparr>"
  using phase_of_rep [of Idle] slot_ok_rep [of k Idle] by simp_all

lemma remove_host_inv:
  assumes "tracker_inv t"
  shows "tracker_inv (remove_host t host)"
  unfolding tracker_inv_def
proof (intro conjI allI)
  show "slot_ok k (slot_at (load_host (remove_host t host) other) k)" for other k
    using assms by (cases "other = host") (simp_all add: tracker_inv_def)
qed (use assms in \<open>auto simp: tracker_inv_def remove_host_def Let_def log_ok_def\<close>)

lemma phase_remove_host:
  "phase_at (remove_host t host) other k = (if other = host then Idle else phase_at t other k)"
  by (simp add: phase_at_def)

lemma foldl_remove:
  "tracker_inv t \<Longrightarrow> tracker_inv (foldl remove_host t hosts)
    \<and> (\<forall>other k. phase_at (foldl remove_host t hosts) other k =
        (if other \<in> set hosts then Idle else phase_at t other k))"
proof (induction hosts arbitrary: t)
  case (Cons x hosts)
  from Cons.IH [OF remove_host_inv [OF Cons.prems, of x]] show ?case
    by (auto simp: phase_remove_host)
qed simp

text \<open>A host without a dictionary of its own has nothing but idle incidents.\<close>

lemma phase_unknown_host:
  assumes "tracker_inv t" "host \<notin> fst ` set (tr_active t)"
  shows "phase_at t host k = Idle"
proof -
  have "host \<notin> fst ` set (tr_candidates t)" using assms by (auto simp: tracker_inv_def)
  then have "dsub (tr_active t) host = []" "dsub (tr_candidates t) host = []"
    using assms(2) by (simp_all add: dget_or_def dget_None_iff [symmetric])
  then show ?thesis by (simp add: phase_at_def phase_of_def slot_at_def load_host_def)
qed

lemma remove_hosts_refines:
  assumes "tracker_inv t"
  shows "tracker_inv (remove_hosts t desired)
    \<and> phase_at (remove_hosts t desired) host k
        = (if host \<in> set desired then phase_at t host k else Idle)"
  using foldl_remove [OF assms] phase_unknown_host [OF assms, of host k]
  by (auto simp: remove_hosts_def)

text \<open>What the last record of an incident says.\<close>

definition restored :: "int \<Rightarrow> open_incident list \<Rightarrow> string \<Rightarrow> string \<Rightarrow> phase" where
  "restored cycles ois host k =
    (case find (\<lambda>oi. oi_host oi = host \<and> ic_key (oi_condition oi) = k) (rev ois) of
       None \<Rightarrow> Idle
     | Some oi \<Rightarrow> Active ((oi_condition oi)\<lparr>ic_recovery_cycles := cycles\<rparr>) (oi_opened_at oi)
         (ic_observed_at (oi_condition oi)) None None)"

definition empty_tracker :: "event_log \<Rightarrow> tracker" where
  "empty_tracker lg =
    \<lparr>tr_active = [], tr_candidates = [], tr_recoveries = [], tr_severity_changes = [],
     tr_opened_at = [], tr_last_observed_at = [], tr_log = lg\<rparr>"

lemma restore_slots:
  "slot_at (load_host (foldl (restore_open cycles) (empty_tracker lg) ois) host) k
    = rep (restored cycles ois host k)
   \<and> tr_log (foldl (restore_open cycles) (empty_tracker lg) ois) = lg
   \<and> tr_candidates (foldl (restore_open cycles) (empty_tracker lg) ois) = []
   \<and> wf_dict (tr_active (foldl (restore_open cycles) (empty_tracker lg) ois))
   \<and> wf_dict (dsub (tr_active (foldl (restore_open cycles) (empty_tracker lg) ois)) host)"
proof (induction ois rule: rev_induct)
  case Nil
  show ?case by (simp add: empty_tracker_def restored_def slot_at_def load_host_def)
next
  case (snoc oi ois)
  then show ?case
    by (auto simp: restore_open_def Let_def slot_at_def load_host_def restored_def split: option.splits)
qed

lemma restored_keyed: "phase_keyed k (restored cycles ois host k)"
  by (auto simp: restored_def find_Some_iff split: option.split)

lemma foldl_max_eq: "foldl max (a :: nat) xs = Max (insert a (set xs))"
proof (induction xs arbitrary: a)
  case (Cons x xs)
  have "Max (insert (max a x) (set xs)) = Max (insert a (insert x (set xs)))"
    by (cases "xs = []") (simp_all add: max.assoc)
  with Cons show ?case by simp
qed simp

lemma foldl_max_ge: "x \<in> insert (a :: nat) (set xs) \<Longrightarrow> x \<le> foldl max a xs"
  unfolding foldl_max_eq by (rule Max_ge) simp_all

lemma new_tracker_log_ok:
  assumes "sorted_wrt (<) (map ev_event_id evs)"
  shows "log_ok (tr_log (new_tracker cycles points evs ois))"
proof -
  define kept where "kept = slice_last points evs"
  define top where "top = foldl max 0 (map ev_event_id kept)"
  have lg: "tr_log (new_tracker cycles points evs ois) =
      \<lparr>el_events = deque_of points kept, el_capacity = points, el_version = top,
       el_next_event_id = top + 1\<rparr>"
    using restore_slots unfolding new_tracker_def Let_def kept_def top_def empty_tracker_def by simp
  have "sorted_wrt (<) (map ev_event_id kept)"
    using assms by (simp add: kept_def slice_last_def drop_map [symmetric] sorted_wrt_drop del: drop_map)
  then have "sorted_wrt (<) (map ev_event_id (deque_of points kept))"
    by (simp only: deque_of_def drop_map [symmetric] sorted_wrt_drop)
  moreover have "ev_event_id e \<le> top" if "e \<in> set kept" for e
    unfolding top_def using that by (intro foldl_max_ge) simp
  ultimately show ?thesis
    unfolding lg log_ok_def using set_deque_of [of points kept] by fastforce
qed

lemma new_tracker_inv:
  assumes "sorted_wrt (<) (map ev_event_id evs)"
  shows "tracker_inv (new_tracker cycles points evs ois)
    \<and> phase_at (new_tracker cycles points evs ois) host k = restored cycles ois host k"
  using new_tracker_log_ok [OF assms, of cycles points ois] restore_slots [of cycles] restored_keyed
  unfolding new_tracker_def Let_def empty_tracker_def [symmetric] tracker_inv_def phase_at_def
  by simp

section \<open>Reachable states\<close>

text \<open>The tracker and its policy as the state store drives them: results in any order, hosts
  removed, thresholds and expected GPU counts reconfigured.\<close>

inductive incident_step :: "tracker \<times> policy \<Rightarrow> event list \<Rightarrow> tracker \<times> policy \<Rightarrow> bool" where
  sampled: "tracker_update h p r t = Inr (created, t', p') \<Longrightarrow>
    incident_step (t, p) created (t', p')"
| removed: "incident_step (t, p) [] (remove_hosts t desired, retain_hosts p desired)"
| overridden: "incident_step (t, p) [] (t, update_overrides p ho go hg)"
| counted: "incident_step (t, p) [] (t, update_expected_gpu_counts p counts)"

inductive_cases incident_stepE: "incident_step (t, p) created s'"

inductive incident_reachable :: "tracker \<times> policy \<Rightarrow> bool" where
  started: "sorted_wrt (<) (map ev_event_id evs) \<Longrightarrow>
    incident_reachable
      (new_tracker (recovery_cycles (new_policy thr counts cfg ho go hg)) points evs ois,
       new_policy thr counts cfg ho go hg)"
| stepped: "incident_reachable s \<Longrightarrow> incident_step s created s' \<Longrightarrow> incident_reachable s'"

definition incident_inv :: "tracker \<times> policy \<Rightarrow> bool" where
  "incident_inv s \<longleftrightarrow> tracker_inv (fst s) \<and> cache_ok (snd s)"

lemma remove_hosts_log:
  "el_events (tr_log (remove_hosts t desired)) = el_events (tr_log t)
   \<and> el_next_event_id (tr_log (remove_hosts t desired)) = el_next_event_id (tr_log t)
   \<and> el_version (tr_log t) \<le> el_version (tr_log (remove_hosts t desired))"
proof -
  have "el_events (tr_log (foldl remove_host t hosts)) = el_events (tr_log t)
   \<and> el_next_event_id (tr_log (foldl remove_host t hosts)) = el_next_event_id (tr_log t)
   \<and> el_version (tr_log t) \<le> el_version (tr_log (foldl remove_host t hosts))" for hosts
  proof (induction hosts arbitrary: t)
    case (Cons x hosts)
    from Cons.IH [of "remove_host t x"] show ?case by (auto simp: remove_host_def Let_def split: if_splits)
  qed simp
  then show ?thesis by (simp add: remove_hosts_def)
qed

lemma incident_step_inv:
  assumes "incident_step s created s'" "incident_inv s"
  shows "incident_inv s'"
  using assms
proof (cases rule: incident_step.cases)
  case (sampled h p r t t' p')
  have ok: "tracker_inv t" "cache_ok p" using assms(2) sampled(1) by (simp_all add: incident_inv_def)
  obtain c u where "tracker_update h p r t = Inr (c, u, snd (conditions p r))" "tracker_inv u"
    by (rule tracker_update_refines [OF ok, of h r]) blast
  with sampled(3) threshold_policy.conds_valid [OF ok(2), of r] show ?thesis
    by (simp add: sampled(2) incident_inv_def)
qed (auto simp: incident_inv_def remove_hosts_refines retain_hosts_correct cache_ok_update_overrides
      cache_ok_expected)

lemma incident_reachable_inv: "incident_reachable s \<Longrightarrow> incident_inv s"
proof (induction rule: incident_reachable.induct)
  case started
  then show ?case by (simp add: incident_inv_def new_tracker_inv cache_ok_new)
qed (rule incident_step_inv)

end
