(* ===== verification/Incident_Confirmation.thy ===== *)
theory Incident_Confirmation
  imports Incident_History
begin

text \<open>
  How long an incident takes to open, to change severity and to resolve, over the specification
  \<open>phase_run\<close> that every history of the tracker refines.
\<close>

section \<open>Streaks of confirming samples\<close>

fun observed_in :: "sample \<Rightarrow> condition option" where
  "observed_in (online, ob, domains, obs) = obs"

text \<open>The conditions of the latest consecutive samples that confirm severity \<open>sv\<close>, latest first.\<close>

fun latest_streak :: "severity \<Rightarrow> sample list \<Rightarrow> condition list" where
  "latest_streak sv [] = []"
| "latest_streak sv (s # ss) =
    (case observed_in s of
       None \<Rightarrow> []
     | Some c \<Rightarrow>
         if ic_below_threshold c \<or> ic_severity c \<noteq> sv then [] else c # latest_streak sv ss)"

definition streak :: "severity \<Rightarrow> sample list \<Rightarrow> condition list" where
  "streak sv ss = latest_streak sv (rev ss)"

lemma streak_snoc:
  "streak sv (ss @ [s]) =
    (case observed_in s of
       None \<Rightarrow> []
     | Some c \<Rightarrow> if ic_below_threshold c \<or> ic_severity c \<noteq> sv then [] else c # streak sv ss)"
  by (simp add: streak_def split: option.split)

lemma streak_Nil [simp]: "streak sv [] = []"
  by (simp add: streak_def)

text \<open>How long a confirmation has lasted: the number of samples and the first one's time.\<close>

definition confirmed_by :: "condition \<Rightarrow> condition list \<Rightarrow> bool" where
  "confirmed_by c st \<longleftrightarrow>
    st \<noteq> [] \<and> ic_open_after_cycles c \<le> int (length st) \<and> sustained (ic_observed_at (last st)) c"

definition streak_inv :: "sample list \<Rightarrow> phase \<Rightarrow> bool" where
  "streak_inv ss ph \<longleftrightarrow>
    (case ph of
       Idle \<Rightarrow> \<forall>sv. streak sv ss = []
     | Pending c n since \<Rightarrow>
         (\<forall>sv. sv \<noteq> ic_severity c \<longrightarrow> streak sv ss = [])
         \<and> streak (ic_severity c) ss \<noteq> []
         \<and> n = int (length (streak (ic_severity c) ss))
         \<and> since = ic_observed_at (last (streak (ic_severity c) ss))
     | Active _ _ _ _ _ \<Rightarrow> True)"

fun is_active :: "phase \<Rightarrow> bool" where
  "is_active (Active c opened seen sc rc) = True"
| "is_active _ = False"

lemma confirm_streak:
  assumes "\<not> ic_below_threshold new"
    and "n = int (length (streak (ic_severity new) ss))"
    and "streak (ic_severity new) ss = [] \<Longrightarrow> since = ic_observed_at new"
    and "streak (ic_severity new) ss \<noteq> [] \<Longrightarrow>
      since = ic_observed_at (last (streak (ic_severity new) ss))"
    and "observed_in s = Some new"
  shows "streak_inv (ss @ [s]) (fst (confirm new n since))"
    and "snd (confirm new n since) =
      (if confirmed_by new (streak (ic_severity new) (ss @ [s])) then [(Opened, new)] else [])"
proof -
  have st: "streak (ic_severity new) (ss @ [s]) = new # streak (ic_severity new) ss"
    using assms by (simp add: streak_snoc)
  have since: "ic_observed_at (last (streak (ic_severity new) (ss @ [s]))) = since"
    using assms(3,4) by (simp add: st)
  show "streak_inv (ss @ [s]) (fst (confirm new n since))"
    using assms(1,2,5) st since by (auto simp: confirm_def streak_inv_def streak_snoc)
  show "snd (confirm new n since) =
      (if confirmed_by new (streak (ic_severity new) (ss @ [s])) then [(Opened, new)] else [])"
    using assms(1,2) since by (auto simp: confirm_def confirmed_by_def st add.commute)
qed

lemma streak_step:
  assumes "streak_inv ss ph"
  shows "streak_inv (ss @ [s]) (fst (sample_step s ph))"
    and "\<not> is_active ph \<Longrightarrow> snd (sample_step s ph) =
      (case observed_in s of
         None \<Rightarrow> []
       | Some c \<Rightarrow> if \<not> ic_below_threshold c \<and> confirmed_by c (streak (ic_severity c) (ss @ [s]))
                   then [(Opened, c)] else [])"
proof -
  obtain online ob domains obs where s: "s = (online, ob, domains, obs)" by (metis prod_cases4)
  have both: "streak_inv (ss @ [s]) (fst (sample_step s ph)) \<and> (\<not> is_active ph \<longrightarrow>
      snd (sample_step s ph) =
        (case observed_in s of
           None \<Rightarrow> []
         | Some c \<Rightarrow> if \<not> ic_below_threshold c \<and> confirmed_by c (streak (ic_severity c) (ss @ [s]))
                     then [(Opened, c)] else []))"
  proof (cases obs)
    case None
    then show ?thesis
      by (cases ph) (simp_all add: s phase_step_def streak_inv_def streak_snoc Let_def)
  next
    case (Some new)
    have obs: "observed_in s = Some new" by (simp add: s Some)
    show ?thesis
    proof (cases "ic_below_threshold new")
      case True
      then show ?thesis
        by (cases ph) (simp_all add: s Some phase_step_def streak_inv_def streak_snoc confirm_def
            Let_def split: prod.split)
    next
      case False
      show ?thesis
      proof (cases ph)
        case Idle
        then have "streak (ic_severity new) ss = []" using assms by (simp add: streak_inv_def)
        then show ?thesis
          using confirm_streak [OF False _ _ _ obs, of 0 ss "ic_observed_at new"] False
          by (simp add: s Some Idle phase_step_def)
      next
        case (Pending c n since)
        then show ?thesis
          using assms False
            confirm_streak [OF False _ _ _ obs, of "if ic_severity c = ic_severity new then n else 0"
              ss "if ic_severity c = ic_severity new then since else ic_observed_at new"]
          by (auto simp: s Some phase_step_def streak_inv_def [of ss])
      next
        case (Active c opened seen sc rc)
        then show ?thesis
          by (auto simp: s Some phase_step_def streak_inv_def Let_def split: prod.split)
      qed
    qed
  qed
  show "streak_inv (ss @ [s]) (fst (sample_step s ph))" using both by blast
  show "\<not> is_active ph \<Longrightarrow> snd (sample_step s ph) =
      (case observed_in s of
         None \<Rightarrow> []
       | Some c \<Rightarrow> if \<not> ic_below_threshold c \<and> confirmed_by c (streak (ic_severity c) (ss @ [s]))
                   then [(Opened, c)] else [])"
    using both by blast
qed

lemma phase_run_snoc:
  "phase_run ph (ss @ [s]) =
    (fst (sample_step s (fst (phase_run ph ss))),
     snd (phase_run ph ss) @ snd (sample_step s (fst (phase_run ph ss))))"
  by (simp add: phase_run_append split: prod.split)

lemma streak_run: "streak_inv ss (fst (phase_run Idle ss))"
proof (induction ss rule: rev_induct)
  case (snoc s ss)
  then show ?case by (simp add: phase_run_snoc streak_step)
qed (simp add: streak_inv_def)

section \<open>The life of an incident\<close>

text \<open>The transitions an incident can report: it opens, changes severity back and forth and
  resolves, each change starting from the severity the last one left.\<close>

fun well_ordered :: "severity option \<Rightarrow> transition list \<Rightarrow> bool" where
  "well_ordered sv [] \<longleftrightarrow> True"
| "well_ordered None ((Opened, c) # es) \<longleftrightarrow> well_ordered (Some (ic_severity c)) es"
| "well_ordered (Some Warning) ((Escalated, c) # es) \<longleftrightarrow>
    ic_severity c = Critical \<and> well_ordered (Some Critical) es"
| "well_ordered (Some Critical) ((Deescalated, c) # es) \<longleftrightarrow>
    ic_severity c = Warning \<and> well_ordered (Some Warning) es"
| "well_ordered (Some sv) ((Resolved, c) # es) \<longleftrightarrow> ic_severity c = sv \<and> well_ordered None es"
| "well_ordered _ _ \<longleftrightarrow> False"

fun active_severity :: "phase \<Rightarrow> severity option" where
  "active_severity (Active c opened seen sc rc) = Some (ic_severity c)"
| "active_severity _ = None"

lemma confirm_ordered:
  "well_ordered (active_severity (fst (confirm new n since))) es \<Longrightarrow>
    well_ordered None (snd (confirm new n since) @ es)"
  by (auto simp: confirm_def split: if_splits)

lemma step_ordered:
  assumes "well_ordered (active_severity (fst (sample_step s ph))) es"
  shows "well_ordered (active_severity ph) (snd (sample_step s ph) @ es)"
proof -
  obtain online ob domains obs where s: "s = (online, ob, domains, obs)" by (metis prod_cases4)
  show ?thesis
  proof (cases obs)
    case None
    with assms show ?thesis
      by (cases ph) (auto simp: s phase_step_def Let_def split: if_splits)
  next
    case (Some new)
    show ?thesis
    proof (cases ph)
      case (Active c opened seen sc rc)
      then show ?thesis
        using assms Some
        by (cases "ic_severity c"; cases "ic_severity (hold new c)")
           (auto simp: s phase_step_def Let_def split: prod.splits if_splits)
    qed (use assms Some in \<open>auto simp: s phase_step_def intro: confirm_ordered\<close>)
  qed
qed

lemma run_ordered: "well_ordered (active_severity ph) (snd (phase_run ph ss))"
proof (induction ss arbitrary: ph)
  case (Cons s ss)
  from step_ordered [OF Cons.IH, of ph s] show ?case
    by (cases "sample_step s ph"; cases "phase_run (fst (sample_step s ph)) ss") simp
qed simp

section \<open>Recovery\<close>

text \<open>Samples that do not show an active condition, and those among them that speak for it.\<close>

fun speaks_in :: "condition \<Rightarrow> string \<Rightarrow> sample \<Rightarrow> bool" where
  "speaks_in c opened (online, ob, domains, obs) = speaks online ob domains c opened"

lemma absent_step:
  "observed_in s = None \<Longrightarrow>
    sample_step s (Active c opened seen sc rc) =
      (let n = (case rc of None \<Rightarrow> 0 | Some m \<Rightarrow> m) + 1 in
       if \<not> speaks_in c opened s then (Active c opened seen None rc, [])
       else if ic_recovery_cycles c \<le> n then (Idle, [(Resolved, c)])
       else (Active c opened seen None (Some n), []))"
  by (cases s) (simp add: phase_step_def Let_def)

lemma absent_run_idle: "\<forall>s \<in> set ss. observed_in s = None \<Longrightarrow> phase_run Idle ss = (Idle, [])"
proof (induction ss)
  case (Cons s ss)
  then show ?case by (cases s) (simp add: phase_step_def)
qed simp

text \<open>An active condition that a run of samples never shows: the samples that speak for it
  are counted, the others change nothing, and the count decides when it resolves.\<close>

lemma absent_run:
  assumes "\<forall>s \<in> set ss. observed_in s = None" "0 \<le> m" "m = 0 \<or> m < ic_recovery_cycles c"
    and "m = (case rc of None \<Rightarrow> 0 | Some k \<Rightarrow> k)"
    and "n = int (length (filter (speaks_in c opened) ss))"
  shows "if 0 < n \<and> ic_recovery_cycles c \<le> m + n
    then phase_run (Active c opened seen sc rc) ss = (Idle, [(Resolved, c)])
    else \<exists>sc' rc'. phase_run (Active c opened seen sc rc) ss = (Active c opened seen sc' rc', [])
      \<and> (case rc' of None \<Rightarrow> 0 | Some k \<Rightarrow> k) = m + n"
  using assms
proof (induction ss arbitrary: sc rc m n)
  case (Cons s ss)
  note absent = absent_step [of s c opened seen sc rc]
  show ?case
  proof (cases "speaks_in c opened s")
    case speaks: True
    show ?thesis
    proof (cases "ic_recovery_cycles c \<le> m + 1")
      case True
      then show ?thesis
        using speaks Cons.prems absent absent_run_idle [of ss] by (simp add: Let_def)
    next
      case False
      have "if 0 < n - 1 \<and> ic_recovery_cycles c \<le> (m + 1) + (n - 1)
        then phase_run (Active c opened seen None (Some (m + 1))) ss = (Idle, [(Resolved, c)])
        else \<exists>sc' rc'. phase_run (Active c opened seen None (Some (m + 1))) ss
            = (Active c opened seen sc' rc', [])
          \<and> (case rc' of None \<Rightarrow> 0 | Some k \<Rightarrow> k) = (m + 1) + (n - 1)"
        using Cons.prems speaks False by (intro Cons.IH) simp_all
      then show ?thesis
        using speaks Cons.prems absent False by (auto simp: Let_def split: if_splits)
    qed
  next
    case False
    have "if 0 < n \<and> ic_recovery_cycles c \<le> m + n
        then phase_run (Active c opened seen None rc) ss = (Idle, [(Resolved, c)])
        else \<exists>sc' rc'. phase_run (Active c opened seen None rc) ss
            = (Active c opened seen sc' rc', [])
          \<and> (case rc' of None \<Rightarrow> 0 | Some k \<Rightarrow> k) = m + n"
      using Cons.prems False by (intro Cons.IH) simp_all
    then show ?thesis using False Cons.prems absent by (auto simp: Let_def split: if_splits)
  qed
qed simp

end
