(* ===== verification/Incident_Properties.thy ===== *)
theory Incident_Properties
  imports Incident_Confirmation
begin

text \<open>
  The properties of incident detection, stated over the tracker and the threshold policy as
  they run together: every history refines the one-incident specification, and with it what
  opens, resolves, freezes, survives a restart and is listed.
\<close>

section \<open>Concrete states for the witnesses\<close>

definition example_policy :: policy where
  "example_policy = new_policy default_thresholds [] None [] [] []"

definition example_tracker :: tracker where
  "example_tracker = new_tracker 2 10 [] []"

definition example_down :: "string \<Rightarrow> probe_result" where
  "example_down ob =
    \<lparr>pr_host = ''n1'', pr_status = Unreachable, pr_latency_ms = 0, pr_gpus = [],
     pr_message = Some ''timed out'', pr_observed_at = ob, pr_system = None,
     pr_transport_retries = 0\<rparr>"

definition example_up :: "string \<Rightarrow> probe_result" where
  "example_up ob = (example_down ob)\<lparr>pr_status := Online, pr_message := None\<rparr>"

lemma example_cycles: "recovery_cycles example_policy = 2"
  by (simp add: example_policy_def recovery_cycles_def new_policy_def default_incidents_def)

lemma example_reachable: "incident_reachable (example_tracker, example_policy)"
  using started [of "[]" default_thresholds "[]" None "[]" "[]" "[]" 10 "[]"]
  unfolding example_policy_def [symmetric] example_cycles example_tracker_def by simp

lemma reachableD:
  "incident_reachable (t, p) \<Longrightarrow> tracker_inv t" "incident_reachable (t, p) \<Longrightarrow> cache_ok p"
  using incident_reachable_inv [of "(t, p)"] by (simp_all add: incident_inv_def)

lemma updates_reachable:
  "incident_reachable (t, p) \<Longrightarrow> updates h p t rs = Inr (created, t', p') \<Longrightarrow>
    incident_reachable (t', p')"
proof (induction rs arbitrary: t p created)
  case (Cons r rs)
  from Cons.prems(2) obtain c1 t1 p1 c2 where
    one: "tracker_update h p r t = Inr (c1, t1, p1)" and two: "updates h p1 t1 rs = Inr (c2, t', p')"
    by (auto split: sum.splits)
  from Cons.IH [OF stepped [OF Cons.prems(1) sampled [OF one]] two] show ?case .
qed simp

lemma update_total:
  assumes "incident_reachable (t, p)"
  obtains created t' p' where "tracker_update h p r t = Inr (created, t', p')"
  using tracker_update_refines [OF reachableD [OF assms], of h r] by metis

section \<open>Histories refine the specification\<close>

text \<open>C1. In every reachable state, whatever results follow and in whatever order sets are
  iterated, the tracker accepts them all (no lookup ever fails) and every incident of every
  host moves exactly as its own three-phase state machine does on that host's samples, with
  the same transitions reported in the same order.\<close>

theorem tracker_history_refines:
  assumes "incident_reachable (t, p)"
  shows "\<exists>created t' p'. updates h p t rs = Inr (created, t', p')
    \<and> incident_reachable (t', p')
    \<and> (\<forall>host k. (phase_at t' host k, events_of k (host_events host created)) =
        phase_run (phase_at t host k) (samples_of p host k rs))"
  using updates_refine [OF reachableD [OF assms], of h rs] updates_reachable [OF assms] by blast

theorem tracker_history_refines_witness:
  "\<exists>created t' p'. updates length example_policy example_tracker
      [example_down ''t1'', example_up ''t2''] = Inr (created, t', p')
    \<and> incident_reachable (t', p')
    \<and> (\<forall>host k. (phase_at t' host k, events_of k (host_events host created)) =
        phase_run (phase_at example_tracker host k)
          (samples_of example_policy host k [example_down ''t1'', example_up ''t2'']))"
  by (rule tracker_history_refines [OF example_reachable])

text \<open>C4. In every reachable state the six dictionaries agree: exactly the active conditions
  have an opening and a last-observation time, none of them is also a candidate, only they
  have recovery counts or pending severity changes, each is stored under its own key, and the
  log is within its capacity with strictly increasing event ids.\<close>

theorem tracker_state_consistent:
  assumes "incident_reachable (t, p)"
  shows "(has_active_condition t host k \<longleftrightarrow> dget (dsub (tr_opened_at t) host) k \<noteq> None)
    \<and> (has_active_condition t host k \<longleftrightarrow> dget (dsub (tr_last_observed_at t) host) k \<noteq> None)
    \<and> \<not> (has_active_condition t host k \<and> has_pending_condition t host k)
    \<and> (dget (dsub (tr_recoveries t) host) k \<noteq> None \<longrightarrow> has_active_condition t host k)
    \<and> (dget (dsub (tr_severity_changes t) host) k \<noteq> None \<longrightarrow> has_active_condition t host k)
    \<and> (\<forall>c. dget (dsub (tr_active t) host) k = Some c \<longrightarrow> ic_key c = k)
    \<and> length (el_events (tr_log t)) \<le> el_capacity (tr_log t)
    \<and> sorted_wrt (<) (map ev_event_id (el_events (tr_log t)))"
proof -
  note inv = reachableD(1) [OF assms]
  have slot: "slot_at (load_host t host) k = rep (phase_at t host k)"
    and kd: "phase_keyed k (phase_at t host k)"
    by (rule tracker_inv_slot [OF inv], rule tracker_inv_keyed [OF inv])
  have "log_ok (tr_log t)" using inv by (simp add: tracker_inv_def)
  then show ?thesis
    using slot kd
    by (cases "phase_at t host k")
       (simp_all add: log_ok_def slot_at_def load_host_def has_active_condition_def
          has_pending_condition_def)
qed

section \<open>The reported events\<close>

text \<open>An update numbers its new events consecutively from the next event id, stamps them
  with the sampled host and time, appends them to the log, which keeps only its newest
  entries, and advances the version by their number.\<close>

lemma update_extends_log:
  assumes "incident_reachable (t, p)" "tracker_update h p r t = Inr (created, t', p')"
  shows "map ev_event_id created =
      [el_next_event_id (tr_log t)..<el_next_event_id (tr_log t) + length created]
    \<and> el_next_event_id (tr_log t') = el_next_event_id (tr_log t) + length created
    \<and> el_version (tr_log t') = el_version (tr_log t) + length created
    \<and> el_events (tr_log t')
        = deque_of (el_capacity (tr_log t)) (el_events (tr_log t) @ created)
    \<and> (\<forall>e \<in> set created. ev_host e = pr_host r \<and> ev_observed_at e = pr_observed_at r)"
proof -
  note ok = reachableD [OF assms(1)]
  obtain c u where
    "tracker_update h p r t = Inr (c, u, snd (conditions p r))" "log_extends (tr_log t) c (tr_log u)"
    "\<forall>e \<in> set c. ev_host e = pr_host r \<and> ev_observed_at e = pr_observed_at r"
    by (rule tracker_update_refines [OF ok, of h r]) blast
  moreover have "length (el_events (tr_log t)) \<le> el_capacity (tr_log t)"
    using ok(1) by (simp add: tracker_inv_def log_ok_def)
  ultimately show ?thesis using assms(2) by (simp add: log_extends_def deque_extend_eq)
qed

lemma update_extends_log_witness:
  "\<exists>created t' p'. tracker_update length example_policy (example_down ''t1'') example_tracker
      = Inr (created, t', p')
    \<and> el_version (tr_log t') = el_version (tr_log example_tracker) + length created"
proof -
  obtain created t' p' where
    run: "tracker_update length example_policy (example_down ''t1'') example_tracker
      = Inr (created, t', p')"
    by (rule update_total [OF example_reachable])
  from update_extends_log [OF example_reachable run] run show ?thesis by blast
qed

section \<open>Opening, resolving and freezing\<close>

lemma active_slot:
  assumes "tracker_inv t"
  shows "has_active_condition t host k \<longleftrightarrow> is_active (phase_at t host k)"
    and "dget (dsub (tr_active t) host) k =
      (case phase_at t host k of Active c _ _ _ _ \<Rightarrow> Some c | _ \<Rightarrow> None)"
    and "dget (dsub (tr_opened_at t) host) k =
      (case phase_at t host k of Active _ opened _ _ _ \<Rightarrow> Some opened | _ \<Rightarrow> None)"
    and "dget (dsub (tr_recoveries t) host) k =
      (case phase_at t host k of Active _ _ _ _ rc \<Rightarrow> rc | _ \<Rightarrow> None)"
    and "dget (dsub (tr_last_observed_at t) host) k =
      (case phase_at t host k of Active _ _ seen _ _ \<Rightarrow> Some seen | _ \<Rightarrow> None)"
    and "dget (dsub (tr_severity_changes t) host) k =
      (case phase_at t host k of Active _ _ _ sc _ \<Rightarrow> sc | _ \<Rightarrow> None)"
    and "has_pending_condition t host k \<longleftrightarrow> (\<exists>c n since. phase_at t host k = Pending c n since)"
  using tracker_inv_slot [OF assms, of host k]
  by (cases "phase_at t host k";
      simp add: slot_at_def load_host_def has_active_condition_def has_pending_condition_def)+

text \<open>The two refinement lemmas with the results given.\<close>

lemma updates_facts:
  assumes "incident_reachable (t, p)" "updates h p t rs = Inr (created, t', p')"
  shows "tracker_inv t'" "cache_ok p'" "same_config p p'"
    "phase_at t' host k = fst (phase_run (phase_at t host k) (samples_of p host k rs))"
    "events_of k (host_events host created) = snd (phase_run (phase_at t host k) (samples_of p host k rs))"
  using updates_refine [OF reachableD [OF assms(1)], of h rs] assms(2)
  by (metis fst_conv snd_conv Pair_inject sum.inject(2))+

lemma update_facts:
  assumes "incident_reachable (t, p)" "tracker_update h p r t = Inr (created, t', p')"
  shows "tracker_inv t'"
    "phase_at t' (pr_host r) k = fst (sample_step (sample_of p k r) (phase_at t (pr_host r) k))"
    "events_of k created = snd (sample_step (sample_of p k r) (phase_at t (pr_host r) k))"
proof -
  obtain c u where u: "tracker_update h p r t = Inr (c, u, snd (conditions p r))"
    "\<And>host k. (phase_at u host k, events_of k (host_events host c)) =
      phase_run (phase_at t host k) (samples_of p host k [r])"
    "\<forall>e \<in> set c. ev_host e = pr_host r \<and> ev_observed_at e = pr_observed_at r" "tracker_inv u"
    by (rule tracker_update_refines [OF reachableD [OF assms(1)], of h r]) blast
  then have eq: "c = created" "u = t'" using assms(2) by simp_all
  have "host_events (pr_host r) created = created"
    using u(3) by (simp add: eq host_events_def filter_id_conv)
  then show "tracker_inv t'"
    "phase_at t' (pr_host r) k = fst (sample_step (sample_of p k r) (phase_at t (pr_host r) k))"
    "events_of k created = snd (sample_step (sample_of p k r) (phase_at t (pr_host r) k))"
    using u(2) [of "pr_host r" k] u(4) by (simp_all add: eq samples_of_def split: prod.splits,
         (metis fst_conv, metis snd_conv)?)
qed

text \<open>C2. An idle or pending condition opens on a sample exactly when that sample derives it at
  or above its threshold and the unbroken run of samples of the same severity ending there,
  since the incident was last idle, is long enough, both in samples and in seconds. In
  particular an unreachable probe, a blind spot or a reading inside the recovery margin starts
  the count again.\<close>

theorem opens_iff_confirmed:
  assumes "incident_reachable (t0, p0)" "phase_at t0 (pr_host r) k = Idle"
    and "updates h p0 t0 rs = Inr (created, t, p)"
    and "tracker_update h p r t = Inr (evs, t', p')"
    and "\<not> has_active_condition t (pr_host r) k"
  shows "(Opened, c) \<in> set (events_of k evs) \<longleftrightarrow>
    dget (pure_conditions p0 r) k = Some c \<and> \<not> ic_below_threshold c
    \<and> confirmed_by c (streak (ic_severity c) (samples_of p0 (pr_host r) k (rs @ [r])))"
proof -
  note run = updates_facts [OF assms(1,3)]
  note upd = update_facts [OF updates_reachable [OF assms(1,3)] assms(4)]
  have ph: "phase_at t (pr_host r) k = fst (phase_run Idle (samples_of p0 (pr_host r) k rs))"
    using run(4) [of "pr_host r" k] assms(2) by simp
  have s: "sample_of p k r = sample_of p0 k r"
    using pure_conditions_same [OF run(3)] by (simp add: sample_of_def)
  have split: "samples_of p0 (pr_host r) k (rs @ [r])
      = samples_of p0 (pr_host r) k rs @ [sample_of p0 k r]"
    by (simp add: samples_of_def)
  have "\<not> is_active (phase_at t (pr_host r) k)"
    using assms(5) active_slot(1) [OF run(1)] by simp
  then have "events_of k evs =
      (case dget (pure_conditions p0 r) k of
         None \<Rightarrow> []
       | Some c \<Rightarrow> if \<not> ic_below_threshold c
            \<and> confirmed_by c (streak (ic_severity c) (samples_of p0 (pr_host r) k (rs @ [r])))
          then [(Opened, c)] else [])"
    using streak_step(2) [OF streak_run, of "samples_of p0 (pr_host r) k rs" "sample_of p0 k r"]
    unfolding upd(3) ph split s by (simp add: sample_of_def)
  then show ?thesis by (auto split: option.splits if_splits)
qed

lemma example_idle: "phase_at example_tracker host k = Idle"
  using new_tracker_inv [of "[]" 2 10 "[]" host k] by (simp add: example_tracker_def restored_def)

theorem opens_iff_confirmed_witness:
  "\<exists>evs t' p'. tracker_update length example_policy (example_down ''t1'') example_tracker
      = Inr (evs, t', p')
    \<and> (Opened, connectivity_condition default_incidents (example_down ''t1''))
        \<in> set (events_of ''connectivity'' evs)"
proof -
  let ?c = "connectivity_condition default_incidents (example_down ''t1'')"
  obtain evs t' p' where
    run: "tracker_update length example_policy (example_down ''t1'') example_tracker
      = Inr (evs, t', p')"
    by (rule update_total [OF example_reachable])
  have "\<not> has_active_condition example_tracker (pr_host (example_down ''t1'')) ''connectivity''"
    by (simp add: has_active_condition_def example_tracker_def new_tracker_def Let_def)
  from opens_iff_confirmed [OF example_reachable example_idle updates.simps(1) run this, of ?c]
  have "(Opened, ?c) \<in> set (events_of ''connectivity'' evs)"
    by (simp add: example_down_def example_policy_def new_policy_def pure_conditions_def
        confirmed_by_def samples_of_def sample_of_def streak_def connectivity_condition_def sustained_def
        mk_condition_def)
  with run show ?thesis by blast
qed

text \<open>The transitions reported for one incident alternate as an incident's life must: it
  opens once, then its severity changes back and forth between warning and critical, then it
  resolves with the severity it last had, and only then can it open again.\<close>

lemma reported_life_well_ordered:
  assumes "incident_reachable (t, p)" "updates h p t rs = Inr (created, t', p')"
  shows "well_ordered (active_severity (phase_at t host k))
    (events_of k (host_events host created))"
  unfolding updates_facts(5) [OF assms] by (rule run_ordered)

lemma updates_total:
  assumes "incident_reachable (t, p)"
  obtains created t' p' where "updates h p t rs = Inr (created, t', p')"
  using updates_refine [OF reachableD [OF assms], of h rs] by blast

lemma reported_life_well_ordered_witness:
  "\<exists>created t' p'. updates length example_policy example_tracker
      [example_down ''t1'', example_up ''t2''] = Inr (created, t', p')
    \<and> well_ordered None (events_of ''connectivity'' (host_events ''n1'' created))"
proof -
  obtain created t' p' where
    run: "updates length example_policy example_tracker [example_down ''t1'', example_up ''t2'']
      = Inr (created, t', p')"
    by (rule updates_total [OF example_reachable])
  with reported_life_well_ordered [OF example_reachable run, of "''n1''" "''connectivity''"]
  show ?thesis by (simp add: example_idle)
qed

text \<open>C3. An active condition that later samples do not show resolves exactly when enough of them
  speak for it: reachable, not older than the incident, and carrying the telemetry the condition
  is derived from. The others neither advance nor reset the count. It resolves once, with the
  condition it was active with.\<close>

theorem resolves_iff_enough_evidence:
  assumes "incident_reachable (t, p)"
    and "phase_at t host k = Active c opened seen sc None"
    and "\<forall>s \<in> set (samples_of p host k rs). observed_in s = None"
    and "updates h p t rs = Inr (created, t', p')"
    and "n = int (length (filter (speaks_in c opened) (samples_of p host k rs)))"
  shows "events_of k (host_events host created) =
      (if 0 < n \<and> ic_recovery_cycles c \<le> n then [(Resolved, c)] else [])
    \<and> (has_active_condition t' host k \<longleftrightarrow> \<not> (0 < n \<and> ic_recovery_cycles c \<le> n))"
proof -
  note run = updates_facts [OF assms(1,4)]
  from absent_run [OF assms(3), of 0 c None n opened seen sc] assms(5)
  show ?thesis
    unfolding run(5) active_slot(1) [OF run(1)] run(4) assms(2)
    by (auto split: if_splits)
qed

definition example_open :: open_incident where
  "example_open = \<lparr>oi_host = ''n1'',
     oi_condition = connectivity_condition default_incidents (example_down ''t0''),
     oi_opened_at = ''t0''\<rparr>"

definition example_restored :: tracker where
  "example_restored = new_tracker 2 10 [] [example_open]"

lemma example_restored_reachable: "incident_reachable (example_restored, example_policy)"
  using started [of "[]" default_thresholds "[]" None "[]" "[]" "[]" 10 "[example_open]"]
  unfolding example_policy_def [symmetric] example_cycles example_restored_def by simp

lemma example_restored_phase:
  "phase_at example_restored ''n1'' ''connectivity'' =
    Active (connectivity_condition default_incidents (example_down ''t0'')) ''t0'' ''t0'' None None"
  using new_tracker_inv [of "[]" 2 10 "[example_open]" "''n1''" "''connectivity''"]
  by (simp add: example_restored_def restored_def example_open_def connectivity_condition_def
      example_down_def default_incidents_def mk_condition_def)
theorem resolves_iff_enough_evidence_witness:
  "\<exists>created t' p'. updates length example_policy example_restored
      [example_up ''t1'', example_up ''t2''] = Inr (created, t', p')
    \<and> events_of ''connectivity'' (host_events ''n1'' created) =
        [(Resolved, connectivity_condition default_incidents (example_down ''t0''))]
    \<and> \<not> has_active_condition t' ''n1'' ''connectivity''"
proof -
  let ?rs = "[example_up ''t1'', example_up ''t2'']"
  let ?ss = "samples_of example_policy ''n1'' ''connectivity'' ?rs"
  let ?c = "connectivity_condition default_incidents (example_down ''t0'')"
  obtain created t' p' where
    run: "updates length example_policy example_restored ?rs = Inr (created, t', p')"
    by (rule updates_total [OF example_restored_reachable])
  have none: "\<forall>s \<in> set ?ss. observed_in s = None"
    by code_simp
  have n: "2 = int (length (filter (speaks_in ?c ''t0'') ?ss))" and c: "ic_recovery_cycles ?c = 2"
    by code_simp+
  from resolves_iff_enough_evidence [OF example_restored_reachable example_restored_phase none run n]
  show ?thesis using run by (simp add: c)
qed

text \<open>An update works on the dictionaries of the sampled host alone.\<close>

lemma update_other_hosts:
  assumes "tracker_update h p r t = Inr (created, t', p')" "other \<noteq> pr_host r"
  shows "load_host t' other = load_host t other"
  using assms unfolding tracker_update_eq tracker_apply_def Let_def
  by (auto split: sum.splits prod.splits)

lemma update_events_host:
  assumes "incident_reachable (t, p)" "tracker_update h p r t = Inr (created, t', p')"
  shows "host_events host created = (if host = pr_host r then created else [])"
  using update_extends_log [OF assms] by (auto simp: host_events_def filter_id_conv filter_empty_conv)

text \<open>C5. The result of a failed probe, unreachable or in error, reports nothing of its host but its
  connectivity: every other active condition stays active unchanged, with its opening time, the time
  it was last observed and its recovery count; every other confirmation under way, of an opening or
  of a change of severity, is discarded; and of every other host nothing is reported and none of
  the six dictionaries changes.\<close>

theorem unreachable_freezes:
  assumes "incident_reachable (t, p)" "pr_status r \<noteq> Online"
    and "tracker_update h p r t = Inr (created, t', p')"
    and "k \<noteq> ''connectivity''"
  shows "events_of k created = []
    \<and> dget (dsub (tr_active t') (pr_host r)) k = dget (dsub (tr_active t) (pr_host r)) k
    \<and> dget (dsub (tr_opened_at t') (pr_host r)) k = dget (dsub (tr_opened_at t) (pr_host r)) k
    \<and> dget (dsub (tr_last_observed_at t') (pr_host r)) k = dget (dsub (tr_last_observed_at t) (pr_host r)) k
    \<and> dget (dsub (tr_recoveries t') (pr_host r)) k = dget (dsub (tr_recoveries t) (pr_host r)) k
    \<and> \<not> has_pending_condition t' (pr_host r) k
    \<and> dget (dsub (tr_severity_changes t') (pr_host r)) k = None
    \<and> (\<forall>other. other \<noteq> pr_host r \<longrightarrow>
        load_host t' other = load_host t other \<and> host_events other created = [])"
proof -
  note upd = update_facts [OF assms(1,3)]
  have "dget (pure_conditions p r) k = None" using assms(2,4) by (simp add: pure_conditions_def)
  then have step: "sample_step (sample_of p k r) ph = (prepared None ph, [])" for ph
    using assms(2) absent_offline by (simp add: sample_of_def phase_step_def)
  have own: "events_of k created = []
    \<and> dget (dsub (tr_active t') (pr_host r)) k = dget (dsub (tr_active t) (pr_host r)) k
    \<and> dget (dsub (tr_opened_at t') (pr_host r)) k = dget (dsub (tr_opened_at t) (pr_host r)) k
    \<and> dget (dsub (tr_last_observed_at t') (pr_host r)) k = dget (dsub (tr_last_observed_at t) (pr_host r)) k
    \<and> dget (dsub (tr_recoveries t') (pr_host r)) k = dget (dsub (tr_recoveries t) (pr_host r)) k
    \<and> \<not> has_pending_condition t' (pr_host r) k
    \<and> dget (dsub (tr_severity_changes t') (pr_host r)) k = None"
    unfolding active_slot [OF upd(1)] active_slot [OF reachableD(1) [OF assms(1)]] upd(2,3) step
    by (cases "phase_at t (pr_host r) k") simp_all
  have others: "\<forall>other. other \<noteq> pr_host r \<longrightarrow>
      load_host t' other = load_host t other \<and> host_events other created = []"
    using update_other_hosts [OF assms(3)] update_events_host [OF assms(1,3)] by simp
  from own others show ?thesis by simp
qed

text \<open>An active critical condition stays critical while its readings are within the recovery
  margin below an unchanged critical line, however many samples that takes: no de-escalation is
  reported.\<close>

lemma critical_held_in_margin:
  assumes "incident_reachable (t, p)"
    and "dget (dsub (tr_active t) (pr_host r)) k = Some old" "ic_severity old = Critical"
    and "dget (pure_conditions p r) k = Some new"
    and "ic_value new = Some v" "ic_critical_at new = Some ca" "ic_critical_at old = Some ca"
    and "ca - ic_recovery_margin new \<le> v"
    and "tracker_update h p r t = Inr (created, t', p')"
  shows "events_of k created = []
    \<and> dget (dsub (tr_active t') (pr_host r)) k = Some (new\<lparr>ic_severity := Critical\<rparr>)"
proof -
  note upd = update_facts [OF assms(1,9)]
  obtain opened seen sc rc where ph: "phase_at t (pr_host r) k = Active old opened seen sc rc"
    using assms(2) active_slot(2) [OF reachableD(1) [OF assms(1)], of "pr_host r" k]
    by (cases "phase_at t (pr_host r) k") auto
  have "hold new old = new\<lparr>ic_severity := Critical\<rparr>"
    using assms(3,5-8) by (cases "ic_severity new") (auto simp: hold_def holds_severity_def)
  then show ?thesis
    unfolding active_slot [OF upd(1)] upd(2,3) ph using assms(3,4)
    by (simp add: sample_of_def phase_step_def)
qed

definition example_system :: "rat \<Rightarrow> system_metrics" where
  "example_system cpu =
    \<lparr>sm_hostname = ''n1'', sm_uptime_seconds = 100, sm_load_1m = 0, sm_load_5m = 0,
     sm_load_15m = 0, sm_cpu_cores = 8, sm_cpu_usage_pct = Some cpu, sm_memory_total_mib = 1000,
     sm_memory_used_mib = 100, sm_memory_available_mib = 900, sm_swap_total_mib = 0,
     sm_swap_used_mib = 0, sm_disk_total_mib = 0, sm_disk_used_mib = 0, sm_network_rx_bps = None,
     sm_network_tx_bps = None, sm_disk_read_bps = None, sm_disk_write_bps = None, sm_disks = [],
     sm_pressure = None\<rparr>"

definition example_busy :: "string \<Rightarrow> rat \<Rightarrow> probe_result" where
  "example_busy ob cpu = (example_up ob)\<lparr>pr_system := Some (example_system cpu)\<rparr>"

definition example_cpu :: "rat \<Rightarrow> string \<Rightarrow> condition" where
  "example_cpu v ob =
    percentage_condition default_incidents ''cpu'' ''cpu'' ''CPU'' v 85 ob 95 None None"

definition example_hot :: tracker where
  "example_hot = new_tracker 2 10 []
     [\<lparr>oi_host = ''n1'', oi_condition = example_cpu 97 ''t0'', oi_opened_at = ''t0''\<rparr>]"

lemma example_hot_reachable: "incident_reachable (example_hot, example_policy)"
  using started [of "[]" default_thresholds "[]" None "[]" "[]" "[]" 10
      "[\<lparr>oi_host = ''n1'', oi_condition = example_cpu 97 ''t0'', oi_opened_at = ''t0''\<rparr>]"]
  unfolding example_policy_def [symmetric] example_cycles example_hot_def by simp

lemma critical_held_in_margin_witness:
  "\<exists>created t' p'. tracker_update length example_policy (example_busy ''t1'' 92) example_hot
      = Inr (created, t', p')
    \<and> events_of ''cpu'' created = []
    \<and> dget (dsub (tr_active t') ''n1'') ''cpu''
        = Some ((example_cpu 92 ''t1'')\<lparr>ic_severity := Critical\<rparr>)"
proof -
  obtain created t' p' where
    run: "tracker_update length example_policy (example_busy ''t1'' 92) example_hot
      = Inr (created, t', p')"
    by (rule update_total [OF example_hot_reachable])
  have old: "dget (dsub (tr_active example_hot) (pr_host (example_busy ''t1'' 92))) ''cpu''
      = Some (example_cpu 97 ''t0'')"
    and crit: "ic_severity (example_cpu 97 ''t0'') = Critical"
    and new: "dget (pure_conditions example_policy (example_busy ''t1'' 92)) ''cpu''
      = Some (example_cpu 92 ''t1'')"
    and v: "ic_value (example_cpu 92 ''t1'') = Some 92"
      "ic_critical_at (example_cpu 92 ''t1'') = Some 95" "ic_critical_at (example_cpu 97 ''t0'') = Some 95"
      "95 - ic_recovery_margin (example_cpu 92 ''t1'') \<le> 92"
    and host: "pr_host (example_busy ''t1'' 92) = ''n1''"
    by code_simp+
  from critical_held_in_margin [OF example_hot_reachable old crit new v run] run
  show ?thesis by (auto simp: host)
qed

text \<open>An active processor incident, as it was restored.\<close>

theorem tracker_state_consistent_witness:
  "has_active_condition example_hot ''n1'' ''cpu''
    \<and> dget (dsub (tr_opened_at example_hot) ''n1'') ''cpu'' \<noteq> None
    \<and> \<not> has_pending_condition example_hot ''n1'' ''cpu''"
proof -
  have "has_active_condition example_hot ''n1'' ''cpu''" by code_simp
  with tracker_state_consistent [OF example_hot_reachable, of "''n1''" "''cpu''"] show ?thesis by blast
qed

text \<open>A failed probe of a host with an active processor incident.\<close>

theorem unreachable_freezes_witness:
  "\<exists>created t' p'. tracker_update length example_policy (example_down ''t1'') example_hot
      = Inr (created, t', p')
    \<and> events_of ''cpu'' created = []
    \<and> dget (dsub (tr_active t') ''n1'') ''cpu'' = Some (example_cpu 97 ''t0'')
    \<and> load_host t' ''n2'' = load_host example_hot ''n2''"
proof -
  obtain created t' p' where
    run: "tracker_update length example_policy (example_down ''t1'') example_hot
      = Inr (created, t', p')"
    by (rule update_total [OF example_hot_reachable])
  have status: "pr_status (example_down ''t1'') \<noteq> Online" and host: "pr_host (example_down ''t1'') = ''n1''"
    by (simp_all add: example_down_def)
  have old: "dget (dsub (tr_active example_hot) ''n1'') ''cpu'' = Some (example_cpu 97 ''t0'')"
    by code_simp
  from unreachable_freezes [OF example_hot_reachable status run, of "''cpu''", unfolded host] old run
  show ?thesis by auto
qed

section \<open>Restart, removal and listing\<close>

text \<open>C6. After a restart the tracker holds exactly the conditions that were open, each with the
  values of its last record and its original opening time, under the configured recovery
  cycles; nothing is pending, no transition is reported, the retained log is the newest part of
  the recorded one, and new events are numbered after every retained event.\<close>

theorem restart_resumes_incidents:
  assumes "sorted_wrt (<) (map ev_event_id evs)"
  shows "phase_at (new_tracker cycles points evs ois) host k = restored cycles ois host k
    \<and> (\<forall>e \<in> set (el_events (tr_log (new_tracker cycles points evs ois))).
        ev_event_id e < el_next_event_id (tr_log (new_tracker cycles points evs ois)))
    \<and> el_events (tr_log (new_tracker cycles points evs ois)) = deque_of points evs"
proof -
  have "deque_of points (slice_last points evs) = deque_of points evs"
    by (simp add: deque_of_def slice_last_def)
  then have "el_events (tr_log (new_tracker cycles points evs ois)) = deque_of points evs"
    using restore_slots [of cycles] unfolding new_tracker_def Let_def empty_tracker_def by simp
  then show ?thesis
    using new_tracker_inv [OF assms, of cycles points ois host k]
      new_tracker_log_ok [OF assms, of cycles points ois]
    unfolding log_ok_def by blast
qed

theorem restart_resumes_incidents_witness:
  "phase_at (new_tracker 2 10 [] [example_open]) ''n1'' ''connectivity'' =
    restored 2 [example_open] ''n1'' ''connectivity''"
proof -
  have "sorted_wrt (<) (map ev_event_id [])" by simp
  from restart_resumes_incidents [OF this] show ?thesis by blast
qed

text \<open>Removing hosts from the configuration forgets every incident of the hosts that are no
  longer desired and touches no incident of the others; no event is added and the version only
  grows.\<close>

lemma remove_hosts_forgets_exactly:
  assumes "incident_reachable (t, p)"
  shows "phase_at (remove_hosts t desired) host k
      = (if host \<in> set desired then phase_at t host k else Idle)
    \<and> el_events (tr_log (remove_hosts t desired)) = el_events (tr_log t)
    \<and> el_version (tr_log t) \<le> el_version (tr_log (remove_hosts t desired))"
  using remove_hosts_refines [OF reachableD(1) [OF assms], of desired host k]
    remove_hosts_log [of t desired] by blast

lemma remove_hosts_forgets_exactly_witness:
  "phase_at (remove_hosts example_restored [''n2'']) ''n1'' ''connectivity'' = Idle"
  using remove_hosts_forgets_exactly [OF example_restored_reachable, of "[''n2'']" "''n1''"] by simp

lemma item_of_sel [simp]:
  "it_host (item_of t host kc) = host" "it_condition (item_of t host kc) = snd kc"
  by (simp_all add: item_of_def)

lemma distinct_items:
  assumes "wf_dict d" "keyed d"
  shows "distinct (map (\<lambda>i. (it_host i, ic_key (it_condition i))) (map (item_of t host) d))"
proof -
  have "map (\<lambda>i. (it_host i, ic_key (it_condition i))) (map (item_of t host) d) = map (Pair host) (keys d)"
    using assms(2) by (auto simp: item_of_def keyed_def)
  then show ?thesis using assms(1) by (simp add: wf_dict_def distinct_map inj_on_def)
qed

text \<open>The active conditions of all hosts, unordered.\<close>

definition listed :: "tracker \<Rightarrow> incident_item list" where
  "listed t = concat (map (\<lambda>host. map (item_of t host) (sort_key fst (dsub (tr_active t) host)))
    (sort (keys (tr_active t))))"

lemma listed_distinct:
  assumes "tracker_inv t"
  shows "distinct (map (\<lambda>i. (it_host i, ic_key (it_condition i))) (listed t))"
proof -
  let ?f = "\<lambda>i. (it_host i, ic_key (it_condition i))"
  have kd: "keyed (dsub (tr_active t) host)" for host
    unfolding keyed_def
  proof clarify
    fix k c assume "(k, c) \<in> set (dsub (tr_active t) host)"
    then have "dget (dsub (tr_active t) host) k = Some c"
      using assms by (intro wf_dget_mem) (simp_all add: tracker_inv_def)
    then show "ic_key c = k"
      using active_slot(2) [OF assms, of host k] tracker_inv_keyed [OF assms, of k host]
      by (cases "phase_at t host k") auto
  qed
  have one: "distinct (map ?f (map (item_of t host) (sort_key fst (dsub (tr_active t) host))))" for host
    using assms kd [of host]
    by (intro distinct_items) (auto simp: tracker_inv_def keyed_def wf_dict_def distinct_map
        inj_on_def dest: map_of_SomeD)
  have "distinct (map ?f (concat (map (\<lambda>host. map (item_of t host) (sort_key fst (dsub (tr_active t) host))) hs)))"
    if "distinct hs" for hs
    using that
  proof (induction hs)
    case (Cons h hs)
    then show ?case using one [of h] by auto
  qed simp
  moreover have "distinct (keys (tr_active t))" using assms by (simp add: tracker_inv_def wf_dict_def)
  ultimately show ?thesis by (simp add: listed_def)
qed

lemma listed_mem:
  assumes "tracker_inv t"
  shows "i \<in> set (listed t) \<longleftrightarrow>
    (\<exists>host k c. dget (dsub (tr_active t) host) k = Some c \<and> i = item_of t host (k, c))"
proof -
  have wf: "wf_dict (dsub (tr_active t) host)" for host using assms by (simp add: tracker_inv_def)
  have host: "host \<in> fst ` set (tr_active t)" if "(k, c) \<in> set (dsub (tr_active t) host)" for host k c
    using that by (cases "dget (tr_active t) host") (auto simp: dget_or_def dest: dget_Some_keys)
  show ?thesis
  proof
    assume "i \<in> set (listed t)"
    then obtain host k c where "(k, c) \<in> set (dsub (tr_active t) host)" "i = item_of t host (k, c)"
      unfolding listed_def by auto
    then show "\<exists>host k c. dget (dsub (tr_active t) host) k = Some c \<and> i = item_of t host (k, c)"
      using wf_dget_mem [OF wf] by blast
  next
    assume "\<exists>host k c. dget (dsub (tr_active t) host) k = Some c \<and> i = item_of t host (k, c)"
    then obtain host k c where "(k, c) \<in> set (dsub (tr_active t) host)" "i = item_of t host (k, c)"
      using dget_mem by fastforce
    with host show "i \<in> set (listed t)" unfolding listed_def by force
  qed
qed

lemma item_of_active:
  assumes "tracker_inv t" "dget (dsub (tr_active t) host) k = Some c"
  shows "ic_key c = k"
    and "dget (dsub (tr_opened_at t) host) k = Some (it_first_observed_at (item_of t host (k, c)))"
    and "dget (dsub (tr_last_observed_at t) host) k = Some (it_last_observed_at (item_of t host (k, c)))"
  using tracker_inv_slot [OF assms(1), of host k] tracker_inv_keyed [OF assms(1), of k host] assms(2)
  by (cases "phase_at t host k"; simp add: slot_at_def load_host_def item_of_def dget_or_def)+

text \<open>The snapshot lists every active condition of every host exactly once, with the time it
  opened and was last observed, critical ones first, then by host and condition key.\<close>

lemma snapshot_lists_active_sorted:
  assumes "incident_reachable (t, p)"
  shows "sorted (map item_order (snapshot_active t))
    \<and> distinct (map (\<lambda>i. (it_host i, ic_key (it_condition i))) (snapshot_active t))
    \<and> (dget (dsub (tr_active t) host) k = Some c \<longleftrightarrow>
        (\<exists>i \<in> set (snapshot_active t). it_host i = host \<and> it_condition i = c \<and> ic_key c = k
          \<and> dget (dsub (tr_opened_at t) host) k = Some (it_first_observed_at i)
          \<and> dget (dsub (tr_last_observed_at t) host) k = Some (it_last_observed_at i)))"
proof (intro conjI)
  note inv = reachableD(1) [OF assms]
  have snap: "snapshot_active t = sort_key item_order (listed t)"
    by (simp add: snapshot_active_def listed_def)
  show "sorted (map item_order (snapshot_active t))" by (simp add: snap)
  let ?f = "\<lambda>i. (it_host i, ic_key (it_condition i))"
  have "mset (map ?f (snapshot_active t)) = mset (map ?f (listed t))" by (simp add: snap)
  then show "distinct (map ?f (snapshot_active t))"
    using mset_eq_imp_distinct_iff listed_distinct [OF inv] by blast
  show "dget (dsub (tr_active t) host) k = Some c \<longleftrightarrow>
        (\<exists>i \<in> set (snapshot_active t). it_host i = host \<and> it_condition i = c \<and> ic_key c = k
          \<and> dget (dsub (tr_opened_at t) host) k = Some (it_first_observed_at i)
          \<and> dget (dsub (tr_last_observed_at t) host) k = Some (it_last_observed_at i))"
  proof
    assume c: "dget (dsub (tr_active t) host) k = Some c"
    then have "item_of t host (k, c) \<in> set (snapshot_active t)"
      using listed_mem [OF inv] by (auto simp: snap)
    with item_of_active [OF inv c] show "\<exists>i \<in> set (snapshot_active t). it_host i = host
          \<and> it_condition i = c \<and> ic_key c = k
          \<and> dget (dsub (tr_opened_at t) host) k = Some (it_first_observed_at i)
          \<and> dget (dsub (tr_last_observed_at t) host) k = Some (it_last_observed_at i)"
      by (intro bexI [of _ "item_of t host (k, c)"]) simp_all
  next
    assume "\<exists>i \<in> set (snapshot_active t). it_host i = host \<and> it_condition i = c \<and> ic_key c = k
          \<and> dget (dsub (tr_opened_at t) host) k = Some (it_first_observed_at i)
          \<and> dget (dsub (tr_last_observed_at t) host) k = Some (it_last_observed_at i)"
    then obtain i where i: "i \<in> set (listed t)" "it_host i = host" "it_condition i = c" "ic_key c = k"
      by (auto simp: snap)
    then obtain k' where "dget (dsub (tr_active t) host) k' = Some c"
      using listed_mem [OF inv] by auto
    with item_of_active(1) [OF inv this] i(4) show "dget (dsub (tr_active t) host) k = Some c" by simp
  qed
qed

lemma snapshot_lists_active_sorted_witness:
  "\<exists>i \<in> set (snapshot_active example_restored). it_host i = ''n1'' \<and> it_first_observed_at i = ''t0''"
proof -
  let ?c = "connectivity_condition default_incidents (example_down ''t0'')"
  have act: "dget (dsub (tr_active example_restored) ''n1'') ''connectivity'' = Some ?c"
    and opened: "dget (dsub (tr_opened_at example_restored) ''n1'') ''connectivity'' = Some ''t0''"
    by code_simp+
  from snapshot_lists_active_sorted [OF example_restored_reachable, of "''n1''" "''connectivity''" ?c]
  show ?thesis unfolding act opened by auto
qed

section \<open>What the policy derives\<close>

text \<open>C16. Whatever the caches hold, in every reachable state the policy derives from a result
  exactly what its configuration alone determines, and reading it changes neither the
  configuration nor any later answer.\<close>

theorem policy_caches_transparent:
  assumes "incident_reachable (t, p)"
  shows "fst (conditions p r) = pure_conditions p r
    \<and> fst (conditions (snd (conditions p r)) r') = fst (conditions p r')
    \<and> fst (conditions (retain_hosts p hosts) r) = fst (conditions p r)"
proof -
  note ok = reachableD(2) [OF assms]
  note derived = threshold_policy.conds_derived
  have "same_config p (snd (conditions p r))" "cache_ok (snd (conditions p r))"
    by (rule threshold_policy.conds_same [OF ok], rule threshold_policy.conds_valid [OF ok])
  then show ?thesis
    using retain_hosts_correct [OF ok, of hosts] pure_conditions_same [of p "snd (conditions p r)"]
      pure_conditions_same [of p "retain_hosts p hosts"]
    by (metis derived ok)
qed

theorem policy_caches_transparent_witness:
  "fst (conditions example_policy (example_down ''t1''))
    = pure_conditions example_policy (example_down ''t1'')"
  using policy_caches_transparent [OF example_reachable] by blast

text \<open>When the host answers and its GPU query did not fail, every derived condition, GPU
  process loss apart, comes from telemetry the same sample reports as observed, so that the
  sample would speak for its recovery too.\<close>

lemma derived_conditions_have_telemetry:
  assumes "incident_reachable (t, p)" "pr_status r = Online" "\<not> gpu_query_failed r"
    and "dget (fst (conditions p r)) k = Some c" "ic_category c \<noteq> ''gpu_processes''"
  shows "ic_key c = k \<and> \<not> telemetry_unknown (ic_category c) k (observed_domains r)"
proof -
  note ok = reachableD(2) [OF assms(1)]
  have "(k, c) \<in> set (pure_conditions p r)"
    using assms(4) threshold_policy.conds_derived [OF ok] by (simp add: dget_mem)
  from pure_conditions_backed [OF assms(2,3) this] assms(5)
  have "\<not> telemetry_unknown (ic_category c) k (observed_domains r)"
    by (intro telemetry_known) (simp add: backed_def)
  moreover have "keyed (fst (conditions p r))" using good_conditions by (simp add: good_dict_def)
  ultimately show ?thesis using keyedD [OF _ assms(4)] by simp
qed

lemma derived_conditions_have_telemetry_witness:
  "\<not> telemetry_unknown ''cpu'' ''cpu'' (observed_domains (example_busy ''t1'' 92))"
proof -
  have "pr_status (example_busy ''t1'' 92) = Online" "\<not> gpu_query_failed (example_busy ''t1'' 92)"
    "dget (fst (conditions example_policy (example_busy ''t1'' 92))) ''cpu'' = Some (example_cpu 92 ''t1'')"
    "ic_category (example_cpu 92 ''t1'') \<noteq> ''gpu_processes''"
    and cat: "ic_category (example_cpu 92 ''t1'') = ''cpu''"
    by code_simp+
  from derived_conditions_have_telemetry [OF example_reachable this(1-4)] show ?thesis
    by (simp add: cat)
qed

text \<open>Every condition with a critical line is derived only within the recovery margin of its
  threshold (half a hundredth of rounding aside), is marked below its threshold exactly when
  its rounded value is, and is critical exactly when the value has reached the line.\<close>

lemma derived_conditions_banded:
  assumes "incident_reachable (t, p)"
    and "dget (fst (conditions p r)) k = Some c" "ic_critical_at c = Some ca"
  shows "\<exists>v thr. ic_value c = Some v \<and> ic_threshold c = Some thr
    \<and> thr - in_recovery_margin (po_incidents p) - 1 / 200 \<le> v
    \<and> (ic_below_threshold c \<longleftrightarrow> v < thr)
    \<and> (ic_severity c = Critical \<longleftrightarrow> ca \<le> v)"
proof -
  note ok = reachableD(2) [OF assms(1)]
  have mem: "(k, c) \<in> set (pure_conditions p r)"
    using assms(2) threshold_policy.conds_derived [OF ok] by (simp add: dget_mem)
  show ?thesis
  proof (cases "pr_status r = Online")
    case True
    then have "banded (in_recovery_margin (po_incidents p)) c"
      using mem all_condsD [OF online_banded] by (auto simp: pure_conditions_def)
    then show ?thesis using assms(3) by (auto simp: banded_def split: option.splits)
  next
    case False
    then show ?thesis
      using mem assms(3) by (simp add: pure_conditions_def connectivity_condition_def)
  qed
qed

lemma derived_conditions_banded_witness:
  "\<exists>v thr. ic_value (example_cpu 92 ''t1'') = Some v
    \<and> ic_threshold (example_cpu 92 ''t1'') = Some thr \<and> thr - 5 - 1 / 200 \<le> v"
proof -
  have "dget (fst (conditions example_policy (example_busy ''t1'' 92))) ''cpu'' = Some (example_cpu 92 ''t1'')"
    "ic_critical_at (example_cpu 92 ''t1'') = Some 95"
    and margin: "in_recovery_margin (po_incidents example_policy) = 5"
    by code_simp+
  from derived_conditions_banded [OF example_reachable this(1,2)] show ?thesis
    by (simp add: margin) blast
qed

end
