(* ===== verification/Maintenance.thy ===== *)
theory Maintenance
  imports Config
begin

text \<open>
  Maintenance windows (\<open>maintenance.py\<close>): one-shot and daily or weekly recurring silence
  windows in UTC. A failed \<open>assert\<close> and the arithmetic on a missing field are \<open>None\<close>; the
  configuration loader builds windows that satisfy \<open>window_ok\<close>, where neither happens.
\<close>

record maintenance_window =
  mw_reason :: string
  mw_until :: "moment option"
  mw_weekday :: "int option"
  mw_daily :: bool
  mw_start_minutes :: "int option"
  mw_duration_minutes :: "int option"

definition recurring :: "maintenance_window \<Rightarrow> bool" where
  "recurring w \<longleftrightarrow> mw_daily w \<or> mw_weekday w \<noteq> None"

definition cadence :: "maintenance_window \<Rightarrow> string option" where
  "cadence w =
    (if mw_daily w then Some ''daily''
     else if mw_weekday w \<noteq> None then Some ''weekly'' else None)"

definition period :: "maintenance_window \<Rightarrow> int" where
  "period w = (if mw_daily w then 1 else 7) * us_per_day"

text \<open>\<open>datetime.weekday()\<close>: Monday is 0, and 1970-01-01 was a Thursday.\<close>

definition weekday_of :: "moment \<Rightarrow> int" where
  "weekday_of t = (t div us_per_day + 3) mod 7"

definition days_back :: "maintenance_window \<Rightarrow> moment \<Rightarrow> int option" where
  "days_back w now =
    (if mw_daily w then Some 0
     else (case mw_weekday w of None \<Rightarrow> None | Some d \<Rightarrow> Some ((weekday_of now - d) mod 7)))"

definition instance_end :: "maintenance_window \<Rightarrow> moment \<Rightarrow> moment option" where
  "instance_end w now =
    (case (mw_start_minutes w, mw_duration_minutes w, days_back w now) of
       (Some start_minutes, Some duration, Some ago) \<Rightarrow>
         (let midnight = now - now mod us_per_day;
              start = midnight - ago * us_per_day + start_minutes * us_per_minute;
              start = (if now < start then start - period w else start);
              end_at = start + duration * us_per_minute
          in Some (if end_at \<le> now then start + period w + duration * us_per_minute else end_at))
     | _ \<Rightarrow> None)"

definition window_active :: "maintenance_window \<Rightarrow> moment \<Rightarrow> bool option" where
  "window_active w now =
    (if \<not> recurring w then (case mw_until w of None \<Rightarrow> None | Some u \<Rightarrow> Some (now < u))
     else
       (case (mw_duration_minutes w, instance_end w now) of
          (Some duration, Some e) \<Rightarrow> Some (e - duration * us_per_minute \<le> now \<and> now < e)
        | _ \<Rightarrow> None))"

definition window_to_dict :: "maintenance_window \<Rightarrow> moment \<Rightarrow> obj option" where
  "window_to_dict w now =
    (if \<not> recurring w then
       (case mw_until w of
          None \<Rightarrow> None
        | Some u \<Rightarrow> Some [(''until'', PStr (iso_z u)), (''reason'', PStr (mw_reason w))])
     else
       (case instance_end w now of
          None \<Rightarrow> None
        | Some e \<Rightarrow> Some
            [(''until'', PStr (iso_z e)), (''reason'', PStr (mw_reason w)),
             (''recurring'', PBool True), (''cadence'', popt PStr (cadence w))]))"

section \<open>The instances of a recurring window\<close>

text \<open>What the loader guarantees.\<close>

definition window_ok :: "maintenance_window \<Rightarrow> bool" where
  "window_ok w \<longleftrightarrow>
    (if recurring w then
       (case (mw_start_minutes w, mw_duration_minutes w) of
          (Some s, Some d) \<Rightarrow> 0 \<le> s \<and> s < 1440 \<and> 1 \<le> d \<and> d < (if mw_daily w then 1440 else 10080)
        | _ \<Rightarrow> False)
       \<and> (case mw_weekday w of None \<Rightarrow> True | Some d \<Rightarrow> 0 \<le> d \<and> d < 7)
     else mw_until w \<noteq> None)"

text \<open>The moments at which an instance starts: each day, or each week on its weekday, at the
  start minute of the UTC day.\<close>

definition starts_at :: "maintenance_window \<Rightarrow> moment \<Rightarrow> bool" where
  "starts_at w t \<longleftrightarrow>
    (case mw_start_minutes w of
       None \<Rightarrow> False
     | Some s \<Rightarrow> t mod us_per_day = s * us_per_minute
         \<and> (mw_daily w \<or> mw_weekday w = Some (weekday_of t)))"

definition duration_of :: "maintenance_window \<Rightarrow> int" where
  "duration_of w = (case mw_duration_minutes w of None \<Rightarrow> 0 | Some d \<Rightarrow> d * us_per_minute)"

lemma us_per_day_pos: "0 < us_per_day"
  by (simp add: us_per_day_def)

lemma mod_7_apart:
  assumes "(a + 3) mod 7 = (b + 3) mod 7" "a < (b :: int)"
  shows "a + 7 \<le> b"
proof -
  have "7 dvd (b + 3) - (a + 3)" using assms(1) by (metis mod_eq_dvd_iff)
  then have "7 dvd b - a" by simp
  then have "7 \<le> b - a" using assms(2) by (intro zdvd_imp_le) simp_all
  then show ?thesis by simp
qed

lemma mod_7_shift: "(a + 7 * k + 3) mod 7 = (a + 3) mod (7 :: int)"
proof -
  have "a + 7 * k + 3 = (a + 3) + 7 * k" by simp
  then show ?thesis by (simp only: mod_mult_self2)
qed

lemma starts_at_shift: "starts_at w t \<Longrightarrow> starts_at w (t + k * period w)"
proof (cases "mw_daily w")
  case True
  then have "(t + k * period w) mod us_per_day = t mod us_per_day"
    by (simp add: period_def)
  moreover assume "starts_at w t"
  ultimately show ?thesis using True by (simp add: starts_at_def split: option.splits)
next
  case False
  have p: "k * period w = us_per_day * (7 * k)" using False by (simp add: period_def)
  have "(t + k * period w) mod us_per_day = t mod us_per_day"
    and "(t + k * period w) div us_per_day = t div us_per_day + 7 * k"
    unfolding p by (simp_all add: div_mult_self2 us_per_day_pos [THEN less_imp_neq, symmetric])
  then have "weekday_of (t + k * period w) = weekday_of t"
    by (simp only: weekday_of_def mod_7_shift)
  moreover assume "starts_at w t"
  ultimately show ?thesis
    using \<open>(t + k * period w) mod us_per_day = t mod us_per_day\<close>
    by (simp add: starts_at_def split: option.splits)
qed

text \<open>Two instances start a whole number of periods apart.\<close>

lemma starts_at_apart:
  assumes "starts_at w s" "starts_at w t" "s < t"
  shows "s + period w \<le> t"
proof -
  obtain m where m: "s mod us_per_day = m" "t mod us_per_day = m"
    using assms by (auto simp: starts_at_def split: option.splits)
  have s: "s = us_per_day * (s div us_per_day) + m" and t: "t = us_per_day * (t div us_per_day) + m"
    using m mult_div_mod_eq [of us_per_day s] mult_div_mod_eq [of us_per_day t] by simp_all
  have lt: "s div us_per_day < t div us_per_day"
    using assms(3) s t by (smt (verit) mult_left_mono us_per_day_def)
  show ?thesis
  proof (cases "mw_daily w")
    case True
    then show ?thesis using lt s t by (simp add: period_def us_per_day_def)
  next
    case False
    then have "weekday_of s = weekday_of t"
      using assms by (auto simp: starts_at_def split: option.splits)
    then have "s div us_per_day + 7 \<le> t div us_per_day"
      using lt by (intro mod_7_apart) (simp_all only: weekday_of_def)
    then show ?thesis using False s t by (simp add: period_def us_per_day_def)
  qed
qed

text \<open>The start \<open>instance_end\<close> computes is the last one not after \<open>now\<close>.\<close>

definition last_start :: "maintenance_window \<Rightarrow> moment \<Rightarrow> int \<Rightarrow> int \<Rightarrow> moment" where
  "last_start w now ago s =
    (let start = now - now mod us_per_day - ago * us_per_day + s * us_per_minute
     in if now < start then start - period w else start)"

lemma mod_7_back: "((a - (a + 3 - d) mod 7) + 3) mod 7 = d mod (7 :: int)"
proof -
  have "((a - (a + 3 - d) mod 7) + 3) mod 7 = ((a + 3) - (a + 3 - d) mod 7) mod 7"
    by (simp add: algebra_simps)
  also have "\<dots> = ((a + 3) - (a + 3 - d)) mod 7" by (rule mod_diff_right_eq)
  finally show ?thesis by simp
qed

lemma day_aligned_mod: "0 \<le> m \<Longrightarrow> m < us_per_day \<Longrightarrow> (q * us_per_day + m) mod us_per_day = m"
  and day_aligned_div: "0 \<le> m \<Longrightarrow> m < us_per_day \<Longrightarrow> (q * us_per_day + m) div us_per_day = q"
  using us_per_day_pos by (simp_all add: mod_pos_pos_trivial div_pos_pos_trivial)

lemma last_start_correct:
  assumes "recurring w" "mw_start_minutes w = Some s" "0 \<le> s" "s < 1440"
    and "\<And>d. mw_weekday w = Some d \<Longrightarrow> 0 \<le> d \<and> d < 7"
    and "days_back w now = Some ago"
  shows "starts_at w (last_start w now ago s)
    \<and> last_start w now ago s \<le> now \<and> now < last_start w now ago s + period w"
proof -
  define q where "q = now div us_per_day"
  define m where "m = s * us_per_minute"
  define start where "start = (q - ago) * us_per_day + m"
  have m: "0 \<le> m" "m < us_per_day"
    using assms(3,4) by (simp_all add: m_def us_defs)
  have tod: "0 \<le> now mod us_per_day" "now mod us_per_day < us_per_day"
    using us_per_day_pos by simp_all
  have now: "now = q * us_per_day + now mod us_per_day" by (simp add: q_def)
  have ls: "last_start w now ago s = (if now < start then start - period w else start)"
    using now by (simp add: last_start_def start_def m_def Let_def algebra_simps)
  have ago: "0 \<le> ago" "ago * us_per_day + us_per_day \<le> period w"
    using assms(1,6) by (auto simp: days_back_def period_def us_per_day_def split: if_splits option.splits)
  have aligned: "start mod us_per_day = m" "start div us_per_day = q - ago"
    unfolding start_def by (rule day_aligned_mod [OF m], rule day_aligned_div [OF m])
  have sched: "starts_at w start"
  proof (cases "mw_daily w")
    case True
    then show ?thesis by (simp add: starts_at_def assms(2) aligned(1) m_def)
  next
    case False
    then obtain d where d: "mw_weekday w = Some d" "ago = (q + 3 - d) mod 7"
      using assms(1,6) by (auto simp: days_back_def recurring_def weekday_of_def q_def mod_diff_left_eq)
    then have "weekday_of start = d"
      using assms(5) [OF d(1)] by (simp add: weekday_of_def aligned(2) mod_7_back)
    then show ?thesis by (simp add: starts_at_def assms(2) aligned(1) m_def d(1))
  qed
  have "0 \<le> ago * us_per_day" using ago(1) us_per_day_pos by simp
  moreover have "start = q * us_per_day - ago * us_per_day + m"
    by (simp add: start_def algebra_simps)
  ultimately have lo: "start < now + us_per_day" and hi: "now < start + period w"
    using m tod now ago(2) by linarith+
  have "us_per_day \<le> period w" by (simp add: period_def us_per_day_def)
  then show ?thesis
    using starts_at_shift [OF sched, of "-1"] sched lo hi by (auto simp: ls)
qed

lemma instance_end_eq:
  "instance_end w now = Some e \<longleftrightarrow>
    (\<exists>s d ago. mw_start_minutes w = Some s \<and> mw_duration_minutes w = Some d
      \<and> days_back w now = Some ago
      \<and> e = (if last_start w now ago s + d * us_per_minute \<le> now
             then last_start w now ago s + period w + d * us_per_minute
             else last_start w now ago s + d * us_per_minute))"
  by (auto simp: instance_end_def last_start_def Let_def split: option.split)

lemma instance_end_least:
  assumes "window_ok w" "recurring w"
  shows "\<exists>e. instance_end w now = Some e \<and> now < e \<and> starts_at w (e - duration_of w)
    \<and> (\<forall>t. starts_at w t \<longrightarrow> now < t + duration_of w \<longrightarrow> e \<le> t + duration_of w)"
proof -
  obtain s d where sd: "mw_start_minutes w = Some s" "mw_duration_minutes w = Some d"
    "0 \<le> s" "s < 1440" "1 \<le> d" "d < (if mw_daily w then 1440 else 10080)" and wd: "\<And>x. mw_weekday w = Some x \<Longrightarrow> 0 \<le> x \<and> x < 7"
    using assms by (auto simp: window_ok_def split: option.splits)
  obtain ago where ago: "days_back w now = Some ago"
    using assms(2) that [of 0]
    by (cases "mw_weekday w"; cases "mw_daily w") (auto simp: days_back_def recurring_def)
  define ls where "ls = last_start w now ago s"
  have ls: "starts_at w ls" "ls \<le> now" "now < ls + period w"
    using last_start_correct [OF assms(2) sd(1,3,4) wd ago] by (simp_all add: ls_def)
  have dur: "duration_of w = d * us_per_minute" "0 < duration_of w" "duration_of w < period w"
    using sd by (auto simp: duration_of_def period_def us_defs split: if_splits)
  define e where "e = (if ls + duration_of w \<le> now then ls + period w + duration_of w
    else ls + duration_of w)"
  have e: "instance_end w now = Some e"
    unfolding instance_end_eq e_def dur(1) ls_def using sd ago by simp
  have "starts_at w (ls + period w)" using starts_at_shift [OF ls(1), of 1] by simp
  then have sched: "starts_at w (e - duration_of w)" using ls(1) by (simp add: e_def)
  have least: "e \<le> t + duration_of w" if t: "starts_at w t" "now < t + duration_of w" for t
  proof (cases "t < ls")
    case True
    with starts_at_apart [OF t(1) ls(1)] t(2) ls dur(3) show ?thesis by simp
  next
    case False
    then show ?thesis
      using starts_at_apart [OF ls(1) t(1)] t(2) by (cases "t = ls") (auto simp: e_def)
  qed
  have "now < e" using ls dur by (auto simp: e_def)
  with e sched least show ?thesis by blast
qed

text \<open>C21. For every window the loader builds, the instance end a window reports is in the
  future, belongs to an instance of its weekly or daily schedule, and no instance of the
  schedule ends between now and then.\<close>

theorem instance_end_next:
  assumes "window_ok w" "recurring w"
  shows "\<exists>e. instance_end w now = Some e \<and> now < e \<and> starts_at w (e - duration_of w)
    \<and> (\<forall>t. starts_at w t \<longrightarrow> now < t + duration_of w \<longrightarrow> e \<le> t + duration_of w)"
  by (rule instance_end_least [OF assms])

text \<open>C22. A recurring window silences its host at a moment exactly when one of its scheduled
  instances covers that moment.\<close>

theorem window_active_iff_in_instance:
  assumes "window_ok w" "recurring w"
  shows "window_active w now =
    Some (\<exists>t. starts_at w t \<and> t \<le> now \<and> now < t + duration_of w)"
proof -
  obtain e where e: "instance_end w now = Some e" "now < e" "starts_at w (e - duration_of w)"
    "\<And>t. starts_at w t \<Longrightarrow> now < t + duration_of w \<Longrightarrow> e \<le> t + duration_of w"
    using instance_end_least [OF assms, of now] by blast
  obtain d where "mw_duration_minutes w = Some d"
    using assms by (auto simp: window_ok_def split: option.splits)
  then have "window_active w now = Some (e - duration_of w \<le> now)"
    using e(1,2) assms(2) by (simp add: window_active_def duration_of_def)
  moreover have "e - duration_of w \<le> now \<longleftrightarrow>
      (\<exists>t. starts_at w t \<and> t \<le> now \<and> now < t + duration_of w)"
    using e(2-4) by force
  ultimately show ?thesis by simp
qed

text \<open>Saturdays from 22:00 for eight hours, asked on Sunday 1970-01-04 at 01:00.\<close>

definition example_window :: maintenance_window where
  "example_window = \<lparr>mw_reason = ''backup'', mw_until = None, mw_weekday = Some 5,
     mw_daily = False, mw_start_minutes = Some 1320, mw_duration_minutes = Some 480\<rparr>"

definition example_sunday :: moment where
  "example_sunday = 3 * us_per_day + 60 * us_per_minute"

lemma example_window_ok: "window_ok example_window" "recurring example_window"
  by (simp_all add: example_window_def window_ok_def recurring_def)

theorem instance_end_next_witness:
  "\<exists>e. instance_end example_window example_sunday = Some e \<and> example_sunday < e
    \<and> e = 3 * us_per_day + 360 * us_per_minute"
proof -
  have "instance_end example_window example_sunday = Some (3 * us_per_day + 360 * us_per_minute)"
    by code_simp
  with instance_end_next [OF example_window_ok, of example_sunday] show ?thesis by auto
qed

theorem window_active_iff_in_instance_witness:
  "\<exists>t. starts_at example_window t \<and> t \<le> example_sunday
    \<and> example_sunday < t + duration_of example_window"
proof -
  have "window_active example_window example_sunday = Some True" by code_simp
  with window_active_iff_in_instance [OF example_window_ok, of example_sunday] show ?thesis by simp
qed

end
