(* ===== verification/PyNumber.thy ===== *)
theory PyNumber
  imports PyValue
begin

text \<open>
  Python numbers that are read rather than computed: the values of a float (finite ones as
  rationals, the infinities and the value that is not a number), \<open>float()\<close> and \<open>int()\<close> of a text
  and of a value, and the errors these raise. A finite decimal beyond the range of a double reads
  as an infinity; the rounding of a decimal to the nearest double is not modelled.
\<close>

datatype double = Fin rat | Inf bool | Nan

datatype py_error = Key_Error string | Type_Error | Value_Error | Overflow_Error | Struct_Error

fun double_value :: "double \<Rightarrow> pyval" where
  "double_value (Fin x) = PFloat x"
| "double_value (Inf neg) = PInf neg"
| "double_value Nan = PNan"

text \<open>Going on with the value of a computation that may have raised.\<close>

definition sum_bind :: "'e + 'a \<Rightarrow> ('a \<Rightarrow> 'e + 'b) \<Rightarrow> 'e + 'b" where
  "sum_bind x f = (case x of Inl e \<Rightarrow> Inl e | Inr v \<Rightarrow> f v)"

lemma sum_bind_simps [simp]: "sum_bind (Inl e) f = Inl e" "sum_bind (Inr v) f = f v"
  by (simp_all add: sum_bind_def)

lemma sum_bind_Inr: "sum_bind x f = Inr y \<longleftrightarrow> (\<exists>v. x = Inr v \<and> f v = Inr y)"
  by (cases x) auto

section \<open>Digits\<close>

text \<open>A run of digits, single underscores allowed between two of them; and what follows it.\<close>

fun digit_tail :: "string \<Rightarrow> string \<times> string" where
  "digit_tail [] = ([], [])"
| "digit_tail (c # cs) =
    (if is_digit c then (let (ds, rest) = digit_tail cs in (c # ds, rest))
     else if c = CHR ''_'' \<and> (case cs of d # _ \<Rightarrow> is_digit d | [] \<Rightarrow> False) then digit_tail cs
     else ([], c # cs))"

definition digit_run :: "string \<Rightarrow> string \<times> string" where
  "digit_run s = (case s of c # _ \<Rightarrow> if is_digit c then digit_tail s else ([], s) | [] \<Rightarrow> ([], []))"

definition digits_int :: "string \<Rightarrow> int" where
  "digits_int ds = (case digits_value 0 ds of Some n \<Rightarrow> n | None \<Rightarrow> 0)"

definition split_sign :: "string \<Rightarrow> bool \<times> string" where
  "split_sign s =
    (case s of
       c # cs \<Rightarrow> if c = CHR ''-'' then (True, cs) else if c = CHR ''+'' then (False, cs) else (False, s)
     | [] \<Rightarrow> (False, []))"

text \<open>\<open>int(text)\<close>.\<close>

definition int_of_text :: "string \<Rightarrow> int option" where
  "int_of_text s =
    (let (neg, t) = split_sign (strip s); (ds, rest) = digit_run t
     in if ds = [] \<or> rest \<noteq> [] then None
        else Some (if neg then - digits_int ds else digits_int ds))"

section \<open>Floats\<close>

definition power_of_ten :: "int \<Rightarrow> rat" where
  "power_of_ten e = (if 0 \<le> e then 10 ^ nat e else 1 / 10 ^ nat (- e))"

text \<open>The exponent part of a literal: absent, or \<open>e\<close> with an optional sign and digits.\<close>

definition exponent_of :: "string \<Rightarrow> int option" where
  "exponent_of s =
    (case s of
       [] \<Rightarrow> Some 0
     | c # cs \<Rightarrow>
        if c = CHR ''e'' \<or> c = CHR ''E'' then
          (let (neg, t) = split_sign cs; (ds, rest) = digit_run t
           in if ds = [] \<or> rest \<noteq> [] then None
              else Some (if neg then - digits_int ds else digits_int ds))
        else None)"

text \<open>The least magnitude that rounds to an infinity, \<open>2^1024 - 2^970\<close>.\<close>

definition double_limit :: int where
  "double_limit = (2 ^ 32) ^ 32 - (2 ^ 97) ^ 10"

definition to_double :: "bool \<Rightarrow> rat \<Rightarrow> double" where
  "to_double neg x =
    (if of_int double_limit \<le> x then Inf neg else Fin (if neg then - x else x))"

text \<open>\<open>float(text)\<close>.\<close>

definition float_of_text :: "string \<Rightarrow> double option" where
  "float_of_text s =
    (let (neg, t) = split_sign (strip s) in
     if lower t = ''inf'' \<or> lower t = ''infinity'' then Some (Inf neg)
     else if lower t = ''nan'' then Some Nan
     else
       (let (whole, rest) = digit_run t;
            (frac, rest') = (case rest of
                c # cs \<Rightarrow> if c = CHR ''.'' then digit_run cs else ([], rest)
              | [] \<Rightarrow> ([], []))
        in if whole = [] \<and> frac = [] then None
           else map_option
             (\<lambda>e. to_double neg
                (of_int (digits_int (whole @ frac)) * power_of_ten (e - int (length frac))))
             (exponent_of rest')))"

section \<open>Conversions of a value\<close>

text \<open>\<open>str(value)\<close>; the text of a float, a list or an object is given by \<open>render\<close>.\<close>

definition str_of :: "(pyval \<Rightarrow> string) \<Rightarrow> pyval \<Rightarrow> string" where
  "str_of render v =
    (case v of
       PStr s \<Rightarrow> s
     | PInt i \<Rightarrow> int_str i
     | PNone \<Rightarrow> ''None''
     | PBool b \<Rightarrow> if b then ''True'' else ''False''
     | _ \<Rightarrow> render v)"

text \<open>\<open>a or b\<close>.\<close>

definition py_or :: "pyval \<Rightarrow> pyval \<Rightarrow> pyval" where
  "py_or a b = (if truthy a then a else b)"

definition sub_key :: "obj \<Rightarrow> string \<Rightarrow> py_error + pyval" where
  "sub_key d k = (case dget d k of None \<Rightarrow> Inl (Key_Error k) | Some v \<Rightarrow> Inr v)"

fun py_float :: "pyval \<Rightarrow> py_error + double" where
  "py_float (PBool b) = Inr (Fin (if b then 1 else 0))"
| "py_float (PInt i) = (if double_limit \<le> \<bar>i\<bar> then Inl Overflow_Error else Inr (Fin (of_int i)))"
| "py_float (PFloat x) = Inr (Fin x)"
| "py_float (PInf neg) = Inr (Inf neg)"
| "py_float PNan = Inr Nan"
| "py_float (PStr s) = (case float_of_text s of None \<Rightarrow> Inl Value_Error | Some x \<Rightarrow> Inr x)"
| "py_float _ = Inl Type_Error"

fun py_int :: "pyval \<Rightarrow> py_error + int" where
  "py_int (PBool b) = Inr (if b then 1 else 0)"
| "py_int (PInt i) = Inr i"
| "py_int (PFloat x) = Inr (if x < 0 then \<lceil>x\<rceil> else \<lfloor>x\<rfloor>)"
| "py_int (PInf _) = Inl Overflow_Error"
| "py_int PNan = Inl Value_Error"
| "py_int (PStr s) = (case int_of_text s of None \<Rightarrow> Inl Value_Error | Some i \<Rightarrow> Inr i)"
| "py_int _ = Inl Type_Error"

lemma float_of_text_examples:
  "float_of_text ''  12.50 '' = Some (Fin (25 / 2))"
  "float_of_text ''-1_0e-1'' = Some (Fin (- 1))"
  "float_of_text ''nan'' = Some Nan"
  "float_of_text ''[N/A]'' = None"
  by code_simp+

lemma py_float_double [simp]: "py_float (double_value x) = Inr x"
  by (cases x) simp_all

end
