(* ===== verification/Process_Transitions.thy ===== *)
theory Process_Transitions
  imports Models PyNumber
begin

text \<open>
  GPU process transitions (\<open>GpuProcessTransition\<close> of \<open>telemetry_points.py\<close>) and the
  arithmetic on them (\<open>process_transitions.py\<close>): one transition, process identity across
  samples, the starts a ring of transitions leaves open, and the reconciliation of the restored
  ring with the first live sample after a restart.
\<close>

record gpu_process_transition =
  gt_observed_at :: string
  gt_gpu_id :: string
  gt_index :: int
  gt_event :: string
  gt_pid :: int
  gt_name :: string
  gt_used_memory_mib :: "double option"
  gt_workload :: "obj option"
  gt_visible :: bool
  gt_first_seen_at :: "string option"

definition transition_to_dict :: "gpu_process_transition \<Rightarrow> obj" where
  "transition_to_dict e =
    [(''observedAt'', PStr (gt_observed_at e)),
     (''gpuId'', PStr (gt_gpu_id e)),
     (''index'', PInt (gt_index e)),
     (''event'', PStr (gt_event e)),
     (''pid'', PInt (gt_pid e)),
     (''name'', PStr (gt_name e)),
     (''usedMemoryMiB'', popt double_value (gt_used_memory_mib e)),
     (''workload'', popt PDict (gt_workload e)),
     (''firstSeenAt'', popt PStr (gt_first_seen_at e))]"

definition persistence_dict :: "gpu_process_transition \<Rightarrow> obj" where
  "persistence_dict e = dset (transition_to_dict e) ''_visible'' (PBool (gt_visible e))"

type_synonym process_key = "int \<times> string"

definition transition_key :: "gpu_process_transition \<Rightarrow> process_key" where
  "transition_key e = (gt_pid e, gt_name e)"

definition process_transition ::
  "string \<Rightarrow> string \<Rightarrow> int \<Rightarrow> string \<Rightarrow> gpu_process \<Rightarrow> bool \<Rightarrow> gpu_process_transition" where
  "process_transition observed_at gpu_id gpu_index ev process visible =
    \<lparr>gt_observed_at = observed_at, gt_gpu_id = gpu_id, gt_index = gpu_index, gt_event = ev,
     gt_pid = gp_pid process, gt_name = gp_name process,
     gt_used_memory_mib = map_option Fin (gp_used_memory_mib process),
     gt_workload = map_option workload_to_dict (gp_workload process),
     gt_visible = visible, gt_first_seen_at = gp_first_seen_at process\<rparr>"

definition started_of :: "gpu_process \<Rightarrow> string option" where
  "started_of process = Option.bind (gp_workload process) wm_started_at"

definition same_process_instance :: "gpu_process \<Rightarrow> gpu_process \<Rightarrow> bool" where
  "same_process_instance previous current =
    (case (started_of previous, started_of current) of
       (Some a, Some b) \<Rightarrow> a = b
     | _ \<Rightarrow> True)"

definition transition_matches_process :: "gpu_process_transition \<Rightarrow> gpu_process \<Rightarrow> bool" where
  "transition_matches_process e process =
    (let event_start = (case gt_workload e of None \<Rightarrow> PNone | Some w \<Rightarrow> oget w ''started_at'') in
     \<not> truthy event_start
     \<or> (case started_of process of None \<Rightarrow> True | Some s \<Rightarrow> s = [] \<or> event_start = PStr s))"

definition open_step ::
  "(process_key, gpu_process_transition) dict \<Rightarrow> gpu_process_transition \<Rightarrow>
   (process_key, gpu_process_transition) dict" where
  "open_step opened e =
    (if gt_event e = ''started'' then dset opened (transition_key e) e
     else dpop opened (transition_key e))"

definition open_transitions ::
  "gpu_process_transition list \<Rightarrow> (process_key, gpu_process_transition) dict" where
  "open_transitions events = foldl open_step [] events"

text \<open>\<open>a or b\<close> for an optional text: the empty text is falsy too.\<close>

definition text_or :: "string option \<Rightarrow> string \<Rightarrow> string" where
  "text_or a b = (case a of None \<Rightarrow> b | Some s \<Rightarrow> if s = [] then b else s)"

definition close_restored_start ::
  "gpu_process_transition \<Rightarrow> string \<Rightarrow> bool option \<Rightarrow> gpu_process_transition" where
  "close_restored_start e close_at visible =
    e\<lparr>gt_observed_at := close_at, gt_event := ''stopped'',
      gt_first_seen_at := Some (text_or (gt_first_seen_at e) (gt_observed_at e)),
      gt_visible := (case visible of None \<Rightarrow> gt_visible e | Some v \<Rightarrow> v)\<rparr>"

text \<open>The first loop: the open starts, in key order. \<open>current\<close> is updated in place.\<close>

fun reconcile_open ::
  "string \<Rightarrow> (process_key \<times> gpu_process_transition) list \<Rightarrow>
   (process_key, gpu_process) dict \<times> gpu_process_transition list \<Rightarrow>
   (process_key, gpu_process) dict \<times> gpu_process_transition list" where
  "reconcile_open close_at [] acc = acc"
| "reconcile_open close_at ((k, e) # rest) (current, transitions) =
    reconcile_open close_at rest
      (case dget current k of
         None \<Rightarrow> (current, transitions @ [close_restored_start e close_at None])
       | Some process \<Rightarrow>
           if transition_matches_process e process
           then (dset current k (process\<lparr>gp_first_seen_at := Some (gt_observed_at e)\<rparr>), transitions)
           else (current, transitions @ [close_restored_start e close_at None]))"

definition begins_here ::
  "(process_key, gpu_process_transition) dict \<Rightarrow> process_key \<times> gpu_process \<Rightarrow> bool" where
  "begins_here opened kp \<longleftrightarrow>
    (case dget opened (fst kp) of
       None \<Rightarrow> True | Some e \<Rightarrow> \<not> transition_matches_process e (snd kp))"

definition reconcile_restored_processes ::
  "gpu_process_transition list \<Rightarrow> string \<Rightarrow> int \<Rightarrow> (process_key, gpu_process) dict \<Rightarrow> string \<Rightarrow>
   string option \<Rightarrow> gpu_process_transition list \<times> (process_key, gpu_process) dict" where
  "reconcile_restored_processes events gpu_id gpu_index current observed_at previous_at =
    (let opened = open_transitions events;
         close_at = text_or previous_at observed_at;
         (current, closes) = reconcile_open close_at (sort_key fst opened) (current, []);
         starts = map (\<lambda>kp. process_transition observed_at gpu_id gpu_index ''started'' (snd kp) True)
                    (filter (begins_here opened) (sort_key fst current))
     in (closes @ starts, current))"

section \<open>Lemmas\<close>

lemma open_transitions_snoc: "open_transitions (es @ [e]) = open_step (open_transitions es) e"
  by (simp add: open_transitions_def)

lemma wf_open [simp]: "wf_dict (open_transitions es)"
  by (induction es rule: rev_induct)
     (simp_all add: open_transitions_snoc open_step_def, simp add: open_transitions_def)

lemma open_transitions_key: "dget (open_transitions es) k = Some e \<Longrightarrow>
    transition_key e = k \<and> gt_event e = ''started'' \<and> e \<in> set es"
  by (induction es rule: rev_induct)
     (auto simp: open_transitions_snoc open_step_def split: if_splits, simp add: open_transitions_def)

lemma close_restored_sel [simp]:
  "transition_key (close_restored_start e ca v) = transition_key e"
  "gt_event (close_restored_start e ca v) = ''stopped''"
  "gt_observed_at (close_restored_start e ca v) = ca"
  by (simp_all add: close_restored_start_def transition_key_def)

lemma process_transition_sel [simp]:
  "transition_key (process_transition ob gid gi ev p v) = (gp_pid p, gp_name p)"
  "gt_event (process_transition ob gid gi ev p v) = ev"
  by (simp_all add: process_transition_def transition_key_def)

text \<open>Appending stops and then starts to a ring.\<close>

lemma open_append_stops:
  "\<forall>e \<in> set stops. gt_event e = ''stopped'' \<Longrightarrow>
    dget (foldl open_step d stops) k = (if k \<in> transition_key ` set stops then None else dget d k)"
  by (induction stops arbitrary: d) (auto simp: open_step_def)

lemma open_append_starts:
  "\<forall>e \<in> set starts. gt_event e = ''started'' \<Longrightarrow>
    dget (foldl open_step d starts) k \<noteq> None
      \<longleftrightarrow> k \<in> transition_key ` set starts \<or> dget d k \<noteq> None"
  by (induction starts arbitrary: d) (auto simp: open_step_def)

lemma open_untouched:
  "k \<notin> transition_key ` set es \<Longrightarrow> dget (foldl open_step d es) k = dget d k"
  by (induction es arbitrary: d) (auto simp: open_step_def)

text \<open>The live table after a pass, and what was closed.\<close>

definition continues ::
  "(process_key, gpu_process) dict \<Rightarrow> process_key \<Rightarrow> gpu_process_transition \<Rightarrow> bool" where
  "continues current k e \<longleftrightarrow>
    (case dget current k of None \<Rightarrow> False | Some p \<Rightarrow> transition_matches_process e p)"

text \<open>A live process takes over the first observation of the restored start it continues.\<close>

definition inherit :: "gpu_process_transition option \<Rightarrow> gpu_process \<Rightarrow> gpu_process" where
  "inherit e p =
    (case e of
       None \<Rightarrow> p
     | Some e \<Rightarrow> if transition_matches_process e p
         then p\<lparr>gp_first_seen_at := Some (gt_observed_at e)\<rparr> else p)"

lemma inherit_None [simp]: "inherit None p = p" "map_option (inherit None) x = x"
  by (simp add: inherit_def, cases x) (simp_all add: inherit_def)

lemma started_first_seen [simp]: "started_of (p\<lparr>gp_first_seen_at := x\<rparr>) = started_of p"
  by (simp add: started_of_def)

lemma matches_first_seen [simp]:
  "transition_matches_process e (p\<lparr>gp_first_seen_at := x\<rparr>) = transition_matches_process e p"
  by (simp add: transition_matches_process_def)

lemma reconcile_open_correct:
  assumes "distinct (map fst es)" "reconcile_open close_at es (current, ts) = (current', ts')"
  shows "ts' = ts @ map (\<lambda>(k, e). close_restored_start e close_at None)
      (filter (\<lambda>(k, e). \<not> continues current k e) es)
    \<and> (\<forall>k. dget current' k = map_option (inherit (dget es k)) (dget current k))
    \<and> fst ` set current' = fst ` set current
    \<and> (wf_dict current \<longrightarrow> wf_dict current')"
  using assms
proof (induction close_at es "(current, ts)" arbitrary: current ts rule: reconcile_open.induct)
  case (1 close_at)
  then show ?case by auto
next
  case (2 close_at k e rest current ts)
  define c1 where "c1 = (if continues current k e
      then dset current k ((the (dget current k))\<lparr>gp_first_seen_at := Some (gt_observed_at e)\<rparr>)
      else current)"
  define t1 where "t1 = (if continues current k e then ts else ts @ [close_restored_start e close_at None])"
  have step: "(case dget current k of
         None \<Rightarrow> (current, ts @ [close_restored_start e close_at None])
       | Some process \<Rightarrow>
           if transition_matches_process e process
           then (dset current k (process\<lparr>gp_first_seen_at := Some (gt_observed_at e)\<rparr>), ts)
           else (current, ts @ [close_restored_start e close_at None])) = (c1, t1)"
    by (simp add: c1_def t1_def continues_def split: option.split)
  have k: "k \<notin> fst ` set rest" using "2.prems"(1) by simp
  then have rest: "dget rest k = None" by (simp add: dget_None_iff)
  have run: "reconcile_open close_at rest (c1, t1) = (current', ts')"
    using "2.prems"(2) step by simp
  have IH: "ts' = t1 @ map (\<lambda>(k, e). close_restored_start e close_at None)
      (filter (\<lambda>(k, e). \<not> continues c1 k e) rest)
    \<and> (\<forall>j. dget current' j = map_option (inherit (dget rest j)) (dget c1 j))
    \<and> fst ` set current' = fst ` set c1 \<and> (wf_dict c1 \<longrightarrow> wf_dict current')"
    using "2.hyps" [OF step _ run] "2.prems"(1) step by simp
  have same: "continues c1 j x = continues current j x" if "(j, x) \<in> set rest" for j x
  proof -
    have "j \<noteq> k" using k that by force
    then show ?thesis by (simp add: continues_def c1_def)
  qed
  have filt: "filter (\<lambda>(k, e). \<not> continues c1 k e) rest
      = filter (\<lambda>(k, e). \<not> continues current k e) rest"
    using same by (auto intro: filter_cong)
  have mem: "k \<in> fst ` set current" if "continues current k e"
    using that by (auto simp: continues_def dest: dget_Some_keys split: option.splits)
  show ?case
  proof (intro conjI allI)
    show "ts' = ts @ map (\<lambda>(k, e). close_restored_start e close_at None)
        (filter (\<lambda>(k, e). \<not> continues current k e) ((k, e) # rest))"
      using IH filt by (simp add: t1_def)
    show "dget current' j = map_option (inherit (dget ((k, e) # rest) j)) (dget current j)" for j
    proof (cases "j = k")
      case True
      have "dget current' k = dget c1 k" using IH rest by (simp del: split_paired_All)
      then show ?thesis
        using True by (cases "dget current k") (simp_all add: c1_def continues_def inherit_def)
    next
      case False
      then have "dget c1 j = dget current j" by (simp add: c1_def)
      then show ?thesis using IH False by (simp del: split_paired_All)
    qed
    show "fst ` set current' = fst ` set current"
      using IH mem by (auto simp: c1_def)
    show "wf_dict current \<longrightarrow> wf_dict current'" using IH by (auto simp: c1_def)
  qed
qed

lemma reconcile_facts:
  assumes wf: "wf_dict current" and kp: "\<forall>(k, p) \<in> set current. k = (gp_pid p, gp_name p)"
    and run: "reconcile_restored_processes events gpu_id gpu_index current observed_at previous_at
      = (ts, current')"
  defines "opened \<equiv> open_transitions events"
  obtains closes starts where "ts = closes @ starts"
    "\<forall>e \<in> set closes. gt_event e = ''stopped'' \<and> gt_first_seen_at e \<noteq> None"
    "\<forall>e \<in> set starts. gt_event e = ''started''"
    "\<And>k. k \<in> transition_key ` set closes \<longleftrightarrow>
      (\<exists>e. dget opened k = Some e \<and> \<not> continues current k e)"
    "\<And>k. k \<in> transition_key ` set starts \<longleftrightarrow>
      dget current k \<noteq> None \<and> \<not> (\<exists>e. dget opened k = Some e \<and> continues current k e)"
    "\<And>k. dget current' k = map_option (inherit (dget opened k)) (dget current k)"
    "fst ` set current' = fst ` set current"
proof -
  let ?es = "sort_key fst opened"
  have wfo: "wf_dict opened" by (simp add: opened_def)
  define close_at where "close_at = text_or previous_at observed_at"
  obtain c closes where rec: "reconcile_open close_at ?es (current, []) = (c, closes)" by fastforce
  define starts where "starts = map (\<lambda>kp. process_transition observed_at gpu_id gpu_index ''started''
      (snd kp) True) (filter (begins_here opened) (sort_key fst c))"
  have ts: "ts = closes @ starts" "current' = c"
    using run rec unfolding reconcile_restored_processes_def Let_def starts_def
      opened_def [symmetric] close_at_def [symmetric] by auto
  note ro = reconcile_open_correct [OF sorted_dict(2) [OF wfo] rec]
  have closes: "closes = map (\<lambda>(k, e). close_restored_start e close_at None)
      (filter (\<lambda>(k, e). \<not> continues current k e) ?es)"
    and look: "dget c k = map_option (inherit (dget opened k)) (dget current k)"
    and keys: "fst ` set c = fst ` set current" and wfc: "wf_dict c" for k
    using ro wf wfo by (simp_all del: split_paired_All)
  have mem: "(k, e) \<in> set opened \<longleftrightarrow> dget opened k = Some e" for k e
    using wf_dget_mem [OF wfo] dget_mem by metis
  have cmem: "(k, p) \<in> set c \<longleftrightarrow> dget c k = Some p" for k p
    using wf_dget_mem [OF wfc] dget_mem by metis
  have clook: "\<exists>q. dget current k = Some q \<and> p = inherit (dget opened k) q" if "(k, p) \<in> set c" for k p
    using that look [of k] cmem [of k p] by (cases "dget current k") simp_all
  have ckey: "k = (gp_pid p, gp_name p)" if kp': "(k, p) \<in> set c" for k p
  proof -
    obtain q where "dget current k = Some q" "p = inherit (dget opened k) q"
      using clook [OF kp'] by blast
    then show ?thesis
      using kp dget_mem [of current k q] by (auto simp: inherit_def split: option.split)
  qed
  have okey: "transition_key e = k" if "dget opened k = Some e" for k e
    using open_transitions_key that by (simp add: opened_def)
  have begins: "begins_here opened (k, p) \<longleftrightarrow> \<not> (\<exists>e. dget opened k = Some e \<and> continues current k e)"
    if kp': "(k, p) \<in> set c" for k p
  proof -
    obtain q where q: "dget current k = Some q" "p = inherit (dget opened k) q"
      using clook [OF kp'] by blast
    then have "transition_matches_process e p = transition_matches_process e q" for e
      by (simp add: inherit_def split: option.split)
    then show ?thesis using q(1) by (simp add: begins_here_def continues_def split: option.split)
  qed
  show thesis
  proof (rule that [of closes starts])
    show "k \<in> transition_key ` set closes \<longleftrightarrow> (\<exists>e. dget opened k = Some e \<and> \<not> continues current k e)" for k
    proof -
      have "k \<in> transition_key ` set closes
          \<longleftrightarrow> (\<exists>j e. (j, e) \<in> set opened \<and> \<not> continues current j e \<and> transition_key e = k)"
        by (simp add: closes image_iff split_beta Bex_def) (metis close_restored_sel(1) fst_conv snd_conv)
      then show ?thesis using okey mem by metis
    qed
    show "k \<in> transition_key ` set starts \<longleftrightarrow>
      dget current k \<noteq> None \<and> \<not> (\<exists>e. dget opened k = Some e \<and> continues current k e)" for k
    proof -
      have "k \<in> transition_key ` set starts
          \<longleftrightarrow> (\<exists>j p. (j, p) \<in> set c \<and> begins_here opened (j, p) \<and> (gp_pid p, gp_name p) = k)"
        by (simp add: starts_def image_iff split_beta Bex_def) (metis process_transition_sel(1) fst_conv snd_conv)
      also have "\<dots> \<longleftrightarrow> (\<exists>p. (k, p) \<in> set c \<and> begins_here opened (k, p))"
        using ckey by metis
      also have "\<dots> \<longleftrightarrow> dget c k \<noteq> None \<and> \<not> (\<exists>e. dget opened k = Some e \<and> continues current k e)"
        using begins [of k] cmem [of k] by (metis not_None_eq)
      finally show ?thesis using look [of k] by simp
    qed
  qed (use ts keys look in \<open>auto simp: closes starts_def close_restored_start_def\<close>)
qed

text \<open>After a restart, the restored ring and the live process table are brought together:
  with the new transitions appended, the processes the ring holds open are exactly the live
  ones, a run that continues keeps its restored start untouched and gives the live process its
  first observation, every other restored start is closed with an anchor of its own, and no
  process is added to or lost from the live table.\<close>

lemma reconcile_matches_live_table:
  assumes "wf_dict current" "\<forall>(k, p) \<in> set current. k = (gp_pid p, gp_name p)"
    and "reconcile_restored_processes events gpu_id gpu_index current observed_at previous_at
      = (ts, current')"
  shows "(dget (open_transitions (events @ ts)) k \<noteq> None \<longleftrightarrow> dget current k \<noteq> None)
    \<and> (\<forall>e p. dget (open_transitions events) k = Some e \<longrightarrow> dget current k = Some p \<longrightarrow>
        transition_matches_process e p \<longrightarrow>
        dget (open_transitions (events @ ts)) k = Some e
        \<and> dget current' k = Some (p\<lparr>gp_first_seen_at := Some (gt_observed_at e)\<rparr>))
    \<and> (\<forall>e \<in> set ts. gt_event e = ''stopped'' \<longrightarrow> gt_first_seen_at e \<noteq> None)
    \<and> fst ` set current' = fst ` set current"
proof -
  obtain closes starts where f: "ts = closes @ starts"
    "\<forall>e \<in> set closes. gt_event e = ''stopped'' \<and> gt_first_seen_at e \<noteq> None"
    "\<forall>e \<in> set starts. gt_event e = ''started''"
    "\<And>k. k \<in> transition_key ` set closes \<longleftrightarrow>
      (\<exists>e. dget (open_transitions events) k = Some e \<and> \<not> continues current k e)"
    "\<And>k. k \<in> transition_key ` set starts \<longleftrightarrow>
      dget current k \<noteq> None
      \<and> \<not> (\<exists>e. dget (open_transitions events) k = Some e \<and> continues current k e)"
    "\<And>k. dget current' k = map_option (inherit (dget (open_transitions events) k)) (dget current k)"
    "fst ` set current' = fst ` set current"
    by (rule reconcile_facts [OF assms]) blast
  define mid where "mid = foldl open_step (open_transitions events) closes"
  have run: "open_transitions (events @ ts) = foldl open_step mid starts"
    by (simp add: f(1) mid_def open_transitions_def)
  have mid: "dget mid k =
      (if k \<in> transition_key ` set closes then None else dget (open_transitions events) k)"
    using open_append_stops [of closes] f(2) by (simp add: mid_def)
  have cont: "continues current k e \<longleftrightarrow>
      (\<exists>p. dget current k = Some p \<and> transition_matches_process e p)" for e
    by (simp add: continues_def split: option.split)
  have "dget (open_transitions (events @ ts)) k \<noteq> None \<longleftrightarrow> dget current k \<noteq> None"
    unfolding run open_append_starts [OF f(3)] mid f(4,5) by (auto simp: cont)
  moreover have "dget (open_transitions (events @ ts)) k = Some e
      \<and> dget current' k = Some (p\<lparr>gp_first_seen_at := Some (gt_observed_at e)\<rparr>)"
    if "dget (open_transitions events) k = Some e" "dget current k = Some p"
      "transition_matches_process e p" for e p
  proof -
    have "k \<notin> transition_key ` set starts" "dget mid k = Some e"
      using that f(4,5) [of k] by (auto simp: mid cont)
    then have "dget (foldl open_step mid starts) k = Some e"
      by (metis open_untouched)
    then show ?thesis using that f(6) [of k] by (simp add: run inherit_def)
  qed
  ultimately show ?thesis using f(1-3,7) by auto
qed

definition example_process :: "int \<Rightarrow> string \<Rightarrow> gpu_process" where
  "example_process pid name =
    \<lparr>gp_pid = pid, gp_name = name, gp_used_memory_mib = None, gp_workload = None,
     gp_first_seen_at = None\<rparr>"

text \<open>Process 1 was open before the restart, process 2 is live after it.\<close>

lemma reconcile_matches_live_table_witness:
  "dget (open_transitions
     ([process_transition ''t0'' ''gpu'' 0 ''started'' (example_process 1 ''a'') True]
      @ fst (reconcile_restored_processes
          [process_transition ''t0'' ''gpu'' 0 ''started'' (example_process 1 ''a'') True]
          ''gpu'' 0 [((2, ''b''), example_process 2 ''b'')] ''t1'' None))) (2, ''b'') \<noteq> None"
proof -
  have "wf_dict [((2 :: int, ''b''), example_process 2 ''b'')]"
    "\<forall>(k, p) \<in> set [((2, ''b''), example_process 2 ''b'')]. k = (gp_pid p, gp_name p)"
    by (simp_all add: example_process_def)
  from reconcile_matches_live_table [OF this prod.collapse [symmetric], of
      "[process_transition ''t0'' ''gpu'' 0 ''started'' (example_process 1 ''a'') True]"
      "''gpu''" 0 "''t1''" None "(2, ''b'')"]
  show ?thesis by simp
qed

end
