(* ===== verification/Occupancy.thy ===== *)
theory Occupancy
  imports Process_Transitions Timestamp
begin

text \<open>
  Occupancy intervals (\<open>occupancy.py\<close>): pairing the process transitions of one GPU with its
  live process table into runs clipped to the window, and merging the runs of one owner.
  Seconds are rationals; the process table and the open runs are dictionaries in their
  insertion order.
\<close>

record interval =
  iv_start :: rat
  iv_end :: rat
  iv_owner :: "string option"
  iv_kind :: string
  iv_sampled_seconds :: rat
  iv_idle_seconds :: rat

definition attribution :: "obj option \<Rightarrow> string option \<times> string" where
  "attribution workload =
    (let field = (\<lambda>k. case workload of None \<Rightarrow> PNone | Some w \<Rightarrow> oget w k) in
     (nonempty_text (field ''owner''),
      case nonempty_text (field ''kind'') of None \<Rightarrow> ''process'' | Some k \<Rightarrow> k))"

record pairing =
  pa_intervals :: "interval list"
  pa_dropped :: int
  pa_earliest :: "rat option"
  pa_open :: "(process_key, rat \<times> obj option) dict"

definition close_run :: "rat \<Rightarrow> rat \<Rightarrow> rat \<Rightarrow> rat \<Rightarrow> obj option \<Rightarrow> pairing \<Rightarrow> pairing" where
  "close_run window_start now_epoch start end_at workload pa =
    (let clipped_start = max start window_start; clipped_end = min end_at now_epoch in
     if clipped_end \<le> clipped_start then pa
     else (let (owner, kind) = attribution workload in
       pa\<lparr>pa_intervals := pa_intervals pa @
         [\<lparr>iv_start = clipped_start, iv_end = clipped_end, iv_owner = owner, iv_kind = kind,
           iv_sampled_seconds = 0, iv_idle_seconds = 0\<rparr>]\<rparr>))"

definition drop_record :: "pairing \<Rightarrow> pairing" where
  "drop_record pa = pa\<lparr>pa_dropped := pa_dropped pa + 1\<rparr>"

definition note_earliest :: "rat \<Rightarrow> pairing \<Rightarrow> pairing" where
  "note_earliest t pa =
    (case pa_earliest pa of
       None \<Rightarrow> pa\<lparr>pa_earliest := Some t\<rparr>
     | Some e \<Rightarrow> if t < e then pa\<lparr>pa_earliest := Some t\<rparr> else pa)"

text \<open>\<open>opened[1] or event.workload\<close>: an empty mapping is falsy.\<close>

definition workload_or :: "obj option \<Rightarrow> obj option \<Rightarrow> obj option" where
  "workload_or a b = (case a of None \<Rightarrow> b | Some w \<Rightarrow> if w = [] then b else a)"

definition pair_event ::
  "rat \<Rightarrow> rat \<Rightarrow> gpu_process_transition \<Rightarrow> pairing \<Rightarrow> pairing" where
  "pair_event window_start now_epoch e pa =
    (case epoch_seconds (gt_observed_at e) of
       None \<Rightarrow> drop_record pa
     | Some observed \<Rightarrow>
        (let pa = note_earliest observed pa;
             k = transition_key e;
             opened = dget (pa_open pa) k;
             pa = pa\<lparr>pa_open := dpop (pa_open pa) k\<rparr>
         in if gt_event e = ''started'' then
              (let pa = (case opened of
                   None \<Rightarrow> pa
                 | Some (start, workload) \<Rightarrow>
                     close_run window_start now_epoch start observed workload pa)
               in pa\<lparr>pa_open := dset (pa_open pa) k (observed, gt_workload e)\<rparr>)
            else
              (case opened of
                 Some (start, workload) \<Rightarrow>
                   close_run window_start now_epoch start observed
                     (workload_or workload (gt_workload e)) pa
               | None \<Rightarrow>
                   (case Option.bind (gt_first_seen_at e) epoch_seconds of
                      Some anchored \<Rightarrow>
                        if anchored \<le> observed then
                          close_run window_start now_epoch anchored observed (gt_workload e)
                            (note_earliest anchored pa)
                        else drop_record pa
                    | None \<Rightarrow> drop_record pa))))"

definition pair_open ::
  "rat \<Rightarrow> rat \<Rightarrow> rat \<Rightarrow> (process_key, gpu_process) dict \<Rightarrow> process_key \<times> rat \<times> obj option \<Rightarrow>
   pairing \<Rightarrow> pairing" where
  "pair_open window_start now_epoch active_until active entry pa =
    (let (k, started, workload) = entry in
     if dget active k = None then drop_record pa
     else close_run window_start now_epoch started active_until workload pa)"

definition pair_live ::
  "rat \<Rightarrow> rat \<Rightarrow> rat \<Rightarrow> (process_key, rat \<times> obj option) dict \<Rightarrow> process_key \<times> gpu_process \<Rightarrow>
   pairing \<Rightarrow> pairing" where
  "pair_live window_start now_epoch active_until opened entry pa =
    (let (k, process) = entry in
     if dget opened k \<noteq> None then pa
     else (case Option.bind (gp_first_seen_at process) epoch_seconds of
         None \<Rightarrow> drop_record pa
       | Some anchored \<Rightarrow> close_run window_start now_epoch anchored active_until
           (map_option workload_to_dict (gp_workload process)) pa))"

definition active_until_of :: "rat \<Rightarrow> rat option \<Rightarrow> rat" where
  "active_until_of now_epoch observed_until =
    (case observed_until of None \<Rightarrow> now_epoch | Some u \<Rightarrow> min now_epoch u)"

definition pair_intervals ::
  "gpu_process_transition list \<Rightarrow> (process_key, gpu_process) dict \<Rightarrow> rat \<Rightarrow> rat \<Rightarrow> rat option \<Rightarrow>
   interval list \<times> int \<times> rat option" where
  "pair_intervals events active window_start now_epoch observed_until =
    (let active_until = active_until_of now_epoch observed_until;
         pa = fold (pair_event window_start now_epoch) events
           \<lparr>pa_intervals = [], pa_dropped = 0, pa_earliest = None, pa_open = []\<rparr>;
         opened = pa_open pa;
         pa = fold (pair_open window_start now_epoch active_until active) opened pa;
         pa = fold (pair_live window_start now_epoch active_until opened) active pa
     in (pa_intervals pa, pa_dropped pa, pa_earliest pa))"

text \<open>The wall-clock union of one owner's intervals: \<open>last\<close> is the run under construction.\<close>

fun merge_onto :: "interval \<Rightarrow> interval list \<Rightarrow> interval list" where
  "merge_onto cur [] = [cur]"
| "merge_onto cur (i # is) =
    (if iv_start i \<le> iv_end cur
     then merge_onto (cur\<lparr>iv_end := max (iv_end cur) (iv_end i)\<rparr>) is
     else cur # merge_onto (i\<lparr>iv_sampled_seconds := 0, iv_idle_seconds := 0\<rparr>) is)"

definition merge_intervals :: "interval list \<Rightarrow> interval list" where
  "merge_intervals is =
    (case sort_key (\<lambda>i. (iv_start i, iv_end i)) is of
       [] \<Rightarrow> []
     | i # rest \<Rightarrow> merge_onto (i\<lparr>iv_sampled_seconds := 0, iv_idle_seconds := 0\<rparr>) rest)"

section \<open>Pairing\<close>

text \<open>Every run closes inside the window, and no later than an event that was observed or the
  last confirmation of the live table.\<close>

definition run_ok :: "rat \<Rightarrow> rat \<Rightarrow> rat set \<Rightarrow> interval \<Rightarrow> bool" where
  "run_ok window_start now_epoch ends i \<longleftrightarrow>
    window_start \<le> iv_start i \<and> iv_start i < iv_end i \<and> iv_end i \<le> now_epoch
    \<and> (\<exists>u \<in> ends. iv_end i \<le> u)"

lemma close_run_sel [simp]:
  "pa_dropped (close_run ws now s e w pa) = pa_dropped pa"
  "pa_open (close_run ws now s e w pa) = pa_open pa"
  by (simp_all add: close_run_def Let_def split: prod.split)

lemma close_run_intervals:
  "(\<forall>i \<in> set (pa_intervals pa). run_ok ws now E i) \<Longrightarrow> e \<in> E \<Longrightarrow>
    \<forall>i \<in> set (pa_intervals (close_run ws now s e w pa)). run_ok ws now E i"
  by (auto simp: close_run_def Let_def run_ok_def split: prod.split intro!: bexI [of _ e])

lemma close_run_length:
  "length (pa_intervals (close_run ws now s e w pa)) \<le> Suc (length (pa_intervals pa))"
  by (simp add: close_run_def Let_def split: prod.split)

lemma drop_record_sel [simp]:
  "pa_dropped (drop_record pa) = pa_dropped pa + 1"
  "pa_open (drop_record pa) = pa_open pa"
  "pa_intervals (drop_record pa) = pa_intervals pa"
  by (simp_all add: drop_record_def)

lemma note_earliest_sel [simp]:
  "pa_dropped (note_earliest t pa) = pa_dropped pa"
  "pa_open (note_earliest t pa) = pa_open pa"
  "pa_intervals (note_earliest t pa) = pa_intervals pa"
  by (simp_all add: note_earliest_def split: option.split)

text \<open>The records an event list can still account for: what has become an interval, what was
  dropped and what is open.\<close>

definition accounted :: "pairing \<Rightarrow> int" where
  "accounted pa = int (length (pa_intervals pa)) + pa_dropped pa + int (length (pa_open pa))"

lemma accounted_drop [simp]: "accounted (drop_record pa) = accounted pa + 1"
  and accounted_note [simp]: "accounted (note_earliest t pa) = accounted pa"
  by (simp_all add: accounted_def)

lemma accounted_close: "accounted (close_run ws now s e w pa) \<le> accounted pa + 1"
  using close_run_length [of ws now s e w pa] by (simp add: accounted_def)

lemma dpop_open_accounted:
  assumes "wf_dict (pa_open pa)"
  shows "accounted (pa\<lparr>pa_open := dpop (pa_open pa) k\<rparr>)
    = accounted pa - (if dget (pa_open pa) k = None then 0 else 1)"
proof -
  have "dget (pa_open pa) k \<noteq> None \<Longrightarrow> 1 \<le> length (pa_open pa)"
    by (cases "pa_open pa") auto
  then show ?thesis using length_dpop [OF assms, of k] by (auto simp: accounted_def)
qed

lemma dset_open_accounted:
  "dget (pa_open pa) k = None \<Longrightarrow>
    accounted (pa\<lparr>pa_open := dset (pa_open pa) k v\<rparr>) = accounted pa + 1"
  by (simp add: accounted_def length_dset_absent)

definition pair_ok :: "rat \<Rightarrow> rat \<Rightarrow> rat set \<Rightarrow> pairing \<Rightarrow> bool" where
  "pair_ok ws now E pa \<longleftrightarrow>
    (\<forall>i \<in> set (pa_intervals pa). run_ok ws now E i) \<and> wf_dict (pa_open pa)"

lemma pair_ok_close: "pair_ok ws now E pa \<Longrightarrow> e \<in> E \<Longrightarrow> pair_ok ws now E (close_run ws now s e w pa)"
  using close_run_intervals [of pa ws now E e s w] by (simp add: pair_ok_def)

lemma pair_ok_sel [simp]:
  "pair_ok ws now E (drop_record pa) = pair_ok ws now E pa"
  "pair_ok ws now E (note_earliest t pa) = pair_ok ws now E pa"
  by (simp_all add: pair_ok_def)

lemma pair_ok_open: "pair_ok ws now E pa \<Longrightarrow> wf_dict d \<Longrightarrow> pair_ok ws now E (pa\<lparr>pa_open := d\<rparr>)"
  by (simp add: pair_ok_def)

lemma pair_event_step:
  assumes ok: "pair_ok ws now E pa"
    and E: "\<And>t. epoch_seconds (gt_observed_at e) = Some t \<Longrightarrow> t \<in> E"
  shows "pair_ok ws now E (pair_event ws now e pa)
    \<and> accounted (pair_event ws now e pa) \<le> accounted pa + 1"
proof (cases "epoch_seconds (gt_observed_at e)")
  case None
  then show ?thesis using ok by (simp add: pair_event_def)
next
  case (Some observed)
  let ?k = "transition_key e"
  define pa1 where "pa1 = note_earliest observed pa"
  define opened where "opened = dget (pa_open pa1) ?k"
  define pa2 where "pa2 = pa1\<lparr>pa_open := dpop (pa_open pa1) ?k\<rparr>"
  have ok1: "pair_ok ws now E pa1" using ok by (simp add: pa1_def)
  then have ok2: "pair_ok ws now E pa2" unfolding pa2_def by (rule pair_ok_open) (use ok1 in \<open>simp add: pair_ok_def\<close>)
  have acc2: "accounted pa2 = accounted pa - (if opened = None then 0 else 1)"
    using dpop_open_accounted [of pa1 ?k] ok1 by (simp add: pa2_def opened_def pair_ok_def pa1_def)
  have le: "accounted (close_run ws now s t w q) \<le> accounted pa + 1"
    if "accounted q \<le> accounted pa" for s t w q
    using accounted_close [of ws now s t w q] that by linarith
  have gone: "dget (pa_open pa2) ?k = None" by (simp add: pa2_def)
  have mem: "observed \<in> E" by (rule E [OF Some])
  note defs = pair_event_def Some option.case Let_def pa1_def [symmetric] opened_def [symmetric]
    pa2_def [symmetric]
  show ?thesis
  proof (cases "gt_event e = ''started''")
    case True
    define pa3 where "pa3 = (case opened of None \<Rightarrow> pa2
      | Some (start, workload) \<Rightarrow> close_run ws now start observed workload pa2)"
    have 3: "pair_ok ws now E pa3" "dget (pa_open pa3) ?k = None" "accounted pa3 \<le> accounted pa"
      using ok2 gone acc2 accounted_close pair_ok_close [OF ok2 mem]
      by (auto simp: pa3_def split: option.splits prod.splits) (smt (verit) accounted_close)
    have "pair_event ws now e pa = pa3\<lparr>pa_open := dset (pa_open pa3) ?k (observed, gt_workload e)\<rparr>"
      unfolding defs pa3_def using True by simp
    then show ?thesis
      using 3 dset_open_accounted [OF 3(2)] by (auto simp: pair_ok_def)
  next
    case False
    show ?thesis
    proof (cases opened)
      case None
      then show ?thesis
        using False ok2 acc2 mem
        unfolding defs by (auto split: option.split intro!: pair_ok_close le)
    next
      case (Some sw)
      then show ?thesis
        using False ok2 acc2 mem
        unfolding defs by (cases sw) (auto intro!: pair_ok_close le)
    qed
  qed
qed

lemma pair_events_run:
  assumes "pair_ok ws now E pa"
    and "\<And>e t. e \<in> set es \<Longrightarrow> epoch_seconds (gt_observed_at e) = Some t \<Longrightarrow> t \<in> E"
  shows "pair_ok ws now E (fold (pair_event ws now) es pa)
    \<and> accounted (fold (pair_event ws now) es pa) \<le> accounted pa + int (length es)"
  using assms
proof (induction es arbitrary: pa)
  case (Cons e es)
  have "pair_ok ws now E (pair_event ws now e pa)
    \<and> accounted (pair_event ws now e pa) \<le> accounted pa + 1"
    by (rule pair_event_step [OF Cons.prems(1)]) (use Cons.prems(2) in auto)
  then have one: "pair_ok ws now E (pair_event ws now e pa)"
    "accounted (pair_event ws now e pa) \<le> accounted pa + 1" by simp_all
  have "pair_ok ws now E (fold (pair_event ws now) es (pair_event ws now e pa))
    \<and> accounted (fold (pair_event ws now) es (pair_event ws now e pa))
        \<le> accounted (pair_event ws now e pa) + int (length es)"
    by (rule Cons.IH [OF one(1)]) (use Cons.prems(2) in auto)
  then show ?case using one(2) by simp
qed simp

text \<open>The two passes over the live table: each entry makes at most one interval or drop.\<close>

definition settled :: "pairing \<Rightarrow> int" where
  "settled pa = int (length (pa_intervals pa)) + pa_dropped pa"

lemma settled_close: "settled (close_run ws now s e w pa) \<le> settled pa + 1"
  using close_run_length [of ws now s e w pa] by (simp add: settled_def)

lemma settled_drop [simp]: "settled (drop_record pa) = settled pa + 1"
  by (simp add: settled_def)

lemma settled_fold:
  assumes "pair_ok ws now E pa" "u \<in> E"
    and "\<And>x pa. f x pa \<in> {pa, drop_record pa} \<union> {close_run ws now s u w pa | s w. True}"
  shows "pair_ok ws now E (fold f xs pa) \<and> settled (fold f xs pa) \<le> settled pa + int (length xs)"
  using assms(1)
proof (induction xs arbitrary: pa)
  case (Cons x xs)
  have "pair_ok ws now E (f x pa) \<and> settled (f x pa) \<le> settled pa + 1"
    using assms(3) [of x pa] Cons.prems pair_ok_close [OF Cons.prems assms(2)] settled_close
    by auto
  then show ?case using Cons.IH [of "f x pa"] by simp
qed simp

lemma pair_open_shape:
  "pair_open ws now u active x pa \<in> {pa, drop_record pa} \<union> {close_run ws now s u w pa | s w. True}"
  by (auto simp: pair_open_def split: prod.split)

lemma pair_live_shape:
  "pair_live ws now u opened x pa \<in> {pa, drop_record pa} \<union> {close_run ws now s u w pa | s w. True}"
  by (auto simp: pair_live_def split: prod.split option.split)

lemma pair_bounded:
  assumes "pair_intervals events active window_start now_epoch observed_until = (ivs, dropped, earliest)"
  shows "(\<forall>i \<in> set ivs. window_start \<le> iv_start i \<and> iv_start i < iv_end i \<and> iv_end i \<le> now_epoch
      \<and> (iv_end i \<le> active_until_of now_epoch observed_until
         \<or> (\<exists>e \<in> set events. \<exists>t. epoch_seconds (gt_observed_at e) = Some t \<and> iv_end i \<le> t)))
    \<and> int (length ivs) + dropped \<le> int (length events) + int (length active)"
proof -
  define u where "u = active_until_of now_epoch observed_until"
  define E where "E = insert u {t. \<exists>e \<in> set events. epoch_seconds (gt_observed_at e) = Some t}"
  define pa0 where "pa0 = \<lparr>pa_intervals = [], pa_dropped = 0, pa_earliest = None, pa_open = []\<rparr>"
  define pa1 where "pa1 = fold (pair_event window_start now_epoch) events pa0"
  define pa2 where "pa2 = fold (pair_open window_start now_epoch u active) (pa_open pa1) pa1"
  define pa3 where "pa3 = fold (pair_live window_start now_epoch u (pa_open pa1)) active pa2"
  have 0: "pair_ok window_start now_epoch E pa0" "accounted pa0 = 0"
    by (simp_all add: pair_ok_def pa0_def accounted_def)
  have 1: "pair_ok window_start now_epoch E pa1" "accounted pa1 \<le> int (length events)"
    using pair_events_run [OF 0(1), of events] 0(2) by (auto simp: pa1_def E_def)
  have uE: "u \<in> E" by (simp add: E_def)
  have 2: "pair_ok window_start now_epoch E pa2" "settled pa2 \<le> settled pa1 + int (length (pa_open pa1))"
    using settled_fold [OF 1(1) uE, of "pair_open window_start now_epoch u active", OF pair_open_shape]
    by (simp_all add: pa2_def)
  have 3: "pair_ok window_start now_epoch E pa3" "settled pa3 \<le> settled pa2 + int (length active)"
    using settled_fold [OF 2(1) uE, of "pair_live window_start now_epoch u (pa_open pa1)",
        OF pair_live_shape]
    by (simp_all add: pa3_def)
  have res: "ivs = pa_intervals pa3" "dropped = pa_dropped pa3"
    using assms by (simp_all add: pair_intervals_def Let_def u_def [symmetric] pa0_def [symmetric]
        pa1_def [symmetric] pa2_def [symmetric] pa3_def [symmetric])
  have "settled pa1 + int (length (pa_open pa1)) = accounted pa1"
    by (simp add: settled_def accounted_def)
  then have "int (length ivs) + dropped \<le> int (length events) + int (length active)"
    using 1(2) 2(2) 3(2) by (simp add: res settled_def)
  moreover have "\<forall>i \<in> set ivs. run_ok window_start now_epoch E i"
    using 3(1) by (simp add: res pair_ok_def)
  ultimately show ?thesis by (auto simp: run_ok_def E_def u_def)
qed

text \<open>Every occupancy interval lies inside the window, has positive length, and ends no later
  than an observed transition or, for a process still listed, the last confirmation of the
  live table: a gap in collection is never counted as occupancy. No record is counted twice:
  intervals and dropped records together are at most the transitions and live processes given.\<close>

lemma pair_intervals_bounded:
  assumes "pair_intervals events active window_start now_epoch observed_until = (ivs, dropped, earliest)"
  shows "(\<forall>i \<in> set ivs. window_start \<le> iv_start i \<and> iv_start i < iv_end i \<and> iv_end i \<le> now_epoch
      \<and> (iv_end i \<le> active_until_of now_epoch observed_until
         \<or> (\<exists>e \<in> set events. \<exists>t. epoch_seconds (gt_observed_at e) = Some t \<and> iv_end i \<le> t)))
    \<and> int (length ivs) + dropped \<le> int (length events) + int (length active)"
  by (rule pair_bounded [OF assms])

lemma pair_intervals_bounded_witness:
  "\<exists>ivs dropped earliest.
    pair_intervals
      [process_transition ''2026-01-01T00:00:10Z'' ''gpu'' 0 ''started'' (example_process 1 ''a'') True,
       process_transition ''2026-01-01T00:00:40Z'' ''gpu'' 0 ''stopped'' (example_process 1 ''a'') True]
      [] 1767225600 1767225660 None = (ivs, dropped, earliest)
    \<and> length ivs = 1 \<and> (\<forall>i \<in> set ivs. iv_end i \<le> 1767225660) \<and> int (length ivs) + dropped \<le> 2"
proof -
  let ?es = "[process_transition ''2026-01-01T00:00:10Z'' ''gpu'' 0 ''started'' (example_process 1 ''a'') True,
       process_transition ''2026-01-01T00:00:40Z'' ''gpu'' 0 ''stopped'' (example_process 1 ''a'') True]"
  obtain ivs dropped earliest where
    run: "pair_intervals ?es [] 1767225600 1767225660 None = (ivs, dropped, earliest)"
    using prod_cases3 by blast
  have "length (fst (pair_intervals ?es [] 1767225600 1767225660 None)) = 1" by code_simp
  then have "length ivs = 1" by (simp add: run)
  with pair_intervals_bounded [OF run] run show ?thesis by simp
qed

section \<open>Merging\<close>

definition covers :: "interval list \<Rightarrow> rat \<Rightarrow> bool" where
  "covers is x \<longleftrightarrow> (\<exists>i \<in> set is. iv_start i \<le> x \<and> x < iv_end i)"

definition total_seconds :: "interval list \<Rightarrow> rat" where
  "total_seconds is = (\<Sum>i\<leftarrow>is. iv_end i - iv_start i)"

text \<open>Sorted by start, with a gap between consecutive runs.\<close>

definition separated :: "interval list \<Rightarrow> bool" where
  "separated is \<longleftrightarrow> sorted_wrt (\<lambda>i j. iv_end i < iv_start j) is"

lemma covers_simps [simp]:
  "covers [] x \<longleftrightarrow> False"
  "covers (i # is) x \<longleftrightarrow> iv_start i \<le> x \<and> x < iv_end i \<or> covers is x"
  by (auto simp: covers_def)

lemma total_seconds_simps [simp]:
  "total_seconds [] = 0"
  "total_seconds (i # is) = iv_end i - iv_start i + total_seconds is"
  by (simp_all add: total_seconds_def)

lemma merge_onto_correct:
  assumes "sorted (map iv_start (cur # is))" "\<forall>i \<in> set (cur # is). iv_start i < iv_end i"
  shows "(\<forall>x. covers (merge_onto cur is) x \<longleftrightarrow> covers (cur # is) x)
    \<and> separated (merge_onto cur is)
    \<and> (\<forall>i \<in> set (merge_onto cur is). iv_start cur \<le> iv_start i \<and> iv_start i < iv_end i)
    \<and> total_seconds (merge_onto cur is) \<le> total_seconds (cur # is)
    \<and> (\<forall>i \<in> set (merge_onto cur is). \<exists>j \<in> set (cur # is). iv_end i = iv_end j)"
  using assms
proof (induction cur "is" rule: merge_onto.induct)
  case (1 cur)
  then show ?case by (simp add: separated_def)
next
  case (2 cur i js)
  show ?case
  proof (cases "iv_start i \<le> iv_end cur")
    case True
    let ?c = "cur\<lparr>iv_end := max (iv_end cur) (iv_end i)\<rparr>"
    have IH: "(\<forall>x. covers (merge_onto ?c js) x \<longleftrightarrow> covers (?c # js) x)
      \<and> separated (merge_onto ?c js)
      \<and> (\<forall>j \<in> set (merge_onto ?c js). iv_start ?c \<le> iv_start j \<and> iv_start j < iv_end j)
      \<and> total_seconds (merge_onto ?c js) \<le> total_seconds (?c # js)
      \<and> (\<forall>k \<in> set (merge_onto ?c js). \<exists>j \<in> set (?c # js). iv_end k = iv_end j)"
      using "2.prems" True by (intro "2.IH"(1)) (auto simp: less_max_iff_disj)
    have cov: "covers (?c # js) x \<longleftrightarrow> covers (cur # i # js) x" for x
      using "2.prems" True by (auto simp: less_max_iff_disj)
    have tot: "total_seconds (?c # js) \<le> total_seconds (cur # i # js)"
      using "2.prems" True by (simp add: max_def)
    show ?thesis using IH cov tot True by (auto simp: max_def split: if_splits)
  next
    case False
    let ?i = "i\<lparr>iv_sampled_seconds := 0, iv_idle_seconds := 0\<rparr>"
    have IH: "(\<forall>x. covers (merge_onto ?i js) x \<longleftrightarrow> covers (?i # js) x)
      \<and> separated (merge_onto ?i js)
      \<and> (\<forall>j \<in> set (merge_onto ?i js). iv_start ?i \<le> iv_start j \<and> iv_start j < iv_end j)
      \<and> total_seconds (merge_onto ?i js) \<le> total_seconds (?i # js)
      \<and> (\<forall>k \<in> set (merge_onto ?i js). \<exists>j \<in> set (?i # js). iv_end k = iv_end j)"
      using "2.prems" False by (intro "2.IH"(2)) auto
    then have "separated (cur # merge_onto ?i js)"
      using False by (fastforce simp: separated_def)
    then show ?thesis using IH False "2.prems" by (auto intro: order_trans)
  qed
qed

lemma sorted_merge_key:
  "sorted (map iv_start (sort_key (\<lambda>i. (iv_start i, iv_end i)) is))"
proof -
  have "sorted_wrt (\<lambda>i j. (iv_start i, iv_end i) \<le> (iv_start j, iv_end j))
      (sort_key (\<lambda>i. (iv_start i, iv_end i)) is)"
    using sorted_sort_key [of "\<lambda>i. (iv_start i, iv_end i)" "is"] by (simp add: sorted_map)
  then have "sorted_wrt (\<lambda>i j. iv_start i \<le> iv_start j) (sort_key (\<lambda>i. (iv_start i, iv_end i)) is)"
    by (rule sorted_wrt_mono_rel [rotated]) (auto simp: less_eq_prod_def)
  then show ?thesis by (simp add: sorted_map)
qed

lemma total_sort [simp]: "total_seconds (sort_key f is) = total_seconds is"
  unfolding total_seconds_def
  by (metis (no_types, lifting) mset_map mset_sort sum_mset_sum_list)

lemma merge_union:
  assumes "\<forall>i \<in> set is. iv_start i < iv_end i"
  shows "(covers (merge_intervals is) x \<longleftrightarrow> covers is x)
    \<and> separated (merge_intervals is)
    \<and> (\<forall>i \<in> set (merge_intervals is). iv_start i < iv_end i)
    \<and> total_seconds (merge_intervals is) \<le> total_seconds is"
proof (cases "sort_key (\<lambda>i. (iv_start i, iv_end i)) is")
  case Nil
  then have "is = []" by (metis length_0_conv length_sort)
  then show ?thesis by (simp add: merge_intervals_def separated_def)
next
  case (Cons i js)
  let ?i = "i\<lparr>iv_sampled_seconds := 0, iv_idle_seconds := 0\<rparr>"
  have mem: "set is = set (i # js)" by (metis Cons set_sort)
  have "sorted (map iv_start (?i # js))" using sorted_merge_key [of "is"] Cons by simp
  moreover have "\<forall>j \<in> set (?i # js). iv_start j < iv_end j" using assms mem by simp
  ultimately have m: "(\<forall>x. covers (merge_onto ?i js) x \<longleftrightarrow> covers (?i # js) x)
    \<and> separated (merge_onto ?i js)
    \<and> (\<forall>j \<in> set (merge_onto ?i js). iv_start ?i \<le> iv_start j \<and> iv_start j < iv_end j)
    \<and> total_seconds (merge_onto ?i js) \<le> total_seconds (?i # js)"
    using merge_onto_correct [of ?i js] by blast
  have "merge_intervals is = merge_onto ?i js" by (simp add: merge_intervals_def Cons)
  moreover have "covers is x \<longleftrightarrow> covers (?i # js) x" by (simp add: covers_def mem)
  moreover have "total_seconds (?i # js) = total_seconds is"
    using total_sort [of "\<lambda>i. (iv_start i, iv_end i)" "is"] by (simp add: Cons)
  ultimately show ?thesis using m by simp
qed

text \<open>C20. Merging one owner's intervals on one device gives the wall-clock union: runs in order
  with a gap between any two, covering exactly the instants some interval covered, whose
  seconds are at most the sum, so that concurrent processes are not billed twice.\<close>

theorem merge_intervals_union:
  assumes "\<forall>i \<in> set is. iv_start i < iv_end i"
  shows "(covers (merge_intervals is) x \<longleftrightarrow> covers is x)
    \<and> separated (merge_intervals is)
    \<and> (\<forall>i \<in> set (merge_intervals is). iv_start i < iv_end i)
    \<and> total_seconds (merge_intervals is) \<le> total_seconds is"
  by (rule merge_union [OF assms])

theorem merge_intervals_union_witness:
  "covers (merge_intervals
    [\<lparr>iv_start = 0, iv_end = 5, iv_owner = None, iv_kind = ''process'', iv_sampled_seconds = 0,
      iv_idle_seconds = 0\<rparr>,
     \<lparr>iv_start = 3, iv_end = 9, iv_owner = None, iv_kind = ''process'', iv_sampled_seconds = 0,
      iv_idle_seconds = 0\<rparr>]) 7"
proof -
  let ?is = "[\<lparr>iv_start = 0, iv_end = 5, iv_owner = None, iv_kind = ''process'',
      iv_sampled_seconds = 0, iv_idle_seconds = 0\<rparr>,
     \<lparr>iv_start = 3, iv_end = 9, iv_owner = None, iv_kind = ''process'', iv_sampled_seconds = 0,
      iv_idle_seconds = 0\<rparr>]"
  have "\<forall>i \<in> set ?is. iv_start i < iv_end i" by simp
  from merge_intervals_union [OF this, of 7] show ?thesis by simp
qed

end
