(* ===== verification/Usage.thy ===== *)
theory Usage
  imports Occupancy
begin

text \<open>
  Per-owner GPU occupancy rollups (\<open>usage.py\<close>). \<open>classify\<close> splits a run into sampled and idle
  seconds with prefix sums and binary search; it is shown equal to the direct sum of overlaps.
  \<open>aggregate_usage\<close> pairs, merges and classifies every device and ranks the owners. Sorting
  samples compares \<open>None\<close> with a Boolean when two samples share a timestamp and only one of
  them carries a utilization: that raises, and is the error \<open>Inl TypeError\<close>.
\<close>

section \<open>Binary search\<close>

text \<open>The loop of the \<open>bisect\<close> module: \<open>p\<close> holds for the entries to the left of the result.\<close>

function bisect_by :: "('a \<Rightarrow> bool) \<Rightarrow> 'a list \<Rightarrow> nat \<Rightarrow> nat \<Rightarrow> nat" where
  "bisect_by p xs lo hi =
    (if lo < hi then
       (let mid = (lo + hi) div 2 in
        if p (xs ! mid) then bisect_by p xs (mid + 1) hi else bisect_by p xs lo mid)
     else lo)"
  by pat_completeness auto
termination by (relation "measure (\<lambda>(p, xs, lo, hi). hi - lo)") auto

declare bisect_by.simps [simp del]

definition bisect_right :: "'a :: linorder list \<Rightarrow> 'a \<Rightarrow> nat" where
  "bisect_right xs x = bisect_by (\<lambda>a. \<not> x < a) xs 0 (length xs)"

definition bisect_left :: "'a :: linorder list \<Rightarrow> 'a \<Rightarrow> nat" where
  "bisect_left xs x = bisect_by (\<lambda>a. a < x) xs 0 (length xs)"

text \<open>When \<open>p\<close> holds on a prefix, the search finds where the prefix ends.\<close>

lemma bisect_by_correct:
  assumes "\<And>i. i < length xs \<Longrightarrow> p (xs ! i) \<longleftrightarrow> i < n" "lo \<le> n" "n \<le> hi" "hi \<le> length xs"
  shows "bisect_by p xs lo hi = n"
  using assms
proof (induction p xs lo hi rule: bisect_by.induct)
  case (1 p xs lo hi)
  show ?case
  proof (cases "lo < hi")
    case True
    define mid where "mid = (lo + hi) div 2"
    have mid: "lo \<le> mid" "mid < hi" using True by (simp_all add: mid_def)
    have pm: "p (xs ! mid) \<longleftrightarrow> mid < n" using "1.prems" mid by simp
    show ?thesis
      using "1.IH"(1) [OF True mid_def] "1.IH"(2) [OF True mid_def] "1.prems" pm mid True
      by (subst bisect_by.simps) (auto simp: Let_def mid_def [symmetric])
  next
    case False
    then show ?thesis using "1.prems" by (subst bisect_by.simps) auto
  qed
qed

lemma prefix_count:
  assumes "sorted xs" "\<And>a b. a \<le> b \<Longrightarrow> p b \<Longrightarrow> p a" "i < length xs"
  shows "p (xs ! i) \<longleftrightarrow> i < length (takeWhile p xs)"
proof
  assume "p (xs ! i)"
  then have "\<And>j. j \<le> i \<Longrightarrow> p (xs ! j)"
    using assms by (meson le_less_trans sorted_nth_mono)
  show "i < length (takeWhile p xs)"
  proof (rule ccontr)
    assume "\<not> i < length (takeWhile p xs)"
    then have le: "length (takeWhile p xs) \<le> i" by simp
    then have "\<not> p (xs ! length (takeWhile p xs))" using assms(3) by (intro nth_length_takeWhile) simp
    with \<open>\<And>j. j \<le> i \<Longrightarrow> p (xs ! j)\<close> [OF le] show False by simp
  qed
next
  assume "i < length (takeWhile p xs)"
  then show "p (xs ! i)" by (metis nth_mem set_takeWhileD takeWhile_nth)
qed

lemma bisect_takeWhile:
  assumes "sorted xs" "\<And>a b. a \<le> b \<Longrightarrow> p b \<Longrightarrow> p a"
  shows "bisect_by p xs 0 (length xs) = length (takeWhile p xs)"
  using prefix_count [OF assms]
  by (intro bisect_by_correct) (simp_all add: length_takeWhile_le)

section \<open>Classifying a run\<close>

datatype usage_error = TypeError

type_synonym segment = "rat \<times> rat \<times> bool"

definition max_sample_gap :: rat where "max_sample_gap = 60"

text \<open>Comparing these two samples raises.\<close>

definition incomparable :: "rat \<times> bool option \<Rightarrow> rat \<times> bool option \<Rightarrow> bool" where
  "incomparable a b \<longleftrightarrow> fst a = fst b \<and> (snd a = None) \<noteq> (snd b = None)"

fun segments :: "(rat \<times> bool option) list \<Rightarrow> segment list" where
  "segments ((s, c) # (e, c') # rest) =
    (case c of
       Some idle \<Rightarrow> if e \<le> s \<or> max_sample_gap < e - s then [] else [(s, e, idle)]
     | None \<Rightarrow> [])
    @ segments ((e, c') # rest)"
| "segments _ = []"

text \<open>\<open>sampled_prefix\<close> and \<open>idle_prefix\<close>: the running sums of \<open>w\<close>, from 0.\<close>

fun prefix_sums :: "rat \<Rightarrow> ('a \<Rightarrow> rat) \<Rightarrow> 'a list \<Rightarrow> rat list" where
  "prefix_sums acc w [] = [acc]"
| "prefix_sums acc w (x # xs) = acc # prefix_sums (acc + w x) w xs"

definition seg_start :: "segment \<Rightarrow> rat" where "seg_start g = fst g"
definition seg_end :: "segment \<Rightarrow> rat" where "seg_end g = fst (snd g)"
definition seg_idle :: "segment \<Rightarrow> bool" where "seg_idle g = snd (snd g)"
definition seg_seconds :: "segment \<Rightarrow> rat" where "seg_seconds g = seg_end g - seg_start g"

definition classify_one :: "segment list \<Rightarrow> interval \<Rightarrow> interval" where
  "classify_one segs i =
    (let start = bisect_right (map seg_end segs) (iv_start i);
         end_ix = bisect_left (map seg_start segs) (iv_end i)
     in if end_ix \<le> start then i
        else
          (let sampled_prefix = prefix_sums 0 seg_seconds segs;
               idle_prefix = prefix_sums 0 (\<lambda>g. if seg_idle g then seg_seconds g else 0) segs;
               sampled = sampled_prefix ! end_ix - sampled_prefix ! start;
               idle = idle_prefix ! end_ix - idle_prefix ! start;
               left_trim = max 0 (iv_start i - seg_start (segs ! start));
               right_trim = max 0 (seg_end (segs ! (end_ix - 1)) - iv_end i);
               sampled = sampled - (left_trim + right_trim);
               idle = (if seg_idle (segs ! start) then idle - left_trim else idle);
               idle = (if seg_idle (segs ! (end_ix - 1)) then idle - right_trim else idle)
           in i\<lparr>iv_sampled_seconds := max 0 sampled, iv_idle_seconds := max 0 idle\<rparr>))"

definition classify ::
  "interval list \<Rightarrow> (rat \<times> bool option) list \<Rightarrow> usage_error + interval list" where
  "classify is points =
    (if length points < 2 \<or> is = [] then Inr is
     else if \<exists>a \<in> set points. \<exists>b \<in> set points. incomparable a b then Inl TypeError
     else (let samples = sort_key (\<lambda>(t, c). (t, c = Some True)) points in
       Inr (map (classify_one (segments samples)) is)))"

section \<open>The direct sum\<close>

definition overlap :: "interval \<Rightarrow> segment \<Rightarrow> rat" where
  "overlap i g = max 0 (min (iv_end i) (seg_end g) - max (iv_start i) (seg_start g))"

text \<open>Segments in order, each of positive length, no two overlapping.\<close>

definition segs_ok :: "segment list \<Rightarrow> bool" where
  "segs_ok segs \<longleftrightarrow> sorted_wrt (\<lambda>g h. seg_end g \<le> seg_start h) segs
    \<and> (\<forall>g \<in> set segs. seg_start g < seg_end g)"

lemma segments_bounds:
  "sorted (map fst samples) \<Longrightarrow> samples \<noteq> [] \<Longrightarrow>
    \<forall>g \<in> set (segments samples). fst (hd samples) \<le> seg_start g"
  by (induction samples rule: segments.induct)
     (auto simp: seg_start_def split: option.splits if_splits)

lemma segments_ok: "sorted (map fst samples) \<Longrightarrow> segs_ok (segments samples)"
proof (induction samples rule: segments.induct)
  case (1 s c e c' rest)
  have "segs_ok (segments ((e, c') # rest))" using 1 by simp
  moreover have "\<forall>g \<in> set (segments ((e, c') # rest)). e \<le> seg_start g"
    using segments_bounds [of "(e, c') # rest"] 1 by simp
  ultimately show ?case
    by (auto simp: segs_ok_def seg_start_def seg_end_def split: option.splits if_splits)
qed (simp_all add: segs_ok_def)

lemma prefix_sums_nth:
  "n \<le> length xs \<Longrightarrow> prefix_sums acc w xs ! n = acc + (\<Sum>x\<leftarrow>take n xs. w x)"
proof (induction acc w xs arbitrary: n rule: prefix_sums.induct)
  case (2 acc w x xs)
  then show ?case by (cases n) (simp_all add: algebra_simps)
qed simp

lemma prefix_sums_diff:
  assumes "m \<le> n" "n \<le> length xs"
  shows "prefix_sums 0 w xs ! n - prefix_sums 0 w xs ! m = (\<Sum>x\<leftarrow>drop m (take n xs). w x)"
proof -
  have "take n xs = take m xs @ drop m (take n xs)"
    using assms by (metis append_take_drop_id min.absorb1 take_take)
  then have "(\<Sum>x\<leftarrow>take n xs. w x) = (\<Sum>x\<leftarrow>take m xs. w x) + (\<Sum>x\<leftarrow>drop m (take n xs). w x)"
    by (metis map_append sum_list_append)
  then show ?thesis using assms by (simp add: prefix_sums_nth)
qed

lemma sum_list_only_hd:
  "M \<noteq> [] \<Longrightarrow> \<forall>g \<in> set (tl M). f g = 0 \<Longrightarrow> (\<Sum>g\<leftarrow>M. f g) = (f (hd M) :: rat)"
  by (cases M) (simp_all add: sum_list_nonneg_eq_0_iff sum_list_0 cong: map_cong)

lemma sum_list_only_last:
  "M \<noteq> [] \<Longrightarrow> \<forall>g \<in> set (butlast M). f g = 0 \<Longrightarrow> (\<Sum>g\<leftarrow>M. f g) = (f (last M) :: rat)"
  by (cases M rule: rev_cases) (simp_all cong: map_cong)

lemma overlap_trims:
  assumes "iv_start i < seg_end g" "seg_start g < iv_end i" "seg_start g < seg_end g"
    "iv_start i < iv_end i"
  shows "overlap i g = seg_seconds g - max 0 (iv_start i - seg_start g) - max 0 (seg_end g - iv_end i)"
  using assms by (simp add: overlap_def seg_seconds_def max_def min_def)

text \<open>The segments that meet the run: only the first and the last can stick out.\<close>

lemma overlap_middle:
  assumes "segs_ok M" "M \<noteq> []" "iv_start i < iv_end i"
    and "\<forall>g \<in> set M. iv_start i < seg_end g \<and> seg_start g < iv_end i"
  shows "(\<Sum>g\<leftarrow>M. w g * overlap i g) =
    (\<Sum>g\<leftarrow>M. w g * seg_seconds g) - w (hd M) * max 0 (iv_start i - seg_start (hd M))
      - w (last M) * max 0 (seg_end (last M) - iv_end i)"
proof -
  let ?l = "\<lambda>g. w g * max 0 (iv_start i - seg_start g)"
  let ?r = "\<lambda>g. w g * max 0 (seg_end g - iv_end i)"
  have "w g * overlap i g = w g * seg_seconds g - ?l g - ?r g" if g: "g \<in> set M" for g
  proof -
    have "overlap i g = seg_seconds g - max 0 (iv_start i - seg_start g) - max 0 (seg_end g - iv_end i)"
      using assms g by (intro overlap_trims) (auto simp: segs_ok_def)
    then show ?thesis by (simp only: right_diff_distrib)
  qed
  then have "(\<Sum>g\<leftarrow>M. w g * overlap i g) = (\<Sum>g\<leftarrow>M. w g * seg_seconds g - ?l g - ?r g)"
    by (simp cong: map_cong)
  also have "\<dots> = (\<Sum>g\<leftarrow>M. w g * seg_seconds g) - (\<Sum>g\<leftarrow>M. ?l g) - (\<Sum>g\<leftarrow>M. ?r g)"
    by (simp add: sum_list_subtractf)
  also have "(\<Sum>g\<leftarrow>M. ?l g) = ?l (hd M)"
  proof (rule sum_list_only_hd [OF assms(2)])
    show "\<forall>g \<in> set (tl M). ?l g = 0"
      using assms by (cases M) (auto simp: segs_ok_def)
  qed
  also have "(\<Sum>g\<leftarrow>M. ?r g) = ?r (last M)"
  proof (rule sum_list_only_last [OF assms(2)])
    show "\<forall>g \<in> set (butlast M). ?r g = 0"
      using assms by (cases M rule: rev_cases) (auto simp: segs_ok_def sorted_wrt_append max_def)
  qed
  finally show ?thesis .
qed

text \<open>The weighted seconds of a run that measured segments cover.\<close>

definition covered :: "(segment \<Rightarrow> rat) \<Rightarrow> segment list \<Rightarrow> interval \<Rightarrow> rat" where
  "covered w segs i = (\<Sum>g\<leftarrow>segs. w g * overlap i g)"

lemma takeWhile_drop_ends:
  fixes segs :: "segment list" and e :: rat
  assumes "segs_ok segs"
  defines "n \<equiv> length (takeWhile (\<lambda>g. seg_start g < e) segs)"
  shows "\<forall>g \<in> set (drop n segs). e \<le> seg_start g"
    and "sorted (map seg_start segs)" "sorted (map seg_end segs)"
proof -
  have gap: "sorted_wrt (\<lambda>g h. seg_end g \<le> seg_start h) segs"
    and pos: "\<And>g. g \<in> set segs \<Longrightarrow> seg_start g < seg_end g"
    using assms(1) by (simp_all add: segs_ok_def)
  have st: "sorted_wrt (\<lambda>g h. seg_start g \<le> seg_start h) segs"
    by (rule sorted_wrt_mono_rel [OF _ gap]) (meson pos less_imp_le less_le_trans)
  have en: "sorted_wrt (\<lambda>g h. seg_end g \<le> seg_end h) segs"
    by (rule sorted_wrt_mono_rel [OF _ gap]) (meson pos less_imp_le le_less_trans)
  show "sorted (map seg_start segs)" "sorted (map seg_end segs)"
    using st en by (simp_all add: sorted_map)
  have dw: "drop n segs = dropWhile (\<lambda>g. seg_start g < e) segs"
    by (simp add: n_def dropWhile_eq_drop)
  show "\<forall>g \<in> set (drop n segs). e \<le> seg_start g"
  proof (cases "drop n segs")
    case (Cons h hs)
    have "\<not> seg_start h < e" 
      using Cons dw dropWhile_eq_Cons_conv [of "\<lambda>g. seg_start g < e" segs h hs] by metis
    moreover have "sorted_wrt (\<lambda>g h. seg_start g \<le> seg_start h) (h # hs)"
      using sorted_wrt_drop [OF st, of n] Cons by simp
    ultimately show ?thesis by (auto simp: Cons)
  qed simp
qed

lemma bisect_segments:
  assumes "segs_ok segs"
  shows "bisect_right (map seg_end segs) x = length (takeWhile (\<lambda>g. seg_end g \<le> x) segs)"
    and "bisect_left (map seg_start segs) x = length (takeWhile (\<lambda>g. seg_start g < x) segs)"
  using bisect_takeWhile [OF takeWhile_drop_ends(3) [OF assms], of "\<lambda>a. \<not> x < a"]
    bisect_takeWhile [OF takeWhile_drop_ends(2) [OF assms], of "\<lambda>a. a < x"]
  by (simp_all add: bisect_right_def bisect_left_def takeWhile_map o_def not_less)

lemma segs_ok_sub: "segs_ok (xs @ ys @ zs) \<Longrightarrow> segs_ok ys"
  by (auto simp: segs_ok_def sorted_wrt_append)

text \<open>The three parts of the segment list: before, meeting and after the run.\<close>

lemma segments_split:
  fixes segs :: "segment list" and i :: interval and w :: "segment \<Rightarrow> rat"
  assumes "segs_ok segs" "iv_start i < iv_end i"
  defines "m \<equiv> bisect_right (map seg_end segs) (iv_start i)"
    and "n \<equiv> bisect_left (map seg_start segs) (iv_end i)"
  defines "M \<equiv> drop m (take n segs)"
  shows "m \<le> n" "n \<le> length segs" "segs_ok M"
    and "\<forall>g \<in> set M. iv_start i < seg_end g \<and> seg_start g < iv_end i"
    and "covered w segs i = covered w M i"
    and "m < n \<Longrightarrow> M \<noteq> [] \<and> hd M = segs ! m \<and> last M = segs ! (n - 1)"
proof -
  have mt: "m = length (takeWhile (\<lambda>g. seg_end g \<le> iv_start i) segs)"
    and nt: "n = length (takeWhile (\<lambda>g. seg_start g < iv_end i) segs)"
    unfolding m_def n_def by (rule bisect_segments [OF assms(1)])+
  have pre: "takeWhile (\<lambda>g. seg_end g \<le> iv_start i) segs = take m segs"
    and prn: "takeWhile (\<lambda>g. seg_start g < iv_end i) segs = take n segs"
    unfolding mt nt by (rule takeWhile_eq_take)+
  show n: "n \<le> length segs" by (simp add: nt length_takeWhile_le)
  show mn: "m \<le> n"
  proof (rule ccontr)
    assume "\<not> m \<le> n"
    then have lt: "n < m" by simp
    then have "n < length segs" using mt length_takeWhile_le [of _ segs] by (metis order_less_le_trans)
    then have "\<not> seg_start (segs ! n) < iv_end i"
      using nt nth_length_takeWhile [of "\<lambda>g. seg_start g < iv_end i" segs] by simp
    moreover have "seg_end (segs ! n) \<le> iv_start i"
      using lt mt by (metis nth_mem set_takeWhileD takeWhile_nth)
    moreover have "seg_start (segs ! n) < seg_end (segs ! n)"
      using assms(1) \<open>n < length segs\<close> by (simp add: segs_ok_def)
    ultimately show False using assms(2) by simp
  qed
  have parts: "segs = take m segs @ M @ drop n segs"
    using mn by (metis M_def append_assoc append_take_drop_id min.absorb1 take_take)
  show "segs_ok M" using segs_ok_sub assms(1) parts by metis
  have late: "\<forall>g \<in> set (drop n segs). iv_end i \<le> seg_start g"
    using takeWhile_drop_ends(1) [OF assms(1), of "iv_end i"] by (simp add: nt)
  have early: "\<forall>g \<in> set (take m segs). seg_end g \<le> iv_start i"
    using pre set_takeWhileD by metis
  have ends: "\<forall>g \<in> set (drop m segs). iv_start i < seg_end g"
  proof (cases "drop m segs")
    case (Cons h hs)
    have "drop m segs = dropWhile (\<lambda>g. seg_end g \<le> iv_start i) segs"
      by (simp add: mt dropWhile_eq_drop)
    then have "\<not> seg_end h \<le> iv_start i"
      using Cons dropWhile_eq_Cons_conv [of "\<lambda>g. seg_end g \<le> iv_start i" segs h hs] by metis
    moreover have "sorted_wrt (\<lambda>g h. seg_end g \<le> seg_end h) (h # hs)"
      using takeWhile_drop_ends(3) [OF assms(1)] sorted_wrt_drop [of _ segs m] Cons
      by (metis sorted_map)
    ultimately show ?thesis by (auto simp: Cons)
  qed simp
  have "set M \<subseteq> set (drop m segs)" by (metis M_def drop_take set_take_subset)
  moreover have "\<forall>g \<in> set (take n segs). seg_start g < iv_end i"
    using prn set_takeWhileD by metis
  moreover have "set M \<subseteq> set (take n segs)" by (simp add: M_def set_drop_subset)
  ultimately show "\<forall>g \<in> set M. iv_start i < seg_end g \<and> seg_start g < iv_end i"
    using ends by blast
  have "overlap i g = 0" if "g \<in> set (take m segs) \<union> set (drop n segs)" for g
    using that early late by (auto simp: overlap_def max_def min_def)
  moreover have "covered w xs i = 0" if "\<forall>g \<in> set xs. overlap i g = 0" for xs
    using that by (induction xs) (simp_all add: covered_def)
  ultimately have "covered w (take m segs) i = 0" "covered w (drop n segs) i = 0" by simp_all
  then show "covered w segs i = covered w M i"
    using parts unfolding covered_def by (metis (no_types, lifting) add.right_neutral add_0 map_append sum_list_append)
  show "M \<noteq> [] \<and> hd M = segs ! m \<and> last M = segs ! (n - 1)" if "m < n"
    using that n by (simp add: M_def hd_drop_conv_nth last_conv_nth)
qed

section \<open>The classification is the direct sum\<close>

lemma prefix_difference:
  assumes "segs_ok segs" "iv_start i < iv_end i"
    and "m = bisect_right (map seg_end segs) (iv_start i)"
    and "n = bisect_left (map seg_start segs) (iv_end i)" "m < n"
  shows "prefix_sums 0 (\<lambda>g. w g * seg_seconds g) segs ! n - prefix_sums 0 (\<lambda>g. w g * seg_seconds g) segs ! m
      - w (segs ! m) * max 0 (iv_start i - seg_start (segs ! m))
      - w (segs ! (n - 1)) * max 0 (seg_end (segs ! (n - 1)) - iv_end i) = covered w segs i"
proof -
  let ?M = "drop m (take n segs)"
  note sp = segments_split [OF assms(1,2), folded assms(3,4)]
  have M: "?M \<noteq> []" "hd ?M = segs ! m" "last ?M = segs ! (n - 1)" using sp(6) assms(5) by auto
  have "covered w segs i = covered w ?M i" by (rule sp(5))
  also have "\<dots> = (\<Sum>g\<leftarrow>?M. w g * seg_seconds g)
      - w (segs ! m) * max 0 (iv_start i - seg_start (segs ! m))
      - w (segs ! (n - 1)) * max 0 (seg_end (segs ! (n - 1)) - iv_end i)"
    using overlap_middle [OF sp(3) M(1) assms(2) sp(4), of w] M(2,3) by (simp add: covered_def)
  finally show ?thesis
    using prefix_sums_diff [of m n segs "\<lambda>g. w g * seg_seconds g"] sp(1,2) by simp
qed

lemma covered_nonneg: "(\<And>g. 0 \<le> w g) \<Longrightarrow> 0 \<le> covered w segs i"
  unfolding covered_def by (intro sum_list_nonneg) (auto simp: overlap_def)

definition measured :: "segment \<Rightarrow> rat" where "measured g = 1"
definition idle_weight :: "segment \<Rightarrow> rat" where "idle_weight g = (if seg_idle g then 1 else 0)"

lemma classify_one_correct:
  assumes "segs_ok segs" "iv_start i < iv_end i" "iv_sampled_seconds i = 0" "iv_idle_seconds i = 0"
  shows "classify_one segs i =
    i\<lparr>iv_sampled_seconds := covered measured segs i, iv_idle_seconds := covered idle_weight segs i\<rparr>"
proof -
  define m where "m = bisect_right (map seg_end segs) (iv_start i)"
  define n where "n = bisect_left (map seg_start segs) (iv_end i)"
  note sp = segments_split [OF assms(1,2), folded m_def n_def]
  show ?thesis
  proof (cases "m < n")
    case False
    then have "drop m (take n segs) = []" by simp
    then have "covered w segs i = 0" for w using sp(5) [of w] by (simp add: covered_def)
    then show ?thesis
      using False assms(3,4) by (simp add: classify_one_def m_def [symmetric] n_def [symmetric])
  next
    case True
    note pd = prefix_difference [OF assms(1,2) m_def n_def True]
    have w: "(\<lambda>g. measured g * seg_seconds g) = seg_seconds"
      "(\<lambda>g. idle_weight g * seg_seconds g) = (\<lambda>g. if seg_idle g then seg_seconds g else 0)"
      by (auto simp: measured_def idle_weight_def)
    have c: "0 \<le> covered measured segs i" "0 \<le> covered idle_weight segs i"
      by (intro covered_nonneg, simp add: measured_def idle_weight_def)+
    let ?I = "prefix_sums 0 (\<lambda>g. if seg_idle g then seg_seconds g else 0) segs"
    let ?lt = "max 0 (iv_start i - seg_start (segs ! m))"
    let ?rt = "max 0 (seg_end (segs ! (n - 1)) - iv_end i)"
    let ?x = "if seg_idle (segs ! m) then ?I ! n - ?I ! m - ?lt else ?I ! n - ?I ! m"
    have sampled: "prefix_sums 0 seg_seconds segs ! n - prefix_sums 0 seg_seconds segs ! m
        - (?lt + ?rt) = covered measured segs i"
      using pd [of measured, unfolded w] by (simp add: measured_def)
    have idle: "(if seg_idle (segs ! (n - 1)) then ?x - ?rt else ?x) = covered idle_weight segs i"
      unfolding pd [of idle_weight, unfolded w, symmetric]
      by (cases "seg_idle (segs ! m)"; cases "seg_idle (segs ! (n - 1))") (simp_all add: idle_weight_def)
    show ?thesis
      unfolding classify_one_def Let_def m_def [symmetric] n_def [symmetric] sampled idle
      using True c by simp
  qed
qed

lemma classify_samples_sorted:
  "sorted (map fst (sort_key (\<lambda>(t, c). (t :: rat, c = Some True)) points))"
proof -
  have "sorted_wrt (\<lambda>a b. (fst a, snd a = Some True) \<le> (fst b, snd b = Some True))
      (sort_key (\<lambda>(t, c). (t, c = Some True)) points)"
    using sorted_sort_key [of "\<lambda>(t, c). (t, c = Some True)" points]
    by (simp add: sorted_map split_beta)
  then have "sorted_wrt (\<lambda>a b. fst a \<le> fst b) (sort_key (\<lambda>(t, c). (t, c = Some True)) points)"
    by (rule sorted_wrt_mono_rel [rotated]) (auto simp: less_eq_prod_def)
  then show ?thesis by (simp add: sorted_map)
qed

text \<open>What a sorted list of samples measures.\<close>

definition measured_segments :: "(rat \<times> bool option) list \<Rightarrow> segment list" where
  "measured_segments points = segments (sort_key (\<lambda>(t, c). (t, c = Some True)) points)"

lemma measured_segments_ok: "segs_ok (measured_segments points)"
  unfolding measured_segments_def by (intro segments_ok classify_samples_sorted)

lemma measured_segments_short: "length points < 2 \<Longrightarrow> measured_segments points = []"
proof -
  assume "length points < 2"
  then consider "points = []" | x where "points = [x]"
    by (cases points; cases "tl points") auto
  then show ?thesis by cases (auto simp: measured_segments_def)
qed

lemma classify_sum:
  assumes "\<forall>i \<in> set is. iv_start i < iv_end i \<and> iv_sampled_seconds i = 0 \<and> iv_idle_seconds i = 0"
    and "classify is points = Inr js"
  shows "js = map (\<lambda>i. i\<lparr>iv_sampled_seconds := covered measured (measured_segments points) i,
                        iv_idle_seconds := covered idle_weight (measured_segments points) i\<rparr>) is"
proof (cases "length points < 2 \<or> is = []")
  case True
  have "i\<lparr>iv_sampled_seconds := 0, iv_idle_seconds := 0\<rparr> = i" if "i \<in> set is" for i
    using assms(1) that by (cases i) auto
  then show ?thesis
    using assms(2) True measured_segments_short
    by (auto simp: classify_def covered_def map_idI split: if_splits)
next
  case False
  then have "js = map (classify_one (measured_segments points)) is"
    using assms(2) by (auto simp: classify_def measured_segments_def Let_def split: if_splits)
  then show ?thesis
    using assms(1) classify_one_correct [OF measured_segments_ok] by simp
qed

text \<open>For freshly merged runs, whatever the order the samples arrive in, the prefix sums and
  binary searches give exactly the seconds of the run that measured segments cover, and of
  those the seconds the device was idle. The one exception is an error: two samples with the
  same timestamp of which only one carries a utilization.\<close>

lemma classify_direct_sum:
  assumes "\<forall>i \<in> set is. iv_start i < iv_end i \<and> iv_sampled_seconds i = 0 \<and> iv_idle_seconds i = 0"
    and "classify is points = Inr js"
  shows "js = map (\<lambda>i. i\<lparr>iv_sampled_seconds := covered measured (measured_segments points) i,
                        iv_idle_seconds := covered idle_weight (measured_segments points) i\<rparr>) is"
  by (rule classify_sum [OF assms])

definition example_run :: interval where
  "example_run = \<lparr>iv_start = 0, iv_end = 30, iv_owner = Some ''ada'', iv_kind = ''process'',
     iv_sampled_seconds = 0, iv_idle_seconds = 0\<rparr>"

lemma classify_direct_sum_witness:
  "\<exists>js. classify [example_run] [(20, Some False), (0, Some True), (40, None)] = Inr js
    \<and> map iv_sampled_seconds js = [covered measured
        (measured_segments [(20, Some False), (0, Some True), (40, None)]) example_run]"
proof -
  let ?points = "[(20, Some False), (0, Some True), (40, None)]"
  have fresh: "\<forall>i \<in> set [example_run]. iv_start i < iv_end i \<and> iv_sampled_seconds i = 0
      \<and> iv_idle_seconds i = 0"
    by (simp add: example_run_def)
  have "case classify [example_run] ?points of Inr _ \<Rightarrow> True | Inl _ \<Rightarrow> False" by code_simp
  then obtain js where js: "classify [example_run] ?points = Inr js"
    by (cases "classify [example_run] ?points") simp_all
  from classify_direct_sum [OF fresh js] js show ?thesis by simp
qed

text \<open>Two samples in the same second, one without a utilization: the sort raises, whatever the
  comment above it says about duplicates.\<close>

lemma classify_duplicate_timestamp_raises:
  "case classify [example_run] [(0, None), (0, Some True)] of Inl e \<Rightarrow> e = TypeError | Inr _ \<Rightarrow> False"
  by code_simp

section \<open>Aggregation\<close>

type_synonym gpu_key = "string \<times> string"

record owner_usage =
  ow_gpu_seconds :: rat
  ow_sampled_seconds :: rat
  ow_idle_seconds :: rat
  ow_processes :: int
  ow_hosts :: "string list"
  ow_gpus :: "gpu_key list"
  ow_kinds :: "(string, int) dict"

definition new_usage :: owner_usage where
  "new_usage = \<lparr>ow_gpu_seconds = 0, ow_sampled_seconds = 0, ow_idle_seconds = 0,
     ow_processes = 0, ow_hosts = [], ow_gpus = [], ow_kinds = []\<rparr>"

text \<open>The accumulators of the loop; \<open>ua_sink\<close> lists the calls of \<open>interval_sink\<close>.\<close>

record usage_acc =
  ua_dropped :: int
  ua_partial :: int
  ua_earliest :: "rat option"
  ua_owners :: "(string option, owner_usage) dict"
  ua_sink :: "(string option \<times> interval list) list"

text \<open>The caller's data and options; without a classifier the runs are classified against the
  device's own samples.\<close>

record usage_query =
  uq_now :: moment
  uq_window_hours :: int
  uq_owner_limit :: nat
  uq_busy_pct :: rat
  uq_events :: "(gpu_key, gpu_process_transition list) dict"
  uq_active :: "(gpu_key, (process_key, gpu_process) dict) dict"
  uq_utilization :: "(gpu_key, (string \<times> rat option) list) dict"
  uq_event_cap :: "nat option"
  uq_observed_until :: "(gpu_key, string) dict option"
  uq_classifier :: "(interval list \<Rightarrow> gpu_key \<Rightarrow> interval list) option"
  uq_resolution :: string

definition now_epoch :: "usage_query \<Rightarrow> rat" where
  "now_epoch q = of_int (uq_now q) / 1000000"

definition window_start :: "usage_query \<Rightarrow> rat" where
  "window_start q = now_epoch q - of_int (uq_window_hours q) * 3600"

fun utilization_points :: "rat \<Rightarrow> (string \<times> rat option) list \<Rightarrow> (rat \<times> bool option) list" where
  "utilization_points busy [] = []"
| "utilization_points busy ((observed_at, utilization) # rest) =
    (case epoch_seconds observed_at of
       None \<Rightarrow> utilization_points busy rest
     | Some t \<Rightarrow> (t, map_option (\<lambda>u. u < busy) utilization) # utilization_points busy rest)"

definition min_opt :: "rat option \<Rightarrow> rat option \<Rightarrow> rat option" where
  "min_opt a b = (case (a, b) of (Some x, Some y) \<Rightarrow> Some (min x y) | (None, _) \<Rightarrow> b | _ \<Rightarrow> a)"

definition count_interval :: "gpu_key \<Rightarrow> interval \<Rightarrow> owner_usage \<Rightarrow> owner_usage" where
  "count_interval key i u =
    u\<lparr>ow_processes := ow_processes u + 1,
      ow_hosts := List.insert (fst key) (ow_hosts u),
      ow_gpus := List.insert key (ow_gpus u),
      ow_kinds := dset (ow_kinds u) (iv_kind i) (dget_or 0 (ow_kinds u) (iv_kind i) + 1)\<rparr>"

text \<open>The loop over the intervals of one device: the owners' counters, and \<open>by_owner\<close>.\<close>

definition attribute ::
  "gpu_key \<Rightarrow> interval \<Rightarrow> (string option, owner_usage) dict \<times> (string option, interval list) dict \<Rightarrow>
   (string option, owner_usage) dict \<times> (string option, interval list) dict" where
  "attribute key i acc =
    (let (owners, by_owner) = acc in
     (dset owners (iv_owner i) (count_interval key i (dget_or new_usage owners (iv_owner i))),
      dappend by_owner (iv_owner i) i))"

definition add_runs :: "interval list \<Rightarrow> owner_usage \<Rightarrow> owner_usage" where
  "add_runs runs u =
    u\<lparr>ow_gpu_seconds := ow_gpu_seconds u + total_seconds runs,
      ow_sampled_seconds := ow_sampled_seconds u + sum_list (map iv_sampled_seconds runs),
      ow_idle_seconds := ow_idle_seconds u + sum_list (map iv_idle_seconds runs)\<rparr>"

fun account_owners ::
  "(interval list \<Rightarrow> usage_error + interval list) \<Rightarrow> (string option \<times> interval list) list \<Rightarrow>
   usage_acc \<Rightarrow> usage_error + usage_acc" where
  "account_owners classified [] ua = Inr ua"
| "account_owners classified ((owner, runs) # rest) ua =
    (case classified (merge_intervals runs) of
       Inl e \<Rightarrow> Inl e
     | Inr merged \<Rightarrow> account_owners classified rest
         (ua\<lparr>ua_owners := dset (ua_owners ua) owner
               (add_runs merged (dget_or new_usage (ua_owners ua) owner)),
             ua_sink := ua_sink ua @ [(owner, merged)]\<rparr>))"

definition usage_gpu :: "usage_query \<Rightarrow> gpu_key \<Rightarrow> usage_acc \<Rightarrow> usage_error + usage_acc" where
  "usage_gpu q key ua =
    (let events = dget_or [] (uq_events q) key;
         observed_until =
           (case uq_observed_until q of None \<Rightarrow> None | Some d \<Rightarrow> Option.bind (dget d key) epoch_seconds);
         (intervals, dropped, earliest) =
           pair_intervals events (dsub (uq_active q) key) (window_start q) (now_epoch q) observed_until;
         ua = ua\<lparr>ua_dropped := ua_dropped ua + dropped,
                ua_earliest := min_opt (ua_earliest ua) earliest,
                ua_partial := ua_partial ua +
                  (case uq_event_cap q of
                     None \<Rightarrow> 0
                   | Some cap \<Rightarrow>
                       if cap \<le> length events
                          \<and> (case earliest of None \<Rightarrow> True | Some t \<Rightarrow> window_start q < t)
                       then 1 else 0)\<rparr>
     in if intervals = [] then Inr ua
        else
          (let points = utilization_points (uq_busy_pct q) (dget_or [] (uq_utilization q) key);
               ua = (case points of
                   [] \<Rightarrow> ua
                 | (t, _) # _ \<Rightarrow>
                     (case ua_earliest ua of
                        None \<Rightarrow> ua\<lparr>ua_earliest := Some t\<rparr>
                      | Some e \<Rightarrow> if t < e then ua\<lparr>ua_earliest := Some t\<rparr> else ua));
               (owners, by_owner) = fold (attribute key) intervals (ua_owners ua, []);
               classified = (case uq_classifier q of
                   None \<Rightarrow> (\<lambda>merged. classify merged points)
                 | Some f \<Rightarrow> (\<lambda>merged. Inr (f merged key)))
           in account_owners classified by_owner (ua\<lparr>ua_owners := owners\<rparr>)))"

fun usage_gpus :: "usage_query \<Rightarrow> gpu_key list \<Rightarrow> usage_acc \<Rightarrow> usage_error + usage_acc" where
  "usage_gpus q [] ua = Inr ua"
| "usage_gpus q (key # rest) ua =
    (case usage_gpu q key ua of Inl e \<Rightarrow> Inl e | Inr ua' \<Rightarrow> usage_gpus q rest ua')"

record usage_row =
  ur_owner :: "string option"
  ur_gpu_seconds :: rat
  ur_sampled_seconds :: rat
  ur_idle_seconds :: rat
  ur_idle_share :: "rat option"
  ur_hosts :: "string list"
  ur_gpus :: nat
  ur_processes :: int
  ur_kinds :: "(string, int) dict"

record usage_report =
  us_generated_at :: string
  us_since_at :: string
  us_window_hours :: int
  us_gpu_busy_pct :: rat
  us_resolution :: string
  us_owners :: "usage_row list"
  us_total_owners :: nat
  us_total_gpu_seconds :: rat
  us_earliest_data_at :: "string option"
  us_dropped_records :: int
  us_partial_gpus :: int

definition owner_rank :: "string option \<times> owner_usage \<Rightarrow> rat \<times> bool \<times> string" where
  "owner_rank ou = (- ow_gpu_seconds (snd ou), fst ou = None, case fst ou of None \<Rightarrow> [] | Some s \<Rightarrow> s)"

definition owner_row :: "string option \<times> owner_usage \<Rightarrow> usage_row" where
  "owner_row ou =
    (let u = snd ou in
     \<lparr>ur_owner = fst ou,
      ur_gpu_seconds = round_to 1 (ow_gpu_seconds u),
      ur_sampled_seconds = round_to 1 (ow_sampled_seconds u),
      ur_idle_seconds = round_to 1 (ow_idle_seconds u),
      ur_idle_share = (if 0 < ow_sampled_seconds u
        then Some (round_to 4 (ow_idle_seconds u / ow_sampled_seconds u)) else None),
      ur_hosts = sort (ow_hosts u), ur_gpus = length (ow_gpus u), ur_processes = ow_processes u,
      ur_kinds = sort_key fst (ow_kinds u)\<rparr>)"

definition ranked_owners :: "usage_acc \<Rightarrow> (string option \<times> owner_usage) list" where
  "ranked_owners ua = sort_key owner_rank (ua_owners ua)"

definition aggregate_usage ::
  "usage_query \<Rightarrow> usage_error + (usage_report \<times> (string option \<times> interval list) list)" where
  "aggregate_usage q =
    (case usage_gpus q (sorted_set (keys (uq_events q) @ keys (uq_active q)))
        \<lparr>ua_dropped = 0, ua_partial = 0, ua_earliest = None, ua_owners = [], ua_sink = []\<rparr> of
       Inl e \<Rightarrow> Inl e
     | Inr ua \<Rightarrow> Inr
        (\<lparr>us_generated_at = iso_z (uq_now q),
          us_since_at = iso_z (uq_now q - uq_window_hours q * 3600000000),
          us_window_hours = uq_window_hours q,
          us_gpu_busy_pct = uq_busy_pct q,
          us_resolution = uq_resolution q,
          us_owners = map owner_row (take (uq_owner_limit q) (ranked_owners ua)),
          us_total_owners = length (ua_owners ua),
          us_total_gpu_seconds = round_to 1 (sum_list (map (ow_gpu_seconds \<circ> snd) (ua_owners ua))),
          us_earliest_data_at = map_option (\<lambda>t. iso_z (py_round (t * 1000000))) (ua_earliest ua),
          us_dropped_records = ua_dropped ua,
          us_partial_gpus = ua_partial ua\<rparr>, ua_sink ua))"

section \<open>Bounds on the totals\<close>

lemma covered_le_span:
  assumes "segs_ok segs" "\<forall>g \<in> set segs. a \<le> seg_start g" "\<And>g. 0 \<le> w g \<and> w g \<le> 1"
  shows "covered w segs i \<le> max 0 (iv_end i - max (iv_start i) a)"
  using assms(1,2)
proof (induction segs arbitrary: a)
  case (Cons g segs)
  have ok: "segs_ok segs" and next_: "\<forall>h \<in> set segs. seg_end g \<le> seg_start h"
    and pos: "seg_start g < seg_end g" and a: "a \<le> seg_start g"
    using Cons.prems by (simp_all add: segs_ok_def)
  have "w g * overlap i g \<le> overlap i g"
    using assms(3) [of g] by (simp add: mult_left_le_one_le overlap_def)
  moreover have "overlap i g + max 0 (iv_end i - max (iv_start i) (seg_end g))
      \<le> max 0 (iv_end i - max (iv_start i) a)"
    using pos a by (auto simp: overlap_def max_def min_def)
  ultimately show ?case using Cons.IH [OF ok next_] by (simp add: covered_def)
qed (simp add: covered_def)

lemma covered_le:
  assumes "segs_ok segs" "iv_start i < iv_end i" "\<And>g. 0 \<le> w g \<and> w g \<le> 1"
  shows "covered w segs i \<le> iv_end i - iv_start i"
proof (cases segs)
  case Nil
  then show ?thesis using assms(2) by (simp add: covered_def)
next
  case (Cons g gs)
  have "\<forall>h \<in> set segs. seg_start g \<le> seg_start h"
    using assms(1) by (force simp: Cons segs_ok_def)
  from covered_le_span [where i = i and w = w, OF assms(1) this assms(3)] assms(2) show ?thesis
    by (simp add: max_def split: if_splits)
qed

lemma covered_mono:
  assumes "\<And>g. v g \<le> w g"
  shows "covered v segs i \<le> covered w segs i"
  unfolding covered_def
proof (rule sum_list_mono)
  fix g
  show "v g * overlap i g \<le> w g * overlap i g"
    using assms [of g] by (intro mult_right_mono) (simp_all add: overlap_def)
qed

text \<open>What a classified run satisfies.\<close>

definition run_sound :: "interval \<Rightarrow> bool" where
  "run_sound i \<longleftrightarrow> 0 \<le> iv_idle_seconds i \<and> iv_idle_seconds i \<le> iv_sampled_seconds i
    \<and> iv_sampled_seconds i \<le> iv_end i - iv_start i"

lemma merged_fresh:
  "i \<in> set (merge_onto cur is) \<Longrightarrow> iv_sampled_seconds cur = 0 \<and> iv_idle_seconds cur = 0 \<Longrightarrow>
    iv_sampled_seconds i = 0 \<and> iv_idle_seconds i = 0"
  by (induction cur "is" rule: merge_onto.induct) (auto split: if_splits)

lemma merge_intervals_fresh:
  "i \<in> set (merge_intervals is) \<Longrightarrow> iv_sampled_seconds i = 0 \<and> iv_idle_seconds i = 0"
  using merged_fresh by (fastforce simp: merge_intervals_def split: list.splits)

lemma classify_bounds:
  assumes "\<forall>i \<in> set is. iv_start i < iv_end i"
    and "classify (merge_intervals is) points = Inr js"
  shows "\<forall>j \<in> set js. run_sound j" "total_seconds js = total_seconds (merge_intervals is)"
proof -
  have fresh: "\<forall>i \<in> set (merge_intervals is). iv_start i < iv_end i \<and> iv_sampled_seconds i = 0
      \<and> iv_idle_seconds i = 0"
    using merge_union [OF assms(1)] merge_intervals_fresh by blast
  note js = classify_sum [OF fresh assms(2)]
  have w: "0 \<le> measured g \<and> measured g \<le> 1" "0 \<le> idle_weight g \<and> idle_weight g \<le> 1"
    "idle_weight g \<le> measured g" for g
    by (simp_all add: measured_def idle_weight_def)
  show "\<forall>j \<in> set js. run_sound j"
    using fresh covered_le [OF measured_segments_ok _ w(1)] covered_mono [OF w(3)]
      covered_nonneg [of idle_weight] w(2)
    by (auto simp: js run_sound_def)
  show "total_seconds js = total_seconds (merge_intervals is)"
    by (simp add: js total_seconds_def o_def)
qed

lemma separated_total:
  assumes "separated is" "\<forall>i \<in> set is. a \<le> iv_start i \<and> iv_start i < iv_end i \<and> iv_end i \<le> b" "a \<le> b"
  shows "total_seconds is \<le> b - a"
  using assms
proof (induction "is" arbitrary: a)
  case (Cons i "is")
  have "total_seconds is \<le> b - iv_end i"
    using Cons.prems by (intro Cons.IH) (auto simp: separated_def)
  then show ?case using Cons.prems by simp
qed simp

lemma merge_within:
  assumes "\<forall>i \<in> set is. a \<le> iv_start i \<and> iv_start i < iv_end i \<and> iv_end i \<le> b"
  shows "\<forall>i \<in> set (merge_intervals is). a \<le> iv_start i \<and> iv_start i < iv_end i \<and> iv_end i \<le> b"
proof (cases "sort_key (\<lambda>i. (iv_start i, iv_end i)) is")
  case Nil
  then show ?thesis by (simp add: merge_intervals_def)
next
  case (Cons i js)
  let ?i = "i\<lparr>iv_sampled_seconds := 0, iv_idle_seconds := 0\<rparr>"
  have mem: "set is = set (i # js)" by (metis Cons set_sort)
  have "sorted (map iv_start (?i # js))" using sorted_merge_key [of "is"] Cons by simp
  moreover have "\<forall>j \<in> set (?i # js). iv_start j < iv_end j" using assms mem by simp
  ultimately have m: "(\<forall>j \<in> set (merge_onto ?i js). iv_start ?i \<le> iv_start j \<and> iv_start j < iv_end j)
    \<and> (\<forall>k \<in> set (merge_onto ?i js). \<exists>j \<in> set (?i # js). iv_end k = iv_end j)"
    using merge_onto_correct [of ?i js] by blast
  have "merge_intervals is = merge_onto ?i js" by (simp add: merge_intervals_def Cons)
  moreover have "a \<le> iv_start i" "\<forall>j \<in> set (?i # js). iv_end j \<le> b" using assms mem by simp_all
  ultimately show ?thesis using m by fastforce
qed

text \<open>An owner's counters when the devices of \<open>P\<close> have been accounted, \<open>n\<close> of its own (0 or 1)
  still missing.\<close>

definition owner_ok :: "rat \<Rightarrow> rat \<Rightarrow> gpu_key set \<Rightarrow> owner_usage \<Rightarrow> bool" where
  "owner_ok W n P u \<longleftrightarrow>
    0 \<le> ow_idle_seconds u \<and> ow_idle_seconds u \<le> ow_sampled_seconds u
    \<and> ow_sampled_seconds u \<le> ow_gpu_seconds u
    \<and> ow_gpu_seconds u \<le> (of_nat (length (ow_gpus u)) - n) * W
    \<and> set (ow_gpus u) \<subseteq> P"

lemma owner_ok_mono: "owner_ok W n P u \<Longrightarrow> P \<subseteq> Q \<Longrightarrow> owner_ok W n Q u"
  by (auto simp: owner_ok_def)

lemma owner_ok_new: "owner_ok W 0 P new_usage"
  by (simp add: owner_ok_def new_usage_def)

lemma count_interval_sel [simp]:
  "ow_gpu_seconds (count_interval key i u) = ow_gpu_seconds u"
  "ow_sampled_seconds (count_interval key i u) = ow_sampled_seconds u"
  "ow_idle_seconds (count_interval key i u) = ow_idle_seconds u"
  "ow_gpus (count_interval key i u) = List.insert key (ow_gpus u)"
  by (simp_all add: count_interval_def)

lemma count_first: "owner_ok W 0 P u \<Longrightarrow> key \<notin> P \<Longrightarrow> owner_ok W 1 (insert key P) (count_interval key i u)"
proof -
  assume u: "owner_ok W 0 P u" and key: "key \<notin> P"
  then have "List.insert key (ow_gpus u) = key # ow_gpus u"
    by (auto simp: owner_ok_def List.insert_def)
  with u show ?thesis by (auto simp: owner_ok_def)
qed

lemma count_again:
  "owner_ok W 1 (insert key P) u \<Longrightarrow> key \<in> set (ow_gpus u) \<Longrightarrow>
    owner_ok W 1 (insert key P) (count_interval key i u)"
  by (auto simp: owner_ok_def)

lemma add_runs_ok:
  assumes "owner_ok W 1 P u" "\<forall>j \<in> set js. run_sound j" "total_seconds js \<le> W"
  shows "owner_ok W 0 P (add_runs js u)"
proof -
  have "0 \<le> sum_list (map iv_idle_seconds js)"
    using assms(2) by (intro sum_list_nonneg) (auto simp: run_sound_def)
  moreover have "sum_list (map iv_idle_seconds js) \<le> sum_list (map iv_sampled_seconds js)"
    using assms(2) by (intro sum_list_mono) (simp add: run_sound_def)
  moreover have "sum_list (map iv_sampled_seconds js) \<le> total_seconds js"
    using assms(2) unfolding total_seconds_def by (intro sum_list_mono) (simp add: run_sound_def)
  ultimately show ?thesis
    using assms(1,3) by (simp add: owner_ok_def add_runs_def left_diff_distrib)
qed

text \<open>While the device \<open>key\<close> is accounted: the owners still waiting for their runs of it, and
  the others, whose devices are in \<open>Q\<close>.\<close>

definition owners_ok ::
  "rat \<Rightarrow> gpu_key \<Rightarrow> gpu_key set \<Rightarrow> gpu_key set \<Rightarrow> (string option \<Rightarrow> bool) \<Rightarrow>
   (string option, owner_usage) dict \<Rightarrow> bool" where
  "owners_ok W key P Q waiting owners \<longleftrightarrow>
    (\<forall>ow u. dget owners ow = Some u \<longrightarrow>
      (if waiting ow then owner_ok W 1 (insert key P) u \<and> key \<in> set (ow_gpus u)
       else owner_ok W 0 Q u))
    \<and> (\<forall>ow. waiting ow \<longrightarrow> dget owners ow \<noteq> None)"

lemma attribute_ok:
  assumes "owners_ok W key P P (\<lambda>ow. dget by ow \<noteq> None) owners" "key \<notin> P"
    and "wf_dict by" "\<forall>(ow, js) \<in> set by. set js \<subseteq> I" "set is \<subseteq> I"
    and "fold (attribute key) is (owners, by) = (owners', by')"
  shows "owners_ok W key P P (\<lambda>ow. dget by' ow \<noteq> None) owners' \<and> wf_dict by'
    \<and> (\<forall>(ow, js) \<in> set by'. set js \<subseteq> I)"
  using assms
proof (induction "is" arbitrary: owners "by")
  case (Cons i "is")
  let ?o = "iv_owner i"
  let ?owners = "dset owners ?o (count_interval key i (dget_or new_usage owners ?o))"
  let ?by = "dappend by ?o i"
  have look: "dget ?by ow \<noteq> None \<longleftrightarrow> ow = ?o \<or> dget by ow \<noteq> None" for ow
    by (simp add: dappend_def)
  have "if dget by ?o \<noteq> None
    then owner_ok W 1 (insert key P) (dget_or new_usage owners ?o)
      \<and> key \<in> set (ow_gpus (dget_or new_usage owners ?o))
    else owner_ok W 0 P (dget_or new_usage owners ?o)"
    using Cons.prems(1) owner_ok_new by (auto simp: owners_ok_def dget_or_def split: option.split)
  then have new: "owner_ok W 1 (insert key P) (count_interval key i (dget_or new_usage owners ?o))"
    using count_first [OF _ Cons.prems(2)] count_again by (auto split: if_splits)
  have 1: "owners_ok W key P P (\<lambda>ow. dget ?by ow \<noteq> None) ?owners"
    using Cons.prems(1) new unfolding owners_ok_def look by auto
  have 2: "wf_dict ?by" using Cons.prems(3) by (simp add: dappend_def)
  have "set (dget_or [] by ?o) \<subseteq> I"
    using Cons.prems(4) by (cases "dget by ?o") (auto simp: dget_or_def dest!: dget_mem)
  then have 3: "\<forall>(ow, js) \<in> set ?by. set js \<subseteq> I"
    using Cons.prems(4,5) set_dset [of ?o "dget_or [] by ?o @ [i]" "by"]
    unfolding dappend_def by fastforce
  show ?case
    by (rule Cons.IH [OF 1 Cons.prems(2) 2 3])
       (use Cons.prems(5,6) in \<open>simp_all add: attribute_def\<close>)
qed simp

lemma account_ok:
  assumes "owners_ok W key P (insert key P) (\<lambda>ow. ow \<in> fst ` set by) (ua_owners ua)" "wf_dict by"
    and "\<forall>(ow, js) \<in> set by. \<forall>m. f (merge_intervals js) = Inr m \<longrightarrow>
      (\<forall>j \<in> set m. run_sound j) \<and> total_seconds m \<le> W"
    and "account_owners f by ua = Inr ua'"
  shows "owners_ok W key P (insert key P) (\<lambda>_. False) (ua_owners ua')"
  using assms
proof (induction f "by" ua rule: account_owners.induct)
  case (2 f ow js rest ua)
  obtain m where m: "f (merge_intervals js) = Inr m"
    using "2.prems"(4) by (auto split: sum.splits)
  let ?ua = "ua\<lparr>ua_owners := dset (ua_owners ua) ow
        (add_runs m (dget_or new_usage (ua_owners ua) ow)), ua_sink := ua_sink ua @ [(ow, m)]\<rparr>"
  have ow: "ow \<notin> fst ` set rest" and wf: "wf_dict rest" using "2.prems"(2) by simp_all
  obtain u where u: "dget (ua_owners ua) ow = Some u"
    using "2.prems"(1) by (auto simp: owners_ok_def)
  then have "owner_ok W 1 (insert key P) u"
    using "2.prems"(1) by (simp add: owners_ok_def)
  then have "owner_ok W 0 (insert key P) (add_runs m u)"
    using "2.prems"(3) m by (intro add_runs_ok) auto
  then have "owners_ok W key P (insert key P) (\<lambda>x. x \<in> fst ` set rest) (ua_owners ?ua)"
    using "2.prems"(1) ow u by (auto simp: owners_ok_def dget_or_def)
  then show ?case
    using "2.IH" [OF m _ wf] "2.prems"(3,4) m by simp
qed simp

lemma usage_gpu_split:
  assumes "usage_gpu q key ua = Inr ua'"
  obtains (quiet) "ua_owners ua' = ua_owners ua"
  | (runs) intervals until dropped earliest owners' by' points ua1
    where "pair_intervals (dget_or [] (uq_events q) key) (dsub (uq_active q) key) (window_start q)
        (now_epoch q) until = (intervals, dropped, earliest)"
      "fold (attribute key) intervals (ua_owners ua, []) = (owners', by')"
      "account_owners (case uq_classifier q of None \<Rightarrow> (\<lambda>m. classify m points)
         | Some f \<Rightarrow> (\<lambda>m. Inr (f m key))) by' ua1 = Inr ua'"
      "ua_owners ua1 = owners'"
proof -
  define events where "events = dget_or [] (uq_events q) key"
  define until where "until = (case uq_observed_until q of None \<Rightarrow> None
    | Some d \<Rightarrow> Option.bind (dget d key) epoch_seconds)"
  obtain intervals dropped earliest where pair:
    "pair_intervals events (dsub (uq_active q) key) (window_start q) (now_epoch q) until
      = (intervals, dropped, earliest)"
    using prod_cases3 by blast
  define ua0 where "ua0 = ua\<lparr>ua_dropped := ua_dropped ua + dropped,
    ua_earliest := min_opt (ua_earliest ua) earliest,
    ua_partial := ua_partial ua + (case uq_event_cap q of None \<Rightarrow> 0 | Some cap \<Rightarrow>
      if cap \<le> length events \<and> (case earliest of None \<Rightarrow> True | Some t \<Rightarrow> window_start q < t)
      then 1 else 0)\<rparr>"
  have ua0: "ua_owners ua0 = ua_owners ua" by (simp add: ua0_def)
  define points where "points = utilization_points (uq_busy_pct q) (dget_or [] (uq_utilization q) key)"
  define ua1 where "ua1 = (case points of [] \<Rightarrow> ua0 | (t, _) # _ \<Rightarrow>
    (case ua_earliest ua0 of None \<Rightarrow> ua0\<lparr>ua_earliest := Some t\<rparr>
     | Some e \<Rightarrow> if t < e then ua0\<lparr>ua_earliest := Some t\<rparr> else ua0))"
  have ua1: "ua_owners ua1 = ua_owners ua"
    by (simp add: ua1_def ua0 split: list.split prod.split option.split)
  obtain owners' by' where att: "fold (attribute key) intervals (ua_owners ua, []) = (owners', by')"
    by fastforce
  have run: "usage_gpu q key ua = (if intervals = [] then Inr ua0 else
    account_owners (case uq_classifier q of None \<Rightarrow> (\<lambda>m. classify m points)
      | Some f \<Rightarrow> (\<lambda>m. Inr (f m key))) by' (ua1\<lparr>ua_owners := owners'\<rparr>))"
    unfolding usage_gpu_def Let_def events_def [symmetric] until_def [symmetric] pair prod.case
      ua0_def [symmetric] points_def [symmetric] ua1_def [symmetric] ua1 att ..
  show thesis
  proof (cases "intervals = []")
    case True
    with quiet assms run ua0 show thesis by auto
  next
    case False
    with runs [OF pair [unfolded events_def] att] assms run show thesis by simp
  qed
qed

lemma usage_gpu_ok:
  assumes "\<forall>ow u. dget (ua_owners ua) ow = Some u \<longrightarrow> owner_ok W 0 P u" "key \<notin> P"
    and W: "W = of_int (uq_window_hours q) * 3600" "0 \<le> uq_window_hours q"
    and "uq_classifier q = None" "usage_gpu q key ua = Inr ua'"
  shows "\<forall>ow u. dget (ua_owners ua') ow = Some u \<longrightarrow> owner_ok W 0 (insert key P) u"
  using assms(6)
proof (cases rule: usage_gpu_split)
  case quiet
  then show ?thesis using assms(1) owner_ok_mono by (metis subset_insertI)
next
  case (runs intervals until dropped earliest owners' by' points ua1)
  note pair = runs(1) and att = runs(2) and owners1 = runs(4)
  have acc: "account_owners (\<lambda>merged. classify merged points) by' ua1 = Inr ua'"
    using runs(3) assms(5) by simp
  have window: "window_start q \<le> now_epoch q" "now_epoch q - window_start q = W"
    using W by (simp_all add: window_start_def)
  have within: "\<forall>i \<in> set intervals. window_start q \<le> iv_start i \<and> iv_start i < iv_end i
      \<and> iv_end i \<le> now_epoch q"
    using pair_bounded [OF pair] by blast
  have "owners_ok W key P P (\<lambda>ow. dget [] ow \<noteq> None) (ua_owners ua)"
    using assms(1) by (simp add: owners_ok_def)
  from attribute_ok [OF this assms(2) _ _ subset_refl att]
  have a: "owners_ok W key P P (\<lambda>ow. dget by' ow \<noteq> None) owners'" "wf_dict by'"
    "\<forall>(ow, js) \<in> set by'. set js \<subseteq> set intervals" by simp_all
  have "owners_ok W key P (insert key P) (\<lambda>ow. ow \<in> fst ` set by') (ua_owners ua1)"
    unfolding owners_ok_def
  proof (intro conjI allI impI)
    fix ow u assume u: "dget (ua_owners ua1) ow = Some u"
    show "if ow \<in> fst ` set by' then owner_ok W 1 (insert key P) u \<and> key \<in> set (ow_gpus u)
      else owner_ok W 0 (insert key P) u"
      using a(1) u owner_ok_mono [OF _ subset_insertI, of W 0 P u key]
      by (auto simp: owners_ok_def owners1 dget_None_iff)
  qed (use a(1) in \<open>simp add: owners_ok_def owners1 dget_None_iff\<close>)
  moreover have "\<forall>(ow, js) \<in> set by'. \<forall>m. classify (merge_intervals js) points = Inr m \<longrightarrow>
    (\<forall>j \<in> set m. run_sound j) \<and> total_seconds m \<le> W"
  proof (intro ballI allI impI, clarify)
    fix ow js m
    assume js: "(ow, js) \<in> set by'" and m: "classify (merge_intervals js) points = Inr m"
    then have sub: "\<forall>i \<in> set js. window_start q \<le> iv_start i \<and> iv_start i < iv_end i
        \<and> iv_end i \<le> now_epoch q" using a(3) within by fastforce
    then have pos: "\<forall>i \<in> set js. iv_start i < iv_end i" by blast
    have "separated (merge_intervals js)" using merge_union [OF pos] by blast
    from separated_total [OF this merge_within [OF sub] window(1)]
    show "(\<forall>j \<in> set m. run_sound j) \<and> total_seconds m \<le> W"
      using classify_bounds [OF pos m] window(2) by simp
  qed
  ultimately have "owners_ok W key P (insert key P) (\<lambda>_. False) (ua_owners ua')"
    using account_ok [OF _ a(2) _ acc] by blast
  then show ?thesis by (simp add: owners_ok_def)
qed

lemma usage_gpus_ok:
  assumes "\<forall>ow u. dget (ua_owners ua) ow = Some u \<longrightarrow> owner_ok W 0 P u"
    and "distinct ks" "set ks \<inter> P = {}"
    and "W = of_int (uq_window_hours q) * 3600" "0 \<le> uq_window_hours q"
    and "uq_classifier q = None" "usage_gpus q ks ua = Inr ua'"
  shows "\<forall>ow u. dget (ua_owners ua') ow = Some u \<longrightarrow> owner_ok W 0 (P \<union> set ks) u"
  using assms
proof (induction ks arbitrary: ua P)
  case (Cons key ks)
  obtain ua1 where 1: "usage_gpu q key ua = Inr ua1" "usage_gpus q ks ua1 = Inr ua'"
    using Cons.prems(7) by (auto split: sum.splits)
  have "key \<notin> P" using Cons.prems(3) by simp
  from usage_gpu_ok [OF Cons.prems(1) this Cons.prems(4-6) 1(1)]
  have "\<forall>ow u. dget (ua_owners ua1) ow = Some u \<longrightarrow> owner_ok W 0 (insert key P) u" .
  from Cons.IH [OF this _ _ Cons.prems(4-6) 1(2)] Cons.prems(2,3) show ?case by auto
qed simp

lemma wf_owners:
  "wf_dict (ua_owners ua) \<Longrightarrow> account_owners f by ua = Inr ua' \<Longrightarrow> wf_dict (ua_owners ua')"
  by (induction f "by" ua rule: account_owners.induct) (auto split: sum.splits)

lemma wf_attribute: "wf_dict (fst acc) \<Longrightarrow> wf_dict (fst (fold (attribute key) is acc))"
proof (induction "is" arbitrary: acc)
  case (Cons i "is")
  have "wf_dict (fst (attribute key i acc))" using Cons.prems by (cases acc) (simp add: attribute_def)
  then show ?case using Cons.IH by simp
qed simp

lemma usage_gpu_wf:
  assumes "wf_dict (ua_owners ua)" "usage_gpu q key ua = Inr ua'"
  shows "wf_dict (ua_owners ua')"
  using assms(2)
proof (cases rule: usage_gpu_split)
  case (runs intervals until dropped earliest owners' by' points ua1)
  have "wf_dict owners'" using wf_attribute [of "(ua_owners ua, [])" key intervals] assms(1) runs(2) by simp
  with wf_owners [OF _ runs(3)] runs(4) show ?thesis by simp
qed (use assms(1) in simp)

lemma usage_gpus_wf:
  "wf_dict (ua_owners ua) \<Longrightarrow> usage_gpus q ks ua = Inr ua' \<Longrightarrow> wf_dict (ua_owners ua')"
  by (induction ks arbitrary: ua) (auto split: sum.splits intro: usage_gpu_wf)

lemma ranked_sorted:
  "sorted_wrt (\<lambda>a b. ow_gpu_seconds (snd b) \<le> ow_gpu_seconds (snd a)) (ranked_owners ua)"
proof -
  have "sorted_wrt (\<lambda>a b. owner_rank a \<le> owner_rank b) (ranked_owners ua)"
    using sorted_sort_key [of owner_rank "ua_owners ua"] by (simp add: ranked_owners_def sorted_map)
  then show ?thesis
    by (rule sorted_wrt_mono_rel [rotated]) (auto simp: owner_rank_def less_eq_prod_def)
qed

text \<open>C19. Classified against the devices' own samples, every owner's row is consistent: idle
  seconds are part of the sampled ones, those part of the occupied ones, and the occupied
  seconds are at most the window times the number of devices the owner used; the owners are
  listed by decreasing occupancy, at most as many as asked for.\<close>

theorem usage_rows_consistent:
  assumes "aggregate_usage q = Inr (report, sunk)" "uq_classifier q = None" "0 \<le> uq_window_hours q"
  shows "(\<forall>row \<in> set (us_owners report).
      0 \<le> ur_idle_seconds row \<and> ur_idle_seconds row \<le> ur_sampled_seconds row
      \<and> ur_sampled_seconds row \<le> ur_gpu_seconds row
      \<and> ur_gpu_seconds row \<le> of_nat (ur_gpus row) * (of_int (uq_window_hours q) * 3600))
    \<and> sorted_wrt (\<lambda>a b. ur_gpu_seconds b \<le> ur_gpu_seconds a) (us_owners report)
    \<and> length (us_owners report) = min (uq_owner_limit q) (us_total_owners report)"
proof -
  define ks where "ks = sorted_set (keys (uq_events q) @ keys (uq_active q))"
  define W where "W = of_int (uq_window_hours q) * (3600 :: rat)"
  define ua0 where "ua0 = \<lparr>ua_dropped = 0, ua_partial = 0, ua_earliest = None, ua_owners = [],
    ua_sink = []\<rparr>"
  obtain ua where run: "usage_gpus q ks ua0 = Inr ua"
    and rows: "us_owners report = map owner_row (take (uq_owner_limit q) (ranked_owners ua))"
    and total: "us_total_owners report = length (ua_owners ua)"
    using assms(1) by (auto simp: aggregate_usage_def ks_def [symmetric] ua0_def [symmetric]
        split: sum.splits)
  have "\<forall>ow u. dget (ua_owners ua0) ow = Some u \<longrightarrow> owner_ok W 0 {} u" by (simp add: ua0_def)
  from usage_gpus_ok [OF this _ _ W_def assms(3,2) run]
  have ok: "\<forall>ow u. dget (ua_owners ua) ow = Some u \<longrightarrow> owner_ok W 0 (set ks) u"
    by (simp add: ks_def)
  have "wf_dict (ua_owners ua)" using usage_gpus_wf [OF _ run] by (simp add: ua0_def)
  then have ok: "owner_ok W 0 (set ks) u" if "(ow, u) \<in> set (ua_owners ua)" for ow u
    using ok wf_dget_mem that by metis
  have row: "0 \<le> ur_idle_seconds (owner_row ou) \<and> ur_idle_seconds (owner_row ou) \<le> ur_sampled_seconds (owner_row ou)
      \<and> ur_sampled_seconds (owner_row ou) \<le> ur_gpu_seconds (owner_row ou)
      \<and> ur_gpu_seconds (owner_row ou) \<le> of_nat (ur_gpus (owner_row ou)) * W"
    if "ou \<in> set (ua_owners ua)" for ou
  proof -
    have u: "owner_ok W 0 (set ks) (snd ou)" using ok [of "fst ou" "snd ou"] that by simp
    have "round_to 1 (of_nat (length (ow_gpus (snd ou))) * W) = of_nat (length (ow_gpus (snd ou))) * W"
      by (rule round_to_fixed [of _ _ "int (length (ow_gpus (snd ou))) * uq_window_hours q * 36000"])
         (simp add: W_def)
    then show ?thesis
      using u round_to_mono [of _ "of_nat (length (ow_gpus (snd ou))) * W" 1]
      by (auto simp: owner_row_def Let_def owner_ok_def intro: round_to_mono round_to_nonneg)
  qed
  have "set (take (uq_owner_limit q) (ranked_owners ua)) \<subseteq> set (ua_owners ua)"
    using set_take_subset by (fastforce simp: ranked_owners_def)
  moreover have "sorted_wrt (\<lambda>a b. ur_gpu_seconds b \<le> ur_gpu_seconds a) (us_owners report)"
    unfolding rows sorted_wrt_map
    by (rule sorted_wrt_mono_rel [OF _ sorted_wrt_take [OF ranked_sorted]])
       (simp add: owner_row_def Let_def round_to_mono)
  ultimately show ?thesis using row unfolding W_def [symmetric]
    by (auto simp: rows total ranked_owners_def)
qed

definition example_query :: usage_query where
  "example_query =
    \<lparr>uq_now = 1767225660000000, uq_window_hours = 1, uq_owner_limit = 5, uq_busy_pct = 10,
     uq_events =
      [((''n1'', ''gpu''),
        [process_transition ''2026-01-01T00:00:10Z'' ''gpu'' 0 ''started'' (example_process 1 ''a'') True,
         process_transition ''2026-01-01T00:00:40Z'' ''gpu'' 0 ''stopped'' (example_process 1 ''a'') True])],
     uq_active = [], uq_utilization = [], uq_event_cap = None, uq_observed_until = None,
     uq_classifier = None, uq_resolution = ''sample''\<rparr>"

theorem usage_rows_consistent_witness:
  "\<exists>report sunk. aggregate_usage example_query = Inr (report, sunk)
    \<and> (\<forall>row \<in> set (us_owners report). ur_sampled_seconds row \<le> ur_gpu_seconds row)
    \<and> length (us_owners report) = min 5 (us_total_owners report)"
proof -
  have "case aggregate_usage example_query of Inr _ \<Rightarrow> True | Inl _ \<Rightarrow> False" by code_simp
  then obtain report sunk where run: "aggregate_usage example_query = Inr (report, sunk)"
    by (cases "aggregate_usage example_query") auto
  have "uq_classifier example_query = None" "0 \<le> uq_window_hours example_query"
    "uq_owner_limit example_query = 5"
    by (simp_all add: example_query_def)
  with usage_rows_consistent [OF run] run show ?thesis by simp
qed

end
