(* ===== verification/Correlation.thy ===== *)
theory Correlation
  imports Config
begin

text \<open>
  Correlating connectivity incidents (\<open>correlation.py\<close>): hosts lost at once, hosts behind one
  configured path, and the composition of both. An incident is the dictionary the snapshot
  lists. Sets of hosts are lists without order; the results sort them. The two walks over the
  topology run on fuel, since a cyclic configuration would keep them going; on a forest, where
  no node has two parents and the root none, the fuel given is enough.
\<close>

section \<open>Actionable connectivity incidents\<close>

record correlation =
  co_key :: string
  co_kind :: string
  co_anchor :: "string option"
  co_hosts :: "string list"
  co_severity :: string
  co_confidence :: string
  co_detail :: string

definition oget_or :: "pyval \<Rightarrow> obj \<Rightarrow> string \<Rightarrow> pyval" where
  "oget_or x d k = dget_or x d k"

definition actionable_item :: "string list \<Rightarrow> obj \<Rightarrow> string option" where
  "actionable_item monitored item =
    (case oget item ''host'' of
       PStr host \<Rightarrow>
         if oget item ''category'' = PStr ''connectivity''
            \<and> \<not> truthy (oget_or (PBool False) item ''silenced'')
            \<and> truthy (oget_or (PBool True) item ''actionable'')
            \<and> host \<in> set monitored
         then Some host else None
     | _ \<Rightarrow> None)"

fun actionable_connectivity :: "obj list \<Rightarrow> string list \<Rightarrow> (string, obj) dict \<Rightarrow> (string, obj) dict" where
  "actionable_connectivity [] monitored acc = acc"
| "actionable_connectivity (item # items) monitored acc =
    actionable_connectivity items monitored
      (case actionable_item monitored item of None \<Rightarrow> acc | Some host \<Rightarrow> dset acc host item)"

section \<open>Simultaneous losses\<close>

definition loss_window :: rat where "loss_window = 120"
definition loss_min_hosts :: nat where "loss_min_hosts = 3"
definition loss_min_share :: rat where "loss_min_share = 1 / 2"

fun losses_of :: "(string, obj) dict \<Rightarrow> (rat \<times> string) list" where
  "losses_of [] = []"
| "losses_of ((host, item) # rest) =
    (case Option.bind (as_text (oget item ''firstObservedAt'')) epoch_seconds of
       None \<Rightarrow> losses_of rest
     | Some epoch \<Rightarrow> (epoch, host) # losses_of rest)"

text \<open>The members of the window that opens with the first loss of the list.\<close>

definition window_group :: "rat \<Rightarrow> (rat \<times> string) list \<Rightarrow> string list" where
  "window_group epoch losses =
    map snd (filter (\<lambda>l. fst l - epoch \<le> loss_window) losses)"

fun densest :: "(rat \<times> string) list \<Rightarrow> string list \<Rightarrow> string list" where
  "densest [] best = best"
| "densest ((epoch, host) # rest) best =
    (let members = window_group epoch ((epoch, host) # rest)
     in densest rest (if length best < length members then members else best))"

definition first_observed_text :: "(string, obj) dict \<Rightarrow> string \<Rightarrow> string" where
  "first_observed_text affected host =
    (case as_text (oget (dsub affected host) ''firstObservedAt'') of None \<Rightarrow> [] | Some s \<Rightarrow> s)"

definition minimum :: "string list \<Rightarrow> string" where
  "minimum xs = (case xs of [] \<Rightarrow> [] | x # rest \<Rightarrow> foldl min x rest)"

definition correlate_losses :: "obj list \<Rightarrow> string list \<Rightarrow> correlation list" where
  "correlate_losses items monitored =
    (let affected = actionable_connectivity items monitored [] in
     if monitored = [] \<or> length affected < loss_min_hosts then []
     else
       (let best = densest (sort (losses_of affected)) [];
            fleet = length (remdups monitored)
        in if length best < loss_min_hosts \<or> of_nat (length best) < loss_min_share * of_nat fleet
           then []
           else
             (let hosts = sort best; first = minimum (map (first_observed_text affected) hosts)
              in [\<lparr>co_key = ''simultaneous-loss:'' @ first,
                   co_kind = ''simultaneous_connectivity_loss'', co_anchor = None,
                   co_hosts = hosts, co_severity = ''critical'', co_confidence = ''possible'',
                   co_detail = int_str (int (length hosts)) @ '' of '' @ int_str (int fleet)
                     @ '' monitored nodes lost connectivity within 120 seconds of each other; ''
                     @ ''the monitor's own uplink or a shared relay is the likely cause''\<rparr>])))"

section \<open>Configured shared paths\<close>

definition children_of :: "topology_link list \<Rightarrow> (string, string list) dict" where
  "children_of links = foldl (\<lambda>d l. dappend d (tl_source l) (tl_target l)) [] links"

text \<open>\<open>_node_depths\<close>: \<open>pending\<close> is the stack, its top first.\<close>

fun node_depths ::
  "nat \<Rightarrow> (string, string list) dict \<Rightarrow> string list \<Rightarrow> (string, nat) dict \<Rightarrow> (string, nat) dict option" where
  "node_depths fuel children [] depths = Some depths"
| "node_depths 0 children (node # pending) depths = None"
| "node_depths (Suc fuel) children (node # pending) depths =
    (let targets = dget_or [] children node
     in node_depths fuel children (rev targets @ pending)
          (foldl (\<lambda>d child. dset d child (dget_or 0 d node + 1)) depths targets))"

text \<open>\<open>_monitored_descendants\<close>: the hosts below a node, and the entries in the order written.\<close>

fun visit ::
  "nat \<Rightarrow> (string, string list) dict \<Rightarrow> string list \<Rightarrow> string \<Rightarrow> (string, string list) dict \<Rightarrow>
   (string list \<times> (string, string list) dict) option"
and visit_all ::
  "nat \<Rightarrow> (string, string list) dict \<Rightarrow> string list \<Rightarrow> string list \<Rightarrow> string list \<Rightarrow>
   (string, string list) dict \<Rightarrow> (string list \<times> (string, string list) dict) option" where
  "visit 0 children monitored node acc = None"
| "visit (Suc fuel) children monitored node acc =
    (case visit_all fuel children monitored (dget_or [] children node)
            (if node \<in> set monitored then [node] else []) acc of
       None \<Rightarrow> None
     | Some (hosts, acc') \<Rightarrow> Some (hosts, dset acc' node hosts))"
| "visit_all fuel children monitored [] hosts acc = Some (hosts, acc)"
| "visit_all fuel children monitored (child # rest) hosts acc =
    (case visit fuel children monitored child acc of
       None \<Rightarrow> None
     | Some (below, acc') \<Rightarrow>
         visit_all fuel children monitored rest (remdups (hosts @ below)) acc')"

record topology_correlator =
  tc_root :: string
  tc_children :: "(string, string list) dict"
  tc_depths :: "(string, nat) dict"

definition new_topology_correlator :: "topology \<Rightarrow> topology_correlator option" where
  "new_topology_correlator t =
    (let children = children_of (tp_links t) in
     map_option (\<lambda>depths. \<lparr>tc_root = tp_root t, tc_children = children, tc_depths = depths\<rparr>)
       (node_depths (length (tp_links t) + 1) children [tp_root t] [(tp_root t, 0)]))"

definition path_correlation :: "string \<Rightarrow> string list \<Rightarrow> correlation" where
  "path_correlation anchor hosts =
    \<lparr>co_key = ''configured-path:'' @ anchor, co_kind = ''configured_shared_path'',
     co_anchor = Some anchor, co_hosts = hosts, co_severity = ''critical'',
     co_confidence = ''possible'',
     co_detail = int_str (int (length hosts))
       @ '' unreachable nodes share the configured path through '' @ anchor\<rparr>"

text \<open>The loop over the candidates, deepest first: a host explained by one is not used again.\<close>

fun claim_hosts :: "(string \<times> string list) list \<Rightarrow> string list \<Rightarrow> correlation list" where
  "claim_hosts [] remaining = []"
| "claim_hosts ((anchor, candidate_hosts) # rest) remaining =
    (let hosts = sorted_set (filter (\<lambda>x. x \<in> set remaining) candidate_hosts) in
     if length hosts < 2 then claim_hosts rest remaining
     else path_correlation anchor hosts
       # claim_hosts rest (filter (\<lambda>x. x \<notin> set hosts) remaining))"

definition path_candidates ::
  "topology_correlator \<Rightarrow> (string, string list) dict \<Rightarrow> string list \<Rightarrow> (string \<times> string list) list" where
  "path_candidates tc descendants affected =
    sort_key (\<lambda>nh. (- int (dget_or 0 (tc_depths tc) (fst nh)), fst nh))
      (filter (\<lambda>nh. fst nh \<noteq> tc_root tc \<and> 2 \<le> length (snd nh))
        (map (\<lambda>(node, hosts). (node, remdups (filter (\<lambda>x. x \<in> set affected) hosts))) descendants))"

definition correlate_paths ::
  "nat \<Rightarrow> topology_correlator \<Rightarrow> obj list \<Rightarrow> string list \<Rightarrow> correlation list option" where
  "correlate_paths fuel tc items monitored =
    (let affected = keys (actionable_connectivity items monitored []) in
     if length affected < 2 then Some []
     else (case visit fuel (tc_children tc) monitored (tc_root tc) [] of
         None \<Rightarrow> None
       | Some (_, descendants) \<Rightarrow>
           Some (claim_hosts (path_candidates tc descendants affected) affected)))"

section \<open>Composition\<close>

text \<open>A correlator is its \<open>correlate\<close> method; \<open>None\<close> when a walk does not finish.\<close>

type_synonym correlator = "obj list \<Rightarrow> string list \<Rightarrow> correlation list option"

fun correlate_each :: "correlator list \<Rightarrow> obj list \<Rightarrow> string list \<Rightarrow> correlation list option" where
  "correlate_each [] items monitored = Some []"
| "correlate_each (f # fs) items monitored =
    (case f items monitored of
       None \<Rightarrow> None
     | Some cs \<Rightarrow> map_option (\<lambda>rest. cs @ rest) (correlate_each fs items monitored))"

definition correlate_composite :: "correlator list \<Rightarrow> correlator" where
  "correlate_composite correlators items monitored =
    (let fleet = correlate_losses items monitored;
         covered = (case fleet of [] \<Rightarrow> [] | c # _ \<Rightarrow> co_hosts c)
     in map_option (\<lambda>others. fleet @ filter (\<lambda>c. \<not> set (co_hosts c) \<subseteq> set covered) others)
          (correlate_each correlators items monitored))"

text \<open>\<open>create_incident_correlator\<close>.\<close>

definition create_incident_correlator :: "topology option \<Rightarrow> correlator option" where
  "create_incident_correlator t =
    (case t of
       None \<Rightarrow> Some (correlate_composite [])
     | Some t \<Rightarrow>
         map_option (\<lambda>tc. correlate_composite [correlate_paths (length (tp_links t) + 1) tc])
           (new_topology_correlator t))"

section \<open>What every correlator promises\<close>

definition actionable_hosts :: "obj list \<Rightarrow> string list \<Rightarrow> string set" where
  "actionable_hosts items monitored = {host. \<exists>item \<in> set items. actionable_item monitored item = Some host}"

definition sound_group :: "string set \<Rightarrow> correlation \<Rightarrow> bool" where
  "sound_group hosts c \<longleftrightarrow>
    2 \<le> length (co_hosts c) \<and> sorted (co_hosts c) \<and> distinct (co_hosts c) \<and> set (co_hosts c) \<subseteq> hosts"

lemma actionable_monitored: "actionable_item monitored item = Some host \<Longrightarrow> host \<in> set monitored"
  by (auto simp: actionable_item_def split: pyval.splits if_splits)

locale incident_correlator =
  fixes correlate :: correlator
  assumes sound: "correlate items monitored = Some cs \<Longrightarrow> c \<in> set cs \<Longrightarrow>
    sound_group (actionable_hosts items monitored) c"
begin

lemma hosts_actionable:
  "correlate items monitored = Some cs \<Longrightarrow> c \<in> set cs \<Longrightarrow> host \<in> set (co_hosts c) \<Longrightarrow>
    \<exists>item \<in> set items. actionable_item monitored item = Some host"
  using sound by (fastforce simp: sound_group_def actionable_hosts_def)

lemma hosts_monitored:
  "correlate items monitored = Some cs \<Longrightarrow> c \<in> set cs \<Longrightarrow> set (co_hosts c) \<subseteq> set monitored"
  using hosts_actionable actionable_monitored by blast

end

lemma actionable_keys:
  "fst ` set (actionable_connectivity items monitored acc)
    = fst ` set acc \<union> actionable_hosts items monitored"
  by (induction items monitored acc rule: actionable_connectivity.induct)
     (auto simp: actionable_hosts_def split: option.splits)

lemma wf_actionable: "wf_dict acc \<Longrightarrow> wf_dict (actionable_connectivity items monitored acc)"
  by (induction items monitored acc rule: actionable_connectivity.induct)
     (auto split: option.split)

subsection \<open>Simultaneous losses\<close>

lemma losses_mem:
  "(t, host) \<in> set (losses_of d) \<longleftrightarrow>
    (\<exists>item. (host, item) \<in> set d
      \<and> Option.bind (as_text (oget item ''firstObservedAt'')) epoch_seconds = Some t)"
  by (induction d rule: losses_of.induct) (auto split: option.splits)

lemma losses_distinct: "wf_dict d \<Longrightarrow> distinct (map snd (losses_of d))"
proof (induction d rule: losses_of.induct)
  case (2 host item rest)
  have "snd ` set (losses_of rest) \<subseteq> fst ` set rest"
    using losses_mem [of _ _ rest] by force
  with 2 show ?case by (auto split: option.split)
qed simp

definition in_window :: "rat \<Rightarrow> (rat \<times> string) list \<Rightarrow> (rat \<times> string) list" where
  "in_window t losses = filter (\<lambda>l. t \<le> fst l \<and> fst l \<le> t + loss_window) losses"

lemma length_filter_imp:
  "(\<And>x. x \<in> set xs \<Longrightarrow> P x \<Longrightarrow> Q x) \<Longrightarrow> length (filter P xs) \<le> length (filter Q xs)"
  by (induction xs) auto

lemma densest_correct:
  assumes "sorted (map fst losses)"
  shows "length best \<le> length (densest losses best)
    \<and> (\<forall>t. length (in_window t losses) \<le> length (densest losses best))
    \<and> (densest losses best = best
      \<or> (\<exists>t n. densest losses best = map snd (in_window t (drop n losses))))"
  using assms
proof (induction losses best rule: densest.induct)
  case (1 best)
  then show ?case by (simp add: in_window_def)
next
  case (2 epoch host rest best)
  let ?all = "(epoch, host) # rest"
  define members where "members = window_group epoch ?all"
  define best' where "best' = (if length best < length members then members else best)"
  have later: "epoch \<le> fst l" if "l \<in> set ?all" for l using "2.prems" that by auto
  have group: "members = map snd (in_window epoch ?all)"
    unfolding members_def window_group_def in_window_def using later
    by (intro arg_cong [of _ _ "map snd"] filter_cong) (auto simp: algebra_simps)
  have step: "densest ?all best = densest rest best'"
    by (simp add: members_def best'_def)
  have IH: "length best' \<le> length (densest rest best')"
    "\<And>t. length (in_window t rest) \<le> length (densest rest best')"
    "densest rest best' = best'
      \<or> (\<exists>t n. densest rest best' = map snd (in_window t (drop n rest)))"
    using "2.IH" [OF members_def] "2.prems" unfolding best'_def by simp_all
  have "length (in_window t ?all) \<le> length (densest rest best')" for t
  proof (cases "t \<le> epoch \<and> epoch \<le> t + loss_window")
    case True
    then have "length (in_window t ?all) \<le> length (in_window epoch ?all)"
      unfolding in_window_def using later by (intro length_filter_imp) force
    also have "\<dots> \<le> length best'" by (simp add: best'_def group)
    finally show ?thesis using IH(1) by simp
  next
    case False
    then show ?thesis using IH(2) [of t] by (auto simp: in_window_def)
  qed
  moreover have "densest rest best' = best
      \<or> (\<exists>t n. densest rest best' = map snd (in_window t (drop n ?all)))"
  proof (cases "densest rest best' = best'")
    case True
    have "members = map snd (in_window epoch (drop 0 ?all))" using group by simp
    then show ?thesis using True unfolding best'_def by (metis (full_types))
  next
    case False
    then obtain t n where "densest rest best' = map snd (in_window t (drop n rest))"
      using IH(3) by blast
    then have "densest rest best' = map snd (in_window t (drop (Suc n) ?all))" by simp
    then show ?thesis by blast
  qed
  moreover have "length best \<le> length (densest rest best')" using IH(1)
    by (auto simp: best'_def split: if_splits)
  ultimately show ?case unfolding step by blast
qed

text \<open>The losses that count: actionable, monitored, with a readable first observation.\<close>

definition counted_losses :: "obj list \<Rightarrow> string list \<Rightarrow> (rat \<times> string) list" where
  "counted_losses items monitored = losses_of (actionable_connectivity items monitored [])"

definition required_losses :: "string list \<Rightarrow> nat \<Rightarrow> bool" where
  "required_losses monitored n \<longleftrightarrow>
    loss_min_hosts \<le> n \<and> loss_min_share * of_nat (length (remdups monitored)) \<le> of_nat n"

lemma in_window_sort: "length (in_window t (sort losses)) = length (in_window t losses)"
  by (simp add: in_window_def filter_sort)

lemma losses_length: "length (losses_of d) \<le> length d"
  by (induction d rule: losses_of.induct) (auto split: option.split)

lemma correlate_losses_cases:
  fixes items monitored
  defines "losses \<equiv> counted_losses items monitored"
  obtains (none) "correlate_losses items monitored = []"
      "\<And>t. monitored \<noteq> [] \<Longrightarrow> \<not> required_losses monitored (length (in_window t losses))"
  | (group) t c where "correlate_losses items monitored = [c]"
      "set (co_hosts c) \<subseteq> snd ` set (in_window t losses)"
      "sorted (co_hosts c)" "distinct (co_hosts c)"
      "required_losses monitored (length (co_hosts c))"
      "\<And>u. length (in_window u losses) \<le> length (co_hosts c)"
proof -
  define affected where "affected = actionable_connectivity items monitored []"
  have losses: "losses = losses_of affected"
    by (simp add: losses_def counted_losses_def affected_def)
  have wf: "wf_dict affected" by (simp add: affected_def wf_actionable)
  define best where "best = densest (sort losses) []"
  have srt: "sorted (map fst (sort losses))"
  proof -
    have "sorted_wrt (\<le>) (sort losses)" by simp
    then have "sorted_wrt (\<lambda>a b. fst a \<le> fst b) (sort losses)"
      by (rule sorted_wrt_mono_rel [rotated]) (auto simp: less_eq_prod_def)
    then show ?thesis by (simp add: sorted_map)
  qed
  from densest_correct [OF srt, of "[]"]
  have most: "length (in_window t losses) \<le> length best" for t
    by (simp add: best_def in_window_sort)
  from densest_correct [OF srt, of "[]"]
  have shape: "best = [] \<or> (\<exists>t n. best = map snd (in_window t (drop n (sort losses))))"
    by (simp add: best_def)
  have dist: "distinct (map snd (sort losses))"
    using losses_distinct [OF wf] mset_eq_imp_distinct_iff [of "map snd (sort losses)" "map snd losses"]
    by (simp add: losses)
  obtain t n where "best = [] \<or> best = map snd (in_window t (drop n (sort losses)))"
    using shape by blast
  moreover have "set (drop n (sort losses)) \<subseteq> set losses"
    by (metis set_drop_subset set_sort)
  then have "set (in_window t (drop n (sort losses))) \<subseteq> set (in_window t losses)"
    unfolding in_window_def set_filter by blast
  ultimately have sub: "set best \<subseteq> snd ` set (in_window t losses)"
    by (metis empty_subsetI image_mono list.set(1) list.set_map)
  have "distinct (map snd (in_window t (drop n (sort losses))))" for t n
    using dist unfolding in_window_def
    by (intro distinct_map_filter) (metis distinct_drop drop_map)
  then have dbest: "distinct best" using shape by auto
  have eq: "correlate_losses items monitored =
    (if monitored = [] \<or> length affected < loss_min_hosts \<or> \<not> required_losses monitored (length best)
     then [] else correlate_losses items monitored)"
    by (auto simp: correlate_losses_def affected_def [symmetric] losses [symmetric] best_def [symmetric]
        Let_def required_losses_def not_le)
  show thesis
  proof (cases "monitored = [] \<or> length affected < loss_min_hosts \<or> \<not> required_losses monitored (length best)")
    case True
    then have "\<not> required_losses monitored (length (in_window t losses))" if "monitored \<noteq> []" for t
    proof -
      have "length (in_window t losses) \<le> length affected"
        using losses_length [of affected] by (simp add: in_window_def losses)
          (meson length_filter_le order_trans)
      then show ?thesis
        using True most [of t] that by (auto simp: required_losses_def)
    qed
    with none eq True show thesis by auto
  next
    case False
    then obtain c where "correlate_losses items monitored = [c]" "co_hosts c = sort best"
      by (auto simp: correlate_losses_def affected_def [symmetric] losses [symmetric]
          best_def [symmetric] Let_def required_losses_def not_le)
    with group [of c t] sub dbest most False show thesis by simp
  qed
qed


lemma losses_actionable: "snd ` set (counted_losses items monitored) \<subseteq> actionable_hosts items monitored"
proof
  fix host
  assume "host \<in> snd ` set (counted_losses items monitored)"
  then obtain t where "(t, host) \<in> set (counted_losses items monitored)" by auto
  then have "host \<in> fst ` set (actionable_connectivity items monitored [])"
    by (force simp: counted_losses_def losses_mem)
  then show "host \<in> actionable_hosts items monitored" by (simp add: actionable_keys)
qed

lemma losses_sound:
  assumes "c \<in> set (correlate_losses items monitored)"
  shows "sound_group (actionable_hosts items monitored) c"
proof (cases rule: correlate_losses_cases [of items monitored])
  case none
  with assms show ?thesis by simp
next
  case (group t g)
  then have "c = g" using assms by simp
  moreover have "set (co_hosts g) \<subseteq> actionable_hosts items monitored"
    using group(2) losses_actionable by (fastforce simp: in_window_def)
  ultimately show ?thesis
    using group(3-5) by (simp add: sound_group_def required_losses_def loss_min_hosts_def)
qed

interpretation losses: incident_correlator "\<lambda>items monitored. Some (correlate_losses items monitored)"
  by unfold_locales (auto intro: losses_sound)

subsection \<open>The configured tree\<close>

definition edges :: "topology_link list \<Rightarrow> (string \<times> string) set" where
  "edges links = {(tl_source l, tl_target l) |l. l \<in> set links}"

text \<open>The nodes reached from one, itself included.\<close>

definition below :: "topology_link list \<Rightarrow> string \<Rightarrow> string set" where
  "below links node = (edges links)\<^sup>* `` {node}"

definition links_from :: "topology_link list \<Rightarrow> string \<Rightarrow> topology_link list" where
  "links_from links node = filter (\<lambda>l. tl_source l = node) links"

lemma dget_or_dappend: "dget_or [] (dappend d k v) n = dget_or [] d n @ (if n = k then [v] else [])"
  by (auto simp: dappend_def dget_or_def split: option.split)

lemma children_fold:
  "dget_or [] (foldl (\<lambda>d l. dappend d (tl_source l) (tl_target l)) d links) n
    = dget_or [] d n @ map tl_target (links_from links n)"
  by (induction links arbitrary: d) (auto simp: links_from_def dget_or_dappend)

lemma children_of_links: "dget_or [] (children_of links) n = map tl_target (links_from links n)"
  by (simp add: children_of_def children_fold)

lemma below_unfold:
  "below links node = insert node (\<Union>child \<in> set (dget_or [] (children_of links) node). below links child)"
proof -
  have "(edges links)\<^sup>* `` {node} = insert node ((edges links)\<^sup>* `` (edges links `` {node}))"
    by (auto elim: converse_rtranclE intro: converse_rtrancl_into_rtrancl)
  then show ?thesis
    by (auto simp: below_def children_of_links links_from_def edges_def)
qed


text \<open>
  Links not used yet (\<open>pool\<close>) from the nodes still to be walked (\<open>starts\<close>): targets are
  distinct, no start is a target, and the links of every node ahead are still in the pool.
\<close>

definition unused_links :: "topology_link list \<Rightarrow> topology_link list \<Rightarrow> string list \<Rightarrow> bool" where
  "unused_links links pool starts \<longleftrightarrow>
    distinct (starts @ map tl_target pool)
    \<and> (\<forall>n \<in> set starts \<union> tl_target ` set pool. links_from links n = links_from pool n)"

lemma length_pool: "length (links_from pool n) + length (filter (\<lambda>l. tl_source l \<noteq> n) pool) = length pool"
  by (simp add: links_from_def sum_length_filter_compl)

lemma distinct_map_split:
  assumes "distinct (map f xs)"
  shows "distinct (map f (filter P xs))" "distinct (map f (filter (\<lambda>x. \<not> P x) xs))"
    "f ` set (filter P xs) \<inter> f ` set (filter (\<lambda>x. \<not> P x) xs) = {}"
  using assms by (auto simp: distinct_map inj_on_def)

lemma unused_pop:
  assumes "unused_links links pool (node # pending)"
  shows "unused_links links (filter (\<lambda>l. tl_source l \<noteq> node) pool)
    (rev (map tl_target (links_from links node)) @ pending)"
proof -
  let ?rest = "filter (\<lambda>l. tl_source l \<noteq> node) pool"
  have same: "links_from links node = links_from pool node"
    using assms by (simp add: unused_links_def)
  have d: "distinct (map tl_target pool)" "node \<notin> set pending" "distinct pending"
    "(insert node (set pending)) \<inter> tl_target ` set pool = {}"
    using assms by (auto simp: unused_links_def)
  note parts = distinct_map_split [OF d(1), of "\<lambda>l. tl_source l = node"]
  have sub: "set (links_from pool node) \<subseteq> set pool" "set ?rest \<subseteq> set pool"
    by (auto simp: links_from_def)
  have "distinct (rev (map tl_target (links_from links node)) @ pending @ map tl_target ?rest)"
    using parts d sub unfolding same by (auto simp: links_from_def)
  moreover have "links_from links n = links_from ?rest n"
    if "n \<in> set (rev (map tl_target (links_from links node)) @ pending) \<union> tl_target ` set ?rest" for n
  proof -
    have "n \<noteq> node" and "n \<in> insert node (set pending) \<union> tl_target ` set pool"
      using that d sub unfolding same by auto
    then have "links_from links n = links_from pool n"
      using assms by (simp add: unused_links_def)
    also have "\<dots> = links_from ?rest n"
      using \<open>n \<noteq> node\<close> unfolding links_from_def by (induction pool) auto
    finally show ?thesis .
  qed
  ultimately show ?thesis unfolding unused_links_def append_assoc by blast
qed

lemma node_depths_total:
  assumes "unused_links links pool pending" "length pending + length pool \<le> fuel"
  shows "node_depths fuel (children_of links) pending depths \<noteq> None"
  using assms
proof (induction fuel arbitrary: pool pending depths)
  case 0
  then show ?case by simp
next
  case (Suc fuel)
  show ?case
  proof (cases pending)
    case (Cons node rest)
    let ?rest = "filter (\<lambda>l. tl_source l \<noteq> node) pool"
    have u: "unused_links links pool (node # rest)" using Suc.prems(1) Cons by simp
    then have "links_from links node = links_from pool node" by (simp add: unused_links_def)
    then have "length (rev (map tl_target (links_from links node)) @ rest) + length ?rest \<le> fuel"
      using Suc.prems(2) length_pool [of pool node] Cons by simp
    from Suc.IH [OF unused_pop [OF u] this] show ?thesis
      by (simp add: Cons children_of_links Let_def)
  qed simp
qed

lemma unused_child:
  assumes "unused_links links pool [node]" "child \<in> set (map tl_target (links_from links node))"
  shows "unused_links links (filter (\<lambda>l. tl_source l \<noteq> node) pool) [child]"
proof -
  let ?pool = "filter (\<lambda>l. tl_source l \<noteq> node) pool"
  have u: "distinct (rev (map tl_target (links_from links node)) @ map tl_target ?pool)"
    "\<forall>n \<in> set (rev (map tl_target (links_from links node))) \<union> tl_target ` set ?pool.
      links_from links n = links_from ?pool n"
    using unused_pop [OF assms(1)] unfolding unused_links_def append_Nil2 by blast+
  have "child \<notin> set (map tl_target ?pool)" "distinct (map tl_target ?pool)"
    using u(1) assms(2) unfolding distinct_append set_rev by blast+
  moreover have "\<forall>n \<in> set [child] \<union> tl_target ` set ?pool. links_from links n = links_from ?pool n"
    using u(2) assms(2) unfolding set_rev by (simp only: list.set(1,2)) blast
  ultimately show ?thesis by (simp add: unused_links_def)
qed

text \<open>The recursion over the subtree: it returns, and what it returns.\<close>

lemma visit_total:
  assumes "unused_links links pool [node]" "length pool < fuel"
  shows "visit fuel (children_of links) monitored node acc \<noteq> None"
  using assms
proof (induction fuel arbitrary: pool node acc)
  case 0
  then show ?case by simp
next
  case (Suc fuel)
  let ?pool = "filter (\<lambda>l. tl_source l \<noteq> node) pool"
  let ?children = "map tl_target (links_from links node)"
  have same: "links_from links node = links_from pool node"
    using Suc.prems(1) by (simp add: unused_links_def)
  have child: "visit fuel (children_of links) monitored c acc' \<noteq> None" if c: "c \<in> set ?children" for c acc'
  proof (rule Suc.IH [OF unused_child [OF Suc.prems(1) c]])
    have "links_from pool node \<noteq> []" using c same by auto
    then show "length ?pool < fuel" using length_pool [of pool node] Suc.prems(2) by (cases "links_from pool node") auto
  qed
  have "visit_all fuel (children_of links) monitored cs hosts acc' \<noteq> None"
    if "set cs \<subseteq> set ?children" for cs hosts acc'
    using that
  proof (induction cs arbitrary: hosts acc')
    case (Cons c cs)
    then show ?case using child [of c acc'] by (auto simp del: set_map)
  qed simp
  then have "visit_all fuel (children_of links) monitored ?children hosts acc \<noteq> None" for hosts by blast
  then obtain result where "visit_all fuel (children_of links) monitored ?children
      (if node \<in> set monitored then [node] else []) acc = Some result" by blast
  then show ?case by (simp add: children_of_links split: prod.split)
qed

definition entries_right :: "topology_link list \<Rightarrow> string list \<Rightarrow> (string, string list) dict \<Rightarrow> bool" where
  "entries_right links monitored acc \<longleftrightarrow>
    (\<forall>(n, hosts) \<in> set acc. distinct hosts \<and> set hosts = set monitored \<inter> below links n)"

lemma entries_right_dset:
  assumes "entries_right links monitored acc" "distinct hosts" "set hosts = set monitored \<inter> below links n"
  shows "entries_right links monitored (dset acc n hosts)"
  using assms set_dset [of n hosts acc] by (auto simp: entries_right_def)

lemma visit_result:
  "visit fuel (children_of links) monitored node acc = Some (hosts, acc') \<Longrightarrow>
    entries_right links monitored acc \<Longrightarrow>
    distinct hosts \<and> set hosts = set monitored \<inter> below links node
    \<and> entries_right links monitored acc' \<and> fst ` set acc \<union> below links node = fst ` set acc'"
  "visit_all fuel (children_of links) monitored cs hosts0 acc = Some (hosts, acc') \<Longrightarrow>
    entries_right links monitored acc \<Longrightarrow> distinct hosts0 \<Longrightarrow>
    distinct hosts \<and> set hosts = set hosts0 \<union> (set monitored \<inter> (\<Union>c \<in> set cs. below links c))
    \<and> entries_right links monitored acc'
    \<and> fst ` set acc \<union> (\<Union>c \<in> set cs. below links c) = fst ` set acc'"
proof (induction fuel children \<equiv> "children_of links" monitored node acc
    and fuel children \<equiv> "children_of links" monitored cs hosts0 acc
    arbitrary: hosts acc' and hosts acc' rule: visit_visit_all.induct)
  case (1 monitored node acc)
  then show ?case by simp
next
  case (2 fuel monitored node acc)
  from "2.prems"(1) obtain acc1 where
    all: "visit_all fuel (children_of links) monitored (dget_or [] (children_of links) node)
      (if node \<in> set monitored then [node] else []) acc = Some (hosts, acc1)"
    and acc': "acc' = dset acc1 node hosts" by (auto split: option.splits)
  have D: "distinct (if node \<in> set monitored then [node] else [])" by simp
  have IH: "distinct hosts" "entries_right links monitored acc1"
    "set hosts = set (if node \<in> set monitored then [node] else [])
      \<union> (set monitored \<inter> (\<Union>c \<in> set (dget_or [] (children_of links) node). below links c))"
    "fst ` set acc \<union> (\<Union>c \<in> set (dget_or [] (children_of links) node). below links c) = fst ` set acc1"
    using "2.hyps" [OF all "2.prems"(2) D] by (blast, blast, blast, blast)
  have hosts: "set hosts = set monitored \<inter> below links node"
    by (subst IH(3), subst below_unfold) auto
  have "fst ` set acc \<union> below links node = fst ` set acc'"
    unfolding acc' keys_dset IH(4) [symmetric] by (subst below_unfold) blast
  with hosts IH(1,2) show ?case by (simp add: acc' entries_right_dset)
next
  case (3 fuel monitored hosts0 acc)
  then show ?case by simp
next
  case (4 fuel monitored c cs hosts0 acc)
  from "4.prems"(1) obtain sub acc1 where
    v: "visit fuel (children_of links) monitored c acc = Some (sub, acc1)"
    and rest: "visit_all fuel (children_of links) monitored cs (remdups (hosts0 @ sub)) acc1
      = Some (hosts, acc')" by (auto split: option.splits)
  note V = "4.hyps"(1) [OF v "4.prems"(2)]
  have "entries_right links monitored acc1" using V by blast
  note R = this
  have W: "distinct hosts" "set hosts = set (remdups (hosts0 @ sub)) \<union> (set monitored \<inter> (\<Union>c \<in> set cs. below links c))"
    "entries_right links monitored acc'"
    "fst ` set acc1 \<union> (\<Union>c \<in> set cs. below links c) = fst ` set acc'"
    using "4.hyps"(2) [OF v refl rest R distinct_remdups] by blast+
  have "fst ` set acc1 = fst ` set acc \<union> below links c" using V by blast
  then have "fst ` set acc \<union> (\<Union>c \<in> set (c # cs). below links c) = fst ` set acc'"
    by (simp only: W(4) [symmetric] list.set(2) UN_insert Un_assoc)
  moreover have "set sub = set monitored \<inter> below links c" using V by blast
  then have "set hosts = set hosts0 \<union> (set monitored \<inter> (\<Union>c \<in> set (c # cs). below links c))"
    by (subst W(2)) (simp add: Int_Un_distrib Un_assoc)
  ultimately show ?case using W(1,3) by blast
qed


definition claimed :: "correlation list \<Rightarrow> string set" where
  "claimed cs = (\<Union>c \<in> set cs. set (co_hosts c))"

lemma claim_hosts_group:
  "c \<in> set (claim_hosts cands remaining) \<Longrightarrow>
    \<exists>anchor hosts. (anchor, hosts) \<in> set cands \<and> co_anchor c = Some anchor
      \<and> set (co_hosts c) \<subseteq> set hosts \<inter> set remaining
      \<and> 2 \<le> length (co_hosts c) \<and> sorted (co_hosts c) \<and> distinct (co_hosts c)"
proof (induction cands remaining rule: claim_hosts.induct)
  case (2 anchor hosts rest remaining)
  define mine where "mine = sorted_set (filter (\<lambda>x. x \<in> set remaining) hosts)"
  have mine: "set mine = set hosts \<inter> set remaining" "sorted mine" "distinct mine"
    by (auto simp: mine_def)
  show ?case
  proof (cases "length mine < 2")
    case True
    with "2.prems" "2.IH"(1) [OF mine_def True] show ?thesis by (auto simp: mine_def)
  next
    case False
    then have "c = path_correlation anchor mine
        \<or> c \<in> set (claim_hosts rest (filter (\<lambda>x. x \<notin> set mine) remaining))"
      using "2.prems" by (simp add: mine_def Let_def)
    then show ?thesis
    proof
      assume "c = path_correlation anchor mine"
      then show ?thesis using mine False by (auto simp: path_correlation_def)
    next
      assume "c \<in> set (claim_hosts rest (filter (\<lambda>x. x \<notin> set mine) remaining))"
      from "2.IH"(2) [OF mine_def False this] show ?thesis by fastforce
    qed
  qed
qed simp

lemma claim_hosts_within: "claimed (claim_hosts cands remaining) \<subseteq> set remaining"
  using claim_hosts_group by (fastforce simp: claimed_def)

lemma claim_hosts_disjoint:
  "sorted_wrt (\<lambda>c d. set (co_hosts c) \<inter> set (co_hosts d) = {}) (claim_hosts cands remaining)"
proof (induction cands remaining rule: claim_hosts.induct)
  case (2 anchor hosts rest remaining)
  define mine where "mine = sorted_set (filter (\<lambda>x. x \<in> set remaining) hosts)"
  have "claimed (claim_hosts rest (filter (\<lambda>x. x \<notin> set mine) remaining)) \<inter> set mine = {}"
    using claim_hosts_within by fastforce
  then have "\<forall>d \<in> set (claim_hosts rest (filter (\<lambda>x. x \<notin> set mine) remaining)).
      set (co_hosts (path_correlation anchor mine)) \<inter> set (co_hosts d) = {}"
    by (auto simp: claimed_def path_correlation_def)
  with 2 show ?case by (simp add: mine_def Let_def)
qed simp

lemma claim_hosts_complete:
  "(anchor, hosts) \<in> set cands \<Longrightarrow>
    card (set hosts \<inter> set remaining - claimed (claim_hosts cands remaining)) < 2"
proof (induction cands remaining rule: claim_hosts.induct)
  case (2 a hs rest remaining)
  define mine where "mine = sorted_set (filter (\<lambda>x. x \<in> set remaining) hs)"
  have mine: "set mine = set hs \<inter> set remaining" "distinct mine" by (auto simp: mine_def)
  show ?case
  proof (cases "length mine < 2")
    case True
    have eq: "claim_hosts ((a, hs) # rest) remaining = claim_hosts rest remaining"
      using True by (simp add: mine_def)
    show ?thesis
    proof (cases "(anchor, hosts) = (a, hs)")
      case here: True
      have "card (set hs \<inter> set remaining) < 2" using True mine distinct_card by metis
      then show ?thesis using here by (simp add: eq) (meson Diff_subset card_mono finite_Int finite_set le_less_trans)
    next
      case False
      then have "(anchor, hosts) \<in> set rest" using "2.prems" by auto
      with "2.IH"(1) [OF mine_def True] show ?thesis unfolding eq by simp
    qed
  next
    case False
    let ?later = "claim_hosts rest (filter (\<lambda>x. x \<notin> set mine) remaining)"
    have eq: "claimed (claim_hosts ((a, hs) # rest) remaining) = set mine \<union> claimed ?later"
      using False by (simp add: mine_def Let_def claimed_def path_correlation_def)
    show ?thesis
    proof (cases "(anchor, hosts) = (a, hs)")
      case True
      then have "set hosts \<inter> set remaining - (set mine \<union> claimed ?later) = {}" using mine by auto
      then show ?thesis unfolding eq by (simp only: card.empty)
    next
      case other: False
      have "set hosts \<inter> set remaining - (set mine \<union> claimed ?later)
          = set hosts \<inter> set (filter (\<lambda>x. x \<notin> set mine) remaining) - claimed ?later" by auto
      moreover have "(anchor, hosts) \<in> set rest" using other "2.prems" by auto
      ultimately show ?thesis using "2.IH"(2) [OF mine_def False] unfolding eq by simp
    qed
  qed
qed simp

definition tree_topology :: "topology \<Rightarrow> bool" where
  "tree_topology t \<longleftrightarrow> distinct (map tl_target (tp_links t)) \<and> tp_root t \<notin> tl_target ` set (tp_links t)"

lemma tree_unused: "tree_topology t \<Longrightarrow> unused_links (tp_links t) (tp_links t) [tp_root t]"
  by (simp add: tree_topology_def unused_links_def)

lemma new_correlator_cases:
  assumes "new_topology_correlator t = Some tc"
  shows "tc_root tc = tp_root t" "tc_children tc = children_of (tp_links t)"
  using assms by (auto simp: new_topology_correlator_def Let_def)

lemma new_correlator_total:
  assumes "tree_topology t"
  shows "\<exists>tc. new_topology_correlator t = Some tc"
  using node_depths_total [OF tree_unused [OF assms], of "length (tp_links t) + 1"]
  by (auto simp: new_topology_correlator_def Let_def)

lemma correlate_paths_total:
  assumes "tree_topology t" "new_topology_correlator t = Some tc"
  shows "correlate_paths (length (tp_links t) + 1) tc items monitored \<noteq> None"
proof -
  obtain result where "visit (length (tp_links t) + 1) (tc_children tc) monitored (tc_root tc) [] = Some result"
    using visit_total [OF tree_unused [OF assms(1)], of "length (tp_links t) + 1" monitored "[]"]
      new_correlator_cases [OF assms(2)] by (auto simp del: visit.simps)
  then show ?thesis by (simp add: correlate_paths_def Let_def split: prod.split)
qed

lemma correlate_paths_sound:
  assumes "correlate_paths fuel tc items monitored = Some cs" "c \<in> set cs"
  shows "sound_group (actionable_hosts items monitored) c"
proof -
  let ?affected = "keys (actionable_connectivity items monitored [])"
  have "set ?affected = actionable_hosts items monitored"
    by (simp add: actionable_keys)
  moreover have "\<exists>cands. c \<in> set (claim_hosts cands ?affected)"
    using assms by (auto simp: correlate_paths_def Let_def split: if_splits option.splits)
  ultimately show ?thesis
    using claim_hosts_group [of c _ ?affected] by (fastforce simp: sound_group_def)
qed

interpretation paths: incident_correlator "correlate_paths fuel tc" for fuel tc
  by unfold_locales (rule correlate_paths_sound)

lemma composite_cases:
  assumes "correlate_composite fs items monitored = Some cs" "c \<in> set cs"
  obtains (fleet) "c \<in> set (correlate_losses items monitored)"
  | (other) f ds where "f \<in> set fs" "f items monitored = Some ds" "c \<in> set ds"
proof -
  have each: "\<exists>f \<in> set fs. \<exists>ds. f items monitored = Some ds \<and> d \<in> set ds"
    if "correlate_each fs items monitored = Some rest" "d \<in> set rest" for d rest
    using that by (induction fs arbitrary: rest) (fastforce split: option.splits)+
  show thesis
    using assms fleet other each by (fastforce simp: correlate_composite_def Let_def)
qed

lemma composite_correlator:
  assumes "\<forall>f \<in> set fs. incident_correlator f"
  shows "incident_correlator (correlate_composite fs)"
proof
  fix items monitored cs c
  assume "correlate_composite fs items monitored = Some cs" "c \<in> set cs"
  then show "sound_group (actionable_hosts items monitored) c"
  proof (cases rule: composite_cases)
    case fleet
    then show ?thesis by (rule losses_sound)
  next
    case (other f ds)
    with assms show ?thesis by (meson incident_correlator.sound)
  qed
qed

interpretation configured: incident_correlator "correlate_composite [correlate_paths fuel tc]" for fuel tc
  by (rule composite_correlator) (simp add: paths.incident_correlator_axioms)

interpretation unconfigured: incident_correlator "correlate_composite []"
  by (rule composite_correlator) simp


lemma path_candidates_mem:
  assumes "entries_right links monitored descendants"
  shows "(node, hosts) \<in> set (path_candidates tc descendants affected) \<Longrightarrow>
      node \<in> fst ` set descendants \<and> node \<noteq> tc_root tc
      \<and> set hosts = set monitored \<inter> below links node \<inter> set affected"
    and "node \<in> fst ` set descendants \<Longrightarrow> node \<noteq> tc_root tc \<Longrightarrow>
      2 \<le> card (set monitored \<inter> below links node \<inter> set affected) \<Longrightarrow>
      \<exists>hosts. (node, hosts) \<in> set (path_candidates tc descendants affected)
        \<and> set hosts = set monitored \<inter> below links node \<inter> set affected"
proof -
  assume "(node, hosts) \<in> set (path_candidates tc descendants affected)"
  then show "node \<in> fst ` set descendants \<and> node \<noteq> tc_root tc
      \<and> set hosts = set monitored \<inter> below links node \<inter> set affected"
  proof -
    obtain hs where "(node, hs) \<in> set descendants" "node \<noteq> tc_root tc"
      "hosts = remdups (filter (\<lambda>x. x \<in> set affected) hs)"
      using \<open>(node, hosts) \<in> _\<close> by (auto simp: path_candidates_def)
    moreover from this(1) assms have "set hs = set monitored \<inter> below links node"
      by (auto simp: entries_right_def)
    ultimately show ?thesis by force
  qed
next
  assume n: "node \<in> fst ` set descendants" "node \<noteq> tc_root tc"
    and two: "2 \<le> card (set monitored \<inter> below links node \<inter> set affected)"
  then obtain hs where hs: "(node, hs) \<in> set descendants" by auto
  let ?hosts = "remdups (filter (\<lambda>x. x \<in> set affected) hs)"
  have s: "set ?hosts = set monitored \<inter> below links node \<inter> set affected"
    using assms hs by (auto simp: entries_right_def)
  then have "2 \<le> length ?hosts" using two by (metis distinct_card distinct_remdups)
  then have "(node, ?hosts) \<in> set (path_candidates tc descendants affected)"
    using hs n(2) by (force simp: path_candidates_def)
  with s show "\<exists>hosts. (node, hosts) \<in> set (path_candidates tc descendants affected)
        \<and> set hosts = set monitored \<inter> below links node \<inter> set affected" by blast
qed

lemma path_groups:
  assumes "new_topology_correlator t = Some tc"
    and "correlate_paths (length (tp_links t) + 1) tc items monitored = Some cs"
  shows "\<forall>c \<in> set cs. \<exists>anchor \<in> below (tp_links t) (tp_root t). anchor \<noteq> tp_root t
      \<and> co_anchor c = Some anchor \<and> 2 \<le> length (co_hosts c) \<and> distinct (co_hosts c)
      \<and> set (co_hosts c) \<subseteq> below (tp_links t) anchor \<inter> actionable_hosts items monitored"
    and "sorted_wrt (\<lambda>c d. set (co_hosts c) \<inter> set (co_hosts d) = {}) cs"
    and "\<forall>node \<in> below (tp_links t) (tp_root t) - {tp_root t}.
      card (below (tp_links t) node \<inter> actionable_hosts items monitored - claimed cs) < 2"
proof -
  let ?links = "tp_links t" and ?hosts = "actionable_hosts items monitored"
  define affected where "affected = keys (actionable_connectivity items monitored [])"
  have aff: "set affected = ?hosts" by (simp add: affected_def actionable_keys)
  have mon: "?hosts \<subseteq> set monitored"
    using actionable_monitored by (auto simp: actionable_hosts_def)
  have "card ?hosts \<le> length affected" unfolding aff [symmetric] by (rule card_length)
  then have few: "card (A \<inter> ?hosts - B) < 2" if "length affected < 2" for A B
    using that aff card_mono [of ?hosts "A \<inter> ?hosts - B"]
    by (metis Diff_subset Int_lower2 List.finite_set le_less_trans order_trans)
  have "(\<forall>c \<in> set cs. \<exists>anchor \<in> below ?links (tp_root t). anchor \<noteq> tp_root t
        \<and> co_anchor c = Some anchor \<and> 2 \<le> length (co_hosts c) \<and> distinct (co_hosts c)
        \<and> set (co_hosts c) \<subseteq> below ?links anchor \<inter> ?hosts)
    \<and> sorted_wrt (\<lambda>c d. set (co_hosts c) \<inter> set (co_hosts d) = {}) cs
    \<and> (\<forall>node \<in> below ?links (tp_root t) - {tp_root t}.
        card (below ?links node \<inter> ?hosts - claimed cs) < 2)"
  proof (cases "length affected < 2")
    case True
    then have "cs = []" using assms(2) by (simp add: correlate_paths_def affected_def)
    with few [OF True] show ?thesis by simp
  next
    case False
    from assms(2) False obtain hosts desc where
      v: "visit (length ?links + 1) (children_of ?links) monitored (tp_root t) [] = Some (hosts, desc)"
      and cs: "cs = claim_hosts (path_candidates tc desc affected) affected"
      using new_correlator_cases [OF assms(1)]
      by (auto simp: correlate_paths_def affected_def Let_def simp del: visit.simps split: option.splits)
    have "entries_right ?links monitored []" by (simp add: entries_right_def)
    from visit_result(1) [OF v this] have er: "entries_right ?links monitored desc"
      and nodes: "fst ` set desc = below ?links (tp_root t)" by auto
    note mem = path_candidates_mem [OF er, where tc = tc and affected = affected,
      unfolded nodes new_correlator_cases(1) [OF assms(1)] aff]
    have "card (below ?links node \<inter> ?hosts - claimed cs) < 2"
      if n: "node \<in> below ?links (tp_root t) - {tp_root t}" for node
    proof (cases "2 \<le> card (below ?links node \<inter> ?hosts)")
      case True
      have "below ?links node \<inter> ?hosts = set monitored \<inter> below ?links node \<inter> ?hosts" using mon by blast
      with True n mem(2) [of node] obtain hs where hs: "(node, hs) \<in> set (path_candidates tc desc affected)"
        "set hs = below ?links node \<inter> ?hosts" by (metis DiffD1 DiffD2 singletonI)
      from claim_hosts_complete [OF hs(1), of affected] show ?thesis
        unfolding cs aff hs(2) by (simp add: Int_absorb2 Int_assoc)
    next
      case False
      moreover have "finite (below ?links node \<inter> ?hosts)" using aff by (metis List.finite_set finite_Int)
      ultimately show ?thesis
        by (meson Diff_subset card_mono le_less_trans not_le)
    qed
    moreover have "\<exists>anchor \<in> below ?links (tp_root t). anchor \<noteq> tp_root t
        \<and> co_anchor c = Some anchor \<and> 2 \<le> length (co_hosts c) \<and> distinct (co_hosts c)
        \<and> set (co_hosts c) \<subseteq> below ?links anchor \<inter> ?hosts" if "c \<in> set cs" for c
      using claim_hosts_group [OF that [unfolded cs]] mem(1) by blast
    ultimately show ?thesis using claim_hosts_disjoint unfolding cs by blast
  qed
  then show "\<forall>c \<in> set cs. \<exists>anchor \<in> below ?links (tp_root t). anchor \<noteq> tp_root t
      \<and> co_anchor c = Some anchor \<and> 2 \<le> length (co_hosts c) \<and> distinct (co_hosts c)
      \<and> set (co_hosts c) \<subseteq> below ?links anchor \<inter> ?hosts"
    and "sorted_wrt (\<lambda>c d. set (co_hosts c) \<inter> set (co_hosts d) = {}) cs"
    and "\<forall>node \<in> below ?links (tp_root t) - {tp_root t}.
      card (below ?links node \<inter> ?hosts - claimed cs) < 2" by blast+
qed

section \<open>Properties\<close>

text \<open>C17. The simultaneous-loss correlator is exact: it either reports one group, which lies in
  one 120-second window, is at least as large as the number of losses in any other such window, has
  at least three hosts and at least half of the monitored fleet; or it reports nothing and no
  window holds that many losses.\<close>

theorem losses_group_densest:
  fixes items monitored
  defines "losses \<equiv> counted_losses items monitored"
  shows "(\<exists>c t. correlate_losses items monitored = [c]
      \<and> set (co_hosts c) \<subseteq> snd ` set (in_window t losses)
      \<and> sorted (co_hosts c) \<and> distinct (co_hosts c)
      \<and> required_losses monitored (length (co_hosts c))
      \<and> (\<forall>u. length (in_window u losses) \<le> length (co_hosts c)))
    \<or> correlate_losses items monitored = []
      \<and> (monitored = [] \<or> (\<forall>u. \<not> required_losses monitored (length (in_window u losses))))"
  unfolding losses_def by (rule correlate_losses_cases [of items monitored]) blast+

lemma tree_correlator_returns:
  assumes "tree_topology t"
  shows "\<exists>f. create_incident_correlator (Some t) = Some f
    \<and> (\<forall>items monitored. \<exists>cs. f items monitored = Some cs)"
proof -
  obtain tc where tc: "new_topology_correlator t = Some tc"
    using new_correlator_total [OF assms] by blast
  have "\<exists>cs. correlate_composite [correlate_paths (length (tp_links t) + 1) tc] items monitored = Some cs"
    for items monitored
    using correlate_paths_total [OF assms tc, of items monitored]
    by (auto simp: correlate_composite_def Let_def)
  with tc show ?thesis by (simp add: create_incident_correlator_def)
qed

definition sample_tree :: topology where
  "sample_tree = \<lparr>tp_root = ''monitor'',
    tp_links = [\<lparr>tl_source = ''monitor'', tl_target = ''relay'', tl_transport = ''ssh'', tl_label = None\<rparr>,
                \<lparr>tl_source = ''relay'', tl_target = ''a'', tl_transport = ''ssh'', tl_label = None\<rparr>,
                \<lparr>tl_source = ''relay'', tl_target = ''b'', tl_transport = ''ssh'', tl_label = None\<rparr>]\<rparr>"

definition lost :: "string \<Rightarrow> obj" where
  "lost host = [(''host'', PStr host), (''category'', PStr ''connectivity''),
    (''firstObservedAt'', PStr ''2024-01-01T00:00:00Z'')]"

text \<open>C18. The configured-path correlator explains the lost hosts by disjoint groups: every group is
  anchored at a node other than the root, and its hosts (two at least) are lost hosts below that
  anchor; no host is in two groups; and for every non-root node fewer than two of the lost hosts
  below it are left out of all groups.\<close>

theorem path_groups_explain:
  assumes "new_topology_correlator t = Some tc"
    and "correlate_paths (length (tp_links t) + 1) tc items monitored = Some cs"
  shows "(\<forall>c \<in> set cs. \<exists>anchor \<in> below (tp_links t) (tp_root t). anchor \<noteq> tp_root t
        \<and> co_anchor c = Some anchor \<and> 2 \<le> length (co_hosts c) \<and> distinct (co_hosts c)
        \<and> set (co_hosts c) \<subseteq> below (tp_links t) anchor \<inter> actionable_hosts items monitored)
    \<and> sorted_wrt (\<lambda>c d. set (co_hosts c) \<inter> set (co_hosts d) = {}) cs
    \<and> (\<forall>node \<in> below (tp_links t) (tp_root t) - {tp_root t}.
        card (below (tp_links t) node \<inter> actionable_hosts items monitored - claimed cs) < 2)"
  using path_groups [OF assms] by blast

theorem path_groups_explain_witness:
  "\<exists>tc cs. new_topology_correlator sample_tree = Some tc
    \<and> correlate_paths (length (tp_links sample_tree) + 1) tc [lost ''a'', lost ''b''] [''a'', ''b''] = Some cs
    \<and> length cs = 1
    \<and> sorted_wrt (\<lambda>c d. set (co_hosts c) \<inter> set (co_hosts d) = {}) cs"
proof -
  define tc where "tc = the (new_topology_correlator sample_tree)"
  define cs where "cs = the (correlate_paths 4 tc [lost ''a'', lost ''b''] [''a'', ''b''])"
  have 1: "new_topology_correlator sample_tree = Some tc" unfolding tc_def by code_simp
  have "correlate_paths 4 tc [lost ''a'', lost ''b''] [''a'', ''b''] = Some cs"
    unfolding cs_def tc_def by code_simp
  moreover have "length (tp_links sample_tree) + 1 = 4" by code_simp
  ultimately have 2: "correlate_paths (length (tp_links sample_tree) + 1) tc [lost ''a'', lost ''b''] [''a'', ''b'']
      = Some cs" by (simp only:)
  have "length cs = 1" unfolding cs_def tc_def by code_simp
  with path_groups_explain [OF 1 2] 1 2 show ?thesis by blast
qed

text \<open>Whatever the configuration, a group the configured correlator reports lists at least two
  hosts, sorted and distinct, each monitored and the host of an actionable connectivity incident;
  and no group but the fleet-wide loss itself lies inside that loss.\<close>

lemma configured_groups_sound:
  assumes "create_incident_correlator t = Some f" "f items monitored = Some cs"
  shows "(\<forall>c \<in> set cs. 2 \<le> length (co_hosts c) \<and> sorted (co_hosts c) \<and> distinct (co_hosts c)
        \<and> set (co_hosts c) \<subseteq> set monitored \<inter> actionable_hosts items monitored)
    \<and> (\<exists>others. cs = correlate_losses items monitored @ others
        \<and> (\<forall>fleet \<in> set (correlate_losses items monitored). \<forall>c \<in> set others.
              \<not> set (co_hosts c) \<subseteq> set (co_hosts fleet)))"
proof -
  obtain fs where f: "f = correlate_composite fs" and fs: "incident_correlator (correlate_composite fs)"
    using assms(1) by (auto simp: create_incident_correlator_def split: option.splits
        intro: configured.incident_correlator_axioms unconfigured.incident_correlator_axioms)
  have "sound_group (actionable_hosts items monitored) c \<and> set (co_hosts c) \<subseteq> set monitored"
    if "c \<in> set cs" for c
    using incident_correlator.sound [OF fs] incident_correlator.hosts_monitored [OF fs] assms(2) that f
    by blast
  moreover have "correlate_losses items monitored = [] \<or> (\<exists>c. correlate_losses items monitored = [c])"
    by (rule correlate_losses_cases [of items monitored]) blast+
  then have "\<exists>others. cs = correlate_losses items monitored @ others
        \<and> (\<forall>fleet \<in> set (correlate_losses items monitored). \<forall>c \<in> set others.
              \<not> set (co_hosts c) \<subseteq> set (co_hosts fleet))"
    using assms(2) f by (auto simp: correlate_composite_def Let_def)
  ultimately show ?thesis by (auto simp: sound_group_def)
qed

lemma configured_groups_sound_witness:
  "\<exists>f cs. create_incident_correlator (Some sample_tree) = Some f
    \<and> f [lost ''a'', lost ''b''] [''a'', ''b''] = Some cs \<and> length cs = 1
    \<and> (\<forall>c \<in> set cs. sorted (co_hosts c))"
proof -
  define tc where "tc = the (new_topology_correlator sample_tree)"
  define f where "f = correlate_composite [correlate_paths 4 tc]"
  define cs where "cs = the (f [lost ''a'', lost ''b''] [''a'', ''b''])"
  have tc: "new_topology_correlator sample_tree = Some tc" unfolding tc_def by code_simp
  have len: "length (tp_links sample_tree) + 1 = 4" by code_simp
  have 1: "create_incident_correlator (Some sample_tree) = Some f"
    unfolding create_incident_correlator_def option.case(2) tc len option.map(2) f_def ..
  have 2: "f [lost ''a'', lost ''b''] [''a'', ''b''] = Some cs"
    unfolding cs_def f_def tc_def by code_simp
  have "length cs = 1" unfolding cs_def f_def tc_def by code_simp
  with configured_groups_sound [OF 1 2] 1 2 show ?thesis by blast
qed

end
