(* ===== verification/Config_Integrations.thy ===== *)
theory Config_Integrations
  imports PyNumber Correlation
begin

text \<open>
  The section parsers of \<open>config_integrations.py\<close>: topology, SQLite history, workload identity and
  webhooks, each from its JSON section to the frozen configuration value. A document that breaks a
  rule raises \<open>ConfigError\<close> with its message; the tests that can raise something else (the hash of
  an unhashable value, the float of a huge integer) are kept as they are written.
\<close>

datatype config_error = Config_Error string | Uncaught_Type_Error | Uncaught_Overflow_Error

type_synonym 'a parsed = "config_error + 'a"

definition refuse :: "string \<Rightarrow> 'a parsed" where
  "refuse message = Inl (Config_Error message)"

text \<open>\<open>if condition: raise ConfigError(message)\<close>, then the rest.\<close>

definition guard :: "bool \<Rightarrow> string \<Rightarrow> 'a parsed \<Rightarrow> 'a parsed" where
  "guard condition message rest = (if condition then refuse message else rest)"

lemma guard_Inr [simp]: "guard c m r = Inr x \<longleftrightarrow> \<not> c \<and> r = Inr x"
  by (simp add: guard_def refuse_def)

lemma refuse_Inr [simp]: "refuse m \<noteq> Inr x"
  by (simp add: refuse_def)

section \<open>Topology\<close>

definition topology_label_max_length :: nat where "topology_label_max_length = 64"
definition topology_max_links :: nat where "topology_max_links = 512"

definition topology_transports :: "string list" where
  "topology_transports = [''ssh'', ''frp-stcp'', ''frp-xtcp'', ''vpn'']"

text \<open>The Unicode categories \<open>C*\<close> among the first 256 code points: the control characters and the
  soft hyphen.\<close>

definition is_control :: "char \<Rightarrow> bool" where
  "is_control c \<longleftrightarrow> (let n = of_char c :: int in n \<le> 31 \<or> (127 \<le> n \<and> n \<le> 159) \<or> n = 173)"

definition index_label :: "string \<Rightarrow> nat \<Rightarrow> string" where
  "index_label section index = section @ ''['' @ int_str (int index) @ '']''"

definition bad_label :: "string \<Rightarrow> bool" where
  "bad_label s \<longleftrightarrow> strip s = [] \<or> topology_label_max_length < length (strip s) \<or> list_ex is_control s"

definition link_keys_ok :: "obj \<Rightarrow> bool" where
  "link_keys_ok d \<longleftrightarrow> {''source'', ''target'', ''transport''} \<subseteq> set (keys d)
    \<and> set (keys d) \<subseteq> {''source'', ''target'', ''transport'', ''label''}"

definition safe_text :: "pyval \<Rightarrow> string option" where
  "safe_text v = (case v of PStr s \<Rightarrow> if is_safe_alias s then Some s else None | _ \<Rightarrow> None)"

text \<open>One pass of the loop over the links.\<close>

definition parse_link :: "string \<Rightarrow> string list \<Rightarrow> nat \<Rightarrow> pyval \<Rightarrow> topology_link parsed" where
  "parse_link origin targets index item =
    (let label = index_label ''topology.links'' index in
     case item of
       PDict d \<Rightarrow>
         guard (\<not> link_keys_ok d) (label @ '' has an invalid schema'')
          (case (safe_text (oget d ''source''), safe_text (oget d ''target'')) of
             (Some source, Some target) \<Rightarrow>
               guard (source = target) (label @ '' cannot link a host to itself'')
               (guard (target = origin) ''topology.root cannot have an incoming link''
               (guard (target \<in> set targets) (''topology target '' @ target @ '' has more than one parent'')
               (case oget d ''transport'' of
                  PStr transport \<Rightarrow>
                    guard (transport \<notin> set topology_transports) (label @ ''.transport is not supported'')
                    (let link = (\<lambda>l. \<lparr>tl_source = source, tl_target = target,
                                     tl_transport = transport, tl_label = l\<rparr>);
                         message = label @ ''.label must contain at most 64 visible characters''
                     in case oget d ''label'' of
                          PNone \<Rightarrow> Inr (link None)
                        | PStr s \<Rightarrow> guard (bad_label s) message (Inr (link (Some (strip s))))
                        | _ \<Rightarrow> refuse message)
                | _ \<Rightarrow> refuse (label @ ''.transport is not supported''))))
           | _ \<Rightarrow> refuse (label @ '' endpoints must be safe host aliases''))
     | _ \<Rightarrow> refuse (label @ '' has an invalid schema''))"

fun parse_links :: "string \<Rightarrow> nat \<Rightarrow> pyval list \<Rightarrow> topology_link list \<Rightarrow> topology_link list parsed" where
  "parse_links origin index [] links = Inr links"
| "parse_links origin index (item # items) links =
    sum_bind (parse_link origin (map tl_target links) index item)
      (\<lambda>link. parse_links origin (Suc index) items (links @ [link]))"

text \<open>The walk from the root: \<open>reach_step\<close> is the inner loop, the stack has its top first.\<close>

fun reach_step :: "string list \<Rightarrow> string list \<Rightarrow> string list \<Rightarrow> string list \<times> string list" where
  "reach_step [] reachable pending = (reachable, pending)"
| "reach_step (target # targets) reachable pending =
    (if target \<in> set reachable then reach_step targets reachable pending
     else reach_step targets (target # reachable) (target # pending))"

definition all_targets :: "(string, string list) dict \<Rightarrow> string set" where
  "all_targets children = (\<Union>(n, ts) \<in> set children. set ts)"

lemma finite_all_targets [simp]: "finite (all_targets children)"
  by (auto simp: all_targets_def)

lemma reach_step_measure:
  assumes "finite T" "set targets \<subseteq> T"
  shows "2 * card (T - set (fst (reach_step targets r p))) + length (snd (reach_step targets r p))
    \<le> 2 * card (T - set r) + length p"
  using assms
proof (induction targets r p rule: reach_step.induct)
  case (2 target targets r p)
  show ?case
  proof (cases "target \<in> set r")
    case False
    have "card (T - set (target # r)) < card (T - set r)"
      using False "2.prems" by (intro psubset_card_mono) auto
    with 2 False show ?thesis by (auto simp del: card_Diff_insert)
  qed (use 2 in simp)
qed simp

lemma targets_subset: "set (dget_or [] children n) \<subseteq> all_targets children"
  by (cases "dget children n") (auto simp: dget_or_def all_targets_def dest: dget_mem)

function reach ::
  "(string, string list) dict \<Rightarrow> string list \<Rightarrow> string list \<Rightarrow> string list" where
  "reach children reachable [] = reachable"
| "reach children reachable (source # pending) =
    (let (r, p) = reach_step (dget_or [] children source) reachable pending in reach children r p)"
  by pat_completeness auto
termination
proof (relation "measure (\<lambda>(children, r, p). 2 * card (all_targets children - set r) + length p)")
  fix children :: "(string, string list) dict"
    and reachable pending r p :: "string list" and source :: string and rp
  assume rp: "rp = reach_step (dget_or [] children source) reachable pending" "(r, p) = rp"
  from reach_step_measure [OF finite_all_targets targets_subset, of children source reachable pending]
  show "((children, r, p), children, reachable, source # pending)
      \<in> measure (\<lambda>(children, r, p). 2 * card (all_targets children - set r) + length p)"
    using rp by (metis (no_types, lifting) add_Suc_right case_prod_conv fst_conv in_measure
        length_Cons less_Suc_eq_le snd_conv)
qed simp

definition link_ends :: "topology_link list \<Rightarrow> string set" where
  "link_ends links = tl_source ` set links \<union> tl_target ` set links"

definition connection_topology :: "pyval \<Rightarrow> topology parsed" where
  "connection_topology raw =
    (case raw of
       PDict d \<Rightarrow>
         guard (set (keys d) \<noteq> {''root'', ''links''}) ''topology must contain exactly root and links''
          (case safe_text (oget d ''root'') of
             None \<Rightarrow> refuse ''topology.root must be a safe host alias''
           | Some root_value \<Rightarrow>
              (let origin = strip root_value in
               case oget d ''links'' of
                 PList raw_links \<Rightarrow>
                   guard (topology_max_links < length raw_links)
                     ''topology.links must contain at most 512 links''
                   (sum_bind (parse_links origin 0 raw_links []) (\<lambda>links.
                     guard (\<not> link_ends links \<subseteq> set (reach (children_of links) [origin] [origin]))
                       ''topology links must form one tree reachable from root''
                       (Inr \<lparr>tp_root = origin, tp_links = links\<rparr>)))
               | _ \<Rightarrow> refuse ''topology.links must be a list''))
     | _ \<Rightarrow> refuse ''topology must contain exactly root and links'')"

section \<open>History storage and workload identity\<close>

record persistence_config =
  pc_enabled :: bool
  pc_retention_hours :: int
  pc_max_bytes :: int

definition unknown_keys :: "obj \<Rightarrow> string list \<Rightarrow> string list" where
  "unknown_keys d known = sorted_set (filter (\<lambda>k. k \<notin> set known) (keys d))"

definition parse_integer :: "obj \<Rightarrow> string \<Rightarrow> int \<Rightarrow> int \<Rightarrow> int \<Rightarrow> int parsed" where
  "parse_integer raw key preset low high =
    (case dget_or (PInt preset) raw key of
       PInt value \<Rightarrow>
         guard (\<not> (low \<le> value \<and> value \<le> high))
           (''persistence.'' @ key @ '' must be between '' @ int_str low @ '' and '' @ int_str high)
           (Inr value)
     | _ \<Rightarrow> refuse (''persistence.'' @ key @ '' must be an integer''))"

definition persistence_config_of :: "obj \<Rightarrow> persistence_config parsed" where
  "persistence_config_of data =
    (case dget_or (PDict []) data ''persistence'' of
       PDict raw \<Rightarrow>
         (let unknown = unknown_keys raw [''enabled'', ''retention_hours'', ''max_bytes''] in
          guard (unknown \<noteq> []) (''unknown persistence keys: '' @ join '', '' unknown)
          (case dget_or (PBool False) raw ''enabled'' of
             PBool enabled \<Rightarrow>
               sum_bind (parse_integer raw ''retention_hours'' 168 1 8760) (\<lambda>retention.
               sum_bind (parse_integer raw ''max_bytes'' 134217728 8388608 1073741824) (\<lambda>max_bytes.
                 Inr \<lparr>pc_enabled = enabled, pc_retention_hours = retention, pc_max_bytes = max_bytes\<rparr>))
           | _ \<Rightarrow> refuse ''persistence.enabled must be true or false''))
     | _ \<Rightarrow> refuse ''persistence must be a JSON object'')"

text \<open>\<open>mode not in _WORKLOAD_MODES\<close> hashes the value: a list or an object raises \<open>TypeError\<close>.\<close>

definition workload_config_of :: "obj \<Rightarrow> string parsed" where
  "workload_config_of data =
    (case dget_or (PDict [(''mode'', PStr ''disabled'')]) data ''workloads'' of
       PDict raw \<Rightarrow>
         (let unknown = unknown_keys raw [''mode''];
              message = ''workloads.mode must be disabled, identity, or auto''
          in guard (unknown \<noteq> []) (''unknown workloads keys: '' @ join '', '' unknown)
          (case oget raw ''mode'' of
             PStr mode \<Rightarrow> guard (mode \<notin> {''disabled'', ''identity'', ''auto''}) message (Inr mode)
           | PList _ \<Rightarrow> Inl Uncaught_Type_Error
           | PDict _ \<Rightarrow> Inl Uncaught_Type_Error
           | _ \<Rightarrow> refuse message))
     | _ \<Rightarrow> refuse ''workloads must be a JSON object'')"

section \<open>Webhooks\<close>

definition webhook_keys :: "string list" where
  "webhook_keys = [''name'', ''url_env'', ''secret_env'', ''events'', ''timeout_seconds'',
    ''max_attempts'', ''retry_base_seconds'', ''min_interval_seconds'', ''allow_private_networks'']"

definition webhook_event_states :: "string list" where
  "webhook_event_states = [''opened'', ''resolved'', ''escalated'', ''deescalated'']"

definition upper_or_underscore :: "char \<Rightarrow> bool" where
  "upper_or_underscore c \<longleftrightarrow> (let n = of_char c :: int in 65 \<le> n \<and> n \<le> 90) \<or> c = CHR ''_''"

text \<open>\<open>_ENVIRONMENT_NAME\<close> and \<open>_WEBHOOK_NAME\<close>.\<close>

definition environment_name :: "string \<Rightarrow> bool" where
  "environment_name s =
    (case s of [] \<Rightarrow> False
     | c # cs \<Rightarrow> upper_or_underscore c \<and> length cs \<le> 127
         \<and> list_all (\<lambda>x. upper_or_underscore x \<or> is_digit x) cs)"

definition webhook_name :: "string \<Rightarrow> bool" where
  "webhook_name s =
    (case s of [] \<Rightarrow> False
     | c # cs \<Rightarrow> alnum c \<and> length cs \<le> 47
         \<and> list_all (\<lambda>x. alnum x \<or> x = CHR ''.'' \<or> x = CHR ''_'' \<or> x = CHR ''-'') cs)"

text \<open>The bounds of the closure \<open>number\<close> come with the texts in which the message shows them.\<close>

definition parse_number ::
  "obj \<Rightarrow> string \<Rightarrow> string \<Rightarrow> rat \<Rightarrow> rat \<times> string \<Rightarrow> rat \<times> string \<Rightarrow> rat parsed" where
  "parse_number raw label key preset low high =
    (let out_of_range = label @ ''.'' @ key @ '' must be between '' @ snd low @ '' and '' @ snd high;
         inside = (\<lambda>x. guard (\<not> (fst low \<le> x \<and> x \<le> fst high)) out_of_range (Inr x))
     in case dget_or (PFloat preset) raw key of
          PInt i \<Rightarrow> inside (of_int i)
        | PFloat x \<Rightarrow> inside x
        | PInf _ \<Rightarrow> refuse out_of_range
        | PNan \<Rightarrow> refuse out_of_range
        | _ \<Rightarrow> refuse (label @ ''.'' @ key @ '' must be a number''))"

definition parse_events :: "obj \<Rightarrow> string list option" where
  "parse_events raw =
    (case dget_or (PList (map PStr webhook_event_states)) raw ''events'' of
       PList items \<Rightarrow>
         if items = [] \<or> length webhook_event_states < length items
            \<or> \<not> list_all (\<lambda>x. as_text x \<noteq> None) items
         then None
         else (let states = map (\<lambda>x. the (as_text x)) items in
           if list_ex (\<lambda>s. s \<notin> set webhook_event_states) states \<or> \<not> distinct states
           then None else Some states)
     | _ \<Rightarrow> None)"

definition parse_webhook :: "string list \<Rightarrow> nat \<Rightarrow> pyval \<Rightarrow> webhook_config parsed" where
  "parse_webhook names index item =
    (let label = index_label ''webhooks'' index in
     case item of
       PDict raw \<Rightarrow>
        (let unknown = unknown_keys raw webhook_keys;
             name_message = label @ ''.name must be a safe identifier'' in
         guard (unknown \<noteq> []) (''unknown '' @ label @ '' keys: '' @ join '', '' unknown)
         (case oget raw ''name'' of
            PStr name \<Rightarrow>
              guard (\<not> webhook_name name) name_message
              (guard (name \<in> set names) (label @ ''.name must be unique'')
              (case oget raw ''url_env'' of
                 PStr url_env \<Rightarrow>
                   guard (\<not> environment_name url_env)
                     (label @ ''.url_env must be an environment variable name'')
                   (guard (case oget raw ''secret_env'' of
                             PNone \<Rightarrow> False | PStr s \<Rightarrow> \<not> environment_name s | _ \<Rightarrow> True)
                     (label @ ''.secret_env must be null or an environment variable name'')
                   (case parse_events raw of
                      None \<Rightarrow> refuse (label @ ''.events contains invalid or duplicate states'')
                    | Some events \<Rightarrow>
                       (case dget_or (PInt 3) raw ''max_attempts'' of
                          PInt attempts \<Rightarrow>
                            guard (\<not> (1 \<le> attempts \<and> attempts \<le> 8))
                              (label @ ''.max_attempts must be between 1 and 8'')
                            (case dget_or (PBool False) raw ''allow_private_networks'' of
                               PBool allow \<Rightarrow>
                                 sum_bind (parse_number raw label ''timeout_seconds'' 5 (1/2, ''0.5'') (30, ''30''))
                                 (\<lambda>timeout.
                                 sum_bind (parse_number raw label ''retry_base_seconds'' 1 (1/10, ''0.1'') (60, ''60''))
                                 (\<lambda>retry.
                                 sum_bind (parse_number raw label ''min_interval_seconds'' 1 (0, ''0'') (300, ''300''))
                                 (\<lambda>interval.
                                   Inr \<lparr>wh_name = name, wh_url_env = url_env,
                                        wh_secret_env = as_text (oget raw ''secret_env''),
                                        wh_events = events, wh_timeout_seconds = timeout,
                                        wh_max_attempts = nat attempts,
                                        wh_retry_base_seconds = retry,
                                        wh_min_interval_seconds = interval,
                                        wh_allow_private_networks = allow\<rparr>)))
                             | _ \<Rightarrow> refuse (label @ ''.allow_private_networks must be true or false''))
                        | _ \<Rightarrow> refuse (label @ ''.max_attempts must be between 1 and 8''))))
               | _ \<Rightarrow> refuse (label @ ''.url_env must be an environment variable name'')))
          | _ \<Rightarrow> refuse name_message))
     | _ \<Rightarrow> refuse (label @ '' must be a JSON object''))"

fun parse_webhooks :: "nat \<Rightarrow> pyval list \<Rightarrow> webhook_config list \<Rightarrow> webhook_config list parsed" where
  "parse_webhooks index [] webhooks = Inr webhooks"
| "parse_webhooks index (item # items) webhooks =
    sum_bind (parse_webhook (map wh_name webhooks) index item)
      (\<lambda>webhook. parse_webhooks (Suc index) items (webhooks @ [webhook]))"

definition webhook_configs :: "obj \<Rightarrow> webhook_config list parsed" where
  "webhook_configs data =
    (let message = ''webhooks must be a list with at most 16 entries'' in
     case dget_or (PList []) data ''webhooks'' of
       PList items \<Rightarrow> guard (16 < length items) message (parse_webhooks 0 items [])
     | _ \<Rightarrow> refuse message)"

section \<open>What is accepted\<close>

subsection \<open>Stripping\<close>

lemma dropWhile_hd: "dropWhile P s = [] \<or> \<not> P (hd (dropWhile P s))"
  using hd_dropWhile by blast

lemma dropWhile_id: "s = [] \<or> \<not> P (hd s) \<Longrightarrow> dropWhile P s = s"
  by (cases s) auto

lemma strip_id: "s = [] \<or> \<not> is_space (hd s) \<and> \<not> is_space (List.last s) \<Longrightarrow> strip s = s"
  by (auto simp: strip_def dropWhile_id hd_rev)

lemma rev_dropWhile_hd:
  "rev (dropWhile P (rev u)) \<noteq> [] \<Longrightarrow> hd (rev (dropWhile P (rev u))) = hd u"
  by (metis dropWhile_eq_Nil_conv hd_append2 rev.simps(1) rev_append rev_rev_ident takeWhile_dropWhile_id)

lemma strip_ends: "strip s = [] \<or> \<not> is_space (hd (strip s)) \<and> \<not> is_space (List.last (strip s))"
proof (cases "strip s = []")
  case False
  then have "dropWhile is_space s \<noteq> []" unfolding strip_def by (metis dropWhile.simps(1) rev.simps(1))
  then have "\<not> is_space (hd (dropWhile is_space s))" using dropWhile_hd by blast
  with False have "\<not> is_space (hd (strip s))" by (simp add: strip_def rev_dropWhile_hd)
  moreover have "\<not> is_space (List.last (strip s))"
    using False dropWhile_hd [of is_space "rev (dropWhile is_space s)"]
    unfolding strip_def by (metis last_rev rev_is_Nil_conv)
  ultimately show ?thesis by simp
qed simp

lemma strip_strip [simp]: "strip (strip s) = strip s"
  by (rule strip_id [OF strip_ends])

lemma set_strip: "set (strip s) \<subseteq> set s"
  unfolding strip_def by (metis set_dropWhileD set_rev subsetI)

lemma alnum_not_space: "alnum c \<Longrightarrow> \<not> is_space c"
proof -
  assume "alnum c"
  moreover have "(of_char c :: int) = int (of_char c :: nat)" by (simp add: of_nat_of_char)
  ultimately show ?thesis unfolding alnum_def is_space_def Let_def by linarith
qed

lemma alias_no_space: "is_safe_alias s \<Longrightarrow> c \<in> set s \<Longrightarrow> \<not> is_space c"
proof -
  assume "is_safe_alias s" "c \<in> set s"
  then have "alnum c \<or> c = CHR ''.'' \<or> c = CHR ''_'' \<or> c = CHR ''-''"
    by (cases s) (auto simp: is_safe_alias_def list_all_iff)
  moreover have "\<not> is_space (CHR ''.'')" "\<not> is_space (CHR ''_'')" "\<not> is_space (CHR ''-'')"
    by code_simp+
  ultimately show ?thesis using alnum_not_space by blast
qed

lemma alias_strip [simp]: "is_safe_alias s \<Longrightarrow> strip s = s"
  using alias_no_space by (intro strip_id) (metis hd_in_set last_in_set)

subsection \<open>The links\<close>

definition link_wf :: "string \<Rightarrow> topology_link \<Rightarrow> bool" where
  "link_wf origin l \<longleftrightarrow>
    is_safe_alias (tl_source l) \<and> is_safe_alias (tl_target l) \<and> tl_source l \<noteq> tl_target l
    \<and> tl_target l \<noteq> origin \<and> tl_transport l \<in> set topology_transports
    \<and> (case tl_label l of None \<Rightarrow> True | Some s \<Rightarrow> strip s = s \<and> \<not> bad_label s)"

lemma bad_label_strip: "\<not> bad_label s \<Longrightarrow> \<not> bad_label (strip s)"
  using set_strip [of s] by (auto simp: bad_label_def list_ex_iff)

lemma safe_text_Some [simp]: "safe_text v = Some s \<longleftrightarrow> v = PStr s \<and> is_safe_alias s"
  by (auto simp: safe_text_def split: pyval.splits)

lemma parse_link_wf:
  assumes "parse_link origin targets index item = Inr l"
  shows "link_wf origin l \<and> tl_target l \<notin> set targets"
proof -
  obtain d where item: "item = PDict d" using assms by (cases item) (simp_all add: parse_link_def Let_def)
  note body = assms [unfolded item parse_link_def Let_def pyval.case guard_Inr]
  obtain source where source: "safe_text (oget d ''source'') = Some source"
    using body by (cases "safe_text (oget d ''source'')") simp_all
  obtain target where target: "safe_text (oget d ''target'') = Some target"
    using body source by (cases "safe_text (oget d ''target'')") simp_all
  note body' = body [THEN conjunct2, unfolded source target option.case prod.case guard_Inr]
  obtain transport where transport: "oget d ''transport'' = PStr transport"
    using body' by (cases "oget d ''transport''") simp_all
  have safe: "is_safe_alias source" "is_safe_alias target" using source target by simp_all
  show ?thesis
    using body' safe bad_label_strip unfolding transport pyval.case guard_Inr
    by (cases "oget d ''label''") (fastforce simp: link_wf_def)+
qed

lemma parse_links_wf:
  "parse_links origin index items links = Inr result \<Longrightarrow>
    distinct (map tl_target links) \<Longrightarrow> list_all (link_wf origin) links \<Longrightarrow>
    distinct (map tl_target result) \<and> list_all (link_wf origin) result
      \<and> length result = length links + length items"
proof (induction origin index items links rule: parse_links.induct)
  case (2 origin index item items links)
  from "2.prems"(1) obtain l where
    l: "parse_link origin (map tl_target links) index item = Inr l"
    and rest: "parse_links origin (Suc index) items (links @ [l]) = Inr result"
    by (auto simp: sum_bind_Inr)
  from parse_link_wf [OF l] "2.prems"(2,3)
  have "distinct (map tl_target (links @ [l]))" "list_all (link_wf origin) (links @ [l])" by auto
  from "2.IH" [OF rest this] show ?case by simp
qed simp

definition link_doc :: "topology_link \<Rightarrow> pyval" where
  "link_doc l = PDict (map (\<lambda>(k, v). (k, PStr v)) (link_to_dict l))"

lemma parse_link_doc:
  assumes "link_wf origin l" "tl_target l \<notin> set targets"
  shows "parse_link origin targets index (link_doc l) = Inr l"
  using assms
  by (cases "tl_label l")
     (auto simp: parse_link_def Let_def link_wf_def link_doc_def link_to_dict_def link_keys_ok_def
       guard_def safe_text_def split: option.split)

lemma parse_links_doc:
  assumes "distinct (map tl_target (links @ more_links))" "list_all (link_wf origin) more_links"
  shows "parse_links origin index (map link_doc more_links) links = Inr (links @ more_links)"
  using assms
proof (induction more_links arbitrary: links index)
  case (Cons l ls)
  have "parse_link origin (map tl_target links) index (link_doc l) = Inr l"
    using Cons.prems by (intro parse_link_doc) auto
  with Cons.IH [of "links @ [l]" "Suc index"] Cons.prems show ?case by simp
qed simp

subsection \<open>The walk\<close>

lemma reach_step_sets:
  "set (fst (reach_step targets r p)) = set r \<union> set targets"
  "set (snd (reach_step targets r p)) = set p \<union> (set targets - set r)"
  by (induction targets r p rule: reach_step.induct) auto

lemma reach_closed:
  "\<forall>n \<in> set r - set p. set (dget_or [] children n) \<subseteq> set r \<Longrightarrow>
    set r \<subseteq> set (reach children r p)
    \<and> (\<forall>n \<in> set (reach children r p). set (dget_or [] children n) \<subseteq> set (reach children r p))"
proof (induction children r p rule: reach.induct)
  case (2 children r source p)
  obtain r' p' where step: "reach_step (dget_or [] children source) r p = (r', p')" by fastforce
  have sets: "set r' = set r \<union> set (dget_or [] children source)"
    "set p' = set p \<union> (set (dget_or [] children source) - set r)"
    using reach_step_sets [of "dget_or [] children source" r p] by (simp_all add: step)
  have "\<forall>n \<in> set r' - set p'. set (dget_or [] children n) \<subseteq> set r'"
    using "2.prems" unfolding sets by auto
  from "2.IH" [OF step [symmetric] refl this] show ?case using sets by (auto simp: step)
qed simp

lemma reach_within:
  "set r \<subseteq> below links n \<Longrightarrow> set p \<subseteq> below links n \<Longrightarrow>
    set (reach (children_of links) r p) \<subseteq> below links n"
proof (induction "children_of links" r p rule: reach.induct)
  case (2 r source p)
  let ?ts = "dget_or [] (children_of links) source"
  obtain r' p' where step: "reach_step ?ts r p = (r', p')" by fastforce
  have "below links source \<subseteq> below links n"
    using "2.prems"(2) by (auto simp: below_def intro: rtrancl_trans)
  moreover have "set ?ts \<subseteq> below links source"
    by (subst below_unfold) (auto simp: below_def)
  ultimately have "set r' \<subseteq> below links n" "set p' \<subseteq> below links n"
    using reach_step_sets [of ?ts r p] "2.prems" by (auto simp: step)
  from "2.hyps" [OF step [symmetric] refl this] show ?case by (simp add: step)
qed simp

lemma reach_below: "set (reach (children_of links) [n] [n]) = below links n"
proof
  show "set (reach (children_of links) [n] [n]) \<subseteq> below links n"
    by (rule reach_within) (simp_all add: below_def)
  let ?R = "set (reach (children_of links) [n] [n])"
  have start: "n \<in> ?R" and closed: "\<forall>m \<in> ?R. set (dget_or [] (children_of links) m) \<subseteq> ?R"
    using reach_closed [of "[n]" "[n]" "children_of links"] by auto
  show "below links n \<subseteq> ?R"
  proof
    fix m
    assume "m \<in> below links n"
    then have "(n, m) \<in> (edges links)\<^sup>*" by (simp add: below_def)
    then show "m \<in> ?R"
    proof (induction rule: rtrancl_induct)
      case (step y z)
      then have "z \<in> set (dget_or [] (children_of links) y)"
        by (auto simp: children_of_links links_from_def edges_def)
      with closed step.IH show ?case by blast
    qed (rule start)
  qed
qed

subsection \<open>Accepted topologies\<close>

definition topology_wf :: "topology \<Rightarrow> bool" where
  "topology_wf t \<longleftrightarrow>
    is_safe_alias (tp_root t) \<and> length (tp_links t) \<le> topology_max_links
    \<and> list_all (link_wf (tp_root t)) (tp_links t) \<and> distinct (map tl_target (tp_links t))
    \<and> link_ends (tp_links t) \<subseteq> below (tp_links t) (tp_root t)"

text \<open>\<open>ConnectionTopologyConfig.to_dict\<close>.\<close>

definition topology_doc :: "topology \<Rightarrow> pyval" where
  "topology_doc t =
    PDict [(''root'', PStr (tp_root t)), (''links'', PList (map link_doc (tp_links t)))]"

lemma topology_wf_tree: "topology_wf t \<Longrightarrow> tree_topology t"
  by (auto simp: topology_wf_def tree_topology_def link_wf_def list_all_iff)

lemma connection_topology_wf:
  assumes "connection_topology raw = Inr t"
  shows "topology_wf t"
proof -
  obtain d where raw: "raw = PDict d" using assms by (cases raw) (simp_all add: connection_topology_def)
  note body = assms [unfolded raw connection_topology_def pyval.case guard_Inr, THEN conjunct2]
  obtain origin where origin: "safe_text (oget d ''root'') = Some origin"
    using body by (cases "safe_text (oget d ''root'')") simp_all
  then have safe: "is_safe_alias origin" by simp
  note body' = body [unfolded origin option.case Let_def alias_strip [OF safe]]
  obtain raw_links where raw_links: "oget d ''links'' = PList raw_links"
    using body' by (cases "oget d ''links''") simp_all
  note body'' = body' [unfolded raw_links pyval.case guard_Inr sum_bind_Inr reach_below]
  then obtain links where few: "length raw_links \<le> topology_max_links"
    and links: "parse_links origin 0 raw_links [] = Inr links"
    and reachable: "link_ends links \<subseteq> below links origin"
    and t: "t = \<lparr>tp_root = origin, tp_links = links\<rparr>"
    by auto
  from parse_links_wf [OF links] few safe reachable show ?thesis
    by (simp add: t topology_wf_def)
qed

lemma connection_topology_doc:
  assumes "topology_wf t"
  shows "connection_topology (topology_doc t) = Inr t"
proof -
  have "parse_links (tp_root t) 0 (map link_doc (tp_links t)) [] = Inr (tp_links t)"
    using parse_links_doc [of "[]" "tp_links t"] assms by (simp add: topology_wf_def)
  moreover have "safe_text (PStr (tp_root t)) = Some (tp_root t)" "strip (tp_root t) = tp_root t"
    using assms by (simp_all add: topology_wf_def)
  ultimately show ?thesis
    using assms unfolding connection_topology_def topology_doc_def Let_def topology_wf_def
    by (simp add: guard_def reach_below del: safe_text_Some reach.simps)
qed

subsection \<open>Accepted webhooks\<close>

definition webhook_wf :: "webhook_config \<Rightarrow> bool" where
  "webhook_wf w \<longleftrightarrow>
    webhook_name (wh_name w) \<and> environment_name (wh_url_env w)
    \<and> (case wh_secret_env w of None \<Rightarrow> True | Some s \<Rightarrow> environment_name s)
    \<and> wh_events w \<noteq> [] \<and> distinct (wh_events w) \<and> set (wh_events w) \<subseteq> set webhook_event_states
    \<and> 1 / 2 \<le> wh_timeout_seconds w \<and> wh_timeout_seconds w \<le> 30
    \<and> 1 \<le> wh_max_attempts w \<and> wh_max_attempts w \<le> 8
    \<and> 1 / 10 \<le> wh_retry_base_seconds w \<and> wh_retry_base_seconds w \<le> 60
    \<and> 0 \<le> wh_min_interval_seconds w \<and> wh_min_interval_seconds w \<le> 300"

lemma parse_number_bounds:
  assumes "parse_number raw label key preset low high = Inr x"
  shows "fst low \<le> x \<and> x \<le> fst high"
  using assms by (auto simp: parse_number_def Let_def split: pyval.splits)

lemma parse_events_wf:
  assumes "parse_events raw = Some events"
  shows "events \<noteq> [] \<and> distinct events \<and> set events \<subseteq> set webhook_event_states"
  using assms by (auto simp: parse_events_def Let_def list_ex_iff split: pyval.splits if_splits)

lemma parse_webhook_wf:
  assumes "parse_webhook names index item = Inr w"
  shows "webhook_wf w \<and> wh_name w \<notin> set names"
proof -
  obtain raw where item: "item = PDict raw" using assms by (cases item) (simp_all add: parse_webhook_def Let_def)
  note b1 = assms [unfolded item parse_webhook_def Let_def pyval.case guard_Inr, THEN conjunct2]
  obtain name where name: "oget raw ''name'' = PStr name" using b1 by (cases "oget raw ''name''") simp_all
  note b2 = b1 [unfolded name pyval.case guard_Inr]
  obtain url where url: "oget raw ''url_env'' = PStr url" using b2 by (cases "oget raw ''url_env''") simp_all
  note b3 = b2 [unfolded url pyval.case guard_Inr]
  obtain events where events: "parse_events raw = Some events" using b3 by (cases "parse_events raw") simp_all
  note b4 = b3 [unfolded events option.case]
  obtain attempts where attempts: "dget_or (PInt 3) raw ''max_attempts'' = PInt attempts"
    using b4 by (cases "dget_or (PInt 3) raw ''max_attempts''") simp_all
  note b5 = b4 [unfolded attempts pyval.case guard_Inr]
  obtain allow where allow: "dget_or (PBool False) raw ''allow_private_networks'' = PBool allow"
    using b5 by (cases "dget_or (PBool False) raw ''allow_private_networks''") simp_all
  note b6 = b5 [unfolded allow pyval.case sum_bind_Inr]
  then obtain timeout retry interval where
    numbers: "parse_number raw (index_label ''webhooks'' index) ''timeout_seconds'' 5 (1/2, ''0.5'') (30, ''30'') = Inr timeout"
      "parse_number raw (index_label ''webhooks'' index) ''retry_base_seconds'' 1 (1/10, ''0.1'') (60, ''60'') = Inr retry"
      "parse_number raw (index_label ''webhooks'' index) ''min_interval_seconds'' 1 (0, ''0'') (300, ''300'') = Inr interval"
    and w: "w = \<lparr>wh_name = name, wh_url_env = url, wh_secret_env = as_text (oget raw ''secret_env''),
      wh_events = events, wh_timeout_seconds = timeout, wh_max_attempts = nat attempts,
      wh_retry_base_seconds = retry, wh_min_interval_seconds = interval,
      wh_allow_private_networks = allow\<rparr>" by auto
  have "case as_text (oget raw ''secret_env'') of None \<Rightarrow> True | Some s \<Rightarrow> environment_name s"
    using b3 by (cases "oget raw ''secret_env''") simp_all
  then show ?thesis
    using b5 parse_events_wf [OF events] numbers [THEN parse_number_bounds]
    by (simp add: w webhook_wf_def) linarith
qed

lemma parse_webhooks_wf:
  "parse_webhooks index items ws = Inr result \<Longrightarrow> list_all webhook_wf ws \<Longrightarrow> distinct (map wh_name ws) \<Longrightarrow>
    list_all webhook_wf result \<and> distinct (map wh_name result) \<and> length result = length ws + length items"
proof (induction index items ws rule: parse_webhooks.induct)
  case (2 index item items ws)
  from "2.prems"(1) obtain w where w: "parse_webhook (map wh_name ws) index item = Inr w"
    and rest: "parse_webhooks (Suc index) items (ws @ [w]) = Inr result" by (auto simp: sum_bind_Inr)
  from parse_webhook_wf [OF w] "2.prems"(2,3)
  have "list_all webhook_wf (ws @ [w])" "distinct (map wh_name (ws @ [w]))" by auto
  from "2.IH" [OF rest this] show ?case by simp
qed simp

text \<open>A list where the mode should be is not refused as a configuration error.\<close>

lemma workload_mode_unhashable:
  "case workload_config_of [(''workloads'', PDict [(''mode'', PList [])])] of
     Inl e \<Rightarrow> e = Uncaught_Type_Error | Inr _ \<Rightarrow> False"
  by code_simp

subsection \<open>How documents are refused\<close>

definition clean :: "'a parsed \<Rightarrow> bool" where
  "clean x \<longleftrightarrow> x \<noteq> Inl Uncaught_Type_Error \<and> x \<noteq> Inl Uncaught_Overflow_Error"

lemma clean_rules [intro!, simp]:
  "clean (Inr x)" "clean (refuse m)" "clean r \<Longrightarrow> clean (guard c m r)"
  by (simp_all add: clean_def refuse_def guard_def)

lemma clean_bind [intro]: "clean x \<Longrightarrow> (\<And>v. clean (f v)) \<Longrightarrow> clean (sum_bind x f)"
  by (cases x) (auto simp: clean_def)

lemma clean_pyval_case [intro]:
  assumes "clean a" "\<And>b. clean (f b)" "\<And>i. clean (g i)" "\<And>x. clean (h x)" "\<And>b. clean (j b)"
    "clean n" "\<And>s. clean (t s)" "\<And>xs. clean (l xs)" "\<And>d. clean (e d)"
  shows "clean (case v of PNone \<Rightarrow> a | PBool b \<Rightarrow> f b | PInt i \<Rightarrow> g i | PFloat x \<Rightarrow> h x
    | PInf b \<Rightarrow> j b | PNan \<Rightarrow> n | PStr s \<Rightarrow> t s | PList xs \<Rightarrow> l xs | PDict d \<Rightarrow> e d)"
  using assms by (cases v) simp_all

lemma clean_option_case [intro]:
  "clean a \<Longrightarrow> (\<And>x. clean (f x)) \<Longrightarrow> clean (case v of None \<Rightarrow> a | Some x \<Rightarrow> f x)"
  by (cases v) simp_all

lemma clean_links: "clean (parse_links origin index items links)"
  by (induction origin index items links rule: parse_links.induct)
     (auto simp: parse_link_def Let_def intro!: clean_bind clean_pyval_case clean_option_case)

lemma clean_topology: "clean (connection_topology raw)"
  unfolding connection_topology_def Let_def
  by (intro clean_pyval_case clean_rules clean_option_case clean_bind clean_links)

lemma clean_persistence: "clean (persistence_config_of data)"
  unfolding persistence_config_of_def parse_integer_def Let_def
  by (intro clean_pyval_case clean_rules clean_bind)

lemma clean_webhook: "clean (parse_webhook names index item)"
  unfolding parse_webhook_def parse_number_def Let_def
  by (intro clean_pyval_case clean_rules clean_option_case clean_bind)

lemma clean_webhooks: "clean (webhook_configs data)"
proof -
  have "clean (parse_webhooks index items ws)" for index items ws
    by (induction index items ws rule: parse_webhooks.induct) (auto intro: clean_webhook)
  then show ?thesis unfolding webhook_configs_def Let_def
    by (intro clean_pyval_case clean_rules)
qed

lemma workload_unclean:
  "workload_config_of data = Inl Uncaught_Type_Error \<longleftrightarrow>
    (\<exists>raw. dget_or (PDict [(''mode'', PStr ''disabled'')]) data ''workloads'' = PDict raw
      \<and> unknown_keys raw [''mode''] = []
      \<and> (case oget raw ''mode'' of PList _ \<Rightarrow> True | PDict _ \<Rightarrow> True | _ \<Rightarrow> False))"
  by (auto simp: workload_config_of_def Let_def guard_def refuse_def split: pyval.split)

section \<open>Properties\<close>

text \<open>C23. The topology parser accepts exactly the well-formed topologies: a topology is the result of
  parsing some document if and only if its root and link ends are safe aliases, its transports and
  labels are allowed, it has at most 512 links, no node has two parents and the root none, and
  every link end is reachable from the root.\<close>

theorem topology_accepted_iff:
  "(\<exists>raw. connection_topology raw = Inr t) \<longleftrightarrow> topology_wf t"
  using connection_topology_wf connection_topology_doc by blast

text \<open>C24. For every topology the configuration parser accepts, building the incident correlator
  returns and so does correlating any incidents: the depth walk and the descent over the children
  both end, because an accepted topology is a tree.\<close>

theorem accepted_topology_correlates:
  assumes "connection_topology raw = Inr t"
  shows "\<exists>f. create_incident_correlator (Some t) = Some f
    \<and> (\<forall>items monitored. \<exists>cs. f items monitored = Some cs)"
  by (rule tree_correlator_returns [OF topology_wf_tree [OF connection_topology_wf [OF assms]]])

theorem accepted_topology_correlates_witness:
  "\<exists>t. connection_topology (topology_doc sample_tree) = Inr t
    \<and> (\<exists>f. create_incident_correlator (Some t) = Some f)"
proof -
  have "connection_topology (topology_doc sample_tree) = Inr sample_tree" by code_simp
  with accepted_topology_correlates [OF this] show ?thesis by blast
qed

text \<open>A well-formed topology survives its dictionary: parsing what the dictionary writes gives it
  back.\<close>

lemma topology_roundtrip:
  assumes "topology_wf t"
  shows "connection_topology (topology_doc t) = Inr t"
  by (rule connection_topology_doc [OF assms])

lemma topology_roundtrip_witness:
  "connection_topology (topology_doc \<lparr>tp_root = ''m'', tp_links = []\<rparr>) = Inr \<lparr>tp_root = ''m'', tp_links = []\<rparr>"
  by (rule topology_roundtrip)
     (simp add: topology_wf_def link_ends_def is_safe_alias_def alnum_def topology_max_links_def)

text \<open>Every accepted webhook section keeps the delivery machinery within its bounds: at most 16
  endpoints with distinct safe names, each with one to eight attempts, a timeout of 0.5 to 30
  seconds, a retry base of 0.1 to 60 seconds, an interval of at most 300 seconds and a non-empty
  set of known event states.\<close>

lemma webhooks_bounded:
  assumes "webhook_configs data = Inr ws"
  shows "length ws \<le> 16 \<and> distinct (map wh_name ws) \<and> list_all webhook_wf ws"
proof -
  obtain items where items: "dget_or (PList []) data ''webhooks'' = PList items"
    using assms by (cases "dget_or (PList []) data ''webhooks''") (simp_all add: webhook_configs_def Let_def)
  then have "length items \<le> 16" "parse_webhooks 0 items [] = Inr ws"
    using assms by (simp_all add: webhook_configs_def Let_def)
  with parse_webhooks_wf [of 0 items "[]" ws] show ?thesis by simp
qed

lemma webhooks_bounded_witness:
  "\<exists>ws. webhook_configs [(''webhooks'',
      PList [PDict [(''name'', PStr ''ops''), (''url_env'', PStr ''OPS_URL'')]])] = Inr ws
    \<and> length ws = 1 \<and> list_all webhook_wf ws"
proof -
  let ?d = "[(''webhooks'', PList [PDict [(''name'', PStr ''ops''), (''url_env'', PStr ''OPS_URL'')]])]"
  define ws where "ws = [\<lparr>wh_name = ''ops'', wh_url_env = ''OPS_URL'', wh_secret_env = None,
    wh_events = webhook_event_states, wh_timeout_seconds = 5, wh_max_attempts = 3,
    wh_retry_base_seconds = 1, wh_min_interval_seconds = 1, wh_allow_private_networks = False\<rparr>]"
  have "webhook_configs ?d = Inr ws" unfolding ws_def by code_simp
  with webhooks_bounded [OF this] show ?thesis by (simp add: ws_def)
qed

text \<open>How the four section parsers fail: topology, persistence and webhook sections are refused
  with a configuration error and nothing else, whatever the document; the workload section raises something
  else exactly when its mode is a list or an object.\<close>

lemma sections_refuse_cleanly:
  "clean (connection_topology raw) \<and> clean (persistence_config_of data) \<and> clean (webhook_configs data)
    \<and> (workload_config_of data = Inl Uncaught_Type_Error \<longleftrightarrow>
        (\<exists>raw. dget_or (PDict [(''mode'', PStr ''disabled'')]) data ''workloads'' = PDict raw
          \<and> unknown_keys raw [''mode''] = []
          \<and> (case oget raw ''mode'' of PList _ \<Rightarrow> True | PDict _ \<Rightarrow> True | _ \<Rightarrow> False)))"
  using clean_topology [of raw] clean_persistence [of data] clean_webhooks [of data]
    workload_unclean [of data] by simp

end
