(* ===== verification/Telemetry_Points.thy ===== *)
theory Telemetry_Points
  imports PyNumber Process_Transitions
begin

text \<open>
  The compact history records (\<open>telemetry_points.py\<close>). The bytes of \<open>struct.pack\<close> are the list of
  the packed values in order: a double packs and unpacks without change, a 32-bit index outside
  its range is refused. A missing number is packed as the value that is not a number.
\<close>

definition optional_float :: "pyval \<Rightarrow> py_error + double option" where
  "optional_float v =
    (case v of
       PInt i \<Rightarrow> map_sum id Some (py_float (PInt i))
     | PFloat x \<Rightarrow> Inr (Some (Fin x))
     | PInf neg \<Rightarrow> Inr (Some (Inf neg))
     | PNan \<Rightarrow> Inr (Some Nan)
     | _ \<Rightarrow> Inr None)"

definition packed_optional_float :: "double option \<Rightarrow> double" where
  "packed_optional_float v = (case v of None \<Rightarrow> Nan | Some x \<Rightarrow> x)"

definition unpacked_optional_float :: "double \<Rightarrow> double option" where
  "unpacked_optional_float v = (if v = Nan then None else Some v)"

section \<open>Host samples\<close>

record host_history_point =
  hp_observed_at :: string
  hp_values :: "double list"

record host_sample =
  hs_cpu_usage_pct :: "double option"
  hs_memory_usage_pct :: double
  hs_swap_usage_pct :: double
  hs_disk_usage_pct :: double
  hs_network_rx_bps :: "double option"
  hs_network_tx_bps :: "double option"
  hs_disk_read_bps :: "double option"
  hs_disk_write_bps :: "double option"
  hs_gpu_usage_pct :: "double option"
  hs_gpu_memory_usage_pct :: "double option"
  hs_gpu_temperature_c :: "double option"
  hs_transport_retried :: bool

definition host_create :: "string \<Rightarrow> host_sample \<Rightarrow> host_history_point" where
  "host_create observed_at s =
    \<lparr>hp_observed_at = observed_at,
     hp_values =
       [packed_optional_float (hs_cpu_usage_pct s), hs_memory_usage_pct s, hs_swap_usage_pct s,
        hs_disk_usage_pct s, packed_optional_float (hs_network_rx_bps s),
        packed_optional_float (hs_network_tx_bps s), packed_optional_float (hs_disk_read_bps s),
        packed_optional_float (hs_disk_write_bps s), packed_optional_float (hs_gpu_usage_pct s),
        packed_optional_float (hs_gpu_memory_usage_pct s),
        packed_optional_float (hs_gpu_temperature_c s),
        Fin (if hs_transport_retried s then 1 else 0)]\<rparr>"

definition opt_value :: "double \<Rightarrow> pyval" where
  "opt_value v = popt double_value (unpacked_optional_float v)"

text \<open>\<open>unpack\<close> of a value of any other length raises; the constructor never makes one.\<close>

definition host_to_dict :: "host_history_point \<Rightarrow> py_error + obj" where
  "host_to_dict p =
    (case hp_values p of
       [cpu, memory, swap, disk, rx, tx, dread, dwrite, gpu, gpu_memory, gpu_temperature, retried] \<Rightarrow>
         Inr [(''observedAt'', PStr (hp_observed_at p)),
              (''cpuUsagePct'', opt_value cpu),
              (''memoryUsagePct'', double_value memory),
              (''swapUsagePct'', double_value swap),
              (''diskUsagePct'', double_value disk),
              (''networkRxBps'', opt_value rx),
              (''networkTxBps'', opt_value tx),
              (''diskReadBps'', opt_value dread),
              (''diskWriteBps'', opt_value dwrite),
              (''gpuUsagePct'', opt_value gpu),
              (''gpuMemoryUsagePct'', opt_value gpu_memory),
              (''gpuTemperatureC'', opt_value gpu_temperature),
              (''transportRetried'', PBool (retried \<noteq> Fin 0))]
     | _ \<Rightarrow> Inl Struct_Error)"

definition host_from_dict :: "(pyval \<Rightarrow> string) \<Rightarrow> obj \<Rightarrow> py_error + host_history_point" where
  "host_from_dict render d =
    (let opt = (\<lambda>k. optional_float (oget d k)); need = (\<lambda>k. sum_bind (sub_key d k) py_float) in
     sum_bind (sub_key d ''observedAt'') (\<lambda>stamp.
     sum_bind (opt ''cpuUsagePct'') (\<lambda>cpu.
     sum_bind (need ''memoryUsagePct'') (\<lambda>memory.
     sum_bind (need ''swapUsagePct'') (\<lambda>swap.
     sum_bind (need ''diskUsagePct'') (\<lambda>disk.
     sum_bind (opt ''networkRxBps'') (\<lambda>rx.
     sum_bind (opt ''networkTxBps'') (\<lambda>tx.
     sum_bind (opt ''diskReadBps'') (\<lambda>dread.
     sum_bind (opt ''diskWriteBps'') (\<lambda>dwrite.
     sum_bind (opt ''gpuUsagePct'') (\<lambda>gpu.
     sum_bind (opt ''gpuMemoryUsagePct'') (\<lambda>gpu_memory.
     sum_bind (opt ''gpuTemperatureC'') (\<lambda>gpu_temperature.
       Inr (host_create (str_of render stamp)
         \<lparr>hs_cpu_usage_pct = cpu, hs_memory_usage_pct = memory, hs_swap_usage_pct = swap,
          hs_disk_usage_pct = disk, hs_network_rx_bps = rx, hs_network_tx_bps = tx,
          hs_disk_read_bps = dread, hs_disk_write_bps = dwrite, hs_gpu_usage_pct = gpu,
          hs_gpu_memory_usage_pct = gpu_memory, hs_gpu_temperature_c = gpu_temperature,
          hs_transport_retried = truthy (oget d ''transportRetried'')\<rparr>))))))))))))))"

section \<open>GPU samples\<close>

record gpu_history_point =
  gh_observed_at :: string
  gh_index :: int
  gh_values :: "double list"

definition gpu_create ::
  "string \<Rightarrow> int \<Rightarrow> double option \<Rightarrow> double option \<Rightarrow> double option \<Rightarrow> double option \<Rightarrow> double option \<Rightarrow>
   py_error + gpu_history_point" where
  "gpu_create observed_at index utilization memory_used memory_total temperature draw =
    (if - (2 ^ 31) \<le> index \<and> index < 2 ^ 31 then
       Inr \<lparr>gh_observed_at = observed_at, gh_index = index,
            gh_values = map packed_optional_float
              [utilization, memory_used, memory_total, temperature, draw]\<rparr>
     else Inl Struct_Error)"

definition gpu_to_dict :: "gpu_history_point \<Rightarrow> string \<Rightarrow> py_error + obj" where
  "gpu_to_dict p gpu_id =
    (case gh_values p of
       [utilization, memory_used, memory_total, temperature, draw] \<Rightarrow>
         Inr [(''observedAt'', PStr (gh_observed_at p)),
              (''gpuId'', PStr gpu_id),
              (''index'', PInt (gh_index p)),
              (''utilizationGpuPct'', opt_value utilization),
              (''memoryUsedMiB'', opt_value memory_used),
              (''memoryTotalMiB'', opt_value memory_total),
              (''temperatureC'', opt_value temperature),
              (''powerDrawW'', opt_value draw)]
     | _ \<Rightarrow> Inl Struct_Error)"

definition gpu_from_dict :: "(pyval \<Rightarrow> string) \<Rightarrow> obj \<Rightarrow> py_error + gpu_history_point" where
  "gpu_from_dict render d =
    (let opt = (\<lambda>k. optional_float (oget d k)) in
     sum_bind (sub_key d ''observedAt'') (\<lambda>stamp.
     sum_bind (sum_bind (sub_key d ''index'') py_int) (\<lambda>index.
     sum_bind (opt ''utilizationGpuPct'') (\<lambda>utilization.
     sum_bind (opt ''memoryUsedMiB'') (\<lambda>memory_used.
     sum_bind (opt ''memoryTotalMiB'') (\<lambda>memory_total.
     sum_bind (opt ''temperatureC'') (\<lambda>temperature.
     sum_bind (opt ''powerDrawW'') (\<lambda>draw.
       gpu_create (str_of render stamp) index utilization memory_used memory_total temperature draw))))))))"

section \<open>Process transitions\<close>

definition transition_from_dict :: "(pyval \<Rightarrow> string) \<Rightarrow> obj \<Rightarrow> py_error + gpu_process_transition" where
  "transition_from_dict render d =
    (let text = (\<lambda>k. map_sum id (str_of render) (sub_key d k));
         number = (\<lambda>k. sum_bind (sub_key d k) py_int) in
     sum_bind (text ''observedAt'') (\<lambda>observed_at.
     sum_bind (text ''gpuId'') (\<lambda>gpu_id.
     sum_bind (number ''index'') (\<lambda>index.
     sum_bind (text ''event'') (\<lambda>ev.
     sum_bind (number ''pid'') (\<lambda>pid.
     sum_bind (text ''name'') (\<lambda>name.
     sum_bind (optional_float (oget d ''usedMemoryMiB'')) (\<lambda>memory.
       Inr \<lparr>gt_observed_at = observed_at, gt_gpu_id = gpu_id, gt_index = index, gt_event = ev,
            gt_pid = pid, gt_name = name, gt_used_memory_mib = memory,
            gt_workload = (case oget d ''workload'' of PDict w \<Rightarrow> Some w | _ \<Rightarrow> None),
            gt_visible = (oget d ''_visible'' \<noteq> PBool False),
            gt_first_seen_at = as_text (oget d ''firstSeenAt'')\<rparr>))))))))"

section \<open>Round trips\<close>

lemma optional_float_opt_value [simp]:
  "optional_float (opt_value v) = Inr (unpacked_optional_float v)"
  by (cases v) (auto simp: opt_value_def unpacked_optional_float_def optional_float_def)

lemma optional_float_double [simp]: "optional_float (double_value v) = Inr (Some v)"
  by (cases v) (auto simp: optional_float_def)

lemma packed_unpacked [simp]: "packed_optional_float (unpacked_optional_float v) = v"
  by (simp add: packed_optional_float_def unpacked_optional_float_def)

lemma sub_key_Cons [simp]:
  "sub_key ((k, v) # d) j = (if j = k then Inr v else sub_key d j)"
  by (simp add: sub_key_def)

lemma str_of_text [simp]: "str_of render (PStr s) = s"
  by (simp add: str_of_def)

text \<open>A host sample survives its dictionary: whatever values it was created from, writing the
  point out and reading it back gives the same observation time and the same packed values, and
  neither direction fails.\<close>

lemma host_point_roundtrip:
  "sum_bind (host_to_dict (host_create observed_at s)) (host_from_dict render)
    = Inr (host_create observed_at s)"
  by (simp add: host_create_def host_to_dict_def host_from_dict_def Let_def)

text \<open>A GPU sample that could be created (its index fits 32 bits) survives its dictionary.\<close>

lemma gpu_point_roundtrip:
  assumes "gpu_create observed_at index u mu mt t p = Inr point"
  shows "sum_bind (gpu_to_dict point gpu_id) (gpu_from_dict render) = Inr point"
  using assms by (auto simp: gpu_create_def gpu_to_dict_def gpu_from_dict_def Let_def split: if_splits)

lemma gpu_point_roundtrip_witness:
  "\<exists>point. gpu_create ''t'' 3 (Some (Fin 7)) None None (Some (Inf True)) (Some Nan) = Inr point
    \<and> sum_bind (gpu_to_dict point ''uuid'') (gpu_from_dict (\<lambda>_. [])) = Inr point"
proof -
  have "gpu_create ''t'' 3 (Some (Fin 7)) None None (Some (Inf True)) (Some Nan) =
    Inr \<lparr>gh_observed_at = ''t'', gh_index = 3, gh_values = [Fin 7, Nan, Nan, Inf True, Nan]\<rparr>"
    by (simp add: gpu_create_def packed_optional_float_def)
  from this gpu_point_roundtrip [OF this] show ?thesis by blast
qed

text \<open>A process transition survives the form in which it is persisted, visibility included.\<close>

lemma transition_roundtrip: "transition_from_dict render (persistence_dict e) = Inr e"
  by (cases "gt_used_memory_mib e"; cases "gt_workload e")
     (simp_all add: transition_from_dict_def persistence_dict_def transition_to_dict_def Let_def
       popt_def optional_float_def [of PNone] split: option.split)

end
