(* ===== verification/Capacity.thy ===== *)
theory Capacity
  imports PyNumber
begin

text \<open>
  Ranking same-host, same-model GPU groups against a request (\<open>capacity.py\<close>). Servers, GPUs and
  conditions are the dictionaries of the snapshot; a number the browser would not accept reads as
  \<open>None\<close> here (\<open>nan\<close> in the code).
\<close>

definition host_blockers :: "string list" where
  "host_blockers = [''connectivity'', ''gpu_availability'', ''gpu_count'']"

definition gpu_blockers :: "string list" where
  "gpu_blockers = [''gpu_ecc'', ''gpu_memory_repair'', ''gpu_slowdown'', ''gpu_temperature'']"

definition unknown_model :: string where "unknown_model = ''Unknown NVIDIA GPU''"
definition any_model :: string where "any_model = ''any''"
definition no_available_utilization :: rat where "no_available_utilization = 101"

record capacity_request =
  rq_gpu_count :: int
  rq_min_vram_gib :: int
  rq_model :: string

text \<open>The options of one query: thresholds and the text of a value that is no text.\<close>

record capacity_query =
  cq_request :: capacity_request
  cq_busy_pct :: rat
  cq_temperature_c :: rat
  cq_render :: "pyval \<Rightarrow> string"

definition metric :: "pyval \<Rightarrow> string \<Rightarrow> rat option" where
  "metric r key = (case r of PDict d \<Rightarrow> finite_number (oget d key) | _ \<Rightarrow> None)"

definition has_category :: "string list \<Rightarrow> obj \<Rightarrow> bool" where
  "has_category known condition = (case oget condition ''category'' of PStr c \<Rightarrow> c \<in> set known | _ \<Rightarrow> False)"

definition gpu_has_blocker :: "(pyval \<Rightarrow> string) \<Rightarrow> obj \<Rightarrow> obj list \<Rightarrow> bool" where
  "gpu_has_blocker render gpu conditions =
    (let identity = str_of render (py_or (oget gpu ''uuid'') (oget gpu ''index''));
         resource_prefix = ''GPU '' @ str_of render (oget gpu ''index'')
     in list_ex (\<lambda>condition.
          has_category gpu_blockers condition \<and>
          (let key = str_of render (py_or (oget condition ''conditionKey'') (PStr []));
               resource = str_of render (py_or (oget condition ''resource'') (PStr []))
           in endswith key ('':'' @ identity) \<or> resource = resource_prefix
              \<or> startswith resource (resource_prefix @ '' ''))) conditions)"

definition available_gpu :: "obj \<Rightarrow> obj" where
  "available_gpu gpu =
    [(''index'', oget gpu ''index''), (''uuid'', oget gpu ''uuid''),
     (''freeVramMiB'', oget gpu ''memory_free_mib''),
     (''utilizationPct'', oget gpu ''utilization_gpu_pct''),
     (''temperatureC'', oget gpu ''temperature_c'')]"

record candidate =
  ca_host :: string
  ca_model :: string
  ca_total :: nat
  ca_available :: "obj list"
  ca_satisfies :: bool
  ca_deficit :: int
  ca_minimum_free :: rat
  ca_average_utilization :: rat
  ca_cpu_usage :: "rat option"

text \<open>\<open>conditions_by_host\<close>.\<close>

definition conditions_by_host :: "(pyval \<Rightarrow> string) \<Rightarrow> obj list \<Rightarrow> (string, obj list) dict" where
  "conditions_by_host render conditions =
    foldl (\<lambda>d c. dappend d (str_of render (oget c ''host'')) c) [] conditions"

text \<open>\<open>server.get("gpus", [])\<close>; each entry of the list is a dictionary.\<close>

definition gpus_of :: "obj \<Rightarrow> obj list" where
  "gpus_of server =
    (case oget server ''gpus'' of
       PList xs \<Rightarrow> map (\<lambda>x. case x of PDict d \<Rightarrow> d | _ \<Rightarrow> []) xs | _ \<Rightarrow> [])"

definition model_of :: "(pyval \<Rightarrow> string) \<Rightarrow> obj \<Rightarrow> string" where
  "model_of render gpu = str_of render (py_or (oget gpu ''name'') (PStr unknown_model))"

definition wanted_model :: "capacity_query \<Rightarrow> obj \<Rightarrow> bool" where
  "wanted_model q gpu \<longleftrightarrow> rq_model (cq_request q) = any_model
    \<or> model_of (cq_render q) gpu = rq_model (cq_request q)"

definition model_groups :: "capacity_query \<Rightarrow> obj \<Rightarrow> (string, obj list) dict" where
  "model_groups q server =
    foldl (\<lambda>d gpu. if wanted_model q gpu then dappend d (model_of (cq_render q) gpu) gpu else d)
      [] (gpus_of server)"

definition is_available :: "capacity_query \<Rightarrow> obj list \<Rightarrow> obj \<Rightarrow> bool" where
  "is_available q conditions gpu =
    (let m = metric (PDict gpu) in
     (case m ''utilization_gpu_pct'' of None \<Rightarrow> False | Some u \<Rightarrow> u < cq_busy_pct q)
     \<and> (case m ''memory_free_mib'' of
          None \<Rightarrow> False | Some f \<Rightarrow> of_int (rq_min_vram_gib (cq_request q) * 1024) \<le> f)
     \<and> (case m ''temperature_c'' of None \<Rightarrow> True | Some t \<Rightarrow> t < cq_temperature_c q)
     \<and> \<not> gpu_has_blocker (cq_render q) gpu conditions)"

definition numbers_of :: "string \<Rightarrow> obj list \<Rightarrow> rat list" where
  "numbers_of key gpus = List.map_filter (\<lambda>gpu. metric (PDict gpu) key) gpus"

definition group_candidate ::
  "capacity_query \<Rightarrow> obj \<Rightarrow> obj list \<Rightarrow> string \<times> obj list \<Rightarrow> candidate" where
  "group_candidate q server conditions entry =
    (let (model, gpus) = entry;
         available = filter (is_available q conditions) gpus;
         count = int (length available);
         wanted = rq_gpu_count (cq_request q);
         free_values = numbers_of ''memory_free_mib'' available;
         utilization_values = numbers_of ''utilization_gpu_pct'' available
     in \<lparr>ca_host = str_of (cq_render q) (oget server ''host''), ca_model = model,
         ca_total = length gpus, ca_available = map available_gpu available,
         ca_satisfies = (wanted \<le> count), ca_deficit = max 0 (wanted - count),
         ca_minimum_free = (case free_values of [] \<Rightarrow> 0 | x # xs \<Rightarrow> foldl min x xs),
         ca_average_utilization =
           (if utilization_values = [] then no_available_utilization
            else sum_list utilization_values / of_nat (length utilization_values)),
         ca_cpu_usage = metric (py_or (oget server ''system'') (PDict [])) ''cpu_usage_pct''\<rparr>)"

record matching =
  mt_candidates :: "candidate list"
  mt_satisfying :: nat
  mt_excluded_maintenance :: nat
  mt_excluded_health :: nat

definition eligible :: "obj \<Rightarrow> bool" where
  "eligible server \<longleftrightarrow> oget server ''status'' = PStr ''online'' \<and> \<not> truthy (oget server ''stale'')"

definition host_conditions :: "capacity_query \<Rightarrow> (string, obj list) dict \<Rightarrow> obj \<Rightarrow> obj list" where
  "host_conditions q by_host server = dget_or [] by_host (str_of (cq_render q) (oget server ''host''))"

text \<open>One pass of the loop over the servers.\<close>

definition match_server ::
  "capacity_query \<Rightarrow> (string, obj list) dict \<Rightarrow> obj \<Rightarrow> matching \<Rightarrow> matching" where
  "match_server q by_host server m =
    (if \<not> eligible server then m
     else if truthy (oget server ''maintenance'')
     then m\<lparr>mt_excluded_maintenance := mt_excluded_maintenance m + 1\<rparr>
     else
       (let conditions = host_conditions q by_host server in
        if list_ex (has_category host_blockers) conditions
        then m\<lparr>mt_excluded_health := mt_excluded_health m + 1\<rparr>
        else m\<lparr>mt_candidates := mt_candidates m
              @ map (group_candidate q server conditions) (model_groups q server)\<rparr>))"

definition rank :: "candidate \<Rightarrow> bool \<times> int \<times> int \<times> rat \<times> rat \<times> string" where
  "rank c = (\<not> ca_satisfies c, ca_deficit c, - int (length (ca_available c)), - ca_minimum_free c,
     ca_average_utilization c, ca_host c)"

definition match_capacity :: "capacity_query \<Rightarrow> obj list \<Rightarrow> obj list \<Rightarrow> matching" where
  "match_capacity q servers active_conditions =
    (let m = fold (match_server q (conditions_by_host (cq_render q) active_conditions)) servers
           \<lparr>mt_candidates = [], mt_satisfying = 0, mt_excluded_maintenance = 0, mt_excluded_health = 0\<rparr>;
         candidates = sort_key rank (mt_candidates m)
     in m\<lparr>mt_candidates := candidates, mt_satisfying := length (filter ca_satisfies candidates)\<rparr>)"

section \<open>What is ranked\<close>

text \<open>The conditions of a host, whether it may offer GPUs, and the GPUs of one model it offers.\<close>

definition conditions_on :: "capacity_query \<Rightarrow> obj list \<Rightarrow> obj \<Rightarrow> obj list" where
  "conditions_on q conditions server =
    filter (\<lambda>c. str_of (cq_render q) (oget c ''host'') = str_of (cq_render q) (oget server ''host'')) conditions"

definition admitted :: "capacity_query \<Rightarrow> obj list \<Rightarrow> obj \<Rightarrow> bool" where
  "admitted q conditions server \<longleftrightarrow> eligible server \<and> \<not> truthy (oget server ''maintenance'')
    \<and> (\<forall>c \<in> set (conditions_on q conditions server). \<not> has_category host_blockers c)"

definition usable :: "capacity_query \<Rightarrow> obj list \<Rightarrow> obj \<Rightarrow> string \<Rightarrow> obj list" where
  "usable q conditions server model =
    filter (\<lambda>gpu. wanted_model q gpu \<and> model_of (cq_render q) gpu = model
      \<and> is_available q (conditions_on q conditions server) gpu) (gpus_of server)"

lemma dget_or_dappend_key: "dget_or [] (dappend d k v) n = dget_or [] d n @ (if n = k then [v] else [])"
  by (auto simp: dappend_def dget_or_def split: option.split)

lemma by_host_fold:
  "dget_or [] (foldl (\<lambda>d c. dappend d (f c) c) d cs) h = dget_or [] d h @ filter (\<lambda>c. f c = h) cs"
  by (induction cs arbitrary: d) (auto simp: dget_or_dappend_key)

lemma host_conditions_eq:
  "host_conditions q (conditions_by_host (cq_render q) conditions) server = conditions_on q conditions server"
  by (simp add: host_conditions_def conditions_by_host_def by_host_fold conditions_on_def)

lemma model_groups_fold:
  "dget_or [] (foldl (\<lambda>d g. if p g then dappend d (f g) g else d) d gs) m
    = dget_or [] d m @ filter (\<lambda>g. p g \<and> f g = m) gs"
  by (induction gs arbitrary: d) (auto simp: dget_or_dappend_key)

lemma wf_model_groups_fold:
  "wf_dict d \<Longrightarrow> wf_dict (foldl (\<lambda>d g. if p g then dappend d (f g) g else d) d gs)"
  by (induction gs arbitrary: d) (auto simp: dappend_def)

lemma model_group:
  assumes "(model, gpus) \<in> set (model_groups q server)"
  shows "gpus = filter (\<lambda>g. wanted_model q g \<and> model_of (cq_render q) g = model) (gpus_of server)"
proof -
  have "dget (model_groups q server) model = Some gpus"
    using assms by (intro wf_dget_mem) (simp_all add: model_groups_def wf_model_groups_fold)
  then have "dget_or [] (model_groups q server) model = gpus" by (simp add: dget_or_def)
  then show ?thesis by (simp add: model_groups_def model_groups_fold)
qed

lemma model_group_present:
  assumes "filter (\<lambda>g. wanted_model q g \<and> model_of (cq_render q) g = model) (gpus_of server) \<noteq> []"
  shows "\<exists>gpus. (model, gpus) \<in> set (model_groups q server)"
proof -
  have "dget_or [] (model_groups q server) model \<noteq> []"
    using assms by (simp add: model_groups_def model_groups_fold)
  then show ?thesis by (auto simp: dget_or_def split: option.splits dest: dget_mem)
qed

lemma match_servers:
  "set (mt_candidates (fold (match_server q (conditions_by_host (cq_render q) conditions)) servers m))
    = set (mt_candidates m) \<union>
      (\<Union>server \<in> {server \<in> set servers. admitted q conditions server}.
        group_candidate q server (conditions_on q conditions server) ` set (model_groups q server))"
proof (induction servers arbitrary: m)
  case (Cons server servers)
  have "set (mt_candidates (match_server q (conditions_by_host (cq_render q) conditions) server m))
    = set (mt_candidates m) \<union>
      (if admitted q conditions server
       then group_candidate q server (conditions_on q conditions server) ` set (model_groups q server) else {})"
    by (auto simp: match_server_def Let_def host_conditions_eq admitted_def list_ex_iff)
  then show ?case by (simp add: Cons.IH) blast
qed simp

lemma candidate_of_group:
  assumes "(model, gpus) \<in> set (model_groups q server)"
  shows "ca_available (group_candidate q server (conditions_on q conditions server) (model, gpus))
      = map available_gpu (usable q conditions server model)"
  unfolding model_group [OF assms] by (simp add: group_candidate_def usable_def Let_def conj_ac)

lemma candidates_iff:
  "c \<in> set (mt_candidates (match_capacity q servers conditions)) \<longleftrightarrow>
    (\<exists>server \<in> set servers. admitted q conditions server \<and>
      (\<exists>entry \<in> set (model_groups q server).
        c = group_candidate q server (conditions_on q conditions server) entry))"
  by (auto simp: match_capacity_def Let_def match_servers)

lemma candidate_satisfies:
  "ca_satisfies (group_candidate q server conditions entry) \<longleftrightarrow>
    rq_gpu_count (cq_request q) \<le> int (length (ca_available (group_candidate q server conditions entry)))"
  by (cases entry) (simp add: group_candidate_def Let_def)

lemma rank_satisfies: "rank a \<le> rank b \<Longrightarrow> ca_satisfies b \<Longrightarrow> ca_satisfies a"
  by (auto simp: rank_def less_eq_prod_def)

text \<open>C25. The capacity match is sound: every candidate names a listed server that is online, fresh,
  outside maintenance and without a blocking condition, the GPUs it offers are exactly the usable
  ones of that server and model, and it is marked satisfying exactly when these are as many as
  requested. It is complete: an admitted server with enough usable GPUs of one model appears as a
  satisfying candidate. No unsatisfying candidate precedes a satisfying one, and the count of
  satisfying candidates is right.\<close>

theorem capacity_sound_complete:
  fixes q servers conditions
  defines "cs \<equiv> mt_candidates (match_capacity q servers conditions)"
  shows "(\<forall>c \<in> set cs. \<exists>server \<in> set servers. admitted q conditions server
        \<and> ca_host c = str_of (cq_render q) (oget server ''host'')
        \<and> ca_available c = map available_gpu (usable q conditions server (ca_model c))
        \<and> (ca_satisfies c \<longleftrightarrow> rq_gpu_count (cq_request q) \<le> int (length (ca_available c))))
    \<and> (\<forall>server \<in> set servers. \<forall>model. admitted q conditions server
        \<and> rq_gpu_count (cq_request q) \<le> int (length (usable q conditions server model))
        \<and> usable q conditions server model \<noteq> [] \<longrightarrow>
        (\<exists>c \<in> set cs. ca_host c = str_of (cq_render q) (oget server ''host'')
          \<and> ca_model c = model \<and> ca_satisfies c))
    \<and> sorted_wrt (\<lambda>a b. ca_satisfies b \<longrightarrow> ca_satisfies a) cs
    \<and> mt_satisfying (match_capacity q servers conditions) = length (filter ca_satisfies cs)"
proof (intro conjI)
  show "\<forall>c \<in> set cs. \<exists>server \<in> set servers. admitted q conditions server
        \<and> ca_host c = str_of (cq_render q) (oget server ''host'')
        \<and> ca_available c = map available_gpu (usable q conditions server (ca_model c))
        \<and> (ca_satisfies c \<longleftrightarrow> rq_gpu_count (cq_request q) \<le> int (length (ca_available c)))"
  proof
    fix c
    assume "c \<in> set cs"
    then obtain server model gpus where s: "server \<in> set servers" "admitted q conditions server"
      and e: "(model, gpus) \<in> set (model_groups q server)"
      and c: "c = group_candidate q server (conditions_on q conditions server) (model, gpus)"
      by (auto simp: cs_def candidates_iff)
    have "ca_host c = str_of (cq_render q) (oget server ''host'')" "ca_model c = model"
      by (simp_all add: c group_candidate_def Let_def)
    with s candidate_of_group [OF e, of conditions] candidate_satisfies show "\<exists>server \<in> set servers.
        admitted q conditions server
        \<and> ca_host c = str_of (cq_render q) (oget server ''host'')
        \<and> ca_available c = map available_gpu (usable q conditions server (ca_model c))
        \<and> (ca_satisfies c \<longleftrightarrow> rq_gpu_count (cq_request q) \<le> int (length (ca_available c)))"
      unfolding c by metis
  qed
  show "\<forall>server \<in> set servers. \<forall>model. admitted q conditions server
        \<and> rq_gpu_count (cq_request q) \<le> int (length (usable q conditions server model))
        \<and> usable q conditions server model \<noteq> [] \<longrightarrow>
        (\<exists>c \<in> set cs. ca_host c = str_of (cq_render q) (oget server ''host'')
          \<and> ca_model c = model \<and> ca_satisfies c)"
  proof (intro ballI allI impI)
    fix server model
    assume s: "server \<in> set servers"
      and u: "admitted q conditions server
        \<and> rq_gpu_count (cq_request q) \<le> int (length (usable q conditions server model))
        \<and> usable q conditions server model \<noteq> []"
    then have "filter (\<lambda>g. wanted_model q g \<and> model_of (cq_render q) g = model) (gpus_of server) \<noteq> []"
      by (auto simp: usable_def filter_empty_conv)
    from model_group_present [OF this] obtain gpus where e: "(model, gpus) \<in> set (model_groups q server)"
      by blast
    let ?c = "group_candidate q server (conditions_on q conditions server) (model, gpus)"
    have "?c \<in> set cs" using s u e by (auto simp: cs_def candidates_iff)
    moreover have "ca_satisfies ?c"
      unfolding candidate_satisfies candidate_of_group [OF e] using u by simp
    moreover have "ca_host ?c = str_of (cq_render q) (oget server ''host'')" "ca_model ?c = model"
      by (simp_all add: group_candidate_def Let_def)
    ultimately show "\<exists>c \<in> set cs. ca_host c = str_of (cq_render q) (oget server ''host'')
          \<and> ca_model c = model \<and> ca_satisfies c" by blast
  qed
  have "sorted (map rank cs)" by (simp add: cs_def match_capacity_def Let_def)
  then show "sorted_wrt (\<lambda>a b. ca_satisfies b \<longrightarrow> ca_satisfies a) cs"
    unfolding sorted_map by (rule sorted_wrt_mono_rel [rotated]) (use rank_satisfies in blast)
  show "mt_satisfying (match_capacity q servers conditions) = length (filter ca_satisfies cs)"
    by (simp add: cs_def match_capacity_def Let_def)
qed

text \<open>A fleet of one idle device.\<close>

definition example_gpu :: obj where
  "example_gpu = [(''index'', PInt 0), (''uuid'', PStr ''GPU-1''), (''name'', PStr ''A100''),
    (''utilization_gpu_pct'', PFloat 1), (''memory_free_mib'', PFloat 40000), (''temperature_c'', PFloat 30)]"

definition example_server :: obj where
  "example_server = [(''host'', PStr ''a''), (''status'', PStr ''online''), (''stale'', PBool False),
    (''gpus'', PList [PDict example_gpu])]"

definition example_capacity :: capacity_query where
  "example_capacity = \<lparr>cq_request = \<lparr>rq_gpu_count = 1, rq_min_vram_gib = 16, rq_model = any_model\<rparr>,
    cq_busy_pct = 10, cq_temperature_c = 80, cq_render = (\<lambda>_. [])\<rparr>"

theorem capacity_sound_complete_witness:
  "length (filter ca_satisfies (mt_candidates (match_capacity example_capacity [example_server] []))) = 1
    \<and> admitted example_capacity [] example_server"
proof -
  let ?cs = "mt_candidates (match_capacity example_capacity [example_server] [])"
  have "mt_satisfying (match_capacity example_capacity [example_server] []) = 1" by code_simp
  then have one: "length (filter ca_satisfies ?cs) = 1"
    using capacity_sound_complete [of example_capacity "[example_server]" "[]"] by simp
  then obtain c where "c \<in> set ?cs" by (cases ?cs) auto
  then have "admitted example_capacity [] example_server"
    using capacity_sound_complete [of example_capacity "[example_server]" "[]"] by auto
  with one show ?thesis by simp
qed

end
