(* ===== verification/Fleet_Stats.thy ===== *)
theory Fleet_Stats
  imports PyNumber
begin

text \<open>
  The totals of the snapshot's \<open>stats\<close> block (\<open>fleet_stats.py\<close>), over the serialized servers and
  the decorated active conditions. The keys the code subscripts are present in both; sums of
  floats are exact here.
\<close>

text \<open>\<open>float(value or 0)\<close> and \<open>float(value)\<close> of the numbers the servers serialize.\<close>

definition number_or_zero :: "pyval \<Rightarrow> rat" where
  "number_or_zero v = (case finite_number v of None \<Rightarrow> 0 | Some x \<Rightarrow> x)"

definition dict_of_value :: "pyval \<Rightarrow> obj" where
  "dict_of_value v = (case v of PDict d \<Rightarrow> d | _ \<Rightarrow> [])"

definition list_of_value :: "pyval \<Rightarrow> pyval list" where
  "list_of_value v = (case v of PList xs \<Rightarrow> xs | _ \<Rightarrow> [])"

definition sum_field :: "string \<Rightarrow> obj list \<Rightarrow> rat" where
  "sum_field key items = sum_list (map (\<lambda>d. number_or_zero (oget d key)) items)"

definition count_if :: "('a \<Rightarrow> bool) \<Rightarrow> 'a list \<Rightarrow> nat" where
  "count_if p xs = length (filter p xs)"

record fleet_totals =
  fs_servers :: nat
  fs_online :: nat
  fs_issue :: nat
  fs_incident :: nat
  fs_actionable_issue :: nat
  fs_actionable_incident :: nat
  fs_maintenance :: nat
  fs_stale :: nat
  fs_polling :: nat
  fs_active_incidents :: nat
  fs_critical_incidents :: nat
  fs_actionable_incidents :: nat
  fs_actionable_critical :: nat
  fs_gpus :: nat
  fs_busy_gpus :: nat
  fs_memory_total :: rat
  fs_memory_used :: rat
  fs_cpu_average :: "rat option"
  fs_cpu_cores :: int
  fs_system_memory_total :: rat
  fs_system_memory_used :: rat
  fs_swap_total :: rat
  fs_swap_used :: rat
  fs_disk_total :: rat
  fs_disk_used :: rat
  fs_network_rx :: rat
  fs_network_tx :: rat
  fs_disk_read :: rat
  fs_disk_write :: rat

definition is_online :: "obj \<Rightarrow> bool" where
  "is_online server \<longleftrightarrow> oget server ''status'' = PStr ''online''"

definition host_of :: "(pyval \<Rightarrow> string) \<Rightarrow> obj \<Rightarrow> string" where
  "host_of render d = str_of render (oget d ''host'')"

definition is_critical :: "obj \<Rightarrow> bool" where
  "is_critical condition \<longleftrightarrow> oget condition ''severity'' = PStr ''critical''"

definition is_actionable :: "obj \<Rightarrow> bool" where
  "is_actionable condition \<longleftrightarrow> truthy (oget condition ''actionable'')"

definition hosts_of :: "(pyval \<Rightarrow> string) \<Rightarrow> obj list \<Rightarrow> string list" where
  "hosts_of render ds = remdups (map (host_of render) ds)"

definition fleet_stats ::
  "(pyval \<Rightarrow> string) \<Rightarrow> obj list \<Rightarrow> obj list \<Rightarrow> string list \<Rightarrow> rat \<Rightarrow> fleet_totals" where
  "fleet_stats render servers active_conditions maintenance_hosts busy_pct =
    (let maintenance = remdups maintenance_hosts;
         current = filter is_online servers;
         gpus = map dict_of_value (concat (map (\<lambda>s. list_of_value (oget s ''gpus'')) current));
         systems = map dict_of_value (filter truthy (map (\<lambda>s. oget s ''system'') current));
         cpu_values = List.map_filter (\<lambda>s. finite_number (oget s ''cpu_usage_pct'')) systems;
         incident_hosts = hosts_of render active_conditions;
         actionable = filter is_actionable active_conditions;
         actionable_hosts = hosts_of render actionable;
         non_online = hosts_of render (filter (\<lambda>s. \<not> is_online s) servers);
         untracked = filter (\<lambda>h. h \<notin> set incident_hosts) non_online;
         actionable_issues = remdups (filter (\<lambda>h. h \<notin> set maintenance) untracked @ actionable_hosts)
     in \<lparr>fs_servers = length servers,
         fs_online = count_if is_online servers,
         fs_issue = length (remdups (non_online @ incident_hosts)),
         fs_incident = length incident_hosts,
         fs_actionable_issue = length actionable_issues,
         fs_actionable_incident = length actionable_hosts,
         fs_maintenance = length maintenance,
         fs_stale = count_if (\<lambda>s. truthy (oget s ''stale'')) servers,
         fs_polling = count_if (\<lambda>s. truthy (oget s ''polling'')) servers,
         fs_active_incidents = length active_conditions,
         fs_critical_incidents = count_if is_critical active_conditions,
         fs_actionable_incidents = length actionable,
         fs_actionable_critical = count_if is_critical actionable,
         fs_gpus = length gpus,
         fs_busy_gpus = count_if (\<lambda>g. busy_pct \<le> number_or_zero (oget g ''utilization_gpu_pct'')) gpus,
         fs_memory_total = round_to 1 (sum_field ''memory_total_mib'' gpus),
         fs_memory_used = round_to 1 (sum_field ''memory_used_mib'' gpus),
         fs_cpu_average = (if cpu_values = [] then None
           else Some (round_to 2 (sum_list cpu_values / of_nat (length cpu_values)))),
         fs_cpu_cores = sum_list (map (\<lambda>s. \<lfloor>number_or_zero (oget s ''cpu_cores'')\<rfloor>) systems),
         fs_system_memory_total = round_to 1 (sum_field ''memory_total_mib'' systems),
         fs_system_memory_used = round_to 1 (sum_field ''memory_used_mib'' systems),
         fs_swap_total = round_to 1 (sum_field ''swap_total_mib'' systems),
         fs_swap_used = round_to 1 (sum_field ''swap_used_mib'' systems),
         fs_disk_total = round_to 1 (sum_field ''disk_total_mib'' systems),
         fs_disk_used = round_to 1 (sum_field ''disk_used_mib'' systems),
         fs_network_rx = round_to 1 (sum_field ''network_rx_bps'' systems),
         fs_network_tx = round_to 1 (sum_field ''network_tx_bps'' systems),
         fs_disk_read = round_to 1 (sum_field ''disk_read_bps'' systems),
         fs_disk_write = round_to 1 (sum_field ''disk_write_bps'' systems)\<rparr>)"

section \<open>Consistency of the totals\<close>

lemma count_le: "count_if p xs \<le> length xs"
  by (simp add: count_if_def)

lemma count_filter_le: "count_if p (filter q xs) \<le> count_if p xs"
  unfolding count_if_def by (induction xs) auto

lemma remdups_card: "length (remdups xs) = card (set xs)"
  by (simp add: length_remdups_card_conv)

lemma issue_sets:
  fixes render servers conditions maintenance busy
  defines "incident \<equiv> set (hosts_of render conditions)"
    and "actionable \<equiv> set (hosts_of render (filter is_actionable conditions))"
    and "offline \<equiv> set (hosts_of render (filter (\<lambda>s. \<not> is_online s) servers))"
    and "t \<equiv> fleet_stats render servers conditions maintenance busy"
  shows "fs_issue t = card (offline \<union> incident)" "fs_incident t = card incident"
    "fs_actionable_issue t = card ((offline - incident - set maintenance) \<union> actionable)"
    "fs_actionable_incident t = card actionable"
proof -
  have len: "length (hosts_of render ds) = card (set (hosts_of render ds))" for ds
    by (simp add: hosts_of_def remdups_card)
  show "fs_issue t = card (offline \<union> incident)" "fs_incident t = card incident"
    "fs_actionable_incident t = card actionable"
    by (simp_all add: t_def fleet_stats_def Let_def remdups_card len incident_def actionable_def offline_def)
  have "set (remdups (filter (\<lambda>h. h \<notin> set (remdups maintenance))
      (filter (\<lambda>h. h \<notin> incident) (hosts_of render (filter (\<lambda>s. \<not> is_online s) servers)))
      @ hosts_of render (filter is_actionable conditions)))
    = (offline - incident - set maintenance) \<union> actionable"
    by (auto simp: actionable_def offline_def)
  then show "fs_actionable_issue t = card ((offline - incident - set maintenance) \<union> actionable)"
    by (simp add: t_def fleet_stats_def Let_def incident_def remdups_card)
qed

text \<open>The totals of the snapshot are consistent with one another, whatever the servers and
  conditions: no more servers online than listed, actionable hosts among the hosts with an issue
  and with an incident, critical and actionable incidents among the active ones and their
  combination among both, and busy devices among the devices.\<close>

lemma fleet_totals_consistent:
  fixes render servers conditions maintenance busy
  defines "t \<equiv> fleet_stats render servers conditions maintenance busy"
  shows "fs_online t \<le> fs_servers t \<and> fs_stale t \<le> fs_servers t \<and> fs_polling t \<le> fs_servers t
    \<and> fs_incident t \<le> fs_issue t \<and> fs_actionable_issue t \<le> fs_issue t
    \<and> fs_actionable_incident t \<le> fs_incident t \<and> fs_actionable_incident t \<le> fs_actionable_issue t
    \<and> fs_critical_incidents t \<le> fs_active_incidents t
    \<and> fs_actionable_incidents t \<le> fs_active_incidents t
    \<and> fs_actionable_critical t \<le> fs_critical_incidents t
    \<and> fs_actionable_critical t \<le> fs_actionable_incidents t
    \<and> fs_busy_gpus t \<le> fs_gpus t"
proof -
  have sub: "set (hosts_of render (filter is_actionable conditions)) \<subseteq> set (hosts_of render conditions)"
    by (auto simp: hosts_of_def)
  have "fs_incident t \<le> fs_issue t" "fs_actionable_issue t \<le> fs_issue t"
    "fs_actionable_incident t \<le> fs_incident t" "fs_actionable_incident t \<le> fs_actionable_issue t"
    unfolding t_def issue_sets using sub by (auto intro!: card_mono)
  moreover have "fs_busy_gpus t \<le> fs_gpus t"
    by (simp only: t_def fleet_stats_def Let_def fleet_totals.simps count_le)
  moreover have "fs_online t \<le> fs_servers t" "fs_stale t \<le> fs_servers t" "fs_polling t \<le> fs_servers t"
    "fs_critical_incidents t \<le> fs_active_incidents t" "fs_actionable_incidents t \<le> fs_active_incidents t"
    "fs_actionable_critical t \<le> fs_critical_incidents t"
    "fs_actionable_critical t \<le> fs_actionable_incidents t"
    by (simp_all add: t_def fleet_stats_def Let_def count_le count_filter_le)
  ultimately show ?thesis by blast
qed

end
