(* ===== verification/Ssh_Failures.thy ===== *)
theory Ssh_Failures
  imports PyText
begin

text \<open>
  The policy for failures of the OpenSSH client (\<open>ssh_failures.py\<close>): what an operator is told, and
  whether one retry over a fresh connection is worth it.
\<close>

definition any_in :: "string list \<Rightarrow> string \<Rightarrow> bool" where
  "any_in needles normalized = list_ex (\<lambda>needle. contains needle normalized) needles"

definition failure_categories :: "(string list \<times> string) list" where
  "failure_categories =
    [([''remote host identification has changed''], ''SSH host key changed''),
     ([''host key verification failed''], ''SSH host key is not trusted''),
     ([''permission denied'', ''authentication failed''], ''SSH authentication failed''),
     ([''could not resolve hostname'', ''name or service not known''], ''SSH name resolution failed''),
     ([''stdio forwarding request failed'', ''channel 0: open failed'',
       ''open failed: administratively prohibited'', ''open failed: connect failed''],
      ''SSH jump host could not reach the target''),
     ([''connection refused''], ''SSH connection was refused''),
     ([''connection timed out'', ''operation timed out''], ''SSH connection timed out''),
     ([''no route to host'', ''network is unreachable''], ''SSH network is unreachable''),
     ([''kex_exchange_identification'', ''banner exchange'', ''connection reset by peer'',
       ''connection closed by remote host''], ''SSH connection closed during key exchange''),
     ([''timeout, server'', ''server not responding''], ''SSH transport stopped responding'')]"

fun first_category :: "(string list \<times> string) list \<Rightarrow> string \<Rightarrow> string" where
  "first_category [] normalized = ''SSH connection failed''"
| "first_category ((needles, message) # rest) normalized =
    (if any_in needles normalized then message else first_category rest normalized)"

definition classify_ssh_failure :: "string \<Rightarrow> string" where
  "classify_ssh_failure stderr = first_category failure_categories (lower stderr)"

definition hard_failures :: "string list" where
  "hard_failures = [''permission denied'', ''authentication failed'', ''session open refused'',
    ''administratively prohibited'', ''host key verification failed'',
    ''remote host identification has changed'', ''open failed'']"

definition stale_markers :: "string list" where
  "stale_markers = [''mux_client_request_session'', ''control socket connect'', ''master is dead'',
    ''broken pipe'', ''read from master failed'']"

definition is_retryable_ssh_transport_failure :: "string \<Rightarrow> bool" where
  "is_retryable_ssh_transport_failure stderr =
    (let normalized = lower stderr in
     if any_in hard_failures normalized then False else any_in stale_markers normalized)"

definition force_fresh_transport :: "string list \<Rightarrow> string list" where
  "force_fresh_transport command =
    (if ''--'' \<notin> set command then command
     else takeWhile (\<lambda>x. x \<noteq> ''--'') command
       @ [''-o'', ''ControlMaster=no'', ''-o'', ''ControlPath=none'']
       @ dropWhile (\<lambda>x. x \<noteq> ''--'') command)"

section \<open>Classification and retry agree\<close>

lemma first_category_in:
  "first_category cs n = ''SSH connection failed'' \<or> first_category cs n \<in> snd ` set cs"
  by (induction cs n rule: first_category.induct) auto

text \<open>A failure is only retried over a fresh transport when its classification is not one a new
  connection cannot cure: a retryable failure is never reported as a changed or untrusted host key
  or as an authentication failure.\<close>

lemma retry_never_hard_failure:
  assumes "is_retryable_ssh_transport_failure stderr"
  shows "classify_ssh_failure stderr \<notin>
    {''SSH host key changed'', ''SSH host key is not trusted'', ''SSH authentication failed''}"
proof -
  let ?n = "lower stderr"
  have no: "\<not> any_in hard_failures ?n"
    using assms by (auto simp: is_retryable_ssh_transport_failure_def Let_def split: if_splits)
  then have skip: "classify_ssh_failure stderr = first_category (drop 3 failure_categories) ?n"
    by (simp add: classify_ssh_failure_def failure_categories_def hard_failures_def any_in_def)
  have "snd ` set (drop 3 failure_categories) \<inter>
    {''SSH host key changed'', ''SSH host key is not trusted'', ''SSH authentication failed''} = {}"
    by (simp add: failure_categories_def)
  then show ?thesis
    using first_category_in [of "drop 3 failure_categories" ?n] unfolding skip
    by (elim disjE) (simp, blast)
qed

lemma retry_never_hard_failure_witness:
  "is_retryable_ssh_transport_failure ''mux_client_request_session: read from master failed: Broken pipe''
    \<and> classify_ssh_failure ''mux_client_request_session: read from master failed: Broken pipe''
      \<noteq> ''SSH authentication failed''"
proof -
  have "is_retryable_ssh_transport_failure ''mux_client_request_session: read from master failed: Broken pipe''"
    by code_simp
  with retry_never_hard_failure [OF this] show ?thesis by simp
qed

text \<open>The remote command, from the separator on, is untouched by the fresh transport's options.\<close>

lemma fresh_transport_keeps_command:
  "dropWhile (\<lambda>x. x \<noteq> ''--'') (force_fresh_transport command) = dropWhile (\<lambda>x. x \<noteq> ''--'') command"
proof (cases "''--'' \<in> set command")
  case True
  have "dropWhile (\<lambda>x. x \<noteq> ''--'') (takeWhile (\<lambda>x. x \<noteq> ''--'') command @ ys)
      = dropWhile (\<lambda>x. x \<noteq> ''--'') ys" for ys
    by (induction command) auto
  then show ?thesis
    using True by (simp add: force_fresh_transport_def)
qed (simp add: force_fresh_transport_def)

end
