(* ===== verification/Gpu_Tracking.thy ===== *)
theory Gpu_Tracking
  imports Telemetry_Points
begin

text \<open>
  The per-GPU telemetry of the state store (\<open>service.py\<close>): the history of each device, the log of
  process transitions, the table of the processes seen on it, the bounded set of device identities
  per host, and the closing of occupancy that can no longer be confirmed. \<open>history_points\<close> and
  \<open>event_points\<close> bound the rings; sets are lists, and the order in which a set is walked is an
  argument.
\<close>

section \<open>State\<close>

type_synonym gpu_key = "string \<times> string"

record gpu_store =
  gs_gpu_history :: "(gpu_key, gpu_history_point list) dict"
  gs_process_events :: "(gpu_key, gpu_process_transition list) dict"
  gs_active :: "(gpu_key, (process_key, gpu_process) dict) dict"
  gs_last_observed :: "(gpu_key, string) dict"
  gs_identities :: "(string, string list) dict"
  gs_initialized :: "(string, string list) dict"
  gs_pending :: "gpu_key list"

definition max_gpu_identities :: nat where "max_gpu_identities = 256"

definition last_item :: "'a list \<Rightarrow> 'a option" where
  "last_item xs = (if xs = [] then None else Some (List.last xs))"

definition gpu_identity :: "gpu_metrics \<Rightarrow> string" where
  "gpu_identity gpu = (if gm_uuid gpu \<noteq> [] then gm_uuid gpu else ''index:'' @ int_str (gm_index gpu))"

text \<open>\<open>self._process_events.setdefault(key, deque(maxlen=...)).extend(transitions)\<close>.\<close>

definition append_events ::
  "nat \<Rightarrow> gpu_key \<Rightarrow> gpu_process_transition list \<Rightarrow> gpu_store \<Rightarrow> gpu_store" where
  "append_events event_points key transitions s =
    s\<lparr>gs_process_events := dset (gs_process_events s) key
        (deque_extend event_points (dget_or [] (gs_process_events s) key) transitions)\<rparr>"

definition append_some ::
  "nat \<Rightarrow> gpu_key \<Rightarrow> gpu_process_transition list \<Rightarrow> gpu_store \<Rightarrow> gpu_store" where
  "append_some event_points key transitions s =
    (if transitions = [] then s else append_events event_points key transitions s)"

section \<open>Closing what can no longer be observed\<close>

text \<open>\<open>sorted(d)\<close> with the values: the items of a table in key order.\<close>

definition sorted_items :: "(process_key, 'a) dict \<Rightarrow> (process_key \<times> 'a) list" where
  "sorted_items d = sort_key fst d"

definition stops ::
  "string \<Rightarrow> string \<Rightarrow> int \<Rightarrow> bool \<Rightarrow> (process_key, gpu_process) dict \<Rightarrow> gpu_process_transition list" where
  "stops observed_at gpu_id index visible table =
    map (\<lambda>kp. process_transition observed_at gpu_id index ''stopped'' (snd kp) visible) (sorted_items table)"

definition starts ::
  "string \<Rightarrow> string \<Rightarrow> int \<Rightarrow> bool \<Rightarrow> (process_key, gpu_process) dict \<Rightarrow> gpu_process_transition list" where
  "starts observed_at gpu_id index visible table =
    map (\<lambda>kp. process_transition observed_at gpu_id index ''started'' (snd kp) visible) (sorted_items table)"

text \<open>\<open>_close_process_inventory_locked\<close>: the table goes, its processes stop at \<open>observed_at\<close>.\<close>

definition close_process_inventory ::
  "gpu_key \<Rightarrow> int \<Rightarrow> string option \<Rightarrow> gpu_store \<Rightarrow> gpu_process_transition list \<times> gpu_store" where
  "close_process_inventory key index observed_at s =
    (let previous = dget_or [] (gs_active s) key;
         s = s\<lparr>gs_active := dpop (gs_active s) key\<rparr>
     in case observed_at of
          None \<Rightarrow> ([], s)
        | Some t \<Rightarrow> (if previous = [] then [] else stops t (snd key) index True previous, s))"

definition close_unobservable_inventory ::
  "nat \<Rightarrow> gpu_key \<Rightarrow> int option \<Rightarrow> gpu_store \<Rightarrow> gpu_process_transition list \<times> gpu_store" where
  "close_unobservable_inventory event_points key gpu_index s =
    (let index = (case gpu_index of Some i \<Rightarrow> i
           | None \<Rightarrow> (case last_item (dget_or [] (gs_gpu_history s) key) of
               Some p \<Rightarrow> gh_index p | None \<Rightarrow> 0));
         observed_at = dget (gs_last_observed s) key;
         s = s\<lparr>gs_last_observed := dpop (gs_last_observed s) key\<rparr>;
         (closed, s) = close_process_inventory key index observed_at s;
         closed = map (\<lambda>e. e\<lparr>gt_visible := False\<rparr>) closed
     in (closed, append_some event_points key closed s))"

fun close_all ::
  "nat \<Rightarrow> string \<Rightarrow> string list \<Rightarrow> gpu_store \<Rightarrow> gpu_process_transition list \<times> gpu_store" where
  "close_all event_points host [] s = ([], s)"
| "close_all event_points host (g # gs) s =
    (let (closed, s) = close_unobservable_inventory event_points (host, g) None s;
         (rest, s) = close_all event_points host gs s
     in (closed @ rest, s))"

text \<open>\<open>_close_restored_inventory_locked\<close>: one pending device, then all of the host's.\<close>

definition close_restored_one ::
  "nat \<Rightarrow> gpu_key \<Rightarrow> gpu_store \<Rightarrow> gpu_process_transition list \<times> gpu_store" where
  "close_restored_one event_points key s =
    (let s = s\<lparr>gs_pending := removeAll key (gs_pending s)\<rparr>;
         events = dget_or [] (gs_process_events s) key
     in if events = [] then ([], s)
        else
          (let close_at = (case last_item (dget_or [] (gs_gpu_history s) key) of
                 Some p \<Rightarrow> gh_observed_at p | None \<Rightarrow> gt_observed_at (List.last events));
               transitions = map (\<lambda>ke. close_restored_start (snd ke) close_at (Some False))
                 (sorted_items (open_transitions events))
           in (transitions, append_events event_points key transitions s)))"

fun close_restored_keys ::
  "nat \<Rightarrow> gpu_key list \<Rightarrow> gpu_store \<Rightarrow> gpu_process_transition list \<times> gpu_store" where
  "close_restored_keys event_points [] s = ([], s)"
| "close_restored_keys event_points (k # ks) s =
    (let (closed, s) = close_restored_one event_points k s;
         (rest, s) = close_restored_keys event_points ks s
     in (closed @ rest, s))"

definition close_restored_inventory ::
  "nat \<Rightarrow> string \<Rightarrow> string list \<Rightarrow> gpu_store \<Rightarrow> gpu_process_transition list \<times> gpu_store" where
  "close_restored_inventory event_points host observed s =
    close_restored_keys event_points
      (sorted_set (filter (\<lambda>k. fst k = host \<and> snd k \<notin> set observed) (gs_pending s))) s"

text \<open>\<open>_invalidate_process_inventory_locked\<close>; \<open>order\<close> ranks the set of initialized devices.\<close>

definition invalidate_process_inventory ::
  "nat \<Rightarrow> (string \<Rightarrow> nat) \<Rightarrow> string \<Rightarrow> gpu_store \<Rightarrow> gpu_process_transition list \<times> gpu_store" where
  "invalidate_process_inventory event_points order host s =
    (let gpu_ids = dget_or [] (gs_initialized s) host;
         s = s\<lparr>gs_initialized := dpop (gs_initialized s) host\<rparr>;
         (closed, s) = close_all event_points host (set_iter order gpu_ids) s;
         (restored, s) = close_restored_inventory event_points host [] s
     in (closed @ restored, s))"

section \<open>The processes of a sample\<close>

text \<open>The table of a sample, with the first-seen times carried over, and the keys of the processes
  that are new instances behind a reused PID.\<close>

definition stamp_process ::
  "string \<Rightarrow> (process_key, gpu_process) dict \<Rightarrow> gpu_process \<Rightarrow>
   (process_key, gpu_process) dict \<times> process_key list \<Rightarrow> (process_key, gpu_process) dict \<times> process_key list" where
  "stamp_process observed_at previous process acc =
    (let (current, replaced) = acc; key = (gp_pid process, gp_name process)
     in case dget previous key of
          Some prior \<Rightarrow>
            if same_process_instance prior process
            then (dset current key (process\<lparr>gp_first_seen_at := Some (text_or (gp_first_seen_at prior) observed_at)\<rparr>),
                  replaced)
            else (dset current key (process\<lparr>gp_first_seen_at := Some observed_at\<rparr>), List.insert key replaced)
        | None \<Rightarrow> (dset current key (process\<lparr>gp_first_seen_at := Some observed_at\<rparr>), replaced))"

definition stamp_processes ::
  "string \<Rightarrow> (process_key, gpu_process) dict \<Rightarrow> gpu_process list \<Rightarrow>
   (process_key, gpu_process) dict \<times> process_key list" where
  "stamp_processes observed_at previous processes =
    fold (stamp_process observed_at previous) processes ([], [])"

text \<open>The transitions between two tables of an initialized device.\<close>

definition replace_transitions ::
  "string \<Rightarrow> string \<Rightarrow> int \<Rightarrow> (process_key, gpu_process) dict \<Rightarrow> (process_key, gpu_process) dict \<Rightarrow>
   process_key list \<Rightarrow> gpu_process_transition list" where
  "replace_transitions observed_at gpu_id index previous current replaced =
    concat (map (\<lambda>key.
      [process_transition observed_at gpu_id index ''stopped'' (the (dget previous key)) True,
       process_transition observed_at gpu_id index ''started'' (the (dget current key)) True])
      (sort replaced))"

definition table_transitions ::
  "string \<Rightarrow> string \<Rightarrow> int \<Rightarrow> (process_key, gpu_process) dict \<Rightarrow> (process_key, gpu_process) dict \<Rightarrow>
   process_key list \<Rightarrow> gpu_process_transition list" where
  "table_transitions observed_at gpu_id index previous current replaced =
    starts observed_at gpu_id index True (drestrict (\<lambda>k. k \<notin> fst ` set previous) current)
    @ stops observed_at gpu_id index True (drestrict (\<lambda>k. k \<notin> fst ` set current) previous)
    @ replace_transitions observed_at gpu_id index previous current replaced"

section \<open>One device of a sample\<close>

definition initialize_gpu :: "string \<Rightarrow> string \<Rightarrow> gpu_store \<Rightarrow> gpu_store" where
  "initialize_gpu host gpu_id s =
    s\<lparr>gs_initialized := dset (gs_initialized s) host (List.insert gpu_id (dget_or [] (gs_initialized s) host))\<rparr>"

definition forget_initialized :: "string \<Rightarrow> string \<Rightarrow> gpu_store \<Rightarrow> gpu_store" where
  "forget_initialized host gpu_id s =
    s\<lparr>gs_initialized := dset (gs_initialized s) host (removeAll gpu_id (dget_or [] (gs_initialized s) host))\<rparr>"

text \<open>The first process table of a device: reconciled with a restored log, or taken as it is.\<close>

definition first_table ::
  "nat \<Rightarrow> string \<Rightarrow> string \<Rightarrow> int \<Rightarrow> string \<Rightarrow> string option \<Rightarrow> (process_key, gpu_process) dict \<Rightarrow> gpu_store \<Rightarrow>
   gpu_process_transition list \<times> gpu_store" where
  "first_table event_points host gpu_id index observed_at previous_at current s =
    (let key = (host, gpu_id); s = initialize_gpu host gpu_id s
     in if key \<in> set (gs_pending s) then
          (let (transitions, current) = reconcile_restored_processes
                 (dget_or [] (gs_process_events s) key) gpu_id index current observed_at previous_at;
               s = s\<lparr>gs_pending := removeAll key (gs_pending s)\<rparr>;
               s = (if current = [] then s else s\<lparr>gs_active := dset (gs_active s) key current\<rparr>)
           in (transitions, append_some event_points key transitions s))
        else
          (let transitions = starts observed_at gpu_id index False current;
               s = (if current = [] then s else s\<lparr>gs_active := dset (gs_active s) key current\<rparr>)
           in (transitions, append_some event_points key transitions s)))"

text \<open>A later process table.\<close>

definition next_table ::
  "nat \<Rightarrow> string \<Rightarrow> string \<Rightarrow> int \<Rightarrow> string \<Rightarrow> gpu_process list \<Rightarrow> gpu_store \<Rightarrow>
   gpu_process_transition list \<times> gpu_store" where
  "next_table event_points host gpu_id index observed_at processes s =
    (let key = (host, gpu_id); previous = dget_or [] (gs_active s) key
     in if processes = [] then
          (let transitions = stops observed_at gpu_id index True previous
           in (transitions, append_some event_points key transitions (s\<lparr>gs_active := dpop (gs_active s) key\<rparr>)))
        else
          (let (current, replaced) = stamp_processes observed_at previous processes;
               s = s\<lparr>gs_active := dset (gs_active s) key current\<rparr>
           in if replaced = [] \<and> fst ` set current = fst ` set previous then ([], s)
              else
                (let transitions = table_transitions observed_at gpu_id index previous current replaced
                 in (transitions, append_some event_points key transitions s))))"

definition track_processes ::
  "nat \<Rightarrow> string \<Rightarrow> string \<Rightarrow> string option \<Rightarrow> gpu_metrics \<Rightarrow> gpu_store \<Rightarrow>
   gpu_process_transition list \<times> gpu_store" where
  "track_processes event_points host observed_at previous_at gpu s =
    (let gpu_id = gpu_identity gpu; key = (host, gpu_id); index = gm_index gpu
     in if \<not> gm_processes_sampled gpu then ([], s)
        else if \<not> gm_processes_available gpu then
          (let (closed, s) = close_unobservable_inventory event_points key (Some index) s
           in (closed, forget_initialized host gpu_id s))
        else
          (let s = s\<lparr>gs_last_observed := dset (gs_last_observed s) key observed_at\<rparr>
           in if gpu_id \<notin> set (dget_or [] (gs_initialized s) host) then
                first_table event_points host gpu_id index observed_at previous_at
                  (fst (stamp_processes observed_at (dget_or [] (gs_active s) key) (gm_processes gpu))) s
              else next_table event_points host gpu_id index observed_at (gm_processes gpu) s))"

text \<open>A device index beyond 32 bits makes \<open>struct.pack\<close> raise in the middle of a sample: the code would
  keep what it had updated by then, here no state results. The parser of probe results refuses such an
  index, so the case does not arise.\<close>

record tracked =
  tk_store :: gpu_store
  tk_points :: "(string \<times> gpu_history_point) list"
  tk_transitions :: "gpu_process_transition list"

definition track_gpu ::
  "nat \<Rightarrow> nat \<Rightarrow> string \<Rightarrow> string \<Rightarrow> gpu_metrics \<Rightarrow> tracked \<Rightarrow> py_error + tracked" where
  "track_gpu history_points event_points host observed_at gpu acc =
    (let s = tk_store acc; gpu_id = gpu_identity gpu; key = (host, gpu_id);
         identities = dget_or [] (gs_identities s) host;
         s = s\<lparr>gs_identities := dset (gs_identities s) host (removeAll gpu_id identities @ [gpu_id])\<rparr>
     in sum_bind (gpu_create observed_at (gm_index gpu) (map_option Fin (gm_utilization_gpu_pct gpu))
          (map_option Fin (gm_memory_used_mib gpu)) (map_option Fin (gm_memory_total_mib gpu))
          (map_option Fin (gm_temperature_c gpu)) (map_option Fin (gm_power_draw_w gpu))) (\<lambda>point.
        (let history = dget_or [] (gs_gpu_history s) key;
             previous_at = map_option gh_observed_at (last_item history);
             s = s\<lparr>gs_gpu_history := dset (gs_gpu_history s) key (deque_append history_points history point)\<rparr>;
             (transitions, s) = track_processes event_points host observed_at previous_at gpu s
         in Inr \<lparr>tk_store = s, tk_points = tk_points acc @ [(gpu_id, point)],
                 tk_transitions = tk_transitions acc @ transitions\<rparr>)))"

fun track_gpus ::
  "nat \<Rightarrow> nat \<Rightarrow> string \<Rightarrow> string \<Rightarrow> gpu_metrics list \<Rightarrow> tracked \<Rightarrow> py_error + tracked" where
  "track_gpus history_points event_points host observed_at [] acc = Inr acc"
| "track_gpus history_points event_points host observed_at (g # gs) acc =
    sum_bind (track_gpu history_points event_points host observed_at g acc)
      (track_gpus history_points event_points host observed_at gs)"

section \<open>A whole sample\<close>

text \<open>The oldest identities above the bound go, with everything kept of them.\<close>

definition drop_gpu :: "string \<Rightarrow> string \<Rightarrow> gpu_store \<Rightarrow> gpu_store" where
  "drop_gpu host gpu_id s =
    (let key = (host, gpu_id) in
     forget_initialized host gpu_id
       (s\<lparr>gs_gpu_history := dpop (gs_gpu_history s) key, gs_process_events := dpop (gs_process_events s) key,
          gs_active := dpop (gs_active s) key, gs_last_observed := dpop (gs_last_observed s) key\<rparr>))"

definition evict_gpus :: "string \<Rightarrow> gpu_store \<Rightarrow> gpu_store" where
  "evict_gpus host s =
    (let identities = dget_or [] (gs_identities s) host;
         surplus = length identities - max_gpu_identities
     in fold (drop_gpu host) (take surplus identities)
          (s\<lparr>gs_identities := dset (gs_identities s) host (drop surplus identities)\<rparr>))"

definition track_gpu_telemetry ::
  "nat \<Rightarrow> nat \<Rightarrow> bool \<Rightarrow> (string \<Rightarrow> nat) \<Rightarrow> probe_result \<Rightarrow> gpu_store \<Rightarrow>
   py_error + ((string \<times> gpu_history_point) list \<times> gpu_process_transition list \<times> gpu_store)" where
  "track_gpu_telemetry history_points event_points persistence_enabled order r s =
    (let host = pr_host r;
         s = (if dget (gs_initialized s) host = None
              then s\<lparr>gs_initialized := dset (gs_initialized s) host []\<rparr> else s);
         s = (if dget (gs_identities s) host = None
              then s\<lparr>gs_identities := dset (gs_identities s) host []\<rparr> else s);
         observed = map gpu_identity (pr_gpus r)
     in sum_bind (track_gpus history_points event_points host (pr_observed_at r) (pr_gpus r)
          \<lparr>tk_store = s, tk_points = [], tk_transitions = []\<rparr>) (\<lambda>acc.
        (let s = evict_gpus host (tk_store acc);
             gone = filter (\<lambda>g. g \<notin> set observed) (dget_or [] (gs_initialized s) host);
             (closed, s) = close_all event_points host (set_iter order gone) s;
             (restored, s) = close_restored_inventory event_points host observed s;
             left = filter (\<lambda>g. g \<in> set observed) (dget_or [] (gs_initialized s) host);
             s = (if left = [] then s\<lparr>gs_initialized := dpop (gs_initialized s) host\<rparr>
                  else s\<lparr>gs_initialized := dset (gs_initialized s) host left\<rparr>)
         in Inr (if persistence_enabled then (tk_points acc, tk_transitions acc @ closed @ restored, s)
                 else ([], [], s)))))"

text \<open>\<open>_first_seen_annotated_locked\<close>.\<close>

definition annotate_gpu :: "string \<Rightarrow> gpu_store \<Rightarrow> gpu_metrics \<Rightarrow> gpu_metrics" where
  "annotate_gpu host s gpu =
    (let table = dget_or [] (gs_active s) (host, gpu_identity gpu)
     in gpu\<lparr>gm_processes := map (\<lambda>p. dget_or p table (gp_pid p, gp_name p)) (gm_processes gpu)\<rparr>)"

definition first_seen_annotated :: "gpu_store \<Rightarrow> probe_result \<Rightarrow> probe_result" where
  "first_seen_annotated s r = r\<lparr>pr_gpus := map (annotate_gpu (pr_host r) s) (pr_gpus r)\<rparr>"

section \<open>The state a restart restores\<close>

text \<open>\<open>_bounded_restored_gpu_keys\<close>: the most recently observed devices of each host.\<close>

definition latest_observed :: "(pyval \<Rightarrow> string) \<Rightarrow> obj list \<Rightarrow> string" where
  "latest_observed render points =
    foldl max [] (map (\<lambda>d. str_of render (dget_or (PStr []) d ''observedAt'')) points)"

definition note_latest ::
  "(pyval \<Rightarrow> string) \<Rightarrow> gpu_key \<times> obj list \<Rightarrow> (gpu_key, string) dict \<Rightarrow> (gpu_key, string) dict" where
  "note_latest render entry latest =
    dset latest (fst entry) (max (dget_or [] latest (fst entry)) (latest_observed render (snd entry)))"

definition latest_gpus ::
  "(pyval \<Rightarrow> string) \<Rightarrow> (gpu_key, obj list) dict \<Rightarrow> (gpu_key, obj list) dict \<Rightarrow> (gpu_key, string) dict" where
  "latest_gpus render gpu_history process_events =
    fold (note_latest render) process_events (fold (note_latest render) gpu_history [])"

definition bounded_restored_gpu_keys :: "(gpu_key, string) dict \<Rightarrow> gpu_key list" where
  "bounded_restored_gpu_keys latest =
    concat (map (\<lambda>host. take max_gpu_identities
        (rev (sort_key (\<lambda>k. (dget_or [] latest k, snd k)) (filter (\<lambda>k. fst k = host) (map fst latest)))))
      (remdups (map (\<lambda>kv. fst (fst kv)) latest)))"

fun sum_each :: "('a \<Rightarrow> 'e + 'b) \<Rightarrow> 'a list \<Rightarrow> 'e + 'b list" where
  "sum_each f [] = Inr []"
| "sum_each f (x # xs) = sum_bind (f x) (\<lambda>y. sum_bind (sum_each f xs) (\<lambda>ys. Inr (y # ys)))"

text \<open>One restored table: the points of every retained device, in rings of \<open>maxlen\<close>.\<close>

definition restored_rings ::
  "nat \<Rightarrow> (obj \<Rightarrow> py_error + 'a) \<Rightarrow> gpu_key list \<Rightarrow> (gpu_key, obj list) dict \<Rightarrow> py_error + (gpu_key, 'a list) dict" where
  "restored_rings maxlen parse retained records =
    sum_each (\<lambda>kv. sum_bind (sum_each parse (snd kv)) (\<lambda>points. Inr (fst kv, deque_of maxlen points)))
      (drestrict (\<lambda>k. k \<in> set retained) records)"

definition add_identity :: "gpu_key \<Rightarrow> (string, string list) dict \<Rightarrow> (string, string list) dict" where
  "add_identity key identities =
    (let known = dget_or [] identities (fst key)
     in dset identities (fst key) (if snd key \<in> set known then known else known @ [snd key]))"

definition restored_identities :: "(gpu_key, string) dict \<Rightarrow> gpu_key list \<Rightarrow> (string, string list) dict" where
  "restored_identities latest retained =
    fold add_identity (sort_key (\<lambda>k. (fst k, dget_or [] latest k, snd k)) retained) []"

definition restored_gpu_store ::
  "(pyval \<Rightarrow> string) \<Rightarrow> nat \<Rightarrow> nat \<Rightarrow> (gpu_key, obj list) dict \<Rightarrow> (gpu_key, obj list) dict \<Rightarrow>
   py_error + gpu_store" where
  "restored_gpu_store render history_points event_points gpu_history process_events =
    (let latest = latest_gpus render gpu_history process_events;
         retained = bounded_restored_gpu_keys latest
     in sum_bind (restored_rings history_points (gpu_from_dict render) retained gpu_history) (\<lambda>history.
        sum_bind (restored_rings event_points (transition_from_dict render) retained process_events) (\<lambda>events.
          Inr \<lparr>gs_gpu_history = history, gs_process_events = events, gs_active = [], gs_last_observed = [],
               gs_identities = restored_identities latest retained, gs_initialized = [],
               gs_pending = map fst events\<rparr>)))"

text \<open>The part of \<open>set_hosts\<close> that forgets the devices of the hosts that left.\<close>

definition forget_hosts :: "(string \<Rightarrow> bool) \<Rightarrow> gpu_store \<Rightarrow> gpu_store" where
  "forget_hosts stale s =
    s\<lparr>gs_gpu_history := drestrict (\<lambda>k. \<not> stale (fst k)) (gs_gpu_history s),
      gs_process_events := drestrict (\<lambda>k. \<not> stale (fst k)) (gs_process_events s),
      gs_active := drestrict (\<lambda>k. \<not> stale (fst k)) (gs_active s),
      gs_last_observed := drestrict (\<lambda>k. \<not> stale (fst k)) (gs_last_observed s),
      gs_identities := drestrict (\<lambda>h. \<not> stale h) (gs_identities s),
      gs_initialized := drestrict (\<lambda>h. \<not> stale h) (gs_initialized s),
      gs_pending := filter (\<lambda>k. \<not> stale (fst k)) (gs_pending s)\<rparr>"

end
