(* ===== verification/State_Store.thy ===== *)
theory State_Store
  imports Gpu_Tracking Incident_Tracker Maintenance Correlation Fleet_Stats Telemetry_Points
begin

text \<open>
  The state the service keeps (\<open>StateStore\<close> of \<open>service.py\<close>) and the operations that change it. Every
  operation is one critical section of the store's lock, so it is one transition of the state. The
  clock of a section is an argument, read once. An operation that changes what a reader sees ends
  with \<open>publish\<close>, which gives the state a new version.
\<close>

section \<open>State\<close>

type_synonym condition_key = "string \<times> string"

text \<open>What the constructor fixes.\<close>

record store_settings =
  st_thresholds :: threshold_config
  st_history_points :: nat
  st_process_event_points :: nat
  st_collection_stale_cycles :: int
  st_persistence_enabled :: bool
  st_records_incident_state :: bool
  st_notification_event_capacity :: nat
  st_started_at :: string
  st_app_version :: string

type_synonym maintenance_signature = "(string \<times> string \<times> string) list"

type_synonym action_signature = "(string \<times> string \<times> string \<times> string \<times> string option) list"

text \<open>The row of one server in the snapshot: its dictionary with the annotations, and the whole
  projection. The dictionaries the adapters return are opaque.\<close>

record fleet_snapshot =
  fp_version :: nat
  fp_app_version :: string
  fp_incident_version :: nat
  fp_generated_at :: string
  fp_started_at :: string
  fp_poll_interval_seconds :: rat
  fp_collection_stale_after_seconds :: rat
  fp_last_poll_completed_at :: "string option"
  fp_last_poll_duration_ms :: "int option"
  fp_collector_error :: "string option"
  fp_persistence :: pyval
  fp_notifications :: pyval
  fp_thresholds :: "(string, rat) dict"
  fp_stats :: fleet_totals
  fp_servers :: "obj list"

record state_store =
  ss_settings :: store_settings
  ss_servers :: "(string, server_state) dict"
  ss_host_incarnations :: "(string, nat) dict"
  ss_next_host_incarnation :: nat
  ss_history :: "(string, host_history_point list) dict"
  ss_gpu :: gpu_store
  ss_inventory_initialized :: bool
  ss_restored_history :: "(string, obj list) dict"
  ss_version :: nat
  ss_collector_error :: "string option"
  ss_transport_retries_total :: int
  ss_poll_interval_seconds :: rat
  ss_collection_stale_after_seconds :: rat
  ss_incident_policy :: policy
  ss_incidents :: tracker
  ss_maintenance_windows :: "(string, maintenance_window) dict"
  ss_incident_actions :: "(condition_key, incident_action) dict"
  ss_startup_action_candidates :: "condition_key list"
  ss_startup_action_bindings :: "(condition_key, string) dict"
  ss_host_groups :: "(string, string) dict"
  ss_display_names :: "(string, string) dict"
  ss_host_incident_overrides :: "(string \<times> scope_override) list"
  ss_group_incident_overrides :: "(string \<times> scope_override) list"
  ss_topology :: "topology option"
  ss_adapter_statuses :: "pyval \<times> pyval"
  ss_notification_event_incarnations :: "(nat, nat) dict"
  ss_notification_event_order :: "nat list"
  ss_active_maintenance_signature :: maintenance_signature
  ss_active_action_signature :: action_signature
  ss_incident_revision :: nat
  ss_tracker_version :: nat
  ss_last_poll_completed_at :: "string option"
  ss_last_poll_duration_ms :: "int option"
  ss_snapshot_cache :: "((nat \<times> nat) \<times> fleet_snapshot) option"

text \<open>What an operation may raise: the errors of the tracker and of the conversions it calls, or no
  return at all when the topology has a cycle, which the loader refuses.\<close>

datatype store_error =
    Tracker_Error Incident_Tracker.py_error
  | Conversion_Error PyNumber.py_error
  | Refused string
  | No_Return

text \<open>What an operation hands to the adapters, in order. A history point and the transitions are
  passed as their dictionaries (\<open>to_dict\<close>, \<open>persistence_dict\<close>), which depend on nothing else.\<close>

datatype store_effect =
    Record_Incident_State string "event list" "(string \<times> rat option) list"
  | Record_Incidents "event list"
  | Record_History string host_history_point
  | Record_Gpu_Telemetry string "(string \<times> gpu_history_point) list" "gpu_process_transition list"
  | Publish_Events "event list" "correlation list"

text \<open>Two dictionaries are equal when they have the same items, in any order.\<close>

definition same_dict :: "('k, 'v) dict \<Rightarrow> ('k, 'v) dict \<Rightarrow> bool" where
  "same_dict d e \<longleftrightarrow> set d = set e"

lemma same_dict_refl [simp]: "same_dict d d"
  by (simp add: same_dict_def)

lemma same_dict_dget:
  assumes "same_dict d e" "wf_dict d" "wf_dict e"
  shows "dget d k = dget e k"
proof (cases "dget d k")
  case None
  then have "k \<notin> fst ` set e" using assms(1) by (simp add: dget_None_iff same_dict_def)
  then show ?thesis using None by (simp add: dget_None_iff [symmetric])
next
  case (Some v)
  then have "(k, v) \<in> set e" using assms(1) dget_mem [of d k v] by (simp add: same_dict_def)
  then show ?thesis using Some wf_dget_mem [OF assms(3)] by simp
qed

section \<open>Maintenance windows and incident actions in force\<close>

text \<open>The windows are the loader's (\<open>window_ok\<close>), for which \<open>is_active\<close> and \<open>to_dict\<close> return.\<close>

definition in_force :: "maintenance_window \<Rightarrow> moment \<Rightarrow> bool" where
  "in_force w now \<longleftrightarrow> window_active w now = Some True"

definition window_until :: "maintenance_window \<Rightarrow> moment \<Rightarrow> string" where
  "window_until w now =
    (case Option.bind (window_to_dict w now) (\<lambda>d. as_text (oget d ''until'')) of
       None \<Rightarrow> [] | Some s \<Rightarrow> s)"

definition active_maintenance :: "moment \<Rightarrow> state_store \<Rightarrow> (string, maintenance_window) dict" where
  "active_maintenance now s = filter (\<lambda>hw. in_force (snd hw) now) (ss_maintenance_windows s)"

definition maintenance_signature :: "moment \<Rightarrow> state_store \<Rightarrow> maintenance_signature" where
  "maintenance_signature now s =
    map (\<lambda>(host, w). (host, window_until w now, mw_reason w)) (sort_key fst (active_maintenance now s))"

definition refresh_maintenance_expiry :: "moment \<Rightarrow> state_store \<Rightarrow> state_store" where
  "refresh_maintenance_expiry now s =
    (if ss_maintenance_windows s = [] \<or> maintenance_signature now s = ss_active_maintenance_signature s then s
     else s\<lparr>ss_active_maintenance_signature := maintenance_signature now s,
            ss_incident_revision := ss_incident_revision s + 1,
            ss_version := ss_version s + 1\<rparr>)"

definition publish :: "moment \<Rightarrow> state_store \<Rightarrow> state_store" where
  "publish now s = (let s = refresh_maintenance_expiry now s in s\<lparr>ss_version := ss_version s + 1\<rparr>)"

definition sync_tracker_revision :: "state_store \<Rightarrow> state_store" where
  "sync_tracker_revision s =
    (let version = el_version (tr_log (ss_incidents s))
     in if version = ss_tracker_version s then s
        else s\<lparr>ss_tracker_version := version, ss_incident_revision := ss_incident_revision s + 1\<rparr>)"

definition active_incident_actions :: "moment \<Rightarrow> state_store \<Rightarrow> (condition_key, incident_action) dict" where
  "active_incident_actions now s = filter (\<lambda>ka. action_is_active (snd ka) now) (ss_incident_actions s)"

definition action_until :: "incident_action \<Rightarrow> string option" where
  "action_until a = Option.bind (dget (action_to_dict a) ''until'') id"

definition incident_action_signature :: "moment \<Rightarrow> state_store \<Rightarrow> action_signature" where
  "incident_action_signature now s =
    map (\<lambda>((host, key), a). (host, key, ia_action a, iso_z (ia_until a), ia_incident_started_at a))
      (sort_key fst (active_incident_actions now s))"

definition refresh_incident_action_expiry :: "moment \<Rightarrow> state_store \<Rightarrow> state_store" where
  "refresh_incident_action_expiry now s =
    (if ss_incident_actions s = [] \<or> incident_action_signature now s = ss_active_action_signature s then s
     else s\<lparr>ss_active_action_signature := incident_action_signature now s,
            ss_incident_revision := ss_incident_revision s + 1,
            ss_version := ss_version s + 1\<rparr>)"

text \<open>An action bound to one incident counts only while that incident, or the one it was bound to
  after a restart, is the active one.\<close>

definition incident_action_matches :: "incident_action \<Rightarrow> string \<Rightarrow> string \<Rightarrow> state_store \<Rightarrow> bool" where
  "incident_action_matches a host key s \<longleftrightarrow>
    (case ia_incident_started_at a of
       None \<Rightarrow> True
     | Some started_at \<Rightarrow>
         Some (dget_or started_at (ss_startup_action_bindings s) (host, key))
           = active_started_at (ss_incidents s) host key)"

definition condition_is_silenced :: "moment \<Rightarrow> string \<Rightarrow> string \<Rightarrow> state_store \<Rightarrow> bool" where
  "condition_is_silenced now host key s \<longleftrightarrow>
    (case dget (active_incident_actions now s) (host, key) of
       None \<Rightarrow> False
     | Some a \<Rightarrow> ia_action a = ''silenced'' \<and> incident_action_matches a host key s)"

text \<open>One candidate or binding after a sample of its host. The set of keys is walked in an order that
  does not matter: each step touches its own key only.\<close>

definition refresh_binding ::
  "probe_result \<Rightarrow> (condition_key, incident_action) dict \<Rightarrow> condition_key \<Rightarrow> state_store \<Rightarrow> state_store" where
  "refresh_binding r active_actions key s =
    (let started_at = active_started_at (ss_incidents s) (fst key) (snd key);
         candidate = key \<in> set (ss_startup_action_candidates s);
         discard = removeAll key (ss_startup_action_candidates s)
     in if dget active_actions key = None then
          s\<lparr>ss_startup_action_candidates := discard,
            ss_startup_action_bindings := dpop (ss_startup_action_bindings s) key\<rparr>
        else if candidate \<and> started_at \<noteq> None then
          s\<lparr>ss_startup_action_candidates := discard,
            ss_startup_action_bindings := dset (ss_startup_action_bindings s) key (the started_at)\<rparr>
        else if candidate \<and> \<not> has_pending_condition (ss_incidents s) (fst key) (snd key)
                \<and> condition_observed r (snd key) then
          s\<lparr>ss_startup_action_candidates := discard\<rparr>
        else if dget (ss_startup_action_bindings s) key \<noteq> None \<and> started_at = None then
          s\<lparr>ss_startup_action_bindings := dpop (ss_startup_action_bindings s) key\<rparr>
        else s)"

definition binding_keys :: "string \<Rightarrow> state_store \<Rightarrow> condition_key list" where
  "binding_keys host s =
    remdups (filter (\<lambda>k. fst k = host)
      (ss_startup_action_candidates s @ keys (ss_startup_action_bindings s)))"

definition refresh_startup_action_bindings :: "moment \<Rightarrow> probe_result \<Rightarrow> state_store \<Rightarrow> state_store" where
  "refresh_startup_action_bindings now r s =
    fold (refresh_binding r (active_incident_actions now s)) (binding_keys (pr_host r) s) s"

end
