(* ===== verification/Monitor_Config.thy ===== *)
theory Monitor_Config
  imports Config_Integrations Maintenance
begin

text \<open>
  The whole configuration the service runs with (\<open>MonitorConfig\<close> of \<open>config.py\<close>), and the policies
  of SSH discovery and of updates with their parsers (\<open>discovery_policy.py\<close>, \<open>updates.py\<close>).
\<close>

section \<open>SSH discovery policy\<close>

record ssh_discovery_config =
  sh_mode :: string
  sh_refresh_seconds :: int
  sh_resolve_timeout_seconds :: rat

definition default_ssh_discovery :: ssh_discovery_config where
  "default_ssh_discovery =
    \<lparr>sh_mode = ''aliases'', sh_refresh_seconds = 300, sh_resolve_timeout_seconds = 3\<rparr>"

text \<open>\<open>mode not in MODES\<close>: the text when it is allowed; hashing a list or an object raises.\<close>

definition parse_mode :: "string list \<Rightarrow> string \<Rightarrow> pyval \<Rightarrow> string parsed" where
  "parse_mode modes message v =
    (case v of
       PStr s \<Rightarrow> guard (s \<notin> set modes) message (Inr s)
     | PList _ \<Rightarrow> Inl Uncaught_Type_Error
     | PDict _ \<Rightarrow> Inl Uncaught_Type_Error
     | _ \<Rightarrow> refuse message)"

definition integer_between :: "int \<Rightarrow> int \<Rightarrow> string \<Rightarrow> pyval \<Rightarrow> int parsed" where
  "integer_between low high message v =
    (case v of PInt i \<Rightarrow> guard (\<not> (low \<le> i \<and> i \<le> high)) message (Inr i) | _ \<Rightarrow> refuse message)"

text \<open>A number that is not a Boolean and that \<open>math.isfinite\<close> accepts: converting an integer
  beyond the range of a double raises \<open>OverflowError\<close>.\<close>

definition finite_or :: "string \<Rightarrow> pyval \<Rightarrow> rat parsed" where
  "finite_or message v =
    (case v of
       PInt i \<Rightarrow> if double_limit \<le> \<bar>i\<bar> then Inl Uncaught_Overflow_Error else Inr (of_int i)
     | PFloat x \<Rightarrow> Inr x
     | _ \<Rightarrow> refuse message)"

definition parse_ssh_discovery_config :: "pyval \<Rightarrow> ssh_discovery_config parsed" where
  "parse_ssh_discovery_config raw =
    (let keys_message = ''ssh_discovery must contain only mode, refresh_seconds, and ''
           @ ''resolve_timeout_seconds'';
         timeout_message = ''ssh_discovery.resolve_timeout_seconds must be between 1 and 30''
     in case raw of
       PDict d \<Rightarrow>
         guard (\<not> set (keys d) \<subseteq> {''mode'', ''refresh_seconds'', ''resolve_timeout_seconds''}) keys_message
         (sum_bind (parse_mode [''aliases'', ''topology''] ''ssh_discovery.mode must be aliases or topology''
            (dget_or (PStr ''aliases'') d ''mode'')) (\<lambda>mode.
          sum_bind (integer_between 30 3600 ''ssh_discovery.refresh_seconds must be between 30 and 3600''
            (dget_or (PInt 300) d ''refresh_seconds'')) (\<lambda>refresh.
          sum_bind (finite_or timeout_message (dget_or (PInt 3) d ''resolve_timeout_seconds'')) (\<lambda>t.
          guard (\<not> (1 \<le> t \<and> t \<le> 30)) timeout_message
            (Inr \<lparr>sh_mode = mode, sh_refresh_seconds = refresh, sh_resolve_timeout_seconds = t\<rparr>)))))
     | _ \<Rightarrow> refuse keys_message)"

section \<open>Update policy\<close>

record updates_config =
  up_mode :: string
  up_check_interval_seconds :: int

definition parse_updates_config :: "pyval \<Rightarrow> updates_config parsed" where
  "parse_updates_config raw =
    (let keys_message = ''updates must contain only mode and check_interval_seconds'' in
     case raw of
       PDict d \<Rightarrow>
         guard (\<not> set (keys d) \<subseteq> {''mode'', ''check_interval_seconds''}) keys_message
         (sum_bind (parse_mode [''off'', ''check'', ''self-update'']
            ''updates.mode must be off, check, or self-update'' (dget_or (PStr ''off'') d ''mode'')) (\<lambda>mode.
          sum_bind (integer_between 3600 86400 ''updates.check_interval_seconds must be between 3600 and 86400''
            (dget_or (PInt 21600) d ''check_interval_seconds'')) (\<lambda>interval.
          Inr \<lparr>up_mode = mode, up_check_interval_seconds = interval\<rparr>)))
     | _ \<Rightarrow> refuse keys_message)"

text \<open>\<open>parse_release_tag\<close>: \<open>v\<close> and three runs of digits between dots.\<close>

definition take_number :: "string \<Rightarrow> (int \<times> string) option" where
  "take_number s =
    (let ds = takeWhile is_digit s in
     if ds = [] then None else Some (digits_int ds, dropWhile is_digit s))"

definition parse_release_tag :: "pyval \<Rightarrow> (int \<times> int \<times> int) option" where
  "parse_release_tag tag =
    (case as_text tag of
       None \<Rightarrow> None
     | Some s \<Rightarrow>
        (case strip s of
           c # r0 \<Rightarrow>
             if c \<noteq> CHR ''v'' then None
             else (case take_number r0 of
               Some (major, d1 # r1) \<Rightarrow>
                 if d1 \<noteq> CHR ''.'' then None
                 else (case take_number r1 of
                   Some (minor, d2 # r2) \<Rightarrow>
                     if d2 \<noteq> CHR ''.'' then None
                     else (case take_number r2 of
                       Some (patch, []) \<Rightarrow> Some (major, minor, patch)
                     | _ \<Rightarrow> None)
                 | _ \<Rightarrow> None)
             | _ \<Rightarrow> None)
         | [] \<Rightarrow> None))"

section \<open>The configuration\<close>

record monitor_config =
  mc_ssh_config :: string
  mc_auto_discover :: bool
  mc_hosts :: "string list"
  mc_exclude_hosts :: "string list"
  mc_poll_interval_seconds :: rat
  mc_probe_timeout_seconds :: rat
  mc_connect_timeout_seconds :: int
  mc_max_workers :: nat
  mc_listen_host :: string
  mc_listen_port :: int
  mc_authentication :: string
  mc_ssh_discovery :: ssh_discovery_config
  mc_updates :: updates_config
  mc_trusted_web_hosts :: "string list"
  mc_gpu_process_poll_interval_seconds :: rat
  mc_retry_jitter_pct :: rat
  mc_manual_probe_cooldown_seconds :: rat
  mc_local_host :: "string option"
  mc_max_output_bytes :: int
  mc_history_points :: nat
  mc_incident_history_points :: nat
  mc_collection_stale_cycles :: nat
  mc_thresholds :: threshold_config
  mc_expected_gpu_counts :: "(string \<times> int) list"
  mc_incidents :: incident_config
  mc_incident_actions :: "incident_action list"
  mc_host_incident_overrides :: "(string \<times> scope_override) list"
  mc_group_incident_overrides :: "(string \<times> scope_override) list"
  mc_host_overrides :: "(string \<times> host_override) list"
  mc_maintenance_windows :: "(string \<times> maintenance_window) list"
  mc_host_groups :: "(string \<times> string) list"
  mc_topology :: "topology option"
  mc_persistence :: persistence_config
  mc_workloads :: string
  mc_webhooks :: "webhook_config list"

definition host_override_of :: "monitor_config \<Rightarrow> string \<Rightarrow> host_override option" where
  "host_override_of config host = dget (dict_of (mc_host_overrides config)) host"

definition host_display_names :: "monitor_config \<Rightarrow> (string \<times> string) list" where
  "host_display_names config =
    List.map_filter (\<lambda>(alias, ov). map_option (Pair alias) (ho_display_name ov)) (mc_host_overrides config)"

text \<open>A configuration with the defaults of the optional fields, for examples.\<close>

definition example_config :: "nat \<Rightarrow> monitor_config" where
  "example_config workers =
    \<lparr>mc_ssh_config = ''/root/.ssh/config'', mc_auto_discover = True, mc_hosts = [], mc_exclude_hosts = [],
     mc_poll_interval_seconds = 5, mc_probe_timeout_seconds = 10, mc_connect_timeout_seconds = 5,
     mc_max_workers = workers, mc_listen_host = ''127.0.0.1'', mc_listen_port = 8765,
     mc_authentication = ''bearer'', mc_ssh_discovery = default_ssh_discovery,
     mc_updates = \<lparr>up_mode = ''off'', up_check_interval_seconds = 21600\<rparr>,
     mc_trusted_web_hosts = [], mc_gpu_process_poll_interval_seconds = 15, mc_retry_jitter_pct = 15,
     mc_manual_probe_cooldown_seconds = 5, mc_local_host = None, mc_max_output_bytes = 2097152,
     mc_history_points = 720, mc_incident_history_points = 500, mc_collection_stale_cycles = 3,
     mc_thresholds = default_thresholds, mc_expected_gpu_counts = [], mc_incidents = default_incidents,
     mc_incident_actions = [], mc_host_incident_overrides = [], mc_group_incident_overrides = [],
     mc_host_overrides = [], mc_maintenance_windows = [], mc_host_groups = [], mc_topology = None,
     mc_persistence = \<lparr>pc_enabled = False, pc_retention_hours = 168, pc_max_bytes = 134217728\<rparr>,
     mc_workloads = ''disabled'', mc_webhooks = []\<rparr>"

section \<open>Release tags\<close>

definition release_tag :: "int \<times> int \<times> int \<Rightarrow> string" where
  "release_tag v = (let (a, b, c) = v in ''v'' @ dec_str a @ ''.'' @ dec_str b @ ''.'' @ dec_str c)"

lemma take_number_dec:
  assumes "0 \<le> n" "rest = [] \<or> \<not> is_digit (hd rest)"
  shows "take_number (dec_str n @ rest) = Some (n, rest)"
proof -
  have all: "\<forall>c \<in> set (dec_str n). is_digit c" using dec_str_digits assms(1) by blast
  then have "takeWhile is_digit (dec_str n @ rest) = dec_str n" "dropWhile is_digit (dec_str n @ rest) = rest"
    using assms(2) by (cases rest; simp add: takeWhile_append2 dropWhile_append2)+
  then show ?thesis using assms(1) by (simp add: take_number_def digits_int_def digits_value_dec_str)
qed

lemma not_digit_dot [simp]: "\<not> is_digit (CHR ''.'')"
  by (simp add: is_digit_def digit_of_def)

lemma digit_not_space: "is_digit c \<Longrightarrow> \<not> is_space c"
proof -
  assume "is_digit c"
  then have "alnum c" by (auto simp: is_digit_def digit_of_def alnum_def Let_def split: if_splits)
  then show ?thesis by (rule alnum_not_space)
qed

text \<open>A release tag is read back as the version it names: for every version, parsing the tag
  that names it gives the version, so two versions with the same tag are the same.\<close>

lemma release_tag_roundtrip:
  assumes "0 \<le> a" "0 \<le> b" "0 \<le> c"
  shows "parse_release_tag (PStr (release_tag (a, b, c))) = Some (a, b, c)"
proof -
  have last: "\<not> is_space (List.last (dec_str c))"
    using dec_str_digits [OF last_in_set [OF dec_str_nonempty] assms(3)] by (rule digit_not_space)
  have "\<not> is_space (CHR ''v'')" by code_simp
  then have "strip (release_tag (a, b, c)) = release_tag (a, b, c)"
    using last by (intro strip_id) (simp add: release_tag_def)
  then show ?thesis
    using assms take_number_dec [of c "[]"]
    by (simp add: parse_release_tag_def release_tag_def take_number_dec)
qed

lemma release_tag_roundtrip_witness:
  "parse_release_tag (PStr (release_tag (1, 20, 3))) = Some (1, 20, 3)"
  by (rule release_tag_roundtrip) simp_all

end
