(* ===== verification/Store_Operations.thy ===== *)
theory Store_Operations
  imports State_Store Monitor_Config
begin

text \<open>
  The operations of the state store (\<open>service.py\<close>): the inventory of hosts, the settings that a new
  configuration changes, and \<open>apply\<close>, which takes one probe result through the tracker, the GPU
  telemetry, the server's state, the history and the notifications.
\<close>

section \<open>The inventory\<close>

text \<open>A host that is not known yet: a pending server of a new incarnation, with the history a restart
  restored for it.\<close>

definition add_host :: "(pyval \<Rightarrow> string) \<Rightarrow> string \<Rightarrow> state_store \<Rightarrow> store_error + state_store" where
  "add_host render host s =
    (case sum_each (host_from_dict render) (dget_or [] (ss_restored_history s) host) of
       Inl e \<Rightarrow> Inl (Conversion_Error e)
     | Inr points \<Rightarrow> Inr
        (s\<lparr>ss_servers := dset (ss_servers s) host (new_server host),
           ss_host_incarnations := dset (ss_host_incarnations s) host (ss_next_host_incarnation s),
           ss_next_host_incarnation := ss_next_host_incarnation s + 1,
           ss_restored_history := dpop (ss_restored_history s) host,
           ss_history := dset (ss_history s) host (deque_of (st_history_points (ss_settings s)) points)\<rparr>))"

fun add_hosts :: "(pyval \<Rightarrow> string) \<Rightarrow> string list \<Rightarrow> state_store \<Rightarrow> store_error + (bool \<times> state_store)" where
  "add_hosts render [] s = Inr (False, s)"
| "add_hosts render (host # hosts) s =
    (if dget (ss_servers s) host \<noteq> None then add_hosts render hosts s
     else sum_bind (add_host render host s) (\<lambda>s.
          sum_bind (add_hosts render hosts s) (\<lambda>(changed, s). Inr (True, s))))"

definition drop_hosts :: "string list \<Rightarrow> state_store \<Rightarrow> state_store" where
  "drop_hosts gone s =
    s\<lparr>ss_servers := drestrict (\<lambda>h. h \<notin> set gone) (ss_servers s),
      ss_host_incarnations := drestrict (\<lambda>h. h \<notin> set gone) (ss_host_incarnations s),
      ss_history := drestrict (\<lambda>h. h \<notin> set gone) (ss_history s)\<rparr>"

definition set_hosts ::
  "(pyval \<Rightarrow> string) \<Rightarrow> moment \<Rightarrow> string list \<Rightarrow> state_store \<Rightarrow> store_error + state_store" where
  "set_hosts render now hosts s =
    (let initial = \<not> ss_inventory_initialized s;
         gone = filter (\<lambda>h. h \<notin> set hosts) (keys (ss_servers s));
         s = drop_hosts gone s;
         stale = (\<lambda>h. if initial then h \<notin> set hosts else h \<in> set gone);
         s = (if initial \<or> gone \<noteq> [] then s\<lparr>ss_gpu := forget_hosts stale (ss_gpu s)\<rparr> else s);
         s = (if initial
              then s\<lparr>ss_restored_history := drestrict (\<lambda>h. h \<in> set hosts) (ss_restored_history s),
                     ss_inventory_initialized := True\<rparr>
              else s)
     in sum_bind (add_hosts render hosts s) (\<lambda>(added, s).
        (let s = s\<lparr>ss_incidents := remove_hosts (ss_incidents s) hosts,
                   ss_incident_policy := retain_hosts (ss_incident_policy s) hosts\<rparr>;
             s = sync_tracker_revision s
         in Inr (if gone \<noteq> [] \<or> added then publish now s else s))))"

section \<open>Settings\<close>

definition set_collector_error :: "moment \<Rightarrow> string option \<Rightarrow> state_store \<Rightarrow> state_store" where
  "set_collector_error now message s =
    (if message \<noteq> ss_collector_error s then publish now (s\<lparr>ss_collector_error := message\<rparr>) else s)"

definition min_runtime_poll_interval :: rat where "min_runtime_poll_interval = 1"
definition max_runtime_poll_interval :: rat where "max_runtime_poll_interval = 3600"

definition set_poll_interval_seconds ::
  "moment \<Rightarrow> pyval \<Rightarrow> state_store \<Rightarrow> store_error + (rat \<times> state_store)" where
  "set_poll_interval_seconds now v s =
    (case (case v of PInt i \<Rightarrow> py_float v | PFloat x \<Rightarrow> py_float v | PInf n \<Rightarrow> py_float v | PNan \<Rightarrow> py_float v
           | _ \<Rightarrow> Inl Type_Error) of
       Inl Type_Error \<Rightarrow> Inl (Refused ''poll interval must be a number'')
     | Inl e \<Rightarrow> Inl (Conversion_Error e)
     | Inr (Fin interval) \<Rightarrow>
         if \<not> (min_runtime_poll_interval \<le> interval \<and> interval \<le> max_runtime_poll_interval)
         then Inl (Refused ''poll interval must be between 1 and 3600 seconds'')
         else if interval = ss_poll_interval_seconds s then Inr (interval, s)
         else Inr (interval, publish now
           (s\<lparr>ss_poll_interval_seconds := interval,
              ss_collection_stale_after_seconds :=
                interval * of_int (st_collection_stale_cycles (ss_settings s))\<rparr>))
     | Inr _ \<Rightarrow> Inl (Refused ''poll interval must be between 1 and 3600 seconds''))"

definition update_store_gpu_counts :: "(string \<times> int) list \<Rightarrow> state_store \<Rightarrow> state_store" where
  "update_store_gpu_counts expected s =
    s\<lparr>ss_incident_policy := update_expected_gpu_counts (ss_incident_policy s) expected\<rparr>"

definition set_maintenance_windows ::
  "moment \<Rightarrow> (string \<times> maintenance_window) list \<Rightarrow> state_store \<Rightarrow> state_store" where
  "set_maintenance_windows now windows s =
    (if same_dict (dict_of windows) (ss_maintenance_windows s) then s
     else
       (let s = s\<lparr>ss_maintenance_windows := dict_of windows\<rparr>
        in publish now
            (s\<lparr>ss_active_maintenance_signature := maintenance_signature now s,
               ss_incident_revision := ss_incident_revision s + 1\<rparr>)))"

text \<open>\<open>{(action.host, action.condition_key): action for action in incident_actions}\<close>.\<close>

definition keyed_actions :: "incident_action list \<Rightarrow> (condition_key, incident_action) dict" where
  "keyed_actions actions = dict_of (map (\<lambda>a. ((ia_host a, ia_condition_key a), a)) actions)"

definition set_incident_actions :: "moment \<Rightarrow> incident_action list \<Rightarrow> state_store \<Rightarrow> state_store" where
  "set_incident_actions now actions s =
    (let updated = keyed_actions actions; previous = ss_incident_actions s
     in if same_dict updated previous then s
        else
          (let kept = (\<lambda>k. dget updated k \<noteq> None \<and> dget previous k = dget updated k);
               s = s\<lparr>ss_incident_actions := updated,
                     ss_startup_action_candidates := filter kept (ss_startup_action_candidates s),
                     ss_startup_action_bindings := drestrict kept (ss_startup_action_bindings s)\<rparr>
           in publish now
               (s\<lparr>ss_active_action_signature := incident_action_signature now s,
                  ss_incident_revision := ss_incident_revision s + 1\<rparr>)))"

definition set_host_display_names :: "moment \<Rightarrow> (string \<times> string) list \<Rightarrow> state_store \<Rightarrow> state_store" where
  "set_host_display_names now names s =
    (if same_dict (dict_of names) (ss_display_names s) then s
     else publish now (s\<lparr>ss_display_names := dict_of names\<rparr>))"

definition set_host_groups :: "moment \<Rightarrow> (string \<times> string) list \<Rightarrow> state_store \<Rightarrow> state_store" where
  "set_host_groups now groups s =
    (if same_dict (dict_of groups) (ss_host_groups s) then s
     else publish now
       (s\<lparr>ss_host_groups := dict_of groups,
          ss_incident_policy := update_overrides (ss_incident_policy s)
            (ss_host_incident_overrides s) (ss_group_incident_overrides s) groups\<rparr>))"

text \<open>Equality of two tuples of overrides; the excluded mounts are sets.\<close>

definition same_override :: "scope_override \<Rightarrow> scope_override \<Rightarrow> bool" where
  "same_override a b \<longleftrightarrow>
    so_thresholds a = so_thresholds b \<and> set (so_exclude_disk_mounts a) = set (so_exclude_disk_mounts b)"

definition same_overrides :: "(string \<times> scope_override) list \<Rightarrow> (string \<times> scope_override) list \<Rightarrow> bool" where
  "same_overrides xs ys \<longleftrightarrow>
    list_all2 (\<lambda>a b. fst a = fst b \<and> same_override (snd a) (snd b)) xs ys"

definition set_incident_overrides ::
  "moment \<Rightarrow> (string \<times> scope_override) list \<Rightarrow> (string \<times> scope_override) list \<Rightarrow> (string \<times> string) list \<Rightarrow>
   state_store \<Rightarrow> state_store" where
  "set_incident_overrides now host_overrides group_overrides groups s =
    (if same_overrides host_overrides (ss_host_incident_overrides s)
        \<and> same_overrides group_overrides (ss_group_incident_overrides s) then s
     else publish now
       (s\<lparr>ss_host_incident_overrides := host_overrides,
          ss_group_incident_overrides := group_overrides,
          ss_incident_policy := update_overrides (ss_incident_policy s) host_overrides group_overrides groups,
          ss_incident_revision := ss_incident_revision s + 1\<rparr>))"

text \<open>The correlator is a function of the topology, so the store keeps the topology only; building it
  does not return when the topology has a cycle.\<close>

definition set_topology :: "moment \<Rightarrow> topology option \<Rightarrow> state_store \<Rightarrow> store_error + state_store" where
  "set_topology now t s =
    (if t = ss_topology s then Inr s
     else case create_incident_correlator t of
       None \<Rightarrow> Inl No_Return
     | Some correlator \<Rightarrow> Inr (publish now
         (s\<lparr>ss_topology := t, ss_incident_revision := ss_incident_revision s + 1\<rparr>)))"

definition reconfigure ::
  "(pyval \<Rightarrow> string) \<Rightarrow> moment \<Rightarrow> monitor_config \<Rightarrow> string list option \<Rightarrow> state_store \<Rightarrow> store_error + state_store" where
  "reconfigure render now config hosts s =
    sum_bind (set_poll_interval_seconds now (PFloat (mc_poll_interval_seconds config)) s) (\<lambda>(interval, s).
    (let s = update_store_gpu_counts (mc_expected_gpu_counts config) s;
         s = set_maintenance_windows now (mc_maintenance_windows config) s;
         s = set_incident_actions now (mc_incident_actions config) s;
         s = set_incident_overrides now (mc_host_incident_overrides config)
               (mc_group_incident_overrides config) (mc_host_groups config) s;
         s = set_host_groups now (mc_host_groups config) s;
         s = set_host_display_names now (host_display_names config) s
     in sum_bind (set_topology now (mc_topology config) s) (\<lambda>s.
        case hosts of None \<Rightarrow> Inr s | Some hs \<Rightarrow> set_hosts render now hs s)))"

section \<open>Polling\<close>

definition mark_polling :: "string \<Rightarrow> state_store \<Rightarrow> state_store" where
  "mark_polling host s =
    (case dget (ss_servers s) host of
       None \<Rightarrow> s
     | Some state \<Rightarrow> s\<lparr>ss_servers := dset (ss_servers s) host (state\<lparr>sv_polling := True\<rparr>)\<rparr>)"

definition begin_poll :: "moment \<Rightarrow> string list \<Rightarrow> state_store \<Rightarrow> state_store" where
  "begin_poll now hosts s =
    (let idle = filter (\<lambda>h. case dget (ss_servers s) h of Some state \<Rightarrow> \<not> sv_polling state | None \<Rightarrow> False) hosts
     in if idle = [] then s else publish now (fold mark_polling hosts s))"

definition note_poll_cycle :: "moment \<Rightarrow> rat \<Rightarrow> state_store \<Rightarrow> state_store" where
  "note_poll_cycle now duration s =
    s\<lparr>ss_last_poll_completed_at := Some (iso_z now),
      ss_last_poll_duration_ms := Some (max 0 (py_round (duration * 1000)))\<rparr>"

definition record_poll_cycle :: "moment \<Rightarrow> rat \<Rightarrow> state_store \<Rightarrow> state_store" where
  "record_poll_cycle now duration s = publish now (note_poll_cycle now duration s)"

definition reschedule_retry :: "moment \<Rightarrow> string \<Rightarrow> rat \<Rightarrow> state_store \<Rightarrow> state_store" where
  "reschedule_retry now host retry_after s =
    (case dget (ss_servers s) host of
       None \<Rightarrow> s
     | Some state \<Rightarrow>
         if sv_status state = Probed Online then s
         else publish now (s\<lparr>ss_servers :=
           dset (ss_servers s) host (state\<lparr>sv_next_retry_at := Some (utc_after now retry_after)\<rparr>)\<rparr>))"

end
