(* ===== verification/Store_Apply.thy ===== *)
theory Store_Apply
  imports Store_Operations
begin

text \<open>
  \<open>StateStore.apply\<close> (\<open>service.py\<close>): one probe result through the tracker, the GPU telemetry, the
  server's state, the history and the notifications, and \<open>_notification_event_actionable\<close>, the check
  a delivery worker makes before it sends.
\<close>

section \<open>The history point of a sample\<close>

definition fin_opt :: "rat option \<Rightarrow> double option" where
  "fin_opt v = map_option Fin v"

definition maximum :: "rat list \<Rightarrow> rat option" where
  "maximum xs = (case xs of [] \<Rightarrow> None | x # rest \<Rightarrow> Some (fold max rest x))"

text \<open>A ratio of device memory needs devices that report both sides.\<close>

definition gpu_memory_sides :: "probe_result \<Rightarrow> (rat \<times> rat) list" where
  "gpu_memory_sides r =
    List.map_filter (\<lambda>g. case (gm_memory_used_mib g, gm_memory_total_mib g) of
      (Some used, Some whole) \<Rightarrow> Some (used, whole) | _ \<Rightarrow> None) (pr_gpus r)"

definition history_point :: "probe_result \<Rightarrow> system_metrics \<Rightarrow> host_history_point" where
  "history_point r m =
    (let usage = List.map_filter gm_utilization_gpu_pct (pr_gpus r);
         memory = gpu_memory_sides r;
         memory_used = sum_list (map fst memory); memory_total = sum_list (map snd memory);
         temperatures = List.map_filter gm_temperature_c (pr_gpus r)
     in host_create (pr_observed_at r)
         \<lparr>hs_cpu_usage_pct = fin_opt (sm_cpu_usage_pct m),
          hs_memory_usage_pct = Fin (percentage (sm_memory_used_mib m) (sm_memory_total_mib m)),
          hs_swap_usage_pct = Fin (percentage (sm_swap_used_mib m) (sm_swap_total_mib m)),
          hs_disk_usage_pct = Fin (percentage (sm_disk_used_mib m) (sm_disk_total_mib m)),
          hs_network_rx_bps = fin_opt (sm_network_rx_bps m),
          hs_network_tx_bps = fin_opt (sm_network_tx_bps m),
          hs_disk_read_bps = fin_opt (sm_disk_read_bps m),
          hs_disk_write_bps = fin_opt (sm_disk_write_bps m),
          hs_gpu_usage_pct = (if usage = [] then None
            else Some (Fin (round_to 2 (sum_list usage / of_nat (length usage))))),
          hs_gpu_memory_usage_pct = (if 0 < memory_total then Some (Fin (percentage memory_used memory_total))
            else None),
          hs_gpu_temperature_c = fin_opt (maximum temperatures),
          hs_transport_retried = 0 < pr_transport_retries r\<rparr>)"

section \<open>Decorated incidents\<close>

definition item_to_dict :: "incident_item \<Rightarrow> obj" where
  "item_to_dict i =
    dmerge (active_dict (it_condition i) (it_host i))
      [(''firstObservedAt'', PStr (it_first_observed_at i)),
       (''lastObservedAt'', PStr (it_last_observed_at i))]"

definition active_items :: "state_store \<Rightarrow> obj list" where
  "active_items s = map item_to_dict (ts_active (tracker_snapshot (ss_incidents s) 1))"

text \<open>\<open>str(item[key])\<close> of an item's text.\<close>

definition item_text :: "obj \<Rightarrow> string \<Rightarrow> string" where
  "item_text item key = (case as_text (oget item key) of None \<Rightarrow> [] | Some s \<Rightarrow> s)"

text \<open>The action that counts for an item.\<close>

definition item_action ::
  "(condition_key, incident_action) dict \<Rightarrow> state_store \<Rightarrow> obj \<Rightarrow> incident_action option" where
  "item_action actions s item =
    (let host = item_text item ''host''; key = item_text item ''conditionKey''
     in case dget actions (host, key) of
          None \<Rightarrow> None
        | Some a \<Rightarrow> if incident_action_matches a host key s then Some a else None)"

definition decorate_incident ::
  "(string, maintenance_window) dict \<Rightarrow> (condition_key, incident_action) dict \<Rightarrow> moment \<Rightarrow> state_store \<Rightarrow>
   obj \<Rightarrow> obj" where
  "decorate_incident maintenance actions now s item =
    (let window = dget maintenance (item_text item ''host'');
         action = item_action actions s item;
         silenced = window \<noteq> None \<or> map_option ia_action action = Some ''silenced'';
         acknowledged = map_option ia_action action = Some ''acknowledged'';
         item = dmerge item
           [(''maintenanceSilenced'', PBool (window \<noteq> None)),
            (''silenced'', PBool silenced),
            (''acknowledged'', PBool acknowledged),
            (''actionable'', PBool (\<not> (silenced \<or> acknowledged))),
            (''action'', popt (\<lambda>a. PStr (ia_action a)) action),
            (''actionUntil'', popt (\<lambda>a. popt PStr (action_until a)) action),
            (''actionReason'', popt (\<lambda>a. PStr (ia_reason a)) action)]
     in case window of
          None \<Rightarrow> item
        | Some w \<Rightarrow> dmerge item
            [(''maintenanceUntil'', PStr (window_until w now)), (''maintenanceReason'', PStr (mw_reason w))])"

definition decorated_items :: "moment \<Rightarrow> state_store \<Rightarrow> obj list" where
  "decorated_items now s =
    map (decorate_incident (active_maintenance now s) (active_incident_actions now s) now s) (active_items s)"

text \<open>The correlations of the decorated items over the monitored hosts.\<close>

definition correlate_store :: "state_store \<Rightarrow> obj list \<Rightarrow> store_error + correlation list" where
  "correlate_store s items =
    (case create_incident_correlator (ss_topology s) of
       None \<Rightarrow> Inl No_Return
     | Some correlator \<Rightarrow>
         (case correlator items (keys (ss_servers s)) of None \<Rightarrow> Inl No_Return | Some cs \<Rightarrow> Inr cs))"

section \<open>Notifications\<close>

text \<open>A resolved transition is always notified; any other one unless its host is in maintenance or
  its condition is silenced.\<close>

definition notified :: "moment \<Rightarrow> state_store \<Rightarrow> event \<Rightarrow> bool" where
  "notified now s e \<longleftrightarrow>
    ev_state e = Resolved
    \<or> (dget (active_maintenance now s) (ev_host e) = None
       \<and> \<not> condition_is_silenced now (ev_host e) (ic_key (ev_condition e)) s)"

definition note_event :: "nat \<Rightarrow> event \<Rightarrow> state_store \<Rightarrow> state_store" where
  "note_event incarnation e s =
    s\<lparr>ss_notification_event_incarnations :=
        dset (ss_notification_event_incarnations s) (ev_event_id e) incarnation,
      ss_notification_event_order := ss_notification_event_order s @ [ev_event_id e]\<rparr>"

definition expire_events :: "state_store \<Rightarrow> state_store" where
  "expire_events s =
    (let order = ss_notification_event_order s;
         surplus = length order - st_notification_event_capacity (ss_settings s)
     in s\<lparr>ss_notification_event_incarnations :=
            fold (\<lambda>i d. dpop d i) (take surplus order) (ss_notification_event_incarnations s),
          ss_notification_event_order := drop surplus order\<rparr>)"

definition notify_events ::
  "moment \<Rightarrow> string \<Rightarrow> event list \<Rightarrow> state_store \<Rightarrow> store_error + (store_effect list \<times> state_store)" where
  "notify_events now host events s =
    (let selected = filter (notified now s) events
     in if selected = [] then Inr ([], s)
        else case dget (ss_host_incarnations s) host of
          None \<Rightarrow> Inl (Tracker_Error (KeyError host))
        | Some incarnation \<Rightarrow>
            (let s = expire_events (fold (note_event incarnation) selected s)
             in sum_bind (correlate_store s (decorated_items now s)) (\<lambda>correlations.
                  Inr ([Publish_Events selected correlations], s))))"

definition notification_event_actionable :: "moment \<Rightarrow> state_store \<Rightarrow> event \<Rightarrow> bool" where
  "notification_event_actionable now s e \<longleftrightarrow>
    ev_state e = Resolved
    \<or> (case dget (ss_notification_event_incarnations s) (ev_event_id e) of
         None \<Rightarrow> False
       | Some expected \<Rightarrow>
           dget (ss_host_incarnations s) (ev_host e) = Some expected
           \<and> has_active_condition (ss_incidents s) (ev_host e) (ic_key (ev_condition e))
           \<and> dget (active_maintenance now s) (ev_host e) = None
           \<and> \<not> condition_is_silenced now (ev_host e) (ic_key (ev_condition e)) s)"

section \<open>Applying a result\<close>

text \<open>\<open>persist_incidents\<close>: the transitions with the criterion of every active condition.\<close>

definition persist_incidents :: "state_store \<Rightarrow> string \<Rightarrow> event list \<Rightarrow> store_effect list" where
  "persist_incidents s host events =
    (if \<not> st_persistence_enabled (ss_settings s) then []
     else if st_records_incident_state (ss_settings s) then
       [Record_Incident_State host events
         (map (\<lambda>(key, c). (key, ic_critical_at c)) (dsub (tr_active (ss_incidents s)) host))]
     else if events \<noteq> [] then [Record_Incidents events] else [])"

text \<open>The incidents of a result: the tracker's transitions, the startup bindings and the revision.\<close>

definition apply_incidents ::
  "(string \<Rightarrow> nat) \<Rightarrow> moment \<Rightarrow> probe_result \<Rightarrow> state_store \<Rightarrow> store_error + (event list \<times> state_store)" where
  "apply_incidents order now r s =
    (let host = pr_host r; before = active_signature (ss_incidents s) host
     in case tracker_update order (ss_incident_policy s) r (ss_incidents s) of
          Inl e \<Rightarrow> Inl (Tracker_Error e)
        | Inr (events, t, p) \<Rightarrow>
            (let s = s\<lparr>ss_incidents := t, ss_incident_policy := p\<rparr>;
                 s = refresh_startup_action_bindings now r s;
                 s = sync_tracker_revision s;
                 s = (if before \<noteq> [] \<and> active_signature t host \<noteq> before \<and> events = []
                      then s\<lparr>ss_incident_revision := ss_incident_revision s + 1\<rparr> else s)
             in Inr (events, s)))"

text \<open>The GPU telemetry of a result. A failed probe closes the confirmed occupancy only once the host
  has failed for as many cycles as make its data stale.\<close>

definition apply_gpu ::
  "(string \<Rightarrow> nat) \<Rightarrow> probe_result \<Rightarrow> server_state \<Rightarrow> state_store \<Rightarrow>
   store_error + (probe_result \<times> (string \<times> gpu_history_point) list \<times> gpu_process_transition list \<times> state_store)"
  where
  "apply_gpu order r state s =
    (let st = ss_settings s
     in if pr_status r = Online then
          (case track_gpu_telemetry (st_history_points st) (st_process_event_points st)
                  (st_persistence_enabled st) order r (ss_gpu s) of
             Inl e \<Rightarrow> Inl (Conversion_Error e)
           | Inr (points, transitions, g) \<Rightarrow>
               Inr (first_seen_annotated g r, points, transitions, s\<lparr>ss_gpu := g\<rparr>))
        else if st_collection_stale_cycles st \<le> sv_consecutive_failures state + 1 then
          (let (transitions, g) = invalidate_process_inventory (st_process_event_points st) order
                 (pr_host r) (ss_gpu s)
           in Inr (r, [], transitions, s\<lparr>ss_gpu := g\<rparr>))
        else Inr (r, [], [], s))"

definition apply_history ::
  "probe_result \<Rightarrow> state_store \<Rightarrow> store_error + (store_effect list \<times> state_store)" where
  "apply_history r s =
    (case (pr_status r, pr_system r) of
       (Online, Some m) \<Rightarrow>
         (case dget (ss_history s) (pr_host r) of
            None \<Rightarrow> Inl (Tracker_Error (KeyError (pr_host r)))
          | Some points \<Rightarrow>
              (let p = history_point r m
               in Inr (if st_persistence_enabled (ss_settings s) then [Record_History (pr_host r) p] else [],
                       s\<lparr>ss_history := dset (ss_history s) (pr_host r)
                           (deque_append (st_history_points (ss_settings s)) points p)\<rparr>)))
     | _ \<Rightarrow> Inr ([], s))"

definition apply_known ::
  "(string \<Rightarrow> nat) \<Rightarrow> moment \<Rightarrow> probe_result \<Rightarrow> rat option \<Rightarrow> server_state \<Rightarrow> state_store \<Rightarrow>
   store_error + (store_effect list \<times> state_store)" where
  "apply_known order now r retry_after state s =
    sum_bind (apply_incidents order now r s) (\<lambda>(events, s).
    (let persisted = persist_incidents s (pr_host r) events;
         next_retry_at = map_option (utc_after now) retry_after;
         s = s\<lparr>ss_transport_retries_total := ss_transport_retries_total s + pr_transport_retries r\<rparr>
     in sum_bind (apply_gpu order r state s) (\<lambda>(r, points, transitions, s).
        (let s = s\<lparr>ss_servers := dset (ss_servers s) (pr_host r) (server_apply state r next_retry_at)\<rparr>
         in sum_bind (apply_history r s) (\<lambda>(recorded, s).
            sum_bind (notify_events now (pr_host r) events s) (\<lambda>(published, s).
            (let gpu = (if st_persistence_enabled (ss_settings s) \<and> (points \<noteq> [] \<or> transitions \<noteq> [])
                        then [Record_Gpu_Telemetry (pr_host r) points transitions] else [])
             in Inr (persisted @ recorded @ gpu @ published, publish now s))))))))"

definition expected_host :: "probe_result \<Rightarrow> nat option \<Rightarrow> state_store \<Rightarrow> bool" where
  "expected_host r incarnation s \<longleftrightarrow>
    incarnation = None \<or> dget (ss_host_incarnations s) (pr_host r) = incarnation"

definition apply_result ::
  "(string \<Rightarrow> nat) \<Rightarrow> moment \<Rightarrow> probe_result \<Rightarrow> rat option \<Rightarrow> rat option \<Rightarrow> nat option \<Rightarrow> state_store \<Rightarrow>
   store_error + (bool \<times> store_effect list \<times> state_store)" where
  "apply_result order now r retry_after poll_cycle_duration incarnation s =
    (let s = (case poll_cycle_duration of None \<Rightarrow> s | Some d \<Rightarrow> note_poll_cycle now d s)
     in case dget (ss_servers s) (pr_host r) of
          None \<Rightarrow> Inr (False, [], if poll_cycle_duration = None then s else publish now s)
        | Some state \<Rightarrow>
            if \<not> expected_host r incarnation s
            then Inr (False, [], if poll_cycle_duration = None then s else publish now s)
            else sum_bind (apply_known order now r retry_after state s) (\<lambda>(effects, s).
                   Inr (True, effects, s)))"

end
