(* ===== verification/Store_Views.thy ===== *)
theory Store_Views
  imports Store_Apply Usage
begin

text \<open>
  What the state store shows its readers (\<open>service.py\<close>): the snapshot with its cache, the wait of an
  SSE client, the histories, the health, the inputs of the usage views, and the constructor. A view
  that refreshes an expired signature also changes the state.
\<close>

section \<open>The snapshot\<close>

text \<open>The statuses are what the adapters return now. Two values have the same \<open>repr\<close> when they are
  the same value of the model, so the signature is the pair itself.\<close>

definition refresh_adapter_status :: "pyval \<times> pyval \<Rightarrow> state_store \<Rightarrow> state_store" where
  "refresh_adapter_status statuses s =
    (if statuses = ss_adapter_statuses s then s
     else s\<lparr>ss_adapter_statuses := statuses, ss_version := ss_version s + 1, ss_snapshot_cache := None\<rparr>)"

definition count_int :: "('a \<Rightarrow> bool) \<Rightarrow> 'a list \<Rightarrow> pyval" where
  "count_int p xs = PInt (int (count_if p xs))"

definition incident_counts :: "obj list \<Rightarrow> obj" where
  "incident_counts items =
    (let actionable = filter is_actionable items
     in [(''active'', PInt (int (length items))),
         (''critical'', count_int is_critical items),
         (''actionable'', PInt (int (length actionable))),
         (''actionableCritical'', count_int is_critical actionable)])"

text \<open>The dictionary of a server, with the annotations of the snapshot.\<close>

definition annotate_server ::
  "(string, maintenance_window) dict \<Rightarrow> obj list \<Rightarrow> moment \<Rightarrow> state_store \<Rightarrow> obj \<Rightarrow> obj" where
  "annotate_server maintenance items now s server =
    (let host = item_text server ''host'';
         mine = filter (\<lambda>c. item_text c ''host'' = host) items
     in dmerge server
         [(''maintenance'', popt PDict (Option.bind (dget maintenance host) (\<lambda>w. window_to_dict w now))),
          (''group'', popt PStr (dget (ss_host_groups s) host)),
          (''displayName'', popt PStr (dget (ss_display_names s) host)),
          (''incidents'', PDict (incident_counts mine))])"

definition annotated_servers :: "moment \<Rightarrow> state_store \<Rightarrow> obj list" where
  "annotated_servers now s =
    map (annotate_server (active_maintenance now s) (decorated_items now s) now s)
      (map (\<lambda>hs. server_to_dict (snd hs)) (ss_servers s))"

definition project_snapshot :: "(pyval \<Rightarrow> string) \<Rightarrow> moment \<Rightarrow> state_store \<Rightarrow> fleet_snapshot" where
  "project_snapshot render now s =
    (let servers = annotated_servers now s
     in \<lparr>fp_version = ss_version s,
         fp_app_version = st_app_version (ss_settings s),
         fp_incident_version = ss_incident_revision s,
         fp_generated_at = iso_z now,
         fp_started_at = st_started_at (ss_settings s),
         fp_poll_interval_seconds = ss_poll_interval_seconds s,
         fp_collection_stale_after_seconds = ss_collection_stale_after_seconds s,
         fp_last_poll_completed_at = ss_last_poll_completed_at s,
         fp_last_poll_duration_ms = ss_last_poll_duration_ms s,
         fp_collector_error = ss_collector_error s,
         fp_persistence = fst (ss_adapter_statuses s),
         fp_notifications = snd (ss_adapter_statuses s),
         fp_thresholds = thresholds_to_dict (st_thresholds (ss_settings s)),
         fp_stats = fleet_stats render servers (decorated_items now s)
           (keys (active_maintenance now s)) (th_gpu_busy_pct (st_thresholds (ss_settings s))),
         fp_servers = servers\<rparr>)"

definition snapshot_locked ::
  "(pyval \<Rightarrow> string) \<Rightarrow> moment \<Rightarrow> pyval \<times> pyval \<Rightarrow> state_store \<Rightarrow> fleet_snapshot \<times> state_store" where
  "snapshot_locked render now statuses s =
    (let s = refresh_adapter_status statuses s;
         cache_key = (ss_version s, ss_incident_revision s);
         fresh = project_snapshot render now s;
         rebuilt = (fresh, s\<lparr>ss_snapshot_cache := Some (cache_key, fresh)\<rparr>)
     in case ss_snapshot_cache s of
          Some (k, cached) \<Rightarrow> if k = cache_key then (cached, s) else rebuilt
        | None \<Rightarrow> rebuilt)"

definition refresh_expiries :: "moment \<Rightarrow> state_store \<Rightarrow> state_store" where
  "refresh_expiries now s = refresh_incident_action_expiry now (refresh_maintenance_expiry now s)"

text \<open>\<open>snapshot\<close> and \<open>snapshot_view\<close>: they differ in the copy only.\<close>

definition store_snapshot ::
  "(pyval \<Rightarrow> string) \<Rightarrow> moment \<Rightarrow> pyval \<times> pyval \<Rightarrow> state_store \<Rightarrow> fleet_snapshot \<times> state_store" where
  "store_snapshot render now statuses s = snapshot_locked render now statuses (refresh_expiries now s)"

text \<open>\<open>wait_for_update\<close>. In every round of the wait the adapters report their statuses, and then the
  other threads change the state while the lock is released; \<open>final\<close> is what the adapters report in
  the round that finds the deadline passed.\<close>

fun wait_rounds ::
  "nat \<Rightarrow> ((pyval \<times> pyval) \<times> (state_store \<Rightarrow> state_store)) list \<Rightarrow> pyval \<times> pyval \<Rightarrow> state_store \<Rightarrow> state_store"
  where
  "wait_rounds after [] final s =
    (if after < ss_version s then s else refresh_adapter_status final s)"
| "wait_rounds after ((statuses, others) # rounds) final s =
    (if after < ss_version s then s
     else
       (let s = refresh_adapter_status statuses s
        in if after < ss_version s then s else wait_rounds after rounds final (others s)))"

definition wait_for_update ::
  "(pyval \<Rightarrow> string) \<Rightarrow> moment \<Rightarrow> moment \<Rightarrow> nat \<Rightarrow> ((pyval \<times> pyval) \<times> (state_store \<Rightarrow> state_store)) list \<Rightarrow>
   pyval \<times> pyval \<Rightarrow> pyval \<times> pyval \<Rightarrow> state_store \<Rightarrow> fleet_snapshot option \<times> state_store" where
  "wait_for_update render now later after rounds final reported s =
    (let s = wait_rounds after rounds final (refresh_expiries now s)
     in if ss_version s \<le> after then (None, s)
        else (let (p, s) = snapshot_locked render later reported s in (Some p, s)))"

section \<open>Other views\<close>

definition store_history :: "string \<Rightarrow> nat \<Rightarrow> state_store \<Rightarrow> (rat \<times> nat \<times> host_history_point list) option" where
  "store_history host limit s =
    map_option (\<lambda>points. (ss_poll_interval_seconds s, st_history_points (ss_settings s), slice_last limit points))
      (dget (ss_history s) host)"

record gpu_history_view =
  gv_poll_interval_seconds :: rat
  gv_max_points :: nat
  gv_points :: "gpu_history_point list"
  gv_process_events :: "gpu_process_transition list"

definition store_gpu_history :: "string \<Rightarrow> string \<Rightarrow> nat \<Rightarrow> state_store \<Rightarrow> gpu_history_view option" where
  "store_gpu_history host gpu_id limit s =
    (if dget (ss_servers s) host = None then None
     else map_option (\<lambda>points.
       \<lparr>gv_poll_interval_seconds = ss_poll_interval_seconds s,
        gv_max_points = st_history_points (ss_settings s),
        gv_points = slice_last limit points,
        gv_process_events = slice_last limit
          (filter gt_visible (dget_or [] (gs_process_events (ss_gpu s)) (host, gpu_id)))\<rparr>)
       (dget (gs_gpu_history (ss_gpu s)) (host, gpu_id)))"

record store_health =
  he_ready :: bool
  he_reason :: "string option"
  he_targets :: nat
  he_targets_with_successful_sample :: nat
  he_transport_retries :: int
  he_version :: nat
  he_started_at :: string

definition store_health :: "state_store \<Rightarrow> store_health" where
  "store_health s =
    (let discovered = length (ss_servers s);
         successful = count_if (\<lambda>hs. sv_last_success_at (snd hs) \<noteq> None) (ss_servers s);
         ready = (0 < discovered \<and> 0 < successful)
     in \<lparr>he_ready = ready,
         he_reason =
           (if ready then None
            else case ss_collector_error s of
                Some (c # cs) \<Rightarrow>
                  if startswith (c # cs) ''SSH host discovery'' then Some ''host discovery failed''
                  else Some ''collector failed unexpectedly''
              | _ \<Rightarrow>
                  if discovered = 0 then Some ''no monitoring targets discovered''
                  else Some ''waiting for first successful collection''),
         he_targets = discovered,
         he_targets_with_successful_sample = successful,
         he_transport_retries = ss_transport_retries_total s,
         he_version = ss_version s,
         he_started_at = st_started_at (ss_settings s)\<rparr>)"

text \<open>A view of the incidents; every item also gets its diagnosis, a function of the item and of its
  server's dictionary (\<open>Diagnostics\<close>).\<close>

definition view_order :: "obj \<Rightarrow> bool \<times> bool \<times> string \<times> string" where
  "view_order item =
    (\<not> truthy (oget item ''actionable''), \<not> is_critical item,
     item_text item ''host'', item_text item ''conditionKey'')"

definition finite_of :: "double option \<Rightarrow> rat option" where
  "finite_of v = (case v of Some (Fin x) \<Rightarrow> Some x | _ \<Rightarrow> None)"

text \<open>\<open>usage_inputs\<close>, with the options of \<open>usage\<close> (\<open>memory_usage\<close>). A point's utilization is a finite
  number or unknown.\<close>

definition store_usage_query :: "moment \<Rightarrow> int \<Rightarrow> nat \<Rightarrow> state_store \<Rightarrow> usage_query" where
  "store_usage_query now window_hours owner_limit s =
    \<lparr>uq_now = now, uq_window_hours = window_hours, uq_owner_limit = owner_limit,
     uq_busy_pct = th_gpu_busy_pct (st_thresholds (ss_settings s)),
     uq_events = gs_process_events (ss_gpu s),
     uq_active = gs_active (ss_gpu s),
     uq_utilization = map (\<lambda>(key, points). (key, map (\<lambda>p. (gh_observed_at p,
         finite_of (unpacked_optional_float (hd (gh_values p))))) points)) (gs_gpu_history (ss_gpu s)),
     uq_event_cap = Some (st_process_event_points (ss_settings s)),
     uq_observed_until = Some (filter (\<lambda>kt. case dget (ss_servers s) (fst (fst kt)) of
         None \<Rightarrow> False | Some state \<Rightarrow> sv_status state \<noteq> Probed Online) (gs_last_observed (ss_gpu s))),
     uq_classifier = None,
     uq_resolution = ''sample''\<rparr>"

section \<open>Construction\<close>

record loaded_telemetry =
  lt_history :: "(string, obj list) dict"
  lt_incident_events :: "event list"
  lt_gpu_history :: "(gpu_key, obj list) dict"
  lt_process_events :: "(gpu_key, obj list) dict"
  lt_open_incidents :: "open_incident list"

text \<open>The store the service starts with. \<open>enabled\<close> and \<open>records_state\<close> say what the history backend
  offers, \<open>statuses\<close> what the two adapters report.\<close>

definition new_state_store ::
  "(pyval \<Rightarrow> string) \<Rightarrow> moment \<Rightarrow> string \<Rightarrow> bool \<Rightarrow> bool \<Rightarrow> pyval \<times> pyval \<Rightarrow> monitor_config \<Rightarrow> loaded_telemetry \<Rightarrow>
   store_error + state_store" where
  "new_state_store render now app_version enabled records_state statuses config restored =
    (let policy = new_policy (mc_thresholds config) (mc_expected_gpu_counts config) (Some (mc_incidents config))
           (mc_host_incident_overrides config) (mc_group_incident_overrides config) (mc_host_groups config);
         points = mc_history_points config; event_points = mc_incident_history_points config;
         t = new_tracker (recovery_cycles policy) event_points (lt_incident_events restored)
           (lt_open_incidents restored);
         actions = keyed_actions (mc_incident_actions config)
     in case restored_gpu_store render points event_points (lt_gpu_history restored) (lt_process_events restored) of
          Inl e \<Rightarrow> Inl (Conversion_Error e)
        | Inr g \<Rightarrow>
           (case create_incident_correlator (mc_topology config) of
              None \<Rightarrow> Inl No_Return
            | Some correlator \<Rightarrow>
               (let s = \<lparr>ss_settings =
                     \<lparr>st_thresholds = mc_thresholds config, st_history_points = points,
                      st_process_event_points = event_points,
                      st_collection_stale_cycles = int (mc_collection_stale_cycles config),
                      st_persistence_enabled = enabled, st_records_incident_state = records_state,
                      st_notification_event_capacity = max 1024 (event_points * 4),
                      st_started_at = iso_z now, st_app_version = app_version\<rparr>,
                     ss_servers = [], ss_host_incarnations = [], ss_next_host_incarnation = 1,
                     ss_history = [], ss_gpu = g, ss_inventory_initialized = False,
                     ss_restored_history = lt_history restored, ss_version = 0, ss_collector_error = None,
                     ss_transport_retries_total = 0,
                     ss_poll_interval_seconds = mc_poll_interval_seconds config,
                     ss_collection_stale_after_seconds =
                       mc_poll_interval_seconds config * of_nat (mc_collection_stale_cycles config),
                     ss_incident_policy = policy, ss_incidents = t,
                     ss_maintenance_windows = dict_of (mc_maintenance_windows config),
                     ss_incident_actions = actions,
                     ss_startup_action_candidates =
                       map fst (filter (\<lambda>ka. ia_incident_started_at (snd ka) \<noteq> None) actions),
                     ss_startup_action_bindings = [],
                     ss_host_groups = dict_of (mc_host_groups config),
                     ss_display_names = dict_of (host_display_names config),
                     ss_host_incident_overrides = mc_host_incident_overrides config,
                     ss_group_incident_overrides = mc_group_incident_overrides config,
                     ss_topology = mc_topology config, ss_adapter_statuses = statuses,
                     ss_notification_event_incarnations = [], ss_notification_event_order = [],
                     ss_active_maintenance_signature = [], ss_active_action_signature = [],
                     ss_incident_revision = el_version (tr_log t), ss_tracker_version = el_version (tr_log t),
                     ss_last_poll_completed_at = None, ss_last_poll_duration_ms = None,
                     ss_snapshot_cache = None\<rparr>
                in Inr (s\<lparr>ss_active_maintenance_signature := maintenance_signature now s,
                          ss_active_action_signature := incident_action_signature now s\<rparr>))))"

end
