(* ===== verification/Store_Frames.thy ===== *)
theory Store_Frames
  imports Store_Views
begin

text \<open>
  What the bookkeeping of the state store leaves alone: the simplification rules that let the proofs
  about its operations look only at the fields an operation writes.
\<close>

section \<open>What the bookkeeping leaves alone\<close>

lemma refresh_maintenance_frame [simp]:
  "ss_settings (refresh_maintenance_expiry now s) = ss_settings s"
  "ss_servers (refresh_maintenance_expiry now s) = ss_servers s"
  "ss_host_incarnations (refresh_maintenance_expiry now s) = ss_host_incarnations s"
  "ss_next_host_incarnation (refresh_maintenance_expiry now s) = ss_next_host_incarnation s"
  "ss_history (refresh_maintenance_expiry now s) = ss_history s"
  "ss_gpu (refresh_maintenance_expiry now s) = ss_gpu s"
  "ss_inventory_initialized (refresh_maintenance_expiry now s) = ss_inventory_initialized s"
  "ss_incident_policy (refresh_maintenance_expiry now s) = ss_incident_policy s"
  "ss_incidents (refresh_maintenance_expiry now s) = ss_incidents s"
  "ss_maintenance_windows (refresh_maintenance_expiry now s) = ss_maintenance_windows s"
  "ss_incident_actions (refresh_maintenance_expiry now s) = ss_incident_actions s"
  "ss_startup_action_bindings (refresh_maintenance_expiry now s) = ss_startup_action_bindings s"
  "ss_startup_action_candidates (refresh_maintenance_expiry now s) = ss_startup_action_candidates s"
  "ss_notification_event_incarnations (refresh_maintenance_expiry now s) = ss_notification_event_incarnations s"
  "ss_notification_event_order (refresh_maintenance_expiry now s) = ss_notification_event_order s"
  "ss_topology (refresh_maintenance_expiry now s) = ss_topology s"
  "ss_snapshot_cache (refresh_maintenance_expiry now s) = ss_snapshot_cache s"
  "ss_adapter_statuses (refresh_maintenance_expiry now s) = ss_adapter_statuses s"
  by (simp_all add: refresh_maintenance_expiry_def)

lemma publish_frame [simp]:
  "ss_settings (publish now s) = ss_settings s"
  "ss_servers (publish now s) = ss_servers s"
  "ss_host_incarnations (publish now s) = ss_host_incarnations s"
  "ss_next_host_incarnation (publish now s) = ss_next_host_incarnation s"
  "ss_history (publish now s) = ss_history s"
  "ss_gpu (publish now s) = ss_gpu s"
  "ss_inventory_initialized (publish now s) = ss_inventory_initialized s"
  "ss_incident_policy (publish now s) = ss_incident_policy s"
  "ss_incidents (publish now s) = ss_incidents s"
  "ss_maintenance_windows (publish now s) = ss_maintenance_windows s"
  "ss_incident_actions (publish now s) = ss_incident_actions s"
  "ss_startup_action_bindings (publish now s) = ss_startup_action_bindings s"
  "ss_startup_action_candidates (publish now s) = ss_startup_action_candidates s"
  "ss_notification_event_incarnations (publish now s) = ss_notification_event_incarnations s"
  "ss_notification_event_order (publish now s) = ss_notification_event_order s"
  "ss_topology (publish now s) = ss_topology s"
  "ss_snapshot_cache (publish now s) = ss_snapshot_cache s"
  "ss_adapter_statuses (publish now s) = ss_adapter_statuses s"
  by (simp_all add: publish_def Let_def)

lemma refresh_actions_frame [simp]:
  "ss_settings (refresh_incident_action_expiry now s) = ss_settings s"
  "ss_servers (refresh_incident_action_expiry now s) = ss_servers s"
  "ss_host_incarnations (refresh_incident_action_expiry now s) = ss_host_incarnations s"
  "ss_next_host_incarnation (refresh_incident_action_expiry now s) = ss_next_host_incarnation s"
  "ss_history (refresh_incident_action_expiry now s) = ss_history s"
  "ss_gpu (refresh_incident_action_expiry now s) = ss_gpu s"
  "ss_inventory_initialized (refresh_incident_action_expiry now s) = ss_inventory_initialized s"
  "ss_incident_policy (refresh_incident_action_expiry now s) = ss_incident_policy s"
  "ss_incidents (refresh_incident_action_expiry now s) = ss_incidents s"
  "ss_maintenance_windows (refresh_incident_action_expiry now s) = ss_maintenance_windows s"
  "ss_incident_actions (refresh_incident_action_expiry now s) = ss_incident_actions s"
  "ss_startup_action_bindings (refresh_incident_action_expiry now s) = ss_startup_action_bindings s"
  "ss_startup_action_candidates (refresh_incident_action_expiry now s) = ss_startup_action_candidates s"
  "ss_notification_event_incarnations (refresh_incident_action_expiry now s) = ss_notification_event_incarnations s"
  "ss_notification_event_order (refresh_incident_action_expiry now s) = ss_notification_event_order s"
  "ss_topology (refresh_incident_action_expiry now s) = ss_topology s"
  "ss_snapshot_cache (refresh_incident_action_expiry now s) = ss_snapshot_cache s"
  "ss_adapter_statuses (refresh_incident_action_expiry now s) = ss_adapter_statuses s"
  by (simp_all add: refresh_incident_action_expiry_def)

lemma sync_tracker_frame [simp]:
  "ss_settings (sync_tracker_revision s) = ss_settings s"
  "ss_servers (sync_tracker_revision s) = ss_servers s"
  "ss_host_incarnations (sync_tracker_revision s) = ss_host_incarnations s"
  "ss_next_host_incarnation (sync_tracker_revision s) = ss_next_host_incarnation s"
  "ss_history (sync_tracker_revision s) = ss_history s"
  "ss_gpu (sync_tracker_revision s) = ss_gpu s"
  "ss_inventory_initialized (sync_tracker_revision s) = ss_inventory_initialized s"
  "ss_incident_policy (sync_tracker_revision s) = ss_incident_policy s"
  "ss_incidents (sync_tracker_revision s) = ss_incidents s"
  "ss_notification_event_incarnations (sync_tracker_revision s) = ss_notification_event_incarnations s"
  "ss_notification_event_order (sync_tracker_revision s) = ss_notification_event_order s"
  "ss_version (sync_tracker_revision s) = ss_version s"
  "ss_snapshot_cache (sync_tracker_revision s) = ss_snapshot_cache s"
  by (simp_all add: sync_tracker_revision_def Let_def)

lemma refresh_binding_frame [simp]:
  "ss_settings (refresh_binding r acts k s) = ss_settings s"
  "ss_servers (refresh_binding r acts k s) = ss_servers s"
  "ss_host_incarnations (refresh_binding r acts k s) = ss_host_incarnations s"
  "ss_next_host_incarnation (refresh_binding r acts k s) = ss_next_host_incarnation s"
  "ss_history (refresh_binding r acts k s) = ss_history s"
  "ss_gpu (refresh_binding r acts k s) = ss_gpu s"
  "ss_inventory_initialized (refresh_binding r acts k s) = ss_inventory_initialized s"
  "ss_incident_policy (refresh_binding r acts k s) = ss_incident_policy s"
  "ss_incidents (refresh_binding r acts k s) = ss_incidents s"
  "ss_notification_event_incarnations (refresh_binding r acts k s) = ss_notification_event_incarnations s"
  "ss_notification_event_order (refresh_binding r acts k s) = ss_notification_event_order s"
  "ss_version (refresh_binding r acts k s) = ss_version s"
  "ss_incident_revision (refresh_binding r acts k s) = ss_incident_revision s"
  "ss_tracker_version (refresh_binding r acts k s) = ss_tracker_version s"
  "ss_snapshot_cache (refresh_binding r acts k s) = ss_snapshot_cache s"
  by (simp_all add: refresh_binding_def Let_def)

lemma fold_keeps: "(\<And>x s. f (g x s) = f s) \<Longrightarrow> f (fold g xs s) = f s"
  by (induction xs arbitrary: s) simp_all

lemma refresh_bindings_frame [simp]:
  "ss_settings (refresh_startup_action_bindings now r s) = ss_settings s"
  "ss_servers (refresh_startup_action_bindings now r s) = ss_servers s"
  "ss_host_incarnations (refresh_startup_action_bindings now r s) = ss_host_incarnations s"
  "ss_next_host_incarnation (refresh_startup_action_bindings now r s) = ss_next_host_incarnation s"
  "ss_history (refresh_startup_action_bindings now r s) = ss_history s"
  "ss_gpu (refresh_startup_action_bindings now r s) = ss_gpu s"
  "ss_inventory_initialized (refresh_startup_action_bindings now r s) = ss_inventory_initialized s"
  "ss_incident_policy (refresh_startup_action_bindings now r s) = ss_incident_policy s"
  "ss_incidents (refresh_startup_action_bindings now r s) = ss_incidents s"
  "ss_notification_event_incarnations (refresh_startup_action_bindings now r s) = ss_notification_event_incarnations s"
  "ss_notification_event_order (refresh_startup_action_bindings now r s) = ss_notification_event_order s"
  "ss_version (refresh_startup_action_bindings now r s) = ss_version s"
  "ss_incident_revision (refresh_startup_action_bindings now r s) = ss_incident_revision s"
  "ss_tracker_version (refresh_startup_action_bindings now r s) = ss_tracker_version s"
  "ss_snapshot_cache (refresh_startup_action_bindings now r s) = ss_snapshot_cache s"
  by (simp_all add: refresh_startup_action_bindings_def fold_keeps [of ss_settings] fold_keeps [of ss_servers]
    fold_keeps [of ss_host_incarnations] fold_keeps [of ss_next_host_incarnation] fold_keeps [of ss_history]
    fold_keeps [of ss_gpu] fold_keeps [of ss_inventory_initialized] fold_keeps [of ss_incident_policy]
    fold_keeps [of ss_incidents] fold_keeps [of ss_notification_event_incarnations]
    fold_keeps [of ss_notification_event_order] fold_keeps [of ss_version] fold_keeps [of ss_incident_revision]
    fold_keeps [of ss_tracker_version] fold_keeps [of ss_snapshot_cache])

end
