(* ===== verification/Gpu_Runs.thy ===== *)
theory Gpu_Runs
  imports Gpu_Tracking
begin

text \<open>
  What holds of the per-GPU telemetry after any sequence of samples, invalidations and inventory
  changes: the occupancy the transition log leaves open is that of processes in the live table, and
  what is kept of a host stays within the bound on device identities.
\<close>

section \<open>Open occupancy of a ring\<close>

definition opens :: "gpu_process_transition list \<Rightarrow> process_key set" where
  "opens es = fst ` set (open_transitions es)"

lemma opens_iff: "p \<in> opens es \<longleftrightarrow> dget (open_transitions es) p \<noteq> None"
  by (simp add: opens_def dget_None_iff)

lemma opens_Nil [simp]: "opens [] = {}"
  by (simp add: opens_def open_transitions_def)

lemma open_step_mono: "fst ` set d \<subseteq> fst ` set d' \<Longrightarrow> fst ` set (open_step d e) \<subseteq> fst ` set (open_step d' e)"
  by (auto simp: open_step_def)

lemma open_foldl_mono:
  "fst ` set d \<subseteq> fst ` set d' \<Longrightarrow> fst ` set (foldl open_step d es) \<subseteq> fst ` set (foldl open_step d' es)"
  by (induction es arbitrary: d d') (simp_all add: open_step_mono)

lemma opens_append: "opens (xs @ ys) = fst ` set (foldl open_step (open_transitions xs) ys)"
  by (simp add: opens_def open_transitions_def)

lemma opens_append_mono: "opens xs \<subseteq> opens xs' \<Longrightarrow> opens (xs @ ys) \<subseteq> opens (xs' @ ys)"
  unfolding opens_append by (rule open_foldl_mono) (simp add: opens_def)

text \<open>A ring that forgets its oldest records opens nothing by it.\<close>

lemma opens_drop: "opens (drop n es) \<subseteq> opens es"
proof -
  have "opens ([] @ drop n es) \<subseteq> opens (take n es @ drop n es)"
    by (rule opens_append_mono) simp
  then show ?thesis by simp
qed

lemma opens_extend: "opens (deque_extend n xs ys) \<subseteq> opens (xs @ ys)"
proof (induction ys rule: rev_induct)
  case Nil
  then show ?case by (simp add: deque_extend_def)
next
  case (snoc y ys)
  have "opens (deque_extend n xs (ys @ [y])) \<subseteq> opens (deque_extend n xs ys @ [y])"
    by (simp add: deque_extend_def deque_append_def deque_of_def opens_drop del: drop_append)
  also have "\<dots> \<subseteq> opens ((xs @ ys) @ [y])" by (rule opens_append_mono [OF snoc.IH])
  finally show ?case by simp
qed

lemma opens_append_iff: "p \<in> opens (es @ ts) \<longleftrightarrow> dget (foldl open_step (open_transitions es) ts) p \<noteq> None"
  by (simp only: opens_append dget_None_iff not_not)

lemma opens_stops:
  assumes "\<forall>e \<in> set ts. gt_event e = ''stopped''"
  shows "opens (es @ ts) = opens es - transition_key ` set ts"
  by (rule set_eqI, unfold opens_append_iff, unfold open_append_stops [OF assms] Diff_iff opens_iff) simp

lemma opens_starts:
  assumes "\<forall>e \<in> set ts. gt_event e = ''started''"
  shows "opens (es @ ts) = opens es \<union> transition_key ` set ts"
  by (rule set_eqI, unfold opens_append_iff, unfold open_append_starts [OF assms] Un_iff opens_iff) blast

lemma opens_any: "opens (es @ ts) \<subseteq> opens es \<union> transition_key ` set ts"
proof
  fix p assume p: "p \<in> opens (es @ ts)"
  show "p \<in> opens es \<union> transition_key ` set ts"
  proof (cases "p \<in> transition_key ` set ts")
    case False
    from p show ?thesis unfolding opens_append_iff open_untouched [OF False] by (simp add: opens_iff)
  qed simp
qed

section \<open>Tables\<close>

text \<open>A process table is keyed by the PID and the name of its processes.\<close>

definition keyed :: "(process_key, gpu_process) dict \<Rightarrow> bool" where
  "keyed table \<longleftrightarrow> wf_dict table \<and> (\<forall>(k, p) \<in> set table. k = (gp_pid p, gp_name p))"

lemma keyed_table_Nil [simp]: "keyed []"
  by (simp add: keyed_def)

lemma keyed_dget: "keyed table \<Longrightarrow> dget table k = Some p \<Longrightarrow> (gp_pid p, gp_name p) = k"
  using dget_mem by (fastforce simp: keyed_def)

lemma keyed_table_dset: "keyed table \<Longrightarrow> k = (gp_pid p, gp_name p) \<Longrightarrow> keyed (dset table k p)"
  using set_dset [of k p table] by (auto simp: keyed_def)

lemma keyed_drestrict [intro]: "keyed table \<Longrightarrow> keyed (drestrict P table)"
  using set_drestrict [of P table] by (auto simp: keyed_def)

lemma sorted_items_set [simp]: "set (sorted_items d) = set d"
  by (simp add: sorted_items_def)

lemma stops_Nil [simp]: "stops at_time g i v table = [] \<longleftrightarrow> table = []"
proof -
  have "length (stops at_time g i v table) = length table" by (simp add: stops_def sorted_items_def)
  then show ?thesis by (metis length_0_conv)
qed

lemma keyed_image: "keyed table \<Longrightarrow> (\<lambda>kp. (gp_pid (snd kp), gp_name (snd kp))) ` set table = fst ` set table"
  by (rule image_cong) (auto simp: keyed_def)

lemma stops_facts:
  "\<forall>e \<in> set (stops at_time g i v table). gt_event e = ''stopped''"
  "keyed table \<Longrightarrow> transition_key ` set (stops at_time g i v table) = fst ` set table"
  using keyed_image [of table] by (auto simp: stops_def image_image)

lemma starts_facts:
  "\<forall>e \<in> set (starts at_time g i v table). gt_event e = ''started''"
  "keyed table \<Longrightarrow> transition_key ` set (starts at_time g i v table) = fst ` set table"
  using keyed_image [of table] by (auto simp: starts_def image_image)

lemma stamp_process_facts:
  assumes "keyed previous" "keyed (fst acc)" "set (snd acc) \<subseteq> fst ` set (fst acc) \<inter> fst ` set previous"
  shows "keyed (fst (stamp_process observed_at previous p acc))
    \<and> set (snd (stamp_process observed_at previous p acc))
      \<subseteq> fst ` set (fst (stamp_process observed_at previous p acc)) \<inter> fst ` set previous"
  using assms by (auto simp: stamp_process_def Let_def split: prod.split option.split intro!: keyed_table_dset
      dest: dget_Some_keys)

lemma stamp_processes_facts:
  assumes "keyed previous" "stamp_processes observed_at previous ps = (current, replaced)"
  shows "keyed current \<and> set replaced \<subseteq> fst ` set current \<inter> fst ` set previous"
proof -
  have "keyed (fst acc) \<and> set (snd acc) \<subseteq> fst ` set (fst acc) \<inter> fst ` set previous \<Longrightarrow>
      keyed (fst (fold (stamp_process observed_at previous) ps acc))
      \<and> set (snd (fold (stamp_process observed_at previous) ps acc))
        \<subseteq> fst ` set (fst (fold (stamp_process observed_at previous) ps acc)) \<inter> fst ` set previous" for acc
  proof (induction ps arbitrary: acc)
    case (Cons p ps)
    then show ?case using stamp_process_facts [OF assms(1), of acc observed_at p] by simp
  qed simp
  from this [of "([], [])"] show ?thesis using assms(2) by (simp add: stamp_processes_def)
qed

lemma opens_table:
  assumes "keyed previous" "keyed current" "set replaced \<subseteq> fst ` set current \<inter> fst ` set previous"
    and "opens es \<subseteq> fst ` set previous"
  shows "opens (es @ table_transitions observed_at g i previous current replaced) \<subseteq> fst ` set current"
proof
  fix p
  let ?A = "starts observed_at g i True (drestrict (\<lambda>k. k \<notin> fst ` set previous) current)"
  let ?B = "stops observed_at g i True (drestrict (\<lambda>k. k \<notin> fst ` set current) previous)"
  let ?C = "replace_transitions observed_at g i previous current replaced"
  assume p: "p \<in> opens (es @ table_transitions observed_at g i previous current replaced)"
  have C: "transition_key ` set ?C \<subseteq> set replaced"
  proof -
    have "(gp_pid (the (dget previous k)), gp_name (the (dget previous k))) = k
        \<and> (gp_pid (the (dget current k)), gp_name (the (dget current k))) = k" if "k \<in> set replaced" for k
    proof -
      have "k \<in> fst ` set current" "k \<in> fst ` set previous" using that assms(3) by auto
      then obtain p q where "dget previous k = Some p" "dget current k = Some q"
        using keys_obtain by metis
      then show ?thesis using keyed_dget assms(1,2) by (simp del: prod.inject)
    qed
    then show ?thesis unfolding replace_transitions_def by auto
  qed
  have B: "transition_key ` set ?B = fst ` set previous - fst ` set current"
    unfolding stops_facts(2) [OF keyed_drestrict [OF assms(1)]] keys_drestrict by blast
  have A: "transition_key ` set ?A = fst ` set current - fst ` set previous"
    unfolding starts_facts(2) [OF keyed_drestrict [OF assms(2)]] keys_drestrict by blast
  have "p \<in> opens (es @ ?A @ ?B) \<union> transition_key ` set ?C"
    using p opens_any [of "es @ ?A @ ?B" ?C] by (auto simp: table_transitions_def)
  moreover have "opens ((es @ ?A) @ ?B) = opens es \<union> transition_key ` set ?A - transition_key ` set ?B"
    by (simp only: opens_stops [OF stops_facts(1)] opens_starts [OF starts_facts(1)])
  ultimately have "p \<in> opens es \<union> transition_key ` set ?A - transition_key ` set ?B \<or> p \<in> set replaced"
    using C by (simp only: append_assoc) blast
  then show "p \<in> fst ` set current" unfolding A B using assms(3,4) by blast
qed

text \<open>The reconciliation with a restored ring leaves open what the live table holds.\<close>

lemma reconcile_opens:
  assumes "keyed current"
    and run: "reconcile_restored_processes es g i current observed_at previous_at = (ts, current')"
  shows "opens (es @ ts) = fst ` set current'" and "keyed current'"
proof -
  have wf: "wf_dict current" and kp: "\<forall>(k, p) \<in> set current. k = (gp_pid p, gp_name p)"
    using assms(1) by (simp_all add: keyed_def)
  obtain closes begun where f: "ts = closes @ begun"
    "\<forall>e \<in> set closes. gt_event e = ''stopped'' \<and> gt_first_seen_at e \<noteq> None"
    "\<forall>e \<in> set begun. gt_event e = ''started''"
    "\<And>k. k \<in> transition_key ` set closes \<longleftrightarrow>
      (\<exists>e. dget (open_transitions es) k = Some e \<and> \<not> continues current k e)"
    "\<And>k. k \<in> transition_key ` set begun \<longleftrightarrow>
      dget current k \<noteq> None \<and> \<not> (\<exists>e. dget (open_transitions es) k = Some e \<and> continues current k e)"
    "\<And>k. dget current' k = map_option (inherit (dget (open_transitions es) k)) (dget current k)"
    "fst ` set current' = fst ` set current"
    by (rule reconcile_facts [OF wf kp run]) blast
  have "opens ((es @ closes) @ begun) = opens es - transition_key ` set closes \<union> transition_key ` set begun"
    using opens_starts [OF f(3), of "es @ closes"] opens_stops [of closes es] f(2) by simp
  moreover have "opens es - transition_key ` set closes \<union> transition_key ` set begun = fst ` set current"
  proof (rule set_eqI)
    fix p
    have cont: "continues current p e \<Longrightarrow> dget current p \<noteq> None" for e
      by (simp add: continues_def split: option.splits)
    have "p \<in> fst ` set current \<longleftrightarrow> dget current p \<noteq> None" by (simp only: dget_None_iff not_not)
    then show "p \<in> opens es - transition_key ` set closes \<union> transition_key ` set begun
        \<longleftrightarrow> p \<in> fst ` set current"
      unfolding Un_iff Diff_iff f(4,5) opens_iff
      using cont by (cases "dget (open_transitions es) p") auto
  qed
  ultimately show "opens (es @ ts) = fst ` set current'"
    unfolding f(1,7) append_assoc by (rule trans)
  have "wf_dict current'"
  proof -
    let ?es = "sort_key fst (open_transitions es)"
    obtain c cl where rec: "reconcile_open (text_or previous_at observed_at) ?es (current, []) = (c, cl)"
      by fastforce
    then have "current' = c" using run by (auto simp: reconcile_restored_processes_def Let_def)
    then show ?thesis
      using reconcile_open_correct [OF sorted_dict(2) [OF wf_open] rec] wf by simp
  qed
  moreover have "k = (gp_pid p, gp_name p)" if "(k, p) \<in> set current'" for k p
  proof -
    have "dget current' k = Some p" using wf_dget_mem [OF \<open>wf_dict current'\<close> that] .
    then obtain q where q: "dget current k = Some q" "p = inherit (dget (open_transitions es) k) q"
      using f(6) [of k] by (cases "dget current k") auto
    then show ?thesis using keyed_dget [OF assms(1) q(1)] by (auto simp: inherit_def split: option.split)
  qed
  ultimately show "keyed current'" by (auto simp: keyed_def)
qed

section \<open>One device\<close>

text \<open>What is kept of a device: whether its restored ring still waits for a live sample, whether its
  table has been read since the last gap, the ring, the table and the time of the last sample.\<close>

definition cell_ok ::
  "bool \<Rightarrow> bool \<Rightarrow> gpu_process_transition list \<Rightarrow> (process_key, gpu_process) dict \<Rightarrow> string option \<Rightarrow> bool" where
  "cell_ok pending live es table observed \<longleftrightarrow>
    keyed table \<and> (pending \<longrightarrow> \<not> live) \<and> (table \<noteq> [] \<longrightarrow> live \<and> observed \<noteq> None)
    \<and> (\<not> pending \<longrightarrow> opens es \<subseteq> fst ` set table)"

lemma cell_observed: "cell_ok pending live es table observed \<Longrightarrow> cell_ok pending live es table (Some t)"
  by (auto simp: cell_ok_def)

lemma cell_empty [simp]: "cell_ok False live [] [] observed"
  by (simp add: cell_ok_def)

lemma cell_close:
  assumes "cell_ok pending live es table observed"
  shows "cell_ok pending False
    (case observed of None \<Rightarrow> es
     | Some t \<Rightarrow> if table = [] then es
         else deque_extend n es (map (\<lambda>e. e\<lparr>gt_visible := False\<rparr>) (stops t g i True table))) [] None"
proof -
  let ?ts = "\<lambda>t. map (\<lambda>e. e\<lparr>gt_visible := False\<rparr>) (stops t g i True table)"
  have key: "transition_key ` set (?ts t) = transition_key ` set (stops t g i True table)" for t
    by (simp add: image_image transition_key_def)
  have ev: "\<forall>e \<in> set (?ts t). gt_event e = ''stopped''" for t
    using stops_facts(1) by auto
  have "opens (es @ ?ts t) = {}" if "opens es \<subseteq> fst ` set table" for t
    unfolding opens_stops [OF ev] key using assms that stops_facts(2) by (auto simp: cell_ok_def)
  then have "opens (deque_extend n es (?ts t)) = {}" if "opens es \<subseteq> fst ` set table" for t
    using that opens_extend [of n es "?ts t"] by blast
  then show ?thesis using assms by (auto simp: cell_ok_def split: option.split)
qed

lemma cell_restored:
  assumes "cell_ok pending live es table observed" "pending"
    and "ts = map (\<lambda>ke. close_restored_start (snd ke) close_at (Some False)) (sorted_items (open_transitions es))"
  shows "cell_ok False live (deque_extend n es ts) table observed"
proof -
  have "transition_key ` set ts = opens es"
  proof -
    have "transition_key (snd ke) = fst ke" if "ke \<in> set (open_transitions es)" for ke
    proof -
      have "(fst ke, snd ke) \<in> set (open_transitions es)" using that by simp
      from open_transitions_key [OF wf_dget_mem [OF wf_open this]] show ?thesis by blast
    qed
    then show ?thesis by (simp add: assms(3) opens_def image_image)
  qed
  moreover have ev: "\<forall>e \<in> set ts. gt_event e = ''stopped''" by (auto simp: assms(3))
  ultimately have "opens (es @ ts) = {}" by (simp only: opens_stops [OF ev]) simp
  then have "opens (deque_extend n es ts) = {}" using opens_extend [of n es ts] by blast
  then show ?thesis using assms(1,2) by (auto simp: cell_ok_def)
qed

lemma cell_begun:
  assumes "cell_ok False False es table observed" "keyed current"
  shows "cell_ok False True (deque_extend n es (starts t g i False current)) current (Some u)"
    and "starts t g i False current = [] \<Longrightarrow> cell_ok False True es current (Some u)"
proof -
  have "opens es = {}" using assms(1) by (auto simp: cell_ok_def)
  then have "opens (es @ starts t g i False current) = fst ` set current"
    by (simp only: opens_starts [OF starts_facts(1)] starts_facts(2) [OF assms(2)]) simp
  then show "cell_ok False True (deque_extend n es (starts t g i False current)) current (Some u)"
    using opens_extend [of n es "starts t g i False current"] assms(2) by (auto simp: cell_ok_def)
  show "starts t g i False current = [] \<Longrightarrow> cell_ok False True es current (Some u)"
    using \<open>opens es = {}\<close> assms(2) by (simp add: cell_ok_def)
qed

lemma cell_reconciled:
  assumes "keyed current"
    and "reconcile_restored_processes es g i current observed_at previous_at = (ts, current')"
  shows "cell_ok False True (deque_extend n es ts) current' (Some u)"
    and "ts = [] \<Longrightarrow> cell_ok False True es current' (Some u)"
  using reconcile_opens [OF assms] opens_extend [of n es ts] by (auto simp: cell_ok_def)

lemma cell_sampled:
  assumes "cell_ok pending True es previous observed"
    and "stamp_processes observed_at previous ps = (current, replaced)"
  shows "cell_ok pending True
      (deque_extend n es (table_transitions observed_at g i previous current replaced)) current (Some u)"
    and "table_transitions observed_at g i previous current replaced = [] \<Longrightarrow>
      cell_ok pending True es current (Some u)"
    and "fst ` set current = fst ` set previous \<Longrightarrow> cell_ok pending True es current (Some u)"
proof -
  have k: "keyed previous" "\<not> pending" "opens es \<subseteq> fst ` set previous"
    using assms(1) by (auto simp: cell_ok_def)
  note st = stamp_processes_facts [OF k(1) assms(2)]
  have "opens (es @ table_transitions observed_at g i previous current replaced) \<subseteq> fst ` set current"
    using opens_table [OF k(1) _ _ k(3)] st by blast
  then show "cell_ok pending True
      (deque_extend n es (table_transitions observed_at g i previous current replaced)) current (Some u)"
    and "table_transitions observed_at g i previous current replaced = [] \<Longrightarrow>
      cell_ok pending True es current (Some u)"
    using opens_extend [of n es "table_transitions observed_at g i previous current replaced"] st k(2)
    by (auto simp: cell_ok_def)
  show "fst ` set current = fst ` set previous \<Longrightarrow> cell_ok pending True es current (Some u)"
    using st k by (simp add: cell_ok_def)
qed

lemma cell_emptied:
  assumes "cell_ok pending True es previous observed"
  shows "cell_ok pending True (deque_extend n es (stops t g i True previous)) [] (Some u)"
    and "stops t g i True previous = [] \<Longrightarrow> cell_ok pending True es [] (Some u)"
proof -
  have k: "keyed previous" "\<not> pending" "opens es \<subseteq> fst ` set previous"
    using assms by (auto simp: cell_ok_def)
  have "opens (es @ stops t g i True previous) = {}"
    using k(3) by (simp only: opens_stops [OF stops_facts(1)] stops_facts(2) [OF k(1)]) blast
  then show "cell_ok pending True (deque_extend n es (stops t g i True previous)) [] (Some u)"
    and "stops t g i True previous = [] \<Longrightarrow> cell_ok pending True es [] (Some u)"
    using opens_extend [of n es "stops t g i True previous"] k(2,3) by (auto simp: cell_ok_def)
qed

section \<open>The store\<close>

definition events_of :: "gpu_store \<Rightarrow> gpu_key \<Rightarrow> gpu_process_transition list" where
  "events_of s k = dget_or [] (gs_process_events s) k"

definition table_of :: "gpu_store \<Rightarrow> gpu_key \<Rightarrow> (process_key, gpu_process) dict" where
  "table_of s k = dget_or [] (gs_active s) k"

definition initialized_keys :: "gpu_store \<Rightarrow> gpu_key set" where
  "initialized_keys s = {(h, g). g \<in> set (dget_or [] (gs_initialized s) h)}"

definition known_keys :: "gpu_store \<Rightarrow> gpu_key set" where
  "known_keys s = {(h, g). g \<in> set (dget_or [] (gs_identities s) h)}"

definition cells_ok :: "gpu_key set \<Rightarrow> gpu_store \<Rightarrow> bool" where
  "cells_ok I s \<longleftrightarrow> (\<forall>k. cell_ok (k \<in> set (gs_pending s)) (k \<in> I) (events_of s k) (table_of s k)
      (dget (gs_last_observed s) k))"

text \<open>The devices anything is kept of.\<close>

definition held_keys :: "gpu_store \<Rightarrow> gpu_key set" where
  "held_keys s = fst ` set (gs_gpu_history s) \<union> fst ` set (gs_process_events s)
    \<union> fst ` set (gs_active s) \<union> fst ` set (gs_last_observed s)"

lemma store_sel [simp]:
  "events_of (s\<lparr>gs_gpu_history := x1\<rparr>) = events_of s" "table_of (s\<lparr>gs_gpu_history := x1\<rparr>) = table_of s"
  "events_of (s\<lparr>gs_active := x3\<rparr>) = events_of s" "table_of (s\<lparr>gs_process_events := x2\<rparr>) = table_of s"
  "events_of (s\<lparr>gs_last_observed := x4\<rparr>) = events_of s" "table_of (s\<lparr>gs_last_observed := x4\<rparr>) = table_of s"
  "events_of (s\<lparr>gs_identities := x5\<rparr>) = events_of s" "table_of (s\<lparr>gs_identities := x5\<rparr>) = table_of s"
  "events_of (s\<lparr>gs_initialized := x5\<rparr>) = events_of s" "table_of (s\<lparr>gs_initialized := x5\<rparr>) = table_of s"
  "events_of (s\<lparr>gs_pending := x6\<rparr>) = events_of s" "table_of (s\<lparr>gs_pending := x6\<rparr>) = table_of s"
  by (simp_all add: fun_eq_iff events_of_def table_of_def)

lemma cells_sel [simp]:
  "cells_ok I (s\<lparr>gs_gpu_history := x1\<rparr>) = cells_ok I s" "cells_ok I (s\<lparr>gs_identities := x5\<rparr>) = cells_ok I s"
  "cells_ok I (s\<lparr>gs_initialized := x5\<rparr>) = cells_ok I s"
  by (simp_all add: cells_ok_def)

text \<open>A change to one device.\<close>

lemma cells_one:
  assumes "cells_ok I s"
    and "\<And>j. j \<noteq> k \<Longrightarrow> (j \<in> set (gs_pending s') \<longleftrightarrow> j \<in> set (gs_pending s)) \<and> events_of s' j = events_of s j
      \<and> table_of s' j = table_of s j \<and> dget (gs_last_observed s') j = dget (gs_last_observed s) j"
    and "cell_ok (k \<in> set (gs_pending s')) b (events_of s' k) (table_of s' k) (dget (gs_last_observed s') k)"
  shows "cells_ok (if b then insert k I else I - {k}) s'"
  unfolding cells_ok_def
proof
  fix j
  show "cell_ok (j \<in> set (gs_pending s')) (j \<in> (if b then insert k I else I - {k})) (events_of s' j)
      (table_of s' j) (dget (gs_last_observed s') j)"
    using assms(1) [unfolded cells_ok_def, rule_format, of j] assms(2) [of j] assms(3)
    by (cases "j = k"; cases b) simp_all
qed

lemma cells_okD: "cells_ok I s \<Longrightarrow> cell_ok (k \<in> set (gs_pending s)) (k \<in> I) (events_of s k) (table_of s k)
    (dget (gs_last_observed s) k)"
  unfolding cells_ok_def by (rule spec)

lemma append_some_sel [simp]:
  "events_of (append_some n key ts s) j
    = (if j = key \<and> ts \<noteq> [] then deque_extend n (events_of s j) ts else events_of s j)"
  "table_of (append_some n key ts s) = table_of s"
  "gs_pending (append_some n key ts s) = gs_pending s"
  "gs_last_observed (append_some n key ts s) = gs_last_observed s"
  "gs_initialized (append_some n key ts s) = gs_initialized s"
  "gs_identities (append_some n key ts s) = gs_identities s"
  "gs_gpu_history (append_some n key ts s) = gs_gpu_history s"
  "gs_active (append_some n key ts s) = gs_active s"
  by (auto simp: append_some_def append_events_def events_of_def table_of_def fun_eq_iff)

lemma append_some_keys:
  "fst ` set (gs_process_events (append_some n key ts s))
    = fst ` set (gs_process_events s) \<union> (if ts = [] then {} else {key})"
  by (simp add: append_some_def append_events_def)

lemma table_of_set [simp]:
  "table_of (s\<lparr>gs_active := dset (gs_active s) k v\<rparr>) j = (if j = k then v else table_of s j)"
  "table_of (s\<lparr>gs_active := dpop (gs_active s) k\<rparr>) j = (if j = k then [] else table_of s j)"
  by (simp_all add: table_of_def)

section \<open>Closing operations\<close>

lemma close_unobservable_facts:
  assumes "close_unobservable_inventory n key gi s = (shut, s')" and "cells_ok I s"
  shows "cells_ok (I - {key}) s'" and "gs_initialized s' = gs_initialized s"
    and "gs_identities s' = gs_identities s" and "gs_pending s' = gs_pending s"
    and "held_keys s' \<subseteq> held_keys s"
proof -
  define i where "i = (case gi of Some i \<Rightarrow> i
     | None \<Rightarrow> (case last_item (dget_or [] (gs_gpu_history s) key) of Some p \<Rightarrow> gh_index p | None \<Rightarrow> 0))"
  define ts where "ts = (case dget (gs_last_observed s) key of None \<Rightarrow> []
     | Some t \<Rightarrow> if table_of s key = [] then []
         else map (\<lambda>e. e\<lparr>gt_visible := False\<rparr>) (stops t (snd key) i True (table_of s key)))"
  have s': "s' = append_some n key ts (s\<lparr>gs_last_observed := dpop (gs_last_observed s) key,
      gs_active := dpop (gs_active s) key\<rparr>)"
    using assms(1) unfolding close_unobservable_inventory_def Let_def i_def [symmetric]
    by (auto simp: close_process_inventory_def Let_def ts_def table_of_def split: option.splits if_splits)
  have empty: "ts = [] \<longleftrightarrow> dget (gs_last_observed s) key = None \<or> table_of s key = []"
    by (auto simp: ts_def split: option.split)
  have cell: "cell_ok (key \<in> set (gs_pending s)) (key \<in> I) (events_of s key) (table_of s key)
      (dget (gs_last_observed s) key)" by (rule cells_okD [OF assms(2)])
  show "cells_ok (I - {key}) s'"
  proof -
    have "cells_ok (if False then insert key I else I - {key}) s'"
    proof (rule cells_one [OF assms(2)])
      show "cell_ok (key \<in> set (gs_pending s')) False (events_of s' key) (table_of s' key)
          (dget (gs_last_observed s') key)"
        using cell_close [OF cell, of n "snd key" i] by (auto simp: s' ts_def table_of_def split: option.splits)
    qed (simp add: s' table_of_def)
    then show ?thesis by simp
  qed
  show "gs_initialized s' = gs_initialized s" "gs_identities s' = gs_identities s"
    "gs_pending s' = gs_pending s" by (simp_all add: s')
  have "ts \<noteq> [] \<Longrightarrow> key \<in> held_keys s"
    using empty dget_Some_keys [of "gs_last_observed s" key] by (auto simp: held_keys_def)
  then show "held_keys s' \<subseteq> held_keys s"
    by (auto simp: s' held_keys_def append_some_keys split: if_splits)
qed

lemma close_all_facts:
  "close_all n host gs s = (shut, s') \<Longrightarrow> cells_ok I s \<Longrightarrow>
    cells_ok (I - Pair host ` set gs) s' \<and> gs_initialized s' = gs_initialized s
    \<and> gs_identities s' = gs_identities s \<and> gs_pending s' = gs_pending s \<and> held_keys s' \<subseteq> held_keys s"
proof (induction gs arbitrary: s s' shut I)
  case (Cons g gs)
  obtain c1 s1 where one: "close_unobservable_inventory n (host, g) None s = (c1, s1)" by fastforce
  obtain c2 s2 where rest: "close_all n host gs s1 = (c2, s2)" by fastforce
  note f = close_unobservable_facts [OF one Cons.prems(2)]
  have "s' = s2" using Cons.prems(1) one rest by simp
  moreover have "I - {(host, g)} - Pair host ` set gs = I - Pair host ` set (g # gs)" by auto
  ultimately show ?case using Cons.IH [OF rest f(1)] f(2-5) by simp blast
qed simp

lemma close_restored_one_facts:
  assumes "close_restored_one n key s = (shut, s')" and "cells_ok I s" "key \<in> set (gs_pending s)"
  shows "cells_ok I s'" and "gs_initialized s' = gs_initialized s"
    and "gs_identities s' = gs_identities s" and "gs_pending s' = removeAll key (gs_pending s)"
    and "held_keys s' \<subseteq> held_keys s"
proof -
  have cell: "cell_ok (key \<in> set (gs_pending s)) (key \<in> I) (events_of s key) (table_of s key)
      (dget (gs_last_observed s) key)" by (rule cells_okD [OF assms(2)])
  have out: "key \<notin> I" using cell assms(3) by (simp add: cell_ok_def)
  have upd: "gs_initialized s' = gs_initialized s \<and> gs_identities s' = gs_identities s
      \<and> gs_pending s' = removeAll key (gs_pending s) \<and> held_keys s' \<subseteq> held_keys s
      \<and> table_of s' = table_of s \<and> gs_last_observed s' = gs_last_observed s
      \<and> (\<forall>j. j \<noteq> key \<longrightarrow> events_of s' j = events_of s j)
      \<and> cell_ok False (key \<in> I) (events_of s' key) (table_of s key) (dget (gs_last_observed s) key)"
  proof (cases "events_of s key = []")
    case True
    then show ?thesis using assms(1) cell
      by (auto simp: close_restored_one_def Let_def events_of_def held_keys_def cell_ok_def)
  next
    case False
    then have "key \<in> fst ` set (gs_process_events s)"
      by (auto simp: events_of_def dget_or_def split: option.splits dest: dget_Some_keys)
    moreover define close_at where "close_at = (case last_item (dget_or [] (gs_gpu_history s) key) of
        Some p \<Rightarrow> gh_observed_at p | None \<Rightarrow> gt_observed_at (List.last (events_of s key)))"
    define ts where "ts = map (\<lambda>ke. close_restored_start (snd ke) close_at (Some False))
        (sorted_items (open_transitions (events_of s key)))"
    have "s' = s\<lparr>gs_pending := removeAll key (gs_pending s),
        gs_process_events := dset (gs_process_events s) key (deque_extend n (events_of s key) ts)\<rparr>"
      using assms(1) False unfolding close_restored_one_def Let_def ts_def close_at_def events_of_def
      by (cases "last_item (dget_or [] (gs_gpu_history s) key)") (auto simp: append_events_def)
    ultimately show ?thesis using cell_restored [OF cell assms(3) ts_def, of n]
      by (auto simp: held_keys_def events_of_def table_of_def fun_eq_iff)
  qed
  have "cells_ok (if False then insert key I else I - {key}) s'"
    by (rule cells_one [OF assms(2)]) (use upd out in auto)
  then show "cells_ok I s'" using out by simp
  show "gs_initialized s' = gs_initialized s" "gs_identities s' = gs_identities s"
    "gs_pending s' = removeAll key (gs_pending s)" "held_keys s' \<subseteq> held_keys s"
    using upd by blast+
qed

lemma close_restored_keys_facts:
  "close_restored_keys n ks s = (shut, s') \<Longrightarrow> cells_ok I s \<Longrightarrow> set ks \<subseteq> set (gs_pending s) \<Longrightarrow> distinct ks \<Longrightarrow>
    cells_ok I s' \<and> gs_initialized s' = gs_initialized s \<and> gs_identities s' = gs_identities s
    \<and> set (gs_pending s') = set (gs_pending s) - set ks \<and> held_keys s' \<subseteq> held_keys s"
proof (induction ks arbitrary: s s' shut)
  case (Cons k ks)
  obtain c1 s1 where one: "close_restored_one n k s = (c1, s1)" by fastforce
  obtain c2 s2 where rest: "close_restored_keys n ks s1 = (c2, s2)" by fastforce
  have k: "k \<in> set (gs_pending s)" using Cons.prems(3) by simp
  note f = close_restored_one_facts [OF one Cons.prems(2) k]
  have "s' = s2" using Cons.prems(1) one rest by simp
  moreover have "set ks \<subseteq> set (gs_pending s1)" "distinct ks"
    using Cons.prems(3,4) by (auto simp: f(4))
  ultimately show ?case using Cons.IH [OF rest f(1)] f(2-5) by simp blast
qed simp

lemma close_restored_facts:
  assumes "close_restored_inventory n host observed s = (shut, s')" "cells_ok I s"
  shows "cells_ok I s' \<and> gs_initialized s' = gs_initialized s \<and> gs_identities s' = gs_identities s
    \<and> set (gs_pending s') \<subseteq> set (gs_pending s) \<and> held_keys s' \<subseteq> held_keys s"
  using close_restored_keys_facts [OF assms(1) [unfolded close_restored_inventory_def] assms(2)] by auto

section \<open>The whole state\<close>

definition gpu_ok :: "gpu_store \<Rightarrow> bool" where
  "gpu_ok s \<longleftrightarrow> cells_ok (initialized_keys s) s \<and> held_keys s \<subseteq> known_keys s
    \<and> initialized_keys s \<subseteq> known_keys s
    \<and> (\<forall>h. distinct (dget_or [] (gs_identities s) h) \<and> length (dget_or [] (gs_identities s) h) \<le> max_gpu_identities)"

lemma initialized_keys_set:
  "initialized_keys (s\<lparr>gs_initialized := dset (gs_initialized s) h gs\<rparr>)
    = initialized_keys s - range (Pair h) \<union> Pair h ` set gs"
  "initialized_keys (s\<lparr>gs_initialized := dpop (gs_initialized s) h\<rparr>) = initialized_keys s - range (Pair h)"
  by (auto simp: initialized_keys_def split: if_splits)

lemma invalidate_ok:
  assumes "gpu_ok s" "invalidate_process_inventory n order host s = (shut, s')"
  shows "gpu_ok s'"
proof -
  let ?s = "s\<lparr>gs_initialized := dpop (gs_initialized s) host\<rparr>"
  obtain c1 s1 where all: "close_all n host (set_iter order (dget_or [] (gs_initialized s) host)) ?s = (c1, s1)"
    by fastforce
  obtain c2 s2 where res: "close_restored_inventory n host [] s1 = (c2, s2)" by fastforce
  have s': "s' = s2" using assms(2) all res by (simp add: invalidate_process_inventory_def Let_def)
  have ok: "cells_ok (initialized_keys s) ?s" using assms(1) by (simp add: gpu_ok_def)
  note f = close_all_facts [OF all ok]
  have I: "initialized_keys s - Pair host ` set (set_iter order (dget_or [] (gs_initialized s) host))
      = initialized_keys ?s" by (auto simp: initialized_keys_def split: if_splits)
  note g = close_restored_facts [OF res conjunct1 [OF f]]
  have init: "initialized_keys s2 = initialized_keys ?s"
    and known: "known_keys s2 = known_keys s" "gs_identities s2 = gs_identities s"
    using f g by (simp_all add: initialized_keys_def known_keys_def)
  have "held_keys ?s = held_keys s" by (simp add: held_keys_def)
  moreover have "initialized_keys ?s \<subseteq> initialized_keys s" by (simp add: initialized_keys_set)
  ultimately show ?thesis using f g assms(1) unfolding s' gpu_ok_def init known I by auto
qed

lemma forget_hosts_ok:
  assumes "gpu_ok s"
  shows "gpu_ok (forget_hosts stale s)"
proof -
  let ?s = "forget_hosts stale s"
  have look: "dget (drestrict (\<lambda>k. \<not> stale (fst k)) d) k = (if stale (fst k) then None else dget d k)"
    for d :: "(gpu_key, 'b) dict" and k by simp
  have sel: "events_of ?s k = (if stale (fst k) then [] else events_of s k)"
    "table_of ?s k = (if stale (fst k) then [] else table_of s k)"
    "dget (gs_last_observed ?s) k = (if stale (fst k) then None else dget (gs_last_observed s) k)"
    "k \<in> set (gs_pending ?s) \<longleftrightarrow> \<not> stale (fst k) \<and> k \<in> set (gs_pending s)" for k
    by (simp_all add: forget_hosts_def events_of_def table_of_def dget_or_def conj_commute)
  have keys: "initialized_keys ?s = {k \<in> initialized_keys s. \<not> stale (fst k)}"
    "known_keys ?s = {k \<in> known_keys s. \<not> stale (fst k)}"
    by (auto simp: forget_hosts_def initialized_keys_def known_keys_def dget_or_def split: if_splits)
  have held: "held_keys ?s = {k \<in> held_keys s. \<not> stale (fst k)}"
    unfolding held_keys_def forget_hosts_def by (simp add: keys_drestrict) blast
  have "cells_ok (initialized_keys ?s) ?s"
    unfolding cells_ok_def
  proof
    fix k
    show "cell_ok (k \<in> set (gs_pending ?s)) (k \<in> initialized_keys ?s) (events_of ?s k) (table_of ?s k)
        (dget (gs_last_observed ?s) k)"
      using assms cells_okD [of "initialized_keys s" s k] by (cases "stale (fst k)") (simp_all add: sel keys gpu_ok_def)
  qed
  moreover have "dget_or [] (gs_identities ?s) h = (if stale h then [] else dget_or [] (gs_identities s) h)" for h
    by (simp add: forget_hosts_def dget_or_def)
  moreover have "held_keys ?s \<subseteq> known_keys ?s" "initialized_keys ?s \<subseteq> known_keys ?s"
    using assms unfolding gpu_ok_def keys held by blast+
  ultimately show ?thesis using assms unfolding gpu_ok_def by simp
qed

end
