(* ===== verification/Gpu_Invariant.thy ===== *)
theory Gpu_Invariant
  imports Gpu_Runs
begin

text \<open>
  The samples of an online host keep the state of \<open>Gpu_Runs\<close>; the runs of the store from a
  restored state, and what holds after every one of them.
\<close>

definition gpu_mid :: "gpu_store \<Rightarrow> bool" where
  "gpu_mid s \<longleftrightarrow> cells_ok (initialized_keys s) s \<and> held_keys s \<subseteq> known_keys s
    \<and> initialized_keys s \<subseteq> known_keys s \<and> (\<forall>h. distinct (dget_or [] (gs_identities s) h))"

definition within_bound :: "gpu_store \<Rightarrow> string \<Rightarrow> bool" where
  "within_bound s h \<longleftrightarrow> length (dget_or [] (gs_identities s) h) \<le> max_gpu_identities"

lemma gpu_ok_mid: "gpu_ok s \<longleftrightarrow> gpu_mid s \<and> (\<forall>h. within_bound s h)"
  by (auto simp: gpu_ok_def gpu_mid_def within_bound_def)

lemma mid_update:
  assumes "gpu_mid s" "key \<in> known_keys s" "gs_identities s' = gs_identities s"
    and "\<And>j. j \<noteq> key \<Longrightarrow> (j \<in> set (gs_pending s') \<longleftrightarrow> j \<in> set (gs_pending s)) \<and> events_of s' j = events_of s j
      \<and> table_of s' j = table_of s j \<and> dget (gs_last_observed s') j = dget (gs_last_observed s) j"
    and "cell_ok (key \<in> set (gs_pending s')) b (events_of s' key) (table_of s' key) (dget (gs_last_observed s') key)"
    and "initialized_keys s' = (if b then insert key (initialized_keys s) else initialized_keys s - {key})"
    and "held_keys s' \<subseteq> insert key (held_keys s)"
  shows "gpu_mid s'"
proof -
  have "cells_ok (initialized_keys s) s" using assms(1) by (simp add: gpu_mid_def)
  from cells_one [OF this assms(4,5)] have "cells_ok (initialized_keys s') s'" by (simp add: assms(6))
  moreover have "known_keys s' = known_keys s" by (simp add: known_keys_def assms(3))
  moreover have "initialized_keys s' \<subseteq> insert key (initialized_keys s)" by (auto simp: assms(6))
  ultimately show ?thesis using assms(1,2,3,7) unfolding gpu_mid_def by auto
qed

lemma initialize_keys [simp]:
  "initialized_keys (initialize_gpu host g s) = insert (host, g) (initialized_keys s)"
  "initialized_keys (forget_initialized host g s) = initialized_keys s - {(host, g)}"
  by (auto simp: initialize_gpu_def forget_initialized_def initialized_keys_def split: if_splits)

lemma initialize_sel [simp]:
  "gs_pending (initialize_gpu host g s) = gs_pending s" "events_of (initialize_gpu host g s) = events_of s"
  "table_of (initialize_gpu host g s) = table_of s" "gs_last_observed (initialize_gpu host g s) = gs_last_observed s"
  "gs_identities (initialize_gpu host g s) = gs_identities s" "held_keys (initialize_gpu host g s) = held_keys s"
  "gs_process_events (initialize_gpu host g s) = gs_process_events s" "gs_active (initialize_gpu host g s) = gs_active s"
  "gs_gpu_history (initialize_gpu host g s) = gs_gpu_history s"
  "gs_pending (forget_initialized host g s) = gs_pending s" "events_of (forget_initialized host g s) = events_of s"
  "table_of (forget_initialized host g s) = table_of s"
  "gs_last_observed (forget_initialized host g s) = gs_last_observed s"
  "gs_identities (forget_initialized host g s) = gs_identities s"
  "held_keys (forget_initialized host g s) = held_keys s"
  by (simp_all add: initialize_gpu_def forget_initialized_def held_keys_def)

lemma append_some_more [simp]:
  "initialized_keys (append_some n key ts s) = initialized_keys s"
  "held_keys (append_some n key ts s) = (if ts = [] then held_keys s else insert key (held_keys s))"
  by (auto simp: initialized_keys_def append_some_keys held_keys_def append_some_def append_events_def)

lemma initialized_sel [simp]:
  "initialized_keys (s\<lparr>gs_pending := p\<rparr>) = initialized_keys s"
  "initialized_keys (s\<lparr>gs_active := a\<rparr>) = initialized_keys s"
  "initialized_keys (s\<lparr>gs_last_observed := l\<rparr>) = initialized_keys s"
  "initialized_keys (s\<lparr>gs_gpu_history := hh\<rparr>) = initialized_keys s"
  "initialized_keys (s\<lparr>gs_identities := ii\<rparr>) = initialized_keys s"
  by (simp_all add: initialized_keys_def)

lemma held_sel [simp]:
  "held_keys (s\<lparr>gs_pending := p\<rparr>) = held_keys s"
  "held_keys (s\<lparr>gs_active := dset (gs_active s) k a\<rparr>) = insert k (held_keys s)"
  "held_keys (s\<lparr>gs_last_observed := dset (gs_last_observed s) k l\<rparr>) = insert k (held_keys s)"
  "held_keys (s\<lparr>gs_gpu_history := dset (gs_gpu_history s) k hh\<rparr>) = insert k (held_keys s)"
  "held_keys (s\<lparr>gs_identities := ii\<rparr>) = held_keys s"
  by (auto simp: held_keys_def)

lemma held_pop: "held_keys (s\<lparr>gs_active := dpop (gs_active s) k\<rparr>) \<subseteq> held_keys s"
  by (auto simp: held_keys_def)

lemma initialize_pending [simp]: "initialize_gpu host g s\<lparr>gs_pending := gs_pending s\<rparr> = initialize_gpu host g s"
  by (cases s) (simp add: initialize_gpu_def)

text \<open>The first table of a device that is not initialized.\<close>

lemma first_table_ok:
  assumes "gpu_mid s" "(host, g) \<in> known_keys s" "(host, g) \<notin> initialized_keys s" "keyed current"
    and "dget (gs_last_observed s) (host, g) = Some u"
    and "first_table n host g i observed_at previous_at current s = (ts, s')"
  shows "gpu_mid s'" and "gs_identities s' = gs_identities s"
proof -
  let ?k = "(host, g)"
  have cell: "cell_ok (?k \<in> set (gs_pending s)) False (events_of s ?k) (table_of s ?k) (Some u)"
    using assms(1,3,5) cells_okD [of "initialized_keys s" s ?k] by (simp add: gpu_mid_def)
  then have none: "table_of s ?k = []" by (simp add: cell_ok_def)
  define made where "made = (if ?k \<in> set (gs_pending s)
      then reconcile_restored_processes (events_of s ?k) g i current observed_at previous_at
      else (starts observed_at g i False current, current))"
  have s': "s' = append_some n ?k (fst made)
      (let s1 = (initialize_gpu host g s)\<lparr>gs_pending := removeAll ?k (gs_pending s)\<rparr>
       in if snd made = [] then s1 else s1\<lparr>gs_active := dset (gs_active s1) ?k (snd made)\<rparr>)"
    using assms(6) by (auto simp: first_table_def Let_def made_def events_of_def removeAll_id
        split: if_splits prod.splits)
  have made: "cell_ok False True (if fst made = [] then events_of s ?k
      else deque_extend n (events_of s ?k) (fst made)) (snd made) (Some u)"
  proof (cases "?k \<in> set (gs_pending s)")
    case True
    then have "reconcile_restored_processes (events_of s ?k) g i current observed_at previous_at
        = (fst made, snd made)" by (simp add: made_def)
    from cell_reconciled [OF assms(4) this] show ?thesis by simp
  next
    case False
    then have "cell_ok False False (events_of s ?k) (table_of s ?k) (Some u)" using cell by simp
    from cell_begun [OF this assms(4)] False show ?thesis by (simp add: made_def)
  qed
  have tab: "table_of s' j = (if j = ?k then snd made else table_of s j)" for j
    using none by (simp add: s' Let_def table_of_def)
  have held: "held_keys s' \<subseteq> insert ?k (held_keys s)"
    by (auto simp: s' Let_def) (auto simp: held_keys_def)
  show "gpu_mid s'"
    by (rule mid_update [OF assms(1,2) _ _ _ _ held, where b = True])
      (use made tab assms(5) in \<open>auto simp: s' Let_def\<close>)
  show "gs_identities s' = gs_identities s" by (simp add: s' Let_def)
qed

lemma next_table_ok:
  assumes "gpu_mid s" "(host, g) \<in> known_keys s" "(host, g) \<in> initialized_keys s"
    and "dget (gs_last_observed s) (host, g) = Some u"
    and "next_table n host g i observed_at ps s = (ts, s')"
  shows "gpu_mid s'" and "gs_identities s' = gs_identities s"
proof -
  let ?k = "(host, g)"
  have cell: "cell_ok (?k \<in> set (gs_pending s)) True (events_of s ?k) (table_of s ?k) (Some u)"
    using assms(1,3,4) cells_okD [of "initialized_keys s" s ?k] by (simp add: gpu_mid_def)
  have ins: "insert ?k (initialized_keys s) = initialized_keys s" using assms(3) by blast
  show "gpu_mid s'" "gs_identities s' = gs_identities s"
  proof (atomize (full), cases "ps = []")
    case True
    let ?ts = "stops observed_at g i True (table_of s ?k)"
    have s': "s' = append_some n ?k ?ts (s\<lparr>gs_active := dpop (gs_active s) ?k\<rparr>)"
      using assms(5) True by (auto simp: next_table_def Let_def table_of_def)
    have held: "held_keys s' \<subseteq> insert ?k (held_keys s)" using held_pop [where s = s and k = ?k] by (auto simp: s')
    have "gpu_mid s'"
      by (rule mid_update [OF assms(1,2) _ _ _ _ held, where b = True])
        (use cell_emptied [OF cell] assms(4) ins in \<open>auto simp: s'\<close>)
    then show "gpu_mid s' \<and> gs_identities s' = gs_identities s" by (simp add: s')
  next
    case False
    obtain current replaced where st: "stamp_processes observed_at (table_of s ?k) ps = (current, replaced)"
      by fastforce
    let ?ts = "table_transitions observed_at g i (table_of s ?k) current replaced"
    let ?s1 = "s\<lparr>gs_active := dset (gs_active s) ?k current\<rparr>"
    have s': "s' = (if replaced = [] \<and> fst ` set current = fst ` set (table_of s ?k) then ?s1
        else append_some n ?k ?ts ?s1)"
      using assms(5) False st by (auto simp: next_table_def Let_def table_of_def split: if_splits)
    have "gpu_mid s'"
      by (rule mid_update [OF assms(1,2), where b = True])
        (use cell_sampled [OF cell st] assms(4) ins in \<open>auto simp: s'\<close>)
    then show "gpu_mid s' \<and> gs_identities s' = gs_identities s" by (simp add: s')
  qed
qed

lemma last_observed_ok:
  assumes "gpu_mid s" "k \<in> known_keys s"
  shows "gpu_mid (s\<lparr>gs_last_observed := dset (gs_last_observed s) k u\<rparr>)"
proof (rule mid_update [OF assms, where b = "k \<in> initialized_keys s"])
  show "cell_ok (k \<in> set (gs_pending (s\<lparr>gs_last_observed := dset (gs_last_observed s) k u\<rparr>)))
      (k \<in> initialized_keys s) (events_of (s\<lparr>gs_last_observed := dset (gs_last_observed s) k u\<rparr>) k)
      (table_of (s\<lparr>gs_last_observed := dset (gs_last_observed s) k u\<rparr>) k)
      (dget (gs_last_observed (s\<lparr>gs_last_observed := dset (gs_last_observed s) k u\<rparr>)) k)"
    using assms(1) cells_okD [of "initialized_keys s" s k] by (auto simp: gpu_mid_def intro: cell_observed)
qed auto

lemma track_processes_ok:
  assumes "gpu_mid s" "(host, gpu_identity gpu) \<in> known_keys s"
    and "track_processes n host observed_at previous_at gpu s = (ts, s')"
  shows "gpu_mid s'" and "gs_identities s' = gs_identities s"
proof -
  let ?g = "gpu_identity gpu"
  let ?k = "(host, ?g)"
  consider (idle) "\<not> gm_processes_sampled gpu" | (gone) "gm_processes_sampled gpu" "\<not> gm_processes_available gpu"
    | (seen) "gm_processes_sampled gpu" "gm_processes_available gpu" by blast
  then have "gpu_mid s' \<and> gs_identities s' = gs_identities s"
  proof cases
    case idle
    then show ?thesis using assms by (simp add: track_processes_def Let_def)
  next
    case gone
    obtain c s1 where cl: "close_unobservable_inventory n ?k (Some (gm_index gpu)) s = (c, s1)" by fastforce
    have s': "s' = forget_initialized host ?g s1" using assms(3) gone cl by (simp add: track_processes_def Let_def)
    have "cells_ok (initialized_keys s) s" using assms(1) by (simp add: gpu_mid_def)
    note f = close_unobservable_facts [OF cl this]
    have "initialized_keys s' = initialized_keys s - {?k}" "known_keys s' = known_keys s"
      using f(2,3) by (simp_all add: s') (simp_all add: initialized_keys_def known_keys_def)
    then show ?thesis using f assms(1) unfolding gpu_mid_def
      by (simp add: s') (auto simp: cells_ok_def)
  next
    case seen
    let ?s = "s\<lparr>gs_last_observed := dset (gs_last_observed s) ?k observed_at\<rparr>"
    have mid: "gpu_mid ?s" by (rule last_observed_ok [OF assms(1,2)])
    have known: "?k \<in> known_keys ?s" using assms(2) by (simp add: known_keys_def)
    have seen_at: "dget (gs_last_observed ?s) ?k = Some observed_at" by simp
    have "keyed (table_of s ?k)"
      using assms(1) cells_okD [of "initialized_keys s" s ?k] by (simp add: gpu_mid_def cell_ok_def)
    then have "keyed (fst (stamp_processes observed_at (dget_or [] (gs_active ?s) ?k) (gm_processes gpu)))"
      using stamp_processes_facts [OF _ prod.collapse [symmetric], of "table_of s ?k"]
      by (simp add: table_of_def)
    note first = first_table_ok [OF mid known _ this seen_at]
    have init: "?g \<in> set (dget_or [] (gs_initialized ?s) host) \<longleftrightarrow> ?k \<in> initialized_keys ?s"
      by (simp add: initialized_keys_def)
    show ?thesis
    proof (cases "?k \<in> initialized_keys ?s")
      case True
      then show ?thesis using assms(3) seen next_table_ok [OF mid known True seen_at] init
        by (simp add: track_processes_def Let_def)
    next
      case False
      then show ?thesis using assms(3) seen first [OF False] init
        by (simp add: track_processes_def Let_def)
    qed
  qed
  then show "gpu_mid s'" "gs_identities s' = gs_identities s" by blast+
qed

section \<open>A whole sample\<close>

lemma touch_identity_ok:
  fixes host g :: string
  assumes "gpu_mid s"
  defines "s' \<equiv> s\<lparr>gs_identities := dset (gs_identities s) host
    (removeAll g (dget_or [] (gs_identities s) host) @ [g])\<rparr>"
  shows "gpu_mid s'" and "(host, g) \<in> known_keys s'"
    and "h \<noteq> host \<Longrightarrow> dget_or [] (gs_identities s') h = dget_or [] (gs_identities s) h"
proof -
  have known: "known_keys s' = insert (host, g) (known_keys s)"
    by (auto simp: s'_def known_keys_def split: if_splits)
  then show "(host, g) \<in> known_keys s'" by simp
  show "h \<noteq> host \<Longrightarrow> dget_or [] (gs_identities s') h = dget_or [] (gs_identities s) h" by (simp add: s'_def)
  have "distinct (dget_or [] (gs_identities s') h)" for h
    using assms(1) by (simp add: gpu_mid_def s'_def distinct_removeAll)
  then show "gpu_mid s'" using assms(1) unfolding gpu_mid_def known by (auto simp: s'_def)
qed

lemma history_ok:
  "gpu_mid s \<Longrightarrow> k \<in> known_keys s \<Longrightarrow> gpu_mid (s\<lparr>gs_gpu_history := dset (gs_gpu_history s) k v\<rparr>)"
  by (simp add: gpu_mid_def known_keys_def)

lemma track_gpu_ok:
  assumes "gpu_mid (tk_store acc)" "track_gpu hn n host observed_at gpu acc = Inr acc'"
  shows "gpu_mid (tk_store acc')" and "known_keys (tk_store acc') = insert (host, gpu_identity gpu) (known_keys (tk_store acc))"
    and "h \<noteq> host \<Longrightarrow> dget_or [] (gs_identities (tk_store acc')) h = dget_or [] (gs_identities (tk_store acc)) h"
proof -
  let ?s = "tk_store acc" and ?g = "gpu_identity gpu"
  define s1 where "s1 = ?s\<lparr>gs_identities := dset (gs_identities ?s) host
    (removeAll ?g (dget_or [] (gs_identities ?s) host) @ [?g])\<rparr>"
  note t = touch_identity_ok [OF assms(1), where host = host and g = ?g, folded s1_def]
  obtain point where point: "gpu_create observed_at (gm_index gpu) (map_option Fin (gm_utilization_gpu_pct gpu))
          (map_option Fin (gm_memory_used_mib gpu)) (map_option Fin (gm_memory_total_mib gpu))
          (map_option Fin (gm_temperature_c gpu)) (map_option Fin (gm_power_draw_w gpu)) = Inr point"
    using assms(2) unfolding track_gpu_def Let_def by (auto simp: sum_bind_Inr)
  define history where "history = dget_or [] (gs_gpu_history s1) (host, ?g)"
  define s2 where "s2 = s1\<lparr>gs_gpu_history := dset (gs_gpu_history s1) (host, ?g)
    (deque_append hn history point)\<rparr>"
  obtain ts s3 where tr: "track_processes n host observed_at (map_option gh_observed_at (last_item history)) gpu s2
      = (ts, s3)" by fastforce
  have acc': "tk_store acc' = s3"
    using assms(2) tr [unfolded s2_def] point unfolding track_gpu_def Let_def s1_def [symmetric] history_def [symmetric]
    by (auto simp: sum_bind_Inr)
  have mid: "gpu_mid s2" unfolding s2_def by (rule history_ok [OF t(1,2)])
  have ids: "gs_identities s2 = gs_identities s1" by (simp add: s2_def)
  have "(host, ?g) \<in> known_keys s2" using t(2) by (simp add: known_keys_def ids)
  note f = track_processes_ok [OF mid this tr]
  show "gpu_mid (tk_store acc')" using f by (simp add: acc')
  show "known_keys (tk_store acc') = insert (host, ?g) (known_keys ?s)"
    using f(2) ids by (auto simp: acc' known_keys_def s1_def split: if_splits)
  show "h \<noteq> host \<Longrightarrow> dget_or [] (gs_identities (tk_store acc')) h = dget_or [] (gs_identities ?s) h"
    using f(2) ids t(3) by (simp add: acc')
qed

lemma track_gpus_ok:
  "gpu_mid (tk_store acc) \<Longrightarrow> track_gpus hn n host observed_at gpus acc = Inr acc' \<Longrightarrow>
    gpu_mid (tk_store acc')
    \<and> (\<forall>h. h \<noteq> host \<longrightarrow> dget_or [] (gs_identities (tk_store acc')) h = dget_or [] (gs_identities (tk_store acc)) h)"
proof (induction gpus arbitrary: acc)
  case (Cons g gpus)
  obtain acc1 where one: "track_gpu hn n host observed_at g acc = Inr acc1"
    and rest: "track_gpus hn n host observed_at gpus acc1 = Inr acc'"
    using Cons.prems(2) by (auto simp: sum_bind_Inr)
  note f = track_gpu_ok [OF Cons.prems(1) one]
  show ?case using Cons.IH [OF f(1) rest] f(3) by simp
qed simp

text \<open>Eviction: what is dropped of a device is everything.\<close>

definition mid_but :: "gpu_key set \<Rightarrow> gpu_store \<Rightarrow> bool" where
  "mid_but K s \<longleftrightarrow> cells_ok (initialized_keys s) s \<and> held_keys s \<subseteq> known_keys s \<union> K
    \<and> initialized_keys s \<subseteq> known_keys s \<union> K"

lemma drop_gpu_facts:
  assumes "mid_but (insert (host, g) K) s"
  shows "mid_but K (drop_gpu host g s)" and "gs_identities (drop_gpu host g s) = gs_identities s"
proof -
  let ?k = "(host, g)"
  let ?s = "drop_gpu host g s"
  show ids: "gs_identities ?s = gs_identities s"
    by (simp add: drop_gpu_def Let_def)
  have init: "initialized_keys ?s = initialized_keys s - {?k}"
    by (auto simp: drop_gpu_def Let_def initialized_keys_def forget_initialized_def split: if_splits)
  have held: "held_keys ?s = held_keys s - {?k}"
    by (simp add: drop_gpu_def Let_def held_keys_def forget_initialized_def Un_Diff)
  have "cells_ok (if False then insert ?k (initialized_keys s) else initialized_keys s - {?k}) ?s"
  proof (rule cells_one)
    show "cells_ok (initialized_keys s) s" using assms by (simp add: mid_but_def)
  qed (auto simp: drop_gpu_def Let_def events_of_def table_of_def forget_initialized_def cell_ok_def)
  moreover have "known_keys ?s = known_keys s" by (simp add: known_keys_def ids)
  ultimately show "mid_but K ?s" using assms unfolding mid_but_def init held by auto
qed

lemma evict_gpus_ok:
  assumes "gpu_mid s"
  shows "gpu_mid (evict_gpus host s)" and "within_bound (evict_gpus host s) host"
    and "h \<noteq> host \<Longrightarrow> dget_or [] (gs_identities (evict_gpus host s)) h = dget_or [] (gs_identities s) h"
proof -
  let ?ids = "dget_or [] (gs_identities s) host"
  define surplus where "surplus = length ?ids - max_gpu_identities"
  define s1 where "s1 = s\<lparr>gs_identities := dset (gs_identities s) host (drop surplus ?ids)\<rparr>"
  have known: "known_keys s \<subseteq> known_keys s1 \<union> Pair host ` set (take surplus ?ids)"
  proof
    fix k assume k: "k \<in> known_keys s"
    have "set ?ids = set (take surplus ?ids) \<union> set (drop surplus ?ids)"
      by (metis append_take_drop_id set_append)
    then show "k \<in> known_keys s1 \<union> Pair host ` set (take surplus ?ids)"
      using k by (cases k) (auto simp: known_keys_def s1_def split: if_splits)
  qed
  have "mid_but (Pair host ` set (take surplus ?ids)) s1"
    using assms known unfolding mid_but_def gpu_mid_def by (auto simp: s1_def)
  moreover have "mid_but (Pair host ` set gs) s2 \<Longrightarrow>
      mid_but {} (fold (drop_gpu host) gs s2) \<and> gs_identities (fold (drop_gpu host) gs s2) = gs_identities s2" for gs s2
  proof (induction gs arbitrary: s2)
    case (Cons g gs)
    then show ?case using drop_gpu_facts [of host g "Pair host ` set gs" s2] by simp
  qed simp
  moreover have ev: "evict_gpus host s = fold (drop_gpu host) (take surplus ?ids) s1"
    by (simp add: evict_gpus_def Let_def surplus_def s1_def)
  ultimately have f: "mid_but {} (evict_gpus host s)" "gs_identities (evict_gpus host s) = gs_identities s1"
    by simp_all
  have "distinct (dget_or [] (gs_identities s1) h)" for h
    using assms by (simp add: gpu_mid_def s1_def)
  then show "gpu_mid (evict_gpus host s)" using f by (simp add: gpu_mid_def mid_but_def)
  show "within_bound (evict_gpus host s) host"
    by (simp add: within_bound_def f(2) s1_def surplus_def)
  show "h \<noteq> host \<Longrightarrow> dget_or [] (gs_identities (evict_gpus host s)) h = dget_or [] (gs_identities s) h"
    by (simp add: f(2) s1_def)
qed

text \<open>What the store knows of a host at the start of a sample, and what of it stays initialized.\<close>

definition with_host :: "string \<Rightarrow> gpu_store \<Rightarrow> gpu_store" where
  "with_host host s =
    (let s = (if dget (gs_initialized s) host = None
              then s\<lparr>gs_initialized := dset (gs_initialized s) host []\<rparr> else s)
     in if dget (gs_identities s) host = None
        then s\<lparr>gs_identities := dset (gs_identities s) host []\<rparr> else s)"

definition keep_initialized :: "string \<Rightarrow> string list \<Rightarrow> gpu_store \<Rightarrow> gpu_store" where
  "keep_initialized host observed s =
    (let left = filter (\<lambda>g. g \<in> set observed) (dget_or [] (gs_initialized s) host)
     in if left = [] then s\<lparr>gs_initialized := dpop (gs_initialized s) host\<rparr>
        else s\<lparr>gs_initialized := dset (gs_initialized s) host left\<rparr>)"

lemma track_gpu_telemetry_elim:
  assumes "track_gpu_telemetry hn n enabled order r s = Inr (points, ts, s')"
  obtains acc c s3 c' s4 where
    "track_gpus hn n (pr_host r) (pr_observed_at r) (pr_gpus r)
      \<lparr>tk_store = with_host (pr_host r) s, tk_points = [], tk_transitions = []\<rparr> = Inr acc"
    "close_all n (pr_host r) (set_iter order (filter (\<lambda>g. g \<notin> set (map gpu_identity (pr_gpus r)))
      (dget_or [] (gs_initialized (evict_gpus (pr_host r) (tk_store acc))) (pr_host r))))
      (evict_gpus (pr_host r) (tk_store acc)) = (c, s3)"
    "close_restored_inventory n (pr_host r) (map gpu_identity (pr_gpus r)) s3 = (c', s4)"
    "s' = keep_initialized (pr_host r) (map gpu_identity (pr_gpus r)) s4"
proof -
  let ?h = "pr_host r" and ?obs = "map gpu_identity (pr_gpus r)"
  obtain acc where acc: "track_gpus hn n ?h (pr_observed_at r) (pr_gpus r)
      \<lparr>tk_store = with_host ?h s, tk_points = [], tk_transitions = []\<rparr> = Inr acc"
    using assms unfolding track_gpu_telemetry_def Let_def with_host_def by (auto simp: sum_bind_Inr)
  obtain c s3 where all: "close_all n ?h (set_iter order (filter (\<lambda>g. g \<notin> set ?obs)
      (dget_or [] (gs_initialized (evict_gpus ?h (tk_store acc))) ?h))) (evict_gpus ?h (tk_store acc)) = (c, s3)"
    by fastforce
  obtain c' s4 where res: "close_restored_inventory n ?h ?obs s3 = (c', s4)" by fastforce
  have "s' = keep_initialized ?h ?obs s4"
    using assms acc all res
    unfolding track_gpu_telemetry_def Let_def with_host_def keep_initialized_def
    by (simp split: if_splits)
  with acc all res show thesis by (rule that)
qed

lemma track_gpu_telemetry_ok:
  assumes "gpu_ok s" "track_gpu_telemetry hn n enabled order r s = Inr (points, ts, s')"
  shows "gpu_ok s'"
proof -
  let ?h = "pr_host r" and ?obs = "map gpu_identity (pr_gpus r)"
  obtain acc c s3 c' s4 where
    acc: "track_gpus hn n ?h (pr_observed_at r) (pr_gpus r)
      \<lparr>tk_store = with_host ?h s, tk_points = [], tk_transitions = []\<rparr> = Inr acc"
    and all: "close_all n ?h (set_iter order (filter (\<lambda>g. g \<notin> set ?obs)
      (dget_or [] (gs_initialized (evict_gpus ?h (tk_store acc))) ?h))) (evict_gpus ?h (tk_store acc)) = (c, s3)"
    and res: "close_restored_inventory n ?h ?obs s3 = (c', s4)"
    and s': "s' = keep_initialized ?h ?obs s4"
    by (rule track_gpu_telemetry_elim [OF assms(2)])
  define s1 where "s1 = with_host ?h s"
  have ids: "dget_or [] (gs_identities s1) h = dget_or [] (gs_identities s) h" for h
    by (auto simp: s1_def with_host_def Let_def dget_or_def)
  have init: "initialized_keys s1 = initialized_keys s"
    by (auto simp: s1_def with_host_def Let_def initialized_keys_def dget_or_def split: if_splits)
  have mid: "gpu_mid s1"
    using assms(1) unfolding gpu_ok_mid gpu_mid_def init
    by (simp add: ids known_keys_def) (auto simp: s1_def with_host_def Let_def held_keys_def cells_ok_def)
  have tr: "gpu_mid (tk_store acc)"
    "\<And>h. h \<noteq> ?h \<Longrightarrow> dget_or [] (gs_identities (tk_store acc)) h = dget_or [] (gs_identities s1) h"
    using track_gpus_ok [OF _ acc] mid by (auto simp: s1_def)
  define s2 where "s2 = evict_gpus ?h (tk_store acc)"
  note ev = evict_gpus_ok [OF tr(1), of ?h, folded s2_def]
  define gone where "gone = filter (\<lambda>g. g \<notin> set ?obs) (dget_or [] (gs_initialized s2) ?h)"
  note all = all [folded s2_def, folded gone_def]
  define left where "left = filter (\<lambda>g. g \<in> set ?obs) (dget_or [] (gs_initialized s4) ?h)"
  define s5 where "s5 = (if left = [] then s4\<lparr>gs_initialized := dpop (gs_initialized s4) ?h\<rparr>
    else s4\<lparr>gs_initialized := dset (gs_initialized s4) ?h left\<rparr>)"
  have s': "s' = s5" by (simp add: s' keep_initialized_def Let_def s5_def left_def)
  have "cells_ok (initialized_keys s2) s2" using ev(1) by (simp add: gpu_mid_def)
  note f = close_all_facts [OF all this]
  note g = close_restored_facts [OF res conjunct1 [OF f]]
  have sub: "initialized_keys s5 = initialized_keys s2 - Pair ?h ` set (set_iter order gone)"
  proof -
    have "initialized_keys s5 = initialized_keys s4 - range (Pair ?h) \<union> Pair ?h ` set left"
      by (simp add: s5_def initialized_keys_set)
    moreover have "gs_initialized s4 = gs_initialized s2" using f g by simp
    moreover from this have "initialized_keys s4 = initialized_keys s2" by (simp add: initialized_keys_def)
    ultimately show ?thesis by (auto simp: left_def gone_def initialized_keys_def)
  qed
  have sel: "gs_identities s5 = gs_identities s2" "held_keys s5 = held_keys s4"
    using f g by (simp_all add: s5_def held_keys_def)
  have "cells_ok (initialized_keys s5) s5" using g unfolding sub by (simp add: s5_def)
  moreover have "known_keys s5 = known_keys s2" by (simp add: known_keys_def sel)
  moreover have "initialized_keys s5 \<subseteq> initialized_keys s2" by (auto simp: sub)
  ultimately have "gpu_mid s5" using ev(1) f g unfolding gpu_mid_def by (auto simp: sel)
  moreover have "within_bound s5 h" for h
    using assms(1) ev(2) evict_gpus_ok(3) [OF tr(1), of h ?h, folded s2_def] tr(2) [of h] ids [of h]
    by (cases "h = ?h") (simp_all add: within_bound_def sel gpu_ok_mid)
  ultimately show ?thesis by (simp add: s' gpu_ok_mid)
qed

section \<open>Restored states\<close>

lemma sum_each_keys:
  "sum_each f xs = Inr ys \<Longrightarrow> (\<And>x y. f x = Inr y \<Longrightarrow> fst y = fst x) \<Longrightarrow> map fst ys = map fst xs"
  by (induction xs arbitrary: ys) (auto simp: sum_bind_Inr)

lemma restored_rings_keys:
  assumes "restored_rings n parse retained records = Inr d"
  shows "fst ` set d \<subseteq> set retained"
proof -
  have "map fst d = map fst (drestrict (\<lambda>k. k \<in> set retained) records)"
    by (rule sum_each_keys [OF assms [unfolded restored_rings_def]]) (auto simp: sum_bind_Inr)
  then have "fst ` set d = fst ` set (drestrict (\<lambda>k. k \<in> set retained) records)" by (metis set_map)
  then show ?thesis by (auto simp: keys_drestrict)
qed

lemma add_identities:
  "k \<in> {(h, g). g \<in> set (dget_or [] (fold add_identity ks d) h)}
    \<longleftrightarrow> k \<in> set ks \<or> snd k \<in> set (dget_or [] d (fst k))"
proof (induction ks arbitrary: d)
  case (Cons x ks)
  have "snd k \<in> set (dget_or [] (add_identity x d) (fst k)) \<longleftrightarrow> k = x \<or> snd k \<in> set (dget_or [] d (fst k))"
    by (cases k; cases x) (auto simp: add_identity_def Let_def split: if_splits)
  then show ?case using Cons.IH [of "add_identity x d"] by auto
qed (cases k, simp)

lemma add_identities_distinct:
  "(\<forall>h. distinct (dget_or [] d h)) \<Longrightarrow> distinct (dget_or [] (fold add_identity ks d) h)"
  by (induction ks arbitrary: d) (auto simp: add_identity_def Let_def)

lemma bounded_keys_host:
  "card {g. (h, g) \<in> set (bounded_restored_gpu_keys latest)} \<le> max_gpu_identities"
proof -
  let ?f = "\<lambda>host. take max_gpu_identities
        (rev (sort_key (\<lambda>k. (dget_or [] latest k, snd k)) (filter (\<lambda>k. fst k = host) (map fst latest))))"
  have own: "k \<in> set (?f host) \<Longrightarrow> fst k = host" for k host
    by (drule in_set_takeD) (simp only: set_rev set_sort set_filter, simp)
  have "{g. (h, g) \<in> set (bounded_restored_gpu_keys latest)} \<subseteq> snd ` set (?f h)"
  proof
    fix g assume "g \<in> {g. (h, g) \<in> set (bounded_restored_gpu_keys latest)}"
    then have "(h, g) \<in> \<Union> (set ` set (map ?f (remdups (map (\<lambda>kv. fst (fst kv)) latest))))"
      by (simp only: bounded_restored_gpu_keys_def set_concat mem_Collect_eq)
    then obtain host where k: "(h, g) \<in> set (?f host)" by (simp only: set_map) blast
    have "h = host" using own [OF k] unfolding fst_conv .
    with k have "(h, g) \<in> set (?f h)" by (simp only:)
    then have "snd (h, g) \<in> snd ` set (?f h)" by (rule imageI)
    then show "g \<in> snd ` set (?f h)" unfolding snd_conv .
  qed
  then have "card {g. (h, g) \<in> set (bounded_restored_gpu_keys latest)} \<le> card (snd ` set (?f h))"
    by (rule card_mono [rotated]) simp
  also have "\<dots> \<le> length (?f h)"
    using card_length [of "map snd (?f h)"] by (simp only: set_map length_map)
  also have "\<dots> \<le> max_gpu_identities" by simp
  finally show ?thesis .
qed

lemma restored_ok:
  assumes "restored_gpu_store render hn n history events = Inr s"
  shows "gpu_ok s"
proof -
  define latest where "latest = latest_gpus render history events"
  define retained where "retained = bounded_restored_gpu_keys latest"
  obtain gh es where gh: "restored_rings hn (gpu_from_dict render) retained history = Inr gh"
    and es: "restored_rings n (transition_from_dict render) retained events = Inr es"
    and s: "s = \<lparr>gs_gpu_history = gh, gs_process_events = es, gs_active = [], gs_last_observed = [],
      gs_identities = restored_identities latest retained, gs_initialized = [], gs_pending = map fst es\<rparr>"
    using assms unfolding restored_gpu_store_def Let_def latest_def [symmetric] retained_def [symmetric]
    by (auto simp: sum_bind_Inr)
  have known: "known_keys s = set retained"
    using add_identities [of _ _ "[]"] by (auto simp: known_keys_def s restored_identities_def)
  have init: "initialized_keys s = {}" by (simp add: initialized_keys_def s)
  have "cells_ok {} s"
    unfolding cells_ok_def
  proof
    fix k
    have "k \<notin> fst ` set es \<Longrightarrow> dget_or [] es k = []" by (simp add: dget_or_def flip: dget_None_iff)
    then show "cell_ok (k \<in> set (gs_pending s)) (k \<in> {}) (events_of s k) (table_of s k) (dget (gs_last_observed s) k)"
      by (auto simp: cell_ok_def s events_of_def table_of_def)
  qed
  moreover have "held_keys s \<subseteq> known_keys s"
    unfolding known using restored_rings_keys [OF gh] restored_rings_keys [OF es]
    by (simp add: held_keys_def s)
  moreover have dist: "distinct (dget_or [] (gs_identities s) h)" for h
    by (simp add: s restored_identities_def add_identities_distinct)
  moreover have "within_bound s h" for h
  proof -
    have "set (dget_or [] (gs_identities s) h) = {g. (h, g) \<in> set retained}"
      using known by (auto simp: known_keys_def)
    then show ?thesis
      using bounded_keys_host [of h latest] distinct_card [OF dist [of h]]
      by (simp add: within_bound_def retained_def)
  qed
  ultimately show ?thesis by (simp add: gpu_ok_mid gpu_mid_def init)
qed

section \<open>Runs\<close>

text \<open>What the store does to the per-GPU state: a sample of an online host, the end of the
  observation of a host, a change of the inventory.\<close>

datatype store_event =
    Sample "string \<Rightarrow> nat" probe_result
  | Host_Lost "string \<Rightarrow> nat" string
  | Hosts_Removed "string \<Rightarrow> bool"

fun gpu_step :: "nat \<Rightarrow> nat \<Rightarrow> bool \<Rightarrow> store_event \<Rightarrow> gpu_store \<Rightarrow> py_error + gpu_store" where
  "gpu_step hn n enabled (Sample order r) s =
    map_sum id (\<lambda>x. snd (snd x)) (track_gpu_telemetry hn n enabled order r s)"
| "gpu_step hn n enabled (Host_Lost order host) s = Inr (snd (invalidate_process_inventory n order host s))"
| "gpu_step hn n enabled (Hosts_Removed stale) s = Inr (forget_hosts stale s)"

fun gpu_run :: "nat \<Rightarrow> nat \<Rightarrow> bool \<Rightarrow> store_event list \<Rightarrow> gpu_store \<Rightarrow> py_error + gpu_store" where
  "gpu_run hn n enabled [] s = Inr s"
| "gpu_run hn n enabled (ev # evs) s =
    sum_bind (gpu_step hn n enabled ev s) (gpu_run hn n enabled evs)"

lemma gpu_step_ok:
  assumes "gpu_ok s" "gpu_step hn n enabled ev s = Inr s'"
  shows "gpu_ok s'"
proof (cases ev)
  case (Sample order r)
  then obtain points ts where "track_gpu_telemetry hn n enabled order r s = Inr (points, ts, s')"
    using assms(2) by (cases "track_gpu_telemetry hn n enabled order r s") auto
  then show ?thesis by (rule track_gpu_telemetry_ok [OF assms(1)])
next
  case (Host_Lost order host)
  then show ?thesis using assms(2) invalidate_ok [OF assms(1) prod.collapse [symmetric], of n order host]
    by simp
next
  case (Hosts_Removed stale)
  then show ?thesis using assms(2) forget_hosts_ok [OF assms(1)] by auto
qed

lemma gpu_run_ok: "gpu_ok s \<Longrightarrow> gpu_run hn n enabled evs s = Inr s' \<Longrightarrow> gpu_ok s'"
  by (induction evs arbitrary: s) (auto simp: sum_bind_Inr dest: gpu_step_ok)

section \<open>The time of the last reading\<close>











lemma append_events_cell [simp]:
  "table_of (append_events n key ts s) = table_of s"
  "gs_last_observed (append_events n key ts s) = gs_last_observed s"
  by (simp_all add: append_events_def fun_eq_iff table_of_def)















text \<open>A restored device with an open process, a sample with its processes and one without.\<close>

definition example_gpu :: "gpu_process list \<Rightarrow> gpu_metrics" where
  "example_gpu ps =
    \<lparr>gm_index = 0, gm_uuid = ''GPU-1'', gm_name = ''A'', gm_driver_version = ''1'', gm_pstate = None,
     gm_temperature_c = Some 40, gm_utilization_gpu_pct = None, gm_utilization_memory_pct = None,
     gm_memory_total_mib = None, gm_memory_used_mib = None, gm_memory_free_mib = None, gm_power_draw_w = None,
     gm_power_limit_w = None, gm_processes = ps, gm_processes_available = True, gm_processes_sampled = True,
     gm_processes_observed_at = None, gm_health = None\<rparr>"

definition example_sample :: "string \<Rightarrow> gpu_process list \<Rightarrow> probe_result" where
  "example_sample t ps =
    \<lparr>pr_host = ''n1'', pr_status = Online, pr_latency_ms = 1, pr_gpus = [example_gpu ps], pr_message = None,
     pr_observed_at = t, pr_system = None, pr_transport_retries = 0\<rparr>"

definition example_restored :: "(gpu_key, obj list) dict" where
  "example_restored = [((''n1'', ''GPU-1''), [persistence_dict
    (process_transition ''t0'' ''GPU-1'' 0 ''started'' (example_process 1 ''a'') True)])]"

definition example_events :: "store_event list" where
  "example_events = [Sample (\<lambda>_. 0) (example_sample ''t1'' [example_process 1 ''a'', example_process 2 ''b''])]"

definition example_run :: "py_error + gpu_store" where
  "example_run = sum_bind (restored_gpu_store (\<lambda>_. []) 10 10 [] example_restored) (gpu_run 10 10 True example_events)"

lemma example_run_value:
  "(case example_run of Inl e \<Rightarrow> None | Inr s \<Rightarrow> Some (gs_pending s,
      dget (open_transitions (dget_or [] (gs_process_events s) (''n1'', ''GPU-1''))) (2, ''b'') = None))
    = Some ([], False)"
  by code_simp

lemma example_restored_value:
  "\<exists>s0 s. restored_gpu_store (\<lambda>_. []) 10 10 [] example_restored = Inr s0
    \<and> gpu_run 10 10 True example_events s0 = Inr s \<and> gs_pending s = []
    \<and> dget (open_transitions (dget_or [] (gs_process_events s) (''n1'', ''GPU-1''))) (2, ''b'') \<noteq> None"
  using example_run_value by (auto simp: example_run_def sum_bind_def split: sum.splits)



text \<open>C27. The devices of a host the store keeps anything of (a history, a transition log, a live table
  or the time of a sample) are at most 256 after any run: a host that reports ever new devices cannot
  make the store grow.\<close>

theorem device_state_bounded:
  assumes "restored_gpu_store render hn n history events = Inr s0"
    and "gpu_run hn n enabled evs s0 = Inr s"
  shows "card {g. (host, g) \<in> fst ` set (gs_gpu_history s) \<union> fst ` set (gs_process_events s)
    \<union> fst ` set (gs_active s) \<union> fst ` set (gs_last_observed s)} \<le> 256"
proof -
  have ok: "gpu_ok s" by (rule gpu_run_ok [OF restored_ok [OF assms(1)] assms(2)])
  have "{g. (host, g) \<in> held_keys s} \<subseteq> set (dget_or [] (gs_identities s) host)"
    using ok by (auto simp: gpu_ok_def known_keys_def)
  then have "card {g. (host, g) \<in> held_keys s} \<le> length (dget_or [] (gs_identities s) host)"
    by (meson card_length card_mono le_trans List.finite_set)
  also have "\<dots> \<le> 256" using ok by (simp add: gpu_ok_def max_gpu_identities_def)
  finally show ?thesis by (simp only: held_keys_def)
qed

theorem device_state_bounded_witness:
  "\<exists>s. sum_bind (restored_gpu_store (\<lambda>_. []) 10 10 [] example_restored) (gpu_run 10 10 True example_events) = Inr s
    \<and> card {g. (''n1'', g) \<in> fst ` set (gs_gpu_history s) \<union> fst ` set (gs_process_events s)
      \<union> fst ` set (gs_active s) \<union> fst ` set (gs_last_observed s)} \<le> 256"
proof -
  obtain s0 s where r: "restored_gpu_store (\<lambda>_. []) 10 10 [] example_restored = Inr s0"
    and run: "gpu_run 10 10 True example_events s0 = Inr s"
    using example_restored_value by blast
  from device_state_bounded [OF r run, of "''n1''"] r run show ?thesis by (intro exI [of _ s]) simp
qed

end
