(* ===== verification/Store_Runs.thy ===== *)
theory Store_Runs
  imports Store_Frames Incident_Properties Gpu_Invariant
begin

text \<open>
  The runs of the state store: its operations in any order, each one critical section. What holds
  after every run is the invariant \<open>store_ok\<close>; it also puts the tracker and the per-GPU state of the
  store in the reach of their own state machines, so that what is proved of them holds of the store.
\<close>

section \<open>Steps\<close>

inductive store_step :: "(pyval \<Rightarrow> string) \<Rightarrow> state_store \<Rightarrow> state_store \<Rightarrow> bool" for render where
  hosts: "set_hosts render now hosts s = Inr s' \<Longrightarrow> store_step render s s'"
| collector: "store_step render s (set_collector_error now message s)"
| interval: "set_poll_interval_seconds now v s = Inr (x, s') \<Longrightarrow> store_step render s s'"
| gpu_counts: "store_step render s (update_store_gpu_counts expected s)"
| maintenance: "store_step render s (set_maintenance_windows now windows s)"
| actions: "store_step render s (set_incident_actions now acts s)"
| names: "store_step render s (set_host_display_names now names s)"
| groups: "store_step render s (set_host_groups now groups s)"
| overrides: "store_step render s (set_incident_overrides now ho go groups s)"
| topology: "set_topology now t s = Inr s' \<Longrightarrow> store_step render s s'"
| polling: "store_step render s (begin_poll now polled s)"
| cycle: "store_step render s (record_poll_cycle now d s)"
| retry: "store_step render s (reschedule_retry now host d s)"
| result: "apply_result order now r retry_after cycle incarnation s = Inr (ok, effects, s') \<Longrightarrow> store_step render s s'"
| reading: "store_step render s (refresh_expiries now s)"
| adapters: "store_step render s (refresh_adapter_status statuses s)"
| projecting: "store_step render s (snd (snapshot_locked render now statuses s))"

inductive_cases store_stepE: "store_step render s s'"

abbreviation store_run :: "(pyval \<Rightarrow> string) \<Rightarrow> state_store \<Rightarrow> state_store \<Rightarrow> bool" where
  "store_run render \<equiv> (store_step render)\<^sup>*\<^sup>*"

section \<open>The invariant\<close>

text \<open>One incarnation and one history per monitored host, each incarnation used once, rings within
  their bounds.\<close>

definition inventory_ok :: "state_store \<Rightarrow> bool" where
  "inventory_ok s \<longleftrightarrow>
    wf_dict (ss_servers s) \<and> wf_dict (ss_host_incarnations s) \<and> wf_dict (ss_history s)
    \<and> fst ` set (ss_host_incarnations s) = fst ` set (ss_servers s)
    \<and> fst ` set (ss_history s) = fst ` set (ss_servers s)
    \<and> (\<forall>h i. dget (ss_host_incarnations s) h = Some i \<longrightarrow> i < ss_next_host_incarnation s)
    \<and> (\<forall>h h' i. dget (ss_host_incarnations s) h = Some i \<longrightarrow> dget (ss_host_incarnations s) h' = Some i \<longrightarrow> h = h')
    \<and> (\<forall>h state. dget (ss_servers s) h = Some state \<longrightarrow> sv_host state = h)
    \<and> (\<forall>h points. dget (ss_history s) h = Some points \<longrightarrow> length points \<le> st_history_points (ss_settings s))"

text \<open>The ledger of notified events is bounded, and only events in its order are in it.\<close>

definition ledger_ok :: "state_store \<Rightarrow> bool" where
  "ledger_ok s \<longleftrightarrow>
    length (ss_notification_event_order s) \<le> st_notification_event_capacity (ss_settings s)
    \<and> fst ` set (ss_notification_event_incarnations s) \<subseteq> set (ss_notification_event_order s)
    \<and> (\<forall>i \<in> set (ss_notification_event_order s). i < el_next_event_id (tr_log (ss_incidents s)))"

definition tracked_hosts_ok :: "state_store \<Rightarrow> bool" where
  "tracked_hosts_ok s \<longleftrightarrow>
    (if ss_inventory_initialized s then fst ` set (tr_active (ss_incidents s)) \<subseteq> fst ` set (ss_servers s)
     else ss_servers s = [])"

definition store_ok :: "state_store \<Rightarrow> bool" where
  "store_ok s \<longleftrightarrow> inventory_ok s \<and> ledger_ok s \<and> tracked_hosts_ok s
    \<and> incident_reachable (ss_incidents s, ss_incident_policy s) \<and> gpu_ok (ss_gpu s)"

lemmas store_ok_defs = store_ok_def inventory_ok_def ledger_ok_def tracked_hosts_ok_def

lemma store_ok_publish [simp]: "store_ok (publish now s) = store_ok s"
  by (simp add: store_ok_defs)

lemma store_ok_refresh [simp]: "store_ok (refresh_expiries now s) = store_ok s"
  by (simp add: store_ok_defs refresh_expiries_def)

lemma store_ok_sync [simp]: "store_ok (sync_tracker_revision s) = store_ok s"
  by (simp add: store_ok_defs)

lemma store_ok_bindings [simp]: "store_ok (refresh_startup_action_bindings now r s) = store_ok s"
  by (simp add: store_ok_defs)

lemma store_ok_adapters [simp]: "store_ok (refresh_adapter_status statuses s) = store_ok s"
  by (simp add: store_ok_defs refresh_adapter_status_def)

lemma store_ok_projecting [simp]: "store_ok (snd (snapshot_locked render now statuses s)) = store_ok s"
  by (simp add: store_ok_defs snapshot_locked_def refresh_adapter_status_def Let_def split: option.split)

section \<open>Setters\<close>

lemma store_ok_settings:
  assumes "store_ok s"
  shows "store_ok (set_collector_error now message s)" "store_ok (set_maintenance_windows now windows s)"
    "store_ok (set_incident_actions now acts s)" "store_ok (set_host_display_names now names s)"
  using assms by (simp_all add: set_collector_error_def set_maintenance_windows_def set_incident_actions_def
    set_host_display_names_def Let_def) (simp_all add: store_ok_defs)

lemma store_ok_policies:
  assumes "store_ok s"
  shows "store_ok (update_store_gpu_counts expected s)" "store_ok (set_host_groups now groups s)"
    "store_ok (set_incident_overrides now ho go groups s)"
proof -
  have r: "incident_reachable (ss_incidents s, ss_incident_policy s)" using assms by (simp add: store_ok_def)
  note c = stepped [OF r counted] and o = stepped [OF r overridden]
  show "store_ok (update_store_gpu_counts expected s)" using assms c
    by (simp add: update_store_gpu_counts_def store_ok_defs)
  show "store_ok (set_host_groups now groups s)" using assms o
    by (simp add: set_host_groups_def) (simp add: store_ok_defs)
  show "store_ok (set_incident_overrides now ho go groups s)" using assms o
    by (simp add: set_incident_overrides_def) (simp add: store_ok_defs)
qed

lemma interval_form:
  assumes "set_poll_interval_seconds now v s = Inr (x, s')"
  shows "s' = s \<or> s' = publish now (s\<lparr>ss_poll_interval_seconds := x,
    ss_collection_stale_after_seconds := x * of_int (st_collection_stale_cycles (ss_settings s))\<rparr>)"
  using assms unfolding set_poll_interval_seconds_def
  by (auto split: sum.splits double.splits PyNumber.py_error.splits if_splits)

lemma topology_form:
  assumes "set_topology now t s = Inr s'"
  shows "s' = s \<or> s' = publish now (s\<lparr>ss_topology := t, ss_incident_revision := ss_incident_revision s + 1\<rparr>)"
  using assms unfolding set_topology_def by (auto split: option.splits if_splits)

lemma store_ok_interval:
  assumes "store_ok s" "set_poll_interval_seconds now v s = Inr (x, s')"
  shows "store_ok s'"
proof -
  have "store_ok (s\<lparr>ss_poll_interval_seconds := a, ss_collection_stale_after_seconds := b\<rparr>)" for a b
    using assms(1) by (simp add: store_ok_defs)
  then show ?thesis using interval_form [OF assms(2)] assms(1) by auto
qed

lemma store_ok_topology:
  assumes "store_ok s" "set_topology now t s = Inr s'"
  shows "store_ok s'"
proof -
  have "store_ok (s\<lparr>ss_topology := a, ss_incident_revision := b\<rparr>)" for a b
    using assms(1) by (simp add: store_ok_defs)
  then show ?thesis using topology_form [OF assms(2)] assms(1) by auto
qed

section \<open>The inventory\<close>

declare keys_drestrict [simp]

lemma inventory_ok_drop:
  assumes "inventory_ok s"
  shows "inventory_ok (drop_hosts gone s)"
proof -
  have look: "dget (drestrict (\<lambda>h. h \<notin> set gone) d) k = (if k \<notin> set gone then dget d k else None)"
    for d :: "(string, 'b) dict" and k by simp
  show ?thesis using assms unfolding inventory_ok_def drop_hosts_def by (simp add: look)
qed

lemma inventory_ok_add:
  assumes ok: "inventory_ok s" and new: "dget (ss_servers s) host = None" and add: "add_host render host s = Inr s'"
  shows "inventory_ok s'"
proof -
  obtain points where s': "s' = s\<lparr>ss_servers := dset (ss_servers s) host (new_server host),
      ss_host_incarnations := dset (ss_host_incarnations s) host (ss_next_host_incarnation s),
      ss_next_host_incarnation := ss_next_host_incarnation s + 1,
      ss_restored_history := dpop (ss_restored_history s) host,
      ss_history := dset (ss_history s) host (deque_of (st_history_points (ss_settings s)) points)\<rparr>"
    using add by (auto simp: add_host_def split: sum.splits)
  have less: "i < ss_next_host_incarnation s" if "dget (ss_host_incarnations s) h = Some i" for h i
    using ok that by (simp add: inventory_ok_def)
  have inj: "h = h'" if "dget (ss_host_incarnations s) h = Some i" "dget (ss_host_incarnations s) h' = Some i" for h h' i
    using ok that unfolding inventory_ok_def by blast
  show ?thesis
    unfolding inventory_ok_def
  proof (intro conjI allI impI)
    fix h i assume "dget (ss_host_incarnations s') h = Some i"
    then show "i < ss_next_host_incarnation s'" using less [of h i] by (auto simp: s' split: if_splits)
  next
    fix h h' i assume "dget (ss_host_incarnations s') h = Some i" "dget (ss_host_incarnations s') h' = Some i"
    then show "h = h'" using inj [of h i h'] less [of h i] less [of h' i] by (auto simp: s' split: if_splits)
  qed (use ok in \<open>auto simp: inventory_ok_def s' new_server_def split: if_splits\<close>)
qed

text \<open>What the additions leave alone.\<close>

definition same_but_inventory :: "state_store \<Rightarrow> state_store \<Rightarrow> bool" where
  "same_but_inventory s s' \<longleftrightarrow>
    s' = s\<lparr>ss_servers := ss_servers s', ss_host_incarnations := ss_host_incarnations s',
           ss_next_host_incarnation := ss_next_host_incarnation s',
           ss_restored_history := ss_restored_history s', ss_history := ss_history s'\<rparr>"

lemma add_host_frame:
  assumes "add_host render host s = Inr s'"
  shows "same_but_inventory s s' \<and> fst ` set (ss_servers s') = insert host (fst ` set (ss_servers s))"
proof -
  obtain points where "s' = s\<lparr>ss_servers := dset (ss_servers s) host (new_server host),
      ss_host_incarnations := dset (ss_host_incarnations s) host (ss_next_host_incarnation s),
      ss_next_host_incarnation := ss_next_host_incarnation s + 1,
      ss_restored_history := dpop (ss_restored_history s) host,
      ss_history := dset (ss_history s) host (deque_of (st_history_points (ss_settings s)) points)\<rparr>"
    using assms by (auto simp: add_host_def split: sum.splits)
  then show ?thesis by (simp add: same_but_inventory_def)
qed

lemma same_but_inventory_trans:
  "same_but_inventory s s' \<Longrightarrow> same_but_inventory s' s'' \<Longrightarrow> same_but_inventory s s''"
  unfolding same_but_inventory_def by (cases s, cases s', cases s'') simp

lemma add_hosts_facts:
  assumes "inventory_ok s" "add_hosts render hosts s = Inr (added, s')"
  shows "inventory_ok s' \<and> same_but_inventory s s'
    \<and> fst ` set (ss_servers s') = fst ` set (ss_servers s) \<union> set hosts \<and> (\<not> added \<longrightarrow> s' = s)"
  using assms
proof (induction hosts arbitrary: s added)
  case Nil
  then show ?case by (simp add: same_but_inventory_def)
next
  case (Cons host hosts)
  show ?case
  proof (cases "dget (ss_servers s) host")
    case (Some state)
    then have "host \<in> fst ` set (ss_servers s)" by (rule dget_Some_keys)
    then show ?thesis using Cons Some by auto
  next
    case None
    then obtain s1 changed where one: "add_host render host s = Inr s1"
      and rest: "add_hosts render hosts s1 = Inr (changed, s')" and "added"
      using Cons.prems(2) by (auto simp: sum_bind_def split: sum.splits)
    note f = add_host_frame [OF one]
    have "inventory_ok s1" by (rule inventory_ok_add [OF Cons.prems(1) None one])
    note g = Cons.IH [OF this rest]
    show ?thesis using f g \<open>added\<close> same_but_inventory_trans by auto
  qed
qed

lemma remove_hosts_active:
  "fst ` set (tr_active (remove_hosts t desired)) = fst ` set (tr_active t) \<inter> set desired"
proof -
  have "fst ` set (tr_active (foldl remove_host t hosts)) = fst ` set (tr_active t) - set hosts" for hosts
    by (induction hosts arbitrary: t) (auto simp: remove_host_def Let_def)
  then show ?thesis by (auto simp: remove_hosts_def)
qed

lemma same_but_inventory_fields:
  assumes "same_but_inventory s s'"
  shows "ss_settings s' = ss_settings s" "ss_gpu s' = ss_gpu s" "ss_incidents s' = ss_incidents s"
    "ss_incident_policy s' = ss_incident_policy s" "ss_inventory_initialized s' = ss_inventory_initialized s"
    "ss_notification_event_order s' = ss_notification_event_order s"
    "ss_notification_event_incarnations s' = ss_notification_event_incarnations s"
    "ss_version s' = ss_version s" "ss_incident_revision s' = ss_incident_revision s"
    "ss_tracker_version s' = ss_tracker_version s" "ss_snapshot_cache s' = ss_snapshot_cache s"
  using assms unfolding same_but_inventory_def by (cases s; cases s'; simp)+

text \<open>\<open>set_hosts\<close> in three stages: the departed hosts go, the new ones come, the tracker follows.\<close>

definition departed :: "string list \<Rightarrow> state_store \<Rightarrow> state_store" where
  "departed hosts s =
    (let initial = \<not> ss_inventory_initialized s;
         gone = filter (\<lambda>h. h \<notin> set hosts) (keys (ss_servers s));
         s = drop_hosts gone s;
         stale = (\<lambda>h. if initial then h \<notin> set hosts else h \<in> set gone);
         s = (if initial \<or> gone \<noteq> [] then s\<lparr>ss_gpu := forget_hosts stale (ss_gpu s)\<rparr> else s)
     in if initial
        then s\<lparr>ss_restored_history := drestrict (\<lambda>h. h \<in> set hosts) (ss_restored_history s),
               ss_inventory_initialized := True\<rparr>
        else s)"

definition follow_hosts :: "string list \<Rightarrow> state_store \<Rightarrow> state_store" where
  "follow_hosts hosts s =
    sync_tracker_revision (s\<lparr>ss_incidents := remove_hosts (ss_incidents s) hosts,
      ss_incident_policy := retain_hosts (ss_incident_policy s) hosts\<rparr>)"

lemma set_hosts_stages:
  assumes "set_hosts render now hosts s = Inr s'"
  obtains added s1 where "add_hosts render hosts (departed hosts s) = Inr (added, s1)"
    and "s' = (if filter (\<lambda>h. h \<notin> set hosts) (keys (ss_servers s)) \<noteq> [] \<or> added
               then publish now (follow_hosts hosts s1) else follow_hosts hosts s1)"
  using assms unfolding set_hosts_def departed_def follow_hosts_def Let_def sum_bind_def
  by (auto split: sum.splits if_splits)

lemma departed_facts:
  assumes "store_ok s"
  shows "inventory_ok (departed hosts s)" "gpu_ok (ss_gpu (departed hosts s))"
    "ss_inventory_initialized (departed hosts s)"
    "fst ` set (ss_servers (departed hosts s)) = fst ` set (ss_servers s) \<inter> set hosts"
    "ss_settings (departed hosts s) = ss_settings s" "ss_incidents (departed hosts s) = ss_incidents s"
    "ss_incident_policy (departed hosts s) = ss_incident_policy s"
    "ss_notification_event_order (departed hosts s) = ss_notification_event_order s"
    "ss_notification_event_incarnations (departed hosts s) = ss_notification_event_incarnations s"
    "ss_version (departed hosts s) = ss_version s" "ss_snapshot_cache (departed hosts s) = ss_snapshot_cache s"
proof -
  have inv: "inventory_ok (drop_hosts gone s)" for gone
    using assms by (simp add: store_ok_def inventory_ok_drop)
  have "inventory_ok (drop_hosts gone s\<lparr>ss_gpu := g\<rparr>)" "inventory_ok (drop_hosts gone s\<lparr>ss_gpu := g,
      ss_restored_history := rh, ss_inventory_initialized := b\<rparr>)" for gone g rh b
    using inv [of gone] by (simp_all only: inventory_ok_def) simp_all
  then show "inventory_ok (departed hosts s)" using inv by (simp add: departed_def Let_def)
  have "gpu_ok (ss_gpu s)" using assms by (simp add: store_ok_def)
  then show "gpu_ok (ss_gpu (departed hosts s))"
    using forget_hosts_ok by (simp add: departed_def Let_def drop_hosts_def)
  have "ss_servers (departed hosts s) =
      drestrict (\<lambda>h. h \<notin> set (filter (\<lambda>h. h \<notin> set hosts) (keys (ss_servers s)))) (ss_servers s)"
    by (cases "filter (\<lambda>h. h \<notin> set hosts) (keys (ss_servers s)) = []"; cases "ss_inventory_initialized s")
      (simp_all add: departed_def Let_def drop_hosts_def del: set_filter set_map)
  then show "fst ` set (ss_servers (departed hosts s)) = fst ` set (ss_servers s) \<inter> set hosts"
    by (simp only: keys_drestrict set_filter set_map) blast
qed (simp_all add: departed_def Let_def drop_hosts_def)

lemma store_ok_hosts:
  assumes ok: "store_ok s" and set_hosts: "set_hosts render now hosts s = Inr s'"
  shows "store_ok s'"
proof -
  obtain added s1 where add: "add_hosts render hosts (departed hosts s) = Inr (added, s1)"
    and s': "s' = (if filter (\<lambda>h. h \<notin> set hosts) (keys (ss_servers s)) \<noteq> [] \<or> added
               then publish now (follow_hosts hosts s1) else follow_hosts hosts s1)"
    by (rule set_hosts_stages [OF set_hosts])
  note d = departed_facts [OF ok, of hosts]
  note a = add_hosts_facts [OF d(1) add]
  note f = same_but_inventory_fields [OF conjunct1 [OF conjunct2 [OF a]]]
  let ?t = "remove_hosts (ss_incidents s) hosts" and ?p = "retain_hosts (ss_incident_policy s) hosts"
  have reach: "incident_reachable (?t, ?p)"
    using stepped [OF _ removed] ok by (simp add: store_ok_def)
  have "inventory_ok (s1\<lparr>ss_incidents := t, ss_incident_policy := p\<rparr>)" for t p
    using a by (simp add: inventory_ok_def)
  moreover have "ledger_ok (s1\<lparr>ss_incidents := ?t, ss_incident_policy := ?p\<rparr>)"
    using ok remove_hosts_log [of "ss_incidents s" hosts] d f by (simp add: store_ok_def ledger_ok_def)
  moreover have "tracked_hosts_ok (s1\<lparr>ss_incidents := ?t, ss_incident_policy := ?p\<rparr>)"
    using a d f by (auto simp: tracked_hosts_ok_def remove_hosts_active)
  ultimately have "store_ok (s1\<lparr>ss_incidents := ?t, ss_incident_policy := ?p\<rparr>)"
    using reach d f by (simp add: store_ok_def)
  then have "store_ok (follow_hosts hosts s1)"
    using d f by (simp add: follow_hosts_def)
  then show ?thesis unfolding s' by simp
qed

section \<open>Polling and results\<close>

lemma known_insert: "dget d k \<noteq> None \<Longrightarrow> insert k (fst ` set d) = fst ` set d"
  by (metis dget_None_iff insert_absorb)

lemma inventory_ok_server:
  assumes "inventory_ok s" "dget (ss_servers s) host \<noteq> None" "sv_host state = host"
  shows "inventory_ok (s\<lparr>ss_servers := dset (ss_servers s) host state\<rparr>)"
proof -
  show ?thesis using known_insert [OF assms(2)] assms by (simp add: inventory_ok_def)
qed

lemma store_ok_server:
  assumes "store_ok s" "dget (ss_servers s) host \<noteq> None" "sv_host state = host"
  shows "store_ok (s\<lparr>ss_servers := dset (ss_servers s) host state\<rparr>)"
proof -
  have "insert host (fst ` set (ss_servers s)) = fst ` set (ss_servers s)" by (rule known_insert [OF assms(2)])
  moreover have "ss_servers s \<noteq> []" using assms(2) by auto
  moreover from this have "ss_inventory_initialized s"
    using assms(1) by (simp add: store_ok_def tracked_hosts_ok_def split: if_splits)
  ultimately show ?thesis using assms inventory_ok_server [of s host state]
    by (simp add: store_ok_def ledger_ok_def tracked_hosts_ok_def)
qed

lemma server_host: "store_ok s \<Longrightarrow> dget (ss_servers s) host = Some state \<Longrightarrow> sv_host state = host"
  by (simp add: store_ok_def inventory_ok_def)

lemma store_ok_mark: "store_ok s \<Longrightarrow> store_ok (mark_polling host s)"
  by (auto simp: mark_polling_def server_host split: option.split intro!: store_ok_server)

lemma store_ok_polling:
  assumes "store_ok s"
  shows "store_ok (begin_poll now polled s)" "store_ok (note_poll_cycle now d s)"
    "store_ok (record_poll_cycle now d s)" "store_ok (reschedule_retry now host d s)"
proof -
  have "store_ok (fold mark_polling hosts s)" if "store_ok s" for hosts s
    using that by (induction hosts arbitrary: s) (simp_all add: store_ok_mark)
  then show "store_ok (begin_poll now polled s)" using assms by (simp add: begin_poll_def Let_def)
  have n: "store_ok (note_poll_cycle now d s)" using assms by (simp add: note_poll_cycle_def store_ok_defs)
  then show "store_ok (note_poll_cycle now d s)" "store_ok (record_poll_cycle now d s)"
    by (simp_all add: record_poll_cycle_def)
  show "store_ok (reschedule_retry now host d s)" using assms
    by (auto simp: reschedule_retry_def server_host split: option.split intro!: store_ok_server)
qed

lemma update_ids:
  assumes "incident_reachable (t, p)" "tracker_update h p r t = Inr (created, t', p')"
  shows "map ev_event_id created = [el_next_event_id (tr_log t)..<el_next_event_id (tr_log t')]
    \<and> el_next_event_id (tr_log t) \<le> el_next_event_id (tr_log t')
    \<and> el_version (tr_log t') = el_version (tr_log t) + length created"
proof -
  note ok = reachableD [OF assms(1)]
  obtain c u where
    "tracker_update h p r t = Inr (c, u, snd (conditions p r))" "log_extends (tr_log t) c (tr_log u)"
    by (rule tracker_update_refines [OF ok, of h r]) blast
  then show ?thesis using assms(2) by (simp add: log_extends_def)
qed

lemma update_active:
  assumes "tracker_update h p r t = Inr (created, t', p')"
  shows "fst ` set (tr_active t') = insert (pr_host r) (fst ` set (tr_active t))"
proof -
  obtain w lg where "t' = store_host t (pr_host r) w lg"
    using assms unfolding tracker_update_def tracker_apply_def Let_def
    by (auto split: prod.splits sum.splits if_splits)
  then show ?thesis by (simp add: store_host_def)
qed

text \<open>The stages of \<open>apply\<close>.\<close>

lemma apply_incidents_form:
  assumes "apply_incidents order now r s = Inr (events, s')"
  obtains t p where "tracker_update order (ss_incident_policy s) r (ss_incidents s) = Inr (events, t, p)"
    and "s' = (let s1 = sync_tracker_revision (refresh_startup_action_bindings now r
                 (s\<lparr>ss_incidents := t, ss_incident_policy := p\<rparr>))
      in if active_signature (ss_incidents s) (pr_host r) \<noteq> []
            \<and> active_signature t (pr_host r) \<noteq> active_signature (ss_incidents s) (pr_host r) \<and> events = []
         then s1\<lparr>ss_incident_revision := ss_incident_revision s1 + 1\<rparr> else s1)"
  using assms unfolding apply_incidents_def Let_def by (auto split: sum.splits prod.splits)

lemma store_ok_incidents:
  assumes ok: "store_ok s" and known: "dget (ss_servers s) (pr_host r) \<noteq> None"
    and app: "apply_incidents order now r s = Inr (events, s')"
  shows "store_ok s' \<and> ss_servers s' = ss_servers s \<and> ss_host_incarnations s' = ss_host_incarnations s
    \<and> ss_history s' = ss_history s \<and> ss_next_host_incarnation s' = ss_next_host_incarnation s
    \<and> ss_notification_event_order s' = ss_notification_event_order s
    \<and> ss_notification_event_incarnations s' = ss_notification_event_incarnations s
    \<and> map ev_event_id events = [el_next_event_id (tr_log (ss_incidents s))..<el_next_event_id (tr_log (ss_incidents s'))]
    \<and> el_next_event_id (tr_log (ss_incidents s)) \<le> el_next_event_id (tr_log (ss_incidents s'))"
proof -
  obtain t p where up: "tracker_update order (ss_incident_policy s) r (ss_incidents s) = Inr (events, t, p)"
    and s': "s' = (let s1 = sync_tracker_revision (refresh_startup_action_bindings now r
                 (s\<lparr>ss_incidents := t, ss_incident_policy := p\<rparr>))
      in if active_signature (ss_incidents s) (pr_host r) \<noteq> []
            \<and> active_signature t (pr_host r) \<noteq> active_signature (ss_incidents s) (pr_host r) \<and> events = []
         then s1\<lparr>ss_incident_revision := ss_incident_revision s1 + 1\<rparr> else s1)"
    by (rule apply_incidents_form [OF app])
  have r: "incident_reachable (ss_incidents s, ss_incident_policy s)" using ok by (simp add: store_ok_def)
  have reach: "incident_reachable (t, p)" by (rule stepped [OF r sampled [OF up]])
  note ids = update_ids [OF r up]
  have host: "pr_host r \<in> fst ` set (ss_servers s)" using known by (metis dget_None_iff)
  then have init: "ss_inventory_initialized s" using ok
    by (cases "ss_inventory_initialized s") (simp_all add: store_ok_def tracked_hosts_ok_def)
  let ?s = "s\<lparr>ss_incidents := t, ss_incident_policy := p\<rparr>"
  have "inventory_ok ?s" using ok by (simp add: store_ok_def inventory_ok_def)
  moreover have "ledger_ok ?s" using ok ids by (fastforce simp: store_ok_def ledger_ok_def)
  moreover have "tracked_hosts_ok ?s"
    using ok host init update_active [OF up] by (simp add: store_ok_def tracked_hosts_ok_def)
  moreover have "gpu_ok (ss_gpu s)" using ok by (simp add: store_ok_def)
  ultimately have "store_ok ?s" using reach by (simp add: store_ok_def)
  then have ok1: "store_ok (sync_tracker_revision (refresh_startup_action_bindings now r
      (s\<lparr>ss_incidents := t, ss_incident_policy := p\<rparr>)))" by simp
  have "store_ok (x\<lparr>ss_incident_revision := v\<rparr>) = store_ok x" for x v by (simp add: store_ok_defs)
  with ok1 show ?thesis using ids unfolding s' Let_def by simp
qed

lemma apply_gpu_facts:
  assumes ok: "store_ok s" and app: "apply_gpu order r state s = Inr (r', points, transitions, s')"
  shows "store_ok s' \<and> s' = s\<lparr>ss_gpu := ss_gpu s'\<rparr> \<and> pr_host r' = pr_host r \<and> pr_status r' = pr_status r"
proof -
  have g: "gpu_ok (ss_gpu s)" using ok by (simp add: store_ok_def)
  have put: "store_ok (s\<lparr>ss_gpu := g\<rparr>)" if "gpu_ok g" for g
    using ok that by (simp add: store_ok_def inventory_ok_def ledger_ok_def tracked_hosts_ok_def)
  show ?thesis
  proof (cases "pr_status r = Online")
    case True
    then obtain g where t: "track_gpu_telemetry (st_history_points (ss_settings s))
          (st_process_event_points (ss_settings s)) (st_persistence_enabled (ss_settings s)) order r (ss_gpu s)
          = Inr (points, transitions, g)"
      and s': "s' = s\<lparr>ss_gpu := g\<rparr>" "r' = first_seen_annotated g r"
      using app by (cases "track_gpu_telemetry (st_history_points (ss_settings s))
          (st_process_event_points (ss_settings s)) (st_persistence_enabled (ss_settings s)) order r (ss_gpu s)")
        (auto simp: apply_gpu_def Let_def split: prod.splits)
    show ?thesis using put [OF track_gpu_telemetry_ok [OF g t]] by (simp add: s' first_seen_annotated_def)
  next
    case False
    obtain ts g where inv: "invalidate_process_inventory (st_process_event_points (ss_settings s)) order
        (pr_host r) (ss_gpu s) = (ts, g)" by fastforce
    have "s' = (if st_collection_stale_cycles (ss_settings s) \<le> sv_consecutive_failures state + 1
        then s\<lparr>ss_gpu := g\<rparr> else s)" "r' = r"
      using app False inv by (simp_all add: apply_gpu_def Let_def split: if_splits)
    then show ?thesis using put [OF invalidate_ok [OF g inv]] ok by simp
  qed
qed

lemma apply_history_facts:
  assumes ok: "store_ok s" and app: "apply_history r s = Inr (recorded, s')"
  shows "store_ok s' \<and> s' = s\<lparr>ss_history := ss_history s'\<rparr>"
proof -
  have "s' = s \<or> (\<exists>points p. dget (ss_history s) (pr_host r) = Some points
      \<and> s' = s\<lparr>ss_history := dset (ss_history s) (pr_host r)
          (deque_append (st_history_points (ss_settings s)) points p)\<rparr>)"
    using app unfolding apply_history_def Let_def by (auto split: probe_status.splits option.splits)
  then show ?thesis
  proof (elim disjE exE conjE)
    fix points p assume h: "dget (ss_history s) (pr_host r) = Some points"
      and s': "s' = s\<lparr>ss_history := dset (ss_history s) (pr_host r)
          (deque_append (st_history_points (ss_settings s)) points p)\<rparr>"
    have "insert (pr_host r) (fst ` set (ss_history s)) = fst ` set (ss_history s)"
      using h by (intro known_insert) simp
    then have "inventory_ok s'" using ok unfolding s' store_ok_def inventory_ok_def
      by (simp add: deque_append_def)
    then show ?thesis using ok by (simp add: s' store_ok_def ledger_ok_def tracked_hosts_ok_def)
  qed (use ok in simp)
qed

text \<open>The ledger: every selected event enters it, the oldest leave it.\<close>

lemma note_events_form:
  "fold (note_event i) es s = s\<lparr>ss_notification_event_incarnations :=
      fold (\<lambda>e d. dset d (ev_event_id e) i) es (ss_notification_event_incarnations s),
    ss_notification_event_order := ss_notification_event_order s @ map ev_event_id es\<rparr>"
  by (induction es arbitrary: s) (simp_all add: note_event_def)

lemma fold_dset_keys:
  "fst ` set (fold (\<lambda>e d. dset d (f e) i) es d) = fst ` set d \<union> f ` set es"
  by (induction es arbitrary: d) auto

lemma fold_dpop_keys: "fst ` set (fold (\<lambda>k d. dpop d k) ks d) = fst ` set d - set ks"
  by (induction ks arbitrary: d) auto

lemma notify_events_form:
  assumes "notify_events now host events s = Inr (published, s')"
  shows "s' = s \<or> (\<exists>i. dget (ss_host_incarnations s) host = Some i
    \<and> s' = expire_events (fold (note_event i) (filter (notified now s) events) s))"
  using assms unfolding notify_events_def Let_def sum_bind_def
  by (auto split: if_splits option.splits sum.splits)

lemma store_ok_notify:
  assumes ok: "store_ok s"
    and ids: "\<forall>e \<in> set events. ev_event_id e < el_next_event_id (tr_log (ss_incidents s))"
    and app: "notify_events now host events s = Inr (published, s')"
  shows "store_ok s'"
proof -
  let ?sel = "filter (notified now s) events"
  define ord where "ord = ss_notification_event_order s @ map ev_event_id ?sel"
  define surplus where "surplus = length ord - st_notification_event_capacity (ss_settings s)"
  have "store_ok (expire_events (fold (note_event i) ?sel s))" for i
  proof -
    let ?s = "expire_events (fold (note_event i) ?sel s)"
    have order: "ss_notification_event_order ?s = drop surplus ord"
      and ledger: "ss_notification_event_incarnations ?s = fold (\<lambda>k d. dpop d k) (take surplus ord)
        (fold (\<lambda>e d. dset d (ev_event_id e) i) ?sel (ss_notification_event_incarnations s))"
      by (simp_all add: note_events_form expire_events_def Let_def ord_def surplus_def)
    have "fst ` set (ss_notification_event_incarnations ?s)
        = fst ` set (ss_notification_event_incarnations s) \<union> ev_event_id ` set ?sel - set (take surplus ord)"
      by (simp only: ledger fold_dpop_keys fold_dset_keys)
    moreover have "fst ` set (ss_notification_event_incarnations s) \<union> ev_event_id ` set ?sel \<subseteq> set ord"
      using ok by (auto simp: store_ok_def ledger_ok_def ord_def)
    moreover have "set ord = set (take surplus ord) \<union> set (drop surplus ord)"
      by (metis append_take_drop_id set_append)
    ultimately have "fst ` set (ss_notification_event_incarnations ?s) \<subseteq> set (drop surplus ord)" by blast
    moreover have "\<forall>k \<in> set ord. k < el_next_event_id (tr_log (ss_incidents s))"
      using ok ids by (auto simp: store_ok_def ledger_ok_def ord_def)
    moreover have "length (drop surplus ord) \<le> st_notification_event_capacity (ss_settings s)"
      by (simp add: surplus_def)
    moreover have "set (drop surplus ord) \<subseteq> set ord" by (rule set_drop_subset)
    moreover have "ss_settings ?s = ss_settings s" "ss_incidents ?s = ss_incidents s"
      by (simp_all add: note_events_form expire_events_def Let_def)
    ultimately have "ledger_ok ?s" unfolding ledger_ok_def order by auto
    moreover have "inventory_ok ?s" "tracked_hosts_ok ?s" "gpu_ok (ss_gpu ?s)"
        "incident_reachable (ss_incidents ?s, ss_incident_policy ?s)"
      using ok by (simp_all add: store_ok_def inventory_ok_def tracked_hosts_ok_def note_events_form
        expire_events_def Let_def)
    ultimately show ?thesis by (simp add: store_ok_def)
  qed
  then show ?thesis using notify_events_form [OF app] ok by auto
qed

text \<open>How a step changes the ledger.\<close>

definition next_event_id :: "state_store \<Rightarrow> nat" where
  "next_event_id s = el_next_event_id (tr_log (ss_incidents s))"

text \<open>Only new events enter the ledger, with an incarnation that exists.\<close>

definition enters :: "state_store \<Rightarrow> state_store \<Rightarrow> bool" where
  "enters s s' \<longleftrightarrow> next_event_id s \<le> next_event_id s'
    \<and> (\<forall>e i. dget (ss_notification_event_incarnations s') e = Some i \<longrightarrow>
         dget (ss_notification_event_incarnations s) e = Some i
         \<or> (next_event_id s \<le> e \<and> i < ss_next_host_incarnation s))"

lemma dget_fold_dset: "dget (fold (\<lambda>e d. dset d (f e) i) es d) k = (if k \<in> f ` set es then Some i else dget d k)"
  by (induction es arbitrary: d) auto

lemma dget_fold_dpop: "dget (fold (\<lambda>k d. dpop d k) ks d) k = (if k \<in> set ks then None else dget d k)"
  by (induction ks arbitrary: d) auto

lemma notify_enters:
  assumes "notify_events now host events s = Inr (published, s')"
    and "dget (ss_notification_event_incarnations s') e = Some i"
  shows "dget (ss_notification_event_incarnations s) e = Some i
    \<or> (e \<in> ev_event_id ` set events \<and> dget (ss_host_incarnations s) host = Some i)"
  using notify_events_form [OF assms(1)]
proof (elim disjE exE conjE)
  fix j assume j: "dget (ss_host_incarnations s) host = Some j"
    and s': "s' = expire_events (fold (note_event j) (filter (notified now s) events) s)"
  have "dget (fold (\<lambda>e d. dset d (ev_event_id e) j) (filter (notified now s) events)
      (ss_notification_event_incarnations s)) e = Some i"
    using assms(2) by (simp add: s' note_events_form expire_events_def Let_def dget_fold_dpop split: if_splits)
  then show ?thesis using j by (auto simp: dget_fold_dset split: if_splits)
qed (use assms in simp)

lemma apply_known_stages:
  assumes "apply_known order now r retry_after state s = Inr (effects, s')"
  obtains events s1 r2 points transitions s2 recorded s3 published s4 where
    "apply_incidents order now r s = Inr (events, s1)"
    "apply_gpu order r state
      (s1\<lparr>ss_transport_retries_total := ss_transport_retries_total s1 + pr_transport_retries r\<rparr>)
      = Inr (r2, points, transitions, s2)"
    "apply_history r2 (s2\<lparr>ss_servers := dset (ss_servers s2) (pr_host r2)
       (server_apply state r2 (map_option (utc_after now) retry_after))\<rparr>) = Inr (recorded, s3)"
    "notify_events now (pr_host r2) events s3 = Inr (published, s4)"
    "s' = publish now s4"
    "effects = persist_incidents s1 (pr_host r) events @ recorded
       @ (if st_persistence_enabled (ss_settings s4) \<and> (points \<noteq> [] \<or> transitions \<noteq> [])
          then [Record_Gpu_Telemetry (pr_host r2) points transitions] else []) @ published"
  using assms unfolding apply_known_def sum_bind_def Let_def
  by (auto split: sum.splits prod.splits)

lemma only_gpu:
  assumes "s' = s\<lparr>ss_gpu := g\<rparr>"
  shows "ss_servers s' = ss_servers s" "ss_host_incarnations s' = ss_host_incarnations s"
    "ss_next_host_incarnation s' = ss_next_host_incarnation s" "ss_incidents s' = ss_incidents s"
    "ss_notification_event_incarnations s' = ss_notification_event_incarnations s"
  by (simp_all add: assms)

lemma only_history:
  assumes "s' = s\<lparr>ss_history := h\<rparr>"
  shows "ss_host_incarnations s' = ss_host_incarnations s" "ss_incidents s' = ss_incidents s"
    "ss_next_host_incarnation s' = ss_next_host_incarnation s"
    "ss_notification_event_incarnations s' = ss_notification_event_incarnations s"
  by (simp_all add: assms)

lemma store_ok_retries: "store_ok (s\<lparr>ss_transport_retries_total := n\<rparr>) = store_ok s"
  by (simp add: store_ok_defs)

lemma apply_known_facts:
  assumes ok: "store_ok s" and known: "dget (ss_servers s) (pr_host r) = Some state"
    and app: "apply_known order now r retry_after state s = Inr (effects, s')"
  shows "store_ok s' \<and> ss_next_host_incarnation s' = ss_next_host_incarnation s
    \<and> ss_host_incarnations s' = ss_host_incarnations s \<and> enters s s'"
proof -
  obtain events s1 r2 points transitions s2 recorded s3 published s4 where
    1: "apply_incidents order now r s = Inr (events, s1)" and
    2: "apply_gpu order r state
      (s1\<lparr>ss_transport_retries_total := ss_transport_retries_total s1 + pr_transport_retries r\<rparr>)
      = Inr (r2, points, transitions, s2)" and
    3: "apply_history r2 (s2\<lparr>ss_servers := dset (ss_servers s2) (pr_host r2)
       (server_apply state r2 (map_option (utc_after now) retry_after))\<rparr>) = Inr (recorded, s3)" and
    4: "notify_events now (pr_host r2) events s3 = Inr (published, s4)" and s': "s' = publish now s4"
    by (rule apply_known_stages [OF app])
  let ?s1 = "s1\<lparr>ss_transport_retries_total := ss_transport_retries_total s1 + pr_transport_retries r\<rparr>"
  let ?s2 = "s2\<lparr>ss_servers := dset (ss_servers s2) (pr_host r2)
       (server_apply state r2 (map_option (utc_after now) retry_after))\<rparr>"
  have f1: "store_ok s1 \<and> ss_servers s1 = ss_servers s \<and> ss_host_incarnations s1 = ss_host_incarnations s
    \<and> ss_history s1 = ss_history s \<and> ss_next_host_incarnation s1 = ss_next_host_incarnation s
    \<and> ss_notification_event_order s1 = ss_notification_event_order s
    \<and> ss_notification_event_incarnations s1 = ss_notification_event_incarnations s
    \<and> map ev_event_id events = [el_next_event_id (tr_log (ss_incidents s))..<el_next_event_id (tr_log (ss_incidents s1))]
    \<and> el_next_event_id (tr_log (ss_incidents s)) \<le> el_next_event_id (tr_log (ss_incidents s1))"
    by (rule store_ok_incidents [OF ok _ 1]) (simp add: known)
  then have "store_ok ?s1" by (simp add: store_ok_retries)
  note f2 = apply_gpu_facts [OF this 2]
  have eq2: "ss_servers s2 = ss_servers s" "ss_host_incarnations s2 = ss_host_incarnations s"
    "ss_next_host_incarnation s2 = ss_next_host_incarnation s" "ss_incidents s2 = ss_incidents s1"
    "ss_notification_event_incarnations s2 = ss_notification_event_incarnations s"
    using f1 only_gpu [OF conjunct1 [OF conjunct2 [OF f2]]] by simp_all
  have host: "pr_host r2 = pr_host r" using f2 by blast
  have "store_ok ?s2" by (rule store_ok_server) (use f2 eq2 host known server_host [OF ok known] in simp_all)
  note f3 = apply_history_facts [OF this 3]
  have eq3: "ss_host_incarnations s3 = ss_host_incarnations s" "ss_incidents s3 = ss_incidents s1"
    "ss_next_host_incarnation s3 = ss_next_host_incarnation s"
    "ss_notification_event_incarnations s3 = ss_notification_event_incarnations s"
    using eq2 only_history [OF conjunct2 [OF f3]] by simp_all
  have ids: "\<forall>e \<in> set events. ev_event_id e < el_next_event_id (tr_log (ss_incidents s3))"
  proof
    fix e assume "e \<in> set events"
    then have "ev_event_id e \<in> set (map ev_event_id events)" by simp
    also have "map ev_event_id events
        = [el_next_event_id (tr_log (ss_incidents s))..<el_next_event_id (tr_log (ss_incidents s1))]" using f1 by blast
    finally show "ev_event_id e < el_next_event_id (tr_log (ss_incidents s3))" by (simp add: eq3)
  qed
  have "store_ok s4" by (rule store_ok_notify [OF _ ids 4]) (use f3 in blast)
  moreover have "ss_host_incarnations s4 = ss_host_incarnations s3" "ss_incidents s4 = ss_incidents s3"
      "ss_next_host_incarnation s4 = ss_next_host_incarnation s3"
    using notify_events_form [OF 4] by (auto simp: note_events_form expire_events_def Let_def)
  moreover have "dget (ss_notification_event_incarnations s) e = Some i
      \<or> next_event_id s \<le> e \<and> i < ss_next_host_incarnation s"
    if "dget (ss_notification_event_incarnations s4) e = Some i" for e i
    using notify_enters [OF 4 that]
  proof (elim disjE conjE)
    assume "e \<in> ev_event_id ` set events" and i: "dget (ss_host_incarnations s3) (pr_host r2) = Some i"
    then have "e \<in> set (map ev_event_id events)" by simp
    then have "next_event_id s \<le> e" using f1 by (simp add: next_event_id_def)
    moreover have "i < ss_next_host_incarnation s" using i eq3 ok by (simp add: store_ok_def inventory_ok_def)
    ultimately show ?thesis by simp
  qed (simp add: eq3)
  ultimately show ?thesis using eq3 s' f1 by (simp add: enters_def next_event_id_def)
qed

lemma note_poll_cycle_fields [simp]:
  "ss_servers (note_poll_cycle now d s) = ss_servers s"
  "ss_host_incarnations (note_poll_cycle now d s) = ss_host_incarnations s"
  "ss_next_host_incarnation (note_poll_cycle now d s) = ss_next_host_incarnation s"
  by (simp_all add: note_poll_cycle_def)

lemma apply_result_cases:
  assumes "apply_result order now r retry_after poll_cycle incarnation s = Inr (ok, effects, s')"
  obtains (ignored) "\<not> ok" "effects = []"
      "s' = (case poll_cycle of None \<Rightarrow> s | Some d \<Rightarrow> publish now (note_poll_cycle now d s))"
      "dget (ss_servers s) (pr_host r) = None \<or> \<not> expected_host r incarnation s"
    | (applied) state s0 where "ok" "s0 = (case poll_cycle of None \<Rightarrow> s | Some d \<Rightarrow> note_poll_cycle now d s)"
      "dget (ss_servers s) (pr_host r) = Some state" "expected_host r incarnation s"
      "apply_known order now r retry_after state s0 = Inr (effects, s')"
proof -
  define s0 where "s0 = (case poll_cycle of None \<Rightarrow> s | Some d \<Rightarrow> note_poll_cycle now d s)"
  have f: "ss_servers s0 = ss_servers s" "expected_host r incarnation s0 = expected_host r incarnation s"
    by (simp_all add: s0_def expected_host_def split: option.split)
  have a: "(case dget (ss_servers s0) (pr_host r) of
          None \<Rightarrow> Inr (False, [], if poll_cycle = None then s0 else publish now s0)
        | Some state \<Rightarrow>
            if \<not> expected_host r incarnation s0
            then Inr (False, [], if poll_cycle = None then s0 else publish now s0)
            else sum_bind (apply_known order now r retry_after state s0) (\<lambda>(effects, s).
                   Inr (True, effects, s))) = Inr (ok, effects, s')"
    using assms unfolding apply_result_def Let_def s0_def .
  have p: "(if poll_cycle = None then s0 else publish now s0)
      = (case poll_cycle of None \<Rightarrow> s | Some d \<Rightarrow> publish now (note_poll_cycle now d s))"
    by (simp add: s0_def split: option.split)
  show thesis
  proof (cases "dget (ss_servers s) (pr_host r)")
    case None
    then show ?thesis using a p by (intro ignored) (simp_all add: f)
  next
    case (Some state)
    show ?thesis
    proof (cases "expected_host r incarnation s")
      case False
      then show ?thesis using a p Some by (intro ignored) (simp_all add: f)
    next
      case True
      then have "sum_bind (apply_known order now r retry_after state s0) (\<lambda>(effects, s). Inr (True, effects, s))
          = Inr (ok, effects, s')" using a Some by (simp add: f)
      then have "ok" "apply_known order now r retry_after state s0 = Inr (effects, s')"
        by (auto simp: sum_bind_def split: sum.splits prod.splits)
      then show ?thesis using applied [OF _ s0_def Some True] by blast
    qed
  qed
qed

lemma apply_result_facts:
  assumes ok: "store_ok s"
    and app: "apply_result order now r retry_after poll_cycle incarnation s = Inr (accepted, effects, s')"
  shows "store_ok s' \<and> ss_next_host_incarnation s' = ss_next_host_incarnation s
    \<and> ss_host_incarnations s' = ss_host_incarnations s"
  using app
proof (cases rule: apply_result_cases)
  case ignored
  then show ?thesis using ok by (cases poll_cycle) (simp_all add: store_ok_polling)
next
  case (applied state s0)
  have "store_ok s0" using ok applied(2) by (cases poll_cycle) (simp_all add: store_ok_polling)
  moreover have "ss_servers s0 = ss_servers s" "ss_host_incarnations s0 = ss_host_incarnations s"
    "ss_next_host_incarnation s0 = ss_next_host_incarnation s"
    using applied(2) by (cases poll_cycle; simp)+
  ultimately show ?thesis using apply_known_facts [OF _ _ applied(5)] applied(3) by simp
qed

section \<open>Every run keeps the invariant\<close>

lemma store_step_ok:
  assumes "store_step render s s'" "store_ok s"
  shows "store_ok s'"
  using assms
proof cases
  case hosts
  then show ?thesis using assms(2) store_ok_hosts by blast
next
  case collector
  then show ?thesis using assms(2) store_ok_settings by blast
next
  case interval
  then show ?thesis using assms(2) store_ok_interval by blast
next
  case gpu_counts
  then show ?thesis using assms(2) store_ok_policies by blast
next
  case maintenance
  then show ?thesis using assms(2) store_ok_settings by blast
next
  case actions
  then show ?thesis using assms(2) store_ok_settings by blast
next
  case names
  then show ?thesis using assms(2) store_ok_settings by blast
next
  case groups
  then show ?thesis using assms(2) store_ok_policies by blast
next
  case overrides
  then show ?thesis using assms(2) store_ok_policies by blast
next
  case topology
  then show ?thesis using assms(2) store_ok_topology by blast
next
  case polling
  then show ?thesis using assms(2) store_ok_polling by blast
next
  case cycle
  then show ?thesis using assms(2) store_ok_polling by blast
next
  case retry
  then show ?thesis using assms(2) store_ok_polling by blast
next
  case result
  then show ?thesis using assms(2) apply_result_facts by blast
next
  case reading
  then show ?thesis using assms(2) by simp
next
  case adapters
  then show ?thesis using assms(2) by simp
next
  case projecting
  then show ?thesis using assms(2) by simp
qed

lemma store_run_ok: "store_run render s s' \<Longrightarrow> store_ok s \<Longrightarrow> store_ok s'"
  by (induction rule: rtranclp_induct) (auto intro: store_step_ok)

lemma new_state_store_ok:
  assumes "new_state_store render now app_version enabled records statuses config loaded = Inr s"
    and "sorted_wrt (<) (map ev_event_id (lt_incident_events loaded))"
  shows "store_ok s"
proof -
  obtain g c where g: "restored_gpu_store render (mc_history_points config) (mc_incident_history_points config)
      (lt_gpu_history loaded) (lt_process_events loaded) = Inr g"
    and c: "create_incident_correlator (mc_topology config) = Some c"
    using assms(1) unfolding new_state_store_def Let_def by (auto split: sum.splits option.splits)
  note s = assms(1) [unfolded new_state_store_def Let_def g c, simplified, symmetric]
  have "gpu_ok g" by (rule restored_ok [OF g])
  moreover have "incident_reachable (ss_incidents s, ss_incident_policy s)"
    using started [OF assms(2), of "mc_thresholds config" "mc_expected_gpu_counts config" "Some (mc_incidents config)"]
    by (simp add: s)
  ultimately show ?thesis unfolding store_ok_def inventory_ok_def ledger_ok_def tracked_hosts_ok_def
    by (simp add: s)
qed

end
