(* ===== verification/Store_Incarnations.thy ===== *)
theory Store_Incarnations
  imports Store_Runs
begin

text \<open>
  What the incarnations of hosts are for: a result or a notification that belongs to a host that has
  been removed since, even if a host of the same name is monitored again, has no effect.
\<close>

section \<open>How a step changes incarnations and the ledger\<close>

text \<open>A host keeps its incarnation or gets a new one.\<close>

definition renews :: "state_store \<Rightarrow> state_store \<Rightarrow> bool" where
  "renews s s' \<longleftrightarrow> ss_next_host_incarnation s \<le> ss_next_host_incarnation s'
    \<and> (\<forall>h i. dget (ss_host_incarnations s') h = Some i \<longrightarrow>
         dget (ss_host_incarnations s) h = Some i \<or> ss_next_host_incarnation s \<le> i)"

lemma renews_trans:
  assumes "renews s s'" "renews s' s''"
  shows "renews s s''"
  using assms unfolding renews_def by (meson le_trans)

lemma renews_refl [simp]: "renews s s"
  by (simp add: renews_def)

lemma enters_trans:
  assumes "enters s s'" "enters s' s''" "ss_next_host_incarnation s' = ss_next_host_incarnation s"
  shows "enters s s''"
  using assms unfolding enters_def by (metis le_trans)

definition quiet :: "state_store \<Rightarrow> state_store \<Rightarrow> bool" where
  "quiet s s' \<longleftrightarrow> ss_host_incarnations s' = ss_host_incarnations s
    \<and> ss_next_host_incarnation s' = ss_next_host_incarnation s
    \<and> ss_notification_event_incarnations s' = ss_notification_event_incarnations s
    \<and> ss_incidents s' = ss_incidents s"

lemma quiet_renews: "quiet s s' \<Longrightarrow> renews s s' \<and> enters s s'"
  by (simp add: quiet_def renews_def enters_def next_event_id_def)

lemma quiet_publish [simp]: "quiet s (publish now s') = quiet s s'"
  by (simp add: quiet_def)

lemma quiet_settings:
  "quiet s (set_collector_error now message s)" "quiet s (set_maintenance_windows now windows s)"
  "quiet s (set_incident_actions now acts s)" "quiet s (set_host_display_names now names s)"
  "quiet s (update_store_gpu_counts expected s)" "quiet s (set_host_groups now groups s)"
  "quiet s (set_incident_overrides now ho go groups s)" "quiet s (reschedule_retry now host d s)"
  "quiet s (refresh_expiries now s)" "quiet s (refresh_adapter_status statuses s)"
  "quiet s (note_poll_cycle now d s)" "quiet s (record_poll_cycle now d s)"
  by (simp_all add: set_collector_error_def set_maintenance_windows_def set_incident_actions_def
    set_host_display_names_def update_store_gpu_counts_def set_host_groups_def set_incident_overrides_def
    reschedule_retry_def refresh_expiries_def refresh_adapter_status_def record_poll_cycle_def Let_def
    split: option.split) (simp_all add: quiet_def note_poll_cycle_def)

lemma quiet_mark: "quiet s (fold mark_polling hosts s)"
proof -
  have m: "quiet s s' \<Longrightarrow> quiet s (mark_polling host s')" for s s' host
    by (simp add: quiet_def mark_polling_def split: option.split)
  have "quiet s s' \<Longrightarrow> quiet s (fold mark_polling hosts s')" for s'
    by (induction hosts arbitrary: s') (simp_all add: m)
  then show ?thesis by (simp add: quiet_def)
qed

lemma quiet_polling: "quiet s (begin_poll now hosts s)"
  using quiet_mark [of s hosts] by (simp add: begin_poll_def Let_def) (simp add: quiet_def)

lemma quiet_projecting: "quiet s (snd (snapshot_locked render now statuses s))"
  by (simp add: quiet_def snapshot_locked_def refresh_adapter_status_def Let_def split: option.split)

lemma quiet_interval:
  assumes "set_poll_interval_seconds now v s = Inr (x, s')"
  shows "quiet s s'"
  using interval_form [OF assms] by (auto simp: quiet_def)

lemma quiet_topology:
  assumes "set_topology now t s = Inr s'"
  shows "quiet s s'"
  using topology_form [OF assms] by (auto simp: quiet_def)

lemma add_hosts_renews:
  assumes "add_hosts render hosts s = Inr (added, s')"
  shows "renews s s'"
  using assms
proof (induction hosts arbitrary: s added)
  case (Cons host hosts)
  show ?case
  proof (cases "dget (ss_servers s) host")
    case None
    then obtain s1 changed where one: "add_host render host s = Inr s1"
      and rest: "add_hosts render hosts s1 = Inr (changed, s')"
      using Cons.prems by (auto simp: sum_bind_def split: sum.splits)
    obtain points where s1: "s1 = s\<lparr>ss_servers := dset (ss_servers s) host (new_server host),
        ss_host_incarnations := dset (ss_host_incarnations s) host (ss_next_host_incarnation s),
        ss_next_host_incarnation := ss_next_host_incarnation s + 1,
        ss_restored_history := dpop (ss_restored_history s) host,
        ss_history := dset (ss_history s) host (deque_of (st_history_points (ss_settings s)) points)\<rparr>"
      using one by (auto simp: add_host_def split: sum.splits)
    have "renews s s1" by (simp add: s1 renews_def)
    then show ?thesis using Cons.IH [OF rest] renews_trans by blast
  qed (use Cons in auto)
qed simp

text \<open>After \<open>set_hosts\<close> exactly its hosts are monitored; it cannot fail when no history waits to be restored.\<close>

lemma set_hosts_monitors:
  assumes ok: "store_ok s" and set_hosts: "set_hosts render now hosts s = Inr s'"
  shows "fst ` set (ss_servers s') = set hosts"
proof -
  obtain added s1 where add: "add_hosts render hosts (departed hosts s) = Inr (added, s1)"
    and s': "s' = (if filter (\<lambda>h. h \<notin> set hosts) (keys (ss_servers s)) \<noteq> [] \<or> added
               then publish now (follow_hosts hosts s1) else follow_hosts hosts s1)"
    by (rule set_hosts_stages [OF set_hosts])
  note d = departed_facts [OF ok, of hosts]
  have "ss_servers s' = ss_servers s1" by (simp add: s' follow_hosts_def)
  then show ?thesis using add_hosts_facts [OF d(1) add] d(4) by auto
qed

lemma add_hosts_total:
  "ss_restored_history s = [] \<Longrightarrow>
    \<exists>added s'. add_hosts render hosts s = Inr (added, s') \<and> ss_restored_history s' = []"
proof (induction hosts arbitrary: s)
  case Nil
  then show ?case by (intro exI [of _ False] exI [of _ s]) simp
next
  case (Cons host hosts)
  show ?case
  proof (cases "dget (ss_servers s) host")
    case None
    obtain s1 where one: "add_host render host s = Inr s1" "ss_restored_history s1 = []"
      using Cons.prems by (simp add: add_host_def)
    obtain added s' where "add_hosts render hosts s1 = Inr (added, s')" "ss_restored_history s' = []"
      using Cons.IH [OF one(2)] by blast
    then show ?thesis using None one by (intro exI [of _ True] exI [of _ s']) simp
  qed (use Cons in simp)
qed

lemma set_hosts_total:
  assumes "ss_restored_history s = []"
  shows "\<exists>s'. set_hosts render now hosts s = Inr s' \<and> ss_restored_history s' = []"
proof -
  have "ss_restored_history (departed hosts s) = []"
    using assms by (simp add: departed_def Let_def drop_hosts_def drestrict_def)
  then obtain added s1 where a: "add_hosts render hosts (departed hosts s) = Inr (added, s1)" "ss_restored_history s1 = []"
    using add_hosts_total by blast
  have f: "set_hosts render now hosts s = sum_bind (add_hosts render hosts (departed hosts s)) (\<lambda>(added, s1).
      Inr (if filter (\<lambda>h. h \<notin> set hosts) (keys (ss_servers s)) \<noteq> [] \<or> added
           then publish now (follow_hosts hosts s1) else follow_hosts hosts s1))"
    unfolding set_hosts_def departed_def follow_hosts_def Let_def ..
  have "ss_restored_history (follow_hosts hosts s1) = []" "ss_restored_history (publish now x) = ss_restored_history x" for x
    using a(2) by (simp_all add: follow_hosts_def sync_tracker_revision_def publish_def
      refresh_maintenance_expiry_def Let_def)
  then show ?thesis unfolding f a(1) by simp
qed

lemma hosts_step:
  assumes ok: "store_ok s" and set_hosts: "set_hosts render now hosts s = Inr s'"
  shows "renews s s' \<and> enters s s'"
proof -
  obtain added s1 where add: "add_hosts render hosts (departed hosts s) = Inr (added, s1)"
    and s': "s' = (if filter (\<lambda>h. h \<notin> set hosts) (keys (ss_servers s)) \<noteq> [] \<or> added
               then publish now (follow_hosts hosts s1) else follow_hosts hosts s1)"
    by (rule set_hosts_stages [OF set_hosts])
  note d = departed_facts [OF ok, of hosts]
  note f = same_but_inventory_fields [OF conjunct1 [OF conjunct2 [OF add_hosts_facts [OF d(1) add]]]]
  have inc: "ss_host_incarnations (departed hosts s) =
      drestrict (\<lambda>h. h \<notin> set (filter (\<lambda>h. h \<notin> set hosts) (keys (ss_servers s)))) (ss_host_incarnations s)"
    and nxt: "ss_next_host_incarnation (departed hosts s) = ss_next_host_incarnation s"
    by (cases "filter (\<lambda>h. h \<notin> set hosts) (keys (ss_servers s)) = []"; cases "ss_inventory_initialized s";
        simp add: departed_def Let_def drop_hosts_def del: set_filter set_map)+
  have "renews s (departed hosts s)" by (simp add: renews_def inc nxt)
  then have "renews s s1" by (rule renews_trans [OF _ add_hosts_renews [OF add]])
  moreover have "ss_host_incarnations s' = ss_host_incarnations s1"
    "ss_next_host_incarnation s' = ss_next_host_incarnation s1"
    "ss_notification_event_incarnations s' = ss_notification_event_incarnations s"
    "ss_incidents s' = remove_hosts (ss_incidents s) hosts"
    using d f by (simp_all add: s' follow_hosts_def)
  ultimately show ?thesis using remove_hosts_log [of "ss_incidents s" hosts]
    by (simp add: renews_def enters_def next_event_id_def)
qed

lemma result_step:
  assumes ok: "store_ok s"
    and app: "apply_result order now r retry_after poll_cycle incarnation s = Inr (accepted, effects, s')"
  shows "renews s s' \<and> enters s s'"
proof
  show "renews s s'" using apply_result_facts [OF assms] by (simp add: renews_def)
  show "enters s s'"
    using app
  proof (cases rule: apply_result_cases)
    case ignored
    then have "quiet s s'" using quiet_settings(11) [of s] by (cases poll_cycle) (simp_all add: quiet_def)
    then show ?thesis using quiet_renews by blast
  next
    case (applied state s0)
    have q: "quiet s s0" using applied(2) quiet_settings(11) [of s] by (cases poll_cycle) (simp_all add: quiet_def)
    have "store_ok s0" using ok applied(2) by (cases poll_cycle) (simp_all add: store_ok_polling)
    moreover have "ss_servers s0 = ss_servers s" using applied(2) by (cases poll_cycle; simp)
    ultimately have "enters s0 s'" using apply_known_facts [OF _ _ applied(5)] applied(3) by simp
    then show ?thesis using q by (simp add: enters_def quiet_def next_event_id_def)
  qed
qed

lemma store_step_renews:
  assumes "store_step render s s'" "store_ok s"
  shows "renews s s' \<and> enters s s'"
  using assms(1)
proof cases
  case hosts
  then show ?thesis using assms(2) hosts_step by blast
next
  case result
  then show ?thesis using assms(2) result_step by blast
next
  case interval
  then show ?thesis using quiet_interval quiet_renews by blast
next
  case topology
  then show ?thesis using quiet_topology quiet_renews by blast
qed (simp_all add: quiet_settings quiet_polling quiet_projecting quiet_renews)

lemma store_run_renews:
  assumes "store_run render s s'" "store_ok s"
  shows "renews s s'"
  using assms
proof (induction rule: rtranclp_induct)
  case (step y z)
  then show ?case using store_step_renews [OF step.hyps(2)] store_run_ok [OF step.hyps(1)] renews_trans by blast
qed simp

text \<open>An event numbered before a run is in the ledger after it only if it was before it.\<close>

lemma store_run_old_events:
  assumes "store_run render s s'" "store_ok s" "e < next_event_id s"
    "dget (ss_notification_event_incarnations s') e = Some i"
  shows "dget (ss_notification_event_incarnations s) e = Some i"
proof -
  have "next_event_id s \<le> next_event_id s'
    \<and> (\<forall>e i. e < next_event_id s \<longrightarrow> dget (ss_notification_event_incarnations s') e = Some i
        \<longrightarrow> dget (ss_notification_event_incarnations s) e = Some i)"
    using assms(1,2)
  proof (induction rule: rtranclp_induct)
    case (step y z)
    have e: "enters y z" using store_step_renews [OF step.hyps(2)] store_run_ok [OF step.hyps(1) step.prems] by blast
    show ?case
    proof (intro conjI allI impI)
      show "next_event_id s \<le> next_event_id z" using step e by (simp add: enters_def)
    next
      fix k j assume k: "k < next_event_id s" "dget (ss_notification_event_incarnations z) k = Some j"
      then have "dget (ss_notification_event_incarnations y) k = Some j"
        using e step.IH [OF step.prems] unfolding enters_def by (meson leD le_trans)
      then show "dget (ss_notification_event_incarnations s) k = Some j" using step.IH [OF step.prems] k by blast
    qed
  qed simp
  then show ?thesis using assms by blast
qed

lemma store_run_ledger:
  assumes "store_run render s s'" "store_ok s"
    "\<forall>e i. dget (ss_notification_event_incarnations s) e = Some i \<longrightarrow> i < ss_next_host_incarnation s"
  shows "\<forall>e i. dget (ss_notification_event_incarnations s') e = Some i \<longrightarrow> i < ss_next_host_incarnation s'"
  using assms
proof (induction rule: rtranclp_induct)
  case (step y z)
  have e: "renews y z \<and> enters y z"
    using store_step_renews [OF step.hyps(2)] store_run_ok [OF step.hyps(1) step.prems(1)] by blast
  have ih: "\<forall>e i. dget (ss_notification_event_incarnations y) e = Some i \<longrightarrow> i < ss_next_host_incarnation y"
    by (rule step.IH [OF step.prems])
  show ?case
  proof (intro allI impI)
    fix k j assume "dget (ss_notification_event_incarnations z) k = Some j"
    then have "j < ss_next_host_incarnation y" using e ih unfolding enters_def by meson
    then show "j < ss_next_host_incarnation z" using e unfolding renews_def by simp
  qed
qed

text \<open>A host that is not monitored now gets an incarnation that no earlier one equals.\<close>

lemma fresh_incarnation:
  assumes "store_ok s" "dget (ss_servers s) host = None" "store_run render s s'"
    and "i < ss_next_host_incarnation s"
  shows "dget (ss_host_incarnations s') host \<noteq> Some i"
proof
  assume a: "dget (ss_host_incarnations s') host = Some i"
  have "host \<notin> fst ` set (ss_host_incarnations s)"
    using assms(1,2) by (simp add: store_ok_def inventory_ok_def dget_None_iff)
  then have "dget (ss_host_incarnations s) host = None" by (simp add: dget_None_iff)
  then have "ss_next_host_incarnation s \<le> i"
    using store_run_renews [OF assms(3,1)] a unfolding renews_def by fastforce
  then show False using assms(4) by simp
qed

lemma new_store_ledger:
  assumes "new_state_store render now app_version enabled records statuses config loaded = Inr s"
  shows "ss_notification_event_incarnations s = []"
  using assms unfolding new_state_store_def Let_def by (auto split: sum.splits option.splits)

section \<open>What every run promises\<close>

text \<open>C30. After any run of the service the store is consistent: the monitored hosts, those with an
  incarnation and those with a history are the same, no two hosts share an incarnation, the host
  histories and the ledger of notified events are within their bounds, the tracker and its policy are
  a reachable state of their own machine and the per-GPU state satisfies its invariant, so what is
  proved of every such state holds of the store's. From the first inventory on (before it a new store
  monitors no host, but may hold the open incidents it restored) only monitored hosts have incidents.\<close>

theorem store_consistent:
  assumes "new_state_store render now app_version enabled records statuses config loaded = Inr s0"
    and "sorted_wrt (<) (map ev_event_id (lt_incident_events loaded))"
    and "store_run render s0 s"
  shows "fst ` set (ss_host_incarnations s) = fst ` set (ss_servers s)
    \<and> fst ` set (ss_history s) = fst ` set (ss_servers s)
    \<and> (dget (ss_host_incarnations s) h = Some i \<and> dget (ss_host_incarnations s) h' = Some i \<longrightarrow> h = h')
    \<and> length (dget_or [] (ss_history s) h) \<le> st_history_points (ss_settings s)
    \<and> length (ss_notification_event_order s) \<le> st_notification_event_capacity (ss_settings s)
    \<and> fst ` set (ss_notification_event_incarnations s) \<subseteq> set (ss_notification_event_order s)
    \<and> (ss_inventory_initialized s \<longrightarrow> fst ` set (tr_active (ss_incidents s)) \<subseteq> fst ` set (ss_servers s))
    \<and> incident_reachable (ss_incidents s, ss_incident_policy s) \<and> gpu_ok (ss_gpu s)"
proof -
  have ok: "store_ok s" by (rule store_run_ok [OF assms(3) new_state_store_ok [OF assms(1,2)]])
  then have "length (dget_or [] (ss_history s) h) \<le> st_history_points (ss_settings s)"
    by (simp add: store_ok_def inventory_ok_def dget_or_def split: option.split)
  moreover have "h = h'" if "dget (ss_host_incarnations s) h = Some i" "dget (ss_host_incarnations s) h' = Some i"
    using ok that unfolding store_ok_def inventory_ok_def by blast
  ultimately show ?thesis using ok
    by (simp add: store_ok_def inventory_ok_def ledger_ok_def tracked_hosts_ok_def)
qed

text \<open>C31. A probe that was started for a host that has been removed since leaves no trace, even when a
  host of that name is monitored again by then: its result is refused and changes nothing but the record
  of the poll cycle it completes.\<close>

theorem removed_host_results_discarded:
  assumes "new_state_store render now app_version enabled records statuses config loaded = Inr s0"
    and "sorted_wrt (<) (map ev_event_id (lt_incident_events loaded))"
    and "store_run render s0 s1" "dget (ss_host_incarnations s1) (pr_host r) = Some i"
    and "store_run render s1 s2" "dget (ss_servers s2) (pr_host r) = None" "store_run render s2 s3"
  shows "apply_result order later r retry_after poll_cycle (Some i) s3 =
    Inr (False, [], case poll_cycle of None \<Rightarrow> s3 | Some d \<Rightarrow> publish later (note_poll_cycle later d s3))"
proof -
  have ok1: "store_ok s1" by (rule store_run_ok [OF assms(3) new_state_store_ok [OF assms(1,2)]])
  have ok2: "store_ok s2" by (rule store_run_ok [OF assms(5) ok1])
  have "i < ss_next_host_incarnation s1" using ok1 assms(4) by (simp add: store_ok_def inventory_ok_def)
  also have "\<dots> \<le> ss_next_host_incarnation s2" using store_run_renews [OF assms(5) ok1] by (simp add: renews_def)
  finally have "dget (ss_host_incarnations s3) (pr_host r) \<noteq> Some i"
    by (rule fresh_incarnation [OF ok2 assms(6,7)])
  then have "\<not> expected_host r (Some i) s3" by (simp add: expected_host_def)
  then show ?thesis
    by (cases poll_cycle; cases "dget (ss_servers s3) (pr_host r)")
      (simp_all add: apply_result_def expected_host_def Let_def)
qed

text \<open>C32. No alert reaches a receiver for a host that has been removed: an event that was numbered before
  the removal is not actionable at delivery time, whatever happens afterwards, unless it reports a
  resolution.\<close>

theorem removed_host_never_alerts:
  assumes "new_state_store render now app_version enabled records statuses config loaded = Inr s0"
    and "sorted_wrt (<) (map ev_event_id (lt_incident_events loaded))"
    and "store_run render s0 s1" "ev_event_id e < el_next_event_id (tr_log (ss_incidents s1))"
    and "dget (ss_servers s1) (ev_host e) = None" "store_run render s1 s2" "ev_state e \<noteq> Resolved"
  shows "\<not> notification_event_actionable later s2 e"
proof
  assume "notification_event_actionable later s2 e"
  then obtain i where i: "dget (ss_notification_event_incarnations s2) (ev_event_id e) = Some i"
    "dget (ss_host_incarnations s2) (ev_host e) = Some i"
    using assms(7) by (auto simp: notification_event_actionable_def split: option.splits)
  have ok0: "store_ok s0" by (rule new_state_store_ok [OF assms(1,2)])
  have ok1: "store_ok s1" by (rule store_run_ok [OF assms(3) ok0])
  have "dget (ss_notification_event_incarnations s1) (ev_event_id e) = Some i"
    by (rule store_run_old_events [OF assms(6) ok1 _ i(1)]) (use assms(4) in \<open>simp add: next_event_id_def\<close>)
  then have "i < ss_next_host_incarnation s1"
    using store_run_ledger [OF assms(3) ok0] new_store_ledger [OF assms(1)] by simp
  then show False using fresh_incarnation [OF ok1 assms(5,6)] i(2) by blast
qed

section \<open>A concrete run\<close>

text \<open>A host is monitored, fails a probe, is removed and monitored again.\<close>

definition nothing_loaded :: loaded_telemetry where
  "nothing_loaded = \<lparr>lt_history = [], lt_incident_events = [], lt_gpu_history = [], lt_process_events = [],
    lt_open_incidents = []\<rparr>"

definition example_failure :: probe_result where
  "example_failure = \<lparr>pr_host = ''n1'', pr_status = Unreachable, pr_latency_ms = 0, pr_gpus = [],
    pr_message = Some ''timed out'', pr_observed_at = ''2024-01-01T00:00:00Z'', pr_system = None,
    pr_transport_retries = 0\<rparr>"

definition example_event :: event where
  "example_event = \<lparr>ev_event_id = 1, ev_host = ''n1'', ev_condition =
      connectivity_condition default_incidents example_failure, ev_state = Opened,
    ev_observed_at = ''2024-01-01T00:00:00Z''\<rparr>"

definition store_example :: "store_error + (state_store \<times> state_store \<times> state_store)" where
  "store_example =
    sum_bind (new_state_store (\<lambda>_. []) 0 ''1'' True True (PNone, PNone) (example_config 1) nothing_loaded) (\<lambda>s0.
    sum_bind (set_hosts (\<lambda>_. []) 0 [''n1''] s0) (\<lambda>s1.
    sum_bind (apply_result (\<lambda>_. 0) 0 example_failure None None (Some 1) s1) (\<lambda>(ok, effects, s2).
      Inr (s0, s1, s2))))"

text \<open>Without a topology there is always an answer.\<close>

definition correlated :: "state_store \<Rightarrow> obj list \<Rightarrow> correlation list" where
  "correlated s items = (case correlate_store s items of Inl e \<Rightarrow> [] | Inr cs \<Rightarrow> cs)"

lemma correlate_bind: "ss_topology s = None \<Longrightarrow> sum_bind (correlate_store s items) f = f (correlated s items)"
  by (simp add: correlated_def correlate_store_def create_incident_correlator_def correlate_composite_def)

lemma sum_bind_first: "x = y \<Longrightarrow> sum_bind x f = sum_bind y f"
  by simp

lemmas example_store_defs = Let_def dget_or_def dict_of_def dmerge_def drestrict_def deque_of_def deque_append_def slice_last_def
  new_state_store_def nothing_loaded_def example_config_def restored_gpu_store_def latest_gpus_def
  bounded_restored_gpu_keys_def restored_rings_def restored_identities_def create_incident_correlator_def
  new_policy_def new_tracker_def keyed_actions_def host_display_names_def default_incidents_def
  set_hosts_def drop_hosts_def add_host_def forget_hosts_def new_server_def remove_hosts_def remove_host_def
  retain_hosts_def sync_tracker_revision_def publish_def refresh_maintenance_expiry_def

lemmas example_apply_defs = apply_result_def expected_host_def apply_known_def apply_incidents_def
  apply_gpu_def apply_history_def notify_events_def notified_def persist_incidents_def expire_events_def
  note_event_def invalidate_process_inventory_def close_restored_inventory_def server_apply_def
  refresh_startup_action_bindings_def binding_keys_def active_maintenance_def condition_is_silenced_def
  active_incident_actions_def notification_event_actionable_def

lemmas example_tracker_defs = tracker_update_def tracker_apply_def conditions_def load_host_def store_host_def
  prepare_def confirming_def connectivity_condition_def mk_condition_def step_observed_def step_inactive_def
  emit_def append_event_def sustained_def thresholds_for_def fresh_thresholds_def group_override_for_def
  excluded_disk_mounts_def fresh_exclusions_def active_signature_def has_active_condition_def
  observed_domains_def

lemma store_example_value:
  "(case store_example of Inl e \<Rightarrow> None
    | Inr (s0, s1, s2) \<Rightarrow> Some (dget (ss_host_incarnations s1) ''n1'',
        notification_event_actionable 0 s2 example_event,
        1 < el_next_event_id (tr_log (ss_incidents s2)), ss_restored_history s2))
    = Some (Some 1, True, True, [])"
  by (simp add: store_example_def example_failure_def example_event_def example_store_defs example_apply_defs
    example_tracker_defs correlate_bind cong: sum_bind_first let_weak_cong)

lemma store_example_run:
  obtains s0 s1 s2 s3 s4 ok effects where
    "new_state_store (\<lambda>_. []) 0 ''1'' True True (PNone, PNone) (example_config 1) nothing_loaded = Inr s0"
    "store_run (\<lambda>_. []) s0 s1" "dget (ss_host_incarnations s1) ''n1'' = Some 1"
    "apply_result (\<lambda>_. 0) 0 example_failure None None (Some 1) s1 = Inr (ok, effects, s2)"
    "store_run (\<lambda>_. []) s1 s2" "notification_event_actionable 0 s2 example_event"
    "set_hosts (\<lambda>_. []) 0 [''n2''] s2 = Inr s3" "dget (ss_servers s3) ''n1'' = None"
    "1 < el_next_event_id (tr_log (ss_incidents s3))"
    "set_hosts (\<lambda>_. []) 0 [''n1''] s3 = Inr s4" "dget (ss_servers s4) ''n1'' \<noteq> None"
proof -
  obtain s0 s1 ok effects s2 where
    0: "new_state_store (\<lambda>_. []) 0 ''1'' True True (PNone, PNone) (example_config 1) nothing_loaded = Inr s0" and
    1: "set_hosts (\<lambda>_. []) 0 [''n1''] s0 = Inr s1" and
    2: "apply_result (\<lambda>_. 0) 0 example_failure None None (Some 1) s1 = Inr (ok, effects, s2)" and
    v: "dget (ss_host_incarnations s1) ''n1'' = Some 1" "notification_event_actionable 0 s2 example_event"
       "1 < el_next_event_id (tr_log (ss_incidents s2))" "ss_restored_history s2 = []"
    using store_example_value by (auto simp: store_example_def sum_bind_def split: sum.splits prod.splits)
  have "store_ok s0" by (rule new_state_store_ok [OF 0]) (simp add: nothing_loaded_def)
  then have "store_ok s1" by (rule store_step_ok [OF store_step.hosts [OF 1]])
  then have ok2: "store_ok s2" by (rule store_step_ok [OF store_step.result [OF 2]])
  obtain s3 where 3: "set_hosts (\<lambda>_. []) 0 [''n2''] s2 = Inr s3" "ss_restored_history s3 = []"
    using set_hosts_total [OF v(4)] by blast
  obtain s4 where 4: "set_hosts (\<lambda>_. []) 0 [''n1''] s3 = Inr s4" using set_hosts_total [OF 3(2)] by blast
  have ok3: "store_ok s3" by (rule store_ok_hosts [OF ok2 3(1)])
  have "''n1'' \<notin> fst ` set (ss_servers s3)" using set_hosts_monitors [OF ok2 3(1)] by simp
  then have g: "dget (ss_servers s3) ''n1'' = None" by (simp only: dget_None_iff not_False_eq_True)
  have "''n1'' \<in> fst ` set (ss_servers s4)" using set_hosts_monitors [OF ok3 4] by simp
  then have b: "dget (ss_servers s4) ''n1'' \<noteq> None" by (simp only: dget_None_iff not_not)
  have "next_event_id s2 \<le> next_event_id s3" using hosts_step [OF ok2 3(1)] by (simp add: enters_def)
  then have n: "1 < el_next_event_id (tr_log (ss_incidents s3))" using v(3) by (simp add: next_event_id_def)
  show thesis
    by (rule that [OF 0 _ v(1) 2 _ v(2) 3(1) g n 4 b])
      (rule r_into_rtranclp, rule store_step.hosts [OF 1], rule r_into_rtranclp, rule store_step.result [OF 2])
qed

lemma nothing_sorted: "sorted_wrt (<) (map ev_event_id (lt_incident_events nothing_loaded))"
  by (simp add: nothing_loaded_def)

theorem store_consistent_witness:
  "\<exists>s0 s1. store_run (\<lambda>_. []) s0 s1 \<and> fst ` set (ss_history s1) = fst ` set (ss_servers s1)
    \<and> dget (ss_servers s1) ''n1'' \<noteq> None
    \<and> incident_reachable (ss_incidents s1, ss_incident_policy s1) \<and> gpu_ok (ss_gpu s1)"
proof -
  obtain s0 s1 s2 s3 s4 ok effects where
    r: "new_state_store (\<lambda>_. []) 0 ''1'' True True (PNone, PNone) (example_config 1) nothing_loaded = Inr s0"
      "store_run (\<lambda>_. []) s0 s1" "dget (ss_host_incarnations s1) ''n1'' = Some 1"
    by (rule store_example_run)
  note c = store_consistent [OF r(1) nothing_sorted r(2), where h = "''n1''" and i = 0 and h' = "''n1''"]
  have "''n1'' \<in> fst ` set (ss_host_incarnations s1)" by (rule dget_Some_keys [OF r(3)])
  then have "''n1'' \<in> fst ` set (ss_servers s1)" by (simp only: conjunct1 [OF c])
  then have "dget (ss_servers s1) ''n1'' \<noteq> None" by (simp only: dget_None_iff not_not)
  with r(2) show ?thesis using c by (intro exI [of _ s0] exI [of _ s1]) simp
qed

theorem removed_host_results_discarded_witness:
  "\<exists>s3. dget (ss_servers s3) ''n1'' \<noteq> None
    \<and> apply_result (\<lambda>_. 0) 0 example_failure None None (Some 1) s3 = Inr (False, [], s3)"
proof -
  obtain s0 s1 s2 s3 s4 ok effects where
    r: "new_state_store (\<lambda>_. []) 0 ''1'' True True (PNone, PNone) (example_config 1) nothing_loaded = Inr s0"
      "store_run (\<lambda>_. []) s0 s1" "dget (ss_host_incarnations s1) ''n1'' = Some 1"
      "store_run (\<lambda>_. []) s1 s2"
      "set_hosts (\<lambda>_. []) 0 [''n2''] s2 = Inr s3" "dget (ss_servers s3) ''n1'' = None"
      "set_hosts (\<lambda>_. []) 0 [''n1''] s3 = Inr s4" "dget (ss_servers s4) ''n1'' \<noteq> None"
    by (rule store_example_run)
  have h: "pr_host example_failure = ''n1''" by (simp add: example_failure_def)
  have "store_run (\<lambda>_. []) s1 s3" using r(4) store_step.hosts [OF r(5)] by (rule rtranclp.rtrancl_into_rtrancl)
  moreover have "store_run (\<lambda>_. []) s3 s4" by (rule r_into_rtranclp) (rule store_step.hosts [OF r(7)])
  ultimately show ?thesis
    using removed_host_results_discarded [OF r(1) nothing_sorted r(2),
      of example_failure 1 s3 s4 "\<lambda>_. 0" 0 None None] r(3,6,8) h by auto
qed

theorem removed_host_never_alerts_witness:
  "\<exists>s1 s2. notification_event_actionable 0 s1 example_event \<and> dget (ss_servers s2) ''n1'' \<noteq> None
    \<and> \<not> notification_event_actionable 0 s2 example_event"
proof -
  obtain s0 s1 s2 s3 s4 ok effects where
    r: "new_state_store (\<lambda>_. []) 0 ''1'' True True (PNone, PNone) (example_config 1) nothing_loaded = Inr s0"
      "store_run (\<lambda>_. []) s0 s1" "store_run (\<lambda>_. []) s1 s2" "notification_event_actionable 0 s2 example_event"
      "set_hosts (\<lambda>_. []) 0 [''n2''] s2 = Inr s3" "dget (ss_servers s3) ''n1'' = None"
      "1 < el_next_event_id (tr_log (ss_incidents s3))"
      "set_hosts (\<lambda>_. []) 0 [''n1''] s3 = Inr s4" "dget (ss_servers s4) ''n1'' \<noteq> None"
    by (rule store_example_run)
  have e: "ev_event_id example_event = 1" "ev_host example_event = ''n1''" "ev_state example_event \<noteq> Resolved"
    by (simp_all add: example_event_def)
  have "store_run (\<lambda>_. []) s0 s2" using r(2,3) by (rule rtranclp_trans)
  then have "store_run (\<lambda>_. []) s0 s3" using store_step.hosts [OF r(5)] by (rule rtranclp.rtrancl_into_rtrancl)
  moreover have "store_run (\<lambda>_. []) s3 s4" by (rule r_into_rtranclp) (rule store_step.hosts [OF r(8)])
  ultimately have "\<not> notification_event_actionable 0 s4 example_event"
    using removed_host_never_alerts [OF r(1) nothing_sorted, of s3 example_event s4 0] r(6,7) e by simp
  then show ?thesis using r(4,9) by blast
qed

end
