(* ===== verification/PyShell.thy ===== *)
theory PyShell
  imports PyText
begin

text \<open>
  Splitting text as the standard library does: \<open>str.split\<close>, \<open>str.rsplit\<close>, \<open>str.rfind\<close>,
  \<open>str.isdigit\<close>, \<open>str.casefold\<close> and \<open>shlex.split\<close> in POSIX mode without comments.
\<close>

section \<open>Separators\<close>

text \<open>\<open>s.split(c)\<close>: never empty.\<close>

fun split_char :: "char \<Rightarrow> string \<Rightarrow> string list" where
  "split_char c [] = [[]]"
| "split_char c (x # xs) =
    (if x = c then [] # split_char c xs
     else (case split_char c xs of [] \<Rightarrow> [[x]] | w # ws \<Rightarrow> (x # w) # ws))"

text \<open>\<open>s.rsplit(c, 1)[1]\<close> and \<open>[0]\<close>, when \<open>c\<close> occurs in \<open>s\<close>.\<close>

definition after_last :: "char \<Rightarrow> string \<Rightarrow> string" where
  "after_last c s = rev (takeWhile (\<lambda>x. x \<noteq> c) (rev s))"

definition before_last :: "char \<Rightarrow> string \<Rightarrow> string" where
  "before_last c s = rev (drop 1 (dropWhile (\<lambda>x. x \<noteq> c) (rev s)))"

definition count_char :: "char \<Rightarrow> string \<Rightarrow> nat" where
  "count_char c s = length (filter (\<lambda>x. x = c) s)"

text \<open>\<open>s.rfind(c)\<close>.\<close>

definition rfind :: "char \<Rightarrow> string \<Rightarrow> int" where
  "rfind c s = (if c \<in> set s then int (length (before_last c s)) else - 1)"

text \<open>\<open>isdigit\<close> holds of the superscript digits too, \<open>\d\<close> does not.\<close>

definition digit_like :: "char \<Rightarrow> bool" where
  "digit_like c \<longleftrightarrow> is_digit c \<or> (of_char c :: nat) \<in> {178, 179, 185}"

definition all_digits :: "string \<Rightarrow> bool" where
  "all_digits s \<longleftrightarrow> s \<noteq> [] \<and> list_all digit_like s"

text \<open>\<open>casefold\<close>: as \<open>lower\<close>, and sharp s becomes two letters. (The micro sign folds to a letter
  above 255 that is the fold of no other character here, so it stands for itself.)\<close>

definition casefold :: "string \<Rightarrow> string" where
  "casefold s = concat (map (\<lambda>c. if (of_char c :: nat) = 223 then ''ss'' else [lower_char c]) s)"

section \<open>Shell words\<close>

text \<open>The states of \<open>shlex.read_token\<close>: between tokens, in a token, in quotes, after a backslash
  (which may stand in double quotes).\<close>

datatype lex_mode = Between | In_Word | In_Quote char | Escaped bool

definition lex_space :: "char \<Rightarrow> bool" where
  "lex_space c \<longleftrightarrow> (of_char c :: nat) \<in> {9, 10, 13, 32}"

definition lex_quote :: "char \<Rightarrow> bool" where
  "lex_quote c \<longleftrightarrow> (of_char c :: nat) \<in> {34, 39}"

definition backslash :: char where "backslash = CHR 0x5C"
definition double_quote :: char where "double_quote = CHR 0x22"

definition emit :: "string \<Rightarrow> bool \<Rightarrow> string list" where
  "emit token quoted = (if token \<noteq> [] \<or> quoted then [token] else [])"

text \<open>The rest of the text, the state, the token so far, and whether it was quoted; \<open>None\<close> is
  \<open>ValueError\<close> (no closing quotation, no escaped character).\<close>

fun lex_words :: "string \<Rightarrow> lex_mode \<Rightarrow> string \<Rightarrow> bool \<Rightarrow> string list option" where
  "lex_words [] Between token quoted = Some (emit token quoted)"
| "lex_words [] In_Word token quoted = Some (emit token quoted)"
| "lex_words [] (In_Quote q) token quoted = None"
| "lex_words [] (Escaped inner) token quoted = None"
| "lex_words (c # cs) Between token quoted =
    (if lex_space c then map_option (\<lambda>ws. emit token quoted @ ws) (lex_words cs Between [] False)
     else if c = backslash then lex_words cs (Escaped False) token quoted
     else if lex_quote c then lex_words cs (In_Quote c) token quoted
     else lex_words cs In_Word [c] quoted)"
| "lex_words (c # cs) In_Word token quoted =
    (if lex_space c then map_option (\<lambda>ws. emit token quoted @ ws) (lex_words cs Between [] False)
     else if lex_quote c then lex_words cs (In_Quote c) token quoted
     else if c = backslash then lex_words cs (Escaped False) token quoted
     else lex_words cs In_Word (token @ [c]) quoted)"
| "lex_words (c # cs) (In_Quote q) token quoted =
    (if c = q then lex_words cs In_Word token True
     else if c = backslash \<and> q = double_quote then lex_words cs (Escaped True) token True
     else lex_words cs (In_Quote q) (token @ [c]) True)"
| "lex_words (c # cs) (Escaped inner) token quoted =
    (let token = (if inner \<and> c \<noteq> backslash \<and> c \<noteq> double_quote then token @ [backslash] else token)
     in lex_words cs (if inner then In_Quote double_quote else In_Word) (token @ [c]) quoted)"

definition shlex_split :: "string \<Rightarrow> string list option" where
  "shlex_split s = lex_words s Between [] False"

section \<open>Lemmas\<close>

lemma split_char_nonempty [simp]: "split_char c s \<noteq> []"
  by (induction s) (auto split: list.split)

lemma shlex_example:
  "shlex_split ''ssh -W %h:%p \"jump host\"'' = Some [''ssh'', ''-W'', ''%h:%p'', ''jump host'']"
  by code_simp

lemma shlex_unclosed: "shlex_split (double_quote # ''a'') = None"
  by code_simp

end
