(* ===== verification/Ssh_Topology.thy ===== *)
theory Ssh_Topology
  imports PyShell Config_Integrations
begin

text \<open>
  Topology inference from the effective OpenSSH options (\<open>ssh_topology.py\<close>): reading a proxy option
  as a sanitized route, resolving the routes of the targets and of their hops, and projecting the
  routes into a display tree. The output of \<open>ssh -G\<close> is an argument, as are the resolver and the
  order in which the pool completes.
\<close>

section \<open>Routes\<close>

record ssh_route =
  sr_kind :: string
  sr_hops :: "string list"
  sr_opaque :: bool

definition none_option :: "string \<Rightarrow> bool" where
  "none_option s \<longleftrightarrow> s = [] \<or> s = ''none''"

text \<open>The options of the lines \<open>ssh -G\<close> printed; the last value of a key wins.\<close>

definition read_option :: "string list \<Rightarrow> string \<Rightarrow> (string, string) dict \<Rightarrow> (string, string) dict" where
  "read_option wanted line options =
    (let key = lower (strip (part_before CHR '' '' line))
     in if CHR '' '' \<in> set line \<and> key \<in> set wanted
        then dset options key (strip (part_after CHR '' '' line)) else options)"

definition ssh_options :: "string list \<Rightarrow> string list \<Rightarrow> (string, string) dict" where
  "ssh_options wanted output = fold (read_option wanted) output []"

definition known_alias_index :: "string list \<Rightarrow> (string, string) dict" where
  "known_alias_index aliases =
    (let buckets = foldl (\<lambda>d a. dappend d (casefold a) a) [] aliases
     in map (\<lambda>kv. (fst kv, hd (snd kv))) (filter (\<lambda>kv. length (snd kv) = 1) buckets))"

definition bare_host :: "string \<Rightarrow> string option" where
  "bare_host candidate =
    (if startswith candidate ''['' then
       (if CHR '']'' \<in> set candidate then Some (part_before CHR '']'' (drop 1 candidate)) else None)
     else if count_char CHR '':'' candidate = 1 \<and> all_digits (after_last CHR '':'' candidate)
       then Some (before_last CHR '':'' candidate)
     else Some candidate)"

definition alias_from_destination :: "string \<Rightarrow> (string, string) dict \<Rightarrow> string option" where
  "alias_from_destination value known =
    (let candidate = strip value
     in if candidate = [] \<or> startswith candidate ''-'' then None
        else Option.bind
          (bare_host (if CHR ''@'' \<in> set candidate then after_last CHR ''@'' candidate else candidate))
          (\<lambda>host. dget known (casefold host)))"

definition synthetic_proxy_alias :: "string \<Rightarrow> nat \<Rightarrow> string" where
  "synthetic_proxy_alias target index =
    (let suffix = (if index = 0 then [] else CHR ''-'' # int_str (int index));
         prefix = ''proxy-''
     in prefix @ take (253 - length prefix - length suffix) target @ suffix)"

text \<open>\<open>^(.+?)[-_.]?\d+$\<close> on a whole text: the shortest prefix of a text of one line after which an
  optional separator and digits alone remain.\<close>

definition numeric_rest :: "string \<Rightarrow> bool" where
  "numeric_rest rest =
    (let digits = (case rest of c # cs \<Rightarrow> if c \<in> {CHR ''-'', CHR ''_'', CHR ''.''} then cs else rest | [] \<Rightarrow> [])
     in digits \<noteq> [] \<and> list_all is_digit digits)"

definition trailing_numeric :: "string \<Rightarrow> string option" where
  "trailing_numeric s =
    find (\<lambda>p. CHR 0x0A \<notin> set p \<and> numeric_rest (drop (length p) s)) (map (\<lambda>n. take n s) [1..<length s])"

definition alias_group_candidate :: "string \<Rightarrow> string option" where
  "alias_group_candidate s =
    (let separator = max (max (rfind CHR ''-'' s) (rfind CHR ''_'' s)) (rfind CHR ''.'' s)
     in if 0 < separator then
          (if all_digits (drop (nat separator + 1) s) then Some (take (nat separator) s) else None)
        else trailing_numeric s)"

section \<open>ProxyJump and ProxyCommand\<close>

fun jump_hops :: "string \<Rightarrow> (string, string) dict \<Rightarrow> nat \<Rightarrow> string list \<Rightarrow> string list \<times> bool \<Rightarrow> string list \<times> bool" where
  "jump_hops target known index [] acc = acc"
| "jump_hops target known index (raw # rest) (hops, opaque) =
    (let (hop, opaque) = (case alias_from_destination raw known of
           Some a \<Rightarrow> (a, opaque) | None \<Rightarrow> (synthetic_proxy_alias target index, True))
     in jump_hops target known (Suc index) rest
          (if hop \<notin> set hops \<and> hop \<noteq> target then hops @ [hop] else hops, opaque))"

definition proxy_jump_route :: "string \<Rightarrow> string \<Rightarrow> (string, string) dict \<Rightarrow> ssh_route" where
  "proxy_jump_route target value known =
    (let (hops, opaque) = jump_hops target known 0 (split_char CHR '','' value) ([], False)
     in \<lparr>sr_kind = ''proxyjump'', sr_hops = hops, sr_opaque = opaque\<rparr>)"

text \<open>One token of options, from its second character: the options kept, what follows of the
  arguments, or \<open>None\<close> for a grammar that is not known.\<close>

definition takes_argument :: "char \<Rightarrow> bool" where
  "takes_argument c \<longleftrightarrow> c \<in> set ''BbcDEeFIiJLlmOoPpQRSWw''"

definition is_flag :: "char \<Rightarrow> bool" where
  "is_flag c \<longleftrightarrow> c \<in> set ''1246AaCfGgKkMNnqsTtVvXxYy''"

fun option_token ::
  "string \<Rightarrow> string list \<Rightarrow> (char \<times> string) list \<Rightarrow> ((char \<times> string) list \<times> string list) option" where
  "option_token [] arguments options = Some (options, arguments)"
| "option_token (c # cs) arguments options =
    (if takes_argument c then
       (let keep = (\<lambda>a. if c \<in> {CHR ''J'', CHR ''o''} then options @ [(c, a)] else options)
        in if cs \<noteq> [] then Some (keep cs, arguments)
           else (case arguments of [] \<Rightarrow> None | a # rest \<Rightarrow> Some (keep a, rest)))
     else if is_flag c then option_token cs arguments options
     else None)"

lemma option_token_shorter:
  "option_token cs arguments options = Some (o', rest) \<Longrightarrow> length rest \<le> length arguments"
  by (induction cs arguments options rule: option_token.induct)
     (auto simp: Let_def split: if_splits list.splits)

function ssh_proxy_options ::
  "string list \<Rightarrow> string option \<Rightarrow> (char \<times> string) list \<Rightarrow> (string \<times> (char \<times> string) list) option" where
  "ssh_proxy_options [] destination options = map_option (\<lambda>d. (d, options)) destination"
| "ssh_proxy_options (token # rest) destination options =
    (if token = ''--'' then
       map_option (\<lambda>d. (d, options))
         (case destination of Some d \<Rightarrow> Some d | None \<Rightarrow> (case rest of [] \<Rightarrow> None | a # _ \<Rightarrow> Some a))
     else if \<not> startswith token ''-'' \<or> token = ''-'' then
       (case destination of
          Some d \<Rightarrow> Some (d, options)
        | None \<Rightarrow> ssh_proxy_options rest (Some token) options)
     else
       (case option_token (drop 1 token) rest options of
          None \<Rightarrow> None
        | Some (options, rest) \<Rightarrow> ssh_proxy_options rest destination options))"
  by pat_completeness auto
termination
  by (relation "measure (\<lambda>(arguments, _). length arguments)")
     (auto dest: option_token_shorter)

text \<open>\<open>([^\s=]+)\s*(?:=\s*|\s+)(.+)\<close> on a whole stripped text, which has no newline in the value.\<close>

definition option_setting :: "string \<Rightarrow> (string \<times> string) option" where
  "option_setting s =
    (let name = takeWhile (\<lambda>c. \<not> is_space c \<and> c \<noteq> CHR ''='') s;
         after = drop (length name) s;
         blank = takeWhile is_space after;
         rest = drop (length blank) after;
         value = (if startswith rest ''='' then
                    (let v = dropWhile is_space (drop 1 rest)
                     in if v \<noteq> [] then Some v else if blank \<noteq> [] then Some ''='' else None)
                  else if blank \<noteq> [] \<and> rest \<noteq> [] then Some rest else None)
     in if name = [] then None
        else (case value of
                Some v \<Rightarrow> if CHR 0x0A \<in> set v then None else Some (name, v)
              | None \<Rightarrow> None))"

text \<open>The first proxy value wins; \<open>None\<close> when a later \<open>-J\<close> makes the command invalid.\<close>

fun first_jump :: "(char \<times> string) list \<Rightarrow> string option \<Rightarrow> bool \<Rightarrow> string option option" where
  "first_jump [] jump proxy_command = Some jump"
| "first_jump ((opt, argument) # options) jump proxy_command =
    (if opt = CHR ''J'' then
       (if jump \<noteq> None \<or> proxy_command then None
        else first_jump options (Some (strip argument)) proxy_command)
     else
       (case option_setting (strip argument) of
          None \<Rightarrow> first_jump options jump proxy_command
        | Some (name, value) \<Rightarrow>
            if jump = None \<and> \<not> proxy_command then
              (if lower name = ''proxycommand'' then first_jump options jump True
               else if lower name = ''proxyjump'' then first_jump options (Some value) proxy_command
               else first_jump options jump proxy_command)
            else first_jump options jump proxy_command))"

definition ssh_proxy_jumps :: "(char \<times> string) list \<Rightarrow> string list option" where
  "ssh_proxy_jumps options =
    (case first_jump options None False of
       None \<Rightarrow> None
     | Some None \<Rightarrow> Some []
     | Some (Some jump) \<Rightarrow> Some (if none_option (lower jump) then [] else split_char CHR '','' jump))"

definition proxy_command_destinations :: "string list \<Rightarrow> string list" where
  "proxy_command_destinations tokens =
    (let tokens = (case tokens of t # ts \<Rightarrow> if t = ''exec'' then ts else tokens | [] \<Rightarrow> [])
     in case tokens of
          [] \<Rightarrow> []
        | t # ts \<Rightarrow>
            if after_last CHR ''/'' t \<noteq> ''ssh'' then []
            else (case ssh_proxy_options ts None [] of
                    None \<Rightarrow> []
                  | Some (destination, options) \<Rightarrow>
                      (case ssh_proxy_jumps options of None \<Rightarrow> [] | Some jumps \<Rightarrow> jumps @ [destination])))"

definition command_hop :: "string \<Rightarrow> (string, string) dict \<Rightarrow> string \<Rightarrow> string list \<Rightarrow> string list" where
  "command_hop target known destination hops =
    (case alias_from_destination destination known of
       Some a \<Rightarrow> if a \<noteq> target \<and> a \<notin> set hops then hops @ [a] else hops
     | None \<Rightarrow> hops)"

definition proxy_command_route :: "string \<Rightarrow> string \<Rightarrow> (string, string) dict \<Rightarrow> ssh_route" where
  "proxy_command_route target value known =
    (let tokens = (case shlex_split value of Some ts \<Rightarrow> ts | None \<Rightarrow> []);
         hops = fold (command_hop target known) (proxy_command_destinations tokens) []
     in if hops \<noteq> [] then \<lparr>sr_kind = ''proxycommand'', sr_hops = hops, sr_opaque = False\<rparr>
        else \<lparr>sr_kind = ''proxycommand'', sr_hops = [synthetic_proxy_alias target 0], sr_opaque = True\<rparr>)"

text \<open>\<open>OpenSshRouteResolver.resolve\<close> on the output of \<open>ssh -G\<close> (\<open>None\<close>: it failed).\<close>

definition resolve_route :: "string \<Rightarrow> string list \<Rightarrow> string list option \<Rightarrow> ssh_route option" where
  "resolve_route target known_aliases output =
    (case output of
       None \<Rightarrow> None
     | Some lines \<Rightarrow>
        (let options = ssh_options [''proxycommand'', ''proxyjump''] lines;
             known = known_alias_index known_aliases;
             proxy_jump = strip (dget_or [] options ''proxyjump'');
             proxy_command = strip (dget_or [] options ''proxycommand'')
         in Some (if \<not> none_option (lower proxy_jump) then proxy_jump_route target proxy_jump known
                  else if \<not> none_option (lower proxy_command)
                    then proxy_command_route target proxy_command known
                  else \<lparr>sr_kind = ''direct'', sr_hops = [], sr_opaque = False\<rparr>)))"

section \<open>Resolving the routes of the targets\<close>

record resolving =
  rs_routes :: "(string, ssh_route) dict"
  rs_failures :: "string list"
  rs_warnings :: "string list"
  rs_pending :: "string list"

text \<open>One completed future.\<close>

definition queue_hops :: "string list \<Rightarrow> string option \<Rightarrow> string list \<Rightarrow> resolving \<Rightarrow> resolving" where
  "queue_hops known local_host hops s =
    s\<lparr>rs_pending := rs_pending s @ filter (\<lambda>h. h \<in> set known \<and> dget (rs_routes s) h = None
        \<and> h \<notin> set (rs_failures s) \<and> Some h \<noteq> local_host) hops\<rparr>"

definition complete_one ::
  "(string \<Rightarrow> ssh_route option) \<Rightarrow> string list \<Rightarrow> string option \<Rightarrow> string \<Rightarrow> resolving \<Rightarrow> resolving" where
  "complete_one resolver known local_host a s =
    (case resolver a of
       None \<Rightarrow> s\<lparr>rs_failures := List.insert a (rs_failures s),
                rs_warnings := rs_warnings s @ [a @ '': SSH route could not be resolved'']\<rparr>
     | Some route \<Rightarrow>
         queue_hops known local_host (sr_hops route)
           (s\<lparr>rs_routes := dset (rs_routes s) a route,
              rs_warnings := (if sr_opaque route then rs_warnings s @ [a @ '': proxy route contains an opaque hop'']
                else rs_warnings s)\<rparr>))"

text \<open>A batch, completed in the order \<open>order\<close> gives it; the pending hops it leaves.\<close>

definition resolve_batch ::
  "(string \<Rightarrow> ssh_route option) \<Rightarrow> (string \<Rightarrow> nat) \<Rightarrow> string list \<Rightarrow> string option \<Rightarrow> resolving \<Rightarrow> resolving" where
  "resolve_batch resolver order known local_host s =
    fold (complete_one resolver known local_host) (set_iter order (rs_pending s)) (s\<lparr>rs_pending := []\<rparr>)"

definition settled_at :: "resolving \<Rightarrow> string \<Rightarrow> bool" where
  "settled_at s a \<longleftrightarrow> dget (rs_routes s) a \<noteq> None \<or> a \<in> set (rs_failures s)"

definition unresolved :: "string list \<Rightarrow> resolving \<Rightarrow> string set" where
  "unresolved known s = {a \<in> set known. \<not> settled_at s a}"

lemma settled_pending [simp]: "settled_at (s\<lparr>rs_pending := ps\<rparr>) = settled_at s"
  by (simp add: settled_at_def fun_eq_iff)

lemma complete_one_facts:
  "settled_at (complete_one resolver known lh a s) b \<longleftrightarrow> b = a \<or> settled_at s b"
  "set (rs_pending (complete_one resolver known lh a s)) \<subseteq> set (rs_pending s) \<union> unresolved known s"
  by (auto simp: complete_one_def queue_hops_def settled_at_def unresolved_def split: option.splits if_splits)

lemma resolve_fold_facts:
  "(settled_at (fold (complete_one resolver known lh) as s) b \<longleftrightarrow> b \<in> set as \<or> settled_at s b)
    \<and> set (rs_pending (fold (complete_one resolver known lh) as s)) \<subseteq> set (rs_pending s) \<union> unresolved known s"
proof (induction as arbitrary: s)
  case (Cons a as)
  let ?s = "complete_one resolver known lh a s"
  have "unresolved known ?s \<subseteq> unresolved known s"
    by (auto simp: unresolved_def complete_one_facts(1))
  then show ?case
    using Cons.IH [of ?s] complete_one_facts [of resolver known lh a s] by auto
qed simp

lemma resolve_batch_facts:
  assumes s'_def: "s' = resolve_batch resolver order known lh s"
  shows "unresolved known s' = unresolved known s - set (rs_pending s)"
    and "set (rs_pending s') \<subseteq> unresolved known s"
proof -
  have f: "settled_at s' b \<longleftrightarrow> b \<in> set (rs_pending s) \<or> settled_at s b"
    "set (rs_pending s') \<subseteq> unresolved known (s\<lparr>rs_pending := []\<rparr>)" for b
    using resolve_fold_facts [of resolver known lh "set_iter order (rs_pending s)" "s\<lparr>rs_pending := []\<rparr>"]
    by (simp_all add: s'_def resolve_batch_def)
  show "unresolved known s' = unresolved known s - set (rs_pending s)" by (auto simp: unresolved_def f(1))
  show "set (rs_pending s') \<subseteq> unresolved known s" using f(2) by (simp add: unresolved_def)
qed

text \<open>Every two rounds settle an alias: what a round leaves pending was not settled before it.\<close>

definition rounds_left :: "string list \<Rightarrow> resolving \<Rightarrow> nat" where
  "rounds_left known s =
    2 * card (unresolved known s) + (if set (rs_pending s) \<inter> unresolved known s = {} then 1 else 0)"

lemma rounds_decrease:
  assumes s'_def: "s' = resolve_batch resolver order known lh s" and "rs_pending s' \<noteq> []"
  shows "rounds_left known s' < rounds_left known s"
proof -
  note f = resolve_batch_facts [OF s'_def]
  have fin: "finite (unresolved known s)" by (simp add: unresolved_def)
  show ?thesis
  proof (cases "set (rs_pending s) \<inter> unresolved known s = {}")
    case True
    then have same: "unresolved known s' = unresolved known s" using f(1) by auto
    have "set (rs_pending s') \<inter> unresolved known s' \<noteq> {}" using f(2) assms(2) same by (cases "rs_pending s'") auto
    then show ?thesis using True by (simp add: rounds_left_def same)
  next
    case False
    then have "unresolved known s' \<subset> unresolved known s" using f(1) by auto
    then have "card (unresolved known s') < card (unresolved known s)" by (rule psubset_card_mono [OF fin])
    then show ?thesis by (simp add: rounds_left_def)
  qed
qed

text \<open>\<open>while pending\<close>; the resolver and the order may differ from round to round.\<close>

function resolve_rounds ::
  "(nat \<Rightarrow> string \<Rightarrow> ssh_route option) \<Rightarrow> (nat \<Rightarrow> string \<Rightarrow> nat) \<Rightarrow> string list \<Rightarrow> string option \<Rightarrow> nat \<Rightarrow>
   resolving \<Rightarrow> resolving" where
  "resolve_rounds resolver order known local_host n s =
    (if rs_pending s = [] then s
     else (let s' = resolve_batch (resolver n) (order n) known local_host s
           in if rs_pending s' = [] then s'
              else resolve_rounds resolver order known local_host (Suc n) s'))"
  by pat_completeness auto
termination
  by (relation "measure (\<lambda>(resolver, order, known, lh, n, s). rounds_left known s)")
     (simp_all add: rounds_decrease)

declare resolve_rounds.simps [simp del]

record resolution =
  rl_known_aliases :: "string list"
  rl_routes :: "(string, ssh_route) dict"
  rl_failures :: "string list"
  rl_warnings :: "string list"

definition resolve_topology ::
  "(nat \<Rightarrow> string \<Rightarrow> ssh_route option) \<Rightarrow> (nat \<Rightarrow> string \<Rightarrow> nat) \<Rightarrow> string list \<Rightarrow> string list \<Rightarrow> string option \<Rightarrow>
   resolution" where
  "resolve_topology resolver order aliases targets local_host =
    (let known = sorted_set aliases;
         s = resolve_rounds resolver order known local_host 0
           \<lparr>rs_routes = [], rs_failures = [], rs_warnings = [],
            rs_pending = filter (\<lambda>a. a \<in> set known \<and> Some a \<noteq> local_host) targets\<rparr>
     in \<lparr>rl_known_aliases = known, rl_routes = sort_key fst (rs_routes s),
         rl_failures = sort (rs_failures s), rl_warnings = sorted_set (rs_warnings s)\<rparr>)"

section \<open>Expanding a route\<close>

text \<open>The walk along first hops: the stack (deepest first), the chain below its deepest node, the
  cache and the warnings.\<close>

function chain_walk ::
  "(string, ssh_route) dict \<Rightarrow> (string, string list) dict \<Rightarrow> string list \<Rightarrow> string \<Rightarrow>
   string list \<times> string list \<times> (string, string list) dict \<times> string list" where
  "chain_walk routes cache stack cursor =
    (case dget routes cursor of
       None \<Rightarrow> (stack, [], dset cache cursor [], [])
     | Some route \<Rightarrow>
        (case sr_hops route of
           [] \<Rightarrow> (stack, [], dset cache cursor [], [])
         | first # _ \<Rightarrow>
            if dget routes first = None then (cursor # stack, [], cache, [])
            else if dget cache first \<noteq> None then (cursor # stack, the (dget cache first), cache, [])
            else if first \<in> set (cursor # stack) then (cursor # stack, [], cache, [first @ '': proxy route cycle ignored''])
            else chain_walk routes cache (cursor # stack) first))"
  by pat_completeness auto
termination
proof (relation "measure (\<lambda>(routes, cache, stack, cursor). card (fst ` set routes - set (cursor # stack)))")
  fix routes :: "(string, ssh_route) dict" and cache :: "(string, string list) dict"
    and stack :: "string list" and cursor first :: string and route :: ssh_route and rest
  assume "dget routes first \<noteq> None" "first \<notin> set (cursor # stack)"
  then have "fst ` set routes - set (first # cursor # stack) \<subset> fst ` set routes - set (cursor # stack)"
    by (auto dest: dget_Some_keys)
  then show "((routes, cache, cursor # stack, first), routes, cache, stack, cursor)
      \<in> measure (\<lambda>(routes, cache, stack, cursor). card (fst ` set routes - set (cursor # stack)))"
    by (simp add: psubset_card_mono)
qed simp

declare chain_walk.simps [simp del]

definition combine_hops :: "string \<Rightarrow> string \<Rightarrow> string list \<Rightarrow> string list" where
  "combine_hops origin node hops =
    fold (\<lambda>h combined. if h \<notin> set combined \<and> h \<noteq> origin \<and> h \<noteq> node then combined @ [h] else combined) hops []"

text \<open>Unwinding, deepest first.\<close>

fun unwind ::
  "string \<Rightarrow> (string, ssh_route) dict \<Rightarrow> string list \<Rightarrow> string list \<Rightarrow> (string, string list) dict \<Rightarrow>
   (string, string list) dict" where
  "unwind origin routes [] below_chain cache = cache"
| "unwind origin routes (node # nodes) below_chain cache =
    (let chain = combine_hops origin node (below_chain @ sr_hops (the (dget routes node)))
     in unwind origin routes nodes chain (dset cache node chain))"

definition expanded_hops ::
  "string \<Rightarrow> (string, ssh_route) dict \<Rightarrow> string \<Rightarrow> (string, string list) dict \<Rightarrow>
   string list \<times> (string, string list) dict \<times> string list" where
  "expanded_hops origin routes a cache =
    (case dget cache a of
       Some chain \<Rightarrow> (chain, cache, [])
     | None \<Rightarrow>
        (let (stack, below_chain, cache, warnings) = chain_walk routes cache [] a;
             cache = unwind origin routes stack below_chain cache
         in (dget_or [] cache a, cache, warnings)))"

section \<open>The display tree\<close>

record projecting =
  pj_cache :: "(string, string list) dict"
  pj_warnings :: "string list"
  pj_parents :: "(string, string) dict"
  pj_links :: "(string \<times> string, topology_link) dict"
  pj_groups :: "(string, string) dict"
  pj_infrastructure :: "string list"
  pj_candidates :: "(string, string) dict"

definition link_label :: "(string, ssh_route) dict \<Rightarrow> string \<Rightarrow> string option" where
  "link_label routes target =
    (case dget routes target of
       None \<Rightarrow> None
     | Some route \<Rightarrow> if sr_kind route = ''proxycommand'' then Some ''ProxyCommand''
         else if sr_opaque route then Some ''opaque ProxyJump'' else None)"

definition add_link ::
  "(string, ssh_route) dict \<Rightarrow> string \<times> string \<Rightarrow> projecting \<Rightarrow> projecting" where
  "add_link routes edge s =
    (let (source, target) = edge
     in if source = target then s
        else if (case dget (pj_parents s) target of Some p \<Rightarrow> p \<noteq> source | None \<Rightarrow> False)
        then s\<lparr>pj_warnings := pj_warnings s @ [target @ '': ambiguous proxy parent '' @ source @ '' ignored'']\<rparr>
        else s\<lparr>pj_parents := dset (pj_parents s) target source,
               pj_links := dset (pj_links s) (source, target)
                 \<lparr>tl_source = source, tl_target = target, tl_transport = ''ssh'', tl_label = link_label routes target\<rparr>\<rparr>)"

definition note_group :: "string list \<Rightarrow> string \<Rightarrow> string list \<Rightarrow> projecting \<Rightarrow> projecting" where
  "note_group known host hops s =
    (case filter (\<lambda>h. h \<in> set known) hops of
       [] \<Rightarrow> (case alias_group_candidate host of
                Some c \<Rightarrow> s\<lparr>pj_candidates := dset (pj_candidates s) host c\<rparr> | None \<Rightarrow> s)
     | known_hops \<Rightarrow> s\<lparr>pj_groups := dset (pj_groups s) host (take 48 (List.last known_hops))\<rparr>)"

definition project_host ::
  "string \<Rightarrow> (string, ssh_route) dict \<Rightarrow> string list \<Rightarrow> string \<Rightarrow> projecting \<Rightarrow> projecting" where
  "project_host origin routes known host s =
    (if host = origin then s
     else
       (let (hops, cache, warnings) = expanded_hops origin routes host (pj_cache s);
            s = s\<lparr>pj_cache := cache, pj_warnings := pj_warnings s @ warnings,
                  pj_infrastructure := pj_infrastructure s @ hops\<rparr>;
            s = note_group known host hops s;
            path = origin # hops @ [host]
        in fold (add_link routes) (zip path (drop 1 path)) s))"

text \<open>Beyond the display limit the tree is cut, breadth first.\<close>

fun retain_children :: "nat \<Rightarrow> topology_link list \<Rightarrow> topology_link list \<Rightarrow> string list \<Rightarrow> topology_link list \<times> string list" where
  "retain_children limit [] retained pending = (retained, pending)"
| "retain_children limit (l # ls) retained pending =
    (if limit \<le> length retained then (retained, pending)
     else retain_children limit ls (retained @ [l]) (pending @ [tl_target l]))"

lemma retain_children_grows:
  "retain_children limit ls retained pending = (r, p) \<Longrightarrow>
    \<exists>more. r = retained @ take more ls \<and> p = pending @ map tl_target (take more ls)
      \<and> (length retained \<le> limit \<longrightarrow> length r \<le> limit)"
proof (induction limit ls retained pending rule: retain_children.induct)
  case (2 limit l ls retained pending)
  show ?case
  proof (cases "limit \<le> length retained")
    case True
    then show ?thesis using "2.prems" by (intro exI [of _ 0]) simp
  next
    case False
    then obtain n where "r = (retained @ [l]) @ take n ls"
      "p = (pending @ [tl_target l]) @ map tl_target (take n ls)" "length r \<le> limit"
      using "2.IH" "2.prems" by fastforce
    then show ?thesis by (intro exI [of _ "Suc n"]) simp
  qed
qed simp

function retain_links ::
  "nat \<Rightarrow> (string, topology_link list) dict \<Rightarrow> topology_link list \<Rightarrow> string list \<Rightarrow> topology_link list" where
  "retain_links limit children retained [] = retained"
| "retain_links limit children retained (source # pending) =
    (if limit \<le> length retained then retained
     else (let (r, p) = retain_children limit (dget_or [] children source) retained pending
           in retain_links limit children r p))"
  by pat_completeness auto
termination
proof (relation "measures [\<lambda>(limit, children, retained, pending). limit - length retained,
    \<lambda>(limit, children, retained, pending). length pending]")
  fix limit :: nat and children :: "(string, topology_link list) dict" and retained :: "topology_link list"
    and source :: string and pending :: "string list" and x r p
  assume "\<not> limit \<le> length retained"
    and x: "x = retain_children limit (dget_or [] children source) retained pending" "(r, p) = x"
  then obtain n where "r = retained @ take n (dget_or [] children source)"
    "p = pending @ map tl_target (take n (dget_or [] children source))"
    using retain_children_grows [of limit "dget_or [] children source" retained pending r p] by auto
  then show "((limit, children, r, p), limit, children, retained, source # pending)
      \<in> measures [\<lambda>(limit, children, retained, pending). limit - length retained,
          \<lambda>(limit, children, retained, pending). length pending]"
    using \<open>\<not> limit \<le> length retained\<close> by (cases "take n (dget_or [] children source)") auto
qed simp

definition links_by_source :: "topology_link list \<Rightarrow> (string, topology_link list) dict" where
  "links_by_source links = foldl (\<lambda>d l. dappend d (tl_source l) l) [] links"

record projection =
  pn_topology :: "topology option"
  pn_infrastructure_hosts :: "string list"
  pn_host_groups :: "(string, string) dict"
  pn_warnings :: "string list"

definition numbered_groups :: "(string, string) dict \<Rightarrow> (string, string) dict \<Rightarrow> (string, string) dict" where
  "numbered_groups candidates groups =
    fold (\<lambda>(host, c) groups. if 2 \<le> count_list (map snd candidates) c then dset groups host (take 48 c) else groups)
      candidates groups"

definition ordered_links :: "(string \<times> string, topology_link) dict \<Rightarrow> topology_link list" where
  "ordered_links links = map snd (sort_key fst links)"

definition display_links :: "string \<Rightarrow> (string \<times> string, topology_link) dict \<Rightarrow> topology_link list" where
  "display_links origin links =
    (let ordered = ordered_links links
     in if topology_max_links < length ordered
        then retain_links topology_max_links (links_by_source ordered) [] [origin] else ordered)"

definition project_topology :: "string \<Rightarrow> string list \<Rightarrow> resolution \<Rightarrow> projection" where
  "project_topology origin hosts res =
    (let s = fold (project_host origin (rl_routes res) (rl_known_aliases res)) (sort hosts)
           \<lparr>pj_cache = [], pj_warnings = rl_warnings res, pj_parents = [], pj_links = [], pj_groups = [],
            pj_infrastructure = [], pj_candidates = []\<rparr>;
         links = display_links origin (pj_links s);
         cut = (if topology_max_links < length (pj_links s)
           then [''topology truncated to '' @ int_str (int topology_max_links) @ '' display links''] else [])
     in \<lparr>pn_topology = (if links = [] then None else Some \<lparr>tp_root = origin, tp_links = links\<rparr>),
         pn_infrastructure_hosts = sorted_set (pj_infrastructure s),
         pn_host_groups = sort_key fst (numbered_groups (pj_candidates s) (pj_groups s)),
         pn_warnings = sorted_set (pj_warnings s @ cut)\<rparr>)"

text \<open>\<open>default_topology_root\<close>; \<open>hostname\<close> is the stripped name of the machine. The search for a free
  name ends after at most one more candidate than there are reserved names.\<close>

fun free_root :: "string list \<Rightarrow> nat \<Rightarrow> nat \<Rightarrow> string \<Rightarrow> string option" where
  "free_root reserved 0 suffix name = None"
| "free_root reserved (Suc fuel) suffix name =
    (if name \<in> set reserved
     then free_root reserved fuel (Suc suffix) (''mocop-local-'' @ int_str (int suffix))
     else Some name)"

definition default_topology_root :: "string option \<Rightarrow> string \<Rightarrow> string list \<Rightarrow> string option" where
  "default_topology_root local_host hostname reserved =
    (case local_host of
       Some a \<Rightarrow> Some a
     | None \<Rightarrow>
         if is_safe_alias hostname \<and> hostname \<notin> set reserved then Some hostname
         else free_root reserved (length reserved + 2) 2 ''mocop-local'')"

end
