(* ===== verification/Ssh_Topology_Tree.thy ===== *)
theory Ssh_Topology_Tree
  imports Ssh_Topology
begin

text \<open>
  The projection of SSH routes is a tree over the monitor, and one the configuration parser would
  accept: whatever the routes are (nested, cyclic, contradicting each other), every drawn node has one
  parent and hangs off the root.
\<close>

section \<open>Chains\<close>

definition combine_step :: "string \<Rightarrow> string \<Rightarrow> string \<Rightarrow> string list \<Rightarrow> string list" where
  "combine_step origin node h combined =
    (if h \<notin> set combined \<and> h \<noteq> origin \<and> h \<noteq> node then combined @ [h] else combined)"

lemma combine_hops_set: "set (combine_hops origin node hops) = set hops - {origin, node}"
proof -
  have "set (fold (combine_step origin node) hops acc) = set acc \<union> (set hops - {origin, node})" for acc
    by (induction hops arbitrary: acc) (auto simp: combine_step_def)
  from this [of "[]"] show ?thesis by (simp add: combine_hops_def combine_step_def [abs_def])
qed

text \<open>Every cached chain avoids the root and consists of names from \<open>S\<close>.\<close>

definition cache_ok :: "string set \<Rightarrow> string \<Rightarrow> (string, string list) dict \<Rightarrow> bool" where
  "cache_ok S origin cache \<longleftrightarrow> (\<forall>k c. dget cache k = Some c \<longrightarrow> origin \<notin> set c \<and> set c \<subseteq> S)"

lemma cache_ok_dset: "cache_ok S origin cache \<Longrightarrow> origin \<notin> set c \<Longrightarrow> set c \<subseteq> S \<Longrightarrow> cache_ok S origin (dset cache k c)"
  by (simp add: cache_ok_def)

definition routes_within :: "string set \<Rightarrow> (string, ssh_route) dict \<Rightarrow> bool" where
  "routes_within S routes \<longleftrightarrow> (\<forall>a r. dget routes a = Some r \<longrightarrow> set (sr_hops r) \<subseteq> S)"

lemma chain_walk_ok:
  "chain_walk routes cache stack cursor = (stack', chain, cache', ws) \<Longrightarrow> cache_ok S origin cache \<Longrightarrow>
    (\<forall>n \<in> set stack. dget routes n \<noteq> None) \<Longrightarrow>
    cache_ok S origin cache' \<and> (\<forall>n \<in> set stack'. dget routes n \<noteq> None) \<and> origin \<notin> set chain \<and> set chain \<subseteq> S
    \<and> set stack \<subseteq> set stack' \<and> (cursor \<in> set stack' \<or> dget cache' cursor \<noteq> None)"
proof (induction routes cache stack cursor rule: chain_walk.induct)
  case (1 routes cache stack cursor)
  note eq = "1.prems"(1) [unfolded chain_walk.simps [of routes cache stack cursor]]
  show ?case
  proof (cases "dget routes cursor")
    case None
    then show ?thesis using eq "1.prems" by (auto simp: cache_ok_dset)
  next
    case (Some route)
    show ?thesis
    proof (cases "sr_hops route")
      case Nil
      then show ?thesis using eq Some "1.prems" by (auto simp: cache_ok_dset)
    next
      case (Cons first rest)
      consider (leaf) "dget routes first = None" | (cached) "dget routes first \<noteq> None" "dget cache first \<noteq> None"
        | (cycle) "dget routes first \<noteq> None" "dget cache first = None" "first \<in> set (cursor # stack)"
        | (deeper) "dget routes first \<noteq> None" "dget cache first = None" "first \<notin> set (cursor # stack)" by blast
      then show ?thesis
      proof cases
        case deeper
        have "chain_walk routes cache (cursor # stack) first = (stack', chain, cache', ws)"
          using eq Some Cons deeper by simp
        moreover have "\<forall>n \<in> set (cursor # stack). dget routes n \<noteq> None" using "1.prems"(3) Some by simp
        ultimately have "cache_ok S origin cache' \<and> (\<forall>n \<in> set stack'. dget routes n \<noteq> None)
            \<and> origin \<notin> set chain \<and> set chain \<subseteq> S \<and> set (cursor # stack) \<subseteq> set stack'"
          using "1.IH" [OF Some Cons] deeper "1.prems"(2) by blast
        then show ?thesis by simp
      next
        case cached
        then obtain c where "dget cache first = Some c" by blast
        then show ?thesis using eq Some Cons cached "1.prems" by (auto simp: cache_ok_def)
      qed (use eq Some Cons "1.prems" in \<open>auto split: if_splits\<close>)
    qed
  qed
qed

lemma unwind_ok:
  "cache_ok S origin cache \<Longrightarrow> routes_within S routes \<Longrightarrow> (\<forall>n \<in> set nodes. dget routes n \<noteq> None) \<Longrightarrow>
    set chain \<subseteq> S \<Longrightarrow> cache_ok S origin (unwind origin routes nodes chain cache)
    \<and> (\<forall>n. n \<in> set nodes \<or> dget cache n \<noteq> None \<longrightarrow> dget (unwind origin routes nodes chain cache) n \<noteq> None)"
proof (induction nodes arbitrary: chain cache)
  case (Cons node nodes)
  obtain route where route: "dget routes node = Some route" using Cons.prems(3) by auto
  define c where "c = combine_hops origin node (chain @ sr_hops route)"
  have c: "origin \<notin> set c" "set c \<subseteq> S"
    using Cons.prems(2,4) route by (auto simp: c_def combine_hops_set routes_within_def)
  have step: "unwind origin routes (node # nodes) chain cache = unwind origin routes nodes c (dset cache node c)"
    by (simp add: route c_def Let_def)
  have nodes: "\<forall>n \<in> set nodes. dget routes n \<noteq> None" using Cons.prems(3) by simp
  from Cons.IH [OF cache_ok_dset [OF Cons.prems(1) c] Cons.prems(2) nodes c(2), of node]
  show ?case unfolding step by (auto simp del: unwind.simps)
qed simp

lemma expanded_hops_ok:
  assumes "cache_ok S origin cache" "routes_within S routes"
    and "expanded_hops origin routes a cache = (hops, cache', ws)"
  shows "cache_ok S origin cache'" and "origin \<notin> set hops" and "set hops \<subseteq> S" and "dget cache' a = Some hops"
proof -
  have "cache_ok S origin cache' \<and> dget cache' a = Some hops"
  proof (cases "dget cache a")
    case (Some chain)
    then show ?thesis using assms by (auto simp: expanded_hops_def)
  next
    case None
    obtain stack chain c w where walk: "chain_walk routes cache [] a = (stack, chain, c, w)" by (metis prod_cases4)
    have out: "cache' = unwind origin routes stack chain c" "hops = dget_or [] cache' a"
      using assms(3) None walk by (auto simp: expanded_hops_def Let_def)
    have f: "cache_ok S origin c" "\<forall>n \<in> set stack. dget routes n \<noteq> None" "set chain \<subseteq> S"
      "a \<in> set stack \<or> dget c a \<noteq> None"
      using chain_walk_ok [OF walk assms(1)] by simp_all
    from unwind_ok [OF f(1) assms(2) f(2,3)] f(4)
    have "cache_ok S origin cache'" "dget cache' a \<noteq> None" unfolding out(1) by blast+
    then show ?thesis by (auto simp: out(2) dget_or_def)
  qed
  then show "cache_ok S origin cache'" "origin \<notin> set hops" "set hops \<subseteq> S" "dget cache' a = Some hops"
    by (auto simp: cache_ok_def)
qed

section \<open>Links\<close>

text \<open>The links drawn so far: a link for every parent, each with the attributes of its ends, every node
  with one parent, every source on a path from the root, no link into the root.\<close>

definition link_at :: "(string, ssh_route) dict \<Rightarrow> string \<times> string \<Rightarrow> topology_link" where
  "link_at routes e = \<lparr>tl_source = fst e, tl_target = snd e, tl_transport = ''ssh'',
    tl_label = link_label routes (snd e)\<rparr>"

definition drawn :: "projecting \<Rightarrow> (string \<times> string) set" where
  "drawn s = fst ` set (pj_links s)"

definition tree_ok :: "string set \<Rightarrow> string \<Rightarrow> (string, ssh_route) dict \<Rightarrow> projecting \<Rightarrow> bool" where
  "tree_ok S origin routes s \<longleftrightarrow>
    wf_dict (pj_links s) \<and> (\<forall>(e, l) \<in> set (pj_links s). l = link_at routes e)
    \<and> (\<forall>p t. (p, t) \<in> drawn s \<longleftrightarrow> dget (pj_parents s) t = Some p)
    \<and> (\<forall>(p, t) \<in> drawn s. (origin, p) \<in> (drawn s)\<^sup>* \<and> t \<noteq> origin \<and> p \<noteq> t \<and> p \<in> insert origin S \<and> t \<in> S)"

lemma add_link_ok:
  assumes "tree_ok S origin routes s" "(origin, p) \<in> (drawn s)\<^sup>*" "t \<noteq> origin" "p \<in> insert origin S" "t \<in> S"
  shows "tree_ok S origin routes (add_link routes (p, t) s)"
    and "drawn s \<subseteq> drawn (add_link routes (p, t) s)"
    and "(origin, t) \<in> (drawn (add_link routes (p, t) s))\<^sup>*"
proof -
  let ?s = "add_link routes (p, t) s"
  have "tree_ok S origin routes ?s \<and> drawn s \<subseteq> drawn ?s \<and> (origin, t) \<in> (drawn ?s)\<^sup>*"
  proof (cases "p = t")
    case True
    then show ?thesis using assms by (simp add: add_link_def)
  next
    case False
    show ?thesis
    proof (cases "dget (pj_parents s) t")
      case (Some q)
      then have qt: "(q, t) \<in> drawn s" "(origin, q) \<in> (drawn s)\<^sup>*" using assms(1) by (auto simp: tree_ok_def)
      then have t: "(origin, t) \<in> (drawn s)\<^sup>*" by (meson rtrancl.rtrancl_into_rtrancl)
      show ?thesis
      proof (cases "q = p")
        case False
        then have "drawn ?s = drawn s" "tree_ok S origin routes ?s = tree_ok S origin routes s"
          using Some \<open>p \<noteq> t\<close> by (simp_all add: add_link_def drawn_def tree_ok_def)
        then show ?thesis using assms(1) t by simp
      next
        case True
        then have pt: "(p, t) \<in> fst ` set (pj_links s)" using qt(1) by (simp add: drawn_def)
        have new: "pj_links ?s = dset (pj_links s) (p, t) (link_at routes (p, t))"
          "pj_parents ?s = dset (pj_parents s) t p"
          using Some True \<open>p \<noteq> t\<close> by (simp_all add: add_link_def link_at_def)
        have dr: "drawn ?s = drawn s" using pt by (auto simp: drawn_def new)
        have par: "dget (pj_parents ?s) x = dget (pj_parents s) x" for x using Some True by (simp add: new)
        have "\<forall>(e, l) \<in> set (pj_links ?s). l = link_at routes e"
          using assms(1) set_dset [of "(p, t)" "link_at routes (p, t)" "pj_links s"]
          by (auto simp: new tree_ok_def)
        then have "tree_ok S origin routes ?s"
          using assms(1) unfolding tree_ok_def dr par by (simp add: new)
        then show ?thesis using t by (simp add: dr)
      qed
    next
      case None
      have new: "pj_links ?s = dset (pj_links s) (p, t) (link_at routes (p, t))"
        "pj_parents ?s = dset (pj_parents s) t p"
        using None \<open>p \<noteq> t\<close> by (simp_all add: add_link_def link_at_def)
      have dr: "drawn ?s = insert (p, t) (drawn s)" by (simp add: drawn_def new)
      have mono: "(drawn s)\<^sup>* \<subseteq> (drawn ?s)\<^sup>*" by (rule rtrancl_mono) (auto simp: dr)
      have p: "(origin, p) \<in> (drawn ?s)\<^sup>*" using assms(2) mono by blast
      then have t: "(origin, t) \<in> (drawn ?s)\<^sup>*" by (rule rtrancl.rtrancl_into_rtrancl) (simp add: dr)
      have "\<forall>(e, l) \<in> set (pj_links ?s). l = link_at routes e"
        using assms(1) set_dset [of "(p, t)" "link_at routes (p, t)" "pj_links s"]
        by (auto simp: new tree_ok_def)
      moreover have "(q, u) \<in> drawn ?s \<longleftrightarrow> dget (pj_parents ?s) u = Some q" for q u
        using assms(1) None by (auto simp: dr new tree_ok_def)
      moreover have "(origin, q) \<in> (drawn ?s)\<^sup>* \<and> u \<noteq> origin \<and> q \<noteq> u \<and> q \<in> insert origin S \<and> u \<in> S"
        if "(q, u) \<in> drawn ?s" for q u
        using that assms(1,3-5) p mono \<open>p \<noteq> t\<close> by (auto simp: dr tree_ok_def)
      moreover have "wf_dict (pj_links ?s)" using assms(1) by (simp add: new tree_ok_def)
      ultimately have "tree_ok S origin routes ?s" unfolding tree_ok_def by blast
      then show ?thesis using t by (auto simp: dr)
    qed
  qed
  then show "tree_ok S origin routes ?s" "drawn s \<subseteq> drawn ?s" "(origin, t) \<in> (drawn ?s)\<^sup>*" by blast+
qed

lemma add_path_ok:
  "tree_ok S origin routes s \<Longrightarrow> (origin, x) \<in> (drawn s)\<^sup>* \<Longrightarrow> x \<in> insert origin S \<Longrightarrow> origin \<notin> set xs \<Longrightarrow>
    set xs \<subseteq> S \<Longrightarrow>
    tree_ok S origin routes (fold (add_link routes) (zip (x # xs) xs) s)
    \<and> drawn s \<subseteq> drawn (fold (add_link routes) (zip (x # xs) xs) s)
    \<and> (\<forall>y \<in> set xs. (origin, y) \<in> (drawn (fold (add_link routes) (zip (x # xs) xs) s))\<^sup>*)"
proof (induction xs arbitrary: x s)
  case (Cons y xs)
  have y: "y \<noteq> origin" "y \<in> S" using Cons.prems(4,5) by auto
  note f = add_link_ok [OF Cons.prems(1,2) y(1) Cons.prems(3) y(2)]
  let ?s = "add_link routes (x, y) s"
  have rest: "origin \<notin> set xs" "set xs \<subseteq> S" "y \<in> insert origin S" using Cons.prems(4,5) y by auto
  note IH = Cons.IH [OF f(1,3) rest(3,1,2)]
  have "(origin, y) \<in> (drawn (fold (add_link routes) (zip (y # xs) xs) ?s))\<^sup>*"
    using f(3) rtrancl_mono [of "drawn ?s" "drawn (fold (add_link routes) (zip (y # xs) xs) ?s)"] IH by blast
  then show ?case using IH f(2) by auto
qed simp

lemma note_group_sel [simp]:
  "pj_cache (note_group known host hops s) = pj_cache s" "pj_links (note_group known host hops s) = pj_links s"
  "pj_parents (note_group known host hops s) = pj_parents s"
  by (simp_all add: note_group_def split: list.split option.split)

lemma add_link_cache [simp]: "pj_cache (fold (add_link routes) es s) = pj_cache s"
  by (induction es arbitrary: s) (auto simp: add_link_def split: prod.split)

lemma project_host_ok:
  assumes "tree_ok S origin routes s" "cache_ok S origin (pj_cache s)" "routes_within S routes" "host \<in> insert origin S"
  shows "tree_ok S origin routes (project_host origin routes known host s)"
    and "cache_ok S origin (pj_cache (project_host origin routes known host s))"
    and "drawn s \<subseteq> drawn (project_host origin routes known host s)"
    and "(origin, host) \<in> (drawn (project_host origin routes known host s))\<^sup>*"
proof -
  let ?t = "project_host origin routes known host s"
  have "tree_ok S origin routes ?t \<and> cache_ok S origin (pj_cache ?t) \<and> drawn s \<subseteq> drawn ?t
    \<and> (origin, host) \<in> (drawn ?t)\<^sup>*"
  proof (cases "host = origin")
    case True
    then show ?thesis using assms by (simp add: project_host_def)
  next
    case False
    obtain hops cache ws where ex: "expanded_hops origin routes host (pj_cache s) = (hops, cache, ws)"
      by (metis prod_cases3)
    note e = expanded_hops_ok [OF assms(2,3) ex]
    define s1 where "s1 = note_group known host hops (s\<lparr>pj_cache := cache, pj_warnings := pj_warnings s @ ws,
      pj_infrastructure := pj_infrastructure s @ hops\<rparr>)"
    have t: "?t = fold (add_link routes) (zip (origin # hops @ [host]) (hops @ [host])) s1"
      using False ex by (simp add: project_host_def Let_def s1_def)
    have dr: "drawn s1 = drawn s" by (simp add: drawn_def s1_def)
    have "tree_ok S origin routes s1" using assms(1) unfolding tree_ok_def dr by (simp add: s1_def)
    moreover have "origin \<notin> set (hops @ [host])" "set (hops @ [host]) \<subseteq> S" using e(2,3) False assms(4) by auto
    ultimately have "tree_ok S origin routes ?t \<and> drawn s \<subseteq> drawn ?t \<and> (origin, host) \<in> (drawn ?t)\<^sup>*"
      unfolding t using add_path_ok [of S origin routes s1 origin "hops @ [host]"] by (simp add: dr)
    moreover have "pj_cache ?t = cache" by (simp add: t s1_def)
    ultimately show ?thesis using e(1) by simp
  qed
  then show "tree_ok S origin routes ?t" "cache_ok S origin (pj_cache ?t)" "drawn s \<subseteq> drawn ?t"
    "(origin, host) \<in> (drawn ?t)\<^sup>*" by blast+
qed

lemma project_hosts_ok:
  "tree_ok S origin routes s \<Longrightarrow> cache_ok S origin (pj_cache s) \<Longrightarrow> routes_within S routes \<Longrightarrow>
    set hosts \<subseteq> insert origin S \<Longrightarrow>
    tree_ok S origin routes (fold (project_host origin routes known) hosts s)
    \<and> drawn s \<subseteq> drawn (fold (project_host origin routes known) hosts s)
    \<and> (\<forall>h \<in> set hosts. (origin, h) \<in> (drawn (fold (project_host origin routes known) hosts s))\<^sup>*)"
proof (induction hosts arbitrary: s)
  case (Cons h hosts)
  have h: "h \<in> insert origin S" "set hosts \<subseteq> insert origin S" using Cons.prems(4) by auto
  note f = project_host_ok [OF Cons.prems(1-3) h(1), of known]
  note IH = Cons.IH [OF f(1,2) Cons.prems(3) h(2)]
  let ?u = "fold (project_host origin routes known) hosts (project_host origin routes known h s)"
  have "(origin, h) \<in> (drawn ?u)\<^sup>*" using f(4) rtrancl_mono IH by blast
  then show ?case using IH f(3) by auto
qed simp

section \<open>The cut\<close>

text \<open>A set of links drawn as a tree.\<close>

definition tree_links :: "string \<Rightarrow> topology_link list \<Rightarrow> bool" where
  "tree_links origin links \<longleftrightarrow> distinct (map tl_target links)
    \<and> (\<forall>l \<in> set links. tl_target l \<noteq> origin \<and> tl_source l \<noteq> tl_target l)"

lemma one_parent:
  "tree_links origin links \<Longrightarrow> l \<in> set links \<Longrightarrow> m \<in> set links \<Longrightarrow> tl_target l = tl_target m \<Longrightarrow> l = m"
  by (metis distinct_map inj_on_def tree_links_def)

lemma links_by_source_get: "dget_or [] (links_by_source links) n = filter (\<lambda>l. tl_source l = n) links"
proof -
  have "dget_or [] (foldl (\<lambda>d l. dappend d (tl_source l) l) d links) n
      = dget_or [] d n @ filter (\<lambda>l. tl_source l = n) links" for d
    by (induction links arbitrary: d) (simp_all add: dappend_def)
  from this [of "[]"] show ?thesis by (simp add: links_by_source_def)
qed

text \<open>The walk: what is retained hangs off the root, no queued node has a retained child, no node
  is queued twice.\<close>

definition walk_ok :: "string \<Rightarrow> topology_link list \<Rightarrow> topology_link list \<Rightarrow> string list \<Rightarrow> bool" where
  "walk_ok origin links retained pending \<longleftrightarrow>
    set retained \<subseteq> set links \<and> distinct (map tl_target retained) \<and> distinct pending
    \<and> set pending \<subseteq> insert origin (tl_target ` set retained)
    \<and> (\<forall>l \<in> set retained. tl_source l \<notin> set pending \<and> (origin, tl_source l) \<in> (edges retained)\<^sup>*)"

lemma edges_append: "edges (a @ b) = edges a \<union> edges b"
  by (auto simp: edges_def)

lemma reached_targets:
  assumes "(origin, x) \<in> (edges retained)\<^sup>*"
  shows "x \<in> insert origin (tl_target ` set retained)"
  using assms by (induction rule: rtrancl_induct) (auto simp: edges_def)

lemma walk_ok_step:
  assumes "tree_links origin links" "walk_ok origin links retained (source # pending)"
    and "new = take n (filter (\<lambda>l. tl_source l = source) links)"
  shows "walk_ok origin links (retained @ new) (pending @ map tl_target new)"
proof -
  have w: "set retained \<subseteq> set links" "distinct (map tl_target retained)" "distinct pending" "source \<notin> set pending"
    "set (source # pending) \<subseteq> insert origin (tl_target ` set retained)"
    "\<And>l. l \<in> set retained \<Longrightarrow> tl_source l \<notin> insert source (set pending) \<and> (origin, tl_source l) \<in> (edges retained)\<^sup>*"
    using assms(2) by (auto simp: walk_ok_def)
  have new: "l \<in> set links \<and> tl_source l = source" if "l \<in> set new" for l
    using that assms(3) by (auto dest: in_set_takeD)
  have dn: "distinct (map tl_target new)"
  proof -
    have "distinct (map tl_target (filter (\<lambda>l. tl_source l = source) links))"
      using assms(1) by (simp add: tree_links_def distinct_map_filter)
    then show ?thesis by (simp add: assms(3) take_map [symmetric])
  qed
  have fresh: "tl_target m \<noteq> tl_target l" if "m \<in> set retained" "l \<in> set new" for l m
  proof
    assume "tl_target m = tl_target l"
    then have "m = l" using one_parent [OF assms(1)] w(1) that new by blast
    then show False using w(6) [OF that(1)] new [OF that(2)] by simp
  qed
  have not_queued: "tl_target l \<notin> set (source # pending)" if "l \<in> set new" for l
  proof
    assume "tl_target l \<in> set (source # pending)"
    then have "tl_target l = origin \<or> tl_target l \<in> tl_target ` set retained" using w(5) by blast
    moreover have "tl_target l \<noteq> origin" using new [OF that] assms(1) by (simp add: tree_links_def)
    ultimately obtain m where "m \<in> set retained" "tl_target m = tl_target l" by auto
    then show False using fresh that by blast
  qed
  have src: "(origin, source) \<in> (edges (retained @ new))\<^sup>*"
  proof -
    have "source = origin \<or> (\<exists>m \<in> set retained. tl_target m = source)" using w(5) by auto
    moreover have "(origin, tl_target m) \<in> (edges retained)\<^sup>*" if "m \<in> set retained" for m
      using w(6) [OF that] that by (auto simp: edges_def intro: rtrancl.rtrancl_into_rtrancl)
    ultimately have "(origin, source) \<in> (edges retained)\<^sup>*" by auto
    then show ?thesis using rtrancl_mono [of "edges retained" "edges (retained @ new)"] by (auto simp: edges_append)
  qed
  have old: "(origin, tl_source m) \<in> (edges (retained @ new))\<^sup>*" if "m \<in> set retained" for m
    using w(6) [OF that] rtrancl_mono [of "edges retained" "edges (retained @ new)"] by (auto simp: edges_append)
  have sources: "tl_source m \<notin> tl_target ` set new" if "m \<in> set retained" for m
  proof
    assume "tl_source m \<in> tl_target ` set new"
    then obtain l where l: "l \<in> set new" "tl_target l = tl_source m" by auto
    have "tl_source m \<in> insert origin (tl_target ` set retained)"
      using reached_targets w(6) [OF that] by blast
    moreover have "tl_target l \<noteq> origin" using new [OF l(1)] assms(1) by (simp add: tree_links_def)
    ultimately obtain x where "x \<in> set retained" "tl_target x = tl_target l" by (auto simp: l(2))
    then show False using fresh l(1) by blast
  qed
  have "tl_source l \<notin> set (pending @ map tl_target new) \<and> (origin, tl_source l) \<in> (edges (retained @ new))\<^sup>*"
    if "l \<in> set (retained @ new)" for l
  proof (cases "l \<in> set new")
    case True
    then have "tl_source l = source" using new by blast
    moreover have "source \<notin> tl_target ` set new" using not_queued by force
    ultimately show ?thesis using src w(4) by simp
  next
    case False
    then have "l \<in> set retained" using that by simp
    then show ?thesis using w(6) old sources by auto
  qed
  moreover have "set (retained @ new) \<subseteq> set links" using w(1) new by auto
  moreover have "distinct (map tl_target (retained @ new))" using w(2) dn fresh by auto
  moreover have "distinct (pending @ map tl_target new)" using w(3) dn not_queued by auto
  moreover have "set (pending @ map tl_target new) \<subseteq> insert origin (tl_target ` set (retained @ new))"
    using w(5) by auto
  ultimately show ?thesis unfolding walk_ok_def by blast
qed

lemma retain_links_ok:
  "tree_links origin links \<Longrightarrow> walk_ok origin links retained pending \<Longrightarrow> length retained \<le> limit \<Longrightarrow>
    \<exists>rest. walk_ok origin links (retain_links limit (links_by_source links) retained pending) rest
      \<and> length (retain_links limit (links_by_source links) retained pending) \<le> limit"
proof (induction limit "links_by_source links" retained pending rule: retain_links.induct)
  case (1 limit retained)
  then show ?case by (intro exI [of _ "[]"]) simp
next
  case (2 limit retained source pending)
  show ?case
  proof (cases "limit \<le> length retained")
    case True
    then show ?thesis using "2.prems" by (intro exI [of _ "source # pending"]) simp
  next
    case False
    obtain r p where rp: "retain_children limit (dget_or [] (links_by_source links) source) retained pending = (r, p)"
      by fastforce
    from retain_children_grows [OF this] obtain n where
      r: "r = retained @ take n (filter (\<lambda>l. tl_source l = source) links)"
      and p: "p = pending @ map tl_target (take n (filter (\<lambda>l. tl_source l = source) links))"
      and len: "length r \<le> limit"
      using False by (auto simp: links_by_source_get)
    have "walk_ok origin links r p" unfolding r p by (rule walk_ok_step [OF "2.prems"(1,2) refl])
    then show ?thesis using "2.hyps" [OF False refl _ "2.prems"(1), of r p] rp len False by simp
  qed
qed

section \<open>The inferred topology\<close>

lemma ordered_links_tree:
  assumes "tree_ok S origin routes s"
  shows "tree_links origin (ordered_links (pj_links s))"
    and "edges (ordered_links (pj_links s)) = drawn s"
    and "\<forall>l \<in> set (ordered_links (pj_links s)). \<exists>e \<in> drawn s. l = link_at routes e"
proof -
  let ?L = "sort_key fst (pj_links s)"
  have val: "l = link_at routes e" if "(e, l) \<in> set (pj_links s)" for e l
    using that assms by (auto simp: tree_ok_def)
  have parents: "(p, t) \<in> drawn s \<longleftrightarrow> dget (pj_parents s) t = Some p" for p t
    using assms by (simp add: tree_ok_def)
  have ends: "(origin, p) \<in> (drawn s)\<^sup>* \<and> t \<noteq> origin \<and> p \<noteq> t" if "(p, t) \<in> drawn s" for p t
    using that assms by (auto simp: tree_ok_def)
  have wf: "distinct (map fst ?L)" by (rule sorted_dict(2)) (use assms in \<open>simp add: tree_ok_def\<close>)
  have tgt: "map tl_target (map snd ?L) = map snd (map fst ?L)"
  proof -
    have "tl_target l = snd e" if "(e, l) \<in> set (pj_links s)" for e l
      unfolding val [OF that] by (simp add: link_at_def)
    then show ?thesis by auto
  qed
  have inj: "inj_on snd (fst ` set ?L)"
  proof (rule inj_onI)
    fix a b assume ab: "a \<in> fst ` set ?L" "b \<in> fst ` set ?L" "snd a = snd b"
    have "(fst a, snd a) \<in> drawn s" unfolding prod.collapse using ab(1) by (simp add: drawn_def)
    moreover have "(fst b, snd b) \<in> drawn s" unfolding prod.collapse using ab(2) by (simp add: drawn_def)
    ultimately have "dget (pj_parents s) (snd a) = Some (fst a)" "dget (pj_parents s) (snd b) = Some (fst b)"
      by (blast intro: iffD1 [OF parents])+
    then show "a = b" using ab(3) by (simp add: prod_eq_iff)
  qed
  have dist: "distinct (map tl_target (ordered_links (pj_links s)))"
    unfolding ordered_links_def tgt using wf inj by (simp add: distinct_map comp_inj_on)
  show mem: "\<forall>l \<in> set (ordered_links (pj_links s)). \<exists>e \<in> drawn s. l = link_at routes e"
  proof
    fix l assume "l \<in> set (ordered_links (pj_links s))"
    then obtain e where "(e, l) \<in> set (pj_links s)" by (auto simp: ordered_links_def)
    then show "\<exists>e \<in> drawn s. l = link_at routes e" using val by (intro bexI [of _ e]) (blast, force simp: drawn_def)
  qed
  have "tl_target l \<noteq> origin \<and> tl_source l \<noteq> tl_target l" if "l \<in> set (ordered_links (pj_links s))" for l
  proof -
    from mem that obtain p t where "(p, t) \<in> drawn s" "l = link_at routes (p, t)" by fastforce
    then show ?thesis using ends by (simp add: link_at_def)
  qed
  then show "tree_links origin (ordered_links (pj_links s))"
    using dist unfolding tree_links_def by blast
  show "edges (ordered_links (pj_links s)) = drawn s"
    using val by (force simp: edges_def ordered_links_def drawn_def link_at_def)
qed

lemma display_links_ok:
  assumes "tree_ok S origin routes s"
  defines "links \<equiv> display_links origin (pj_links s)"
  shows "distinct (map tl_target links)" and "length links \<le> topology_max_links"
    and "\<forall>l \<in> set links. \<exists>e \<in> drawn s. l = link_at routes e"
    and "link_ends links \<subseteq> below links origin"
proof -
  let ?all = "ordered_links (pj_links s)"
  note t = ordered_links_tree [OF assms(1)]
  have "\<exists>rest. (walk_ok origin ?all links rest \<or> links = ?all) \<and> length links \<le> topology_max_links"
  proof (cases "topology_max_links < length ?all")
    case True
    have "walk_ok origin ?all [] [origin]" by (simp add: walk_ok_def)
    from retain_links_ok [OF t(1) this, of topology_max_links] True
    show ?thesis by (auto simp: links_def display_links_def Let_def)
  next
    case False
    then show ?thesis by (simp add: links_def display_links_def Let_def)
  qed
  then obtain rest where w: "walk_ok origin ?all links rest \<or> links = ?all" "length links \<le> topology_max_links" by blast
  have sub: "set links \<subseteq> set ?all" "distinct (map tl_target links)"
    using w(1) t(1) by (auto simp: walk_ok_def tree_links_def)
  show "distinct (map tl_target links)" "length links \<le> topology_max_links" by (fact sub w(2))+
  show "\<forall>l \<in> set links. \<exists>e \<in> drawn s. l = link_at routes e" using sub(1) t(3) by blast
  have "(origin, tl_source l) \<in> (edges links)\<^sup>*" if l: "l \<in> set links" for l
    using w(1)
  proof
    assume "walk_ok origin ?all links rest"
    then show ?thesis using l by (simp add: walk_ok_def)
  next
    assume all: "links = ?all"
    then have "(tl_source l, tl_target l) \<in> drawn s" using l t(2) by (auto simp: edges_def)
    then show ?thesis using assms(1) unfolding all t(2) by (auto simp: tree_ok_def)
  qed
  then show "link_ends links \<subseteq> below links origin"
    by (auto simp: link_ends_def below_def Image_def edges_def intro: rtrancl.rtrancl_into_rtrancl)
qed

text \<open>The hops of a resolved route are safe aliases.\<close>

definition alias_char :: "char \<Rightarrow> bool" where
  "alias_char c \<longleftrightarrow> alnum c \<or> c = CHR ''.'' \<or> c = CHR ''_'' \<or> c = CHR ''-''"

lemma safe_alias_chars: "is_safe_alias s \<longleftrightarrow> s \<noteq> [] \<and> alnum (hd s) \<and> length s \<le> 253 \<and> list_all alias_char s"
  by (cases s) (auto simp: is_safe_alias_def alias_char_def list_all_iff)

lemma dec_str_chars: "0 \<le> n \<Longrightarrow> list_all alias_char (dec_str n)"
proof (induction n rule: dec_str.induct)
  case (1 n)
  have digit: "alias_char (digit_char d)" if "0 \<le> d" "d < 10" for d
  proof -
    have "d = 0 \<or> d = 1 \<or> d = 2 \<or> d = 3 \<or> d = 4 \<or> d = 5 \<or> d = 6 \<or> d = 7 \<or> d = 8 \<or> d = 9"
      using that by arith
    then show ?thesis by (elim disjE) (simp_all add: digit_char_def alias_char_def alnum_def Let_def)
  qed
  show ?case
    using 1 digit [of n] digit [of "n mod 10"] by (cases "n < 10") (simp_all add: dec_str.simps [of n])
qed

lemma synthetic_safe: "is_safe_alias target \<Longrightarrow> length (int_str (int index)) \<le> 100 \<Longrightarrow>
    is_safe_alias (synthetic_proxy_alias target index)"
proof -
  assume t: "is_safe_alias target" and short: "length (int_str (int index)) \<le> 100"
  have "list_all alias_char (int_str (int index))" using dec_str_chars by (simp add: int_str_def)
  moreover have "list_all alias_char (take k target)" for k
    using t by (auto simp: safe_alias_chars list_all_iff dest: in_set_takeD)
  moreover have "list_all alias_char ''proxy-''" by (simp add: alias_char_def alnum_def)
  moreover have "alias_char CHR ''-''" by (simp add: alias_char_def)
  ultimately show ?thesis
    using short by (simp add: safe_alias_chars synthetic_proxy_alias_def Let_def alnum_def del: take_append) arith
qed

lemma known_index_safe:
  assumes "dget (known_alias_index aliases) k = Some a"
  shows "a \<in> set aliases"
proof -
  let ?d = "foldl (\<lambda>d a. dappend d (casefold a) a) [] aliases"
  have inv: "\<forall>k vs. (k, vs) \<in> set (foldl (\<lambda>d a. dappend d (casefold a) a) d xs) \<longrightarrow> set vs \<subseteq> A \<union> set xs"
    if "\<forall>k vs. (k, vs) \<in> set d \<longrightarrow> set vs \<subseteq> A" "wf_dict d" for d :: "(string, string list) dict" and xs A
    using that
  proof (induction xs arbitrary: d A)
    case (Cons x xs)
    have "\<forall>k vs. (k, vs) \<in> set (dappend d (casefold x) x) \<longrightarrow> set vs \<subseteq> insert x A"
    proof (intro allI impI)
      fix k vs assume "(k, vs) \<in> set (dappend d (casefold x) x)"
      then have "(k, vs) = (casefold x, dget_or [] d (casefold x) @ [x]) \<or> (k, vs) \<in> set d"
        using set_dset [of "casefold x" "dget_or [] d (casefold x) @ [x]" d] by (auto simp: dappend_def)
      then show "set vs \<subseteq> insert x A"
      proof
        assume "(k, vs) = (casefold x, dget_or [] d (casefold x) @ [x])"
        moreover have "set (dget_or [] d (casefold x)) \<subseteq> A"
          using Cons.prems(1) dget_mem [of d "casefold x"]
          by (cases "dget d (casefold x)") (simp_all add: dget_or_def)
        ultimately show ?thesis by auto
      qed (use Cons.prems(1) in blast)
    qed
    moreover have "wf_dict (dappend d (casefold x) x)" using Cons.prems(2) by (simp add: dappend_def)
    ultimately show ?case using Cons.IH [of "dappend d (casefold x) x" "insert x A"] by simp
  qed simp
  obtain vs where "(k, vs) \<in> set ?d" "length vs = 1" "a = hd vs"
    using dget_mem [OF assms] by (auto simp: known_alias_index_def Let_def)
  then have "(k, [a]) \<in> set ?d" by (cases vs) simp_all
  moreover have "\<forall>k vs. (k, vs) \<in> set ?d \<longrightarrow> set vs \<subseteq> set aliases" using inv [of "[]" "{}" aliases] by simp
  ultimately have "set [a] \<subseteq> set aliases" by blast
  then show ?thesis by simp
qed

lemma destination_known: "alias_from_destination v (known_alias_index aliases) = Some a \<Longrightarrow> a \<in> set aliases"
  by (auto simp: alias_from_destination_def Let_def Option.bind_eq_Some_conv split: if_splits dest: known_index_safe)

lemma length_dec_str: "0 \<le> n \<Longrightarrow> n < 10 ^ Suc k \<Longrightarrow> length (dec_str n) \<le> Suc k"
proof (induction k arbitrary: n)
  case 0
  then show ?case by (simp add: dec_str.simps [of n])
next
  case (Suc k)
  have "n div 10 < 10 ^ Suc k" using Suc.prems(2) by (simp add: div_less_iff_less_mult)
  then show ?case using Suc.IH [of "n div 10"] Suc.prems(1) by (simp add: dec_str.simps [of n])
qed

lemma synthetic_capped: "is_safe_alias target \<Longrightarrow> index \<le> 262144 \<Longrightarrow> is_safe_alias (synthetic_proxy_alias target index)"
  using length_dec_str [of "int index" 5] by (intro synthetic_safe) (simp_all add: int_str_def)

lemma length_strip: "length (strip s) \<le> length s"
  using length_dropWhile_le [of is_space s] length_dropWhile_le [of is_space "rev (dropWhile is_space s)"]
  by (simp add: strip_def)

lemma length_split_char: "length (split_char c s) \<le> Suc (length s)"
  by (induction s) (auto split: list.split)

lemma ssh_options_line:
  "dget (ssh_options wanted out) k = Some v \<Longrightarrow> \<exists>line \<in> set out. length v \<le> length line"
proof -
  have "dget (fold (read_option wanted) out d) k = Some v \<Longrightarrow>
      (\<exists>line \<in> set out. length v \<le> length line) \<or> dget d k = Some v" for d
  proof (induction out arbitrary: d)
    case (Cons line out)
    have "length (strip (part_after CHR '' '' line)) \<le> length line"
      using length_strip [of "part_after CHR '' '' line"] length_dropWhile_le [of "\<lambda>x. x \<noteq> CHR '' ''" line]
      by (simp add: part_after_def)
    then show ?case using Cons.IH [of "read_option wanted line d"] Cons.prems
      by (auto simp: read_option_def Let_def split: if_splits)
  qed simp
  then show "dget (ssh_options wanted out) k = Some v \<Longrightarrow> \<exists>line \<in> set out. length v \<le> length line"
    by (fastforce simp: ssh_options_def)
qed

lemma jump_hops_safe:
  "jump_hops target (known_alias_index aliases) index raws (hops, opaque) = (hops', opaque') \<Longrightarrow>
    list_all is_safe_alias aliases \<Longrightarrow> is_safe_alias target \<Longrightarrow> index + length raws \<le> 262145 \<Longrightarrow>
    list_all is_safe_alias hops \<Longrightarrow> list_all is_safe_alias hops'"
proof (induction target "known_alias_index aliases" index raws "(hops, opaque)" arbitrary: hops opaque rule: jump_hops.induct)
  case (2 target index raw rest hops opaque)
  obtain hop op where hop: "(case alias_from_destination raw (known_alias_index aliases) of
      Some a \<Rightarrow> (a, opaque) | None \<Rightarrow> (synthetic_proxy_alias target index, True)) = (hop, op)" by fastforce
  have "is_safe_alias hop"
    using hop "2.prems"(2-4) synthetic_capped [of target index] destination_known [of raw aliases]
    by (auto simp: list_all_iff split: option.splits)
  then have "list_all is_safe_alias (if hop \<notin> set hops \<and> hop \<noteq> target then hops @ [hop] else hops)"
    using "2.prems"(5) by simp
  moreover have "jump_hops target (known_alias_index aliases) (Suc index) rest
      (if hop \<notin> set hops \<and> hop \<noteq> target then hops @ [hop] else hops, op) = (hops', opaque')"
    using "2.prems"(1) hop by (simp split: option.splits)
  moreover have "Suc index + length rest \<le> 262145" using "2.prems"(4) by simp
  ultimately show ?case using "2.hyps" [OF hop [symmetric] refl] "2.prems"(2,3) by blast
qed simp

lemma command_hops_safe:
  "list_all is_safe_alias aliases \<Longrightarrow> list_all is_safe_alias hops \<Longrightarrow>
    list_all is_safe_alias (fold (command_hop target (known_alias_index aliases)) ds hops)"
proof (induction ds arbitrary: hops)
  case (Cons d ds)
  have "list_all is_safe_alias (command_hop target (known_alias_index aliases) d hops)"
    using Cons.prems destination_known [of d aliases] by (auto simp: command_hop_def list_all_iff split: option.split)
  then show ?case using Cons by simp
qed simp

definition capped :: "string list option \<Rightarrow> bool" where
  "capped out \<longleftrightarrow> (case out of None \<Rightarrow> True | Some lines \<Rightarrow> length (concat lines) \<le> 262144)"

lemma resolve_route_safe:
  assumes "resolve_route target aliases out = Some route" "capped out"
    and "list_all is_safe_alias aliases" "is_safe_alias target"
  shows "list_all is_safe_alias (sr_hops route)"
proof -
  obtain lines where out: "out = Some lines" using assms(1) by (cases out) (auto simp: resolve_route_def)
  define jump where "jump = strip (dget_or [] (ssh_options [''proxycommand'', ''proxyjump''] lines) ''proxyjump'')"
  have "length jump \<le> 262144"
  proof (cases "dget (ssh_options [''proxycommand'', ''proxyjump''] lines) ''proxyjump''")
    case None
    then show ?thesis by (simp add: jump_def dget_or_def strip_def)
  next
    case (Some v)
    from ssh_options_line [OF this] obtain line where line: "line \<in> set lines" "length v \<le> length line" by blast
    have "length line \<le> length (concat lines)" using line(1) by (induction lines) auto
    then show ?thesis using assms(2) line(2) Some length_strip [of v]
      by (simp add: capped_def out jump_def dget_or_def)
  qed
  then have len: "0 + length (split_char CHR '','' jump) \<le> 262145"
    using length_split_char [of "CHR '',''" jump] by simp
  obtain hops opaque where jh: "jump_hops target (known_alias_index aliases) 0 (split_char CHR '','' jump) ([], False)
      = (hops, opaque)" by fastforce
  have "list_all is_safe_alias hops" using jump_hops_safe [OF jh assms(3,4) len] by simp
  moreover have "is_safe_alias (synthetic_proxy_alias target 0)" using assms(4) by (intro synthetic_capped) simp_all
  ultimately show ?thesis
    using assms(1) jh command_hops_safe [OF assms(3), of "[]" target]
    by (auto simp: resolve_route_def out Let_def jump_def [symmetric] proxy_jump_route_def proxy_command_route_def
        split: if_splits)
qed

section \<open>What is shown\<close>

lemma resolved_routes_from:
  assumes "dget (rs_routes (resolve_rounds resolver order known lh n s)) a = Some r"
    and "set (rs_pending s) \<subseteq> set known"
  shows "dget (rs_routes s) a = Some r \<or> (a \<in> set known \<and> (\<exists>m. resolver m a = Some r))"
  using assms
proof (induction resolver order known lh n s rule: resolve_rounds.induct)
  case (1 resolver order known lh n s)
  have one: "dget (rs_routes (fold (complete_one (resolver n) known lh) as t)) a = Some r \<Longrightarrow>
      dget (rs_routes t) a = Some r \<or> (a \<in> set as \<and> resolver n a = Some r)" for as t
  proof (induction as arbitrary: t)
    case (Cons b as)
    then have "dget (rs_routes (complete_one (resolver n) known lh b t)) a = Some r
        \<or> a \<in> set as \<and> resolver n a = Some r" by simp
    then show ?case by (auto simp: complete_one_def queue_hops_def split: option.splits if_splits)
  qed simp
  define s' where "s' = resolve_batch (resolver n) (order n) known lh s"
  have batch: "dget (rs_routes s') a = Some r \<Longrightarrow>
      dget (rs_routes s) a = Some r \<or> (a \<in> set known \<and> resolver n a = Some r)"
    using one [of "set_iter (order n) (rs_pending s)" "s\<lparr>rs_pending := []\<rparr>"] "1.prems"(2)
    by (auto simp: s'_def resolve_batch_def)
  show ?case
  proof (cases "rs_pending s = []")
    case True
    then show ?thesis using "1.prems"(1) by (simp add: resolve_rounds.simps [of resolver order known lh n s])
  next
    case False
    show ?thesis
    proof (cases "rs_pending s' = []")
      case True
      then have "dget (rs_routes s') a = Some r"
        using "1.prems"(1) False by (simp add: resolve_rounds.simps [of resolver order known lh n s] s'_def Let_def)
      then show ?thesis using batch by blast
    next
      case more: False
      have "set (rs_pending s') \<subseteq> set known"
        using resolve_batch_facts(2) [OF s'_def] by (auto simp: unresolved_def)
      moreover have "dget (rs_routes (resolve_rounds resolver order known lh (Suc n) s')) a = Some r"
        using "1.prems"(1) False more
        by (simp add: resolve_rounds.simps [of resolver order known lh n s] s'_def Let_def)
      ultimately show ?thesis using "1.IH" [OF False s'_def more] batch by blast
    qed
  qed
qed

lemma resolve_topology_routes:
  assumes "dget (rl_routes (resolve_topology resolver order aliases targets lh)) a = Some r"
  shows "a \<in> set aliases \<and> (\<exists>m. resolver m a = Some r)"
proof -
  let ?s = "\<lparr>rs_routes = [], rs_failures = [], rs_warnings = [],
    rs_pending = filter (\<lambda>a. a \<in> set (sorted_set aliases) \<and> Some a \<noteq> lh) targets\<rparr>"
  let ?routes = "rs_routes (resolve_rounds resolver order (sorted_set aliases) lh 0 ?s)"
  have "(a, r) \<in> set (sort_key fst ?routes)"
    by (rule dget_mem) (use assms in \<open>simp add: resolve_topology_def Let_def\<close>)
  moreover have "wf_dict ?routes"
  proof -
    have fold: "wf_dict (rs_routes t) \<Longrightarrow> wf_dict (rs_routes (fold (complete_one g k l) as t))" for g k l as t
      by (induction as arbitrary: t) (auto simp: complete_one_def queue_hops_def split: option.split)
    have "wf_dict (rs_routes s) \<Longrightarrow> wf_dict (rs_routes (resolve_rounds resolver order known lh n s))" for known n s
    proof (induction resolver order known lh n s rule: resolve_rounds.induct)
      case (1 resolver order known lh n s)
      have "wf_dict (rs_routes (resolve_batch (resolver n) (order n) known lh s))"
        using fold [of "s\<lparr>rs_pending := []\<rparr>"] "1.prems" by (simp add: resolve_batch_def)
      then show ?case using 1 by (simp add: resolve_rounds.simps [of resolver order known lh n s] Let_def)
    qed
    then show ?thesis by simp
  qed
  ultimately have "dget ?routes a = Some r" by (simp add: wf_dget_mem)
  from resolved_routes_from [OF this] show ?thesis by auto
qed

lemma link_label_ok:
  assumes "link_label routes u = Some l"
  shows "strip l = l \<and> \<not> bad_label l"
proof -
  have "l = ''ProxyCommand'' \<or> l = ''opaque ProxyJump''"
    using assms by (auto simp: link_label_def split: option.splits if_splits)
  moreover have "strip ''ProxyCommand'' = ''ProxyCommand'' \<and> \<not> bad_label ''ProxyCommand''" by code_simp
  moreover have "strip ''opaque ProxyJump'' = ''opaque ProxyJump'' \<and> \<not> bad_label ''opaque ProxyJump''" by code_simp
  ultimately show ?thesis by auto
qed

text \<open>C28. Whatever ssh -G prints for the aliases (nested and cyclic jumps, contradicting routes,
  unreadable commands, up to its output cap), in whatever order the pool completes and whichever
  answers change between rounds, the inferred topology is one the configuration parser accepts: safe
  names, one parent per node, no link into the root, every node reachable from the root, at most 512
  links. In particular it is a tree, so the correlation of incidents over it always returns.\<close>

theorem inferred_topology_accepted:
  assumes "list_all is_safe_alias aliases" "is_safe_alias origin" "list_all is_safe_alias hosts"
    and "\<And>n a. capped (output n a)"
    and "pn_topology (project_topology origin hosts
      (resolve_topology (\<lambda>n a. resolve_route a (sorted_set aliases) (output n a)) order aliases targets local_host)) = Some t"
  shows "connection_topology (topology_doc t) = Inr t
    \<and> (\<exists>f. create_incident_correlator (Some t) = Some f \<and> (\<forall>items monitored. f items monitored \<noteq> None))"
proof -
  let ?res = "resolve_topology (\<lambda>n a. resolve_route a (sorted_set aliases) (output n a)) order aliases targets local_host"
  let ?S = "{a. is_safe_alias a}"
  have within: "routes_within ?S (rl_routes ?res)"
    unfolding routes_within_def
  proof (intro allI impI)
    fix a r assume "dget (rl_routes ?res) a = Some r"
    from resolve_topology_routes [OF this] obtain m where
      a: "a \<in> set aliases" "resolve_route a (sorted_set aliases) (output m a) = Some r" by blast
    have "list_all is_safe_alias (sorted_set aliases)" "is_safe_alias a"
      using assms(1) a(1) by (simp_all add: list_all_iff)
    from resolve_route_safe [OF a(2) assms(4) this] show "set (sr_hops r) \<subseteq> ?S" by (auto simp: list_all_iff)
  qed
  define s0 where "s0 = \<lparr>pj_cache = [], pj_warnings = rl_warnings ?res, pj_parents = [], pj_links = [], pj_groups = [],
    pj_infrastructure = [], pj_candidates = []\<rparr>"
  define s where "s = fold (project_host origin (rl_routes ?res) (rl_known_aliases ?res)) (sort hosts) s0"
  have "tree_ok ?S origin (rl_routes ?res) s0" "cache_ok ?S origin (pj_cache s0)"
    by (simp_all add: tree_ok_def cache_ok_def drawn_def s0_def)
  moreover have "set (sort hosts) \<subseteq> insert origin ?S" using assms(1,3) by (auto simp: list_all_iff)
  ultimately have ok: "tree_ok ?S origin (rl_routes ?res) s"
    using project_hosts_ok [OF _ _ within] unfolding s_def by blast
  have t: "t = \<lparr>tp_root = origin, tp_links = display_links origin (pj_links s)\<rparr>"
    using assms(5) unfolding project_topology_def Let_def s0_def [symmetric] s_def [symmetric]
    by (simp split: if_splits)
  note d = display_links_ok [OF ok]
  have "list_all (link_wf origin) (tp_links t)"
    unfolding list_all_iff
  proof
    fix l assume "l \<in> set (tp_links t)"
    then obtain p u where l: "(p, u) \<in> drawn s" "l = link_at (rl_routes ?res) (p, u)" using d(3) by (auto simp: t)
    then have "p \<in> insert origin ?S" "u \<in> ?S" "u \<noteq> origin" "p \<noteq> u" using ok by (auto simp: tree_ok_def)
    then show "link_wf origin l" using assms(2)
      by (auto simp: l(2) link_at_def link_wf_def topology_transports_def dest: link_label_ok split: option.split)
  qed
  then have wf: "topology_wf t" using assms(2) d by (simp add: t topology_wf_def)
  show ?thesis
    using connection_topology_doc [OF wf] tree_correlator_returns [OF topology_wf_tree [OF wf]] by fastforce
qed

text \<open>C29. Unless the projection warns that it cut the tree, every monitored host other than the root is
  drawn in it, whatever its route is.\<close>

theorem inferred_topology_covers:
  assumes "host \<in> set hosts" "host \<noteq> origin"
    and "''topology truncated to 512 display links'' \<notin> set (pn_warnings (project_topology origin hosts res))"
  shows "\<exists>t. pn_topology (project_topology origin hosts res) = Some t \<and> host \<in> tl_target ` set (tp_links t)"
proof -
  define s0 where "s0 = \<lparr>pj_cache = [], pj_warnings = rl_warnings res, pj_parents = [], pj_links = [], pj_groups = [],
    pj_infrastructure = [], pj_candidates = []\<rparr>"
  define s where "s = fold (project_host origin (rl_routes res) (rl_known_aliases res)) (sort hosts) s0"
  have "tree_ok UNIV origin (rl_routes res) s0" "cache_ok UNIV origin (pj_cache s0)"
    by (simp_all add: tree_ok_def cache_ok_def drawn_def s0_def)
  then have ok: "tree_ok UNIV origin (rl_routes res) s" and reached: "(origin, host) \<in> (drawn s)\<^sup>*"
    using project_hosts_ok [of UNIV origin "rl_routes res" s0 "sort hosts"] assms(1)
    by (auto simp: s_def routes_within_def)
  have msg: "''topology truncated to '' @ int_str (int topology_max_links) @ '' display links''
      = ''topology truncated to 512 display links''" by code_simp
  have "\<not> topology_max_links < length (pj_links s)"
    using assms(3) unfolding project_topology_def Let_def s0_def [symmetric] s_def [symmetric] msg by auto
  then have all: "display_links origin (pj_links s) = ordered_links (pj_links s)"
    by (simp add: display_links_def ordered_links_def Let_def)
  note o = ordered_links_tree [OF ok]
  obtain p where "(p, host) \<in> drawn s" using reached assms(2) by (auto elim: rtranclE)
  then have host: "host \<in> tl_target ` set (ordered_links (pj_links s))"
    unfolding o(2) [symmetric] by (auto simp: edges_def)
  then have "ordered_links (pj_links s) \<noteq> []" by auto
  with host show ?thesis
    unfolding project_topology_def Let_def s0_def [symmetric] s_def [symmetric] all by simp
qed

text \<open>Two hosts that jump through each other.\<close>

definition example_output :: "nat \<Rightarrow> string \<Rightarrow> string list option" where
  "example_output n a = (if a = ''a'' then Some [''proxyjump b''] else if a = ''b'' then Some [''proxyjump a''] else None)"

definition example_resolution :: resolution where
  "example_resolution = resolve_topology (\<lambda>n a. resolve_route a (sorted_set [''a'', ''b'']) (example_output n a))
    (\<lambda>_ _. 0) [''a'', ''b''] [''a''] None"

lemma example_resolution_value:
  "example_resolution = \<lparr>rl_known_aliases = [''a'', ''b''],
    rl_routes = [(''a'', \<lparr>sr_kind = ''proxyjump'', sr_hops = [''b''], sr_opaque = False\<rparr>),
      (''b'', \<lparr>sr_kind = ''proxyjump'', sr_hops = [''a''], sr_opaque = False\<rparr>)],
    rl_failures = [], rl_warnings = []\<rparr>"
  by code_simp

definition example_tree :: topology where
  "example_tree = \<lparr>tp_root = ''m'', tp_links =
    [\<lparr>tl_source = ''b'', tl_target = ''a'', tl_transport = ''ssh'', tl_label = None\<rparr>,
     \<lparr>tl_source = ''m'', tl_target = ''b'', tl_transport = ''ssh'', tl_label = None\<rparr>]\<rparr>"

lemma example_projection: "pn_topology (project_topology ''m'' [''a'', ''b''] example_resolution) = Some example_tree"
  by code_simp

theorem inferred_topology_accepted_witness:
  "\<exists>t. pn_topology (project_topology ''m'' [''a'', ''b''] example_resolution) = Some t
    \<and> connection_topology (topology_doc t) = Inr t"
proof -
  have "list_all is_safe_alias [''a'', ''b'']" "is_safe_alias ''m''" "capped (example_output n a)" for n a
  proof -
    show "list_all is_safe_alias [''a'', ''b'']" "is_safe_alias ''m''" by code_simp+
    show "capped (example_output n a)" by (simp add: capped_def example_output_def)
  qed
  from inferred_topology_accepted [OF this(1,2,1,3) example_projection [unfolded example_resolution_def]]
  show ?thesis using example_projection by blast
qed

theorem inferred_topology_covers_witness:
  "\<exists>t. pn_topology (project_topology ''m'' [''a'', ''b''] example_resolution) = Some t
    \<and> ''a'' \<in> tl_target ` set (tp_links t)"
proof -
  have "''topology truncated to 512 display links'' \<notin> set (pn_warnings (project_topology ''m'' [''a'', ''b''] example_resolution))"
    by code_simp
  from inferred_topology_covers [OF _ _ this, of "''a''"] show ?thesis by simp
qed

end
