(* ===== verification/Json_Text.thy ===== *)
theory Json_Text
  imports PyValue PyNumber
begin

text \<open>
  The compact JSON text the service signs and sends: \<open>json.dumps\<close> with \<open>ensure_ascii=False\<close>,
  \<open>sort_keys=True\<close> and the separators \<open>,\<close> and \<open>:\<close>. The text of a finite float is the parameter
  \<open>render\<close>.
\<close>

definition hex_digit :: "nat \<Rightarrow> char" where
  "hex_digit n = (if n < 10 then char_of (48 + n) else char_of (87 + n))"

definition json_escape :: "char \<Rightarrow> string" where
  "json_escape c =
    (if c = CHR 0x22 then [CHR 0x5C, CHR 0x22]
     else if c = CHR 0x5C then [CHR 0x5C, CHR 0x5C]
     else if c = CHR 0x0A then [CHR 0x5C, CHR ''n'']
     else if c = CHR 0x0D then [CHR 0x5C, CHR ''r'']
     else if c = CHR 0x09 then [CHR 0x5C, CHR ''t'']
     else if c = CHR 0x0C then [CHR 0x5C, CHR ''f'']
     else if c = CHR 0x08 then [CHR 0x5C, CHR ''b'']
     else if of_char c < (32 :: nat)
       then [CHR 0x5C, CHR ''u'', CHR ''0'', CHR ''0'',
             hex_digit (of_char c div 16), hex_digit (of_char c mod 16)]
     else [c])"

definition json_string :: "string \<Rightarrow> string" where
  "json_string s = [CHR 0x22] @ concat (map json_escape s) @ [CHR 0x22]"

fun json_text :: "(rat \<Rightarrow> string) \<Rightarrow> pyval \<Rightarrow> string" where
  "json_text render PNone = ''null''"
| "json_text render (PBool b) = (if b then ''true'' else ''false'')"
| "json_text render (PInt i) = int_str i"
| "json_text render (PFloat x) = render x"
| "json_text render (PInf negative) = (if negative then ''-Infinity'' else ''Infinity'')"
| "json_text render PNan = ''NaN''"
| "json_text render (PStr s) = json_string s"
| "json_text render (PList xs) = ''['' @ join '','' (map (json_text render) xs) @ '']''"
| "json_text render (PDict d) =
    ''{'' @ join '','' (map (\<lambda>kv. json_string (fst kv) @ '':'' @ snd kv)
      (sort_key fst (map (\<lambda>kv. (fst kv, json_text render (snd kv))) d))) @ ''}''"

section \<open>Quoted strings\<close>

text \<open>Reading a quoted string back, as every JSON reader does: the text and what follows it.\<close>

definition hex_value :: "char \<Rightarrow> nat option" where
  "hex_value c = (let n = of_char c in
     if 48 \<le> n \<and> n < 58 then Some (n - 48) else if 97 \<le> n \<and> n < 103 then Some (n - 87) else None)"

fun unescape :: "string \<Rightarrow> (string \<times> string) option" where
  "unescape [] = None"
| "unescape (c # rest) =
    (if c = CHR 0x22 then Some ([], rest)
     else if c \<noteq> CHR 0x5C then map_option (\<lambda>(s, r). (c # s, r)) (unescape rest)
     else (case rest of
         [] \<Rightarrow> None
       | e # rest' \<Rightarrow>
           if e = CHR 0x22 \<or> e = CHR 0x5C then map_option (\<lambda>(s, r). (e # s, r)) (unescape rest')
           else if e = CHR ''n'' then map_option (\<lambda>(s, r). (CHR 0x0A # s, r)) (unescape rest')
           else if e = CHR ''r'' then map_option (\<lambda>(s, r). (CHR 0x0D # s, r)) (unescape rest')
           else if e = CHR ''t'' then map_option (\<lambda>(s, r). (CHR 0x09 # s, r)) (unescape rest')
           else if e = CHR ''f'' then map_option (\<lambda>(s, r). (CHR 0x0C # s, r)) (unescape rest')
           else if e = CHR ''b'' then map_option (\<lambda>(s, r). (CHR 0x08 # s, r)) (unescape rest')
           else if e = CHR ''u'' then
             (case rest' of
                a # b # x # y # rest'' \<Rightarrow>
                  (case (hex_value x, hex_value y) of
                     (Some m, Some n) \<Rightarrow> map_option (\<lambda>(s, r). (char_of (16 * m + n) # s, r)) (unescape rest'')
                   | _ \<Rightarrow> None)
              | _ \<Rightarrow> None)
           else None))"

lemma hex_value_digit: "n < 16 \<Longrightarrow> hex_value (hex_digit n) = Some n"
  by (auto simp: hex_value_def hex_digit_def Let_def)

lemma unescape_escape:
  "unescape (json_escape c @ rest) = map_option (\<lambda>(s, r). (c # s, r)) (unescape rest)"
proof -
  have u: "unescape ([CHR 0x5C, CHR ''u'', CHR ''0'', CHR ''0'', hex_digit (of_char c div 16),
      hex_digit (of_char c mod 16)] @ rest) = map_option (\<lambda>(s, r). (c # s, r)) (unescape rest)"
    if "of_char c < (32 :: nat)"
  proof -
    have "of_char c div 16 < (16 :: nat)" "of_char c mod 16 < (16 :: nat)" using that by simp_all
    then have "hex_value (hex_digit (of_char c div 16)) = Some (of_char c div 16)"
      "hex_value (hex_digit (of_char c mod 16)) = Some (of_char c mod 16)" by (simp_all add: hex_value_digit)
    then show ?thesis by simp
  qed
  show ?thesis unfolding json_escape_def using u by simp
qed

lemma json_string_unescape: "unescape (tl (json_string s) @ rest) = Some (s, rest)"
proof -
  have "unescape (concat (map json_escape s) @ CHR 0x22 # rest) = Some (s, rest)"
  proof (induction s)
    case (Cons c s)
    then show ?case by (simp add: unescape_escape)
  qed simp
  then show ?thesis by (simp add: json_string_def)
qed

end
