(* ===== verification/Py_Url.thy ===== *)
theory Py_Url
  imports PyShell PyNumber Json_Text
begin

text \<open>
  \<open>urllib.parse.urlsplit\<close> with the parts of a network location, and the test whether
  \<open>ipaddress.ip_address\<close> accepts a text, as Python 3.10 (the oldest version the program supports)
  defines them. \<open>None\<close> stands for the \<open>ValueError\<close> they raise. Later versions also refuse a
  bracketed host that is no IPv6 literal. The Unicode check of the network location never fails on
  the code points of the model.
\<close>

section \<open>Splitting a URL\<close>

record url_parts =
  url_scheme :: string
  url_netloc :: string
  url_path :: string
  url_query :: string
  url_fragment :: string

definition is_letter :: "char \<Rightarrow> bool" where
  "is_letter c \<longleftrightarrow> (let n = of_char c :: nat in (65 \<le> n \<and> n \<le> 90) \<or> (97 \<le> n \<and> n \<le> 122))"

definition is_ascii :: "char \<Rightarrow> bool" where
  "is_ascii c \<longleftrightarrow> (of_char c :: nat) < 128"

definition scheme_char :: "char \<Rightarrow> bool" where
  "scheme_char c \<longleftrightarrow> is_letter c \<or> is_digit c \<or> c = CHR ''+'' \<or> c = CHR ''-'' \<or> c = CHR ''.''"

text \<open>Control characters and spaces before the URL, tabs and line ends anywhere are dropped.\<close>

definition url_cleaned :: "string \<Rightarrow> string" where
  "url_cleaned url =
    filter (\<lambda>c. (of_char c :: nat) \<notin> {9, 10, 13}) (dropWhile (\<lambda>c. (of_char c :: nat) \<le> 32) url)"

definition split_scheme :: "string \<Rightarrow> string \<times> string" where
  "split_scheme url =
    (let name = part_before (CHR '':'') url in
     if CHR '':'' \<in> set url \<and> name \<noteq> [] \<and> is_letter (hd name) \<and> list_all scheme_char name
     then (lower name, part_after (CHR '':'') url) else ([], url))"

definition netloc_char :: "char \<Rightarrow> bool" where
  "netloc_char c \<longleftrightarrow> c \<noteq> CHR ''/'' \<and> c \<noteq> CHR ''?'' \<and> c \<noteq> CHR ''#''"

definition split_netloc :: "string \<Rightarrow> string \<times> string" where
  "split_netloc url =
    (case url of
       a # b # rest \<Rightarrow> if a = CHR ''/'' \<and> b = CHR ''/''
         then (takeWhile netloc_char rest, dropWhile netloc_char rest) else ([], url)
     | _ \<Rightarrow> ([], url))"

definition urlsplit :: "string \<Rightarrow> url_parts option" where
  "urlsplit url =
    (let (scheme, rest) = split_scheme (url_cleaned url);
         (netloc, rest) = split_netloc rest
     in if (CHR ''['' \<in> set netloc) \<noteq> (CHR '']'' \<in> set netloc) then None
        else (let fragment = part_after (CHR ''#'') rest; rest = part_before (CHR ''#'') rest
          in Some \<lparr>url_scheme = scheme, url_netloc = netloc, url_path = part_before (CHR ''?'') rest,
                   url_query = part_after (CHR ''?'') rest, url_fragment = fragment\<rparr>))"

text \<open>\<open>_userinfo\<close> and \<open>_hostinfo\<close> of a split result.\<close>

definition url_username :: "url_parts \<Rightarrow> string option" where
  "url_username u =
    (if CHR ''@'' \<in> set (url_netloc u)
     then Some (part_before (CHR '':'') (before_last (CHR ''@'') (url_netloc u))) else None)"

definition url_password :: "url_parts \<Rightarrow> string option" where
  "url_password u =
    (let userinfo = before_last (CHR ''@'') (url_netloc u) in
     if CHR ''@'' \<in> set (url_netloc u) \<and> CHR '':'' \<in> set userinfo
     then Some (part_after (CHR '':'') userinfo) else None)"

definition host_info :: "url_parts \<Rightarrow> string \<times> string" where
  "host_info u =
    (let hostinfo = after_last (CHR ''@'') (url_netloc u) in
     if CHR ''['' \<in> set hostinfo
     then (let bracketed = part_after (CHR ''['') hostinfo
       in (part_before (CHR '']'') bracketed, part_after (CHR '':'') (part_after (CHR '']'') bracketed)))
     else (part_before (CHR '':'') hostinfo, part_after (CHR '':'') hostinfo))"

text \<open>\<open>hostname\<close>: lower case up to the zone of a scoped IPv6 address.\<close>

definition url_hostname :: "url_parts \<Rightarrow> string option" where
  "url_hostname u =
    (let host = fst (host_info u) in
     if host = [] then None
     else Some (lower (takeWhile (\<lambda>c. c \<noteq> CHR ''%'') host) @ dropWhile (\<lambda>c. c \<noteq> CHR ''%'') host))"

text \<open>\<open>port\<close>: the outer \<open>None\<close> is the \<open>ValueError\<close>.\<close>

definition url_port :: "url_parts \<Rightarrow> int option option" where
  "url_port u =
    (let port = snd (host_info u) in
     if port = [] then Some None
     else if \<not> list_all is_digit port then None
     else if digits_int port \<le> 65535 then Some (Some (digits_int port)) else None)"

section \<open>IP literals\<close>

definition octet_ok :: "string \<Rightarrow> bool" where
  "octet_ok s \<longleftrightarrow> s \<noteq> [] \<and> list_all is_digit s \<and> length s \<le> 3 \<and> (s = ''0'' \<or> hd s \<noteq> CHR ''0'')
    \<and> digits_int s \<le> 255"

definition ipv4_ok :: "string \<Rightarrow> bool" where
  "ipv4_ok s \<longleftrightarrow> (let octets = split_char (CHR ''.'') s in length octets = 4 \<and> list_all octet_ok octets)"

definition ipv4_int :: "string \<Rightarrow> nat" where
  "ipv4_int s = foldl (\<lambda>acc o'. 256 * acc + nat (digits_int o')) 0 (split_char (CHR ''.'') s)"

text \<open>\<open>'%x' % n\<close> below 65536.\<close>

definition hextet_text :: "nat \<Rightarrow> string" where
  "hextet_text n =
    (let ds = dropWhile (\<lambda>d. d = 0) [n div 4096 mod 16, n div 256 mod 16, n div 16 mod 16] @ [n mod 16]
     in map hex_digit ds)"

definition hex_char :: "char \<Rightarrow> bool" where
  "hex_char c \<longleftrightarrow> is_digit c
    \<or> (let n = of_char c :: nat in (65 \<le> n \<and> n \<le> 70) \<or> (97 \<le> n \<and> n \<le> 102))"

definition hextet_ok :: "string \<Rightarrow> bool" where
  "hextet_ok s \<longleftrightarrow> s \<noteq> [] \<and> list_all hex_char s \<and> length s \<le> 4"

text \<open>The parts between colons, an IPv4 suffix rewritten as two of them.\<close>

definition ipv6_parts :: "string \<Rightarrow> string list option" where
  "ipv6_parts s =
    (let parts = split_char (CHR '':'') s; suffix = List.last parts in
     if length parts < 3 then None
     else if CHR ''.'' \<in> set suffix then
       (if ipv4_ok suffix
        then Some (butlast parts @ [hextet_text (ipv4_int suffix div 65536), hextet_text (ipv4_int suffix mod 65536)])
        else None)
     else Some parts)"

definition ipv6_ok :: "string \<Rightarrow> bool" where
  "ipv6_ok s \<longleftrightarrow>
    (case ipv6_parts s of
       None \<Rightarrow> False
     | Some parts \<Rightarrow>
         length parts \<le> 9 \<and>
         (case filter (\<lambda>i. parts ! i = []) [1..<length parts - 1] of
            [] \<Rightarrow> length parts = 8 \<and> hd parts \<noteq> [] \<and> List.last parts \<noteq> [] \<and> list_all hextet_ok parts
          | [k] \<Rightarrow>
              (let high = k - (if hd parts = [] then 1 else 0);
                   low = length parts - k - 1 - (if List.last parts = [] then 1 else 0)
               in (hd parts = [] \<longrightarrow> high = 0) \<and> (List.last parts = [] \<longrightarrow> low = 0) \<and> high + low \<le> 7
                  \<and> list_all hextet_ok (take high parts)
                  \<and> list_all hextet_ok (drop (length parts - low) parts))
          | _ \<Rightarrow> False))"

text \<open>\<open>ip_address(s)\<close> does not raise. The zone of a scoped IPv6 address follows a percent sign.\<close>

definition scoped_ipv6_ok :: "string \<Rightarrow> bool" where
  "scoped_ipv6_ok s \<longleftrightarrow>
    (let zone = part_after (CHR ''%'') s in
     (CHR ''%'' \<in> set s \<longrightarrow> zone \<noteq> [] \<and> CHR ''%'' \<notin> set zone) \<and> ipv6_ok (part_before (CHR ''%'') s))"

definition ip_literal :: "string \<Rightarrow> bool" where
  "ip_literal s \<longleftrightarrow> CHR ''/'' \<notin> set s \<and> (ipv4_ok s \<or> scoped_ipv6_ok s)"

section \<open>The texts of literals\<close>

lemma split_char_parts:
  "p \<in> set (split_char c s) \<Longrightarrow> set p \<subseteq> set s - {c}"
proof (induction s arbitrary: p)
  case (Cons x xs)
  then show ?case by (cases "split_char c xs") (fastforce split: if_splits)+
qed simp

lemma split_char_set: "set s \<subseteq> insert c (\<Union> (set ` set (split_char c s)))"
proof (induction s)
  case (Cons x xs)
  then show ?case by (cases "split_char c xs") (auto split: if_splits)
qed simp

lemma split_char_length: "length (split_char c s) = count_char c s + 1"
proof (induction s)
  case (Cons x xs)
  then show ?case by (cases "split_char c xs") (auto simp: count_char_def)
qed (simp add: count_char_def)

lemma split_char_text: "length s + 1 = sum_list (map (\<lambda>p. length p + 1) (split_char c s))"
proof (induction s)
  case (Cons x xs)
  then show ?case by (cases "split_char c xs") auto
qed simp

text \<open>A text none of whose parts is longer than \<open>k\<close>.\<close>

lemma split_char_bound:
  assumes "\<forall>p \<in> set (split_char c s). length p \<le> k"
  shows "length s < (count_char c s + 1) * (k + 1)"
proof -
  have "sum_list (map (\<lambda>p. length p + 1) ps) \<le> length ps * (k + 1)" if "\<forall>p \<in> set ps. length p \<le> k"
    for ps :: "string list"
    using that by (induction ps) auto
  from this [OF assms] split_char_text [of s c] show ?thesis
    by (simp add: split_char_length)
qed

lemma ipv4_chars:
  assumes "ipv4_ok s"
  shows "list_all (\<lambda>c. is_digit c \<or> c = CHR ''.'') s" and "length s \<le> 15" and "s \<noteq> []"
proof -
  have parts: "\<forall>p \<in> set (split_char (CHR ''.'') s). list_all is_digit p \<and> length p \<le> 3"
    and n: "length (split_char (CHR ''.'') s) = 4"
    using assms by (auto simp: ipv4_ok_def Let_def list_all_iff octet_ok_def)
  show "list_all (\<lambda>c. is_digit c \<or> c = CHR ''.'') s"
    using split_char_set [of s "CHR ''.''"] parts by (fastforce simp: list_all_iff)
  have "count_char (CHR ''.'') s = 3" using n by (simp add: split_char_length)
  then show "length s \<le> 15" using split_char_bound [of "CHR ''.''" s 3] parts by simp
  show "s \<noteq> []" using n by auto
qed

lemma ipv6_parts_ok:
  assumes "ipv6_ok s" "ipv6_parts s = Some parts"
  shows "\<forall>p \<in> set parts. p = [] \<or> hextet_ok p" and "length parts \<le> 9"
proof -
  show "length parts \<le> 9" using assms by (simp add: ipv6_ok_def)
  have c: "case filter (\<lambda>i. parts ! i = []) [1..<length parts - 1] of
            [] \<Rightarrow> length parts = 8 \<and> hd parts \<noteq> [] \<and> List.last parts \<noteq> [] \<and> list_all hextet_ok parts
          | [k] \<Rightarrow>
              (let high = k - (if hd parts = [] then 1 else 0);
                   low = length parts - k - 1 - (if List.last parts = [] then 1 else 0)
               in (hd parts = [] \<longrightarrow> high = 0) \<and> (List.last parts = [] \<longrightarrow> low = 0) \<and> high + low \<le> 7
                  \<and> list_all hextet_ok (take high parts)
                  \<and> list_all hextet_ok (drop (length parts - low) parts))
          | _ \<Rightarrow> False"
    using assms by (simp add: ipv6_ok_def)
  show "\<forall>p \<in> set parts. p = [] \<or> hextet_ok p"
  proof (cases "filter (\<lambda>i. parts ! i = []) [1..<length parts - 1]")
    case Nil
    then show ?thesis using c by (simp add: list_all_iff)
  next
    case (Cons k ks)
    then have ks: "ks = []" using c by (cases ks) simp_all
    have k: "1 \<le> k" "k < length parts - 1" "parts ! k = []"
    proof -
      have "k \<in> set (filter (\<lambda>i. parts ! i = []) [1..<length parts - 1])" unfolding Cons by simp
      then show "1 \<le> k" "k < length parts - 1" "parts ! k = []" by auto
    qed
    define high where "high = k - (if hd parts = [] then 1 else 0)"
    define low where "low = length parts - k - 1 - (if List.last parts = [] then 1 else 0)"
    have hl: "hd parts = [] \<Longrightarrow> high = 0" "List.last parts = [] \<Longrightarrow> low = 0"
      "list_all hextet_ok (take high parts)" "list_all hextet_ok (drop (length parts - low) parts)"
      using c unfolding Cons ks high_def low_def Let_def by simp_all
    have ne: "parts \<noteq> []" using k by auto
    have "\<forall>p \<in> set (take k parts). p = [] \<or> hextet_ok p"
    proof (cases "hd parts = []")
      case True
      then have "k = 1" using hl(1) k(1) by (simp add: high_def)
      then have "take k parts = [hd parts]" using ne by (cases parts) simp_all
      then show ?thesis using True by simp
    qed (use hl(3) in \<open>simp add: high_def list_all_iff\<close>)
    moreover have "\<forall>p \<in> set (drop (Suc k) parts). p = [] \<or> hextet_ok p"
    proof (cases "List.last parts = []")
      case True
      then have "length parts = k + 2" using hl(2) k(2) by (simp add: low_def)
      then have "length (drop (Suc k) parts) = 1" "List.last (drop (Suc k) parts) = []"
        using True by (simp_all add: last_drop)
      then show ?thesis by (cases "drop (Suc k) parts") simp_all
    next
      case False
      then have "length parts - low = Suc k" using k by (simp add: low_def)
      then show ?thesis using hl(4) by (simp add: list_all_iff)
    qed
    ultimately have "\<forall>p \<in> set (take k parts @ [parts ! k] @ drop (Suc k) parts). p = [] \<or> hextet_ok p"
      using k(3) by auto
    moreover have "take k parts @ [parts ! k] @ drop (Suc k) parts = parts"
      using k(2) id_take_nth_drop [of k parts] by simp
    ultimately show ?thesis by (simp only:)
  qed
qed

lemma ipv6_chars:
  assumes "ipv6_ok s"
  shows "list_all (\<lambda>c. hex_char c \<or> c = CHR ''.'' \<or> c = CHR '':'') s"
    and "length s \<le> 152" and "2 \<le> count_char (CHR '':'') s"
proof -
  obtain parts where parts: "ipv6_parts s = Some parts" using assms by (cases "ipv6_parts s") (simp_all add: ipv6_ok_def)
  let ?split = "split_char (CHR '':'') s"
  have three: "3 \<le> length ?split" using parts by (auto simp: ipv6_parts_def Let_def split: if_splits)
  then show "2 \<le> count_char (CHR '':'') s" by (simp add: split_char_length)
  have ok: "\<forall>p \<in> set parts. p = [] \<or> hextet_ok p" "length parts \<le> 9" by (rule ipv6_parts_ok [OF assms parts])+
  have split: "\<forall>p \<in> set ?split. list_all (\<lambda>c. hex_char c \<or> c = CHR ''.'') p \<and> length p \<le> 15"
    and nine: "length ?split \<le> 9"
  proof -
    have hex: "list_all (\<lambda>c. hex_char c \<or> c = CHR ''.'') p \<and> length p \<le> 15" if "p = [] \<or> hextet_ok p" for p
      using that by (auto simp: hextet_ok_def list_all_iff)
    have "(\<forall>p \<in> set ?split. list_all (\<lambda>c. hex_char c \<or> c = CHR ''.'') p \<and> length p \<le> 15) \<and> length ?split \<le> 9"
    proof (cases "CHR ''.'' \<in> set (List.last ?split)")
      case True
      then have v4: "ipv4_ok (List.last ?split)" and "\<exists>xs. parts = butlast ?split @ xs \<and> length xs = 2"
        using parts three by (auto simp: ipv6_parts_def Let_def split: if_splits)
      then obtain xs where xs: "parts = butlast ?split @ xs" "length xs = 2" by blast
      have last_ok: "list_all (\<lambda>c. hex_char c \<or> c = CHR ''.'') (List.last ?split)" "length (List.last ?split) \<le> 15"
        using ipv4_chars [OF v4] by (auto simp: list_all_iff hex_char_def)
      have init: "\<forall>p \<in> set (butlast ?split). list_all (\<lambda>c. hex_char c \<or> c = CHR ''.'') p \<and> length p \<le> 15"
        using ok(1) hex unfolding xs(1) by simp
      have eq: "?split = butlast ?split @ [List.last ?split]"
        by (rule append_butlast_last_id [symmetric]) (rule split_char_nonempty)
      have "\<forall>p \<in> set ?split. list_all (\<lambda>c. hex_char c \<or> c = CHR ''.'') p \<and> length p \<le> 15"
        by (subst eq) (use init last_ok in \<open>simp del: append_butlast_last_id\<close>)
      moreover have "length ?split = length parts - 1" unfolding xs(1) using xs(2) three by simp
      ultimately show ?thesis using ok(2) by simp
    next
      case False
      then have "parts = ?split" using parts by (auto simp: ipv6_parts_def Let_def split: if_splits)
      then show ?thesis using ok hex by simp
    qed
    then show "\<forall>p \<in> set ?split. list_all (\<lambda>c. hex_char c \<or> c = CHR ''.'') p \<and> length p \<le> 15"
      and "length ?split \<le> 9" by blast+
  qed
  show "list_all (\<lambda>c. hex_char c \<or> c = CHR ''.'' \<or> c = CHR '':'') s"
    using split_char_set [of s "CHR '':''"] split by (fastforce simp: list_all_iff)
  have "length s < (count_char (CHR '':'') s + 1) * 16" using split split_char_bound [of "CHR '':''" s 15] by simp
  also have "\<dots> \<le> 9 * 16" using nine by (simp add: split_char_length)
  finally show "length s \<le> 152" by simp
qed

text \<open>A literal without a zone has only hexadecimal digits, dots and colons; it has no colon or at
  least two of them.\<close>

lemma ip_literal_chars:
  assumes "ip_literal s" "CHR ''%'' \<notin> set s"
  shows "list_all (\<lambda>c. hex_char c \<or> c = CHR ''.'' \<or> c = CHR '':'') s" "length s \<le> 152" "s \<noteq> []"
    "CHR '':'' \<in> set s \<Longrightarrow> 2 \<le> count_char (CHR '':'') s"
proof -
  have pre: "part_before (CHR ''%'') s = s"
    using assms(2) by (simp add: part_before_def) (metis (mono_tags, lifting) takeWhile_eq_all_conv)
  have both: "ipv4_ok s \<or> ipv6_ok s" using assms(1) by (auto simp: ip_literal_def scoped_ipv6_ok_def pre)
  show "list_all (\<lambda>c. hex_char c \<or> c = CHR ''.'' \<or> c = CHR '':'') s"
    using both ipv4_chars(1) [of s] ipv6_chars(1) [of s] by (auto simp: list_all_iff hex_char_def)
  show "length s \<le> 152" using both ipv4_chars(2) [of s] ipv6_chars(2) [of s] by auto
  show "s \<noteq> []" using both ipv4_chars(3) [of s] ipv6_chars(3) [of s] by (auto simp: count_char_def)
  assume colon: "CHR '':'' \<in> set s"
  have "\<not> is_digit (CHR '':'')" by (simp add: is_digit_def digit_of_def)
  then have "\<not> ipv4_ok s" using colon ipv4_chars(1) [of s] by (auto simp: list_all_iff)
  then show "2 \<le> count_char (CHR '':'') s" using both ipv6_chars(3) by blast
qed

end
