(* ===== verification/Hostnames.thy ===== *)
theory Hostnames
  imports Py_Url Config_Integrations
begin

text \<open>
  Host names and the trust policy of the HTTP boundary (\<open>hostnames.py\<close>), the policy of
  authenticated routes (\<open>web_auth.py\<close>) and the configured trusted hosts (\<open>_trusted_web_hosts\<close> of
  \<open>config_loader.py\<close>).
\<close>

section \<open>Canonical host names\<close>

text \<open>\<open>_LABEL\<close>.\<close>

definition label_ok :: "string \<Rightarrow> bool" where
  "label_ok s \<longleftrightarrow> s \<noteq> [] \<and> alnum (hd s) \<and> alnum (List.last s)
    \<and> list_all (\<lambda>c. alnum c \<or> c = CHR ''_'' \<or> c = CHR ''-'') s"

definition remove_dot :: "string \<Rightarrow> string" where
  "remove_dot s = (if s \<noteq> [] \<and> List.last s = CHR ''.'' then butlast s else s)"

definition bracket_ipv6 :: "string \<Rightarrow> string" where
  "bracket_ipv6 s = (if 2 \<le> count_char (CHR '':'') s \<and> \<not> startswith s ''['' then ''['' @ s @ '']'' else s)"

definition dns_labels_ok :: "string \<Rightarrow> bool" where
  "dns_labels_ok hostname \<longleftrightarrow> length hostname \<le> 253 \<and> list_all is_ascii hostname
    \<and> list_all (\<lambda>l. length l \<le> 63 \<and> label_ok l) (split_char (CHR ''.'') (remove_dot hostname))"

definition split_host :: "bool \<Rightarrow> url_parts \<Rightarrow> string option" where
  "split_host allow_port parsed =
    (case (url_port parsed, url_hostname parsed) of
       (Some port, Some hostname) \<Rightarrow>
         if url_username parsed \<noteq> None \<or> url_password parsed \<noteq> None \<or> url_path parsed \<noteq> []
            \<or> url_query parsed \<noteq> [] \<or> url_fragment parsed \<noteq> [] \<or> port \<noteq> None \<and> \<not> allow_port
         then None
         else if CHR ''['' \<in> set (url_netloc parsed)
         then (if ip_literal hostname then Some hostname else None)
         else if ip_literal hostname then Some hostname
         else if dns_labels_ok hostname then Some (remove_dot hostname)
         else None
     | _ \<Rightarrow> None)"

definition normalize_web_hostname :: "bool \<Rightarrow> pyval \<Rightarrow> string option" where
  "normalize_web_hostname allow_port value =
    (case value of
       PStr s \<Rightarrow>
         (let candidate = strip s in
          if candidate = [] \<or> 260 < length candidate \<or> list_ex is_control candidate then None
          else (case urlsplit (''//'' @ bracket_ipv6 candidate) of
                  None \<Rightarrow> None
                | Some parsed \<Rightarrow> split_host allow_port parsed))
     | _ \<Rightarrow> None)"

section \<open>The trust policy\<close>

definition loopback_hostnames :: "string list" where
  "loopback_hostnames = [''localhost'', ''127.0.0.1'', ''::1'']"

definition wildcard_bind_hosts :: "string list" where
  "wildcard_bind_hosts = [[], ''0.0.0.0'', ''::'']"

datatype policy_error = Invalid_Origin_Suffix string | Invalid_Trusted_Host string

definition wildcard_entry :: "string \<Rightarrow> bool" where
  "wildcard_entry s \<longleftrightarrow> startswith (strip s) ''*.''"

text \<open>The loop over the configured hosts; the two lists stand for the sets it fills.\<close>

fun add_trusted ::
  "string list \<Rightarrow> string list \<Rightarrow> string list \<Rightarrow> policy_error + string list \<times> string list" where
  "add_trusted [] trusted suffixes = Inr (trusted, suffixes)"
| "add_trusted (candidate # rest) trusted suffixes =
    (if wildcard_entry candidate then
       (case normalize_web_hostname False (PStr (drop 2 (strip candidate))) of
          None \<Rightarrow> Inl (Invalid_Origin_Suffix candidate)
        | Some suffix \<Rightarrow>
            if CHR ''.'' \<notin> set suffix \<or> ip_literal suffix then Inl (Invalid_Origin_Suffix candidate)
            else add_trusted rest trusted (List.insert suffix suffixes))
     else
       (case normalize_web_hostname False (PStr candidate) of
          None \<Rightarrow> Inl (Invalid_Trusted_Host candidate)
        | Some hostname \<Rightarrow> add_trusted rest (List.insert hostname trusted) suffixes))"

definition bind_hostnames :: "string \<Rightarrow> string list" where
  "bind_hostnames bind_host =
    (if lower (strip bind_host) \<in> set wildcard_bind_hosts then []
     else (case normalize_web_hostname False (PStr bind_host) of None \<Rightarrow> [] | Some h \<Rightarrow> [h]))"

definition trusted_web_policy ::
  "string \<Rightarrow> string list \<Rightarrow> policy_error + string list \<times> string list" where
  "trusted_web_policy bind_host trusted_hosts =
    add_trusted trusted_hosts (List.union (bind_hostnames bind_host) loopback_hostnames) []"

section \<open>The configured trusted hosts\<close>

definition trusted_entry :: "pyval \<Rightarrow> string option" where
  "trusted_entry item =
    (case item of
       PStr s \<Rightarrow>
         if wildcard_entry s then
           (case normalize_web_hostname False (PStr (drop 2 (strip s))) of
              None \<Rightarrow> None
            | Some h \<Rightarrow> if ip_literal h \<or> CHR ''.'' \<notin> set h then None else Some (''*.'' @ h))
         else normalize_web_hostname False item
     | _ \<Rightarrow> normalize_web_hostname False item)"

text \<open>\<open>tuple(dict.fromkeys(items))\<close>: the first occurrence of each.\<close>

definition fromkeys :: "'a list \<Rightarrow> 'a list" where
  "fromkeys xs = keys (dict_of (map (\<lambda>x. (x, ())) xs))"

lemma set_fromkeys [simp]: "set (fromkeys xs) = set xs"
  by (simp add: fromkeys_def image_image)

lemma distinct_fromkeys [simp]: "distinct (fromkeys xs)"
  unfolding fromkeys_def using wf_dict_dict_of wf_dict_def by blast

fun trusted_entries :: "pyval list \<Rightarrow> string list option" where
  "trusted_entries [] = Some []"
| "trusted_entries (item # items) =
    (case trusted_entry item of
       None \<Rightarrow> None
     | Some entry \<Rightarrow> map_option (\<lambda>es. entry # es) (trusted_entries items))"

definition trusted_web_hosts :: "obj \<Rightarrow> string list parsed" where
  "trusted_web_hosts data =
    (let message = ''trusted_web_hosts must be a list with at most 32 entries'' in
     case dget_or (PList []) data ''trusted_web_hosts'' of
       PList items \<Rightarrow>
         guard (32 < length items) message
           (case trusted_entries items of
              None \<Rightarrow> refuse (''trusted_web_hosts entries must be hostnames, IP literals, or ''
                @ ''HTTPS origin suffixes such as *.preview.example without ''
                @ ''scheme, port, credentials, or path'')
            | Some entries \<Rightarrow> Inr (fromkeys entries))
     | _ \<Rightarrow> refuse message)"

section \<open>The guards of the HTTP boundary\<close>

type_synonym headers = "(string \<times> string) list"

text \<open>Header names are compared without case.\<close>

definition get_all :: "headers \<Rightarrow> string \<Rightarrow> string list" where
  "get_all hs name = map snd (filter (\<lambda>(n, v). lower n = lower name) hs)"

definition get_header :: "headers \<Rightarrow> string \<Rightarrow> string option" where
  "get_header hs name = (case get_all hs name of [] \<Rightarrow> None | v # _ \<Rightarrow> Some v)"

definition has_trusted_host :: "headers \<Rightarrow> string list \<Rightarrow> bool" where
  "has_trusted_host hs trusted \<longleftrightarrow>
    (case get_all hs ''Host'' of
       [host] \<Rightarrow>
         (case normalize_web_hostname True (PStr host) of None \<Rightarrow> False | Some h \<Rightarrow> h \<in> set trusted)
     | _ \<Rightarrow> False)"

definition same_origin_fetch_sites :: "string list" where
  "same_origin_fetch_sites = [[], ''same-origin'', ''none'']"

definition is_trusted_request :: "headers \<Rightarrow> string list \<Rightarrow> bool" where
  "is_trusted_request hs trusted \<longleftrightarrow>
    (let fetch_site = lower (strip (case get_header hs ''Sec-Fetch-Site'' of None \<Rightarrow> [] | Some v \<Rightarrow> v))
     in has_trusted_host hs trusted \<and> fetch_site \<in> set same_origin_fetch_sites)"

definition is_dashboard_read :: "headers \<Rightarrow> string list \<Rightarrow> bool" where
  "is_dashboard_read hs trusted \<longleftrightarrow>
    is_trusted_request hs trusted \<and> get_header hs ''X-Monitor-Request'' = Some ''dashboard''"

definition has_trusted_origin :: "url_parts \<Rightarrow> string list \<Rightarrow> string list \<Rightarrow> bool" where
  "has_trusted_origin origin trusted suffixes \<longleftrightarrow>
    (case normalize_web_hostname False (popt PStr (url_hostname origin)) of
       None \<Rightarrow> False
     | Some hostname \<Rightarrow>
         hostname \<in> set trusted
         \<or> url_scheme origin = ''https'' \<and> list_ex (\<lambda>suffix. endswith hostname (''.'' @ suffix)) suffixes)"

definition is_dashboard_write :: "headers \<Rightarrow> string list \<Rightarrow> string list \<Rightarrow> bool" where
  "is_dashboard_write hs trusted suffixes \<longleftrightarrow>
    is_dashboard_read hs trusted \<and>
    (case get_header hs ''Origin'' of
       None \<Rightarrow> False
     | Some origin \<Rightarrow> origin \<noteq> [] \<and>
         (case urlsplit origin of
            None \<Rightarrow> False
          | Some parsed \<Rightarrow> url_port parsed \<noteq> None
              \<and> url_scheme parsed \<in> {''http'', ''https''}
              \<and> has_trusted_origin parsed trusted suffixes
              \<and> url_username parsed = None \<and> url_password parsed = None
              \<and> (url_path parsed = [] \<or> url_path parsed = ''/'')
              \<and> url_query parsed = [] \<and> url_fragment parsed = []))"

section \<open>Authentication\<close>

text \<open>\<open>hmac.compare_digest\<close> of two texts raises \<open>TypeError\<close> unless both are ASCII.\<close>

definition compare_digest :: "string \<Rightarrow> string \<Rightarrow> bool option" where
  "compare_digest a b = (if list_all is_ascii a \<and> list_all is_ascii b then Some (a = b) else None)"

definition untrusted_origin :: "(string, string) dict" where
  "untrusted_origin = [(''error'', ''untrusted request origin''), (''code'', ''UNTRUSTED_ORIGIN'')]"

text \<open>The address of the documentation carries the version, so it is an argument.\<close>

definition authentication_required :: "string \<Rightarrow> (string, string) dict" where
  "authentication_required documentation =
    [(''error'', ''dashboard authentication required''),
     (''code'', ''AUTHENTICATION_REQUIRED''),
     (''hint'', ''Send 'Authorization: Bearer <capability>'. A managed ''
        @ ''service stores it in the private access-token file beside ''
        @ ''its configuration (~/.config/mocop/access-token by default); ''
        @ ''a foreground run prints it once as the URL fragment.''),
     (''documentation'', documentation)]"

definition bearer_accepted :: "headers \<Rightarrow> string \<Rightarrow> bool" where
  "bearer_accepted hs token \<longleftrightarrow>
    (case get_all hs ''Authorization'' of
       [value] \<Rightarrow> startswith value ''Bearer '' \<and> compare_digest (drop 7 value) token = Some True
     | _ \<Rightarrow> False)"

definition authentication_error ::
  "string \<Rightarrow> headers \<Rightarrow> string \<Rightarrow> string \<Rightarrow> string list \<Rightarrow> (string, string) dict option" where
  "authentication_error documentation hs mode token trusted =
    (if mode = ''none'' then
       (if is_trusted_request hs trusted then None else Some untrusted_origin)
     else if mode = ''bearer'' \<and> token \<noteq> [] \<and> bearer_accepted hs token then None
     else Some (authentication_required documentation))"

section \<open>What a normalized name looks like\<close>

text \<open>The characters of a host name without a zone.\<close>

definition name_char :: "char \<Rightarrow> bool" where
  "name_char c \<longleftrightarrow> alnum c \<or> c = CHR ''.'' \<or> c = CHR '':'' \<or> c = CHR ''_'' \<or> c = CHR ''-''"

lemma name_char_code:
  assumes "name_char c"
  shows "(of_char c :: nat) \<in> {45, 46, 58, 95} \<union> {48..57} \<union> {65..90} \<union> {97..122}"
proof -
  have "(of_char c :: int) = int (of_char c :: nat)" by (simp add: of_nat_of_char)
  with assms show ?thesis by (auto simp: name_char_def alnum_def Let_def)
qed

lemma name_char_facts:
  assumes "name_char c"
  shows "\<not> is_space c" "\<not> is_control c" "netloc_char c" "is_ascii c" "c \<noteq> CHR ''@''" "c \<noteq> CHR ''[''"
    "c \<noteq> CHR '']''" "c \<noteq> CHR ''%''" "c \<noteq> CHR ''/''" "(of_char c :: nat) \<notin> {9, 10, 13}"
proof -
  note code = name_char_code [OF assms]
  have i: "(of_char c :: int) = int (of_char c :: nat)" by (simp add: of_nat_of_char)
  show "\<not> is_space c" using code by (auto simp: is_space_def Let_def)
  show "\<not> is_control c" using code by (auto simp: is_control_def Let_def i)
  show "is_ascii c" "(of_char c :: nat) \<notin> {9, 10, 13}" using code by (auto simp: is_ascii_def)
  show "netloc_char c" "c \<noteq> CHR ''@''" "c \<noteq> CHR ''[''" "c \<noteq> CHR '']''" "c \<noteq> CHR ''%''" "c \<noteq> CHR ''/''"
    using code by (auto simp: netloc_char_def)
qed

lemma hex_char_name: "hex_char c \<Longrightarrow> name_char c"
proof -
  have "(of_char c :: int) = int (of_char c :: nat)" by (simp add: of_nat_of_char)
  moreover assume "hex_char c"
  ultimately show "name_char c"
    by (auto simp: hex_char_def name_char_def alnum_def is_digit_def digit_of_def Let_def split: if_splits)
qed

definition dns_name :: "string \<Rightarrow> bool" where
  "dns_name h \<longleftrightarrow> length h \<le> 253 \<and> list_all (\<lambda>l. length l \<le> 63 \<and> label_ok l) (split_char (CHR ''.'') h)"

text \<open>The names that stand for themselves, zones apart.\<close>

definition canonical_host :: "string \<Rightarrow> bool" where
  "canonical_host h \<longleftrightarrow> lower h = h \<and> CHR ''%'' \<notin> set h \<and> (ip_literal h \<or> dns_name h)"

lemma dns_chars:
  assumes "dns_name h"
  shows "list_all name_char h" "h \<noteq> []" "CHR '':'' \<notin> set h"
proof -
  have parts: "\<forall>l \<in> set (split_char (CHR ''.'') h). label_ok l"
    using assms by (simp add: dns_name_def list_all_iff)
  have c: "list_all (\<lambda>c. alnum c \<or> c = CHR ''_'' \<or> c = CHR ''-'' \<or> c = CHR ''.'') h"
    using split_char_set [of h "CHR ''.''"] parts by (fastforce simp: list_all_iff label_ok_def)
  then show "list_all name_char h" by (auto simp: list_all_iff name_char_def)
  show "h \<noteq> []" using parts by (auto simp: label_ok_def)
  show "CHR '':'' \<notin> set h" using c by (auto simp: list_all_iff alnum_def)
qed

lemma canonical_chars: "canonical_host h \<Longrightarrow> list_all name_char h \<and> h \<noteq> [] \<and> length h \<le> 260"
proof -
  assume h: "canonical_host h"
  have "list_all name_char h" if "list_all (\<lambda>c. hex_char c \<or> c = CHR ''.'' \<or> c = CHR '':'') h"
    using that by (rule list.pred_mono_strong) (use hex_char_name in \<open>auto simp: name_char_def\<close>)
  then show ?thesis using h ip_literal_chars(1-3) [of h] dns_chars(1,2) [of h]
    by (auto simp: canonical_host_def dns_name_def)
qed

lemma takeWhile_all: "list_all P s \<Longrightarrow> takeWhile P s = s" "list_all P s \<Longrightarrow> dropWhile P s = []"
  by (simp_all add: list_all_iff takeWhile_eq_all_conv)

lemma absent_parts:
  assumes "c \<notin> set s"
  shows "part_before c s = s" "part_after c s = []" "after_last c s = s"
proof -
  have "list_all (\<lambda>x. x \<noteq> c) s" "list_all (\<lambda>x. x \<noteq> c) (rev s)" using assms by (auto simp: list_all_iff)
  note all = takeWhile_all [OF this(1)] takeWhile_all [OF this(2)]
  show "part_before c s = s" by (simp only: part_before_def all)
  show "part_after c s = []" by (simp only: part_after_def all) simp
  show "after_last c s = s" by (simp only: after_last_def all) simp
qed

text \<open>A plain location with no scheme, path, query or fragment.\<close>

lemma urlsplit_plain:
  assumes "list_all (\<lambda>c. netloc_char c \<and> (of_char c :: nat) \<notin> {9, 10, 13}) h"
    and "(CHR ''['' \<in> set h) = (CHR '']'' \<in> set h)"
  shows "urlsplit (''//'' @ h) =
    Some \<lparr>url_scheme = [], url_netloc = h, url_path = [], url_query = [], url_fragment = []\<rparr>"
proof -
  have all: "list_all netloc_char h" "filter (\<lambda>c. (of_char c :: nat) \<notin> {9, 10, 13}) h = h"
    using assms(1) by (auto simp: list_all_iff filter_id_conv)
  have "url_cleaned (''//'' @ h) = ''//'' @ h"
    using all(2) by (simp add: url_cleaned_def)
  moreover have "split_scheme (''//'' @ h) = ([], ''//'' @ h)"
    by (simp add: split_scheme_def is_letter_def Let_def)
  moreover have "split_netloc (''//'' @ h) = (h, [])"
    using takeWhile_all [OF all(1)] by (simp add: split_netloc_def)
  ultimately show ?thesis using assms(2) by (simp add: urlsplit_def Let_def)
qed

lemma plain_location:
  assumes "host_info u = (h, [])" "CHR ''@'' \<notin> set (url_netloc u)" "h \<noteq> []" "CHR ''%'' \<notin> set h"
  shows "url_port u = Some None" "url_hostname u = Some (lower h)" "url_username u = None"
    "url_password u = None"
proof -
  have "list_all (\<lambda>c. c \<noteq> CHR ''%'') h" using assms(4) by (auto simp: list_all_iff)
  note pct = takeWhile_all [OF this]
  show "url_hostname u = Some (lower h)"
    using assms(3) by (simp only: url_hostname_def assms(1) fst_conv Let_def pct append_Nil2 if_False)
  show "url_port u = Some None" "url_username u = None" "url_password u = None"
    using assms(2) by (simp_all add: url_port_def assms(1) url_username_def url_password_def Let_def)
qed

lemma count_char_mem: "0 < count_char c s \<Longrightarrow> c \<in> set s"
  by (induction s) (auto simp: count_char_def split: if_splits)

lemma canonical_normalizes:
  assumes "canonical_host h"
  shows "normalize_web_hostname allow_port (PStr h) = Some h"
proof -
  from canonical_chars [OF assms] have chars: "list_all name_char h" and ne: "h \<noteq> []" and len: "length h \<le> 260"
    by auto
  have low: "lower h = h" and kind: "ip_literal h \<or> dns_name h" using assms by (simp_all add: canonical_host_def)
  have in_set: "c \<in> set h \<Longrightarrow> name_char c" for c using chars by (simp add: list_all_iff)
  have strip: "strip h = h" using in_set name_char_facts(1) by (intro strip_id) (metis hd_in_set last_in_set)
  have ctl: "\<not> list_ex is_control h" using in_set name_char_facts(2) by (auto simp: list_ex_iff)
  have absent: "c \<notin> set h" if "\<not> name_char c" for c using in_set that by blast
  have no: "CHR ''['' \<notin> set h" "CHR '']'' \<notin> set h" "CHR ''@'' \<notin> set h" "CHR ''%'' \<notin> set h"
    by (rule absent, simp add: name_char_def alnum_def)+
  have body: "list_all (\<lambda>c. netloc_char c \<and> (of_char c :: nat) \<notin> {9, 10, 13}) h"
    using in_set name_char_facts(3,10) by (simp add: list_all_iff)
  have start: "\<not> startswith h ''[''" using no(1) by (auto dest: startswith_exD)
  show ?thesis
  proof (cases "2 \<le> count_char (CHR '':'') h")
    case True
    then have "CHR '':'' \<in> set h" by (intro count_char_mem) simp
    then have ip: "ip_literal h" using kind dns_chars(3) by blast
    let ?n = "''['' @ h @ '']''"
    let ?u = "\<lparr>url_scheme = [], url_netloc = ?n, url_path = [], url_query = [], url_fragment = []\<rparr>"
    have "list_all (\<lambda>c. netloc_char c \<and> (of_char c :: nat) \<notin> {9, 10, 13}) ?n"
      using body by (simp add: netloc_char_def)
    then have split: "urlsplit (''//'' @ ?n) = Some ?u" by (rule urlsplit_plain) simp
    have "after_last (CHR ''@'') ?n = ?n" using no(3) by (intro absent_parts) simp
    then have info: "host_info ?u = (h, [])" using no(2) by (simp add: host_info_def Let_def)
    have "CHR ''@'' \<notin> set (url_netloc ?u)" using no(3) by simp
    from plain_location [OF info this ne no(4)] have "split_host allow_port ?u = Some h" using ip low by (simp add: split_host_def)
    moreover have "bracket_ipv6 h = ?n" using True start by (simp add: bracket_ipv6_def)
    ultimately show ?thesis
      using split strip ne len ctl unfolding normalize_web_hostname_def by (simp add: Let_def)
  next
    case False
    then have colon: "CHR '':'' \<notin> set h"
      using kind ip_literal_chars(4) [of h] dns_chars(3) no(4) by blast
    let ?u = "\<lparr>url_scheme = [], url_netloc = h, url_path = [], url_query = [], url_fragment = []\<rparr>"
    have split: "urlsplit (''//'' @ h) = Some ?u" using no by (intro urlsplit_plain [OF body]) simp
    have info: "host_info ?u = (h, [])" using no absent_parts [OF no(3)] absent_parts [OF colon] by (simp add: host_info_def Let_def)
    have "CHR ''@'' \<notin> set (url_netloc ?u)" using no(3) by simp
    note parts = plain_location [OF info this ne no(4), unfolded low]
    have dns: "dns_labels_ok h \<and> remove_dot h = h" if "dns_name h"
    proof -
      have eq: "split_char (CHR ''.'') (xs @ ''.'') = split_char (CHR ''.'') xs @ [[]]" for xs
      proof (induction xs)
        case (Cons x xs)
        then show ?case by (cases "split_char (CHR ''.'') xs") auto
      qed simp
      have "List.last h \<noteq> CHR ''.''"
      proof
        assume "List.last h = CHR ''.''"
        then have "h = butlast h @ ''.''" using ne by (metis append_butlast_last_id)
        then have "[] \<in> set (split_char (CHR ''.'') h)" using eq [of "butlast h"] by (metis in_set_conv_decomp)
        then show False using that by (auto simp: dns_name_def list_all_iff label_ok_def)
      qed
      then have "remove_dot h = h" by (simp add: remove_dot_def)
      moreover have "list_all is_ascii h" using in_set name_char_facts(4) by (simp add: list_all_iff)
      ultimately show ?thesis using that by (simp add: dns_labels_ok_def dns_name_def)
    qed
    have "split_host allow_port ?u = Some h"
      using parts kind dns no(1) by (auto simp: split_host_def)
    moreover have "bracket_ipv6 h = h" using False by (simp add: bracket_ipv6_def)
    ultimately show ?thesis
      using split strip ne len ctl unfolding normalize_web_hostname_def by (simp add: Let_def)
  qed
qed

lemma lower_char_code:
  "(of_char (lower_char c) :: nat) =
    (if (65 \<le> (of_char c :: nat) \<and> (of_char c :: nat) \<le> 90)
        \<or> (192 \<le> (of_char c :: nat) \<and> (of_char c :: nat) \<le> 222 \<and> (of_char c :: nat) \<noteq> 215)
     then of_char c + 32 else of_char c)"
  by (auto simp: lower_char_def Let_def of_char_of take_bit_eq_mod)

lemma char_code_eq: "(of_char c :: nat) = of_char d \<Longrightarrow> c = d"
  by (metis char_of_char)

lemma lower_char_idem [simp]: "lower_char (lower_char c) = lower_char c"
  by (rule char_code_eq) (simp add: lower_char_code)

lemma lower_idem [simp]: "lower (lower s) = lower s"
  by (simp add: lower_def)

lemma lower_fixed: "lower s = s \<longleftrightarrow> (\<forall>c \<in> set s. lower_char c = c)"
  by (simp add: lower_def map_idI list_eq_iff_nth_eq in_set_conv_nth) (metis in_set_conv_nth)

lemma set_remove_dot: "set (remove_dot s) \<subseteq> set s"
  by (auto simp: remove_dot_def dest: in_set_butlastD)

lemma label_chars: "dns_labels_ok hn \<Longrightarrow> CHR ''%'' \<notin> set (remove_dot hn)"
proof -
  assume "dns_labels_ok hn"
  then have "dns_name (remove_dot hn)" by (auto simp: dns_labels_ok_def dns_name_def remove_dot_def)
  then have "list_all name_char (remove_dot hn)" by (rule dns_chars)
  then show ?thesis using name_char_facts(8) by (auto simp: list_all_iff)
qed

text \<open>The two ways a split host is accepted.\<close>

lemma split_host_cases:
  assumes "split_host allow_port u = Some h"
  obtains hn where "url_hostname u = Some hn" "ip_literal hn \<and> h = hn \<or> dns_labels_ok hn \<and> h = remove_dot hn"
    "url_username u = None" "url_path u = []"
proof -
  obtain port hn where p: "url_port u = Some port" "url_hostname u = Some hn"
    using assms by (auto simp: split_host_def split: option.splits)
  from assms have "ip_literal hn \<and> h = hn \<or> dns_labels_ok hn \<and> h = remove_dot hn" "url_username u = None"
    "url_path u = []"
    by (auto simp: split_host_def p split: if_splits)
  with p that show ?thesis by blast
qed

lemma url_hostname_lower:
  assumes "url_hostname u = Some hn" "CHR ''%'' \<notin> set hn"
  shows "lower hn = hn"
proof -
  let ?host = "fst (host_info u)"
  have hn: "hn = lower (takeWhile (\<lambda>c. c \<noteq> CHR ''%'') ?host) @ dropWhile (\<lambda>c. c \<noteq> CHR ''%'') ?host"
    using assms(1) by (simp add: url_hostname_def Let_def split: if_splits)
  have zone: "dropWhile (\<lambda>c. c \<noteq> CHR ''%'') ?host = []"
  proof (rule ccontr)
    assume ne: "dropWhile (\<lambda>c. c \<noteq> CHR ''%'') ?host \<noteq> []"
    have "hd (dropWhile (\<lambda>c. c \<noteq> CHR ''%'') ?host) = CHR ''%''" using hd_dropWhile [OF ne] by simp
    then have "CHR ''%'' \<in> set (dropWhile (\<lambda>c. c \<noteq> CHR ''%'') ?host)" using hd_in_set [OF ne] by simp
    then have "CHR ''%'' \<in> set hn" unfolding hn set_append by (rule UnI2)
    with assms(2) show False by (rule notE)
  qed
  show ?thesis unfolding hn zone append_Nil2 by (rule lower_idem)
qed

lemma normalized_canonical:
  assumes "normalize_web_hostname allow_port v = Some h" "CHR ''%'' \<notin> set h"
  shows "canonical_host h"
proof -
  obtain s u where u: "v = PStr s" "split_host allow_port u = Some h"
    using assms(1) by (cases v) (auto simp: normalize_web_hostname_def Let_def split: if_splits option.splits)
  from split_host_cases [OF u(2)] obtain hn where hn: "url_hostname u = Some hn"
    "ip_literal hn \<and> h = hn \<or> dns_labels_ok hn \<and> h = remove_dot hn" by metis
  have "CHR ''%'' \<notin> set hn"
  proof (cases "dns_labels_ok hn")
    case True
    then have "CHR ''%'' \<notin> set (remove_dot hn)" by (rule label_chars)
    moreover have "set hn \<subseteq> insert (CHR ''.'') (set (remove_dot hn))"
      by (cases hn rule: rev_cases) (auto simp: remove_dot_def)
    ultimately show ?thesis by auto
  qed (use hn(2) assms(2) in auto)
  then have "lower hn = hn" by (rule url_hostname_lower [OF hn(1)])
  then have "lower h = h" using hn(2) set_remove_dot by (auto simp: lower_fixed)
  moreover have "dns_name (remove_dot hn)" if "dns_labels_ok hn"
    using that by (auto simp: dns_labels_ok_def dns_name_def remove_dot_def)
  ultimately show ?thesis using hn(2) assms(2) by (auto simp: canonical_host_def)
qed

text \<open>Names without a zone are canonical: each is accepted as it stands and maps to itself.\<close>

lemma normalized_iff_canonical:
  assumes "CHR ''%'' \<notin> set h"
  shows "(\<exists>v. normalize_web_hostname allow_port v = Some h) \<longleftrightarrow> canonical_host h"
  using normalized_canonical [OF _ assms] canonical_normalizes by blast

lemma part_sets: "set (part_before c s) \<subseteq> set s" "set (part_after c s) \<subseteq> set s" "set (after_last c s) \<subseteq> set s"
proof -
  show "set (part_before c s) \<subseteq> set s" by (auto simp: part_before_def dest: set_takeWhileD)
  show "set (part_after c s) \<subseteq> set s" by (auto simp: part_after_def dest: in_set_dropD set_dropWhileD)
  show "set (after_last c s) \<subseteq> set s" by (auto simp: after_last_def dest: set_takeWhileD)
qed

text \<open>No part of a URL but its authority survives, zone or not.\<close>

lemma lower_char_keeps:
  assumes "lower_char c \<in> {CHR ''/'', CHR ''?'', CHR ''#'', CHR ''@''}"
  shows "c = lower_char c"
proof (rule char_code_eq)
  have "(of_char (lower_char c) :: nat) \<in> {47, 63, 35, 64}" using assms by auto
  then show "(of_char c :: nat) = of_char (lower_char c)" unfolding lower_char_code by (auto split: if_splits)
qed

lemma urlsplit_netloc: "urlsplit s = Some u \<Longrightarrow> list_all netloc_char (url_netloc u)"
  by (auto simp: urlsplit_def split_netloc_def Let_def list_all_iff dest: set_takeWhileD
      split: prod.splits if_splits list.splits)

lemma normalized_plain:
  assumes "normalize_web_hostname allow_port v = Some h"
  shows "h \<noteq> [] \<and> {CHR ''/'', CHR ''?'', CHR ''#'', CHR ''@''} \<inter> set h = {}"
proof -
  obtain s s' u where u: "v = PStr s" "split_host allow_port u = Some h" "urlsplit s' = Some u"
    using assms(1) by (cases v) (auto simp: normalize_web_hostname_def Let_def split: if_splits option.splits)
  from split_host_cases [OF u(2)] obtain hn where hn: "url_hostname u = Some hn"
    "ip_literal hn \<and> h = hn \<or> dns_labels_ok hn \<and> h = remove_dot hn" "url_username u = None" by metis
  let ?bad = "{CHR ''/'', CHR ''?'', CHR ''#'', CHR ''@''}"
  have net: "?bad \<inter> set (url_netloc u) = {}"
    using urlsplit_netloc [OF u(3)] hn(3) by (auto simp: list_all_iff netloc_char_def url_username_def split: if_splits)
  have "set (fst (host_info u)) \<subseteq> set (url_netloc u)"
    using part_sets(1,2,3) by (simp add: host_info_def Let_def) (meson subset_trans)
  with net have host: "?bad \<inter> set (fst (host_info u)) = {}" by blast
  have "?bad \<inter> set hn = {}"
  proof -
    let ?host = "fst (host_info u)"
    have "hn = lower (takeWhile (\<lambda>c. c \<noteq> CHR ''%'') ?host) @ dropWhile (\<lambda>c. c \<noteq> CHR ''%'') ?host"
      using hn(1) by (simp add: url_hostname_def Let_def split: if_splits)
    then have sub: "set hn \<subseteq> lower_char ` set ?host \<union> set ?host"
      by (auto simp: lower_def dest: set_takeWhileD set_dropWhileD)
    have "c \<in> set ?host" if c: "c \<in> set hn" "c \<in> ?bad" for c
    proof -
      have "c \<in> lower_char ` set ?host \<or> c \<in> set ?host" using sub c(1) by blast
      then show ?thesis
      proof
        assume "c \<in> lower_char ` set ?host"
        then obtain d where d: "d \<in> set ?host" "c = lower_char d" by (rule imageE)
        then have "d = c" using lower_char_keeps [of d] c(2) by simp
        then show ?thesis using d(1) by simp
      qed
    qed
    with host show ?thesis by blast
  qed
  moreover have "h \<noteq> []"
  proof (cases "dns_labels_ok hn \<and> h = remove_dot hn")
    case True
    then have "dns_name h" by (auto simp: dns_labels_ok_def dns_name_def remove_dot_def)
    then show ?thesis by (rule dns_chars)
  next
    case False
    then have "ip_literal h" using hn(2) by blast
    then show ?thesis by (auto simp: ip_literal_def ipv4_ok_def scoped_ipv6_ok_def ipv6_ok_def ipv6_parts_def)
  qed
  moreover have "set h \<subseteq> set hn" using hn(2) set_remove_dot [of hn] by (elim disjE conjE) simp_all
  ultimately show ?thesis by (simp add: disjoint_iff) blast
qed

section \<open>Configured hosts and the policy\<close>

lemma canonical_not_wildcard: "canonical_host h \<Longrightarrow> \<not> wildcard_entry h"
proof
  assume h: "canonical_host h" and w: "wildcard_entry h"
  then obtain r where "strip h = ''*.'' @ r" by (auto simp: wildcard_entry_def dest: startswith_exD)
  then have "CHR ''*'' \<in> set (strip h)" by simp
  then have "CHR ''*'' \<in> set h" using set_strip by blast
  then have "name_char (CHR ''*'')" using canonical_chars [OF h] by (simp add: list_all_iff)
  then show False by (simp add: name_char_def alnum_def)
qed

lemma wildcard_strip:
  assumes "canonical_host h"
  shows "strip (''*.'' @ h) = ''*.'' @ h" "wildcard_entry (''*.'' @ h)"
proof -
  have "\<not> is_space (List.last h)"
    using canonical_chars [OF assms] name_char_facts(1) by (metis last_in_set list.pred_set)
  moreover have "\<not> is_space (CHR ''*'')" by code_simp
  ultimately show "strip (''*.'' @ h) = ''*.'' @ h"
    using canonical_chars [OF assms] by (intro strip_id) simp
  then show "wildcard_entry (''*.'' @ h)" by (simp add: wildcard_entry_def startswith_def)
qed

text \<open>An entry without a zone is a canonical name, or a canonical suffix with at least two labels
  after its wildcard.\<close>

definition entry_ok :: "string \<Rightarrow> bool" where
  "entry_ok e \<longleftrightarrow> canonical_host e
    \<or> (\<exists>h. e = ''*.'' @ h \<and> canonical_host h \<and> \<not> ip_literal h \<and> CHR ''.'' \<in> set h)"

lemma trusted_entry_ok:
  assumes "trusted_entry item = Some e" "CHR ''%'' \<notin> set e"
  shows "entry_ok e"
proof (cases "\<exists>s. item = PStr s \<and> wildcard_entry s")
  case True
  then obtain s where s: "item = PStr s" "wildcard_entry s" by blast
  with assms(1) obtain h where h: "normalize_web_hostname False (PStr (drop 2 (strip s))) = Some h"
    "\<not> ip_literal h" "CHR ''.'' \<in> set h" "e = ''*.'' @ h"
    by (auto simp: trusted_entry_def split: option.splits if_splits)
  then have "canonical_host h" using assms(2) by (intro normalized_canonical [OF h(1)]) simp
  with h show ?thesis unfolding entry_ok_def by blast
next
  case False
  then have "normalize_web_hostname False item = Some e"
    using assms(1) by (cases item) (simp_all add: trusted_entry_def)
  then show ?thesis using normalized_canonical assms(2) by (simp add: entry_ok_def)
qed

lemma trusted_entries_ok:
  "trusted_entries items = Some entries \<Longrightarrow> \<forall>e \<in> set entries. \<exists>item. trusted_entry item = Some e"
  by (induction items arbitrary: entries) (auto split: option.splits)

text \<open>What the loader guarantees of every entry, zones included.\<close>

lemma normalized_kind:
  assumes "normalize_web_hostname allow_port v = Some h"
  shows "ip_literal h \<or> dns_name h"
proof -
  obtain u where "split_host allow_port u = Some h"
    using assms by (cases v) (auto simp: normalize_web_hostname_def Let_def split: if_splits option.splits)
  from split_host_cases [OF this] obtain hn where
    "ip_literal hn \<and> h = hn \<or> dns_labels_ok hn \<and> h = remove_dot hn" by metis
  moreover have "dns_name (remove_dot hn)" if "dns_labels_ok hn"
    using that by (auto simp: dns_labels_ok_def dns_name_def remove_dot_def)
  ultimately show ?thesis by blast
qed

lemma dns_name_no_zone: "dns_name h \<Longrightarrow> CHR ''%'' \<notin> set h"
  using dns_chars(1) [of h] by (auto simp: list_all_iff name_char_def alnum_def)

definition trusted_host_ok :: "string \<Rightarrow> bool" where
  "trusted_host_ok e \<longleftrightarrow> entry_ok e \<or> CHR ''%'' \<in> set e \<and> ip_literal e"

lemma trusted_entry_host_ok:
  assumes "trusted_entry item = Some e"
  shows "trusted_host_ok e"
proof (cases "CHR ''%'' \<in> set e")
  case True
  have "ip_literal e"
  proof (cases "\<exists>s. item = PStr s \<and> wildcard_entry s")
    case True
    then obtain s h where h: "normalize_web_hostname False (PStr (drop 2 (strip s))) = Some h"
      "\<not> ip_literal h" "e = ''*.'' @ h"
      using assms by (auto simp: trusted_entry_def split: option.splits if_splits)
    then have "CHR ''%'' \<notin> set h" using normalized_kind [OF h(1)] dns_name_no_zone by blast
    then show ?thesis using \<open>CHR ''%'' \<in> set e\<close> h(3) by simp
  next
    case False
    then have "normalize_web_hostname False item = Some e"
      using assms by (cases item) (simp_all add: trusted_entry_def)
    then show ?thesis using normalized_kind dns_name_no_zone True by blast
  qed
  with True show ?thesis by (simp add: trusted_host_ok_def)
next
  case False
  then show ?thesis using trusted_entry_ok [OF assms] by (simp add: trusted_host_ok_def)
qed

lemma length_fromkeys: "length (fromkeys xs) \<le> length xs"
  using distinct_card [OF distinct_fromkeys [of xs]] card_length [of xs] by simp

lemma trusted_entries_length: "trusted_entries items = Some entries \<Longrightarrow> length entries = length items"
  by (induction items arbitrary: entries) (auto split: option.splits)

lemma trusted_web_hosts_ok:
  assumes "trusted_web_hosts data = Inr entries"
  shows "length entries \<le> 32 \<and> distinct entries \<and> list_all trusted_host_ok entries"
proof -
  obtain items es where items: "length items \<le> 32" "trusted_entries items = Some es" "entries = fromkeys es"
    using assms unfolding trusted_web_hosts_def Let_def
    by (cases "dget_or (PList []) data ''trusted_web_hosts''")
      (auto simp: not_less split: option.splits intro: that)
  moreover from this have "list_all trusted_host_ok es"
    using trusted_entries_ok trusted_entry_host_ok by (fastforce simp: list_all_iff)
  ultimately show ?thesis
    using length_fromkeys [of es] trusted_entries_length [of items es] by (simp add: list_all_iff)
qed

lemma configured_entries_ok:
  assumes "trusted_web_hosts data = Inr entries" "\<forall>e \<in> set entries. CHR ''%'' \<notin> set e"
  shows "\<forall>e \<in> set entries. entry_ok e"
proof -
  obtain items es where "trusted_entries items = Some es" "entries = fromkeys es"
    using assms(1) by (auto simp: trusted_web_hosts_def Let_def split: pyval.splits option.splits)
  then show ?thesis using trusted_entries_ok trusted_entry_ok assms(2) by fastforce
qed

definition entry_suffixes :: "string list \<Rightarrow> string set" where
  "entry_suffixes entries = {s. ''*.'' @ s \<in> set entries}"

definition exact_entries :: "string list \<Rightarrow> string set" where
  "exact_entries entries = {e \<in> set entries. \<not> wildcard_entry e}"

lemma add_trusted_ok:
  assumes "\<forall>e \<in> set entries. entry_ok e"
  shows "\<exists>exact suffixes'. add_trusted entries trusted suffixes = Inr (exact, suffixes')
    \<and> set exact = set trusted \<union> exact_entries entries
    \<and> set suffixes' = set suffixes \<union> entry_suffixes entries"
  using assms
proof (induction entries trusted suffixes rule: add_trusted.induct)
  case (1 trusted suffixes)
  then show ?case by (simp add: exact_entries_def entry_suffixes_def)
next
  case (2 candidate rest trusted suffixes)
  show ?case
  proof (cases "canonical_host candidate")
    case True
    then have n: "normalize_web_hostname False (PStr candidate) = Some candidate"
      and w: "\<not> wildcard_entry candidate" by (rule canonical_normalizes, rule canonical_not_wildcard)
    then have "\<forall>h. candidate \<noteq> ''*.'' @ h"
      by (metis (no_types, lifting) True canonical_chars list.pred_inject(2) append_Cons name_char_facts(1)
          startswith_refl_append strip_id wildcard_entry_def hd_in_set last_in_set list.pred_set)
    then show ?thesis using "2.IH"(2) [OF w n] "2.prems" n w
      by (auto simp: exact_entries_def entry_suffixes_def)
  next
    case False
    then obtain h where h: "candidate = ''*.'' @ h" "canonical_host h" "\<not> ip_literal h" "CHR ''.'' \<in> set h"
      using "2.prems" by (auto simp: entry_ok_def)
    then have w: "wildcard_entry candidate" and n: "normalize_web_hostname False (PStr (drop 2 (strip candidate))) = Some h"
      using wildcard_strip [OF h(2)] canonical_normalizes [OF h(2)] by simp_all
    show ?thesis using "2.IH"(1) [OF w n] "2.prems" n w h
      by (auto simp: exact_entries_def entry_suffixes_def)
  qed
qed

lemma configured_policy:
  assumes "trusted_web_hosts data = Inr entries" "\<forall>e \<in> set entries. CHR ''%'' \<notin> set e"
  shows "\<exists>exact suffixes. trusted_web_policy bind_host entries = Inr (exact, suffixes)
    \<and> set exact = set loopback_hostnames \<union> set (bind_hostnames bind_host) \<union> exact_entries entries
    \<and> set suffixes = entry_suffixes entries"
  using add_trusted_ok [OF configured_entries_ok [OF assms],
      of "List.union (bind_hostnames bind_host) loopback_hostnames" "[]"]
  unfolding trusted_web_policy_def by (simp add: Un_commute)

text \<open>What the policy takes an entry for, zones included: its normalized name, and for a wildcard the
  normalized rest.\<close>

definition configured_names :: "string list \<Rightarrow> string set" where
  "configured_names entries =
    {h. \<exists>e \<in> set entries. \<not> wildcard_entry e \<and> normalize_web_hostname False (PStr e) = Some h}"

definition configured_suffixes :: "string list \<Rightarrow> string set" where
  "configured_suffixes entries =
    {h. \<exists>e \<in> set entries. wildcard_entry e \<and> normalize_web_hostname False (PStr (drop 2 (strip e))) = Some h}"

lemma add_trusted_sets:
  "add_trusted entries trusted suffixes = Inr (exact, suffixes') \<Longrightarrow>
    set exact = set trusted \<union> configured_names entries
    \<and> set suffixes' = set suffixes \<union> configured_suffixes entries"
proof (induction entries trusted suffixes rule: add_trusted.induct)
  case (2 candidate rest trusted suffixes)
  have split: "configured_names (candidate # rest) = configured_names rest
      \<union> {h. \<not> wildcard_entry candidate \<and> normalize_web_hostname False (PStr candidate) = Some h}"
    "configured_suffixes (candidate # rest) = configured_suffixes rest
      \<union> {h. wildcard_entry candidate \<and> normalize_web_hostname False (PStr (drop 2 (strip candidate))) = Some h}"
    by (auto simp: configured_names_def configured_suffixes_def)
  show ?case
  proof (cases "wildcard_entry candidate")
    case True
    then obtain h where h: "normalize_web_hostname False (PStr (drop 2 (strip candidate))) = Some h"
      "\<not> (CHR ''.'' \<notin> set h \<or> ip_literal h)" "add_trusted rest trusted (List.insert h suffixes) = Inr (exact, suffixes')"
      using "2.prems" by (auto split: option.splits if_splits)
    with "2.IH"(1) [OF True h(1,2,3)] True show ?thesis unfolding split by auto
  next
    case False
    then obtain h where h: "normalize_web_hostname False (PStr candidate) = Some h"
      "add_trusted rest (List.insert h trusted) suffixes = Inr (exact, suffixes')"
      using "2.prems" by (auto split: option.splits)
    with "2.IH"(2) [OF False h] False show ?thesis unfolding split by auto
  qed
qed (simp add: configured_names_def configured_suffixes_def)

lemma configured_names_exact:
  assumes "trusted_web_hosts data = Inr entries" "\<forall>e \<in> set entries. CHR ''%'' \<notin> set e"
  shows "configured_names entries = exact_entries entries \<and> configured_suffixes entries = entry_suffixes entries"
  using add_trusted_ok [OF configured_entries_ok [OF assms], of "[]" "[]"] add_trusted_sets [of entries "[]" "[]"]
  by auto

section \<open>Properties\<close>

text \<open>C38. Every trusted host the configuration loader accepts can be used: building the policy from the
  accepted entries never raises, and the policy trusts exactly the loopback names, the bind host
  and the entries without a wildcard, and as suffixes exactly what follows the wildcards. (Entries
  with an IPv6 zone, where this fails, are set apart.)\<close>

theorem configured_hosts_trusted:
  assumes "trusted_web_hosts data = Inr entries" "\<forall>e \<in> set entries. CHR ''%'' \<notin> set e"
  shows "\<exists>exact suffixes. trusted_web_policy bind_host entries = Inr (exact, suffixes)
    \<and> set exact = set loopback_hostnames \<union> set (bind_hostnames bind_host) \<union> exact_entries entries
    \<and> set suffixes = entry_suffixes entries"
  by (rule configured_policy [OF assms])

definition sample_hosts :: obj where
  "sample_hosts = [(''trusted_web_hosts'', PList [PStr ''Box.Example.'', PStr ''*.Preview.Example''])]"

lemma sample_hosts_value: "trusted_web_hosts sample_hosts = Inr [''box.example'', ''*.preview.example'']"
  by code_simp

theorem configured_hosts_trusted_witness:
  "\<exists>exact suffixes. trusted_web_policy ''0.0.0.0'' [''box.example'', ''*.preview.example''] = Inr (exact, suffixes)
    \<and> ''box.example'' \<in> set exact \<and> ''preview.example'' \<in> set suffixes"
proof -
  have z: "\<forall>e \<in> set [''box.example'', ''*.preview.example'']. CHR ''%'' \<notin> set e" by simp
  have w: "\<not> wildcard_entry ''box.example''" by code_simp
  from configured_hosts_trusted [OF sample_hosts_value z, of "''0.0.0.0''"] w
  show ?thesis by (auto simp: exact_entries_def entry_suffixes_def)
qed

text \<open>C39. A write the dashboard accepts under a configured policy carries exactly one Host header,
  which names the loopback interface, the bind host or a configured host (never a name that only a
  wildcard covers), and an Origin that names one of these or, over HTTPS only, a name strictly
  below a configured suffix. So a page of another site, or of a domain rebound to this address,
  cannot write. The name of a configured host, or its suffix, is what the policy normalizes the
  entry to; that is the accepted entry itself, or what follows its wildcard, unless some entry has an
  IPv6 zone.\<close>

theorem accepted_write_confined:
  assumes "trusted_web_hosts data = Inr entries"
    and "trusted_web_policy bind_host entries = Inr (exact, suffixes)"
    and "is_dashboard_write hs exact suffixes"
  shows "(\<exists>host name origin parsed oname.
      get_all hs ''Host'' = [host] \<and> normalize_web_hostname True (PStr host) = Some name
      \<and> name \<in> set loopback_hostnames \<union> set (bind_hostnames bind_host) \<union> configured_names entries
      \<and> get_header hs ''Origin'' = Some origin \<and> urlsplit origin = Some parsed
      \<and> normalize_web_hostname False (popt PStr (url_hostname parsed)) = Some oname
      \<and> (oname \<in> set loopback_hostnames \<union> set (bind_hostnames bind_host) \<union> configured_names entries
        \<or> url_scheme parsed = ''https''
          \<and> (\<exists>sub suffix. oname = sub @ ''.'' @ suffix \<and> suffix \<in> configured_suffixes entries)))
    \<and> ((\<forall>e \<in> set entries. CHR ''%'' \<notin> set e) \<longrightarrow>
        configured_names entries = exact_entries entries
        \<and> configured_suffixes entries = entry_suffixes entries)"
proof -
  have sets: "set exact = set loopback_hostnames \<union> set (bind_hostnames bind_host) \<union> configured_names entries"
    "set suffixes = configured_suffixes entries"
    using add_trusted_sets [OF assms(2) [unfolded trusted_web_policy_def]] by (simp_all add: Un_commute)
  obtain host name where host: "get_all hs ''Host'' = [host]"
    "normalize_web_hostname True (PStr host) = Some name" "name \<in> set exact"
    using assms(3)
    by (auto simp: is_dashboard_write_def is_dashboard_read_def is_trusted_request_def has_trusted_host_def Let_def
        split: list.splits option.splits)
  obtain origin parsed where origin: "get_header hs ''Origin'' = Some origin" "urlsplit origin = Some parsed"
    "has_trusted_origin parsed exact suffixes"
    using assms(3) by (auto simp: is_dashboard_write_def split: option.splits)
  then obtain oname where oname: "normalize_web_hostname False (popt PStr (url_hostname parsed)) = Some oname"
    "oname \<in> set exact \<or> url_scheme parsed = ''https''
      \<and> list_ex (\<lambda>suffix. endswith oname (''.'' @ suffix)) suffixes"
    by (auto simp: has_trusted_origin_def split: option.splits)
  have "\<exists>sub. oname = sub @ ''.'' @ suffix" if "endswith oname (''.'' @ suffix)" for suffix
    using that unfolding endswith_def by (metis append_take_drop_id)
  then have below: "oname \<in> set exact \<or> url_scheme parsed = ''https''
      \<and> (\<exists>sub suffix. oname = sub @ ''.'' @ suffix \<and> suffix \<in> configured_suffixes entries)"
    using oname(2) sets(2) by (auto simp: list_ex_iff) blast
  have exactly: "(\<forall>e \<in> set entries. CHR ''%'' \<notin> set e) \<longrightarrow>
      configured_names entries = exact_entries entries \<and> configured_suffixes entries = entry_suffixes entries"
    using configured_names_exact [OF assms(1)] by blast
  show ?thesis using host origin(1,2) oname(1) below exactly unfolding sets(1) by blast
qed

definition sample_write :: headers where
  "sample_write = [(''host'', ''127.0.0.1:8765''), (''sec-fetch-site'', ''same-origin''),
    (''x-monitor-request'', ''dashboard''), (''origin'', ''https://a.preview.example'')]"

lemma sample_policy:
  "trusted_web_policy ''127.0.0.1'' [''box.example'', ''*.preview.example''] =
    Inr ([''box.example'', ''localhost'', ''127.0.0.1'', ''::1''], [''preview.example''])"
  by code_simp

theorem accepted_write_confined_witness:
  "\<exists>host name. get_all sample_write ''Host'' = [host] \<and> normalize_web_hostname True (PStr host) = Some name
    \<and> name \<in> set loopback_hostnames \<union> set (bind_hostnames ''127.0.0.1'')
      \<union> exact_entries [''box.example'', ''*.preview.example'']"
proof -
  have z: "\<forall>e \<in> set [''box.example'', ''*.preview.example'']. CHR ''%'' \<notin> set e" by simp
  have w: "is_dashboard_write sample_write [''box.example'', ''localhost'', ''127.0.0.1'', ''::1''] [''preview.example'']"
    by code_simp
  from accepted_write_confined [OF sample_hosts_value sample_policy w] z show ?thesis by fastforce
qed

text \<open>C40. Who is let through: with authentication switched off exactly the requests from a trusted host
  that are not cross-site, with a bearer token exactly those whose only Authorization header is
  the non-empty ASCII token after the word Bearer; no other mode, and no empty token, lets anyone in.\<close>

theorem authenticated_iff:
  "authentication_error documentation hs mode token trusted = None \<longleftrightarrow>
    mode = ''none'' \<and> is_trusted_request hs trusted
    \<or> mode = ''bearer'' \<and> token \<noteq> [] \<and> list_all is_ascii token
      \<and> get_all hs ''Authorization'' = [''Bearer '' @ token]"
proof -
  have "bearer_accepted hs token \<longleftrightarrow> list_all is_ascii token \<and> get_all hs ''Authorization'' = [''Bearer '' @ token]"
  proof (cases "get_all hs ''Authorization''")
    case (Cons v vs)
    have "startswith v ''Bearer '' \<Longrightarrow> v = ''Bearer '' @ drop 7 v" by (auto dest!: startswith_exD)
    moreover have "startswith (''Bearer '' @ token) ''Bearer ''" by (rule startswith_refl_append)
    ultimately show ?thesis
      by (auto simp: bearer_accepted_def Cons compare_digest_def split: list.splits if_splits)
  qed (simp add: bearer_accepted_def)
  then show ?thesis by (auto simp: authentication_error_def)
qed

text \<open>A zone that ends in a space is accepted by the loader with its space; the policy strips it, so
  the name it trusts is not an entry.\<close>

lemma zone_stripped:
  "trusted_web_hosts [(''trusted_web_hosts'', PList [PStr ''[::1%a ]''])] = Inr [''::1%a '']
    \<and> normalize_web_hostname False (PStr ''::1%a '') = Some ''::1%a''
    \<and> is_dashboard_write [(''host'', ''[::1%a]''), (''x-monitor-request'', ''dashboard''),
        (''origin'', ''http://[::1%a]'')] [''::1%a''] []"
  by code_simp

text \<open>Two corners. A zone of spaces is accepted by the loader and refused by the policy, whose
  \<open>ValueError\<close> ends the start of the server; and text after the bracket of an IPv6 literal is
  dropped.\<close>

lemma zone_of_spaces:
  "trusted_web_hosts [(''trusted_web_hosts'', PList [PStr ''[::1% ]''])] = Inr [''::1% '']
    \<and> trusted_web_policy ''127.0.0.1'' [''::1% ''] = Inl (Invalid_Trusted_Host ''::1% '')"
  by code_simp

lemma text_after_bracket: "normalize_web_hostname True (PStr ''[::1]evil.example'') = Some ''::1''"
  by code_simp

end
