(* ===== verification/Config_Fields.thy ===== *)
theory Config_Fields
  imports Monitor_Config Hostnames
begin

text \<open>
  The single fields of a configuration document: the text validators of \<open>config.py\<close> and the bounded
  numbers, lists, timestamps and lists of entries of \<open>config_loader.py\<close>.
\<close>

section \<open>Texts\<close>

definition maintenance_reason_max_length :: nat where "maintenance_reason_max_length = 120"
definition incident_action_reason_max_length :: nat where "incident_action_reason_max_length = 120"
definition incident_action_key_max_length :: nat where "incident_action_key_max_length = 512"
definition incident_action_max_entries :: nat where "incident_action_max_entries = 512"
definition host_group_max_length :: nat where "host_group_max_length = 48"
definition display_name_max_length :: nat where "display_name_max_length = 64"
definition config_max_host_aliases :: nat where "config_max_host_aliases = 1024"

text \<open>The line and paragraph separators lie above the code points of the model, so the two
  character tests agree here.\<close>

definition has_disallowed_text_characters :: "string \<Rightarrow> bool" where
  "has_disallowed_text_characters s = list_ex is_control s"

definition is_valid_maintenance_reason :: "bool \<Rightarrow> pyval \<Rightarrow> bool" where
  "is_valid_maintenance_reason required v =
    (case v of
       PStr s \<Rightarrow> (strip s \<noteq> [] \<or> \<not> required) \<and> length (strip s) \<le> maintenance_reason_max_length
         \<and> \<not> has_disallowed_text_characters s
     | _ \<Rightarrow> False)"

definition is_valid_incident_action_reason :: "pyval \<Rightarrow> bool" where
  "is_valid_incident_action_reason v =
    (case v of
       PStr s \<Rightarrow> length (strip s) \<le> incident_action_reason_max_length \<and> \<not> list_ex is_control s
     | _ \<Rightarrow> False)"

definition is_valid_incident_condition_key :: "pyval \<Rightarrow> bool" where
  "is_valid_incident_condition_key v =
    (case v of
       PStr s \<Rightarrow> s \<noteq> [] \<and> length s \<le> incident_action_key_max_length \<and> \<not> list_ex is_control s
     | _ \<Rightarrow> False)"

definition is_valid_host_group :: "bool \<Rightarrow> pyval \<Rightarrow> bool" where
  "is_valid_host_group required v =
    (case v of
       PStr s \<Rightarrow> (strip s \<noteq> [] \<or> \<not> required) \<and> length (strip s) \<le> host_group_max_length
         \<and> \<not> list_ex is_control s
     | _ \<Rightarrow> False)"

section \<open>Numbers\<close>

definition between_message :: "string \<Rightarrow> int \<Rightarrow> int \<Rightarrow> string" where
  "between_message label low high = label @ '' must be between '' @ int_str low @ '' and '' @ int_str high"

definition number_field :: "string \<Rightarrow> int \<Rightarrow> int \<Rightarrow> pyval \<Rightarrow> rat parsed" where
  "number_field label low high v =
    (let out = between_message label low high in
     case v of
       PInt i \<Rightarrow> guard (\<not> (low \<le> i \<and> i \<le> high)) out (Inr (of_int i))
     | PFloat x \<Rightarrow> guard (\<not> (of_int low \<le> x \<and> x \<le> of_int high)) out (Inr x)
     | PInf _ \<Rightarrow> refuse out
     | PNan \<Rightarrow> refuse out
     | _ \<Rightarrow> refuse (label @ '' must be a number''))"

definition integer_field :: "string \<Rightarrow> int \<Rightarrow> int \<Rightarrow> pyval \<Rightarrow> int parsed" where
  "integer_field label low high v =
    (case v of
       PInt i \<Rightarrow> guard (\<not> (low \<le> i \<and> i \<le> high)) (between_message label low high) (Inr i)
     | _ \<Rightarrow> refuse (label @ '' must be an integer''))"

definition bounded_number :: "obj \<Rightarrow> string \<Rightarrow> int \<Rightarrow> int \<Rightarrow> rat parsed" where
  "bounded_number data key low high = number_field key low high (oget data key)"

definition bounded_integer :: "obj \<Rightarrow> string \<Rightarrow> int \<Rightarrow> int \<Rightarrow> int parsed" where
  "bounded_integer data key low high = integer_field key low high (oget data key)"

definition optional_bounded_number :: "obj \<Rightarrow> string \<Rightarrow> string \<Rightarrow> int \<Rightarrow> int \<Rightarrow> rat option parsed" where
  "optional_bounded_number data key label low high =
    (case oget data key of
       PNone \<Rightarrow> Inr None
     | v \<Rightarrow> sum_bind (number_field label low high v) (\<lambda>x. Inr (Some x)))"

definition optional_setting :: "obj \<Rightarrow> string \<Rightarrow> rat \<Rightarrow> int \<Rightarrow> int \<Rightarrow> rat parsed" where
  "optional_setting data key preset low high =
    bounded_number [(key, dget_or (PFloat preset) data key)] key low high"

definition bounded_optional_int :: "obj \<Rightarrow> string \<Rightarrow> int \<Rightarrow> int \<Rightarrow> int \<Rightarrow> int parsed" where
  "bounded_optional_int data key preset low high =
    integer_field key low high (dget_or (PInt preset) data key)"

section \<open>Lists\<close>

definition string_list :: "obj \<Rightarrow> string \<Rightarrow> string list parsed" where
  "string_list data key =
    (let message = key @ '' must be a list of non-empty strings'' in
     case oget data key of
       PList items \<Rightarrow>
         (case those (map as_text items) of
            None \<Rightarrow> refuse message
          | Some ss \<Rightarrow> guard (list_ex (\<lambda>s. strip s = []) ss) message (Inr (fromkeys (map strip ss))))
     | _ \<Rightarrow> refuse message)"

text \<open>A loop that parses the items of a section one by one and stops at the first refusal.\<close>

fun parse_each :: "('a \<Rightarrow> 'b parsed) \<Rightarrow> 'a list \<Rightarrow> 'b list parsed" where
  "parse_each f [] = Inr []"
| "parse_each f (x # xs) = sum_bind (f x) (\<lambda>y. sum_bind (parse_each f xs) (\<lambda>ys. Inr (y # ys)))"

section \<open>Timestamps\<close>

text \<open>\<open>_UTC_TIMESTAMP\<close> and \<open>strptime\<close>: four, two and two digits of a date and three pairs of a clock.\<close>

definition timestamp_shape :: "string \<Rightarrow> bool" where
  "timestamp_shape s \<longleftrightarrow> length s = 20
    \<and> list_all (\<lambda>i. is_digit (s ! i)) [0, 1, 2, 3, 5, 6, 8, 9, 11, 12, 14, 15, 17, 18]
    \<and> s ! 4 = CHR ''-'' \<and> s ! 7 = CHR ''-'' \<and> s ! 10 = CHR ''T'' \<and> s ! 13 = CHR '':'' \<and> s ! 16 = CHR '':''
    \<and> s ! 19 = CHR ''Z''"

definition digits_at :: "string \<Rightarrow> nat \<Rightarrow> nat \<Rightarrow> int" where
  "digits_at s i n = digits_int (take n (drop i s))"

definition strptime_utc :: "string \<Rightarrow> moment option" where
  "strptime_utc s =
    (let y = digits_at s 0 4; m = digits_at s 5 2; d = digits_at s 8 2;
         hh = digits_at s 11 2; mm = digits_at s 14 2; ss = digits_at s 17 2
     in if valid_date y m d \<and> hh < 24 \<and> mm < 60 \<and> ss < 60
        then Some ((to_ordinal y m d - epoch_ordinal) * us_per_day
          + (hh * 3600 + mm * 60 + ss) * us_per_second)
        else None)"

definition utc_timestamp :: "pyval \<Rightarrow> string \<Rightarrow> moment parsed" where
  "utc_timestamp v label =
    (case v of
       PStr s \<Rightarrow>
         if \<not> timestamp_shape s then refuse (label @ '' must be a UTC timestamp'')
         else (case strptime_utc s of
                 None \<Rightarrow> refuse (label @ '' must be a valid UTC timestamp'')
               | Some t \<Rightarrow> Inr t)
     | _ \<Rightarrow> refuse (label @ '' must be a UTC timestamp''))"

section \<open>What the fields guarantee\<close>

lemma number_field_range:
  "number_field label low high v = Inr x \<Longrightarrow> of_int low \<le> x \<and> x \<le> of_int high"
  by (cases v) (auto simp: number_field_def Let_def)

lemma integer_field_range: "integer_field label low high v = Inr i \<Longrightarrow> low \<le> i \<and> i \<le> high"
  by (cases v) (auto simp: integer_field_def)

lemma bounded_number_range: "bounded_number data key low high = Inr x \<Longrightarrow> of_int low \<le> x \<and> x \<le> of_int high"
  unfolding bounded_number_def by (rule number_field_range)

lemma optional_setting_range:
  "optional_setting data key preset low high = Inr x \<Longrightarrow> of_int low \<le> x \<and> x \<le> of_int high"
  unfolding optional_setting_def by (rule bounded_number_range)

lemma bounded_integer_range: "bounded_integer data key low high = Inr i \<Longrightarrow> low \<le> i \<and> i \<le> high"
  unfolding bounded_integer_def by (rule integer_field_range)

lemma bounded_optional_int_range: "bounded_optional_int data key preset low high = Inr i \<Longrightarrow> low \<le> i \<and> i \<le> high"
  unfolding bounded_optional_int_def by (rule integer_field_range)

lemma optional_number_range:
  "optional_bounded_number data key label low high = Inr (Some x) \<Longrightarrow> of_int low \<le> x \<and> x \<le> of_int high"
  using number_field_range [of label low high "oget data key" x]
  by (auto simp: optional_bounded_number_def sum_bind_Inr split: pyval.splits)

lemma string_list_facts: "string_list data key = Inr xs \<Longrightarrow> distinct xs"
  by (auto simp: string_list_def Let_def split: pyval.splits option.splits)

lemma parse_each_Inr:
  "parse_each f xs = Inr ys \<longleftrightarrow> length ys = length xs \<and> (\<forall>i < length xs. f (xs ! i) = Inr (ys ! i))"
proof (induction xs arbitrary: ys)
  case (Cons x xs)
  show ?case
  proof (cases ys)
    case (Cons y ys')
    then show ?thesis using Cons.IH [of ys'] by (auto simp: sum_bind_Inr nth_Cons' less_Suc_eq_0_disj)
  qed (auto simp: sum_bind_Inr)
qed auto

lemma parse_each_set: "parse_each f xs = Inr ys \<Longrightarrow> y \<in> set ys \<Longrightarrow> \<exists>x \<in> set xs. f x = Inr y"
  by (induction xs arbitrary: ys) (auto simp: sum_bind_Inr)

lemma parse_each_map: "parse_each f xs = Inr ys \<Longrightarrow> (\<And>x y. f x = Inr y \<Longrightarrow> g y = h x) \<Longrightarrow> map g ys = map h xs"
  by (induction xs arbitrary: ys) (auto simp: sum_bind_Inr)

lemma clean_number [intro]: "clean (number_field label low high v)"
  unfolding number_field_def Let_def by (intro clean_pyval_case clean_rules)

lemma clean_integer [intro]: "clean (integer_field label low high v)"
  unfolding integer_field_def by (intro clean_pyval_case clean_rules)

lemma clean_each [intro]: "(\<And>x. x \<in> set xs \<Longrightarrow> clean (f x)) \<Longrightarrow> clean (parse_each f xs)"
  by (induction xs) (auto intro!: clean_bind)

lemma clean_bounded [intro]:
  "clean (bounded_number data key low high)" "clean (bounded_integer data key low high)"
  "clean (optional_setting data key preset low high)" "clean (bounded_optional_int data key ipreset low high)"
  unfolding bounded_number_def bounded_integer_def optional_setting_def bounded_optional_int_def
  by (intro clean_number clean_integer)+

lemma clean_optional [intro]: "clean (optional_bounded_number data key label low high)"
  unfolding optional_bounded_number_def by (intro clean_pyval_case clean_rules clean_bind clean_number)

lemma clean_string_list [intro]: "clean (string_list data key)"
  unfolding string_list_def Let_def by (intro clean_pyval_case clean_rules clean_option_case)

lemma clean_timestamp [intro]: "clean (utc_timestamp v label)"
  unfolding utc_timestamp_def by (intro clean_pyval_case clean_rules) (auto split: option.split)

section \<open>Reading back a written timestamp\<close>

lemma pad_digits: "0 \<le> n \<Longrightarrow> n < 100 \<Longrightarrow> list_all is_digit (pad2 n) \<and> digits_int (pad2 n) = n"
  by (simp add: pad2_def digit_char_is_digit digits_int_def)

lemma pad4_digits:
  assumes "0 \<le> n" "n < 10000"
  shows "list_all is_digit (pad4 n) \<and> digits_int (pad4 n) = n"
proof -
  define q where "q = n div 100"
  define r where "r = n mod 100"
  have "n = 100 * q + r" "0 \<le> q" "q < 100" "0 \<le> r" "r < 100"
    using assms by (auto simp: q_def r_def)
  moreover from this have "q div 10 mod 10 = q div 10" "r div 10 mod 10 = r div 10" by simp_all
  moreover have "q = 10 * (q div 10) + q mod 10" "r = 10 * (r div 10) + r mod 10" by simp_all
  ultimately show ?thesis
    by (simp add: digits_int_def pad4_def pad2_def digit_char_is_digit flip: q_def r_def)
qed

lemma moment_ordinal:
  assumes "- 62135596800000000 \<le> t" and "t < 253402300800000000"
  shows "1 \<le> t div us_per_second div 86400 + epoch_ordinal"
    and "t div us_per_second div 86400 + epoch_ordinal \<le> 3652059"
proof -
  define s where "s = t div us_per_second"
  have t: "t = 1000000 * s + t mod 1000000" "0 \<le> t mod 1000000" "t mod 1000000 < 1000000"
    by (simp_all add: s_def us_per_second_def)
  then have b: "- 62135596800 \<le> s" "s < 253402300800" using assms by linarith+
  have "s = 86400 * (s div 86400) + s mod 86400" "0 \<le> s mod 86400" "s mod 86400 < 86400"
    by simp_all
  with b show "1 \<le> t div us_per_second div 86400 + epoch_ordinal"
    "t div us_per_second div 86400 + epoch_ordinal \<le> 3652059"
    unfolding epoch_ordinal_def s_def [symmetric] by linarith+
qed

lemma month_day_bounds: "valid_date y m d \<Longrightarrow> 1 \<le> m \<and> m \<le> 12 \<and> 1 \<le> d \<and> d \<le> 31"
proof -
  assume v: "valid_date y m d"
  then have "nat (m - 1) < length (month_lengths y)" by (auto simp: valid_date_def month_lengths_def)
  then have "month_lengths y ! nat (m - 1) \<in> set (month_lengths y)" by simp
  then have "month_lengths y ! nat (m - 1) \<le> 31" by (auto simp: month_lengths_def split: if_splits)
  with v show ?thesis by (auto simp: valid_date_def)
qed

lemma utc_timestamp_iso_z:
  assumes "- 62135596800000000 \<le> t" and "t < 253402300800000000"
  shows "utc_timestamp (PStr (iso_z t)) label = Inr (t div us_per_second * us_per_second)"
proof -
  define s where "s = t div us_per_second"
  define r where "r = s mod 86400"
  obtain y m d where ymd: "from_ordinal (s div 86400 + epoch_ordinal) = (y, m, d)"
    by (metis prod_cases3)
  note ord = moment_ordinal [OF assms, folded s_def]
  from from_ordinal_correct [OF ord(1) ymd] from_ordinal_year [OF ord ymd]
  have date: "to_ordinal y m d = s div 86400 + epoch_ordinal" "valid_date y m d" "1 \<le> y" "y \<le> 9999" by auto
  note md = month_day_bounds [OF date(2)]
  have r: "0 \<le> r" "r < 86400" by (auto simp: r_def)
  have clock: "0 \<le> r div 3600" "r div 3600 < 24" "0 \<le> r div 60 mod 60" "r div 60 mod 60 < 60"
    "0 \<le> r mod 60" "r mod 60 < 60" using r by simp_all
  have P: "list_all is_digit (pad4 y) \<and> digits_int (pad4 y) = y"
    "list_all is_digit (pad2 m) \<and> digits_int (pad2 m) = m"
    "list_all is_digit (pad2 d) \<and> digits_int (pad2 d) = d"
    "list_all is_digit (pad2 (r div 3600)) \<and> digits_int (pad2 (r div 3600)) = r div 3600"
    "list_all is_digit (pad2 (r div 60 mod 60)) \<and> digits_int (pad2 (r div 60 mod 60)) = r div 60 mod 60"
    "list_all is_digit (pad2 (r mod 60)) \<and> digits_int (pad2 (r mod 60)) = r mod 60"
    using date md clock by (intro pad4_digits pad_digits; linarith)+
  obtain y1 y2 y3 y4 where Y: "pad4 y = [y1, y2, y3, y4]" by (simp add: pad4_def pad2_def)
  have two: "\<exists>a b. pad2 n = [a, b]" for n by (simp add: pad2_def)
  obtain m1 m2 d1 d2 h1 h2 i1 i2 s1 s2 where Q: "pad2 m = [m1, m2]" "pad2 d = [d1, d2]"
    "pad2 (r div 3600) = [h1, h2]" "pad2 (r div 60 mod 60) = [i1, i2]" "pad2 (r mod 60) = [s1, s2]"
    using two by metis
  define iso where "iso = [y1, y2, y3, y4, CHR ''-'', m1, m2, CHR ''-'', d1, d2, CHR ''T'', h1, h2, CHR '':'',
    i1, i2, CHR '':'', s1, s2, CHR ''Z'']"
  have iso: "iso_z t = iso"
    unfolding iso_z_def Let_def s_def [symmetric] ymd r_def [symmetric] by (simp add: iso_def Y Q)
  have shape: "timestamp_shape iso"
    using P unfolding Y Q by (simp add: timestamp_shape_def iso_def)
  have digits: "digits_at iso 0 4 = y" "digits_at iso 5 2 = m" "digits_at iso 8 2 = d"
    "digits_at iso 11 2 = r div 3600" "digits_at iso 14 2 = r div 60 mod 60" "digits_at iso 17 2 = r mod 60"
    using P unfolding Y Q by (simp_all add: digits_at_def iso_def)
  have total: "(s div 86400) * us_per_day + (r div 3600 * 3600 + r div 60 mod 60 * 60 + r mod 60) * us_per_second
      = s * us_per_second"
  proof -
    have "r = r div 3600 * 3600 + r div 60 mod 60 * 60 + r mod 60"
      using zmod_zmult2_eq [of 60 r 60] div_mult_mod_eq [of r 3600] by (simp add: zdiv_zmult2_eq mod_mult2_eq)
    then have r_eq: "r div 3600 * 3600 + r div 60 mod 60 * 60 + r mod 60 = r" by (rule sym)
    have "s = s div 86400 * 86400 + r" by (simp add: r_def)
    then have "s * us_per_second = (s div 86400 * 86400 + r) * us_per_second" by (rule arg_cong)
    also have "\<dots> = (s div 86400) * us_per_day + r * us_per_second"
      by (simp add: us_defs distrib_right)
    finally show ?thesis unfolding r_eq by (rule sym)
  qed
  have "valid_date y m d \<and> r div 3600 < 24 \<and> r div 60 mod 60 < 60 \<and> r mod 60 < 60"
    using date(2) clock by (intro conjI)
  then have "strptime_utc iso = Some (s * us_per_second)"
    unfolding strptime_utc_def digits Let_def date(1) total [symmetric] by (simp only: if_True) simp
  then show ?thesis using shape by (simp add: utc_timestamp_def iso s_def)
qed

end
