(* ===== verification/Config_Sections.thy ===== *)
theory Config_Sections
  imports Config_Fields
begin

text \<open>
  The sections of a configuration document that \<open>config_loader.py\<close> parses itself, each as the function
  of the same name: host lists, thresholds, per-host sections, maintenance windows, groups, incident
  overrides, confirmation cycles and incident actions.
\<close>

definition section_dict :: "obj \<Rightarrow> string \<Rightarrow> string \<Rightarrow> obj parsed" where
  "section_dict data key message = (case dget_or (PDict []) data key of PDict raw \<Rightarrow> Inr raw | _ \<Rightarrow> refuse message)"

section \<open>Hosts\<close>

definition host_lists :: "obj \<Rightarrow> (string list \<times> string list) parsed" where
  "host_lists data =
    sum_bind (string_list data ''hosts'') (\<lambda>hosts.
    sum_bind (string_list data ''exclude_hosts'') (\<lambda>excludes.
      guard (config_max_host_aliases < length hosts) ''hosts must contain at most 1024 unique aliases''
      (guard (config_max_host_aliases < length excludes)
        ''exclude_hosts must contain at most 1024 unique aliases''
      (let invalid = sort (filter (\<lambda>a. \<not> is_safe_alias a) (hosts @ excludes)) in
       guard (invalid \<noteq> [])
         (''host aliases must contain only letters, numbers, dots, underscores, and hyphens: ''
           @ join '', '' invalid)
         (Inr (hosts, excludes))))))"

definition local_host_of :: "obj \<Rightarrow> string list \<Rightarrow> string list \<Rightarrow> string option parsed" where
  "local_host_of data hosts excludes =
    (let message = ''local_host must be null or a safe host alias'' in
     case oget data ''local_host'' of
       PNone \<Rightarrow> Inr None
     | PStr value \<Rightarrow>
         (let local_host = strip value in
          guard (\<not> is_safe_alias local_host) message
          (guard (local_host \<notin> set hosts) ''local_host must also appear in the explicit hosts list''
          (guard (local_host \<in> set excludes) ''local_host cannot be excluded''
            (Inr (Some local_host)))))
     | _ \<Rightarrow> refuse message)"

definition explicit_alias ::
  "string \<Rightarrow> bool \<Rightarrow> string list \<Rightarrow> string list \<Rightarrow> string \<Rightarrow> 'a parsed \<Rightarrow> 'a parsed" where
  "explicit_alias section require_explicit hosts excludes alias rest =
    guard (\<not> is_safe_alias alias) (section @ '' keys must be safe host aliases'')
    (guard (require_explicit \<and> alias \<notin> set hosts)
      (section @ ''.'' @ alias @ '' must reference an explicit host'')
    (guard (alias \<in> set excludes) (section @ ''.'' @ alias @ '' cannot be excluded'') rest))"

section \<open>Thresholds\<close>

definition threshold_keys :: "string list" where
  "threshold_keys = [''cpu_warning_pct'', ''memory_warning_pct'', ''swap_warning_pct'',
    ''disk_warning_pct'', ''disk_min_free_gib'', ''psi_memory_some_pct'', ''psi_io_some_pct'',
    ''gpu_temperature_warning_c'', ''gpu_busy_pct'', ''gpu_memory_warning_pct'', ''gpu_idle_memory_pct'']"

definition threshold_field :: "obj \<Rightarrow> string \<Rightarrow> rat \<Rightarrow> int \<Rightarrow> rat parsed" where
  "threshold_field raw name preset maximum =
    number_field (''thresholds.'' @ name) 0 maximum (dget_or (PFloat preset) raw name)"

definition thresholds_of :: "obj \<Rightarrow> threshold_config parsed" where
  "thresholds_of data =
    sum_bind (section_dict data ''thresholds'' ''thresholds must be a JSON object'') (\<lambda>raw.
      let unknown = unknown_keys raw threshold_keys; d = default_thresholds in
      guard (unknown \<noteq> []) (''unknown threshold keys: '' @ join '', '' unknown)
      (sum_bind (threshold_field raw ''cpu_warning_pct'' (th_cpu_warning_pct d) 100) (\<lambda>cpu.
       sum_bind (threshold_field raw ''memory_warning_pct'' (th_memory_warning_pct d) 100) (\<lambda>memory.
       sum_bind (threshold_field raw ''swap_warning_pct'' (th_swap_warning_pct d) 100) (\<lambda>swap.
       sum_bind (threshold_field raw ''disk_warning_pct'' (th_disk_warning_pct d) 100) (\<lambda>disk.
       sum_bind (threshold_field raw ''disk_min_free_gib'' (th_disk_min_free_gib d) 1048576) (\<lambda>free.
       sum_bind (threshold_field raw ''psi_memory_some_pct'' (th_psi_memory_some_pct d) 100) (\<lambda>psi_memory.
       sum_bind (threshold_field raw ''psi_io_some_pct'' (th_psi_io_some_pct d) 100) (\<lambda>psi_io.
       sum_bind (threshold_field raw ''gpu_temperature_warning_c'' (th_gpu_temperature_warning_c d) 150) (\<lambda>temperature.
       sum_bind (threshold_field raw ''gpu_busy_pct'' (th_gpu_busy_pct d) 100) (\<lambda>busy.
       sum_bind (threshold_field raw ''gpu_memory_warning_pct'' (th_gpu_memory_warning_pct d) 100) (\<lambda>gpu_memory.
       sum_bind (threshold_field raw ''gpu_idle_memory_pct'' (th_gpu_idle_memory_pct d) 100) (\<lambda>idle.
         Inr \<lparr>th_cpu_warning_pct = cpu, th_memory_warning_pct = memory, th_swap_warning_pct = swap,
              th_disk_warning_pct = disk, th_disk_min_free_gib = free, th_psi_memory_some_pct = psi_memory,
              th_psi_io_some_pct = psi_io, th_gpu_temperature_warning_c = temperature, th_gpu_busy_pct = busy,
              th_gpu_memory_warning_pct = gpu_memory, th_gpu_idle_memory_pct = idle\<rparr>)))))))))))))"

section \<open>Per-host sections\<close>

definition expected_gpu_counts :: "obj \<Rightarrow> string list \<Rightarrow> string list \<Rightarrow> (string \<times> int) list parsed" where
  "expected_gpu_counts data hosts excludes =
    sum_bind (section_dict data ''expected_gpu_counts'' ''expected_gpu_counts must be a JSON object'')
      (parse_each (\<lambda>(alias, v). explicit_alias ''expected_gpu_counts'' True hosts excludes alias
        (sum_bind (integer_field (''expected_gpu_counts.'' @ alias) 0 256 v) (\<lambda>i. Inr (alias, i)))))"

definition display_name_of :: "string \<Rightarrow> obj \<Rightarrow> string option parsed" where
  "display_name_of alias raw =
    (let message = ''host_overrides.'' @ alias @ ''.display_name must be 1 to 64 visible characters'' in
     case dget raw ''display_name'' of
       None \<Rightarrow> Inr None
     | Some (PStr s) \<Rightarrow>
         guard (strip s = [] \<or> display_name_max_length < length (strip s) \<or> has_disallowed_text_characters s)
           message (Inr (Some (strip s)))
     | Some _ \<Rightarrow> refuse message)"

definition host_override_entry :: "int \<Rightarrow> string \<Rightarrow> pyval \<Rightarrow> host_override parsed" where
  "host_override_entry connect_timeout alias v =
    (let label = ''host_overrides.'' @ alias in
     case v of
       PDict raw \<Rightarrow>
         (let unknown = unknown_keys raw [''poll_interval_seconds'', ''probe_timeout_seconds'', ''display_name''] in
          guard (unknown \<noteq> []) (''unknown '' @ label @ '' keys: '' @ join '', '' unknown)
          (guard (raw = []) (label @ '' must not be empty'')
          (sum_bind (display_name_of alias raw) (\<lambda>name.
           sum_bind (optional_bounded_number raw ''poll_interval_seconds'' (label @ ''.poll_interval_seconds'') 1 3600) (\<lambda>poll.
           sum_bind (optional_bounded_number raw ''probe_timeout_seconds'' (label @ ''.probe_timeout_seconds'') 2 300) (\<lambda>timeout.
             guard (case timeout of None \<Rightarrow> False | Some t \<Rightarrow> t \<le> of_int connect_timeout)
               (label @ ''.probe_timeout_seconds must be greater than connect_timeout_seconds'')
               (Inr \<lparr>ho_poll_interval_seconds = poll, ho_probe_timeout_seconds = timeout,
                    ho_display_name = name\<rparr>)))))))
     | _ \<Rightarrow> refuse (label @ '' must be a JSON object''))"

definition host_overrides_of ::
  "obj \<Rightarrow> string list \<Rightarrow> string list \<Rightarrow> int \<Rightarrow> (string \<times> host_override) list parsed" where
  "host_overrides_of data hosts excludes connect_timeout =
    sum_bind (section_dict data ''host_overrides'' ''host_overrides must be a JSON object'')
      (parse_each (\<lambda>(alias, v). explicit_alias ''host_overrides'' True hosts excludes alias
        (sum_bind (host_override_entry connect_timeout alias v) (\<lambda>ov. Inr (alias, ov)))))"

definition host_groups_of :: "obj \<Rightarrow> bool \<Rightarrow> string list \<Rightarrow> string list \<Rightarrow> (string \<times> string) list parsed" where
  "host_groups_of data auto_discover hosts excludes =
    sum_bind (section_dict data ''host_groups'' ''host_groups must be a JSON object'')
      (parse_each (\<lambda>(alias, v). explicit_alias ''host_groups'' (\<not> auto_discover) hosts excludes alias
        (case v of
           PStr s \<Rightarrow> guard (\<not> is_valid_host_group True v)
             (''host_groups.'' @ alias @ '' must be at most 48 visible characters'') (Inr (alias, strip s))
         | _ \<Rightarrow> refuse (''host_groups.'' @ alias @ '' must be at most 48 visible characters''))))"

section \<open>Maintenance windows\<close>

text \<open>\<open>_RECURRENCE_START\<close>, as the minutes since midnight.\<close>

definition start_minutes_of :: "pyval \<Rightarrow> int option" where
  "start_minutes_of v =
    (case v of
       PStr [a, b, c, d, e] \<Rightarrow>
         if c = CHR '':'' \<and> list_all is_digit [a, b, d, e] \<and> digits_int [a, b] < 24 \<and> digits_int [d, e] < 60
         then Some (digits_int [a, b] * 60 + digits_int [d, e]) else None
     | _ \<Rightarrow> None)"

definition int_in :: "int \<Rightarrow> int \<Rightarrow> pyval \<Rightarrow> int option" where
  "int_in low high v = (case v of PInt i \<Rightarrow> if low \<le> i \<and> i \<le> high then Some i else None | _ \<Rightarrow> None)"

definition recurrence_window :: "string \<Rightarrow> string \<Rightarrow> pyval \<Rightarrow> maintenance_window parsed" where
  "recurrence_window label reason v =
    (case v of
       PDict recurrence \<Rightarrow>
         (let unknown = unknown_keys recurrence [''weekday'', ''daily'', ''start'', ''duration_minutes''] in
          guard (unknown \<noteq> []) (''unknown '' @ label @ '' keys: '' @ join '', '' unknown)
          (case dget_or (PBool False) recurrence ''daily'' of
             PBool daily \<Rightarrow>
               guard (daily = (''weekday'' \<in> set (keys recurrence)))
                 (label @ '' must define exactly one of 'weekday' or 'daily'' @ [CHR 0x27])
               (let weekday = int_in 0 6 (oget recurrence ''weekday'') in
                guard (\<not> daily \<and> weekday = None) (label @ ''.weekday must be 0 (Monday) to 6 (Sunday)'')
                (case start_minutes_of (oget recurrence ''start'') of
                   None \<Rightarrow> refuse (label @ ''.start must be 'HH:MM' in UTC'')
                 | Some start \<Rightarrow>
                    (let longest = (if daily then 1439 else 10079) in
                     case int_in 1 longest (oget recurrence ''duration_minutes'') of
                       None \<Rightarrow> refuse (label @ ''.duration_minutes must be 1 to '' @ int_str longest
                         @ '' (less than one '' @ (if daily then ''day'' else ''week'') @ '')'')
                     | Some duration \<Rightarrow>
                         Inr \<lparr>mw_reason = reason, mw_until = None,
                              mw_weekday = (if daily then None else weekday), mw_daily = daily,
                              mw_start_minutes = Some start, mw_duration_minutes = Some duration\<rparr>)))
           | _ \<Rightarrow> refuse (label @ ''.daily must be true or false'')))
     | _ \<Rightarrow> refuse (label @ '' must be a JSON object''))"

definition maintenance_window_of :: "string \<Rightarrow> pyval \<Rightarrow> maintenance_window parsed" where
  "maintenance_window_of alias v =
    (let label = ''maintenance_windows.'' @ alias;
         reason_message = label @ ''.reason must be at most 120 visible characters'' in
     case v of
       PDict raw \<Rightarrow>
         (let unknown = unknown_keys raw [''until'', ''reason'', ''recurrence''];
              reason_value = dget_or (PStr []) raw ''reason'' in
          guard (unknown \<noteq> []) (''unknown '' @ label @ '' keys: '' @ join '', '' unknown)
          (case reason_value of
             PStr s \<Rightarrow>
               guard (\<not> is_valid_maintenance_reason False reason_value) reason_message
               (guard ((''until'' \<in> set (keys raw)) = (''recurrence'' \<in> set (keys raw)))
                  (label @ '' must define exactly one of 'until' or 'recurrence'' @ [CHR 0x27])
               (if ''until'' \<in> set (keys raw) then
                  sum_bind (utc_timestamp (oget raw ''until'') (label @ ''.until'')) (\<lambda>until.
                    Inr \<lparr>mw_reason = strip s, mw_until = Some until, mw_weekday = None, mw_daily = False,
                         mw_start_minutes = None, mw_duration_minutes = None\<rparr>)
                else recurrence_window (label @ ''.recurrence'') (strip s) (oget raw ''recurrence'')))
           | _ \<Rightarrow> refuse reason_message))
     | _ \<Rightarrow> refuse (label @ '' must be a JSON object''))"

definition maintenance_windows_of ::
  "obj \<Rightarrow> string list \<Rightarrow> string list \<Rightarrow> (string \<times> maintenance_window) list parsed" where
  "maintenance_windows_of data hosts excludes =
    sum_bind (section_dict data ''maintenance_windows'' ''maintenance_windows must be a JSON object'')
      (parse_each (\<lambda>(alias, v). explicit_alias ''maintenance_windows'' True hosts excludes alias
        (sum_bind (maintenance_window_of alias v) (\<lambda>w. Inr (alias, w)))))"

section \<open>Incident overrides\<close>

definition scope_threshold :: "string \<Rightarrow> string \<times> pyval \<Rightarrow> (string \<times> rat) parsed" where
  "scope_threshold label kv =
    (let name = fst kv; maximum = (if name = ''gpu_temperature_warning_c'' then 150 else 100);
         label' = label @ ''.thresholds.'' @ name in
     case number_field label' 0 maximum (snd kv) of
       Inr x \<Rightarrow> Inr (name, x)
     | Inl _ \<Rightarrow> refuse (between_message label' 0 maximum))"

definition mount_ok :: "string \<Rightarrow> bool" where
  "mount_ok s \<longleftrightarrow> startswith s ''/'' \<and> 0 < length s \<and> length s \<le> 512 \<and> \<not> list_ex is_control s"

definition excluded_mounts :: "obj \<Rightarrow> string list option" where
  "excluded_mounts raw =
    (case dget_or (PList []) raw ''exclude_disk_mounts'' of
       PList items \<Rightarrow>
         if 128 < length items then None
         else (case those (map as_text items) of
                 None \<Rightarrow> None
               | Some mounts \<Rightarrow> if list_all mount_ok mounts then Some mounts else None)
     | _ \<Rightarrow> None)"

definition incident_scope_override :: "string \<Rightarrow> pyval \<Rightarrow> scope_override parsed" where
  "incident_scope_override label v =
    (case v of
       PDict raw \<Rightarrow>
         guard (\<not> set (keys raw) \<subseteq> {''thresholds'', ''exclude_disk_mounts''}) (label @ '' has an invalid schema'')
         (guard (raw = []) (label @ '' must not be empty'')
         (case dget_or (PDict []) raw ''thresholds'' of
            PDict raw_thresholds \<Rightarrow>
              (let unknown = unknown_keys raw_thresholds threshold_keys in
               guard (unknown \<noteq> []) (''unknown '' @ label @ ''.thresholds keys: '' @ join '', '' unknown)
               (sum_bind (parse_each (scope_threshold label) raw_thresholds) (\<lambda>thresholds.
                case excluded_mounts raw of
                  None \<Rightarrow> refuse (label @ ''.exclude_disk_mounts must contain at most 128 absolute paths'')
                | Some mounts \<Rightarrow>
                    guard (thresholds = [] \<and> mounts = [])
                      (label @ '' must configure a threshold or disk exclusion'')
                      (Inr \<lparr>so_thresholds = sort_key fst thresholds, so_exclude_disk_mounts = fromkeys mounts\<rparr>))))
          | _ \<Rightarrow> refuse (label @ ''.thresholds must be a JSON object'')))
     | _ \<Rightarrow> refuse (label @ '' has an invalid schema''))"

definition host_incident_override ::
  "string list \<Rightarrow> string list \<Rightarrow> string \<times> pyval \<Rightarrow> (string \<times> scope_override) parsed" where
  "host_incident_override hosts excludes kv =
    (let alias = fst kv; label = ''incident_overrides.hosts.'' @ alias in
     guard (\<not> is_safe_alias alias) ''incident_overrides.hosts keys must be safe aliases''
     (guard (alias \<notin> set hosts \<or> alias \<in> set excludes) (label @ '' must reference an active host'')
     (sum_bind (incident_scope_override label (snd kv)) (\<lambda>ov. Inr (alias, ov)))))"

definition group_incident_override ::
  "string list \<Rightarrow> string \<times> pyval \<Rightarrow> (string \<times> scope_override) parsed" where
  "group_incident_override configured kv =
    (let name = fst kv; label = ''incident_overrides.groups.'' @ name in
     guard (\<not> is_valid_host_group True (PStr name) \<or> name \<notin> set configured)
       (label @ '' must reference a configured group'')
     (sum_bind (incident_scope_override label (snd kv)) (\<lambda>ov. Inr (strip name, ov))))"

definition override_scope :: "obj \<Rightarrow> string \<Rightarrow> obj parsed" where
  "override_scope raw key =
    (let message = ''incident_overrides.'' @ key @ '' must be a bounded JSON object'' in
     sum_bind (section_dict raw key message) (\<lambda>entries. guard (256 < length entries) message (Inr entries)))"

definition incident_overrides_of ::
  "obj \<Rightarrow> string list \<Rightarrow> string list \<Rightarrow> (string \<times> string) list
    \<Rightarrow> ((string \<times> scope_override) list \<times> (string \<times> scope_override) list) parsed" where
  "incident_overrides_of data hosts excludes host_groups =
    (let message = ''incident_overrides must contain only hosts and groups'' in
     sum_bind (section_dict data ''incident_overrides'' message) (\<lambda>raw.
       guard (\<not> set (keys raw) \<subseteq> {''hosts'', ''groups''}) message
       (sum_bind (override_scope raw ''hosts'') (\<lambda>raw_hosts.
        sum_bind (parse_each (host_incident_override hosts excludes) raw_hosts) (\<lambda>for_hosts.
        sum_bind (override_scope raw ''groups'') (\<lambda>raw_groups.
        sum_bind (parse_each (group_incident_override (map snd host_groups)) raw_groups) (\<lambda>for_groups.
          Inr (for_hosts, for_groups))))))))"

section \<open>Confirmation cycles\<close>

definition incident_number :: "obj \<Rightarrow> string \<Rightarrow> rat \<Rightarrow> int \<Rightarrow> rat parsed" where
  "incident_number raw name preset maximum =
    (let label = ''incidents.'' @ name in
     sum_bind (finite_or (label @ '' must be a number'') (dget_or (PFloat preset) raw name)) (\<lambda>x.
       guard (\<not> (0 \<le> x \<and> x \<le> of_int maximum)) (between_message label 0 maximum) (Inr x)))"

definition incident_cycles_field :: "obj \<Rightarrow> string \<Rightarrow> int \<Rightarrow> int parsed" where
  "incident_cycles_field raw name preset =
    integer_field (''incidents.'' @ name) 1 60 (dget_or (PInt preset) raw name)"

definition incident_cycles_of :: "obj \<Rightarrow> incident_config parsed" where
  "incident_cycles_of data =
    sum_bind (section_dict data ''incidents'' ''incidents must be a JSON object'') (\<lambda>raw.
      let unknown = unknown_keys raw [''resource_open_cycles'', ''recovery_cycles'',
            ''gpu_idle_memory_cycles'', ''resource_open_seconds'', ''gpu_idle_memory_seconds'', ''recovery_margin''];
          d = default_incidents in
      guard (unknown \<noteq> []) (''unknown incident keys: '' @ join '', '' unknown)
      (sum_bind (incident_cycles_field raw ''resource_open_cycles'' (in_resource_open_cycles d)) (\<lambda>opening.
       sum_bind (incident_cycles_field raw ''recovery_cycles'' (in_recovery_cycles d)) (\<lambda>recovery.
       sum_bind (incident_cycles_field raw ''gpu_idle_memory_cycles'' (in_gpu_idle_memory_cycles d)) (\<lambda>idle.
       sum_bind (incident_number raw ''resource_open_seconds'' (in_resource_open_seconds d) 3600) (\<lambda>open_seconds.
       sum_bind (incident_number raw ''gpu_idle_memory_seconds'' (in_gpu_idle_memory_seconds d) 3600) (\<lambda>idle_seconds.
       sum_bind (incident_number raw ''recovery_margin'' (in_recovery_margin d) 50) (\<lambda>margin.
         Inr \<lparr>in_resource_open_cycles = opening, in_recovery_cycles = recovery, in_gpu_idle_memory_cycles = idle,
              in_resource_open_seconds = open_seconds, in_gpu_idle_memory_seconds = idle_seconds,
              in_recovery_margin = margin\<rparr>))))))))"

section \<open>Incident actions\<close>

definition action_keys_ok :: "obj \<Rightarrow> bool" where
  "action_keys_ok raw \<longleftrightarrow>
    (let required = {''host'', ''condition_key'', ''action'', ''until'', ''reason''} in
     set (keys raw) = required \<or> set (keys raw) = insert ''incident_started_at'' required)"

text \<open>One pass of the loop over the actions; \<open>seen\<close> are the pairs of the actions before.\<close>

definition incident_action_of ::
  "string list \<Rightarrow> string list \<Rightarrow> (string \<times> string) list \<Rightarrow> nat \<Rightarrow> pyval \<Rightarrow> incident_action parsed" where
  "incident_action_of hosts excludes seen index item =
    (let label = index_label ''incident_actions'' index;
         host_message = label @ ''.host must be a safe host alias'';
         key_message = label @ ''.condition_key is invalid'';
         reason_message = label @ ''.reason must contain at most 120 visible characters'' in
     case item of
       PDict raw \<Rightarrow>
         guard (\<not> action_keys_ok raw) (label @ '' has an invalid schema'')
         (case oget raw ''host'' of
            PStr host \<Rightarrow>
              guard (\<not> is_safe_alias host) host_message
              (guard (host \<notin> set hosts \<or> host \<in> set excludes) (label @ ''.host must reference an active explicit host'')
              (case oget raw ''condition_key'' of
                 PStr key \<Rightarrow>
                   guard (\<not> is_valid_incident_condition_key (PStr key)) key_message
                   (sum_bind (parse_mode [''acknowledged'', ''silenced'']
                      (label @ ''.action must be acknowledged or silenced'') (oget raw ''action'')) (\<lambda>action.
                    case oget raw ''reason'' of
                      PStr reason \<Rightarrow>
                        guard (\<not> is_valid_incident_action_reason (PStr reason)) reason_message
                        (sum_bind (utc_timestamp (oget raw ''until'') (label @ ''.until'')) (\<lambda>until.
                         let finish = (\<lambda>started. guard ((host, key) \<in> set seen) (label @ '' duplicates an incident action'')
                           (Inr \<lparr>ia_host = host, ia_condition_key = key, ia_action = action, ia_until = until,
                                ia_reason = strip reason, ia_incident_started_at = started\<rparr>)) in
                         case oget raw ''incident_started_at'' of
                           PNone \<Rightarrow> finish None
                         | started \<Rightarrow> sum_bind (utc_timestamp started (label @ ''.incident_started_at'')) (\<lambda>_.
                             finish (as_text started))))
                    | _ \<Rightarrow> refuse reason_message))
               | _ \<Rightarrow> refuse key_message))
          | _ \<Rightarrow> refuse host_message)
     | _ \<Rightarrow> refuse (label @ '' has an invalid schema''))"

fun incident_actions_from ::
  "string list \<Rightarrow> string list \<Rightarrow> nat \<Rightarrow> pyval list \<Rightarrow> incident_action list \<Rightarrow> incident_action list parsed" where
  "incident_actions_from hosts excludes index [] actions = Inr actions"
| "incident_actions_from hosts excludes index (item # items) actions =
    sum_bind (incident_action_of hosts excludes (map (\<lambda>a. (ia_host a, ia_condition_key a)) actions) index item)
      (\<lambda>action. incident_actions_from hosts excludes (Suc index) items (actions @ [action]))"

definition incident_actions_of :: "obj \<Rightarrow> string list \<Rightarrow> string list \<Rightarrow> incident_action list parsed" where
  "incident_actions_of data hosts excludes =
    (let message = ''incident_actions must be a list with at most 512 entries'' in
     case dget_or (PList []) data ''incident_actions'' of
       PList items \<Rightarrow> guard (incident_action_max_entries < length items) message
         (incident_actions_from hosts excludes 0 items [])
     | _ \<Rightarrow> refuse message)"

end
