(* ===== verification/Config_Loader.thy ===== *)
theory Config_Loader
  imports Config_Sections
begin

text \<open>
  From the bytes of a configuration document to \<open>MonitorConfig\<close> (\<open>config_loader.py\<close>): the rejection of
  duplicate keys, the key checks of the root, the scalar settings and the order of the sections.
  Decoding UTF-8 and JSON (\<open>json.loads\<close> with the pairs of each object kept) is an argument, and so
  is the resolution of the path of the SSH configuration.
\<close>

section \<open>Duplicate keys\<close>

text \<open>What \<open>json.loads\<close> returns with \<open>_JsonObjectPairs\<close> as its hook.\<close>

datatype json_node =
    N_Null
  | N_Bool bool
  | N_Int int
  | N_Float rat
  | N_Inf bool
  | N_Nan
  | N_Str string
  | N_List "json_node list"
  | N_Pairs "(string \<times> json_node) list"

definition child_path :: "string \<Rightarrow> string \<Rightarrow> string" where
  "child_path path key = (if path \<noteq> [] then path @ ''.'' @ key else key)"

fun resolve_node :: "string \<Rightarrow> string \<Rightarrow> json_node \<Rightarrow> pyval parsed"
  and resolve_pairs :: "string \<Rightarrow> string \<Rightarrow> (string \<times> json_node) list \<Rightarrow> obj \<Rightarrow> obj parsed"
  and resolve_items :: "string \<Rightarrow> string \<Rightarrow> nat \<Rightarrow> json_node list \<Rightarrow> pyval list parsed" where
  "resolve_node source path (N_Pairs pairs) =
    sum_bind (resolve_pairs source path pairs []) (\<lambda>d. Inr (PDict d))"
| "resolve_node source path (N_List items) =
    sum_bind (resolve_items source path 0 items) (\<lambda>xs. Inr (PList xs))"
| "resolve_node source path N_Null = Inr PNone"
| "resolve_node source path (N_Bool b) = Inr (PBool b)"
| "resolve_node source path (N_Int i) = Inr (PInt i)"
| "resolve_node source path (N_Float x) = Inr (PFloat x)"
| "resolve_node source path (N_Inf b) = Inr (PInf b)"
| "resolve_node source path N_Nan = Inr PNan"
| "resolve_node source path (N_Str s) = Inr (PStr s)"
| "resolve_pairs source path [] result = Inr result"
| "resolve_pairs source path ((key, value) # pairs) result =
    guard (key \<in> set (keys result))
      (''duplicate JSON key in '' @ source @ '': '' @ child_path path key)
      (sum_bind (resolve_node source (child_path path key) value)
        (\<lambda>v. resolve_pairs source path pairs (result @ [(key, v)])))"
| "resolve_items source path index [] = Inr []"
| "resolve_items source path index (item # items) =
    sum_bind (resolve_node source (index_label path index) item)
      (\<lambda>v. sum_bind (resolve_items source path (Suc index) items) (\<lambda>vs. Inr (v # vs)))"

section \<open>The document\<close>

text \<open>What decoding the bytes gives; \<open>Too_Deep\<close> is the \<open>RecursionError\<close> of the decoder or of the walk
  over its result.\<close>

datatype decoded = Bad_Utf8 nat string | Bad_Json string | Bad_Value | Too_Deep | Decoded json_node

definition required_keys :: "string list" where
  "required_keys = [''ssh_config'', ''auto_discover'', ''hosts'', ''exclude_hosts'',
    ''poll_interval_seconds'', ''probe_timeout_seconds'', ''connect_timeout_seconds'', ''max_workers'',
    ''listen_host'', ''listen_port'']"

definition optional_keys :: "string list" where
  "optional_keys = [''authentication'', ''local_host'', ''trusted_web_hosts'', ''history_points'',
    ''incident_history_points'', ''collection_stale_cycles'', ''gpu_process_poll_interval_seconds'',
    ''retry_jitter_pct'', ''manual_probe_cooldown_seconds'', ''max_output_bytes'', ''thresholds'',
    ''expected_gpu_counts'', ''incidents'', ''host_overrides'', ''maintenance_windows'', ''host_groups'',
    ''topology'', ''persistence'', ''workloads'', ''webhooks'', ''incident_actions'',
    ''incident_overrides'', ''ssh_discovery'', ''updates'']"

definition root_keys :: "obj \<Rightarrow> obj parsed" where
  "root_keys data =
    (let missing = sorted_set (filter (\<lambda>k. k \<notin> set (keys data)) required_keys);
         unknown = unknown_keys data (required_keys @ optional_keys)
     in guard (missing \<noteq> []) (''missing config keys: '' @ join '', '' missing)
       (guard (unknown \<noteq> []) (''unknown config keys: '' @ join '', '' unknown) (Inr data)))"

definition document :: "string \<Rightarrow> decoded \<Rightarrow> obj parsed" where
  "document source d =
    (case d of
       Bad_Utf8 start reason \<Rightarrow> refuse (''config file '' @ source @ '' is not valid UTF-8 at byte ''
         @ int_str (int start) @ '': '' @ reason)
     | Bad_Json message \<Rightarrow> refuse (''invalid JSON in '' @ source @ '': '' @ message)
     | Bad_Value \<Rightarrow> refuse (''invalid JSON value in '' @ source)
     | Too_Deep \<Rightarrow> refuse (''JSON nesting is too deep in '' @ source)
     | Decoded node \<Rightarrow>
         sum_bind (resolve_node source [] node) (\<lambda>v.
           case v of PDict data \<Rightarrow> root_keys data | _ \<Rightarrow> refuse ''config root must be a JSON object''))"

section \<open>Scalars and policies\<close>

definition policies :: "obj \<Rightarrow> (ssh_discovery_config \<times> updates_config) parsed" where
  "policies data =
    guard (case oget data ''ssh_config'' of PStr s \<Rightarrow> strip s = [] | _ \<Rightarrow> True)
      ''ssh_config must be a non-empty path''
    (guard (case oget data ''auto_discover'' of PBool _ \<Rightarrow> False | _ \<Rightarrow> True)
      ''auto_discover must be true or false''
    (sum_bind (parse_ssh_discovery_config (dget_or (PDict []) data ''ssh_discovery'')) (\<lambda>ssh_discovery.
     sum_bind (parse_updates_config (dget_or (PDict []) data ''updates'')) (\<lambda>updates.
       guard (case oget data ''listen_host'' of
                PStr s \<Rightarrow> normalize_web_hostname False (PStr s) = None | _ \<Rightarrow> True)
         ''listen_host must be a valid hostname or IP literal''
         (Inr (ssh_discovery, updates))))))"

definition text_at :: "obj \<Rightarrow> string \<Rightarrow> string" where
  "text_at data key = (case oget data key of PStr s \<Rightarrow> s | _ \<Rightarrow> [])"

definition flag_at :: "obj \<Rightarrow> string \<Rightarrow> bool" where
  "flag_at data key = (case oget data key of PBool b \<Rightarrow> b | _ \<Rightarrow> False)"

definition authentication_of :: "obj \<Rightarrow> string parsed" where
  "authentication_of data =
    (let message = ''authentication must be \"bearer\" or \"none\"'' in
     case dget_or (PStr ''bearer'') data ''authentication'' of
       PStr s \<Rightarrow> guard (s \<notin> {''bearer'', ''none''}) message (Inr s)
     | _ \<Rightarrow> refuse message)"

definition stale_cycles_of :: "obj \<Rightarrow> int parsed" where
  "stale_cycles_of data =
    integer_between 2 12 ''collection_stale_cycles must be between 2 and 12''
      (dget_or (PInt 3) data ''collection_stale_cycles'')"

text \<open>The characters of the categories \<open>Cc\<close> and \<open>Cs\<close>: unlike \<open>is_control\<close>, the soft hyphen is
  allowed.\<close>

definition control_only :: "char \<Rightarrow> bool" where
  "control_only c \<longleftrightarrow> is_control c \<and> (of_char c :: nat) \<noteq> 173"

definition ssh_config_path :: "(string \<Rightarrow> string option) \<Rightarrow> string \<Rightarrow> string parsed" where
  "ssh_config_path place raw =
    guard (list_ex control_only raw) ''ssh_config must not contain control or surrogate characters''
      (case place raw of
         None \<Rightarrow> refuse ''ssh_config is not a valid filesystem path''
       | Some path \<Rightarrow> Inr path)"

definition topology_of :: "obj \<Rightarrow> topology option parsed" where
  "topology_of data =
    (case dget data ''topology'' of
       None \<Rightarrow> Inr None
     | Some raw \<Rightarrow> sum_bind (connection_topology raw) (\<lambda>t. Inr (Some t)))"

section \<open>The whole configuration\<close>

text \<open>The settings in the order the loader checks them; the timeouts are compared only once every
  delegated section has been accepted.\<close>

definition sections_of :: "(string \<Rightarrow> string option) \<Rightarrow> obj \<Rightarrow> monitor_config parsed" where
  "sections_of place data =
    sum_bind (policies data) (\<lambda>(ssh_discovery, updates).
    sum_bind (host_lists data) (\<lambda>(hosts, excludes).
    sum_bind (local_host_of data hosts excludes) (\<lambda>local_host.
    sum_bind (topology_of data) (\<lambda>topology.
    sum_bind (bounded_number data ''poll_interval_seconds'' 1 3600) (\<lambda>poll_interval.
    sum_bind (optional_setting data ''gpu_process_poll_interval_seconds'' 15 2 3600) (\<lambda>gpu_poll_interval.
    sum_bind (bounded_number data ''probe_timeout_seconds'' 2 300) (\<lambda>probe_timeout.
    sum_bind (bounded_integer data ''connect_timeout_seconds'' 1 120) (\<lambda>connect_timeout.
    sum_bind (bounded_optional_int data ''max_output_bytes'' 2097152 65536 16777216) (\<lambda>max_output_bytes.
    sum_bind (bounded_integer data ''max_workers'' 1 64) (\<lambda>max_workers.
    sum_bind (bounded_integer data ''listen_port'' 1 65535) (\<lambda>listen_port.
    sum_bind (trusted_web_hosts data) (\<lambda>trusted_hosts.
    sum_bind (authentication_of data) (\<lambda>authentication.
    sum_bind (bounded_optional_int data ''history_points'' 720 12 8640) (\<lambda>history_points.
    sum_bind (bounded_optional_int data ''incident_history_points'' 500 20 5000) (\<lambda>incident_history_points.
    sum_bind (stale_cycles_of data) (\<lambda>stale_cycles.
    sum_bind (optional_setting data ''retry_jitter_pct'' 15 0 50) (\<lambda>retry_jitter.
    sum_bind (optional_setting data ''manual_probe_cooldown_seconds'' 5 1 300) (\<lambda>cooldown.
    sum_bind (persistence_config_of data) (\<lambda>persistence.
    sum_bind (workload_config_of data) (\<lambda>workloads.
    sum_bind (webhook_configs data) (\<lambda>webhooks.
    guard (probe_timeout \<le> of_int connect_timeout)
      ''probe_timeout_seconds must be greater than connect_timeout_seconds''
    (sum_bind (thresholds_of data) (\<lambda>thresholds.
    sum_bind (expected_gpu_counts data hosts excludes) (\<lambda>expected.
    sum_bind (host_overrides_of data hosts excludes connect_timeout) (\<lambda>overrides.
    sum_bind (maintenance_windows_of data hosts excludes) (\<lambda>windows.
    sum_bind (host_groups_of data (flag_at data ''auto_discover'') hosts excludes) (\<lambda>groups.
    sum_bind (incident_overrides_of data hosts excludes groups) (\<lambda>(host_incidents, group_incidents).
    sum_bind (incident_cycles_of data) (\<lambda>incidents.
    sum_bind (incident_actions_of data hosts excludes) (\<lambda>actions.
    sum_bind (ssh_config_path place (text_at data ''ssh_config'')) (\<lambda>ssh_config.
      Inr \<lparr>mc_ssh_config = ssh_config, mc_auto_discover = flag_at data ''auto_discover'', mc_hosts = hosts,
        mc_exclude_hosts = excludes, mc_poll_interval_seconds = poll_interval,
        mc_probe_timeout_seconds = probe_timeout, mc_connect_timeout_seconds = connect_timeout,
        mc_max_workers = nat max_workers, mc_listen_host = strip (text_at data ''listen_host''),
        mc_listen_port = listen_port, mc_authentication = authentication, mc_ssh_discovery = ssh_discovery,
        mc_updates = updates, mc_trusted_web_hosts = trusted_hosts,
        mc_gpu_process_poll_interval_seconds = gpu_poll_interval, mc_retry_jitter_pct = retry_jitter,
        mc_manual_probe_cooldown_seconds = cooldown, mc_local_host = local_host,
        mc_max_output_bytes = max_output_bytes, mc_history_points = nat history_points,
        mc_incident_history_points = nat incident_history_points, mc_collection_stale_cycles = nat stale_cycles,
        mc_thresholds = thresholds, mc_expected_gpu_counts = expected, mc_incidents = incidents,
        mc_incident_actions = actions, mc_host_incident_overrides = host_incidents,
        mc_group_incident_overrides = group_incidents, mc_host_overrides = overrides,
        mc_maintenance_windows = windows, mc_host_groups = groups, mc_topology = topology,
        mc_persistence = persistence, mc_workloads = workloads, mc_webhooks = webhooks\<rparr>)))))))))))))))))))))))))))))))"

definition parse_config_bytes :: "(string \<Rightarrow> string option) \<Rightarrow> string \<Rightarrow> decoded \<Rightarrow> monitor_config parsed" where
  "parse_config_bytes place source d = sum_bind (document source d) (sections_of place)"

end
