(* ===== verification/Config_Loaded.thy ===== *)
theory Config_Loaded
  imports Config_Loader
begin

text \<open>
  What a loaded configuration guarantees: the rejection of duplicate keys keeps every key once, and
  \<open>config_ok\<close> collects what the rest of the service relies on.
\<close>

section \<open>Duplicate keys\<close>

fun unique_keys :: "json_node \<Rightarrow> bool"
  and unique_pairs :: "(string \<times> json_node) list \<Rightarrow> bool"
  and unique_items :: "json_node list \<Rightarrow> bool" where
  "unique_keys (N_Pairs pairs) = unique_pairs pairs"
| "unique_keys (N_List items) = unique_items items"
| "unique_keys _ = True"
| "unique_pairs [] = True"
| "unique_pairs ((k, n) # pairs) = (k \<notin> set (map fst pairs) \<and> unique_keys n \<and> unique_pairs pairs)"
| "unique_items [] = True"
| "unique_items (n # items) = (unique_keys n \<and> unique_items items)"

text \<open>The value with the same keys, in the same order.\<close>

fun plain_value :: "json_node \<Rightarrow> pyval"
  and plain_pairs :: "(string \<times> json_node) list \<Rightarrow> obj"
  and plain_items :: "json_node list \<Rightarrow> pyval list" where
  "plain_value (N_Pairs pairs) = PDict (plain_pairs pairs)"
| "plain_value (N_List items) = PList (plain_items items)"
| "plain_value N_Null = PNone"
| "plain_value (N_Bool b) = PBool b"
| "plain_value (N_Int i) = PInt i"
| "plain_value (N_Float x) = PFloat x"
| "plain_value (N_Inf b) = PInf b"
| "plain_value N_Nan = PNan"
| "plain_value (N_Str s) = PStr s"
| "plain_pairs [] = []"
| "plain_pairs ((k, n) # pairs) = (k, plain_value n) # plain_pairs pairs"
| "plain_items [] = []"
| "plain_items (n # items) = plain_value n # plain_items items"

lemma keys_plain_pairs [simp]: "map fst (plain_pairs ps) = map fst ps"
  by (induction ps) auto

lemma resolve_complete:
  "resolve_node source path n = Inr v \<longleftrightarrow> unique_keys n \<and> v = plain_value n"
  "resolve_pairs source path ps acc = Inr d \<longleftrightarrow>
    unique_pairs ps \<and> set (map fst ps) \<inter> set (keys acc) = {} \<and> d = acc @ plain_pairs ps"
  "resolve_items source path i items = Inr vs \<longleftrightarrow> unique_items items \<and> vs = plain_items items"
proof (induction source path n and source path ps acc and source path i items arbitrary: v and d and vs
    rule: resolve_node_resolve_pairs_resolve_items.induct)
  case (11 source path key node pairs result)
  show ?case
  proof (cases "key \<in> set (keys result) \<or> \<not> unique_keys node")
    case True
    then have "\<not> (key \<notin> set (keys result) \<and> resolve_node source (child_path path key) node = Inr w)" for w
      using 11 by auto
    then show ?thesis using True by (auto simp: sum_bind_Inr)
  next
    case False
    then have "resolve_node source (child_path path key) node = Inr (plain_value node)"
      using 11(1) by auto
    then show ?thesis using False 11(2) by auto
  qed
qed (auto simp: sum_bind_Inr)

text \<open>Values whose dictionaries have each key once.\<close>

fun unique_value :: "pyval \<Rightarrow> bool" where
  "unique_value (PDict d) = (distinct (keys d) \<and> (\<forall>kv \<in> set d. unique_value (snd kv)))"
| "unique_value (PList xs) = (\<forall>x \<in> set xs. unique_value x)"
| "unique_value _ = True"

lemma plain_unique:
  "unique_keys n \<Longrightarrow> unique_value (plain_value n)"
  "unique_pairs ps \<Longrightarrow> distinct (map fst ps) \<and> (\<forall>kv \<in> set (plain_pairs ps). unique_value (snd kv))"
  "unique_items items \<Longrightarrow> \<forall>x \<in> set (plain_items items). unique_value x"
  by (induction n and ps and items rule: unique_keys_unique_pairs_unique_items.induct) auto

lemma document_unique:
  assumes "document source d = Inr data"
  shows "unique_value (PDict data)"
    and "\<forall>k \<in> set required_keys. k \<in> set (keys data)"
    and "set (keys data) \<subseteq> set (required_keys @ optional_keys)"
proof -
  obtain n where n: "d = Decoded n" "resolve_node source [] n = Inr (PDict data)" "root_keys data = Inr data"
  proof (cases d)
    case (Decoded n)
    then obtain v where v: "resolve_node source [] n = Inr v"
      "(case v of PDict data \<Rightarrow> root_keys data | _ \<Rightarrow> refuse ''config root must be a JSON object'') = Inr data"
      using assms by (auto simp: document_def sum_bind_Inr)
    moreover from v(2) obtain data' where "v = PDict data'" by (cases v) simp_all
    moreover from this v(2) have "data' = data" by (simp add: root_keys_def Let_def)
    ultimately show ?thesis using that Decoded by simp
  qed (use assms in \<open>simp_all add: document_def\<close>)
  show "unique_value (PDict data)" using plain_unique(1) [of n] n(2) unfolding resolve_complete(1) by simp
  have none: "x = []" if "sorted_set x = []" for x :: "string list"
    using that by (metis set_empty2 set_sorted_set)
  have "filter (\<lambda>k. k \<notin> set (keys data)) required_keys = []"
    "filter (\<lambda>k. k \<notin> set (required_keys @ optional_keys)) (keys data) = []"
    using n(3) none unfolding root_keys_def unknown_keys_def Let_def guard_Inr not_not by blast+
  then show "\<forall>k \<in> set required_keys. k \<in> set (keys data)"
    "set (keys data) \<subseteq> set (required_keys @ optional_keys)"
    unfolding filter_empty_conv by blast+
qed

section \<open>What is guaranteed\<close>

definition settings_ok :: "monitor_config \<Rightarrow> bool" where
  "settings_ok c \<longleftrightarrow>
    1 \<le> mc_poll_interval_seconds c \<and> mc_poll_interval_seconds c \<le> 3600
    \<and> 2 \<le> mc_gpu_process_poll_interval_seconds c \<and> mc_gpu_process_poll_interval_seconds c \<le> 3600
    \<and> 2 \<le> mc_probe_timeout_seconds c \<and> mc_probe_timeout_seconds c \<le> 300
    \<and> 1 \<le> mc_connect_timeout_seconds c \<and> mc_connect_timeout_seconds c \<le> 120
    \<and> of_int (mc_connect_timeout_seconds c) < mc_probe_timeout_seconds c
    \<and> 65536 \<le> mc_max_output_bytes c \<and> mc_max_output_bytes c \<le> 16777216
    \<and> 1 \<le> mc_max_workers c \<and> mc_max_workers c \<le> 64
    \<and> 1 \<le> mc_listen_port c \<and> mc_listen_port c \<le> 65535
    \<and> mc_authentication c \<in> {''bearer'', ''none''}
    \<and> 12 \<le> mc_history_points c \<and> mc_history_points c \<le> 8640
    \<and> 20 \<le> mc_incident_history_points c \<and> mc_incident_history_points c \<le> 5000
    \<and> 2 \<le> mc_collection_stale_cycles c \<and> mc_collection_stale_cycles c \<le> 12
    \<and> 0 \<le> mc_retry_jitter_pct c \<and> mc_retry_jitter_pct c \<le> 50
    \<and> 1 \<le> mc_manual_probe_cooldown_seconds c \<and> mc_manual_probe_cooldown_seconds c \<le> 300"

definition active_host :: "monitor_config \<Rightarrow> string \<Rightarrow> bool" where
  "active_host c a \<longleftrightarrow> is_safe_alias a \<and> a \<in> set (mc_hosts c) \<and> a \<notin> set (mc_exclude_hosts c)"

definition hosts_ok :: "monitor_config \<Rightarrow> bool" where
  "hosts_ok c \<longleftrightarrow>
    distinct (mc_hosts c) \<and> distinct (mc_exclude_hosts c)
    \<and> length (mc_hosts c) \<le> 1024 \<and> length (mc_exclude_hosts c) \<le> 1024
    \<and> (\<forall>a \<in> set (mc_hosts c) \<union> set (mc_exclude_hosts c). is_safe_alias a)
    \<and> (\<forall>a. mc_local_host c = Some a \<longrightarrow> active_host c a)"

definition override_ok :: "int \<Rightarrow> host_override \<Rightarrow> bool" where
  "override_ok connect_timeout ov \<longleftrightarrow>
    (\<forall>x. ho_poll_interval_seconds ov = Some x \<longrightarrow> 1 \<le> x \<and> x \<le> 3600)
    \<and> (\<forall>x. ho_probe_timeout_seconds ov = Some x \<longrightarrow> of_int connect_timeout < x \<and> 2 \<le> x \<and> x \<le> 300)
    \<and> (\<forall>s. ho_display_name ov = Some s \<longrightarrow> s \<noteq> [] \<and> length s \<le> 64 \<and> strip s = s \<and> \<not> list_ex is_control s)"

text \<open>A text of the document as it is kept: stripped, bounded and without control characters.\<close>

definition kept_text :: "nat \<Rightarrow> string \<Rightarrow> bool" where
  "kept_text longest s \<longleftrightarrow> length s \<le> longest \<and> strip s = s \<and> \<not> list_ex is_control s"

lemma kept_text_strip: "length (strip s) \<le> n \<Longrightarrow> \<not> list_ex is_control s \<Longrightarrow> kept_text n (strip s)"
  using set_strip [of s] by (auto simp: kept_text_def list_ex_iff)

definition host_group_ok :: "string \<Rightarrow> bool" where
  "host_group_ok g \<longleftrightarrow> g \<noteq> [] \<and> length g \<le> 48 \<and> strip g = g \<and> \<not> list_ex is_control g"

definition per_host_ok :: "monitor_config \<Rightarrow> bool" where
  "per_host_ok c \<longleftrightarrow>
    distinct (map fst (mc_expected_gpu_counts c))
    \<and> (\<forall>(a, n) \<in> set (mc_expected_gpu_counts c). active_host c a \<and> 0 \<le> n \<and> n \<le> 256)
    \<and> distinct (map fst (mc_host_overrides c))
    \<and> (\<forall>(a, ov) \<in> set (mc_host_overrides c). active_host c a \<and> override_ok (mc_connect_timeout_seconds c) ov)
    \<and> distinct (map fst (mc_maintenance_windows c))
    \<and> (\<forall>(a, w) \<in> set (mc_maintenance_windows c). active_host c a \<and> window_ok w
        \<and> kept_text 120 (mw_reason w))
    \<and> distinct (map fst (mc_host_groups c))
    \<and> (\<forall>(a, g) \<in> set (mc_host_groups c). is_safe_alias a \<and> a \<notin> set (mc_exclude_hosts c)
        \<and> (mc_auto_discover c \<or> a \<in> set (mc_hosts c)) \<and> host_group_ok g)"

definition threshold_maximum :: "string \<Rightarrow> rat" where
  "threshold_maximum name =
    (if name = ''disk_min_free_gib'' then 1048576 else if name = ''gpu_temperature_warning_c'' then 150 else 100)"

definition thresholds_ok :: "threshold_config \<Rightarrow> bool" where
  "thresholds_ok t \<longleftrightarrow> list_all (\<lambda>(n, x). 0 \<le> x \<and> x \<le> threshold_maximum n) (thresholds_to_dict t)"

definition cycles_ok :: "incident_config \<Rightarrow> bool" where
  "cycles_ok i \<longleftrightarrow>
    1 \<le> in_resource_open_cycles i \<and> in_resource_open_cycles i \<le> 60
    \<and> 1 \<le> in_recovery_cycles i \<and> in_recovery_cycles i \<le> 60
    \<and> 1 \<le> in_gpu_idle_memory_cycles i \<and> in_gpu_idle_memory_cycles i \<le> 60
    \<and> 0 \<le> in_resource_open_seconds i \<and> in_resource_open_seconds i \<le> 3600
    \<and> 0 \<le> in_gpu_idle_memory_seconds i \<and> in_gpu_idle_memory_seconds i \<le> 3600
    \<and> 0 \<le> in_recovery_margin i \<and> in_recovery_margin i \<le> 50"

definition action_in :: "string list \<Rightarrow> string list \<Rightarrow> incident_action \<Rightarrow> bool" where
  "action_in hosts excludes a \<longleftrightarrow> is_safe_alias (ia_host a) \<and> ia_host a \<in> set hosts \<and> ia_host a \<notin> set excludes
    \<and> ia_action a \<in> {''acknowledged'', ''silenced''} \<and> ia_condition_key a \<noteq> []
    \<and> length (ia_condition_key a) \<le> 512 \<and> length (ia_reason a) \<le> 120 \<and> strip (ia_reason a) = ia_reason a"

definition action_texts_ok :: "incident_action \<Rightarrow> bool" where
  "action_texts_ok a \<longleftrightarrow> \<not> list_ex is_control (ia_condition_key a) \<and> kept_text 120 (ia_reason a)
    \<and> (\<forall>s. ia_incident_started_at a = Some s \<longrightarrow> timestamp_shape s \<and> strptime_utc s \<noteq> None)"

definition action_ok :: "monitor_config \<Rightarrow> incident_action \<Rightarrow> bool" where
  "action_ok c a \<longleftrightarrow> action_in (mc_hosts c) (mc_exclude_hosts c) a \<and> action_texts_ok a"

definition scope_ok :: "scope_override \<Rightarrow> bool" where
  "scope_ok ov \<longleftrightarrow>
    distinct (map fst (so_thresholds ov)) \<and> sorted (map fst (so_thresholds ov))
    \<and> (\<forall>(n, x) \<in> set (so_thresholds ov). n \<in> set threshold_keys \<and> 0 \<le> x \<and> x \<le> threshold_maximum n)
    \<and> length (so_exclude_disk_mounts ov) \<le> 128
    \<and> distinct (so_exclude_disk_mounts ov) \<and> list_all mount_ok (so_exclude_disk_mounts ov)
    \<and> (so_thresholds ov \<noteq> [] \<or> so_exclude_disk_mounts ov \<noteq> [])"

definition incidents_ok :: "monitor_config \<Rightarrow> bool" where
  "incidents_ok c \<longleftrightarrow>
    thresholds_ok (mc_thresholds c) \<and> cycles_ok (mc_incidents c)
    \<and> length (mc_incident_actions c) \<le> 512 \<and> list_all (action_ok c) (mc_incident_actions c)
    \<and> distinct (map (\<lambda>a. (ia_host a, ia_condition_key a)) (mc_incident_actions c))
    \<and> length (mc_host_incident_overrides c) \<le> 256 \<and> length (mc_group_incident_overrides c) \<le> 256
    \<and> distinct (map fst (mc_host_incident_overrides c))
    \<and> (\<forall>(a, ov) \<in> set (mc_host_incident_overrides c). active_host c a \<and> scope_ok ov)
    \<and> distinct (map fst (mc_group_incident_overrides c))
    \<and> (\<forall>(g, ov) \<in> set (mc_group_incident_overrides c). g \<in> snd ` set (mc_host_groups c) \<and> scope_ok ov)"

definition discovery_ok :: "ssh_discovery_config \<Rightarrow> bool" where
  "discovery_ok d \<longleftrightarrow> sh_mode d \<in> {''aliases'', ''topology''} \<and> 30 \<le> sh_refresh_seconds d
    \<and> sh_refresh_seconds d \<le> 3600 \<and> 1 \<le> sh_resolve_timeout_seconds d \<and> sh_resolve_timeout_seconds d \<le> 30"

definition updates_ok :: "updates_config \<Rightarrow> bool" where
  "updates_ok u \<longleftrightarrow> up_mode u \<in> {''off'', ''check'', ''self-update''}
    \<and> 3600 \<le> up_check_interval_seconds u \<and> up_check_interval_seconds u \<le> 86400"

definition integrations_ok :: "monitor_config \<Rightarrow> bool" where
  "integrations_ok c \<longleftrightarrow>
    discovery_ok (mc_ssh_discovery c) \<and> updates_ok (mc_updates c)
    \<and> (\<forall>t. mc_topology c = Some t \<longrightarrow> topology_wf t)
    \<and> 1 \<le> pc_retention_hours (mc_persistence c) \<and> pc_retention_hours (mc_persistence c) \<le> 8760
    \<and> 8388608 \<le> pc_max_bytes (mc_persistence c) \<and> pc_max_bytes (mc_persistence c) \<le> 1073741824
    \<and> mc_workloads c \<in> {''disabled'', ''identity'', ''auto''}
    \<and> length (mc_webhooks c) \<le> 16 \<and> distinct (map wh_name (mc_webhooks c)) \<and> list_all webhook_wf (mc_webhooks c)
    \<and> normalize_web_hostname False (PStr (mc_listen_host c)) \<noteq> None
    \<and> length (mc_trusted_web_hosts c) \<le> 32 \<and> distinct (mc_trusted_web_hosts c)
    \<and> list_all trusted_host_ok (mc_trusted_web_hosts c)"

definition config_ok :: "monitor_config \<Rightarrow> bool" where
  "config_ok c \<longleftrightarrow> settings_ok c \<and> hosts_ok c \<and> per_host_ok c \<and> incidents_ok c \<and> integrations_ok c"

section \<open>Section by section\<close>

lemma section_dict_Inr [simp]: "section_dict data key m = Inr raw \<longleftrightarrow> dget_or (PDict []) data key = PDict raw"
  by (auto simp: section_dict_def split: pyval.splits)

lemma section_keys:
  assumes "unique_value (PDict data)" "dget_or (PDict []) data key = PDict raw"
  shows "unique_value (PDict raw)"
proof (cases "dget data key")
  case (Some v)
  then have "(key, v) \<in> set data" by (rule dget_mem)
  then have "unique_value v" using assms(1) by auto
  then show ?thesis using assms(2) Some by (simp add: dget_or_def)
qed (use assms(2) in \<open>simp add: dget_or_def\<close>)

lemma explicit_alias_Inr [simp]:
  "explicit_alias section req hosts excludes alias rest = Inr y \<longleftrightarrow>
    is_safe_alias alias \<and> (req \<longrightarrow> alias \<in> set hosts) \<and> alias \<notin> set excludes \<and> rest = Inr y"
  by (auto simp: explicit_alias_def)

text \<open>Every loop over a section keeps the keys and parses each entry.\<close>

lemma parse_each_entries:
  assumes "parse_each f raw = Inr xs" "distinct (keys raw)"
    and "\<And>kv y. f kv = Inr y \<Longrightarrow> fst y = fst kv \<and> P y"
  shows "distinct (map fst xs) \<and> (\<forall>y \<in> set xs. P y)"
proof -
  have "map fst xs = map fst raw" using assms(3) by (intro parse_each_map [OF assms(1)]) blast
  moreover have "\<forall>y \<in> set xs. P y" using parse_each_set [OF assms(1)] assms(3) by blast
  ultimately show ?thesis using assms(2) by simp
qed

lemma host_lists_ok:
  assumes "host_lists data = Inr (hosts, excludes)"
  shows "distinct hosts \<and> distinct excludes \<and> length hosts \<le> 1024 \<and> length excludes \<le> 1024
    \<and> (\<forall>a \<in> set hosts \<union> set excludes. is_safe_alias a)"
proof -
  have parts: "string_list data ''hosts'' = Inr hosts" "string_list data ''exclude_hosts'' = Inr excludes"
    "length hosts \<le> 1024" "length excludes \<le> 1024"
    and none: "sort (filter (\<lambda>a. \<not> is_safe_alias a) (hosts @ excludes)) = []"
    using assms by (auto simp: host_lists_def sum_bind_Inr Let_def config_max_host_aliases_def simp del: filter_append)
  from none have "set (filter (\<lambda>a. \<not> is_safe_alias a) (hosts @ excludes)) = {}" by (metis set_empty2 set_sort)
  then show ?thesis using parts string_list_facts by auto
qed

lemma local_host_ok:
  "local_host_of data hosts excludes = Inr (Some a) \<Longrightarrow> is_safe_alias a \<and> a \<in> set hosts \<and> a \<notin> set excludes"
  by (auto simp: local_host_of_def Let_def split: pyval.splits)

lemma expected_counts_ok:
  assumes "expected_gpu_counts data hosts excludes = Inr xs" "unique_value (PDict data)"
  shows "distinct (map fst xs)
    \<and> (\<forall>y \<in> set xs. is_safe_alias (fst y) \<and> fst y \<in> set hosts \<and> fst y \<notin> set excludes \<and> 0 \<le> snd y \<and> snd y \<le> 256)"
proof -
  obtain raw where raw: "dget_or (PDict []) data ''expected_gpu_counts'' = PDict raw"
    "parse_each (\<lambda>(alias, v). explicit_alias ''expected_gpu_counts'' True hosts excludes alias
        (sum_bind (integer_field (''expected_gpu_counts.'' @ alias) 0 256 v) (\<lambda>i. Inr (alias, i)))) raw = Inr xs"
    using assms(1) by (auto simp: expected_gpu_counts_def sum_bind_Inr)
  show ?thesis
    using section_keys [OF assms(2) raw(1)]
    by (intro parse_each_entries [OF raw(2)]) (auto simp: sum_bind_Inr dest: integer_field_range)
qed

lemma display_name_ok:
  "display_name_of alias raw = Inr (Some s) \<Longrightarrow> s \<noteq> [] \<and> length s \<le> 64 \<and> strip s = s \<and> \<not> list_ex is_control s"
  using set_strip
  by (auto simp: display_name_of_def Let_def display_name_max_length_def has_disallowed_text_characters_def
      list_ex_iff split: option.splits pyval.splits)

lemma host_override_ok:
  assumes "host_override_entry connect_timeout alias v = Inr ov"
  shows "override_ok connect_timeout ov"
proof -
  obtain raw where v: "v = PDict raw" using assms by (cases v) (simp_all add: host_override_entry_def Let_def)
  obtain name poll timeout where parts: "display_name_of alias raw = Inr name"
    "optional_bounded_number raw ''poll_interval_seconds'' (''host_overrides.'' @ alias @ ''.poll_interval_seconds'') 1 3600 = Inr poll"
    "optional_bounded_number raw ''probe_timeout_seconds'' (''host_overrides.'' @ alias @ ''.probe_timeout_seconds'') 2 300 = Inr timeout"
    "\<not> (case timeout of None \<Rightarrow> False | Some t \<Rightarrow> t \<le> of_int connect_timeout)"
    "ov = \<lparr>ho_poll_interval_seconds = poll, ho_probe_timeout_seconds = timeout, ho_display_name = name\<rparr>"
    using assms unfolding host_override_entry_def Let_def v pyval.case guard_Inr sum_bind_Inr append_assoc sum.inject
    by blast
  show ?thesis
    using parts(1-4) optional_number_range [of raw "''poll_interval_seconds''"]
      optional_number_range [of raw "''probe_timeout_seconds''"] display_name_ok [of "alias" raw]
    unfolding override_ok_def parts(5) by fastforce
qed

lemma host_overrides_ok:
  assumes "host_overrides_of data hosts excludes connect_timeout = Inr xs" "unique_value (PDict data)"
  shows "distinct (map fst xs) \<and> (\<forall>y \<in> set xs. is_safe_alias (fst y) \<and> fst y \<in> set hosts
    \<and> fst y \<notin> set excludes \<and> override_ok connect_timeout (snd y))"
proof -
  obtain raw where raw: "dget_or (PDict []) data ''host_overrides'' = PDict raw"
    "parse_each (\<lambda>(alias, v). explicit_alias ''host_overrides'' True hosts excludes alias
        (sum_bind (host_override_entry connect_timeout alias v) (\<lambda>ov. Inr (alias, ov)))) raw = Inr xs"
    using assms(1) by (auto simp: host_overrides_of_def sum_bind_Inr)
  show ?thesis
    using section_keys [OF assms(2) raw(1)]
    by (intro parse_each_entries [OF raw(2)]) (auto simp: sum_bind_Inr dest: host_override_ok)
qed

lemma host_groups_ok:
  assumes "host_groups_of data auto hosts excludes = Inr xs" "unique_value (PDict data)"
  shows "distinct (map fst xs) \<and> (\<forall>y \<in> set xs. is_safe_alias (fst y) \<and> fst y \<notin> set excludes
    \<and> (auto \<or> fst y \<in> set hosts) \<and> host_group_ok (snd y))"
proof -
  define f where "f = (\<lambda>(alias, v). explicit_alias ''host_groups'' (\<not> auto) hosts excludes alias
        (case v of
           PStr s \<Rightarrow> guard (\<not> is_valid_host_group True v)
             (''host_groups.'' @ alias @ '' must be at most 48 visible characters'') (Inr (alias, strip s))
         | _ \<Rightarrow> refuse (''host_groups.'' @ alias @ '' must be at most 48 visible characters'')))"
  obtain raw where raw: "dget_or (PDict []) data ''host_groups'' = PDict raw" "parse_each f raw = Inr xs"
    using assms(1) unfolding f_def by (auto simp: host_groups_of_def sum_bind_Inr)
  have entry: "fst y = fst kv \<and> is_safe_alias (fst y) \<and> fst y \<notin> set excludes
    \<and> (auto \<or> fst y \<in> set hosts) \<and> host_group_ok (snd y)" if "f kv = Inr y" for kv y
  proof -
    obtain a v where kv: "kv = (a, v)" by (cases kv)
    from that kv obtain s where s: "v = PStr s" by (cases v) (auto simp: f_def)
    then have valid: "is_valid_host_group True (PStr s)" and y: "y = (a, strip s)"
      and a: "is_safe_alias a" "a \<notin> set excludes" "auto \<or> a \<in> set hosts"
      using that by (auto simp: f_def kv)
    have "host_group_ok (strip s)"
      using valid set_strip [of s]
      by (auto simp: host_group_ok_def is_valid_host_group_def host_group_max_length_def list_ex_iff)
    then show ?thesis using a by (simp add: y kv)
  qed
  have "distinct (keys raw)" using section_keys [OF assms(2) raw(1)] by simp
  then show ?thesis by (rule parse_each_entries [OF raw(2)]) (rule entry)
qed

lemma digits_two: "list_all is_digit [a, b] \<Longrightarrow> 0 \<le> digits_int [a, b]"
  by (auto simp: digits_int_def is_digit_def digit_of_def Let_def split: if_splits)

lemma start_minutes_range: "start_minutes_of v = Some m \<Longrightarrow> 0 \<le> m \<and> m < 1440"
  using digits_two
  by (auto simp: start_minutes_of_def split: pyval.splits list.splits if_splits)

lemma int_in_Some: "int_in low high v = Some i \<Longrightarrow> low \<le> i \<and> i \<le> high"
  by (auto simp: int_in_def split: pyval.splits if_splits)

lemma recurrence_ok:
  assumes "recurrence_window label reason v = Inr w"
  shows "window_ok w \<and> mw_reason w = reason"
proof -
  obtain rec where v: "v = PDict rec" using assms by (cases v) (simp_all add: recurrence_window_def Let_def)
  obtain daily where daily: "dget_or (PBool False) rec ''daily'' = PBool daily"
    using assms unfolding recurrence_window_def Let_def v pyval.case guard_Inr
    by (cases "dget_or (PBool False) rec ''daily''") simp_all
  note body = assms [unfolded recurrence_window_def Let_def v pyval.case daily guard_Inr]
  obtain start where start: "start_minutes_of (oget rec ''start'') = Some start"
    using body by (cases "start_minutes_of (oget rec ''start'')") simp_all
  note body = body [unfolded start option.case]
  obtain duration where duration: "int_in 1 (if daily then 1439 else 10079) (oget rec ''duration_minutes'') = Some duration"
    using body by (cases "int_in 1 (if daily then 1439 else 10079) (oget rec ''duration_minutes'')") simp_all
  note body = body [unfolded duration option.case]
  have w: "w = \<lparr>mw_reason = reason, mw_until = None,
      mw_weekday = (if daily then None else int_in 0 6 (oget rec ''weekday'')), mw_daily = daily,
      mw_start_minutes = Some start, mw_duration_minutes = Some duration\<rparr>"
    and weekly: "daily \<or> int_in 0 6 (oget rec ''weekday'') \<noteq> None"
    using body unfolding sum.inject de_Morgan_conj not_not by blast+
  show ?thesis
    using start_minutes_range [OF start] int_in_Some [OF duration] weekly
      int_in_Some [of 0 6 "oget rec ''weekday''"]
    by (auto simp: w window_ok_def recurring_def split: if_splits option.splits) fastforce?
qed

lemma maintenance_window_ok:
  assumes "maintenance_window_of alias v = Inr w"
  shows "window_ok w \<and> kept_text 120 (mw_reason w)"
proof -
  obtain raw where v: "v = PDict raw" using assms by (cases v) (simp_all add: maintenance_window_of_def Let_def)
  obtain s where s: "dget_or (PStr []) raw ''reason'' = PStr s"
    using assms unfolding maintenance_window_of_def Let_def v pyval.case guard_Inr
    by (cases "dget_or (PStr []) raw ''reason''") simp_all
  note body = assms [unfolded maintenance_window_of_def Let_def v pyval.case s guard_Inr]
  have "is_valid_maintenance_reason False (PStr s)" using body by blast
  then have reason: "kept_text 120 (strip s)"
    by (intro kept_text_strip)
      (simp_all add: is_valid_maintenance_reason_def maintenance_reason_max_length_def has_disallowed_text_characters_def)
  show ?thesis
  proof (cases "''until'' \<in> set (keys raw)")
    case True
    then obtain t where "w = \<lparr>mw_reason = strip s, mw_until = Some t, mw_weekday = None, mw_daily = False,
                         mw_start_minutes = None, mw_duration_minutes = None\<rparr>"
      using body by (auto simp: sum_bind_Inr)
    then show ?thesis using reason by (simp add: window_ok_def recurring_def)
  next
    case False
    then show ?thesis using body recurrence_ok [of _ "strip s"] reason by auto
  qed
qed

lemma maintenance_windows_ok:
  assumes "maintenance_windows_of data hosts excludes = Inr xs" "unique_value (PDict data)"
  shows "distinct (map fst xs) \<and> (\<forall>y \<in> set xs. is_safe_alias (fst y) \<and> fst y \<in> set hosts
    \<and> fst y \<notin> set excludes \<and> window_ok (snd y) \<and> kept_text 120 (mw_reason (snd y)))"
proof -
  obtain raw where raw: "dget_or (PDict []) data ''maintenance_windows'' = PDict raw"
    "parse_each (\<lambda>(alias, v). explicit_alias ''maintenance_windows'' True hosts excludes alias
        (sum_bind (maintenance_window_of alias v) (\<lambda>w. Inr (alias, w)))) raw = Inr xs"
    using assms(1) by (auto simp: maintenance_windows_of_def sum_bind_Inr)
  show ?thesis
    using section_keys [OF assms(2) raw(1)]
    by (intro parse_each_entries [OF raw(2)]) (auto simp: sum_bind_Inr dest: maintenance_window_ok)
qed

lemma threshold_field_range: "threshold_field raw name preset high = Inr x \<Longrightarrow> 0 \<le> x \<and> x \<le> of_int high"
  unfolding threshold_field_def by (drule number_field_range) simp

text \<open>The stages a successful load has passed.\<close>

definition loaded :: "(string \<Rightarrow> string option) \<Rightarrow> obj \<Rightarrow> monitor_config \<Rightarrow> bool" where
  "loaded place data c \<longleftrightarrow>
    policies data = Inr (mc_ssh_discovery c, mc_updates c)
    \<and> host_lists data = Inr (mc_hosts c, mc_exclude_hosts c)
    \<and> local_host_of data (mc_hosts c) (mc_exclude_hosts c) = Inr (mc_local_host c)
    \<and> topology_of data = Inr (mc_topology c)
    \<and> bounded_number data ''poll_interval_seconds'' 1 3600 = Inr (mc_poll_interval_seconds c)
    \<and> optional_setting data ''gpu_process_poll_interval_seconds'' 15 2 3600
        = Inr (mc_gpu_process_poll_interval_seconds c)
    \<and> bounded_number data ''probe_timeout_seconds'' 2 300 = Inr (mc_probe_timeout_seconds c)
    \<and> bounded_integer data ''connect_timeout_seconds'' 1 120 = Inr (mc_connect_timeout_seconds c)
    \<and> bounded_optional_int data ''max_output_bytes'' 2097152 65536 16777216 = Inr (mc_max_output_bytes c)
    \<and> bounded_integer data ''max_workers'' 1 64 = Inr (int (mc_max_workers c))
    \<and> bounded_integer data ''listen_port'' 1 65535 = Inr (mc_listen_port c)
    \<and> trusted_web_hosts data = Inr (mc_trusted_web_hosts c)
    \<and> authentication_of data = Inr (mc_authentication c)
    \<and> bounded_optional_int data ''history_points'' 720 12 8640 = Inr (int (mc_history_points c))
    \<and> bounded_optional_int data ''incident_history_points'' 500 20 5000 = Inr (int (mc_incident_history_points c))
    \<and> stale_cycles_of data = Inr (int (mc_collection_stale_cycles c))
    \<and> optional_setting data ''retry_jitter_pct'' 15 0 50 = Inr (mc_retry_jitter_pct c)
    \<and> optional_setting data ''manual_probe_cooldown_seconds'' 5 1 300 = Inr (mc_manual_probe_cooldown_seconds c)
    \<and> persistence_config_of data = Inr (mc_persistence c)
    \<and> workload_config_of data = Inr (mc_workloads c)
    \<and> webhook_configs data = Inr (mc_webhooks c)
    \<and> of_int (mc_connect_timeout_seconds c) < mc_probe_timeout_seconds c
    \<and> thresholds_of data = Inr (mc_thresholds c)
    \<and> expected_gpu_counts data (mc_hosts c) (mc_exclude_hosts c) = Inr (mc_expected_gpu_counts c)
    \<and> host_overrides_of data (mc_hosts c) (mc_exclude_hosts c) (mc_connect_timeout_seconds c) = Inr (mc_host_overrides c)
    \<and> maintenance_windows_of data (mc_hosts c) (mc_exclude_hosts c) = Inr (mc_maintenance_windows c)
    \<and> host_groups_of data (mc_auto_discover c) (mc_hosts c) (mc_exclude_hosts c) = Inr (mc_host_groups c)
    \<and> incident_overrides_of data (mc_hosts c) (mc_exclude_hosts c) (mc_host_groups c)
        = Inr (mc_host_incident_overrides c, mc_group_incident_overrides c)
    \<and> incident_cycles_of data = Inr (mc_incidents c)
    \<and> incident_actions_of data (mc_hosts c) (mc_exclude_hosts c) = Inr (mc_incident_actions c)
    \<and> ssh_config_path place (text_at data ''ssh_config'') = Inr (mc_ssh_config c)
    \<and> mc_auto_discover c = flag_at data ''auto_discover''
    \<and> mc_listen_host c = strip (text_at data ''listen_host'')"

lemma sum_bindE: "sum_bind x f = Inr y \<Longrightarrow> (\<And>v. x = Inr v \<Longrightarrow> f v = Inr y \<Longrightarrow> P) \<Longrightarrow> P"
  by (auto simp: sum_bind_Inr)

lemma sum_bind_pairE: "sum_bind x (\<lambda>(a, b). f a b) = Inr y \<Longrightarrow> (\<And>a b. x = Inr (a, b) \<Longrightarrow> f a b = Inr y \<Longrightarrow> P) \<Longrightarrow> P"
  by (auto simp: sum_bind_Inr)

lemma guardE: "guard c m r = Inr y \<Longrightarrow> (\<not> c \<Longrightarrow> r = Inr y \<Longrightarrow> P) \<Longrightarrow> P"
  by simp

lemma stale_range: "stale_cycles_of data = Inr i \<Longrightarrow> 2 \<le> i \<and> i \<le> 12"
  by (auto simp: stale_cycles_of_def integer_between_def split: pyval.splits)

lemma thresholds_of_ok: "thresholds_of data = Inr t \<Longrightarrow> thresholds_ok t"
  unfolding thresholds_of_def Let_def
  by (elim sum_bindE guardE, (drule threshold_field_range)+)
     (auto simp: thresholds_ok_def thresholds_to_dict_def threshold_maximum_def)

lemma finite_or_Inr: "incident_number raw name preset high = Inr x \<Longrightarrow> 0 \<le> x \<and> x \<le> of_int high"
  by (auto simp: incident_number_def Let_def sum_bind_Inr)

lemma incident_cycles_ok: "incident_cycles_of data = Inr i \<Longrightarrow> cycles_ok i"
  unfolding incident_cycles_of_def Let_def incident_cycles_field_def
  by (elim sum_bindE guardE, (drule integer_field_range)+, (drule finite_or_Inr)+)
     (auto simp: cycles_ok_def)

lemma scope_threshold_ok:
  assumes "scope_threshold label kv = Inr y"
  shows "fst y = fst kv \<and> 0 \<le> snd y \<and> snd y \<le> threshold_maximum (fst y)"
proof -
  let ?m = "if fst kv = ''gpu_temperature_warning_c'' then 150 else 100"
  obtain x where "number_field (label @ ''.thresholds.'' @ fst kv) 0 ?m (snd kv) = Inr x" "y = (fst kv, x)"
    using assms by (auto simp: scope_threshold_def Let_def refuse_def split: sum.splits if_splits)
  then show ?thesis using number_field_range [of _ 0 ?m] by (fastforce simp: threshold_maximum_def)
qed

lemma unknown_none: "unknown_keys d known = [] \<Longrightarrow> set (keys d) \<subseteq> set known"
proof -
  assume "unknown_keys d known = []"
  then have "set (filter (\<lambda>k. k \<notin> set known) (keys d)) = {}"
    unfolding unknown_keys_def by (metis set_empty2 set_sorted_set)
  then show ?thesis by auto
qed

lemma those_length: "those xs = Some ys \<Longrightarrow> length ys = length xs"
  by (induction xs arbitrary: ys) (auto split: option.splits)

lemma scope_override_ok:
  assumes "incident_scope_override label v = Inr ov" "unique_value v"
  shows "scope_ok ov"
proof -
  obtain raw where v: "v = PDict raw" using assms(1) by (cases v) (simp_all add: incident_scope_override_def)
  obtain raw_t where t: "dget_or (PDict []) raw ''thresholds'' = PDict raw_t"
    using assms(1) unfolding incident_scope_override_def v pyval.case guard_Inr
    by (cases "dget_or (PDict []) raw ''thresholds''") simp_all
  note body = assms(1) [unfolded incident_scope_override_def Let_def v pyval.case t guard_Inr]
  then obtain ts where ts: "unknown_keys raw_t threshold_keys = []" "parse_each (scope_threshold label) raw_t = Inr ts"
    by (auto simp: sum_bind_Inr)
  obtain mounts where mounts: "excluded_mounts raw = Some mounts"
    using body ts(2) by (cases "excluded_mounts raw") simp_all
  have ov: "ov = \<lparr>so_thresholds = sort_key fst ts, so_exclude_disk_mounts = fromkeys mounts\<rparr>"
    and ne: "\<not> (ts = [] \<and> mounts = [])"
    using body ts mounts by auto
  have u: "distinct (keys raw_t)" using section_keys [OF _ t] assms(2) by (simp add: v)
  have mapfst: "map fst ts = keys raw_t" using scope_threshold_ok by (intro parse_each_map [OF ts(2)]) blast
  have range: "\<forall>y \<in> set ts. 0 \<le> snd y \<and> snd y \<le> threshold_maximum (fst y)"
    using parse_each_set [OF ts(2)] scope_threshold_ok by blast
  have dist: "distinct (map fst ts)" using u mapfst by simp
  have "distinct (map fst (sort_key fst ts))"
    using dist by (simp add: distinct_map)
  moreover have "sorted (map fst (sort_key fst ts))" by simp
  moreover have "\<forall>(n, x) \<in> set (sort_key fst ts). n \<in> set threshold_keys \<and> 0 \<le> x \<and> x \<le> threshold_maximum n"
  proof -
    have "n \<in> set threshold_keys" if "(n, x) \<in> set ts" for n x
      using that mapfst unknown_none [OF ts(1)] by (metis (no_types, lifting) fst_conv image_eqI list.set_map subsetD)
    then show ?thesis using range by auto
  qed
  moreover have "length (fromkeys mounts) \<le> 128"
  proof -
    have "length mounts \<le> 128"
      using mounts
      by (auto simp: excluded_mounts_def split: pyval.splits if_splits option.splits dest: those_length)
    then show ?thesis using length_fromkeys [of mounts] by simp
  qed
  moreover have "list_all mount_ok (fromkeys mounts)" "mounts \<noteq> [] \<Longrightarrow> fromkeys mounts \<noteq> []"
    using mounts by (auto simp: excluded_mounts_def list_all_iff split: pyval.splits if_splits option.splits)
      (metis set_empty set_fromkeys)
  moreover have "sort_key fst ts \<noteq> [] \<or> fromkeys mounts \<noteq> []"
    using ne calculation(6) by (metis set_empty set_sort)
  ultimately show ?thesis by (simp add: scope_ok_def ov)
qed

lemma override_scope_unique:
  assumes "override_scope raw key = Inr entries" "unique_value (PDict raw)"
  shows "unique_value (PDict entries)" and "length entries \<le> 256"
proof -
  have "dget_or (PDict []) raw key = PDict entries"
    using assms(1) by (auto simp: override_scope_def Let_def sum_bind_Inr)
  then show "unique_value (PDict entries)" by (rule section_keys [OF assms(2)])
  show "length entries \<le> 256" using assms(1) by (auto simp: override_scope_def Let_def sum_bind_Inr)
qed

lemma incident_overrides_ok:
  assumes "incident_overrides_of data hosts excludes groups = Inr (hs, gs)" "unique_value (PDict data)"
    and "\<forall>(a, g) \<in> set groups. host_group_ok g"
  shows "length hs \<le> 256 \<and> length gs \<le> 256"
    and "distinct (map fst hs) \<and> (\<forall>(a, ov) \<in> set hs. is_safe_alias a \<and> a \<in> set hosts \<and> a \<notin> set excludes \<and> scope_ok ov)"
    and "distinct (map fst gs) \<and> (\<forall>(g, ov) \<in> set gs. g \<in> snd ` set groups \<and> scope_ok ov)"
proof -
  obtain raw rh rg where raw: "dget_or (PDict []) data ''incident_overrides'' = PDict raw"
    "override_scope raw ''hosts'' = Inr rh" "parse_each (host_incident_override hosts excludes) rh = Inr hs"
    "override_scope raw ''groups'' = Inr rg" "parse_each (group_incident_override (map snd groups)) rg = Inr gs"
    using assms(1) unfolding incident_overrides_of_def Let_def
    by (auto simp: sum_bind_Inr simp del: list.set_map)
  have ur: "unique_value (PDict raw)" by (rule section_keys [OF assms(2) raw(1)])
  note uh = override_scope_unique(1) [OF raw(2) ur] and ug = override_scope_unique(1) [OF raw(4) ur]
  show "length hs \<le> 256 \<and> length gs \<le> 256"
    using override_scope_unique(2) [OF raw(2) ur] override_scope_unique(2) [OF raw(4) ur] raw(3,5)
    by (simp add: parse_each_Inr)
  have h: "fst y = fst kv \<and> is_safe_alias (fst y) \<and> fst y \<in> set hosts \<and> fst y \<notin> set excludes
      \<and> (unique_value (snd kv) \<longrightarrow> scope_ok (snd y))"
    if "host_incident_override hosts excludes kv = Inr y" for kv y
    using that scope_override_ok by (auto simp: host_incident_override_def Let_def sum_bind_Inr)
  have mh: "map fst hs = keys rh" using h by (intro parse_each_map [OF raw(3)]) blast
  have "is_safe_alias (fst y) \<and> fst y \<in> set hosts \<and> fst y \<notin> set excludes \<and> scope_ok (snd y)" if m: "y \<in> set hs" for y
  proof -
    obtain kv where kv: "kv \<in> set rh" "host_incident_override hosts excludes kv = Inr y"
      using parse_each_set [OF raw(3) m] by blast
    have "unique_value (snd kv)" using uh kv(1) by simp
    with h [OF kv(2)] show ?thesis by blast
  qed
  then show "distinct (map fst hs) \<and> (\<forall>(a, ov) \<in> set hs. is_safe_alias a \<and> a \<in> set hosts \<and> a \<notin> set excludes \<and> scope_ok ov)"
    using mh uh by (simp add: case_prod_beta)
  have g: "fst y = fst kv \<and> fst y \<in> snd ` set groups \<and> (unique_value (snd kv) \<longrightarrow> scope_ok (snd y))"
    if "group_incident_override (map snd groups) kv = Inr y" for kv y
  proof -
    have mem: "fst kv \<in> snd ` set groups" and y: "fst y = strip (fst kv)"
      and sc: "\<exists>label. incident_scope_override label (snd kv) = Inr (snd y)"
      using that by (auto simp: group_incident_override_def Let_def sum_bind_Inr)
    have "strip (fst kv) = fst kv" using mem assms(3) by (auto simp: host_group_ok_def)
    then show ?thesis using mem y sc scope_override_ok by auto
  qed
  have mg: "map fst gs = keys rg" using g by (intro parse_each_map [OF raw(5)]) blast
  have "fst y \<in> snd ` set groups \<and> scope_ok (snd y)" if m: "y \<in> set gs" for y
  proof -
    obtain kv where kv: "kv \<in> set rg" "group_incident_override (map snd groups) kv = Inr y"
      using parse_each_set [OF raw(5) m] by blast
    have "unique_value (snd kv)" using ug kv(1) by simp
    with g [OF kv(2)] show ?thesis by blast
  qed
  then show "distinct (map fst gs) \<and> (\<forall>(g, ov) \<in> set gs. g \<in> snd ` set groups \<and> scope_ok ov)"
    using mg ug by (simp add: case_prod_beta)
qed

lemma action_of_ok:
  assumes "incident_action_of hosts excludes seen index item = Inr a"
  shows "action_in hosts excludes a \<and> action_texts_ok a \<and> (ia_host a, ia_condition_key a) \<notin> set seen"
proof -
  obtain raw where item: "item = PDict raw" using assms by (cases item) (simp_all add: incident_action_of_def Let_def)
  note body = assms [unfolded incident_action_of_def Let_def item pyval.case guard_Inr]
  obtain host where host: "oget raw ''host'' = PStr host" using body by (cases "oget raw ''host''") simp_all
  note body = body [unfolded host pyval.case guard_Inr]
  obtain key where key: "oget raw ''condition_key'' = PStr key" using body by (cases "oget raw ''condition_key''") simp_all
  note body = body [unfolded key pyval.case guard_Inr]
  define label where "label = index_label ''incident_actions'' index"
  note body = body [folded label_def]
  obtain act where act: "parse_mode [''acknowledged'', ''silenced''] (label @ ''.action must be acknowledged or silenced'') (oget raw ''action'') = Inr act"
    using body by (cases "parse_mode [''acknowledged'', ''silenced''] (label @ ''.action must be acknowledged or silenced'') (oget raw ''action'')") simp_all
  note body = body [unfolded act sum_bind_simps]
  obtain reason where reason: "oget raw ''reason'' = PStr reason" using body by (cases "oget raw ''reason''") simp_all
  note body = body [unfolded reason pyval.case guard_Inr]
  obtain until where until: "utc_timestamp (oget raw ''until'') (label @ ''.until'') = Inr until"
    using body by (cases "utc_timestamp (oget raw ''until'') (label @ ''.until'')") simp_all
  note body = body [unfolded until sum_bind_simps]
  have mode: "act \<in> {''acknowledged'', ''silenced''}"
    using act by (auto simp: parse_mode_def split: pyval.splits)
  have facts: "is_safe_alias host" "host \<in> set hosts" "host \<notin> set excludes"
    "is_valid_incident_condition_key (PStr key)" "is_valid_incident_action_reason (PStr reason)"
    using body by blast+
  have "\<exists>started. (\<forall>s. started = Some s \<longrightarrow> timestamp_shape s \<and> strptime_utc s \<noteq> None)
      \<and> (host, key) \<notin> set seen \<and> a = \<lparr>ia_host = host, ia_condition_key = key, ia_action = act,
      ia_until = until, ia_reason = strip reason, ia_incident_started_at = started\<rparr>"
    using body by (cases "oget raw ''incident_started_at''")
      (auto simp: sum_bind_Inr utc_timestamp_def split: if_splits option.splits)
  then obtain started where st: "\<forall>s. started = Some s \<longrightarrow> timestamp_shape s \<and> strptime_utc s \<noteq> None"
    and "(host, key) \<notin> set seen" and a: "a = \<lparr>ia_host = host, ia_condition_key = key,
      ia_action = act, ia_until = until, ia_reason = strip reason, ia_incident_started_at = started\<rparr>" by blast
  moreover have "kept_text 120 (strip reason)"
    using facts(5) by (intro kept_text_strip)
      (simp_all add: is_valid_incident_action_reason_def incident_action_reason_max_length_def)
  ultimately show ?thesis using facts mode st
    by (simp add: a action_in_def action_texts_ok_def is_valid_incident_condition_key_def
        is_valid_incident_action_reason_def incident_action_key_max_length_def incident_action_reason_max_length_def)
qed

lemma actions_from_ok:
  assumes "incident_actions_from hosts excludes index items actions = Inr result"
    and "distinct (map (\<lambda>a. (ia_host a, ia_condition_key a)) actions)" and "\<forall>a \<in> set actions. P a"
    and "\<And>seen i item a. incident_action_of hosts excludes seen i item = Inr a \<Longrightarrow> P a"
  shows "distinct (map (\<lambda>a. (ia_host a, ia_condition_key a)) result) \<and> (\<forall>a \<in> set result. P a)
    \<and> length result = length actions + length items"
  using assms(1-3)
proof (induction items arbitrary: index actions)
  case (Cons item items)
  from Cons.prems(1) obtain a where
    a: "incident_action_of hosts excludes (map (\<lambda>a. (ia_host a, ia_condition_key a)) actions) index item = Inr a"
    and rest: "incident_actions_from hosts excludes (Suc index) items (actions @ [a]) = Inr result"
    by (auto simp: sum_bind_Inr)
  have "(ia_host a, ia_condition_key a) \<notin> set (map (\<lambda>a. (ia_host a, ia_condition_key a)) actions)"
    using action_of_ok [OF a] by blast
  then have d: "distinct (map (\<lambda>a. (ia_host a, ia_condition_key a)) (actions @ [a]))"
    using Cons.prems(2) by (simp only: map_append list.map distinct_append set_append) simp
  have p: "\<forall>b \<in> set (actions @ [a]). P b" using Cons.prems(3) assms(4) [OF a] by simp
  from Cons.IH [OF rest d p] show ?case by simp
qed simp

lemma incident_actions_ok:
  assumes "incident_actions_of data hosts excludes = Inr actions"
  shows "length actions \<le> 512 \<and> distinct (map (\<lambda>a. (ia_host a, ia_condition_key a)) actions)
    \<and> (\<forall>a \<in> set actions. action_in hosts excludes a \<and> action_texts_ok a)"
proof -
  obtain items where items: "length items \<le> 512" "incident_actions_from hosts excludes 0 items [] = Inr actions"
    using assms unfolding incident_actions_of_def Let_def incident_action_max_entries_def
    by (cases "dget_or (PList []) data ''incident_actions''") (simp_all only: pyval.case guard_Inr refuse_Inr not_less, blast)
  have "distinct (map (\<lambda>a. (ia_host a, ia_condition_key a)) actions) \<and> (\<forall>a \<in> set actions. action_in hosts excludes a \<and> action_texts_ok a)
      \<and> length actions = length ([] :: incident_action list) + length items"
    using action_of_ok by (intro actions_from_ok [OF items(2)]) auto
  then show ?thesis using items(1) by simp
qed

lemma parse_mode_mem: "parse_mode modes message v = Inr s \<Longrightarrow> s \<in> set modes"
  by (auto simp: parse_mode_def split: pyval.splits)

lemma integer_between_range: "integer_between low high message v = Inr i \<Longrightarrow> low \<le> i \<and> i \<le> high"
  by (auto simp: integer_between_def split: pyval.splits)

lemma policies_ok:
  assumes "policies data = Inr (d, u)"
  shows "discovery_ok d" "updates_ok u" "normalize_web_hostname False (PStr (text_at data ''listen_host'')) \<noteq> None"
proof -
  have parts: "parse_ssh_discovery_config (dget_or (PDict []) data ''ssh_discovery'') = Inr d"
    "parse_updates_config (dget_or (PDict []) data ''updates'') = Inr u"
    using assms unfolding policies_def by (auto simp: sum_bind_Inr)
  show "discovery_ok d"
    using parts(1) unfolding parse_ssh_discovery_config_def Let_def
    by (auto simp: sum_bind_Inr discovery_ok_def dest: parse_mode_mem integer_between_range split: pyval.splits)
  show "updates_ok u"
    using parts(2) unfolding parse_updates_config_def Let_def
    by (auto simp: sum_bind_Inr updates_ok_def dest: parse_mode_mem integer_between_range split: pyval.splits)
  show "normalize_web_hostname False (PStr (text_at data ''listen_host'')) \<noteq> None"
    using assms unfolding policies_def text_at_def by (auto simp: sum_bind_Inr split: pyval.splits)
qed

lemma sections_loaded:
  assumes "sections_of place data = Inr c"
  shows "loaded place data c"
proof -
  note facts = assms [unfolded sections_of_def]
  show ?thesis
    using facts
    apply (elim sum_bind_pairE sum_bindE guardE)
    apply (frule bounded_integer_range [of data "''max_workers''"])
    apply (frule bounded_optional_int_range [of data "''history_points''"])
    apply (frule bounded_optional_int_range [of data "''incident_history_points''"])
    apply (frule stale_range)
    apply (simp only: sum.inject)
    apply hypsubst
    apply (unfold loaded_def monitor_config.select_convs)
    apply (intro conjI; (assumption | simp))
    done
qed

lemma topology_of_ok: "topology_of data = Inr (Some t) \<Longrightarrow> topology_wf t"
  by (auto simp: topology_of_def sum_bind_Inr split: option.splits dest: connection_topology_wf)

lemma authentication_ok: "authentication_of data = Inr s \<Longrightarrow> s \<in> {''bearer'', ''none''}"
  by (auto simp: authentication_of_def Let_def split: pyval.splits)

lemma persistence_ok:
  assumes "persistence_config_of data = Inr p"
  shows "1 \<le> pc_retention_hours p \<and> pc_retention_hours p \<le> 8760 \<and> 8388608 \<le> pc_max_bytes p
    \<and> pc_max_bytes p \<le> 1073741824"
proof -
  have range: "low \<le> i \<and> i \<le> high" if "parse_integer raw key preset low high = Inr i" for raw key preset low high i
    using that by (auto simp: parse_integer_def split: pyval.splits)
  show ?thesis using assms unfolding persistence_config_of_def Let_def
    by (auto simp: sum_bind_Inr dest: range split: pyval.splits)
qed

lemma workload_ok: "workload_config_of data = Inr m \<Longrightarrow> m \<in> {''disabled'', ''identity'', ''auto''}"
  by (auto simp: workload_config_of_def Let_def split: pyval.splits)

lemma webhooks_ok:
  assumes "webhook_configs data = Inr ws"
  shows "length ws \<le> 16 \<and> distinct (map wh_name ws) \<and> list_all webhook_wf ws"
proof -
  obtain items where items: "dget_or (PList []) data ''webhooks'' = PList items"
    using assms by (cases "dget_or (PList []) data ''webhooks''") (simp_all add: webhook_configs_def Let_def)
  then have "length items \<le> 16" "parse_webhooks 0 items [] = Inr ws"
    using assms by (simp_all add: webhook_configs_def Let_def)
  with parse_webhooks_wf [of 0 items "[]" ws] show ?thesis by simp
qed

lemma loaded_settings: "loaded place data c \<Longrightarrow> settings_ok c"
  unfolding loaded_def
  by (elim conjE, (drule bounded_number_range optional_setting_range bounded_integer_range
      bounded_optional_int_range stale_range authentication_ok)+)
     (simp add: settings_ok_def)

lemma loaded_hosts:
  assumes "loaded place data c"
  shows "hosts_ok c"
proof -
  have h: "host_lists data = Inr (mc_hosts c, mc_exclude_hosts c)"
    and l: "local_host_of data (mc_hosts c) (mc_exclude_hosts c) = Inr (mc_local_host c)"
    using assms unfolding loaded_def by blast+
  show ?thesis using host_lists_ok [OF h] l local_host_ok [of data "mc_hosts c" "mc_exclude_hosts c"]
    by (simp add: hosts_ok_def active_host_def)
qed

lemma loaded_per_host:
  assumes "loaded place data c" "unique_value (PDict data)"
  shows "per_host_ok c"
proof -
  have p: "expected_gpu_counts data (mc_hosts c) (mc_exclude_hosts c) = Inr (mc_expected_gpu_counts c)"
    "host_overrides_of data (mc_hosts c) (mc_exclude_hosts c) (mc_connect_timeout_seconds c) = Inr (mc_host_overrides c)"
    "maintenance_windows_of data (mc_hosts c) (mc_exclude_hosts c) = Inr (mc_maintenance_windows c)"
    "host_groups_of data (mc_auto_discover c) (mc_hosts c) (mc_exclude_hosts c) = Inr (mc_host_groups c)"
    using assms(1) unfolding loaded_def by blast+
  show ?thesis
    using expected_counts_ok [OF p(1) assms(2)] host_overrides_ok [OF p(2) assms(2)]
      maintenance_windows_ok [OF p(3) assms(2)] host_groups_ok [OF p(4) assms(2)]
    unfolding per_host_ok_def active_host_def case_prod_beta by blast
qed

lemma loaded_incidents:
  assumes "loaded place data c" "unique_value (PDict data)"
  shows "incidents_ok c"
proof -
  have p: "thresholds_of data = Inr (mc_thresholds c)" "incident_cycles_of data = Inr (mc_incidents c)"
    "incident_actions_of data (mc_hosts c) (mc_exclude_hosts c) = Inr (mc_incident_actions c)"
    "incident_overrides_of data (mc_hosts c) (mc_exclude_hosts c) (mc_host_groups c)
        = Inr (mc_host_incident_overrides c, mc_group_incident_overrides c)"
    using assms(1) unfolding loaded_def by blast+
  have g: "\<forall>(a, g) \<in> set (mc_host_groups c). host_group_ok g"
    using loaded_per_host [OF assms] by (auto simp: per_host_ok_def)
  note o' = incident_overrides_ok [OF p(4) assms(2) g]
  show ?thesis
    using thresholds_of_ok [OF p(1)] incident_cycles_ok [OF p(2)] incident_actions_ok [OF p(3)] o'
    unfolding incidents_ok_def active_host_def action_ok_def list_all_iff by blast
qed

lemma loaded_integrations:
  assumes "loaded place data c"
  shows "integrations_ok c"
proof -
  have p: "policies data = Inr (mc_ssh_discovery c, mc_updates c)" "topology_of data = Inr (mc_topology c)"
    "persistence_config_of data = Inr (mc_persistence c)" "workload_config_of data = Inr (mc_workloads c)"
    "webhook_configs data = Inr (mc_webhooks c)" "mc_listen_host c = strip (text_at data ''listen_host'')"
    "trusted_web_hosts data = Inr (mc_trusted_web_hosts c)"
    using assms unfolding loaded_def by blast+
  have "\<forall>t. mc_topology c = Some t \<longrightarrow> topology_wf t" using p(2) topology_of_ok by auto
  moreover have "normalize_web_hostname False (PStr (strip s)) = normalize_web_hostname False (PStr s)" for s
    by (simp add: normalize_web_hostname_def)
  ultimately show ?thesis
    using policies_ok [OF p(1)] persistence_ok [OF p(3)] workload_ok [OF p(4)] webhooks_ok [OF p(5)]
      trusted_web_hosts_ok [OF p(7)]
    by (simp add: integrations_ok_def p(6))
qed

text \<open>The path of the SSH configuration is where the filesystem places a visible, non-empty text.\<close>

definition path_ok :: "(string \<Rightarrow> string option) \<Rightarrow> string \<Rightarrow> bool" where
  "path_ok place path \<longleftrightarrow> (\<exists>raw. strip raw \<noteq> [] \<and> \<not> list_ex control_only raw \<and> place raw = Some path)"

lemma loaded_path:
  assumes "loaded place data c"
  shows "path_ok place (mc_ssh_config c)"
proof -
  have p: "policies data = Inr (mc_ssh_discovery c, mc_updates c)"
    "ssh_config_path place (text_at data ''ssh_config'') = Inr (mc_ssh_config c)"
    using assms unfolding loaded_def by blast+
  have "strip (text_at data ''ssh_config'') \<noteq> []"
    using p(1) by (auto simp: policies_def text_at_def split: pyval.splits)
  moreover have "\<not> list_ex control_only (text_at data ''ssh_config'')
      \<and> place (text_at data ''ssh_config'') = Some (mc_ssh_config c)"
    using p(2) by (auto simp: ssh_config_path_def split: option.splits)
  ultimately show ?thesis unfolding path_ok_def by blast
qed

lemma parsed_config_ok:
  assumes "parse_config_bytes place source d = Inr c"
  shows "config_ok c \<and> path_ok place (mc_ssh_config c)"
proof -
  obtain data where data: "document source d = Inr data" "sections_of place data = Inr c"
    using assms by (auto simp: parse_config_bytes_def sum_bind_Inr)
  note u = document_unique(1) [OF data(1)] and l = sections_loaded [OF data(2)]
  show ?thesis
    using loaded_settings [OF l] loaded_hosts [OF l] loaded_per_host [OF l u] loaded_incidents [OF l u]
      loaded_integrations [OF l] loaded_path [OF l]
    by (simp only: config_ok_def simp_thms)
qed

end
