(* ===== verification/Config_Properties.thy ===== *)
theory Config_Properties
  imports Config_Loaded
begin

text \<open>
  The properties of the configuration loader: what a loaded configuration guarantees, that no
  duplicate key is dropped, which documents raise anything but a configuration error, and that
  incident actions survive being written and read back.
\<close>

section \<open>Errors\<close>

definition hashable :: "pyval \<Rightarrow> bool" where
  "hashable v \<longleftrightarrow> (case v of PList _ \<Rightarrow> False | PDict _ \<Rightarrow> False | _ \<Rightarrow> True)"

definition float_sized :: "pyval \<Rightarrow> bool" where
  "float_sized v \<longleftrightarrow> (case v of PInt i \<Rightarrow> \<bar>i\<bar> < double_limit | _ \<Rightarrow> True)"

definition as_dict :: "pyval \<Rightarrow> obj" where
  "as_dict v = (case v of PDict d \<Rightarrow> d | _ \<Rightarrow> [])"

definition as_list :: "pyval \<Rightarrow> pyval list" where
  "as_list v = (case v of PList xs \<Rightarrow> xs | _ \<Rightarrow> [])"

text \<open>The fields whose value the loader hashes or converts before it knows the type or size.\<close>

definition tame :: "obj \<Rightarrow> bool" where
  "tame data \<longleftrightarrow>
    hashable (oget (as_dict (oget data ''ssh_discovery'')) ''mode'')
    \<and> float_sized (oget (as_dict (oget data ''ssh_discovery'')) ''resolve_timeout_seconds'')
    \<and> hashable (oget (as_dict (oget data ''updates'')) ''mode'')
    \<and> hashable (oget (as_dict (oget data ''workloads'')) ''mode'')
    \<and> (\<forall>k \<in> {''resource_open_seconds'', ''gpu_idle_memory_seconds'', ''recovery_margin''}.
        float_sized (oget (as_dict (oget data ''incidents'')) k))
    \<and> (\<forall>item \<in> set (as_list (oget data ''incident_actions'')). hashable (oget (as_dict item) ''action''))"

lemma dget_or_oget: "dget_or x d k = (if k \<in> fst ` set d then oget d k else x)"
proof (cases "k \<in> fst ` set d")
  case True
  then obtain v where "dget d k = Some v" using keys_obtain [OF True] by blast
  then show ?thesis using True by (simp add: dget_or_def oget_def)
next
  case False
  then have "dget d k = None" by (simp add: dget_None_iff)
  then show ?thesis using False by (simp add: dget_or_def)
qed

lemma oget_absent: "k \<notin> fst ` set d \<Longrightarrow> oget d k = PNone"
  by (simp add: oget_def dget_or_def flip: dget_None_iff)

lemma sum_bind_refuse [simp]: "sum_bind (refuse m) f = refuse m"
  by (simp add: refuse_def)

lemma clean_pair_case: "(\<And>a b. clean (f a b)) \<Longrightarrow> clean (case p of (a, b) \<Rightarrow> f a b)"
  by (cases p) simp

lemma clean_mode: "hashable v \<Longrightarrow> clean (parse_mode modes message v)"
  unfolding parse_mode_def hashable_def by (cases v) auto

lemma clean_between [intro]: "clean (integer_between low high message v)"
  unfolding integer_between_def by (intro clean_pyval_case clean_rules)

lemma clean_finite: "float_sized v \<Longrightarrow> clean (finite_or message v)"
  unfolding finite_or_def float_sized_def by (cases v) auto

lemma clean_section [intro]: "clean (section_dict data key message)"
  unfolding section_dict_def by (intro clean_pyval_case clean_rules)

lemma clean_alias [intro]: "clean rest \<Longrightarrow> clean (explicit_alias section req hosts excludes a rest)"
  unfolding explicit_alias_def by (intro clean_rules)

lemmas clean_intros = clean_bind clean_rules clean_pyval_case clean_option_case clean_pair_case clean_each
  clean_alias clean_section clean_number clean_integer clean_bounded clean_optional clean_string_list clean_timestamp

lemma clean_hosts: "clean (host_lists data)" "clean (local_host_of data hosts excludes)"
  unfolding host_lists_def local_host_of_def Let_def by (intro clean_intros)+

lemma clean_thresholds: "clean (thresholds_of data)"
  unfolding thresholds_of_def Let_def threshold_field_def by (intro clean_intros)

lemma clean_per_host:
  "clean (expected_gpu_counts data hosts excludes)"
  "clean (host_overrides_of data hosts excludes connect_timeout)"
  "clean (host_groups_of data auto hosts excludes)"
proof -
  have "clean (display_name_of a raw)" for a raw
    unfolding display_name_of_def Let_def by (intro clean_intros)
  then have "clean (host_override_entry connect_timeout a v)" for a v
    unfolding host_override_entry_def Let_def by (intro clean_intros)
  then show "clean (expected_gpu_counts data hosts excludes)"
    "clean (host_overrides_of data hosts excludes connect_timeout)"
    unfolding expected_gpu_counts_def host_overrides_of_def by (intro clean_intros)+
  show "clean (host_groups_of data auto hosts excludes)"
    unfolding host_groups_of_def by (intro clean_intros)
qed

lemma clean_windows: "clean (maintenance_windows_of data hosts excludes)"
proof -
  have "clean (recurrence_window label reason v)" for label reason v
    unfolding recurrence_window_def Let_def by (intro clean_intros)
  then have "clean (maintenance_window_of a v)" for a v
    unfolding maintenance_window_of_def Let_def by (auto intro!: clean_pyval_case clean_bind)
  then show ?thesis unfolding maintenance_windows_of_def by (intro clean_intros)
qed

lemma clean_overrides: "clean (incident_overrides_of data hosts excludes groups)"
proof -
  have "clean (scope_threshold label kv)" for label kv
    unfolding scope_threshold_def Let_def by (auto split: sum.split)
  then have scope: "clean (incident_scope_override label v)" for label v
    unfolding incident_scope_override_def Let_def by (intro clean_intros)
  have "clean (override_scope raw key)" for raw key
    unfolding override_scope_def Let_def by (intro clean_intros)
  with scope show ?thesis
    unfolding incident_overrides_of_def Let_def host_incident_override_def group_incident_override_def
    by (intro clean_intros)
qed

lemma clean_cycles:
  assumes "tame data"
  shows "clean (incident_cycles_of data)"
proof (cases "dget_or (PDict []) data ''incidents''")
  case (PDict raw)
  have sized: "clean (incident_number raw name preset high)"
    if "name \<in> {''resource_open_seconds'', ''gpu_idle_memory_seconds'', ''recovery_margin''}" for name preset high
  proof -
    have "raw = [] \<or> oget data ''incidents'' = PDict raw"
      using PDict by (simp add: dget_or_oget split: if_splits)
    then have "float_sized (dget_or (PFloat preset) raw name)"
      using assms that by (auto simp: tame_def dget_or_oget as_dict_def float_sized_def)
    then show ?thesis unfolding incident_number_def Let_def by (intro clean_bind clean_finite clean_rules)
  qed
  then show ?thesis
    unfolding incident_cycles_of_def section_dict_def PDict pyval.case sum_bind_simps Let_def incident_cycles_field_def
    by (intro clean_intros; simp)
qed (simp_all add: incident_cycles_of_def section_dict_def)

lemma clean_actions:
  assumes "tame data"
  shows "clean (incident_actions_of data hosts excludes)"
proof -
  have one: "clean (incident_action_of hosts excludes seen index item)"
    if "hashable (oget (as_dict item) ''action'')" for seen index item
  proof (cases item)
    case (PDict raw)
    then have "hashable (oget raw ''action'')" using that by (simp add: as_dict_def)
    then show ?thesis unfolding incident_action_of_def Let_def PDict pyval.case
      by (intro clean_intros clean_mode)
  qed (simp_all add: incident_action_of_def Let_def)
  have all: "clean (incident_actions_from hosts excludes index items actions)"
    if "\<forall>item \<in> set items. hashable (oget (as_dict item) ''action'')" for index items actions
    using that by (induction items arbitrary: index actions) (auto intro!: clean_bind one)
  show ?thesis
  proof (cases "dget_or (PList []) data ''incident_actions''")
    case (PList items)
    then have "items = [] \<or> oget data ''incident_actions'' = PList items"
      by (simp add: dget_or_oget split: if_splits)
    then have "\<forall>item \<in> set items. hashable (oget (as_dict item) ''action'')"
      using assms by (auto simp: tame_def as_list_def)
    then show ?thesis using all by (simp add: incident_actions_of_def PList Let_def)
  qed (simp_all add: incident_actions_of_def Let_def)
qed

lemma clean_policies:
  assumes "tame data"
  shows "clean (policies data)"
proof -
  have sub: "dget_or (PDict []) data k = PDict d \<Longrightarrow> oget d j = oget (as_dict (oget data k)) j" for k d j
    by (cases "k \<in> fst ` set data") (simp_all add: dget_or_oget as_dict_def oget_absent)
  have "clean (parse_ssh_discovery_config (dget_or (PDict []) data ''ssh_discovery''))"
  proof (cases "dget_or (PDict []) data ''ssh_discovery''")
    case (PDict d)
    have "hashable (dget_or (PStr ''aliases'') d ''mode'')" "float_sized (dget_or (PInt 3) d ''resolve_timeout_seconds'')"
      using assms sub [OF PDict] by (auto simp: tame_def dget_or_oget hashable_def float_sized_def double_limit_def)
    then show ?thesis unfolding PDict parse_ssh_discovery_config_def Let_def pyval.case
      by (intro clean_bind clean_rules clean_mode clean_between clean_finite)
  qed (simp_all add: parse_ssh_discovery_config_def Let_def)
  moreover have "clean (parse_updates_config (dget_or (PDict []) data ''updates''))"
  proof (cases "dget_or (PDict []) data ''updates''")
    case (PDict d)
    have "hashable (dget_or (PStr ''off'') d ''mode'')"
      using assms sub [OF PDict] by (auto simp: tame_def dget_or_oget hashable_def)
    then show ?thesis unfolding PDict parse_updates_config_def Let_def pyval.case
      by (intro clean_bind clean_rules clean_mode clean_between)
  qed (simp_all add: parse_updates_config_def Let_def)
  ultimately show ?thesis unfolding policies_def by (intro clean_bind clean_rules)
qed

lemma clean_workload:
  assumes "tame data"
  shows "clean (workload_config_of data)"
proof (cases "dget_or (PDict [(''mode'', PStr ''disabled'')]) data ''workloads''")
  case (PDict raw)
  then have "raw = [(''mode'', PStr ''disabled'')] \<or> oget data ''workloads'' = PDict raw"
    by (auto simp: dget_or_oget split: if_splits)
  then have "hashable (oget raw ''mode'')"
    using assms by (auto simp: tame_def as_dict_def hashable_def)
  then show ?thesis unfolding workload_config_of_def PDict pyval.case Let_def hashable_def
    by (cases "oget raw ''mode''") auto
qed (simp_all add: workload_config_of_def)

lemma clean_scalars: "clean (authentication_of data)" "clean (stale_cycles_of data)" "clean (trusted_web_hosts data)"
  "clean (ssh_config_path place raw)"
  unfolding authentication_of_def stale_cycles_of_def trusted_web_hosts_def ssh_config_path_def Let_def
  by (intro clean_intros clean_between)+

lemma clean_topology_of: "clean (topology_of data)"
  unfolding topology_of_def by (intro clean_intros clean_topology)

lemma clean_sections: "tame data \<Longrightarrow> clean (sections_of place data)"
  unfolding sections_of_def
  by (intro clean_bind clean_pair_case clean_policies clean_hosts clean_topology_of clean_bounded clean_scalars
      clean_persistence clean_workload clean_webhooks clean_thresholds clean_per_host clean_windows clean_overrides
      clean_cycles clean_actions clean_rules)

lemma clean_resolve:
  "clean (resolve_node source path n)" "clean (resolve_pairs source path ps acc)"
  "clean (resolve_items source path i items)"
  by (induction source path n and source path ps acc and source path i items
      rule: resolve_node_resolve_pairs_resolve_items.induct)
    (simp_all add: clean_bind)

lemma clean_document: "clean (document source d)"
  unfolding document_def root_keys_def Let_def
  by (cases d) (auto intro!: clean_bind clean_pyval_case clean_resolve)

section \<open>Written actions\<close>

definition action_doc :: "incident_action \<Rightarrow> pyval" where
  "action_doc a = PDict (map (\<lambda>(k, v). (k, popt PStr v)) (action_to_dict a))"

text \<open>An action as the service holds it: its end is a whole second that \<open>datetime\<close> can represent, its
  incident start is absent or such a moment as written.\<close>

definition storable :: "string list \<Rightarrow> string list \<Rightarrow> incident_action \<Rightarrow> bool" where
  "storable hosts excludes a \<longleftrightarrow> action_in hosts excludes a
    \<and> \<not> list_ex is_control (ia_condition_key a) \<and> \<not> list_ex is_control (ia_reason a)
    \<and> - 62135596800000000 \<le> ia_until a \<and> ia_until a < 253402300800000000
    \<and> ia_until a mod us_per_second = 0
    \<and> (case ia_incident_started_at a of None \<Rightarrow> True
       | Some s \<Rightarrow> timestamp_shape s \<and> strptime_utc s \<noteq> None)"

lemma action_doc_parses:
  assumes "storable hosts excludes a" "(ia_host a, ia_condition_key a) \<notin> set seen"
  shows "incident_action_of hosts excludes seen index (action_doc a) = Inr a"
proof -
  obtain h k m u r st where a: "a = \<lparr>ia_host = h, ia_condition_key = k, ia_action = m, ia_until = u,
    ia_reason = r, ia_incident_started_at = st\<rparr>" by (cases a)
  have act: "is_safe_alias h" "h \<in> set hosts" "h \<notin> set excludes" "m \<in> {''acknowledged'', ''silenced''}"
    "k \<noteq> []" "length k \<le> 512" "length r \<le> 120" "strip r = r"
    and tx: "\<not> list_ex is_control k" "\<not> list_ex is_control r"
    and u: "- 62135596800000000 \<le> u" "u < 253402300800000000" "u mod us_per_second = 0"
    and st: "\<forall>s. st = Some s \<longrightarrow> timestamp_shape s \<and> strptime_utc s \<noteq> None"
    using assms(1) by (auto simp: storable_def action_in_def a split: option.splits)
  have "u div us_per_second * us_per_second = u" using u(3) by (metis add.right_neutral div_mult_mod_eq)
  then have until: "utc_timestamp (PStr (iso_z u)) label = Inr u" for label
    using utc_timestamp_iso_z [OF u(1,2)] by simp
  have started: "sum_bind (utc_timestamp (PStr s) label) (\<lambda>_. x) = x" if "st = Some s"
    for s label and x :: "incident_action parsed"
    using st that by (auto simp: utc_timestamp_def split: option.splits)
  have valid: "is_valid_incident_condition_key (PStr k)" "is_valid_incident_action_reason (PStr r)"
    using act tx by (simp_all add: is_valid_incident_condition_key_def is_valid_incident_action_reason_def
        incident_action_key_max_length_def incident_action_reason_max_length_def)
  have mode: "parse_mode [''acknowledged'', ''silenced''] message (PStr m) = Inr m" for message
    using act(4) by (auto simp: parse_mode_def)
  have schema: "action_keys_ok (map (\<lambda>(k, v). (k, popt PStr v)) (action_to_dict a))"
    by (simp add: action_keys_ok_def action_to_dict_def Let_def insert_commute)
  have reads: "oget (map (\<lambda>(k, v). (k, popt PStr v)) (action_to_dict a)) ''host'' = PStr h"
    "oget (map (\<lambda>(k, v). (k, popt PStr v)) (action_to_dict a)) ''condition_key'' = PStr k"
    "oget (map (\<lambda>(k, v). (k, popt PStr v)) (action_to_dict a)) ''action'' = PStr m"
    "oget (map (\<lambda>(k, v). (k, popt PStr v)) (action_to_dict a)) ''until'' = PStr (iso_z u)"
    "oget (map (\<lambda>(k, v). (k, popt PStr v)) (action_to_dict a)) ''reason'' = PStr r"
    "oget (map (\<lambda>(k, v). (k, popt PStr v)) (action_to_dict a)) ''incident_started_at'' = popt PStr st"
    by (simp_all add: action_to_dict_def a)
  have seen: "(h, k) \<notin> set seen" using assms(2) by (simp add: a)
  show ?thesis
    unfolding incident_action_of_def action_doc_def pyval.case Let_def reads mode until sum_bind_simps
    using started act(1-3,8) valid schema seen
    by (cases st) (auto simp: guard_def a)
qed

lemma actions_doc_parse:
  assumes "\<forall>a \<in> set actions. storable hosts excludes a"
    and "distinct (map (\<lambda>a. (ia_host a, ia_condition_key a)) (seen @ actions))"
  shows "incident_actions_from hosts excludes index (map action_doc actions) seen = Inr (seen @ actions)"
  using assms
proof (induction actions arbitrary: index seen)
  case (Cons a actions)
  have "(ia_host a, ia_condition_key a) \<notin> set (map (\<lambda>a. (ia_host a, ia_condition_key a)) seen)"
    using Cons.prems(2) by auto
  moreover have "storable hosts excludes a" using Cons.prems(1) by simp
  ultimately have "incident_action_of hosts excludes (map (\<lambda>a. (ia_host a, ia_condition_key a)) seen) index (action_doc a) = Inr a"
    by (intro action_doc_parses)
  then show ?case using Cons.IH [of "seen @ [a]" "Suc index"] Cons.prems by simp
qed simp

section \<open>Properties\<close>

text \<open>A document with most sections, for the witnesses.\<close>

definition sample_node :: json_node where
  "sample_node = N_Pairs
    [(''ssh_config'', N_Str ''~/.ssh/config''), (''auto_discover'', N_Bool False),
     (''hosts'', N_List [N_Str ''gpu-1'', N_Str '' gpu-2 '']), (''exclude_hosts'', N_List []),
     (''poll_interval_seconds'', N_Int 5), (''probe_timeout_seconds'', N_Float 10),
     (''connect_timeout_seconds'', N_Int 5), (''max_workers'', N_Int 4), (''listen_host'', N_Str ''127.0.0.1''),
     (''listen_port'', N_Int 8765), (''local_host'', N_Str ''gpu-2''),
     (''thresholds'', N_Pairs [(''disk_min_free_gib'', N_Int 20)]),
     (''host_overrides'', N_Pairs [(''gpu-1'', N_Pairs [(''probe_timeout_seconds'', N_Int 30)])]),
     (''maintenance_windows'', N_Pairs [(''gpu-1'', N_Pairs [(''recurrence'', N_Pairs
        [(''daily'', N_Bool True), (''start'', N_Str ''02:30''), (''duration_minutes'', N_Int 45)])])]),
     (''host_groups'', N_Pairs [(''gpu-1'', N_Str ''lab'')]),
     (''incident_actions'', N_List [N_Pairs [(''host'', N_Str ''gpu-2''), (''condition_key'', N_Str ''disk:/''),
        (''action'', N_Str ''silenced''), (''until'', N_Str ''2026-01-02T03:04:05Z''), (''reason'', N_Str ''cleanup'')]])]"

definition sample_data :: obj where
  "sample_data = plain_pairs (case sample_node of N_Pairs ps \<Rightarrow> ps | _ \<Rightarrow> [])"

lemma sample_document: "document ''mocop.json'' (Decoded sample_node) = Inr sample_data"
  by code_simp




text \<open>C34. No key of a document is silently dropped: the walk over the decoded pairs accepts exactly the
  documents in which no object, at any depth, has a key twice, and what it returns has the same keys
  and values in the same order.\<close>

theorem duplicates_refused:
  "resolve_node source path n = Inr v \<longleftrightarrow> unique_keys n \<and> v = plain_value n"
  by (rule resolve_complete(1))

text \<open>C35. How documents are refused: whatever the bytes, loading fails with a configuration error only,
  provided the mode of SSH discovery, updates and workloads and the action of an incident action are
  no lists or objects and the resolve timeout and the incident seconds and margin are no integers
  beyond the range of a float.\<close>

theorem refuses_cleanly:
  assumes "\<And>data. document source d = Inr data \<Longrightarrow> tame data"
  shows "clean (parse_config_bytes place source d)"
proof (cases "document source d")
  case (Inl e)
  then show ?thesis using clean_document [of source d] by (simp add: parse_config_bytes_def clean_def)
next
  case (Inr data)
  then show ?thesis using clean_sections [OF assms] by (simp add: parse_config_bytes_def)
qed

theorem refuses_cleanly_witness:
  "clean (parse_config_bytes (\<lambda>_. None) ''mocop.json'' (Decoded sample_node))"
proof (rule refuses_cleanly)
  fix data
  assume "document ''mocop.json'' (Decoded sample_node) = Inr data"
  then have "data = sample_data" using sample_document by simp
  moreover have "tame sample_data"
    unfolding tame_def by (simp add: sample_data_def sample_node_def hashable_def float_sized_def as_dict_def as_list_def)
  ultimately show "tame data" by simp
qed

text \<open>Two of the exceptions: an integer beyond a float's range as the recovery margin, and a list as an
  action, on an otherwise empty section.\<close>

lemma margin_overflows:
  "incident_cycles_of [(''incidents'', PDict [(''recovery_margin'', PInt (10 ^ 400))])] = Inl Uncaught_Overflow_Error"
  by code_simp

lemma action_unhashable:
  "incident_actions_of [(''incident_actions'', PList [PDict [(''host'', PStr ''a''), (''condition_key'', PStr ''k''),
      (''action'', PList []), (''until'', PStr []), (''reason'', PStr [])]])] [''a''] []
    = Inl Uncaught_Type_Error"
  by code_simp

text \<open>C36. Incident actions survive being written to the configuration and loaded again: the dictionaries
  of any storable actions on distinct conditions parse back to the same actions, in order.\<close>

theorem actions_roundtrip:
  assumes "\<forall>a \<in> set actions. storable hosts excludes a" "length actions \<le> 512"
    and "distinct (map (\<lambda>a. (ia_host a, ia_condition_key a)) actions)"
  shows "incident_actions_of [(''incident_actions'', PList (map action_doc actions))] hosts excludes = Inr actions"
  using actions_doc_parse [OF assms(1), of "[]" 0] assms(2,3)
  by (simp add: incident_actions_of_def dget_or_def incident_action_max_entries_def Let_def)

definition sample_action :: incident_action where
  "sample_action = \<lparr>ia_host = ''a'', ia_condition_key = ''disk:/'', ia_action = ''silenced'',
    ia_until = 1767323045000000, ia_reason = ''cleanup'', ia_incident_started_at = Some ''2026-01-01T00:00:00Z''\<rparr>"

theorem actions_roundtrip_witness:
  "incident_actions_of [(''incident_actions'', PList (map action_doc [sample_action]))] [''a''] [] = Inr [sample_action]"
proof (rule actions_roundtrip)
  have "storable [''a''] [] sample_action" by code_simp
  then show "\<forall>a \<in> set [sample_action]. storable [''a''] [] a" by simp
qed simp_all

end
