(* ===== verification/Config_Files.thy ===== *)
theory Config_Files
  imports Config_Loader "HOL-Library.Word"
begin

text \<open>
  Finding and reading the configuration file (\<open>config_loader.py\<close>): the order in which the paths are
  tried, the bounded read of a regular file and the checks of a private one. The file system is an
  argument: the operations of \<open>pathlib\<close>, the metadata of a descriptor and what each read returns.
\<close>

unbundle bit_operations_syntax

definition config_max_bytes :: nat where "config_max_bytes = 1048576"

section \<open>Paths\<close>

text \<open>\<open>pathlib\<close> on an abstract type of paths: \<open>None\<close> is one of the errors \<open>resolve_config_path\<close> catches.\<close>

record 'p path_ops =
  po_path :: "string \<Rightarrow> 'p"
  po_expand :: "'p \<Rightarrow> 'p option"
  po_resolve :: "'p \<Rightarrow> 'p option"
  po_join :: "'p \<Rightarrow> string \<Rightarrow> 'p"
  po_home :: "'p option"
  po_cwd :: "'p option"
  po_is_file :: "'p \<Rightarrow> bool"
  po_bundled :: 'p

definition expanded :: "('p, 'x) path_ops_scheme \<Rightarrow> string \<Rightarrow> 'p option" where
  "expanded ops s = Option.bind (po_expand ops (po_path ops s)) (po_resolve ops)"

definition user_root :: "('p, 'x) path_ops_scheme \<Rightarrow> string \<Rightarrow> 'p option" where
  "user_root ops xdg =
    (if xdg \<noteq> [] then po_expand ops (po_path ops xdg)
     else map_option (\<lambda>home. po_join ops home ''.config'') (po_home ops))"

definition resolve_config_path ::
  "('p, 'x) path_ops_scheme \<Rightarrow> string option \<Rightarrow> (string, string) dict \<Rightarrow> 'p option \<Rightarrow> 'p parsed" where
  "resolve_config_path ops explicit environ cwd =
    (let configured = strip (dget_or [] environ ''MOCOP_CONFIG'');
         xdg = strip (dget_or [] environ ''XDG_CONFIG_HOME'');
         user_config = Option.bind (user_root ops xdg)
           (\<lambda>root. po_resolve ops (po_join ops root ''mocop/config.json''));
         base = (case cwd of Some p \<Rightarrow> Some p | None \<Rightarrow> po_cwd ops);
         project_config = Option.bind base (\<lambda>p. po_resolve ops (po_join ops p ''config/mocop.json''));
         found = (case explicit of
             Some s \<Rightarrow> expanded ops s
           | None \<Rightarrow>
               if configured \<noteq> [] then expanded ops configured
               else Option.bind user_config (\<lambda>u.
                 if po_is_file ops u then Some u
                 else Option.bind project_config (\<lambda>p.
                   if po_is_file ops p then Some p else po_resolve ops (po_bundled ops))))
     in case found of None \<Rightarrow> refuse ''configuration path is invalid'' | Some p \<Rightarrow> Inr p)"

section \<open>Bounded reads\<close>

record file_stat =
  st_mode :: nat
  st_uid :: int
  st_size :: int

definition s_isreg :: "nat \<Rightarrow> bool" where "s_isreg m \<longleftrightarrow> m AND 61440 = 32768"
definition s_isdir :: "nat \<Rightarrow> bool" where "s_isdir m \<longleftrightarrow> m AND 61440 = 16384"

definition limit_message :: "string \<Rightarrow> string" where
  "limit_message path = ''config file exceeds the 1048576-byte limit: '' @ path"

text \<open>\<open>reads offset n\<close> is what \<open>os.read\<close> returns at an offset of the file when \<open>n\<close> bytes are asked for;
  \<open>None\<close> is an \<open>OSError\<close>.\<close>

type_synonym reads = "nat \<Rightarrow> nat \<Rightarrow> nat list option"

function read_loop :: "reads \<Rightarrow> string \<Rightarrow> nat list \<Rightarrow> nat list parsed" where
  "read_loop reads path content =
    (if config_max_bytes < length content then refuse (limit_message path)
     else (case reads (length content) (min 65536 (config_max_bytes + 1 - length content)) of
         None \<Rightarrow> refuse (''cannot read config: '' @ path)
       | Some [] \<Rightarrow> Inr content
       | Some (b # chunk) \<Rightarrow> read_loop reads path (content @ b # chunk)))"
  by pat_completeness auto
termination
  by (relation "measure (\<lambda>(reads, path, content). config_max_bytes + 1 - length content)") auto

declare read_loop.simps [simp del]

definition read_config_bytes :: "file_stat option \<Rightarrow> reads \<Rightarrow> string \<Rightarrow> nat list parsed" where
  "read_config_bytes metadata reads path =
    (case metadata of
       None \<Rightarrow> refuse (''cannot read config: '' @ path)
     | Some m \<Rightarrow>
         guard (\<not> s_isreg (st_mode m)) (''config file is not a regular file: '' @ path)
         (guard (int config_max_bytes < st_size m) (limit_message path) (read_loop reads path [])))"

text \<open>An open descriptor: its metadata and its reads; \<open>None\<close> when opening failed.\<close>

definition read_config_path :: "(file_stat option \<times> reads) option \<Rightarrow> string \<Rightarrow> nat list parsed" where
  "read_config_path opened path =
    (case opened of
       None \<Rightarrow> refuse (''cannot read config: '' @ path)
     | Some (metadata, reads) \<Rightarrow> read_config_bytes metadata reads path)"

definition validate_private_metadata :: "int \<Rightarrow> bool \<Rightarrow> string \<Rightarrow> file_stat \<Rightarrow> unit parsed" where
  "validate_private_metadata uid directory path m =
    guard (\<not> (if directory then s_isdir (st_mode m) else s_isreg (st_mode m)) \<or> st_uid m \<noteq> uid)
      (''managed config '' @ path @ '' must be an owned '' @ (if directory then ''directory'' else ''regular file''))
    (guard (st_mode m AND (if directory then 18 else 63) \<noteq> 0)
      (''managed config '' @ path @ '' must '' @ (if directory then ''not be group/other-writable'' else ''be private''))
      (Inr ()))"

text \<open>An open directory: its metadata and what opening a name relative to its descriptor gives, the
  metadata of the file, its metadata when they are read again, and its reads. Whatever becomes of the
  path meanwhile, the file is looked up in the directory that was opened.\<close>

record open_directory =
  od_metadata :: file_stat
  od_open :: "string \<Rightarrow> (file_stat \<times> file_stat option \<times> reads) option"

text \<open>\<open>open_dir\<close> opens a directory without following its last link, the file is opened likewise;
  \<open>None\<close> is an \<open>OSError\<close>. The metadata of the file are read once more before its content.\<close>

definition read_private_config_path ::
  "int \<Rightarrow> (string \<Rightarrow> open_directory option) \<Rightarrow> string \<Rightarrow> string \<Rightarrow> string \<Rightarrow> nat list parsed" where
  "read_private_config_path uid open_dir parent_path name path =
    (case open_dir parent_path of
       None \<Rightarrow> refuse (''cannot open managed config directory: '' @ parent_path)
     | Some parent \<Rightarrow>
         sum_bind (validate_private_metadata uid True parent_path (od_metadata parent)) (\<lambda>_.
           case od_open parent name of
             None \<Rightarrow> refuse (''cannot open managed config: '' @ path)
           | Some (m, metadata, reads) \<Rightarrow>
               sum_bind (validate_private_metadata uid False path m)
                 (\<lambda>_. read_config_bytes metadata reads path)))"

text \<open>\<open>load_config\<close> and \<open>load_private_config\<close> after the path is known: read, decode and parse.\<close>

definition load_bytes ::
  "(nat list \<Rightarrow> decoded) \<Rightarrow> (string \<Rightarrow> string option) \<Rightarrow> string \<Rightarrow> nat list parsed \<Rightarrow> monitor_config parsed" where
  "load_bytes decode place path content = sum_bind content (\<lambda>bytes. parse_config_bytes place path (decode bytes))"

section \<open>What is read\<close>

text \<open>A file with content \<open>b\<close>: every read returns a part of what is left, empty only at the end.\<close>

definition delivers :: "reads \<Rightarrow> nat list \<Rightarrow> bool" where
  "delivers reads b \<longleftrightarrow>
    (\<forall>pos n. 0 < n \<longrightarrow> (\<exists>k \<le> n. reads pos n = Some (take k (drop pos b)) \<and> (pos < length b \<longrightarrow> 0 < k)))"

lemma read_loop_bounded: "read_loop reads path content = Inr result \<Longrightarrow> length result \<le> config_max_bytes"
proof (induction reads path content rule: read_loop.induct)
  case (1 reads path content)
  show ?case
  proof (cases "config_max_bytes < length content")
    case False
    then show ?thesis using 1
      by (subst (asm) read_loop.simps)
         (auto simp: read_loop.simps [of reads path content] split: option.splits list.splits)
  qed (use "1.prems" in \<open>simp add: read_loop.simps [of reads path content]\<close>)
qed

lemma read_loop_delivers:
  assumes "delivers reads b" "content = take (length content) b"
  shows "read_loop reads path content =
    (if length b \<le> config_max_bytes then Inr b else refuse (limit_message path))"
  using assms(2)
proof (induction "config_max_bytes + 1 - length content" arbitrary: content rule: less_induct)
  case less
  have le: "length content \<le> length b" using less.prems by (metis length_take min.cobounded1)
  show ?case
  proof (cases "config_max_bytes < length content")
    case True
    then show ?thesis using le by (simp add: read_loop.simps [of reads path content])
  next
    case False
    define n where "n = min 65536 (config_max_bytes + 1 - length content)"
    have "0 < n" using False by (simp add: n_def)
    then obtain k where k: "k \<le> n" "reads (length content) n = Some (take k (drop (length content) b))"
      "length content < length b \<longrightarrow> 0 < k"
      using assms(1) unfolding delivers_def by blast
    show ?thesis
    proof (cases "length content < length b")
      case True
      define chunk where "chunk = take k (drop (length content) b)"
      have ne: "chunk \<noteq> []" using True k(3) by (simp add: chunk_def)
      then obtain c cs where c: "chunk = c # cs" by (cases chunk) auto
      have step: "read_loop reads path content = read_loop reads path (content @ chunk)"
        using False k(2) unfolding read_loop.simps [of reads path content] n_def [symmetric]
        by (simp add: chunk_def [symmetric] c)
      have "content @ chunk = take (length content + k) b"
        using less.prems by (simp add: chunk_def take_add)
      then have pre: "content @ chunk = take (length (content @ chunk)) b"
        by (metis length_take min.absorb_iff2 min_def nat_le_linear take_all_iff)
      have "config_max_bytes + 1 - length (content @ chunk) < config_max_bytes + 1 - length content"
        using ne False by (cases chunk) simp_all
      from less.hyps [OF this pre] show ?thesis unfolding step .
    next
      case end_of_file: False
      then have "content = b" using less.prems le by (metis le_antisym not_less take_all)
      then show ?thesis using False k(2) unfolding read_loop.simps [of reads path content] n_def [symmetric]
        by simp
    qed
  qed
qed

text \<open>However the system cuts the file into reads, reading a regular configuration file returns its
  content when that is within the limit and an error otherwise.\<close>

lemma reads_whole_file:
  assumes "delivers reads b" "s_isreg (st_mode m)" "st_size m \<le> int config_max_bytes"
  shows "read_config_bytes (Some m) reads path =
    (if length b \<le> config_max_bytes then Inr b else refuse (limit_message path))"
  using read_loop_delivers [OF assms(1), of "[]" path] assms(2,3)
  by (simp add: read_config_bytes_def guard_def)

lemma reads_whole_file_witness:
  "read_config_bytes (Some \<lparr>st_mode = 33152, st_uid = 1000, st_size = 3\<rparr>)
     (\<lambda>pos n. Some (take (min 2 n) (drop pos [123, 32, 125]))) ''mocop.json'' = Inr [123, 32, 125]"
proof -
  have d: "delivers (\<lambda>pos n. Some (take (min 2 n) (drop pos [123, 32, 125]))) [123, 32, 125]"
    unfolding delivers_def
  proof (intro allI impI)
    fix pos n :: nat
    assume "0 < n"
    then show "\<exists>k \<le> n. Some (take (min 2 n) (drop pos [123, 32, 125])) = Some (take k (drop pos [123, 32, 125 :: nat]))
        \<and> (pos < length [123, 32, 125 :: nat] \<longrightarrow> 0 < k)"
      by (intro exI [of _ "min 2 n"]) simp
  qed
  have r: "s_isreg (st_mode \<lparr>st_mode = 33152, st_uid = 1000, st_size = 3\<rparr>)" by (simp add: s_isreg_def)
  from reads_whole_file [OF d r] show ?thesis by (simp add: config_max_bytes_def)
qed

text \<open>C37. A managed configuration is only read through a directory the user owns and nobody else may
  write, from the regular file of that name in this very directory, which the user owns and nobody else
  may access; what is returned is its content as read, within the limit.\<close>

theorem private_read_guarded:
  assumes "read_private_config_path uid open_dir parent_path name path = Inr content"
  shows "\<exists>parent m metadata reads.
    open_dir parent_path = Some parent \<and> od_open parent name = Some (m, metadata, reads)
    \<and> s_isdir (st_mode (od_metadata parent)) \<and> st_uid (od_metadata parent) = uid
    \<and> st_mode (od_metadata parent) AND 18 = 0
    \<and> s_isreg (st_mode m) \<and> st_uid m = uid \<and> st_mode m AND 63 = 0
    \<and> read_config_bytes metadata reads path = Inr content
    \<and> length content \<le> config_max_bytes"
proof -
  obtain p m metadata reads where pm: "open_dir parent_path = Some p" "od_open p name = Some (m, metadata, reads)"
    "validate_private_metadata uid True parent_path (od_metadata p) = Inr ()"
    "validate_private_metadata uid False path m = Inr ()"
    "read_config_bytes metadata reads path = Inr content"
    using assms by (auto simp: read_private_config_path_def sum_bind_Inr split: option.splits prod.splits)
  have "length content \<le> config_max_bytes"
    using pm(5) read_loop_bounded by (auto simp: read_config_bytes_def split: option.splits)
  then show ?thesis using pm by (auto simp: validate_private_metadata_def)
qed

text \<open>A directory with one private file.\<close>

definition example_directory :: open_directory where
  "example_directory = \<lparr>od_metadata = \<lparr>st_mode = 16832, st_uid = 1000, st_size = 64\<rparr>,
     od_open = (\<lambda>name. if name = ''m'' then
       Some (\<lparr>st_mode = 33152, st_uid = 1000, st_size = 2\<rparr>, Some \<lparr>st_mode = 33152, st_uid = 1000, st_size = 2\<rparr>,
         \<lambda>pos n. Some (take n (drop pos [123, 125]))) else None)\<rparr>"

theorem private_read_guarded_witness:
  "read_private_config_path 1000 (\<lambda>_. Some example_directory) ''c'' ''m'' ''c/m'' = Inr [123, 125]
    \<and> st_uid (od_metadata example_directory) = 1000 \<and> st_mode (od_metadata example_directory) AND 18 = 0"
proof -
  have run: "read_private_config_path 1000 (\<lambda>_. Some example_directory) ''c'' ''m'' ''c/m'' = Inr [123, 125]"
    by (simp add: read_private_config_path_def validate_private_metadata_def read_config_bytes_def guard_def
        example_directory_def s_isdir_def s_isreg_def config_max_bytes_def read_loop.simps [of _ _ "[]"]
        read_loop.simps [of _ _ "[123, 125]"])
  from private_read_guarded [OF this] run show ?thesis by auto
qed

end
