(* ===== verification/Crc32.thy ===== *)
theory Crc32
  imports PyText "HOL-Library.Word"
begin

unbundle bit_operations_syntax

text \<open>
  \<open>zlib.crc32\<close> on the UTF-8 encoding of a text of code points below 256: the reflected polynomial
  \<open>0xEDB88320\<close>, all bits set at the start and inverted at the end, in 32-bit words.
\<close>

definition utf8 :: "string \<Rightarrow> nat list" where
  "utf8 s = concat (map (\<lambda>c. let n = of_char c :: nat in
     if n < 128 then [n] else [192 + n div 64, 128 + n mod 64]) s)"

definition crc_shift :: "32 word \<Rightarrow> 32 word" where
  "crc_shift w = (if bit w 0 then drop_bit 1 w XOR 0xEDB88320 else drop_bit 1 w)"

definition crc_byte :: "nat \<Rightarrow> 32 word \<Rightarrow> 32 word" where
  "crc_byte b w =
    crc_shift (crc_shift (crc_shift (crc_shift (crc_shift (crc_shift (crc_shift (crc_shift
      (w XOR of_nat b))))))))"

definition crc32 :: "nat list \<Rightarrow> 32 word" where
  "crc32 bytes = fold crc_byte bytes 0xFFFFFFFF XOR 0xFFFFFFFF"

text \<open>The check value of the algorithm: the digits 1 to 9.\<close>

lemma crc32_check: "crc32 (utf8 ''123456789'') = 0xCBF43926"
  by (simp add: crc32_def utf8_def crc_byte_def crc_shift_def of_char_def)

text \<open>The value as a fraction of the largest word.\<close>

definition crc_unit :: "string \<Rightarrow> rat" where
  "crc_unit s = of_nat (unat (crc32 (utf8 s))) / 4294967295"

lemma crc_unit_nonneg: "0 \<le> crc_unit s"
  unfolding crc_unit_def by (intro divide_nonneg_pos of_nat_0_le_iff) simp

lemma crc_unit_le_1: "crc_unit s \<le> 1"
proof -
  have "unat (crc32 (utf8 s)) < 2 ^ 32" using unsigned_less [of "crc32 (utf8 s)"] by simp
  then have "(of_nat (unat (crc32 (utf8 s))) :: rat) \<le> of_nat 4294967295"
    by (subst of_nat_le_iff) simp
  then show ?thesis by (simp add: crc_unit_def)
qed

end
