(* ===== verification/Scheduler.thy ===== *)
theory Scheduler
  imports Monitor_Config Crc32 Models
begin

text \<open>
  The schedule of the probes (\<open>service_scheduler.py\<close>): manual requests, failure backoff with its
  deterministic jitter, hot configuration changes and the synchronous cycle \<open>poll_once\<close>. The calls
  the scheduler makes on the state store and the probe are a list of values in the order they are
  made; what it reads from them (the poll interval, the incarnation of a host) and the clock
  readings are arguments.
\<close>

section \<open>State\<close>

datatype external_call =
    Set_Hosts "string list"
  | Set_Host_Groups "(string \<times> string) list"
  | Set_Topology "topology option"
  | Reconfigure monitor_config "string list"
  | Set_Collector_Error "string option"
  | Begin_Poll "string list"
  | Apply probe_result "rat option" "rat option" "nat option"
  | Record_Poll_Cycle rat
  | Reschedule_Retry string rat
  | Retain_Hosts "string list"

record discovery_snapshot =
  ds_hosts :: "string list"
  ds_host_groups :: "(string \<times> string) list"
  ds_topology :: "topology option"

text \<open>Sets of hosts are lists; \<open>sd_last_manual\<close> holds the times of accepted manual requests.\<close>

record scheduler =
  sd_config :: monitor_config
  sd_generation :: nat
  sd_discovered :: "string list"
  sd_failure_counts :: "(string, int) dict"
  sd_next_probe_at :: "(string, rat) dict"
  sd_backoff_policies :: "(string, rat \<times> rat) dict"
  sd_wakeup :: bool
  sd_runtime_hosts :: "string list"
  sd_runtime_in_flight :: "string list"
  sd_manual_requests :: "string list"
  sd_last_manual :: "(string, rat) dict"

definition new_scheduler :: "monitor_config \<Rightarrow> scheduler" where
  "new_scheduler config =
    \<lparr>sd_config = config, sd_generation = 0, sd_discovered = [], sd_failure_counts = [],
     sd_next_probe_at = [], sd_backoff_policies = [], sd_wakeup = False, sd_runtime_hosts = [],
     sd_runtime_in_flight = [], sd_manual_requests = [], sd_last_manual = []\<rparr>"

definition intersection_update :: "string list \<Rightarrow> string list \<Rightarrow> string list" where
  "intersection_update xs keep = filter (\<lambda>x. x \<in> set keep) xs"

section \<open>Manual requests\<close>

datatype probe_reply = Unknown_Host | In_Progress | Queued | Rate_Limited rat

definition reply_to_dict :: "string \<Rightarrow> probe_reply \<Rightarrow> obj" where
  "reply_to_dict host reply =
    (case reply of
       Unknown_Host \<Rightarrow> [(''status'', PStr ''unknown_host''), (''accepted'', PBool False), (''host'', PStr host)]
     | In_Progress \<Rightarrow> [(''status'', PStr ''in_progress''), (''accepted'', PBool False), (''host'', PStr host)]
     | Queued \<Rightarrow> [(''status'', PStr ''queued''), (''accepted'', PBool True), (''host'', PStr host)]
     | Rate_Limited t \<Rightarrow> [(''status'', PStr ''rate_limited''), (''accepted'', PBool False),
         (''host'', PStr host), (''retryAfterSeconds'', PFloat t)])"

definition request_probe :: "rat \<Rightarrow> string \<Rightarrow> scheduler \<Rightarrow> probe_reply \<times> scheduler" where
  "request_probe now host s =
    (let cooldown = mc_manual_probe_cooldown_seconds (sd_config s) in
     if host \<notin> set (sd_runtime_hosts s) then (Unknown_Host, s)
     else if host \<in> set (sd_runtime_in_flight s) then (In_Progress, s)
     else if host \<in> set (sd_manual_requests s) then (Queued, s)
     else
       (case dget (sd_last_manual s) host of
          Some t \<Rightarrow>
            if now - t < cooldown then (Rate_Limited (round_to 2 (cooldown - (now - t))), s)
            else (Queued, s\<lparr>sd_manual_requests := host # sd_manual_requests s,
                            sd_last_manual := dset (sd_last_manual s) host now, sd_wakeup := True\<rparr>)
        | None \<Rightarrow> (Queued, s\<lparr>sd_manual_requests := host # sd_manual_requests s,
                            sd_last_manual := dset (sd_last_manual s) host now, sd_wakeup := True\<rparr>)))"

section \<open>Backoff\<close>

definition max_failure_backoff :: rat where "max_failure_backoff = 60"

definition power_of_two :: "int \<Rightarrow> rat" where
  "power_of_two k = (if 0 \<le> k then 2 ^ nat k else 1 / 2 ^ nat (- k))"

definition backoff_delay :: "rat \<Rightarrow> int \<Rightarrow> string \<Rightarrow> rat \<Rightarrow> rat" where
  "backoff_delay interval failures host jitter_pct =
    (let multiplier = power_of_two (min (failures - 1) 10);
         base_delay = min max_failure_backoff (interval * multiplier)
     in if jitter_pct \<le> 0 then base_delay
        else (let jitter_unit = crc_unit (host @ [CHR 0x00] @ int_str failures)
              in base_delay * (1 - jitter_pct / 100 * jitter_unit)))"

definition host_poll_interval :: "rat \<Rightarrow> string \<Rightarrow> monitor_config \<Rightarrow> rat" where
  "host_poll_interval store_interval host config =
    (case Option.bind (host_override_of config host) ho_poll_interval_seconds of
       Some i \<Rightarrow> i | None \<Rightarrow> store_interval)"

text \<open>\<open>_rebase_failure_backoff\<close>: one host with its failures, then all of them.\<close>

definition rebase_host ::
  "rat \<Rightarrow> rat \<Rightarrow> monitor_config \<Rightarrow> string \<times> int \<Rightarrow> scheduler \<times> external_call list \<Rightarrow>
   scheduler \<times> external_call list" where
  "rebase_host store_interval now config entry acc =
    (let (host, failures) = entry; (s, calls) = acc;
         current_interval = host_poll_interval store_interval host config;
         current_policy = (current_interval, mc_retry_jitter_pct config)
     in case dget (sd_next_probe_at s) host of
          None \<Rightarrow> (s, calls)
        | Some previous_deadline \<Rightarrow>
            (let previous_policy = dget_or current_policy (sd_backoff_policies s) host in
             if current_policy = previous_policy then (s, calls)
             else
               (let previous_delay = backoff_delay (fst previous_policy) failures host (snd previous_policy);
                    failed_at = previous_deadline - previous_delay;
                    new_deadline = failed_at
                      + backoff_delay current_interval failures host (mc_retry_jitter_pct config)
                in (s\<lparr>sd_next_probe_at := dset (sd_next_probe_at s) host new_deadline,
                      sd_backoff_policies := dset (sd_backoff_policies s) host current_policy\<rparr>,
                    calls @ [Reschedule_Retry host (max 0 (new_deadline - now))]))))"

definition rebase_failure_backoff ::
  "rat \<Rightarrow> rat \<Rightarrow> monitor_config \<Rightarrow> scheduler \<Rightarrow> scheduler \<times> external_call list" where
  "rebase_failure_backoff store_interval now config s =
    fold (rebase_host store_interval now config) (sd_failure_counts s) (s, [])"

section \<open>Configuration changes\<close>

definition apply_discovery_metadata :: "discovery_snapshot \<Rightarrow> external_call list" where
  "apply_discovery_metadata d = [Set_Host_Groups (ds_host_groups d), Set_Topology (ds_topology d)]"

text \<open>\<open>update_config\<close>; \<open>discovery\<close> is \<open>None\<close> when the discovery raised.\<close>

definition update_config ::
  "monitor_config \<Rightarrow> discovery_snapshot option \<Rightarrow> scheduler \<Rightarrow> scheduler \<times> external_call list" where
  "update_config config discovery s =
    (let hosts = filter (\<lambda>h. h \<notin> set (mc_exclude_hosts config))
           (case discovery of Some d \<Rightarrow> ds_hosts d | None \<Rightarrow> sd_discovered s)
     in (s\<lparr>sd_discovered := hosts,
           sd_runtime_hosts := intersection_update (sd_runtime_hosts s) hosts,
           sd_manual_requests := intersection_update (sd_manual_requests s) hosts,
           sd_config := config, sd_generation := sd_generation s + 1, sd_wakeup := True\<rparr>,
         [Reconfigure config hosts]
         @ (case discovery of Some d \<Rightarrow> apply_discovery_metadata d | None \<Rightarrow> [])))"

definition shutdown_timeout_seconds :: "scheduler \<Rightarrow> rat" where
  "shutdown_timeout_seconds s =
    foldl max (mc_probe_timeout_seconds (sd_config s))
      (List.map_filter (\<lambda>(_, ov). ho_probe_timeout_seconds ov) (mc_host_overrides (sd_config s))) + 1"

definition keep_hosts :: "string list \<Rightarrow> (string, 'a) dict \<Rightarrow> (string, 'a) dict" where
  "keep_hosts hosts d = drestrict (\<lambda>h. h \<in> set hosts) d"

definition prune_schedules :: "string list \<Rightarrow> scheduler \<Rightarrow> scheduler" where
  "prune_schedules active s =
    s\<lparr>sd_failure_counts := keep_hosts active (sd_failure_counts s),
      sd_next_probe_at := keep_hosts active (sd_next_probe_at s),
      sd_backoff_policies := keep_hosts active (sd_backoff_policies s),
      sd_manual_requests := intersection_update (sd_manual_requests s) active,
      sd_last_manual := keep_hosts active (sd_last_manual s)\<rparr>"

section \<open>The synchronous cycle\<close>

definition discovery_failed_message :: string where
  "discovery_failed_message = ''SSH host discovery failed; check the monitor configuration''"

definition probe_failed_message :: string where
  "probe_failed_message =
    ''Resource collector encountered an internal probe failure; inspect service logs''"

text \<open>The first half of \<open>poll_once\<close>, up to the hosts that are due: the snapshot of the configuration
  and its generation is taken at the start, \<open>generation\<close> is what it finds under the lock.\<close>

definition poll_once_begin ::
  "monitor_config \<Rightarrow> nat \<Rightarrow> discovery_snapshot option \<Rightarrow> bool \<Rightarrow> rat \<Rightarrow> rat \<Rightarrow> scheduler \<Rightarrow>
   scheduler \<times> external_call list \<times> string list" where
  "poll_once_begin config generation discovery inventory_aware store_interval now s =
    (case discovery of
       None \<Rightarrow> (s, [Set_Collector_Error (Some discovery_failed_message)], [])
     | Some d \<Rightarrow>
         if generation \<noteq> sd_generation s then (s, [], [])
         else
           (let hosts = filter (\<lambda>h. h \<notin> set (mc_exclude_hosts config)) (ds_hosts d);
                s = s\<lparr>sd_discovered := hosts,
                      sd_failure_counts := keep_hosts hosts (sd_failure_counts s),
                      sd_next_probe_at := keep_hosts hosts (sd_next_probe_at s),
                      sd_backoff_policies := keep_hosts hosts (sd_backoff_policies s)\<rparr>;
                calls = (if inventory_aware then [Retain_Hosts hosts] else [])
                  @ [Set_Collector_Error None] @ apply_discovery_metadata d @ [Set_Hosts hosts];
                (s, rebased) = rebase_failure_backoff store_interval now config s
            in (s, calls @ rebased, filter (\<lambda>h. dget_or 0 (sd_next_probe_at s) h \<le> now) hosts)))"

text \<open>The submission: dropped when the configuration changed meanwhile; every due host is probed.\<close>

definition poll_once_submit ::
  "nat \<Rightarrow> (string \<Rightarrow> nat option) \<Rightarrow> string list \<Rightarrow> scheduler \<Rightarrow>
   external_call list \<times> (string \<times> nat option) list" where
  "poll_once_submit generation incarnation due s =
    (if due = [] \<or> generation \<noteq> sd_generation s then ([], [])
     else ([Begin_Poll due], map (\<lambda>h. (h, incarnation h)) due))"

text \<open>\<open>unexpected_probe_result\<close>; the observation time is that of the call.\<close>

definition unexpected_probe_result :: "string \<Rightarrow> string \<Rightarrow> probe_result" where
  "unexpected_probe_result observed_at host =
    \<lparr>pr_host = host, pr_status = ProbeError, pr_latency_ms = 0, pr_gpus = [],
     pr_message = Some ''Unexpected collector error'', pr_observed_at = observed_at,
     pr_system = None, pr_transport_retries = 0\<rparr>"

text \<open>A probe that failed: one more failure, and the delay until the next attempt.\<close>

definition note_failure ::
  "rat \<Rightarrow> rat \<Rightarrow> monitor_config \<Rightarrow> string \<Rightarrow> scheduler \<Rightarrow> scheduler \<times> rat" where
  "note_failure store_interval failed_at config host s =
    (let failures = dget_or 0 (sd_failure_counts s) host + 1;
         interval = host_poll_interval store_interval host config;
         delay = backoff_delay interval failures host (mc_retry_jitter_pct config)
     in (s\<lparr>sd_failure_counts := dset (sd_failure_counts s) host failures,
           sd_next_probe_at := dset (sd_next_probe_at s) host (failed_at + delay),
           sd_backoff_policies := dset (sd_backoff_policies s) host (interval, mc_retry_jitter_pct config)\<rparr>,
         delay))"

text \<open>One completed probe of \<open>poll_once\<close>: \<open>outcome\<close> is \<open>None\<close> when it raised, \<open>now\<close> the reading at the
  start of the cycle, \<open>completed_at\<close> the one after the failure.\<close>

definition poll_once_result ::
  "monitor_config \<Rightarrow> rat \<Rightarrow> rat \<Rightarrow> string \<Rightarrow> nat option \<Rightarrow> nat option \<Rightarrow> string \<Rightarrow> rat \<Rightarrow>
   probe_result option \<Rightarrow> scheduler \<Rightarrow> scheduler \<times> external_call list" where
  "poll_once_result config store_interval now host incarnation current_incarnation observed_at
     completed_at outcome s =
    (let errors = (if outcome = None then [Set_Collector_Error (Some probe_failed_message)] else []);
         result = (case outcome of Some r \<Rightarrow> r | None \<Rightarrow> unexpected_probe_result observed_at host)
     in if incarnation = None \<or> current_incarnation \<noteq> incarnation then (s, errors)
        else if pr_status result = Online then
          (s\<lparr>sd_failure_counts := dpop (sd_failure_counts s) host,
             sd_backoff_policies := dpop (sd_backoff_policies s) host,
             sd_next_probe_at :=
               (case Option.bind (host_override_of config host) ho_poll_interval_seconds of
                  Some i \<Rightarrow> dset (sd_next_probe_at s) host (now + i)
                | None \<Rightarrow> dpop (sd_next_probe_at s) host)\<rparr>,
           errors @ [Apply result None None incarnation])
        else
          (let (s, delay) = note_failure store_interval completed_at config host s
           in (s, errors @ [Apply result (Some delay) None incarnation])))"

section \<open>Bounds of the backoff\<close>

definition backoff_base :: "rat \<Rightarrow> int \<Rightarrow> rat" where
  "backoff_base interval failures = min max_failure_backoff (interval * 2 ^ nat (min (failures - 1) 10))"

lemma backoff_delay_eq:
  assumes "1 \<le> failures"
  shows "backoff_delay interval failures host jitter =
    backoff_base interval failures
      * (1 - max 0 jitter / 100 * crc_unit (host @ [CHR 0x00] @ int_str failures))"
  using assms by (simp add: backoff_delay_def backoff_base_def power_of_two_def Let_def)

lemma backoff_base_bounds:
  assumes "0 < interval" "1 \<le> failures"
  shows "0 < backoff_base interval failures" "backoff_base interval failures \<le> 60"
    "min 60 interval \<le> backoff_base interval failures"
proof -
  have "interval * 1 \<le> interval * 2 ^ nat (min (failures - 1) 10)"
    using assms by (intro mult_left_mono) simp_all
  then have le: "interval \<le> interval * 2 ^ nat (min (failures - 1) 10)" by simp
  then show "min 60 interval \<le> backoff_base interval failures" "0 < backoff_base interval failures"
    "backoff_base interval failures \<le> 60"
    using assms unfolding backoff_base_def max_failure_backoff_def by linarith+
qed

lemma backoff_base_mono:
  assumes "0 < interval" "1 \<le> m" "m \<le> n"
  shows "backoff_base interval m \<le> backoff_base interval n"
proof -
  have "(2::rat) ^ nat (min (m - 1) 10) \<le> 2 ^ nat (min (n - 1) 10)"
    using assms by (intro power_increasing) simp_all
  then have "interval * 2 ^ nat (min (m - 1) 10) \<le> interval * 2 ^ nat (min (n - 1) 10)"
    using assms(1) by (intro mult_left_mono) simp_all
  then show ?thesis unfolding backoff_base_def by linarith
qed

lemma backoff_bounds:
  assumes "0 < interval" "1 \<le> failures" "0 \<le> jitter" "jitter \<le> 50"
  shows "backoff_base interval failures / 2 \<le> backoff_delay interval failures host jitter"
    "backoff_delay interval failures host jitter \<le> backoff_base interval failures"
proof -
  let ?u = "crc_unit (host @ [CHR 0x00] @ int_str failures)"
  have b: "0 < backoff_base interval failures" using backoff_base_bounds assms by blast
  have "jitter / 100 * ?u \<le> 1 / 2 * 1"
    using assms crc_unit_nonneg crc_unit_le_1 by (intro mult_mono) simp_all
  moreover have "0 \<le> jitter / 100 * ?u" using assms crc_unit_nonneg by simp
  ultimately have "1 / 2 \<le> 1 - jitter / 100 * ?u" "1 - jitter / 100 * ?u \<le> 1" by simp_all
  then have "backoff_base interval failures * (1 / 2) \<le> backoff_base interval failures * (1 - jitter / 100 * ?u)"
    "backoff_base interval failures * (1 - jitter / 100 * ?u) \<le> backoff_base interval failures * 1"
    using b by (intro mult_left_mono; simp)+
  then show "backoff_base interval failures / 2 \<le> backoff_delay interval failures host jitter"
    "backoff_delay interval failures host jitter \<le> backoff_base interval failures"
    using assms by (simp_all add: backoff_delay_eq max_def)
qed

section \<open>Rebasing\<close>

text \<open>The deadline a host has after the configuration changed: the same failure, the new delay.\<close>

definition rebased_deadline ::
  "rat \<Rightarrow> monitor_config \<Rightarrow> (string, rat \<times> rat) dict \<Rightarrow> string \<Rightarrow> int \<Rightarrow> rat \<Rightarrow> rat" where
  "rebased_deadline store_interval config policies host failures deadline =
    (let current = (host_poll_interval store_interval host config, mc_retry_jitter_pct config);
         previous = dget_or current policies host
     in deadline - backoff_delay (fst previous) failures host (snd previous)
        + backoff_delay (fst current) failures host (snd current))"

definition rebased_call ::
  "rat \<Rightarrow> rat \<Rightarrow> monitor_config \<Rightarrow> scheduler \<Rightarrow> string \<times> int \<Rightarrow> external_call option" where
  "rebased_call store_interval now config s entry =
    (let (host, failures) = entry;
         current = (host_poll_interval store_interval host config, mc_retry_jitter_pct config)
     in case dget (sd_next_probe_at s) host of
          None \<Rightarrow> None
        | Some deadline \<Rightarrow>
            if dget_or current (sd_backoff_policies s) host = current then None
            else Some (Reschedule_Retry host (max 0
              (rebased_deadline store_interval config (sd_backoff_policies s) host failures deadline - now))))"

lemma rebase_host_dicts:
  assumes "rebase_host store_interval now config (host, failures) (s, calls) = (s', calls')"
  shows "dget (sd_next_probe_at s') h = (if h = host then
      map_option (rebased_deadline store_interval config (sd_backoff_policies s) host failures)
        (dget (sd_next_probe_at s) host) else dget (sd_next_probe_at s) h)"
    and "h \<noteq> host \<Longrightarrow> dget (sd_backoff_policies s') h = dget (sd_backoff_policies s) h"
    and "dget (sd_next_probe_at s) host \<noteq> None \<Longrightarrow>
      dget_or (host_poll_interval store_interval host config, mc_retry_jitter_pct config)
          (sd_backoff_policies s') host
        = (host_poll_interval store_interval host config, mc_retry_jitter_pct config)"
    and "calls' = calls @ (case rebased_call store_interval now config s (host, failures) of None \<Rightarrow> [] | Some c \<Rightarrow> [c])"
    and "sd_failure_counts s' = sd_failure_counts s"
  using assms
  by (auto simp: rebase_host_def Let_def rebased_deadline_def rebased_call_def dget_or_def
      split: option.splits if_splits)

lemma rebase_host_call_other:
  assumes "rebase_host store_interval now config (host, failures) (s, calls) = (s', calls')" "h \<noteq> host"
  shows "rebased_call store_interval now config s' (h, n) = rebased_call store_interval now config s (h, n)"
proof -
  have "dget (sd_next_probe_at s') h = dget (sd_next_probe_at s) h"
    "dget_or c (sd_backoff_policies s') h = dget_or c (sd_backoff_policies s) h" for c
    using rebase_host_dicts(1,2) [OF assms(1)] assms(2) by (simp_all add: dget_or_def)
  then show ?thesis by (simp only: rebased_call_def rebased_deadline_def Let_def prod.case)
qed

lemma map_filter_cong':
  "(\<And>x. x \<in> set xs \<Longrightarrow> f x = g x) \<Longrightarrow> List.map_filter f xs = List.map_filter g xs"
  by (induction xs) (auto simp: List.map_filter_simps split: option.split)

lemma rebase_all:
  assumes "wf_dict entries"
  shows "case fold (rebase_host store_interval now config) entries (s, calls) of (s', calls') \<Rightarrow>
    (\<forall>h. dget (sd_next_probe_at s') h = (case dget entries h of
        None \<Rightarrow> dget (sd_next_probe_at s) h
      | Some n \<Rightarrow> map_option (rebased_deadline store_interval config (sd_backoff_policies s) h n)
          (dget (sd_next_probe_at s) h)))
    \<and> calls' = calls @ List.map_filter (rebased_call store_interval now config s) entries
    \<and> sd_failure_counts s' = sd_failure_counts s
    \<and> (\<forall>h. dget entries h = None \<longrightarrow> dget (sd_backoff_policies s') h = dget (sd_backoff_policies s) h)
    \<and> (\<forall>h n. (h, n) \<in> set entries \<longrightarrow> rebased_call store_interval now config s' (h, n) = None)"
  using assms
proof (induction entries arbitrary: s calls)
  case Nil
  then show ?case by (simp add: List.map_filter_def)
next
  case (Cons entry entries)
  obtain host n where e: "entry = (host, n)" by fastforce
  obtain s1 calls1 where one: "rebase_host store_interval now config (host, n) (s, calls) = (s1, calls1)"
    by fastforce
  obtain s' calls' where all: "fold (rebase_host store_interval now config) entries (s1, calls1) = (s', calls')"
    by fastforce
  have wf: "wf_dict entries" and new: "host \<notin> fst ` set entries" using Cons.prems by (auto simp: e)
  note IH = Cons.IH [OF wf, of s1 calls1, unfolded all prod.case]
  note D = rebase_host_dicts [OF one]
  have absent: "dget entries host = None" using new by (simp add: dget_None_iff)
  have cong: "rebased_call store_interval now config s1 x = rebased_call store_interval now config s x"
    if "x \<in> set entries" for x
  proof (cases x)
    case (Pair h m)
    then have "h \<noteq> host" using that new by force
    then show ?thesis unfolding Pair by (rule rebase_host_call_other [OF one])
  qed
  have calls: "List.map_filter (rebased_call store_interval now config s1) entries
      = List.map_filter (rebased_call store_interval now config s) entries"
    using cong by (rule map_filter_cong')
  have "dget (sd_next_probe_at s') h = (case dget (entry # entries) h of
        None \<Rightarrow> dget (sd_next_probe_at s) h
      | Some n \<Rightarrow> map_option (rebased_deadline store_interval config (sd_backoff_policies s) h n)
          (dget (sd_next_probe_at s) h))" for h
  proof (cases "h = host")
    case True
    then show ?thesis using IH D(1) [of h] absent by (simp add: e)
  next
    case False
    have "rebased_deadline store_interval config (sd_backoff_policies s1) h
        = rebased_deadline store_interval config (sd_backoff_policies s) h"
      using D(2) [OF False] by (simp add: rebased_deadline_def dget_or_def fun_eq_iff)
    then show ?thesis using IH D(1) [of h] False by (simp add: e split: option.split)
  qed
  moreover have "calls' = calls @ List.map_filter (rebased_call store_interval now config s) (entry # entries)"
    using IH D(4) unfolding calls by (simp add: e List.map_filter_simps split: option.split)
  moreover have "rebased_call store_interval now config s' (host, n) = None"
  proof -
    have "dget (sd_next_probe_at s') host = dget (sd_next_probe_at s1) host"
      "dget (sd_backoff_policies s') host = dget (sd_backoff_policies s1) host"
      using IH absent by auto
    then show ?thesis
      using D(1) [of host] D(3)
      by (cases "dget (sd_next_probe_at s) host") (simp_all add: rebased_call_def dget_or_def Let_def)
  qed
  moreover have "dget (sd_backoff_policies s') h = dget (sd_backoff_policies s) h"
    if "dget (entry # entries) h = None" for h
    using that IH D(2) [of h] by (auto simp: e split: if_splits)
  ultimately show ?case using IH D(5) one all by (auto simp: e)
qed

section \<open>Properties\<close>

text \<open>C11. The retry backoff stays in its bounds for every configuration the loader accepts (a positive
  interval, a jitter of at most 50 percent): the delay is at least half of its base and at most the
  base; the base is at least the interval (or 60 seconds), at most 60 seconds, and never shrinks as
  failures accumulate.\<close>

theorem backoff_within_bounds:
  assumes "0 < interval" "1 \<le> failures" "0 \<le> jitter" "jitter \<le> 50" "failures \<le> later"
  shows "0 < backoff_delay interval failures host jitter
    \<and> backoff_base interval failures / 2 \<le> backoff_delay interval failures host jitter
    \<and> backoff_delay interval failures host jitter \<le> backoff_base interval failures
    \<and> min 60 interval \<le> backoff_base interval failures
    \<and> backoff_base interval failures \<le> backoff_base interval later
    \<and> backoff_base interval later \<le> 60"
proof -
  note b = backoff_base_bounds [OF assms(1,2)] and d = backoff_bounds [OF assms(1-4), of host]
  have "0 < backoff_delay interval failures host jitter" using b(1) d(1) by simp
  moreover have "1 \<le> later" using assms by simp
  ultimately show ?thesis
    using b d backoff_base_mono [OF assms(1,2,5)] backoff_base_bounds(2) [OF assms(1)] by blast
qed

theorem backoff_within_bounds_witness:
  "backoff_delay 5 3 ''gpu-1'' 15 \<le> backoff_base 5 3 \<and> backoff_base 5 3 = 20"
proof -
  have "backoff_base 5 3 = 20" by code_simp
  with backoff_within_bounds [of 5 3 15 3 "''gpu-1''"] show ?thesis by simp
qed

text \<open>A change of cadence or jitter rebases every pending retry on the failure it follows: the new
  deadline of a failing host is that failure plus the delay of the current policy, deadlines of
  other hosts and the failure counts stay, exactly the hosts whose policy changed are rescheduled
  in the store, and doing it again changes nothing more.\<close>

lemma rebase_keeps_failure_instants:
  assumes "wf_dict (sd_failure_counts s)"
    and "rebase_failure_backoff store_interval now config s = (s', calls)"
  shows "(\<forall>h. dget (sd_next_probe_at s') h = (case dget (sd_failure_counts s) h of
        None \<Rightarrow> dget (sd_next_probe_at s) h
      | Some n \<Rightarrow> map_option (rebased_deadline store_interval config (sd_backoff_policies s) h n)
          (dget (sd_next_probe_at s) h)))
    \<and> sd_failure_counts s' = sd_failure_counts s
    \<and> calls = List.map_filter (rebased_call store_interval now config s) (sd_failure_counts s)
    \<and> snd (rebase_failure_backoff store_interval now config s') = []"
proof -
  note all = rebase_all [OF assms(1), where store_interval = store_interval and now = now and config = config
      and s = s and calls = "[]",
      unfolded assms(2) [unfolded rebase_failure_backoff_def] prod.case]
  have counts: "sd_failure_counts s' = sd_failure_counts s" using all by blast
  have "\<forall>x \<in> set (sd_failure_counts s). rebased_call store_interval now config s' x = None"
    using all by auto
  then have "List.map_filter (rebased_call store_interval now config s') (sd_failure_counts s) = []"
    by (auto simp: List.map_filter_def filter_empty_conv)
  moreover obtain s2 calls2 where "fold (rebase_host store_interval now config) (sd_failure_counts s) (s', [])
      = (s2, calls2)" by fastforce
  ultimately have "snd (rebase_failure_backoff store_interval now config s') = []"
    using rebase_all [OF assms(1), where store_interval = store_interval and now = now and config = config
      and s = s' and calls = "[]"]
    by (simp add: rebase_failure_backoff_def counts)
  with all show ?thesis by simp
qed

definition example_failing :: scheduler where
  "example_failing = (new_scheduler (example_config 2))\<lparr>sd_failure_counts := [(''a'', 2)],
    sd_next_probe_at := [(''a'', 30)], sd_backoff_policies := [(''a'', (5, 0))]\<rparr>"

lemma rebase_keeps_failure_instants_witness:
  "dget (sd_next_probe_at (fst (rebase_failure_backoff 10 12
      ((example_config 2)\<lparr>mc_retry_jitter_pct := 0\<rparr>) example_failing))) ''a'' = Some 40"
proof -
  let ?c = "(example_config 2)\<lparr>mc_retry_jitter_pct := 0\<rparr>"
  obtain s' calls where r: "rebase_failure_backoff 10 12 ?c example_failing = (s', calls)" by fastforce
  have wf: "wf_dict (sd_failure_counts example_failing)" by (simp add: example_failing_def)
  have counts: "dget (sd_failure_counts example_failing) ''a'' = Some 2"
    "dget (sd_next_probe_at example_failing) ''a'' = Some 30" by (simp_all add: example_failing_def)
  have "rebased_deadline 10 ?c (sd_backoff_policies example_failing) ''a'' 2 30 = 40" by code_simp
  with rebase_keeps_failure_instants [OF wf r] counts show ?thesis by (simp add: r)
qed

text \<open>A manual request is bounded and leaves the periodic schedule alone: it is queued only for a
  monitored host that is neither being probed nor, within the cooldown, was queued before; a rate
  limited request waits at most the cooldown; and neither failure counts, deadlines nor the hosts
  in flight change.\<close>

lemma manual_request_bounded:
  assumes "request_probe now host s = (reply, s')"
  shows "(sd_manual_requests s' \<noteq> sd_manual_requests s \<longrightarrow> reply = Queued
        \<and> sd_manual_requests s' = host # sd_manual_requests s
        \<and> host \<in> set (sd_runtime_hosts s) \<and> host \<notin> set (sd_runtime_in_flight s)
        \<and> (\<forall>t. dget (sd_last_manual s) host = Some t \<longrightarrow>
              mc_manual_probe_cooldown_seconds (sd_config s) \<le> now - t)
        \<and> dget (sd_last_manual s') host = Some now)
    \<and> (reply = Queued \<longrightarrow> host \<in> set (sd_manual_requests s'))
    \<and> (\<forall>wait t. reply = Rate_Limited wait \<and> dget (sd_last_manual s) host = Some t \<and> t \<le> now \<longrightarrow>
          wait \<le> round_to 2 (mc_manual_probe_cooldown_seconds (sd_config s)))
    \<and> sd_failure_counts s' = sd_failure_counts s \<and> sd_next_probe_at s' = sd_next_probe_at s
    \<and> sd_runtime_in_flight s' = sd_runtime_in_flight s \<and> sd_runtime_hosts s' = sd_runtime_hosts s"
  using assms
  by (auto simp: request_probe_def Let_def not_less intro!: round_to_mono split: if_splits option.splits)

lemma manual_request_bounded_witness:
  "let s = (new_scheduler (example_config 2))\<lparr>sd_runtime_hosts := [''a'']\<rparr>; s' = snd (request_probe 100 ''a'' s)
   in ''a'' \<in> set (sd_manual_requests s') \<and> dget (sd_last_manual s') ''a'' = Some 100"
proof -
  let ?s = "(new_scheduler (example_config 2))\<lparr>sd_runtime_hosts := [''a'']\<rparr>"
  have "fst (request_probe 100 ''a'' ?s) = Queued" "sd_manual_requests ?s = []"
    by (simp_all add: request_probe_def new_scheduler_def)
  with manual_request_bounded [of 100 "''a''" ?s Queued "snd (request_probe 100 ''a'' ?s)"]
  show ?thesis by (simp add: prod_eq_iff Let_def) fastforce
qed

end
