(* ===== verification/Scheduler_Loop.thy ===== *)
theory Scheduler_Loop
  imports Scheduler
begin

text \<open>
  The scheduler thread \<open>MonitorService.run\<close>. One iteration is four steps, separated where the code
  reads the clock anew or takes a lock another thread may have held meanwhile: the snapshot of the
  configuration with the discovery, the new host set, the pacing with the completed probes, and the
  submission; a configuration that changed in between sends the loop back to the start. Futures
  are numbered in the order of their submission.
\<close>

section \<open>Local state of the loop\<close>

record scheduled_probe =
  sp_host :: string
  sp_started_at :: rat
  sp_batch_id :: nat
  sp_incarnation :: nat

record probe_batch =
  pb_started_at :: rat
  pb_remaining :: int

record loop =
  lp_in_flight :: "(nat, scheduled_probe) dict"
  lp_in_flight_hosts :: "string list"
  lp_batches :: "(nat, probe_batch) dict"
  lp_healthy_started_at :: "(string, rat) dict"
  lp_healthy_intervals :: "(string, rat) dict"
  lp_active_hosts :: "string list"
  lp_refresh_at :: rat
  lp_inventory_generation :: int
  lp_next_batch_id :: nat
  lp_last_completed_batch_id :: nat
  lp_discovery_pending :: bool
  lp_discovery_generation :: int
  lp_next_future :: nat

definition new_loop :: loop where
  "new_loop =
    \<lparr>lp_in_flight = [], lp_in_flight_hosts = [], lp_batches = [], lp_healthy_started_at = [],
     lp_healthy_intervals = [], lp_active_hosts = [], lp_refresh_at = 0,
     lp_inventory_generation = -1, lp_next_batch_id = 1, lp_last_completed_batch_id = 0,
     lp_discovery_pending = False, lp_discovery_generation = -1, lp_next_future = 0\<rparr>"

text \<open>What one iteration reads from outside: the state store, the clock, the discovery and the
  probes. \<open>wd_done\<close> gives, for a finished future, the clock at its completion and its result (\<open>None\<close>
  when it raised); \<open>wd_discovered\<close> the result of a finished background discovery, \<open>wd_discover\<close>
  of one run in the loop, \<open>None\<close> when it raised.\<close>

record world =
  wd_now :: rat
  wd_interval :: rat
  wd_incarnation :: "string \<Rightarrow> nat option"
  wd_done :: "nat \<Rightarrow> (rat \<times> probe_result option) option"
  wd_discovered :: "discovery_snapshot option option"
  wd_discover :: "discovery_snapshot option"
  wd_submit_at :: rat
  wd_submit_ok :: "string \<Rightarrow> bool"
  wd_inventory_aware :: bool
  wd_observed_at :: string

section \<open>Discovery\<close>

definition discovery_failed :: "rat \<Rightarrow> rat \<Rightarrow> loop \<Rightarrow> loop \<times> external_call list" where
  "discovery_failed now interval lp =
    (lp\<lparr>lp_refresh_at := now + min interval 5\<rparr>,
     [Set_Collector_Error (Some discovery_failed_message)])"

text \<open>The result of the background discovery, when there is one to collect.\<close>

definition collect_discovery ::
  "world \<Rightarrow> nat \<Rightarrow> loop \<Rightarrow> loop \<times> discovery_snapshot option \<times> external_call list" where
  "collect_discovery w generation lp =
    (case wd_discovered w of
       Some outcome \<Rightarrow>
         if \<not> lp_discovery_pending lp then (lp, None, [])
         else
           (let lp = lp\<lparr>lp_discovery_pending := False\<rparr> in
            if lp_discovery_generation lp \<noteq> int generation then (lp, None, [])
            else (case outcome of
                Some d \<Rightarrow> (lp\<lparr>lp_refresh_at := wd_now w + wd_interval w\<rparr>, Some d, [])
              | None \<Rightarrow> (let (lp, calls) = discovery_failed (wd_now w) (wd_interval w) lp in (lp, None, calls))))
     | None \<Rightarrow> (lp, None, []))"

definition start_discovery ::
  "world \<Rightarrow> monitor_config \<Rightarrow> nat \<Rightarrow> loop \<times> discovery_snapshot option \<times> external_call list \<Rightarrow>
   loop \<times> discovery_snapshot option \<times> external_call list" where
  "start_discovery w config generation acc =
    (let (lp, discovery, calls) = acc in
     if lp_discovery_pending lp \<or> wd_now w < lp_refresh_at lp then acc
     else if sh_mode (mc_ssh_discovery config) = ''topology'' then
       (lp\<lparr>lp_discovery_generation := int generation, lp_discovery_pending := True\<rparr>, discovery, calls)
     else (case wd_discover w of
         Some d \<Rightarrow> (lp\<lparr>lp_refresh_at := wd_now w + wd_interval w\<rparr>, Some d, calls)
       | None \<Rightarrow> (let (lp, failed) = discovery_failed (wd_now w) (wd_interval w) lp
                 in (lp, discovery, calls @ failed))))"

definition discover ::
  "world \<Rightarrow> monitor_config \<Rightarrow> nat \<Rightarrow> loop \<Rightarrow> loop \<times> discovery_snapshot option \<times> external_call list" where
  "discover w config generation lp =
    (let lp = (if int generation \<noteq> lp_inventory_generation lp
               then lp\<lparr>lp_refresh_at := 0, lp_inventory_generation := int generation\<rparr> else lp)
     in start_discovery w config generation (collect_discovery w generation lp))"

section \<open>The host set\<close>

definition sync_hosts ::
  "world \<Rightarrow> monitor_config \<Rightarrow> discovery_snapshot option \<Rightarrow> scheduler \<times> loop \<Rightarrow>
   scheduler \<times> loop \<times> external_call list" where
  "sync_hosts w config discovery st =
    (let (s, lp) = st;
         (s, calls) = (case discovery of
             None \<Rightarrow> (s, [])
           | Some d \<Rightarrow>
               (let hosts = filter (\<lambda>h. h \<notin> set (mc_exclude_hosts config)) (ds_hosts d)
                in (s\<lparr>sd_discovered := hosts\<rparr>,
                    [Set_Collector_Error None] @ apply_discovery_metadata d @ [Set_Hosts hosts])));
         active = sd_discovered s;
         previous = lp_active_hosts lp;
         s = s\<lparr>sd_runtime_hosts := active,
               sd_manual_requests := intersection_update (sd_manual_requests s) active\<rparr>;
         lp = lp\<lparr>lp_active_hosts := active\<rparr>
     in if set active = set previous then (s, lp, calls)
        else (prune_schedules active s,
              lp\<lparr>lp_healthy_started_at := keep_hosts active (lp_healthy_started_at lp),
                 lp_healthy_intervals := keep_hosts active (lp_healthy_intervals lp)\<rparr>,
              calls @ (if wd_inventory_aware w then [Retain_Hosts active] else [])))"

section \<open>Completed probes\<close>

text \<open>The batch of a completed probe: its duration when it is the last of the newest batch so far.\<close>

definition close_batch :: "rat \<Rightarrow> nat \<Rightarrow> loop \<Rightarrow> loop \<times> rat option" where
  "close_batch completed_at batch_id lp =
    (case dget (lp_batches lp) batch_id of
       None \<Rightarrow> (lp, None)
     | Some b \<Rightarrow>
         (let remaining = pb_remaining b - 1 in
          if remaining = 0 then
            (let lp' = lp\<lparr>lp_batches := dpop (lp_batches lp) batch_id\<rparr> in
             if lp_last_completed_batch_id lp < batch_id
             then (lp'\<lparr>lp_last_completed_batch_id := batch_id\<rparr>, Some (completed_at - pb_started_at b))
             else (lp', None))
          else (lp\<lparr>lp_batches := dset (lp_batches lp) batch_id (b\<lparr>pb_remaining := remaining\<rparr>)\<rparr>, None)))"

definition remove_host_entry :: "string \<Rightarrow> string list \<Rightarrow> string list" where
  "remove_host_entry host hosts = filter (\<lambda>h. h \<noteq> host) hosts"

text \<open>One completed future.\<close>

definition drain_one ::
  "world \<Rightarrow> nat \<Rightarrow> scheduler \<times> loop \<times> external_call list \<Rightarrow> scheduler \<times> loop \<times> external_call list" where
  "drain_one w future acc =
    (let (s, lp, calls) = acc in
     case (dget (lp_in_flight lp) future, wd_done w future) of
       (Some task, Some (completed_at, outcome)) \<Rightarrow>
         (let host = sp_host task;
              lp = lp\<lparr>lp_in_flight := dpop (lp_in_flight lp) future,
                      lp_in_flight_hosts := remove_host_entry host (lp_in_flight_hosts lp)\<rparr>;
              s = s\<lparr>sd_runtime_in_flight := remove_host_entry host (sd_runtime_in_flight s)\<rparr>;
              calls = calls @ (if outcome = None then [Set_Collector_Error (Some probe_failed_message)] else []);
              result = (case outcome of Some r \<Rightarrow> r | None \<Rightarrow> unexpected_probe_result (wd_observed_at w) host);
              (lp, duration) = close_batch completed_at (sp_batch_id task) lp
          in if host \<in> set (lp_active_hosts lp) \<and> wd_incarnation w host = Some (sp_incarnation task) then
               (if pr_status result = Online then
                  (let interval = host_poll_interval (wd_interval w) host (sd_config s)
                   in (s\<lparr>sd_failure_counts := dpop (sd_failure_counts s) host,
                         sd_backoff_policies := dpop (sd_backoff_policies s) host,
                         sd_next_probe_at := dset (sd_next_probe_at s) host
                           (max (sp_started_at task + interval) completed_at)\<rparr>,
                       lp\<lparr>lp_healthy_started_at := dset (lp_healthy_started_at lp) host (sp_started_at task),
                          lp_healthy_intervals := dset (lp_healthy_intervals lp) host interval\<rparr>,
                       calls @ [Apply result None duration (Some (sp_incarnation task))]))
                else
                  (let (s, delay) = note_failure (wd_interval w) completed_at (sd_config s) host s
                   in (s, lp\<lparr>lp_healthy_started_at := dpop (lp_healthy_started_at lp) host,
                             lp_healthy_intervals := dpop (lp_healthy_intervals lp) host\<rparr>,
                       calls @ [Apply result (Some delay) duration (Some (sp_incarnation task))])))
             else
               (s, lp, calls
                  @ (if wd_inventory_aware w then [Retain_Hosts (lp_active_hosts lp)] else [])
                  @ (case duration of Some d \<Rightarrow> [Record_Poll_Cycle d] | None \<Rightarrow> [])))
     | _ \<Rightarrow> acc)"

definition drain_completed ::
  "world \<Rightarrow> scheduler \<times> loop \<Rightarrow> scheduler \<times> loop \<times> external_call list" where
  "drain_completed w st =
    (let (s, lp) = st;
         completed = filter (\<lambda>f. wd_done w f \<noteq> None) (keys (lp_in_flight lp))
     in fold (drain_one w) completed (s, lp, []))"

section \<open>Pacing\<close>

definition manually_due :: "scheduler \<Rightarrow> loop \<Rightarrow> string list" where
  "manually_due s lp = filter (\<lambda>h. h \<in> set (lp_active_hosts lp) \<and> h \<notin> set (sd_runtime_in_flight s))
     (sd_manual_requests s)"

text \<open>A healthy host whose interval changed is paced from the start of its last probe.\<close>

definition repace ::
  "rat \<Rightarrow> monitor_config \<Rightarrow> string \<times> rat \<Rightarrow> scheduler \<times> loop \<Rightarrow> scheduler \<times> loop" where
  "repace store_interval config entry st =
    (let (host, started_at) = entry; (s, lp) = st;
         interval = host_poll_interval store_interval host config
     in if dget (sd_failure_counts s) host \<noteq> None \<or> host \<in> set (lp_in_flight_hosts lp)
           \<or> dget (lp_healthy_intervals lp) host = Some interval
        then st
        else (s\<lparr>sd_next_probe_at := dset (sd_next_probe_at s) host (started_at + interval)\<rparr>,
              lp\<lparr>lp_healthy_intervals := dset (lp_healthy_intervals lp) host interval\<rparr>))"

definition pace ::
  "world \<Rightarrow> monitor_config \<Rightarrow> scheduler \<times> loop \<Rightarrow> scheduler \<times> loop \<times> external_call list" where
  "pace w config st =
    (let (s, lp) = st;
         (s, rebased) = rebase_failure_backoff (wd_interval w) (wd_now w) config s;
         s = s\<lparr>sd_next_probe_at := foldl (\<lambda>d h. dset d h 0) (sd_next_probe_at s) (manually_due s lp)\<rparr>;
         (s, lp) = fold (repace (wd_interval w) config) (lp_healthy_started_at lp) (s, lp);
         (s, lp, drained) = drain_completed w (s, lp)
     in (s, lp, rebased @ drained))"

section \<open>Submission\<close>

definition due_entries :: "rat \<Rightarrow> scheduler \<Rightarrow> loop \<Rightarrow> (rat \<times> nat \<times> string) list" where
  "due_entries now s lp =
    filter (\<lambda>(at_time, order, host). host \<notin> set (lp_in_flight_hosts lp) \<and> at_time \<le> now)
      (map (\<lambda>(order, host). (dget_or 0 (sd_next_probe_at s) host, order, host))
        (enumerate 0 (lp_active_hosts lp)))"

text \<open>\<open>nsmallest\<close>.\<close>

definition due_hosts :: "nat \<Rightarrow> rat \<Rightarrow> scheduler \<Rightarrow> loop \<Rightarrow> string list" where
  "due_hosts workers now s lp = map (\<lambda>(at_time, order, host). host) (take workers (sort (due_entries now s lp)))"

text \<open>The submission of one host; \<open>False\<close> when the pool or the assertion on the incarnation raised.\<close>

definition submit_one ::
  "world \<Rightarrow> nat \<Rightarrow> string \<Rightarrow> scheduler \<times> loop \<times> bool \<Rightarrow> scheduler \<times> loop \<times> bool" where
  "submit_one w batch_id host acc =
    (let (s, lp, ok) = acc in
     if \<not> ok then acc
     else
       (let s = s\<lparr>sd_runtime_in_flight := List.insert host (sd_runtime_in_flight s),
                  sd_manual_requests := remove_host_entry host (sd_manual_requests s)\<rparr>
        in if \<not> wd_submit_ok w host then
             (s\<lparr>sd_runtime_in_flight := remove_host_entry host (sd_runtime_in_flight s)\<rparr>, lp, False)
           else
             (let lp = lp\<lparr>lp_in_flight_hosts := List.insert host (lp_in_flight_hosts lp)\<rparr> in
              case wd_incarnation w host of
                None \<Rightarrow> (s, lp, False)
              | Some incarnation \<Rightarrow>
                  (s, lp\<lparr>lp_in_flight := dset (lp_in_flight lp) (lp_next_future lp)
                            \<lparr>sp_host = host, sp_started_at = wd_submit_at w,
                             sp_batch_id = batch_id, sp_incarnation = incarnation\<rparr>,
                         lp_next_future := lp_next_future lp + 1\<rparr>, True))))"

definition submit ::
  "world \<Rightarrow> monitor_config \<Rightarrow> scheduler \<times> loop \<Rightarrow> scheduler \<times> loop \<times> external_call list \<times> bool" where
  "submit w config st =
    (let (s, lp) = st;
         available = mc_max_workers config - length (lp_in_flight lp);
         due = due_hosts available (wd_now w) s lp
     in if due = [] then (s, lp, [], True)
        else
          (let batch_id = lp_next_batch_id lp;
               lp = lp\<lparr>lp_next_batch_id := batch_id + 1,
                       lp_batches := dset (lp_batches lp) batch_id
                         \<lparr>pb_started_at = wd_submit_at w, pb_remaining = int (length due)\<rparr>\<rparr>;
               (s, lp, ok) = fold (submit_one w batch_id) due (s, lp, True)
           in (s, lp, [Begin_Poll due], ok)))"

section \<open>Waiting and the end\<close>

text \<open>The deadline the loop sleeps to: \<open>None\<close> is no deadline.\<close>

definition wait_until :: "monitor_config \<Rightarrow> scheduler \<Rightarrow> loop \<Rightarrow> rat option" where
  "wait_until config s lp =
    (let start = (if lp_discovery_pending lp then None else Some (lp_refresh_at lp));
         idle = filter (\<lambda>h. h \<notin> set (lp_in_flight_hosts lp)) (lp_active_hosts lp)
     in if length (lp_in_flight lp) < mc_max_workers config
        then foldl (\<lambda>m h. let d = dget_or 0 (sd_next_probe_at s) h in
               Some (case m of None \<Rightarrow> d | Some t \<Rightarrow> min t d)) start idle
        else start)"

definition finish_run :: "world \<Rightarrow> scheduler \<times> loop \<Rightarrow> scheduler \<times> loop \<times> external_call list" where
  "finish_run w st =
    (let (s, lp, calls) = drain_completed w st
     in (s\<lparr>sd_runtime_hosts := [], sd_runtime_in_flight := [], sd_manual_requests := []\<rparr>, lp, calls))"

section \<open>Interleaving with the other threads\<close>

datatype pc =
    At_Top
  | Discovered monitor_config nat "discovery_snapshot option" rat
  | Synced monitor_config nat rat
  | Paced monitor_config nat rat
  | Crashed
  | Stopped

text \<open>What the loader guarantees of a configuration and the host source of a discovery.\<close>

definition workers_ok :: "monitor_config \<Rightarrow> bool" where
  "workers_ok config \<longleftrightarrow> 1 \<le> mc_max_workers config \<and> mc_max_workers config \<le> 64"

definition discovery_ok :: "discovery_snapshot option \<Rightarrow> bool" where
  "discovery_ok d \<longleftrightarrow> (case d of None \<Rightarrow> True | Some d \<Rightarrow> distinct (ds_hosts d))"

definition world_ok :: "world \<Rightarrow> bool" where
  "world_ok w \<longleftrightarrow> discovery_ok (wd_discover w)
    \<and> (case wd_discovered w of None \<Rightarrow> True | Some d \<Rightarrow> discovery_ok d)"

text \<open>Requests and configuration changes of other threads happen between any two steps of the loop.\<close>

inductive run_step :: "pc \<times> scheduler \<times> loop \<Rightarrow> pc \<times> scheduler \<times> loop \<Rightarrow> bool" where
  manual_request: "request_probe now host s = (reply, s') \<Longrightarrow> run_step (pc, s, lp) (pc, s', lp)"
| config_update: "workers_ok config \<Longrightarrow> discovery_ok d \<Longrightarrow> update_config config d s = (s', calls) \<Longrightarrow>
    run_step (pc, s, lp) (pc, s', lp)"
| snapshot: "world_ok w \<Longrightarrow> discover w (sd_config s) (sd_generation s) lp = (lp', d, calls) \<Longrightarrow>
    run_step (At_Top, s, lp)
      (Discovered (sd_config s) (sd_generation s) d (wd_now w), s\<lparr>sd_wakeup := False\<rparr>, lp')"
| sync: "g = sd_generation s \<Longrightarrow> wd_now w = now \<Longrightarrow> sync_hosts w c d (s, lp) = (s', lp', calls) \<Longrightarrow>
    run_step (Discovered c g d now, s, lp) (Synced c g now, s', lp')"
| sync_stale: "g \<noteq> sd_generation s \<Longrightarrow> run_step (Discovered c g d now, s, lp) (At_Top, s, lp)"
| pacing: "wd_now w = now \<Longrightarrow> pace w c (s, lp) = (s', lp', calls) \<Longrightarrow>
    run_step (Synced c g now, s, lp) (Paced c g now, s', lp')"
| submission: "g = sd_generation s \<Longrightarrow> wd_now w = now \<Longrightarrow> submit w c (s, lp) = (s', lp', calls, ok) \<Longrightarrow>
    run_step (Paced c g now, s, lp) (if ok then At_Top else Crashed, s', lp')"
| submission_stale: "g \<noteq> sd_generation s \<Longrightarrow> run_step (Paced c g now, s, lp) (At_Top, s, lp)"
| stop: "finish_run w (s, lp) = (s', lp', calls) \<Longrightarrow> run_step (pc, s, lp) (Stopped, s', lp')"

inductive run_reachable :: "monitor_config \<Rightarrow> pc \<times> scheduler \<times> loop \<Rightarrow> bool" for config where
  run_start: "workers_ok config \<Longrightarrow> run_reachable config (At_Top, new_scheduler config, new_loop)"
| run_next: "run_reachable config x \<Longrightarrow> run_step x y \<Longrightarrow> run_reachable config y"

section \<open>Invariant\<close>

definition batch_tasks :: "loop \<Rightarrow> nat \<Rightarrow> nat" where
  "batch_tasks lp b = length (filter (\<lambda>e. sp_batch_id (snd e) = b) (lp_in_flight lp))"

definition flight_hosts :: "loop \<Rightarrow> string list" where
  "flight_hosts lp = map (\<lambda>e. sp_host (snd e)) (lp_in_flight lp)"

text \<open>\<open>extra b\<close> counts the probes of batch \<open>b\<close> that are still to be submitted.\<close>

definition loop_inv :: "(nat \<Rightarrow> nat) \<Rightarrow> scheduler \<Rightarrow> loop \<Rightarrow> bool" where
  "loop_inv extra s lp \<longleftrightarrow>
    wf_dict (lp_in_flight lp) \<and> wf_dict (lp_batches lp)
    \<and> distinct (flight_hosts lp) \<and> set (lp_in_flight_hosts lp) = set (flight_hosts lp)
    \<and> set (sd_runtime_in_flight s) = set (flight_hosts lp)
    \<and> (\<forall>f \<in> fst ` set (lp_in_flight lp). f < lp_next_future lp)
    \<and> (\<forall>b x. dget (lp_batches lp) b = Some x \<longrightarrow>
          pb_remaining x = int (batch_tasks lp b + extra b) \<and> 0 < pb_remaining x \<and> b < lp_next_batch_id lp)
    \<and> (\<forall>e \<in> set (lp_in_flight lp). dget (lp_batches lp) (sp_batch_id (snd e)) \<noteq> None)
    \<and> lp_last_completed_batch_id lp < lp_next_batch_id lp"

definition sched_inv :: "scheduler \<Rightarrow> bool" where
  "sched_inv s \<longleftrightarrow> set (sd_manual_requests s) \<subseteq> set (sd_runtime_hosts s)
    \<and> workers_ok (sd_config s) \<and> distinct (sd_discovered s)
    \<and> wf_dict (sd_failure_counts s) \<and> (\<forall>h n. dget (sd_failure_counts s) h = Some n \<longrightarrow> 1 \<le> n)"

subsection \<open>Removing and adding a task\<close>

lemma filter_dpop:
  assumes "wf_dict d" "dget d k = Some v"
  shows "length (filter P d) = length (filter P (dpop d k)) + (if P (k, v) then 1 else 0)"
  using assms
proof (induction d)
  case (Cons e d)
  obtain j u where e: "e = (j, u)" by fastforce
  show ?case
  proof (cases "j = k")
    case True
    then have "dpop d k = d" using Cons.prems(1) by (simp add: e delete_idem)
    then show ?thesis using Cons.prems True by (simp add: e)
  next
    case False
    then show ?thesis using Cons by (auto simp: e)
  qed
qed simp

lemma dset_fresh: "k \<notin> fst ` set d \<Longrightarrow> dset d k v = d @ [(k, v)]"
  by (induction d) auto

lemma map_dpop:
  assumes "wf_dict d" "dget d k = Some v" "distinct (map (\<lambda>e. f (snd e)) d)"
  shows "map (\<lambda>e. f (snd e)) (dpop d k) = filter (\<lambda>x. x \<noteq> f v) (map (\<lambda>e. f (snd e)) d)"
  using assms
proof (induction d)
  case (Cons e d)
  obtain j u where e: "e = (j, u)" by fastforce
  show ?case
  proof (cases "j = k")
    case True
    then have "dpop d k = d" using Cons.prems(1) by (simp add: e delete_idem)
    moreover have "filter (\<lambda>x. x \<noteq> f v) (map (\<lambda>e. f (snd e)) d) = map (\<lambda>e. f (snd e)) d"
      using Cons.prems True by (intro filter_True) (force simp: e)
    ultimately show ?thesis using Cons.prems True by (simp add: e)
  next
    case False
    then have "dget d k = Some v" using Cons.prems by (simp add: e)
    then have "f u \<noteq> f v" using Cons.prems(3) dget_mem [of d k v] by (force simp: e)
    with False Cons show ?thesis by (simp add: e)
  qed
qed simp

lemma close_batch_same:
  assumes "close_batch t b lp = (lp', duration)"
  shows "lp_in_flight lp' = lp_in_flight lp" "lp_in_flight_hosts lp' = lp_in_flight_hosts lp"
    "lp_next_future lp' = lp_next_future lp" "lp_next_batch_id lp' = lp_next_batch_id lp"
    "lp_active_hosts lp' = lp_active_hosts lp"
  using assms by (auto simp: close_batch_def Let_def split: option.splits if_splits)

lemma flight_remove:
  assumes inv: "loop_inv extra s lp" and task: "dget (lp_in_flight lp) f = Some task"
    and lp1: "lp1 = lp\<lparr>lp_in_flight := dpop (lp_in_flight lp) f,
      lp_in_flight_hosts := remove_host_entry (sp_host task) (lp_in_flight_hosts lp)\<rparr>"
    and s1: "sd_runtime_in_flight s1 = remove_host_entry (sp_host task) (sd_runtime_in_flight s)"
    and close: "close_batch t (sp_batch_id task) lp1 = (lp2, duration)"
  shows "loop_inv extra s1 lp2"
proof -
  note c = close_batch_same [OF close]
  have I: "wf_dict (lp_in_flight lp)" "wf_dict (lp_batches lp)" "distinct (flight_hosts lp)"
    "set (lp_in_flight_hosts lp) = set (flight_hosts lp)" "set (sd_runtime_in_flight s) = set (flight_hosts lp)"
    "\<And>b x. dget (lp_batches lp) b = Some x \<Longrightarrow>
      pb_remaining x = int (batch_tasks lp b + extra b) \<and> 0 < pb_remaining x \<and> b < lp_next_batch_id lp"
    "\<forall>e \<in> set (lp_in_flight lp). dget (lp_batches lp) (sp_batch_id (snd e)) \<noteq> None"
    "lp_last_completed_batch_id lp < lp_next_batch_id lp"
    "\<forall>f \<in> fst ` set (lp_in_flight lp). f < lp_next_future lp"
    using inv unfolding loop_inv_def by blast+
  have hosts: "flight_hosts lp2 = filter (\<lambda>h. h \<noteq> sp_host task) (flight_hosts lp)"
    using map_dpop [OF I(1) task I(3) [unfolded flight_hosts_def]] by (simp add: flight_hosts_def c lp1)
  have tasks: "batch_tasks lp b = batch_tasks lp2 b + (if sp_batch_id task = b then 1 else 0)" for b
    using filter_dpop [OF I(1) task, of "\<lambda>e. sp_batch_id (snd e) = b"]
    by (simp add: batch_tasks_def c lp1)
  let ?b = "sp_batch_id task"
  obtain x where x: "dget (lp_batches lp) ?b = Some x"
    using I(7) dget_mem [OF task] by fastforce
  have batches: "lp_batches lp2 = (if pb_remaining x - 1 = 0 then dpop (lp_batches lp) ?b
      else dset (lp_batches lp) ?b (x\<lparr>pb_remaining := pb_remaining x - 1\<rparr>))"
    and completed: "lp_last_completed_batch_id lp2 \<in> {lp_last_completed_batch_id lp, ?b}"
    using close x by (auto simp: close_batch_def Let_def lp1 split: if_splits)
  have none: "batch_tasks lp2 ?b = 0" if "pb_remaining x - 1 = 0"
    using I(6) [OF x] tasks [of ?b] that by simp
  have "dget (lp_batches lp2) (sp_batch_id (snd e)) \<noteq> None" if "e \<in> set (lp_in_flight lp2)" for e
  proof -
    have e: "e \<in> set (lp_in_flight lp)" using that subsetD [OF set_dpop] by (simp add: c lp1)
    have "sp_batch_id (snd e) \<noteq> ?b" if "pb_remaining x - 1 = 0"
      using none [OF that] \<open>e \<in> set (lp_in_flight lp2)\<close> by (auto simp: batch_tasks_def filter_empty_conv)
    then show ?thesis using I(7) e by (auto simp: batches)
  qed
  moreover have "pb_remaining y = int (batch_tasks lp2 b + extra b) \<and> 0 < pb_remaining y \<and> b < lp_next_batch_id lp2"
    if "dget (lp_batches lp2) b = Some y" for b y
    using that I(6) [of b] I(6) [OF x] tasks [of b] x
    by (auto simp: batches c lp1 split: if_splits)
  moreover have "lp_last_completed_batch_id lp2 < lp_next_batch_id lp2"
    using completed I(8) I(6) [OF x] by (auto simp: c lp1)
  moreover have "\<forall>f \<in> fst ` set (lp_in_flight lp2). f < lp_next_future lp2"
  proof -
    have "fst ` set (lp_in_flight lp2) = fst ` set (lp_in_flight lp) - {f}"
      "lp_next_future lp2 = lp_next_future lp" by (simp_all add: c lp1)
    with I(9) show ?thesis by (metis DiffD1)
  qed
  moreover have "wf_dict (lp_in_flight lp2)" "wf_dict (lp_batches lp2)" "distinct (flight_hosts lp2)"
    using I(1-3) by (simp_all add: c lp1 batches hosts)
  moreover have "set (lp_in_flight_hosts lp2) = set (flight_hosts lp2)"
    "set (sd_runtime_in_flight s1) = set (flight_hosts lp2)"
    using I(4,5) by (simp_all add: hosts s1 remove_host_entry_def c lp1)
  ultimately show ?thesis unfolding loop_inv_def by blast
qed


subsection \<open>The operations keep the invariant\<close>

lemma loop_inv_cong:
  assumes "loop_inv extra s lp"
    and "sd_runtime_in_flight s' = sd_runtime_in_flight s"
    and "lp_in_flight lp' = lp_in_flight lp" "lp_in_flight_hosts lp' = lp_in_flight_hosts lp"
    "lp_batches lp' = lp_batches lp" "lp_next_batch_id lp' = lp_next_batch_id lp"
    "lp_last_completed_batch_id lp' = lp_last_completed_batch_id lp"
    "lp_next_future lp' = lp_next_future lp"
  shows "loop_inv extra s' lp'"
  using assms(1) unfolding loop_inv_def flight_hosts_def batch_tasks_def assms(2-8) .

lemma note_failure_same:
  assumes "note_failure i t c h s = (s', delay)"
  shows "sd_runtime_in_flight s' = sd_runtime_in_flight s" "sd_runtime_hosts s' = sd_runtime_hosts s"
    "sd_manual_requests s' = sd_manual_requests s" "sd_config s' = sd_config s"
    "sd_discovered s' = sd_discovered s"
    "sd_failure_counts s' = dset (sd_failure_counts s) h (dget_or 0 (sd_failure_counts s) h + 1)"
  using assms by (auto simp: note_failure_def Let_def)

lemma failures_positive:
  assumes "\<forall>h n. dget d h = Some n \<longrightarrow> 1 \<le> (n :: int)"
  shows "\<forall>h n. dget (dset d k (dget_or 0 d k + 1)) h = Some n \<longrightarrow> 1 \<le> n"
proof -
  have "0 \<le> dget_or 0 d k" using assms by (fastforce simp: dget_or_def split: option.split)
  with assms show ?thesis by simp
qed

lemma drain_one_keeps:
  assumes "drain_one w f (s, lp, calls) = (s', lp', calls')"
    and "loop_inv extra s lp" "sched_inv s"
  shows "loop_inv extra s' lp' \<and> sched_inv s' \<and> length (lp_in_flight lp') \<le> length (lp_in_flight lp)"
proof (cases "dget (lp_in_flight lp) f = None \<or> wd_done w f = None")
  case True
  then have "drain_one w f (s, lp, calls) = (s, lp, calls)"
    by (auto simp: drain_one_def split: option.split)
  with assms show ?thesis by simp
next
  case False
  then obtain task t outcome where task: "dget (lp_in_flight lp) f = Some task"
    and done_: "wd_done w f = Some (t, outcome)" by auto
  define lp1 where "lp1 = lp\<lparr>lp_in_flight := dpop (lp_in_flight lp) f,
      lp_in_flight_hosts := remove_host_entry (sp_host task) (lp_in_flight_hosts lp)\<rparr>"
  define s1 where "s1 = s\<lparr>sd_runtime_in_flight := remove_host_entry (sp_host task) (sd_runtime_in_flight s)\<rparr>"
  obtain lp2 duration where close: "close_batch t (sp_batch_id task) lp1 = (lp2, duration)" by fastforce
  have inv2: "loop_inv extra s1 lp2"
    using flight_remove [OF assms(2) task lp1_def _ close] by (simp add: s1_def)
  have len: "length (lp_in_flight lp2) \<le> length (lp_in_flight lp)"
    using close_batch_same [OF close] length_delete_le [of f "lp_in_flight lp"] by (simp add: lp1_def)
  have s1: "sched_inv s1" using assms(3) by (simp add: sched_inv_def s1_def)
  let ?r = "case outcome of Some r \<Rightarrow> r | None \<Rightarrow> unexpected_probe_result (wd_observed_at w) (sp_host task)"
  obtain s3 delay where failed: "note_failure (wd_interval w) t (sd_config s1) (sp_host task) s1 = (s3, delay)"
    by fastforce
  have "sched_inv s3"
    using s1 failures_positive [of "sd_failure_counts s1"] note_failure_same [OF failed]
    unfolding sched_inv_def by simp
  moreover have "sched_inv (s1\<lparr>sd_failure_counts := dpop (sd_failure_counts s1) h,
      sd_backoff_policies := p, sd_next_probe_at := n\<rparr>)" for h p n
    using s1 by (simp add: sched_inv_def)
  moreover have "sd_runtime_in_flight s3 = sd_runtime_in_flight s1" by (rule note_failure_same [OF failed])
  moreover note body = assms(1) [unfolded drain_one_def Let_def prod.case task done_ option.case,
      folded lp1_def s1_def, unfolded close prod.case failed]
  ultimately show ?thesis
    using inv2 len s1
    by (cases "sp_host task \<in> set (lp_active_hosts lp2)
          \<and> wd_incarnation w (sp_host task) = Some (sp_incarnation task)";
        cases "pr_status ?r = Online")
       (auto intro: loop_inv_cong)
qed

lemma fold_drain_keeps:
  assumes "fold (drain_one w) fs (s, lp, calls) = (s', lp', calls')"
    and "loop_inv extra s lp" "sched_inv s"
  shows "loop_inv extra s' lp' \<and> sched_inv s' \<and> length (lp_in_flight lp') \<le> length (lp_in_flight lp)"
  using assms
proof (induction fs arbitrary: s lp calls)
  case (Cons f fs)
  obtain s1 lp1 calls1 where one: "drain_one w f (s, lp, calls) = (s1, lp1, calls1)" by (metis prod_cases3)
  have "fold (drain_one w) fs (s1, lp1, calls1) = (s', lp', calls')"
    using Cons.prems(1) by (simp add: one)
  note rest = Cons.IH [OF this]
  from drain_one_keeps [OF one Cons.prems(2,3)] rest show ?case by (meson order_trans)
qed simp

lemma drain_keeps:
  assumes "drain_completed w (s, lp) = (s', lp', calls)" and "loop_inv extra s lp" "sched_inv s"
  shows "loop_inv extra s' lp' \<and> sched_inv s' \<and> length (lp_in_flight lp') \<le> length (lp_in_flight lp)"
  using fold_drain_keeps assms by (simp add: drain_completed_def)

lemma drain_one_active: "lp_active_hosts (fst (snd (drain_one w f acc))) = lp_active_hosts (fst (snd acc))"
proof (cases acc)
  case (fields s lp calls)
  show ?thesis
  proof (cases "dget (lp_in_flight lp) f = None \<or> wd_done w f = None")
    case True
    then show ?thesis by (auto simp: drain_one_def fields split: option.split)
  next
    case False
    then obtain task t outcome where task: "dget (lp_in_flight lp) f = Some task"
      and completed: "wd_done w f = Some (t, outcome)" by auto
    obtain lp2 duration where close: "close_batch t (sp_batch_id task)
        (lp\<lparr>lp_in_flight := dpop (lp_in_flight lp) f,
            lp_in_flight_hosts := remove_host_entry (sp_host task) (lp_in_flight_hosts lp)\<rparr>) = (lp2, duration)"
      by fastforce
    then have "lp_active_hosts lp2 = lp_active_hosts lp" by (auto dest: close_batch_same)
      then have same: "lp_active_hosts lp2 = lp_active_hosts lp" by (auto dest: close_batch_same)
    obtain s3 delay where failed: "note_failure (wd_interval w) t
        (sd_config (s\<lparr>sd_runtime_in_flight := remove_host_entry (sp_host task) (sd_runtime_in_flight s)\<rparr>))
        (sp_host task)
        (s\<lparr>sd_runtime_in_flight := remove_host_entry (sp_host task) (sd_runtime_in_flight s)\<rparr>) = (s3, delay)"
      by fastforce
    show ?thesis
      unfolding drain_one_def fields Let_def prod.case task completed option.case close failed
      using same by simp
  qed
qed

lemma drain_active:
  assumes "drain_completed w (s, lp) = (s', lp', calls)"
  shows "lp_active_hosts lp' = lp_active_hosts lp"
proof -
  have "lp_active_hosts (fst (snd (fold (drain_one w) fs acc))) = lp_active_hosts (fst (snd acc))" for fs acc
    by (induction fs arbitrary: acc) (simp_all add: drain_one_active)
  from this [of "filter (\<lambda>f. wd_done w f \<noteq> None) (keys (lp_in_flight lp))" "(s, lp, [])"] assms show ?thesis
    by (simp add: drain_completed_def)
qed

definition same_flight :: "loop \<Rightarrow> loop \<Rightarrow> bool" where
  "same_flight lp lp' \<longleftrightarrow> lp_in_flight lp' = lp_in_flight lp
    \<and> lp_in_flight_hosts lp' = lp_in_flight_hosts lp \<and> lp_batches lp' = lp_batches lp
    \<and> lp_next_batch_id lp' = lp_next_batch_id lp
    \<and> lp_last_completed_batch_id lp' = lp_last_completed_batch_id lp
    \<and> lp_next_future lp' = lp_next_future lp \<and> lp_active_hosts lp' = lp_active_hosts lp"

lemma collect_frame:
  assumes "collect_discovery w g lp = (lp', d, calls)"
  shows "same_flight lp lp'" "world_ok w \<Longrightarrow> discovery_ok d"
  using assms
  by (auto simp: same_flight_def collect_discovery_def discovery_failed_def Let_def
      world_ok_def discovery_ok_def split: option.splits if_splits)

lemma start_frame:
  assumes "start_discovery w config g (lp, d, calls) = (lp', d', calls')"
  shows "same_flight lp lp'" "world_ok w \<Longrightarrow> discovery_ok d \<Longrightarrow> discovery_ok d'"
  using assms
  by (auto simp: same_flight_def start_discovery_def discovery_failed_def Let_def
      world_ok_def split: option.splits if_splits)

lemma discover_frame:
  assumes "discover w config g lp = (lp', d, calls)"
  shows "same_flight lp lp'" "world_ok w \<Longrightarrow> discovery_ok d"
proof -
  let ?lp = "if int g \<noteq> lp_inventory_generation lp
             then lp\<lparr>lp_refresh_at := 0, lp_inventory_generation := int g\<rparr> else lp"
  obtain lp1 d1 calls1 where c: "collect_discovery w g ?lp = (lp1, d1, calls1)" by (metis prod_cases3)
  then have st: "start_discovery w config g (lp1, d1, calls1) = (lp', d, calls)"
    using assms by (simp only: discover_def Let_def)
  note C = collect_frame [OF c] and S = start_frame [OF st]
  have "same_flight lp ?lp" by (simp add: same_flight_def)
  then show "same_flight lp lp'" using C(1) S(1) unfolding same_flight_def by simp
  show "world_ok w \<Longrightarrow> discovery_ok d" using C(2) S(2) by blast
qed

lemma rebase_frame:
  assumes "rebase_failure_backoff i now config s = (s', calls)"
  shows "\<exists>n p. s' = s\<lparr>sd_next_probe_at := n, sd_backoff_policies := p\<rparr>"
proof -
  have one: "\<exists>n p. fst (rebase_host i now config e acc)
      = (fst acc)\<lparr>sd_next_probe_at := n, sd_backoff_policies := p\<rparr>" for e acc
  proof (cases acc)
    case (Pair s calls)
    have same: "\<exists>n p. s = s\<lparr>sd_next_probe_at := n, sd_backoff_policies := p\<rparr>"
      by (intro exI [of _ "sd_next_probe_at s"] exI [of _ "sd_backoff_policies s"]) simp
    show ?thesis
      by (cases e) (auto simp: rebase_host_def Let_def Pair same split: option.split)
  qed
  have "\<exists>n p. fst (fold (rebase_host i now config) es acc)
      = (fst acc)\<lparr>sd_next_probe_at := n, sd_backoff_policies := p\<rparr>" for es acc
  proof (induction es arbitrary: acc)
    case Nil
    show ?case by (intro exI [of _ "sd_next_probe_at (fst acc)"] exI [of _ "sd_backoff_policies (fst acc)"]) simp
  next
    case (Cons e es)
    obtain n p where "fst (fold (rebase_host i now config) es (rebase_host i now config e acc))
      = (fst (rebase_host i now config e acc))\<lparr>sd_next_probe_at := n, sd_backoff_policies := p\<rparr>"
    using Cons by blast
  moreover obtain n' p' where "fst (rebase_host i now config e acc)
      = (fst acc)\<lparr>sd_next_probe_at := n', sd_backoff_policies := p'\<rparr>" using one by blast
  ultimately show ?case by (intro exI [of _ n] exI [of _ p]) simp
  qed
  from this [of "sd_failure_counts s" "(s, [])"] show ?thesis
    using assms by (simp add: rebase_failure_backoff_def)
qed

lemma repace_frame:
  "\<exists>n i. repace w config e (s, lp) = (s\<lparr>sd_next_probe_at := n\<rparr>, lp\<lparr>lp_healthy_intervals := i\<rparr>)"
proof (cases "repace w config e (s, lp) = (s, lp)")
  case True
  then show ?thesis
    by (intro exI [of _ "sd_next_probe_at s"] exI [of _ "lp_healthy_intervals lp"]) simp
next
  case False
  then show ?thesis by (auto simp: repace_def Let_def split: prod.splits if_splits)
qed

lemma repace_all_frame:
  "\<exists>n i. fold (repace w config) es (s, lp) = (s\<lparr>sd_next_probe_at := n\<rparr>, lp\<lparr>lp_healthy_intervals := i\<rparr>)"
proof (induction es arbitrary: s lp)
  case Nil
  show ?case by (intro exI [of _ "sd_next_probe_at s"] exI [of _ "lp_healthy_intervals lp"]) simp
next
  case (Cons e es)
  obtain n i where one: "repace w config e (s, lp) = (s\<lparr>sd_next_probe_at := n\<rparr>, lp\<lparr>lp_healthy_intervals := i\<rparr>)"
    using repace_frame by blast
  from Cons [of "s\<lparr>sd_next_probe_at := n\<rparr>" "lp\<lparr>lp_healthy_intervals := i\<rparr>"] show ?case by (auto simp: one)
qed

lemma pace_keeps:
  assumes "pace w config (s, lp) = (s', lp', calls)" and "loop_inv extra s lp" "sched_inv s"
  shows "loop_inv extra s' lp' \<and> sched_inv s' \<and> length (lp_in_flight lp') \<le> length (lp_in_flight lp)
    \<and> lp_active_hosts lp' = lp_active_hosts lp"
proof -
  obtain s1 calls1 where r: "rebase_failure_backoff (wd_interval w) (wd_now w) config s = (s1, calls1)"
    by fastforce
  obtain n p where s1: "s1 = s\<lparr>sd_next_probe_at := n, sd_backoff_policies := p\<rparr>"
    using rebase_frame [OF r] by blast
  define m where "m = foldl (\<lambda>d h. dset d h 0) (sd_next_probe_at s1) (manually_due s1 lp)"
  obtain n2 i where f: "fold (repace (wd_interval w) config) (lp_healthy_started_at lp)
      (s1\<lparr>sd_next_probe_at := m\<rparr>, lp)
    = (s1\<lparr>sd_next_probe_at := n2\<rparr>, lp\<lparr>lp_healthy_intervals := i\<rparr>)"
    using repace_all_frame [of _ _ _ "s1\<lparr>sd_next_probe_at := m\<rparr>" lp] by fastforce
  obtain drained where d: "drain_completed w (s1\<lparr>sd_next_probe_at := n2\<rparr>, lp\<lparr>lp_healthy_intervals := i\<rparr>)
      = (s', lp', drained)"
    using assms(1) unfolding pace_def Let_def prod.case r m_def [symmetric] f by (auto split: prod.splits)
  have "loop_inv extra (s1\<lparr>sd_next_probe_at := n2\<rparr>) (lp\<lparr>lp_healthy_intervals := i\<rparr>)"
    by (rule loop_inv_cong [OF assms(2)]) (simp_all add: s1)
  moreover have "sched_inv (s1\<lparr>sd_next_probe_at := n2\<rparr>)"
    using assms(3) by (simp add: sched_inv_def s1)
  ultimately show ?thesis using drain_keeps [OF d] drain_active [OF d] by simp
qed

lemma prune_keeps: "sched_inv s \<Longrightarrow> sched_inv (prune_schedules active s)"
  by (auto simp: sched_inv_def prune_schedules_def keep_hosts_def intersection_update_def)

lemma sync_keeps:
  assumes "sync_hosts w config d (s, lp) = (s', lp', calls)" and "loop_inv extra s lp" "sched_inv s"
    and "discovery_ok d"
  shows "loop_inv extra s' lp' \<and> sched_inv s' \<and> lp_in_flight lp' = lp_in_flight lp
    \<and> distinct (lp_active_hosts lp')"
proof -
  have flight: "sd_runtime_in_flight s' = sd_runtime_in_flight s"
    "lp_in_flight lp' = lp_in_flight lp" "lp_in_flight_hosts lp' = lp_in_flight_hosts lp"
    "lp_batches lp' = lp_batches lp" "lp_next_batch_id lp' = lp_next_batch_id lp"
    "lp_last_completed_batch_id lp' = lp_last_completed_batch_id lp"
    "lp_next_future lp' = lp_next_future lp"
    using assms(1) by (auto simp: sync_hosts_def Let_def prune_schedules_def split: option.splits if_splits)
  define s1 where "s1 = (case d of None \<Rightarrow> s
    | Some d \<Rightarrow> s\<lparr>sd_discovered := filter (\<lambda>h. h \<notin> set (mc_exclude_hosts config)) (ds_hosts d)\<rparr>)"
  define s2 where "s2 = s1\<lparr>sd_runtime_hosts := sd_discovered s1,
      sd_manual_requests := intersection_update (sd_manual_requests s1) (sd_discovered s1)\<rparr>"
  have "s' = s2 \<or> s' = prune_schedules (sd_discovered s1) s2" "lp_active_hosts lp' = sd_discovered s1"
    using assms(1) unfolding sync_hosts_def Let_def s2_def s1_def by (auto split: option.splits if_splits)
  moreover have "sched_inv s1"
    using assms(3,4) by (auto simp: s1_def sched_inv_def discovery_ok_def split: option.splits)
  then have "sched_inv s2" "distinct (sd_discovered s1)"
    by (auto simp: s2_def sched_inv_def intersection_update_def)
  ultimately have "distinct (lp_active_hosts lp') \<and> sched_inv s'"
    by (metis prune_keeps)
  with loop_inv_cong [OF assms(2) flight] flight(2) show ?thesis by blast
qed

lemma request_keeps:
  assumes "request_probe now host s = (reply, s')" "loop_inv extra s lp" "sched_inv s"
  shows "loop_inv extra s' lp \<and> sched_inv s'"
proof
  have "sd_runtime_in_flight s' = sd_runtime_in_flight s"
    using assms(1) by (auto simp: request_probe_def Let_def split: if_splits option.splits)
  then show "loop_inv extra s' lp" by (rule loop_inv_cong [OF assms(2)]) simp_all
  show "sched_inv s'"
    using assms(1,3) by (auto simp: request_probe_def sched_inv_def Let_def split: if_splits option.splits)
qed

lemma update_keeps:
  assumes "update_config config d s = (s', calls)" "workers_ok config" "discovery_ok d"
    and "loop_inv extra s lp" "sched_inv s"
  shows "loop_inv extra s' lp \<and> sched_inv s'"
proof
  have "sd_runtime_in_flight s' = sd_runtime_in_flight s"
    using assms(1) by (auto simp: update_config_def Let_def)
  then show "loop_inv extra s' lp" by (rule loop_inv_cong [OF assms(4)]) simp_all
  show "sched_inv s'"
    using assms(1-3,5)
    by (auto simp: update_config_def sched_inv_def intersection_update_def discovery_ok_def Let_def
        split: option.splits)
qed

end
