(* ===== verification/Scheduler_Runs.thy ===== *)
theory Scheduler_Runs
  imports Scheduler_Loop
begin

text \<open>
  The submission step of the scheduler thread keeps the loop's invariant, the invariant holds in
  every reachable state that has not crashed or stopped, and the properties of the thread that
  follow: bounded and exactly accounted probes, dispatch of the earliest due hosts, no due host
  left waiting while a worker is free, and manual requests that take effect.
\<close>

section \<open>The due hosts\<close>

definition next_probe :: "scheduler \<Rightarrow> string \<Rightarrow> rat" where
  "next_probe s h = dget_or 0 (sd_next_probe_at s) h"

text \<open>The hosts of a list that could be probed now.\<close>

definition ready_hosts :: "rat \<Rightarrow> scheduler \<Rightarrow> loop \<Rightarrow> string list" where
  "ready_hosts now s lp =
    filter (\<lambda>h. h \<notin> set (lp_in_flight_hosts lp) \<and> next_probe s h \<le> now) (lp_active_hosts lp)"

lemma map_entries_filter:
  "map (\<lambda>(t, n, h). h) (filter (\<lambda>(t, n, h). P t h) (map (\<lambda>(n, h). (f h, n, h)) (enumerate k hs)))
    = filter (\<lambda>h. P (f h) h) hs"
  by (induction hs arbitrary: k) auto

lemma map_due_entries: "map (\<lambda>(t, n, h). h) (due_entries now s lp) = ready_hosts now s lp"
  unfolding due_entries_def ready_hosts_def next_probe_def
  by (rule map_entries_filter [where P = "\<lambda>t h. h \<notin> set (lp_in_flight_hosts lp) \<and> t \<le> now"])

lemma due_entry_deadline: "(t, n, h) \<in> set (due_entries now s lp) \<Longrightarrow> t = next_probe s h"
  by (auto simp: due_entries_def next_probe_def)

lemma due_hosts_take:
  "due_hosts k now s lp = take k (map (\<lambda>(t, n, h). h) (sort (due_entries now s lp)))"
  by (simp add: due_hosts_def take_map)

lemma set_sorted_hosts:
  "set (map (\<lambda>(t, n, h). h) (sort (due_entries now s lp))) = set (ready_hosts now s lp)"
  by (metis map_due_entries set_map set_sort)

lemma distinct_sorted_hosts:
  assumes "distinct (lp_active_hosts lp)"
  shows "distinct (map (\<lambda>(t, n, h). h) (sort (due_entries now s lp)))"
proof -
  have "mset (map (\<lambda>(t, n, h). h) (sort (due_entries now s lp))) = mset (ready_hosts now s lp)"
    by (metis map_due_entries mset_map mset_sort)
  moreover have "distinct (ready_hosts now s lp)" using assms by (simp add: ready_hosts_def)
  ultimately show ?thesis by (metis mset_eq_imp_distinct_iff)
qed

lemma due_hosts_props:
  assumes "distinct (lp_active_hosts lp)"
  shows "distinct (due_hosts k now s lp)" "set (due_hosts k now s lp) \<subseteq> set (ready_hosts now s lp)"
    "length (due_hosts k now s lp) = min k (length (ready_hosts now s lp))"
proof -
  let ?all = "map (\<lambda>(t, n, h). h) (sort (due_entries now s lp))"
  show "distinct (due_hosts k now s lp)"
    using distinct_sorted_hosts [OF assms] by (simp add: due_hosts_take)
  have "set (take k ?all) \<subseteq> set ?all" by (rule set_take_subset)
  then show "set (due_hosts k now s lp) \<subseteq> set (ready_hosts now s lp)"
    by (simp only: due_hosts_take set_sorted_hosts)
  have "length ?all = length (ready_hosts now s lp)"
    by (metis length_map length_sort map_due_entries)
  then show "length (due_hosts k now s lp) = min k (length (ready_hosts now s lp))"
    by (simp add: due_hosts_def)
qed

text \<open>A ready host that is left out comes no earlier than those taken.\<close>

lemma due_hosts_earliest:
  assumes h: "h \<in> set (due_hosts k now s lp)"
    and j: "j \<in> set (ready_hosts now s lp)" "j \<notin> set (due_hosts k now s lp)"
  shows "next_probe s h \<le> next_probe s j"
proof -
  let ?es = "sort (due_entries now s lp)"
  obtain t n where e: "(t, n, h) \<in> set (take k ?es)" using h by (auto simp: due_hosts_def)
  obtain u m where f: "(u, m, j) \<in> set ?es" using j(1) set_sorted_hosts by fastforce
  have "(u, m, j) \<notin> set (take k ?es)" using j(2) by (force simp: due_hosts_def)
  then have "(u, m, j) \<in> set (drop k ?es)" using f by (metis UnE append_take_drop_id set_append)
  moreover have "sorted (take k ?es @ drop k ?es)" by simp
  ultimately have "(t, n, h) \<le> (u, m, j)" using e unfolding sorted_append by blast
  then have "t \<le> u" by (auto simp: less_eq_prod_def)
  moreover have "t = next_probe s h" "u = next_probe s j"
    using e f due_entry_deadline in_set_takeD by (force, force)
  ultimately show ?thesis by simp
qed

section \<open>The submission\<close>

lemma fold_submit_failed: "fold (submit_one w b) hosts (s, lp, False) = (s, lp, False)"
  by (induction hosts) (simp_all add: submit_one_def)

lemma submit_one_keeps:
  assumes "submit_one w b host (s, lp, True) = (s', lp', True)"
    and inv: "loop_inv extra s lp" and new: "host \<notin> set (flight_hosts lp)"
    and batch: "dget (lp_batches lp) b \<noteq> None" "extra b = Suc n"
  shows "loop_inv (extra(b := n)) s' lp'" "flight_hosts lp' = flight_hosts lp @ [host]"
    "lp_batches lp' = lp_batches lp" "lp_active_hosts lp' = lp_active_hosts lp"
    "lp_next_batch_id lp' = lp_next_batch_id lp"
    "s' = s\<lparr>sd_runtime_in_flight := List.insert host (sd_runtime_in_flight s),
            sd_manual_requests := remove_host_entry host (sd_manual_requests s)\<rparr>"
proof -
  obtain i where lp': "lp' = lp\<lparr>lp_in_flight_hosts := List.insert host (lp_in_flight_hosts lp),
      lp_in_flight := dset (lp_in_flight lp) (lp_next_future lp)
        \<lparr>sp_host = host, sp_started_at = wd_submit_at w, sp_batch_id = b, sp_incarnation = i\<rparr>,
      lp_next_future := lp_next_future lp + 1\<rparr>"
    and s': "s' = s\<lparr>sd_runtime_in_flight := List.insert host (sd_runtime_in_flight s),
            sd_manual_requests := remove_host_entry host (sd_manual_requests s)\<rparr>"
    using assms(1) by (auto simp: submit_one_def Let_def split: option.splits if_splits)
  have I: "wf_dict (lp_in_flight lp)" "wf_dict (lp_batches lp)" "distinct (flight_hosts lp)"
    "set (lp_in_flight_hosts lp) = set (flight_hosts lp)" "set (sd_runtime_in_flight s) = set (flight_hosts lp)"
    "\<And>b x. dget (lp_batches lp) b = Some x \<Longrightarrow>
      pb_remaining x = int (batch_tasks lp b + extra b) \<and> 0 < pb_remaining x \<and> b < lp_next_batch_id lp"
    "\<forall>e \<in> set (lp_in_flight lp). dget (lp_batches lp) (sp_batch_id (snd e)) \<noteq> None"
    "lp_last_completed_batch_id lp < lp_next_batch_id lp"
    "\<forall>f \<in> fst ` set (lp_in_flight lp). f < lp_next_future lp"
    using inv unfolding loop_inv_def by blast+
  have fresh: "lp_next_future lp \<notin> fst ` set (lp_in_flight lp)" using I(9) by auto
  note app = dset_fresh [OF fresh]
  show hosts: "flight_hosts lp' = flight_hosts lp @ [host]" by (simp add: flight_hosts_def lp' app)
  have tasks: "batch_tasks lp' c = batch_tasks lp c + (if c = b then 1 else 0)" for c
    by (auto simp: batch_tasks_def lp' app)
  have sum: "batch_tasks lp' c + (extra(b := n)) c = batch_tasks lp c + extra c" for c
    using batch(2) by (simp add: tasks)
  have "pb_remaining x = int (batch_tasks lp' c + (extra(b := n)) c) \<and> 0 < pb_remaining x \<and> c < lp_next_batch_id lp'"
    if "dget (lp_batches lp') c = Some x" for c x
    using I(6) [of c x] that by (simp only: sum) (simp add: lp')
  moreover have "wf_dict (lp_in_flight lp')" "wf_dict (lp_batches lp')" "distinct (flight_hosts lp')"
    using I(1-3) new by (simp_all add: hosts) (simp_all add: lp')
  moreover have "set (lp_in_flight_hosts lp') = set (flight_hosts lp')"
    "set (sd_runtime_in_flight s') = set (flight_hosts lp')"
    using I(4,5) by (simp_all add: hosts) (simp_all add: lp' s')
  moreover have "\<forall>f \<in> fst ` set (lp_in_flight lp'). f < lp_next_future lp'"
    using I(9) by (auto simp: lp' app)
  moreover have "\<forall>e \<in> set (lp_in_flight lp'). dget (lp_batches lp') (sp_batch_id (snd e)) \<noteq> None"
    using I(7) batch(1) by (auto simp: lp' app)
  moreover have "lp_last_completed_batch_id lp' < lp_next_batch_id lp'" using I(8) by (simp add: lp')
  ultimately show "loop_inv (extra(b := n)) s' lp'" unfolding loop_inv_def by blast
qed (insert assms(1), auto simp: submit_one_def Let_def split: option.splits if_splits)

text \<open>What the submission of some hosts changes of the shared state.\<close>

definition submitted :: "scheduler \<Rightarrow> string list \<Rightarrow> scheduler \<Rightarrow> bool" where
  "submitted s hosts s' \<longleftrightarrow> (\<exists>f m. s' = s\<lparr>sd_runtime_in_flight := f, sd_manual_requests := m\<rparr>
    \<and> set m = set (sd_manual_requests s) - set hosts)"

lemma submitted_none: "submitted s [] s"
  unfolding submitted_def
  by (intro exI [of _ "sd_runtime_in_flight s"] exI [of _ "sd_manual_requests s"]) simp

lemma submitted_next_probe: "submitted s hosts s' \<Longrightarrow> next_probe s' = next_probe s"
  by (auto simp: submitted_def next_probe_def fun_eq_iff)

lemma submitted_manual:
  "submitted s hosts s' \<Longrightarrow> set (sd_manual_requests s') = set (sd_manual_requests s) - set hosts"
  unfolding submitted_def by (elim exE conjE) simp

lemma submitted_sched_inv: "submitted s hosts s' \<Longrightarrow> sched_inv s \<Longrightarrow> sched_inv s'"
  by (auto simp: submitted_def sched_inv_def)

lemma fold_submit_keeps:
  assumes "fold (submit_one w b) hosts (s, lp, True) = (s', lp', True)"
    and "loop_inv (extra(b := length hosts)) s lp" "distinct hosts" "set hosts \<inter> set (flight_hosts lp) = {}"
    and "dget (lp_batches lp) b \<noteq> None"
  shows "loop_inv (extra(b := 0)) s' lp' \<and> flight_hosts lp' = flight_hosts lp @ hosts
    \<and> lp_active_hosts lp' = lp_active_hosts lp \<and> submitted s hosts s'"
  using assms
proof (induction hosts arbitrary: s lp)
  case Nil
  then show ?case by (simp add: submitted_none)
next
  case (Cons h hosts)
  obtain s1 lp1 ok where one: "submit_one w b h (s, lp, True) = (s1, lp1, ok)" by (metis prod_cases3)
  with Cons.prems(1) have ok by (cases ok) (simp_all add: fold_submit_failed)
  then have one: "submit_one w b h (s, lp, True) = (s1, lp1, True)" using one by simp
  have new: "h \<notin> set (flight_hosts lp)" using Cons.prems(4) by simp
  have "(extra(b := length (h # hosts))) b = Suc (length hosts)" by simp
  note k = submit_one_keeps [OF one Cons.prems(2) new Cons.prems(5) this, unfolded fun_upd_upd]
  note inv = k(1-4) and s1 = k(6)
  have rest: "fold (submit_one w b) hosts (s1, lp1, True) = (s', lp', True)" using Cons.prems(1) one by simp
  have IH: "loop_inv (extra(b := 0)) s' lp' \<and> flight_hosts lp' = flight_hosts lp1 @ hosts
    \<and> lp_active_hosts lp' = lp_active_hosts lp1 \<and> submitted s1 hosts s'"
    using Cons.prems(3-5) inv(2,3) by (intro Cons.IH [OF rest inv(1)]) auto
  moreover have "submitted s (h # hosts) s'"
    using IH by (auto simp: submitted_def s1 remove_host_entry_def)
  moreover have "flight_hosts lp' = flight_hosts lp @ h # hosts" "lp_active_hosts lp' = lp_active_hosts lp"
    using IH inv(2,4) by simp_all
  ultimately show ?case using IH by blast
qed

lemma open_batch:
  assumes inv: "loop_inv (\<lambda>_. 0) s lp" and "hosts \<noteq> []"
    and lp1: "lp1 = lp\<lparr>lp_next_batch_id := lp_next_batch_id lp + 1,
      lp_batches := dset (lp_batches lp) (lp_next_batch_id lp)
        \<lparr>pb_started_at = t, pb_remaining = int (length hosts)\<rparr>\<rparr>"
  shows "loop_inv ((\<lambda>_. 0)(lp_next_batch_id lp := length hosts)) s lp1"
proof -
  let ?b = "lp_next_batch_id lp"
  have I: "wf_dict (lp_in_flight lp)" "wf_dict (lp_batches lp)" "distinct (flight_hosts lp)"
    "set (lp_in_flight_hosts lp) = set (flight_hosts lp)" "set (sd_runtime_in_flight s) = set (flight_hosts lp)"
    "\<And>b x. dget (lp_batches lp) b = Some x \<Longrightarrow>
      pb_remaining x = int (batch_tasks lp b + 0) \<and> 0 < pb_remaining x \<and> b < ?b"
    "\<forall>e \<in> set (lp_in_flight lp). dget (lp_batches lp) (sp_batch_id (snd e)) \<noteq> None"
    "lp_last_completed_batch_id lp < ?b"
    "\<forall>f \<in> fst ` set (lp_in_flight lp). f < lp_next_future lp"
    using inv unfolding loop_inv_def by blast+
  have "sp_batch_id (snd e) \<noteq> ?b" if "e \<in> set (lp_in_flight lp)" for e
    using I(6,7) that by force
  then have none: "batch_tasks lp ?b = 0" by (auto simp: batch_tasks_def filter_empty_conv)
  have same: "batch_tasks lp1 = batch_tasks lp" "flight_hosts lp1 = flight_hosts lp"
    by (simp_all add: batch_tasks_def flight_hosts_def lp1 fun_eq_iff)
  have "pb_remaining x = int (batch_tasks lp1 b + ((\<lambda>_. 0)(?b := length hosts)) b) \<and> 0 < pb_remaining x
      \<and> b < lp_next_batch_id lp1" if "dget (lp_batches lp1) b = Some x" for b x
  proof (cases "b = ?b")
    case True
    have "dget (lp_batches lp1) ?b = Some \<lparr>pb_started_at = t, pb_remaining = int (length hosts)\<rparr>"
      "lp_next_batch_id lp1 = Suc ?b" by (simp_all add: lp1)
    then show ?thesis using that True assms(2) none by (auto simp: same(1))
  next
    case False
    then show ?thesis using that I(6) [of b x] by (simp add: same(1)) (simp add: lp1)
  qed
  moreover have "\<forall>e \<in> set (lp_in_flight lp1). dget (lp_batches lp1) (sp_batch_id (snd e)) \<noteq> None"
    using I(7) by (simp add: lp1)
  moreover have "lp_last_completed_batch_id lp1 < lp_next_batch_id lp1" using I(8) by (simp add: lp1)
  moreover have "wf_dict (lp_in_flight lp1)" "wf_dict (lp_batches lp1)"
    "set (lp_in_flight_hosts lp1) = set (flight_hosts lp1)"
    "\<forall>f \<in> fst ` set (lp_in_flight lp1). f < lp_next_future lp1"
    using I(1,2,4,9) by (simp_all add: same(2)) (simp_all add: lp1)
  ultimately show ?thesis
    using I(3,5) unfolding loop_inv_def same(2) by blast
qed

lemma submit_keeps:
  assumes sub: "submit w config (s, lp) = (s', lp', calls, True)"
    and inv: "loop_inv (\<lambda>_. 0) s lp" and active: "distinct (lp_active_hosts lp)"
    and due: "due = due_hosts (mc_max_workers config - length (lp_in_flight lp)) (wd_now w) s lp"
  shows "loop_inv (\<lambda>_. 0) s' lp' \<and> flight_hosts lp' = flight_hosts lp @ due
    \<and> lp_active_hosts lp' = lp_active_hosts lp
    \<and> calls = (if due = [] then [] else [Begin_Poll due]) \<and> submitted s due s'"
proof (cases "due = []")
  case True
  then have "s' = s" "lp' = lp" "calls = []"
    using sub by (simp_all add: submit_def due)
  then show ?thesis using inv True by (simp add: submitted_none)
next
  case False
  define lp1 where "lp1 = lp\<lparr>lp_next_batch_id := lp_next_batch_id lp + 1,
      lp_batches := dset (lp_batches lp) (lp_next_batch_id lp)
        \<lparr>pb_started_at = wd_submit_at w, pb_remaining = int (length due)\<rparr>\<rparr>"
  have f: "fold (submit_one w (lp_next_batch_id lp)) due (s, lp1, True) = (s', lp', True)"
    and calls: "calls = [Begin_Poll due]"
    using sub False unfolding submit_def Let_def prod.case due [symmetric] lp1_def [symmetric]
    by (auto split: prod.splits)
  have "set (ready_hosts (wd_now w) s lp) \<inter> set (lp_in_flight_hosts lp) = {}"
    by (auto simp: ready_hosts_def)
  moreover have "set (lp_in_flight_hosts lp) = set (flight_hosts lp1)"
    using inv unfolding loop_inv_def by (simp add: flight_hosts_def lp1_def)
  moreover have "set due \<subseteq> set (ready_hosts (wd_now w) s lp)"
    unfolding due by (rule due_hosts_props(2) [OF active])
  ultimately have "set due \<inter> set (flight_hosts lp1) = {}" by blast
  moreover have "dget (lp_batches lp1) (lp_next_batch_id lp) \<noteq> None" by (simp add: lp1_def)
  moreover have "distinct due" unfolding due by (rule due_hosts_props(1) [OF active])
  ultimately have *: "loop_inv ((\<lambda>_. 0)(lp_next_batch_id lp := 0)) s' lp' \<and> flight_hosts lp' = flight_hosts lp1 @ due
    \<and> lp_active_hosts lp' = lp_active_hosts lp1 \<and> submitted s due s'"
    by (intro fold_submit_keeps [OF f] open_batch [OF inv False lp1_def])
  have "((\<lambda>_. 0)(lp_next_batch_id lp := 0)) = (\<lambda>_. 0 :: nat)" by auto
  with * False calls show ?thesis by (simp add: flight_hosts_def lp1_def)
qed

lemmas submit_facts = submit_keeps [THEN conjunct1] submit_keeps [THEN conjunct2, THEN conjunct1]
  submit_keeps [THEN conjunct2, THEN conjunct2, THEN conjunct1]
  submit_keeps [THEN conjunct2, THEN conjunct2, THEN conjunct2, THEN conjunct1]
  submit_keeps [THEN conjunct2, THEN conjunct2, THEN conjunct2, THEN conjunct2]

section \<open>The invariant of the thread\<close>

fun pc_ok :: "pc \<Rightarrow> bool" where
  "pc_ok (Discovered c g d now) \<longleftrightarrow> workers_ok c \<and> discovery_ok d"
| "pc_ok (Synced c g now) \<longleftrightarrow> workers_ok c"
| "pc_ok (Paced c g now) \<longleftrightarrow> workers_ok c"
| "pc_ok _ \<longleftrightarrow> True"

definition run_inv :: "pc \<Rightarrow> scheduler \<Rightarrow> loop \<Rightarrow> bool" where
  "run_inv pc s lp \<longleftrightarrow> loop_inv (\<lambda>_. 0) s lp \<and> sched_inv s \<and> distinct (lp_active_hosts lp)
    \<and> length (lp_in_flight lp) \<le> 64 \<and> pc_ok pc"

lemma loop_inv_flight: "loop_inv extra s lp \<Longrightarrow> set (lp_in_flight_hosts lp) = set (flight_hosts lp)"
  by (simp add: loop_inv_def)

lemma run_inv_start: "workers_ok config \<Longrightarrow> run_inv At_Top (new_scheduler config) new_loop"
  by (simp add: run_inv_def loop_inv_def sched_inv_def new_scheduler_def new_loop_def flight_hosts_def)

lemma length_flight: "length (flight_hosts lp) = length (lp_in_flight lp)"
  by (simp add: flight_hosts_def)

lemma run_inv_step:
  assumes "run_step (pc, s, lp) (pc', s', lp')" "run_inv pc s lp" "pc' \<notin> {Crashed, Stopped}"
  shows "run_inv pc' s' lp'"
proof -
  have I: "loop_inv (\<lambda>_. 0) s lp" "sched_inv s" "distinct (lp_active_hosts lp)"
    "length (lp_in_flight lp) \<le> 64" "pc_ok pc"
    using assms(2) by (simp_all add: run_inv_def)
  from assms(1) show ?thesis
  proof (cases rule: run_step.cases)
    case (manual_request now host reply)
    then show ?thesis using request_keeps I by (auto simp: run_inv_def)
  next
    case (config_update config d calls)
    then show ?thesis using update_keeps I by (auto simp: run_inv_def)
  next
    case (snapshot w d calls)
    note D = discover_frame [OF snapshot(5)]
    have "loop_inv (\<lambda>_. 0) s' lp'"
      by (rule loop_inv_cong [OF I(1)]) (use D(1) snapshot in \<open>simp_all add: same_flight_def\<close>)
    then show ?thesis
      using D snapshot I by (simp add: run_inv_def same_flight_def sched_inv_def)
  next
    case (sync g w now c d calls)
    then show ?thesis using sync_keeps [OF _ I(1,2)] I by (auto simp: run_inv_def)
  next
    case (pacing w now c calls g)
    then show ?thesis using pace_keeps [OF pacing(4) I(1,2)] I by (auto simp: run_inv_def)
  next
    case (submission g w now c calls ok)
    then have ok: "submit w c (s, lp) = (s', lp', calls, True)" and pc: "pc' = At_Top" using assms(3) by (auto split: if_splits)
    note k = submit_keeps [OF ok I(1,3) refl]
    have "length (flight_hosts lp') \<le> 64"
      using k due_hosts_props(3) [OF I(3)] I(4,5) submission length_flight [of lp]
      by (auto simp: workers_ok_def)
    then have "length (lp_in_flight lp') \<le> 64" by (simp only: length_flight)
    moreover have "sched_inv s'" using k I(2) submitted_sched_inv by blast
    ultimately show ?thesis using k I pc by (simp add: run_inv_def)
  qed (use assms I in \<open>auto simp: run_inv_def\<close>)
qed

lemma run_step_dead:
  assumes "run_step (pc, s, lp) (pc', s', lp')" "pc \<in> {Crashed, Stopped}"
  shows "pc' \<in> {Crashed, Stopped}"
  using assms by (cases rule: run_step.cases) auto

lemma run_invariant:
  assumes "run_reachable config x" "fst x \<notin> {Crashed, Stopped}"
  shows "run_inv (fst x) (fst (snd x)) (snd (snd x))"
  using assms
proof (induction rule: run_reachable.induct)
  case run_start
  then show ?case by (simp add: run_inv_start)
next
  case (run_next x y)
  obtain pc s lp where x: "x = (pc, s, lp)" by (metis prod_cases3)
  obtain pc' s' lp' where y: "y = (pc', s', lp')" by (metis prod_cases3)
  have "pc \<notin> {Crashed, Stopped}" using run_step_dead run_next(2,4) x y by fastforce
  then show ?case using run_inv_step run_next x y by fastforce
qed

section \<open>Properties\<close>

text \<open>C7. At every moment of the scheduler thread, whatever manual requests and configuration changes
  interleave with it, each host has at most one probe in flight, at most 64 probes are in flight,
  the hosts the service reports as in flight are those, and every batch counts exactly its
  unfinished probes (so that the poll-cycle duration is recorded once, by the last of them).\<close>

theorem probes_bounded_and_accounted:
  assumes "run_reachable config (pc, s, lp)" and "pc \<noteq> Crashed" "pc \<noteq> Stopped"
  shows "distinct (flight_hosts lp) \<and> length (lp_in_flight lp) \<le> 64
    \<and> set (sd_runtime_in_flight s) = set (flight_hosts lp)
    \<and> set (sd_manual_requests s) \<subseteq> set (sd_runtime_hosts s)
    \<and> (\<forall>e \<in> set (lp_in_flight lp). dget (lp_batches lp) (sp_batch_id (snd e)) \<noteq> None)
    \<and> (\<forall>b x. dget (lp_batches lp) b = Some x \<longrightarrow> pb_remaining x = int (batch_tasks lp b) \<and> 0 < pb_remaining x)"
proof -
  have "run_inv pc s lp" using run_invariant [OF assms(1)] assms(2,3) by simp
  then show ?thesis unfolding run_inv_def loop_inv_def sched_inv_def add_0_right by blast
qed

text \<open>A run of one iteration that probes two hosts.\<close>

definition example_world :: world where
  "example_world = \<lparr>wd_now = 100, wd_interval = 5, wd_incarnation = (\<lambda>h. Some 1), wd_done = (\<lambda>f. None),
    wd_discovered = None,
    wd_discover = Some \<lparr>ds_hosts = [''a'', ''b''], ds_host_groups = [], ds_topology = None\<rparr>,
    wd_submit_at = 101, wd_submit_ok = (\<lambda>h. True), wd_inventory_aware = False, wd_observed_at = []\<rparr>"

definition example_snapshot where
  "example_snapshot = discover example_world (example_config 2) 0 new_loop"

definition example_synced where
  "example_synced = sync_hosts example_world (example_config 2) (fst (snd example_snapshot))
    (new_scheduler (example_config 2), fst example_snapshot)"

definition example_paced where
  "example_paced = pace example_world (example_config 2) (fst example_synced, fst (snd example_synced))"

definition example_submitted where
  "example_submitted = submit example_world (example_config 2) (fst example_paced, fst (snd example_paced))"

lemma example_synced_reachable:
  "run_reachable (example_config 2) (Synced (example_config 2) 0 100, fst example_synced, fst (snd example_synced))"
proof -
  let ?c = "example_config 2" and ?s = "new_scheduler (example_config 2)"
  have s: "sd_config ?s = ?c" "sd_generation ?s = 0" "?s\<lparr>sd_wakeup := False\<rparr> = ?s"
    by (simp_all add: new_scheduler_def)
  have w: "wd_now example_world = 100" "world_ok example_world"
    by (simp_all add: example_world_def world_ok_def discovery_ok_def)
  have "run_reachable ?c (At_Top, ?s, new_loop)"
    by (rule run_start) code_simp
  moreover have "run_step (At_Top, ?s, new_loop)
      (Discovered ?c 0 (fst (snd example_snapshot)) 100, ?s, fst example_snapshot)"
    using snapshot [of example_world ?s new_loop "fst example_snapshot" "fst (snd example_snapshot)"
        "snd (snd example_snapshot)"]
    unfolding s w(1) by (simp add: w(2) example_snapshot_def)
  moreover have "run_step (Discovered ?c 0 (fst (snd example_snapshot)) 100, ?s, fst example_snapshot)
      (Synced ?c 0 100, fst example_synced, fst (snd example_synced))"
    by (rule sync [where w = example_world and calls = "snd (snd example_synced)"])
       (simp_all add: example_synced_def s w)
  ultimately show ?thesis by (meson run_next)
qed

lemma example_paced_reachable:
  "run_reachable (example_config 2) (Paced (example_config 2) 0 100, fst example_paced, fst (snd example_paced))"
proof -
  let ?c = "example_config 2"
  have w: "wd_now example_world = 100" by (simp add: example_world_def)
  have "run_step (Synced ?c 0 100, fst example_synced, fst (snd example_synced))
      (Paced ?c 0 100, fst example_paced, fst (snd example_paced))"
    by (rule pacing [where w = example_world and calls = "snd (snd example_paced)"])
       (simp_all add: example_paced_def w)
  then show ?thesis using example_synced_reachable by (meson run_next)
qed

lemma example_submitted_eq:
  "submit example_world (example_config 2) (fst example_paced, fst (snd example_paced))
    = (fst example_submitted, fst (snd example_submitted), [Begin_Poll [''a'', ''b'']], True)"
  "flight_hosts (fst (snd example_submitted)) = [''a'', ''b'']"
  "lp_active_hosts (fst (snd example_paced)) = [''a'', ''b'']"
  "sd_generation (fst example_paced) = 0"
proof -
  have "snd (snd example_submitted) = ([Begin_Poll [''a'', ''b'']], True)" by code_simp
  then show "submit example_world (example_config 2) (fst example_paced, fst (snd example_paced))
    = (fst example_submitted, fst (snd example_submitted), [Begin_Poll [''a'', ''b'']], True)"
    unfolding example_submitted_def by (metis prod.collapse)
qed code_simp+

theorem probes_bounded_and_accounted_witness:
  "distinct (flight_hosts (fst (snd example_submitted)))
    \<and> set (sd_runtime_in_flight (fst example_submitted)) = {''a'', ''b''}"
proof -
  have "run_step (Paced (example_config 2) 0 100, fst example_paced, fst (snd example_paced))
      (if True then At_Top else Crashed, fst example_submitted, fst (snd example_submitted))"
    by (rule submission [where w = example_world and calls = "[Begin_Poll [''a'', ''b'']]"])
       (simp_all only: example_submitted_eq(1,4), simp add: example_world_def)
  from run_next [OF example_paced_reachable this]
  have "run_reachable (example_config 2) (At_Top, fst example_submitted, fst (snd example_submitted))" by simp
  from probes_bounded_and_accounted [OF this] show ?thesis by (simp add: example_submitted_eq)
qed

text \<open>C8. Each round dispatches as many ready hosts as there are free workers, those with the earliest
  deadlines first: a ready host that is left out has a deadline no earlier than any that is
  dispatched. The store is told of exactly the dispatched hosts, and their manual requests are
  consumed.\<close>

theorem dispatches_earliest_due:
  assumes "run_reachable config (Paced c g now, s, lp)" and "wd_now w = now"
    and "submit w c (s, lp) = (s', lp', calls, True)"
  shows "\<exists>due. calls = (if due = [] then [] else [Begin_Poll due])
    \<and> flight_hosts lp' = flight_hosts lp @ due
    \<and> set due \<subseteq> set (ready_hosts now s lp)
    \<and> length due = min (mc_max_workers c - length (lp_in_flight lp)) (length (ready_hosts now s lp))
    \<and> (\<forall>h \<in> set due. \<forall>j \<in> set (ready_hosts now s lp) - set due. next_probe s h \<le> next_probe s j)
    \<and> set (sd_manual_requests s') = set (sd_manual_requests s) - set due"
proof -
  have inv: "loop_inv (\<lambda>_. 0) s lp" "distinct (lp_active_hosts lp)"
    using run_invariant [OF assms(1)] by (simp_all add: run_inv_def)
  let ?due = "due_hosts (mc_max_workers c - length (lp_in_flight lp)) now s lp"
  note k = submit_facts [OF assms(3) inv refl, unfolded assms(2)]
  have "set (sd_manual_requests s') = set (sd_manual_requests s) - set ?due"
    using k(5) by (rule submitted_manual)
  then show ?thesis
    by (intro exI [of _ ?due] conjI ballI k(2,4) due_hosts_props(2,3) [OF inv(2)] due_hosts_earliest) auto
qed

theorem dispatches_earliest_due_witness:
  "set [''a'', ''b''] \<subseteq> set (ready_hosts 100 (fst example_paced) (fst (snd example_paced)))"
proof -
  have "wd_now example_world = 100" by (simp add: example_world_def)
  from dispatches_earliest_due [OF example_paced_reachable this example_submitted_eq(1)]
  obtain due where due: "[Begin_Poll [''a'', ''b'']] = (if due = [] then [] else [Begin_Poll due])"
    and sub: "set due \<subseteq> set (ready_hosts 100 (fst example_paced) (fst (snd example_paced)))" by blast
  from due have "due = [''a'', ''b'']" by (cases "due = []") simp_all
  with sub show ?thesis by simp
qed

section \<open>Waiting\<close>

lemma foldl_min:
  fixes f :: "'a \<Rightarrow> rat"
  shows "foldl (\<lambda>m h. let d = f h in Some (case m of None \<Rightarrow> d | Some t \<Rightarrow> min t d)) start hs = None
      \<longleftrightarrow> start = None \<and> hs = []"
    and "foldl (\<lambda>m h. let d = f h in Some (case m of None \<Rightarrow> d | Some t \<Rightarrow> min t d)) start hs = Some t
      \<Longrightarrow> (\<forall>h \<in> set hs. t \<le> f h) \<and> (\<forall>u. start = Some u \<longrightarrow> t \<le> u)"
proof -
  have ex: "\<exists>t. foldl (\<lambda>m h. let d = f h in Some (case m of None \<Rightarrow> d | Some t \<Rightarrow> min t d)) (Some u) hs = Some t" for u hs
    by (induction hs arbitrary: u) (simp_all add: Let_def)
  show "foldl (\<lambda>m h. let d = f h in Some (case m of None \<Rightarrow> d | Some t \<Rightarrow> min t d)) start hs = None
      \<longleftrightarrow> start = None \<and> hs = []"
  proof (cases hs)
    case (Cons h hs')
    obtain t where "foldl (\<lambda>m h. let d = f h in Some (case m of None \<Rightarrow> d | Some t \<Rightarrow> min t d))
        (Some (case start of None \<Rightarrow> f h | Some t \<Rightarrow> min t (f h))) hs' = Some t" using ex by blast
    then show ?thesis by (simp add: Cons Let_def)
  qed simp
  show "foldl (\<lambda>m h. let d = f h in Some (case m of None \<Rightarrow> d | Some t \<Rightarrow> min t d)) start hs = Some t
      \<Longrightarrow> (\<forall>h \<in> set hs. t \<le> f h) \<and> (\<forall>u. start = Some u \<longrightarrow> t \<le> u)"
  proof (induction hs arbitrary: start)
    case (Cons h hs)
    from Cons.IH [of "Some (case start of None \<Rightarrow> f h | Some t \<Rightarrow> min t (f h))"] Cons.prems
    have *: "\<forall>h \<in> set hs. t \<le> f h" "t \<le> (case start of None \<Rightarrow> f h | Some t \<Rightarrow> min t (f h))"
      by (simp_all add: Let_def)
    then show ?case by (cases start) simp_all
  qed simp
qed

lemma wait_until_le:
  assumes "length (lp_in_flight lp) < mc_max_workers c" "h \<in> set (lp_active_hosts lp)"
    "h \<notin> set (lp_in_flight_hosts lp)"
  shows "\<exists>t. wait_until c s lp = Some t \<and> t \<le> next_probe s h"
proof -
  let ?idle = "filter (\<lambda>h. h \<notin> set (lp_in_flight_hosts lp)) (lp_active_hosts lp)"
  let ?start = "if lp_discovery_pending lp then None else Some (lp_refresh_at lp)"
  have idle: "h \<in> set ?idle" using assms by simp
  have w: "wait_until c s lp = foldl (\<lambda>m h. let d = dget_or 0 (sd_next_probe_at s) h in
               Some (case m of None \<Rightarrow> d | Some t \<Rightarrow> min t d)) ?start ?idle"
    using assms(1) unfolding wait_until_def Let_def by (simp only: if_True)
  have "?idle \<noteq> []" using idle by (metis empty_iff empty_set)
  then have "wait_until c s lp \<noteq> None" unfolding w foldl_min(1) by blast
  then obtain t where t: "wait_until c s lp = Some t" by blast
  have "\<forall>h \<in> set ?idle. t \<le> next_probe s h"
    using foldl_min(2) [where f = "dget_or 0 (sd_next_probe_at s)", OF t [unfolded w]]
    unfolding next_probe_def by (rule conjunct1)
  with t idle show ?thesis by blast
qed

lemma wait_until_refresh:
  assumes "\<not> lp_discovery_pending lp"
  shows "\<exists>t. wait_until c s lp = Some t \<and> t \<le> lp_refresh_at lp"
proof (cases "length (lp_in_flight lp) < mc_max_workers c")
  case True
  let ?idle = "filter (\<lambda>h. h \<notin> set (lp_in_flight_hosts lp)) (lp_active_hosts lp)"
  have w: "wait_until c s lp = foldl (\<lambda>m h. let d = dget_or 0 (sd_next_probe_at s) h in
               Some (case m of None \<Rightarrow> d | Some t \<Rightarrow> min t d)) (Some (lp_refresh_at lp)) ?idle"
    using assms True unfolding wait_until_def Let_def by (simp only: if_True if_False)
  have "wait_until c s lp \<noteq> None" unfolding w foldl_min(1) by blast
  then obtain t where t: "wait_until c s lp = Some t" by blast
  then have "t \<le> lp_refresh_at lp"
    using foldl_min(2) [where f = "dget_or 0 (sd_next_probe_at s)", OF t [unfolded w]] by simp
  with t show ?thesis by blast
next
  case False
  then show ?thesis using assms by (simp add: wait_until_def)
qed

text \<open>C9. No due host waits while a worker is free: after a round, either every worker is busy or each
  host that is not being probed has its deadline in the future, and the thread sleeps no longer
  than to the earliest of these deadlines; without a discovery under way it also wakes for the
  next discovery.\<close>

theorem no_due_host_waits:
  assumes "run_reachable config (Paced c g now, s, lp)" and "wd_now w = now"
    and "submit w c (s, lp) = (s', lp', calls, True)"
  shows "(length (lp_in_flight lp') < mc_max_workers c \<longrightarrow>
      (\<forall>h \<in> set (lp_active_hosts lp') - set (flight_hosts lp').
        now < next_probe s' h \<and> (\<exists>t. wait_until c s' lp' = Some t \<and> t \<le> next_probe s' h)))
    \<and> (\<not> lp_discovery_pending lp' \<longrightarrow> (\<exists>t. wait_until c s' lp' = Some t \<and> t \<le> lp_refresh_at lp'))"
proof -
  have inv: "loop_inv (\<lambda>_. 0) s lp" "distinct (lp_active_hosts lp)"
    using run_invariant [OF assms(1)] by (simp_all add: run_inv_def)
  let ?due = "due_hosts (mc_max_workers c - length (lp_in_flight lp)) now s lp"
  note k = submit_facts [OF assms(3) inv refl, unfolded assms(2)]
  have flight: "set (lp_in_flight_hosts lp') = set (flight_hosts lp')"
    "set (lp_in_flight_hosts lp) = set (flight_hosts lp)"
    by (rule loop_inv_flight [OF k(1)], rule loop_inv_flight [OF inv(1)])
  have same: "next_probe s' = next_probe s" using k(5) by (rule submitted_next_probe)
  have "now < next_probe s' h"
    if free: "length (lp_in_flight lp') < mc_max_workers c"
      and h: "h \<in> set (lp_active_hosts lp')" "h \<notin> set (flight_hosts lp')" for h
  proof (rule ccontr)
    assume "\<not> now < next_probe s' h"
    then have ready: "h \<in> set (ready_hosts now s lp)" "h \<notin> set ?due"
      using h k(2,3) flight by (auto simp: ready_hosts_def same)
    have len: "length ?due = min (mc_max_workers c - length (lp_in_flight lp)) (length (ready_hosts now s lp))"
      by (rule due_hosts_props(3) [OF inv(2)])
    have "length (lp_in_flight lp') = length (lp_in_flight lp) + length ?due"
      using k(2) length_flight by (metis length_append)
    then have "length ?due = length (ready_hosts now s lp)" using free len by linarith
    moreover have "distinct ?due" "distinct (ready_hosts now s lp)" "set ?due \<subseteq> set (ready_hosts now s lp)"
      using due_hosts_props(1,2) [OF inv(2)] inv(2) by (simp_all add: ready_hosts_def)
    ultimately have "set ?due = set (ready_hosts now s lp)"
      by (metis card_subset_eq distinct_card finite_set)
    with ready show False by simp
  qed
  then show ?thesis using wait_until_le wait_until_refresh flight by blast
qed

theorem no_due_host_waits_witness:
  "\<exists>t. wait_until (example_config 2) (fst example_submitted) (fst (snd example_submitted)) = Some t \<and> t \<le> 105"
proof -
  have "wd_now example_world = 100" by (simp add: example_world_def)
  note r = no_due_host_waits [OF example_paced_reachable this example_submitted_eq(1)]
  have "\<not> lp_discovery_pending (fst (snd example_submitted))" by code_simp
  moreover have "lp_refresh_at (fst (snd example_submitted)) = 105" by code_simp
  ultimately show ?thesis using r by simp
qed

section \<open>Manual requests take effect\<close>

lemma note_failure_next:
  assumes "note_failure i t c k s = (s', delay)" "h \<noteq> k"
  shows "next_probe s' h = next_probe s h"
  using assms by (auto simp: note_failure_def Let_def next_probe_def)

lemma drain_one_other:
  assumes "drain_one w f (s, lp, calls) = (s', lp', calls')" and "h \<notin> set (flight_hosts lp)"
  shows "next_probe s' h = next_probe s h \<and> h \<notin> set (flight_hosts lp')
    \<and> sd_manual_requests s' = sd_manual_requests s"
proof (cases "dget (lp_in_flight lp) f = None \<or> wd_done w f = None")
  case True
  then have "drain_one w f (s, lp, calls) = (s, lp, calls)"
    by (auto simp: drain_one_def split: option.split)
  with assms show ?thesis by simp
next
  case False
  then obtain task t outcome where task: "dget (lp_in_flight lp) f = Some task"
    and completed: "wd_done w f = Some (t, outcome)" by auto
  have "sp_host task \<in> set (flight_hosts lp)" using dget_mem [OF task] by (force simp: flight_hosts_def)
  then have other: "h \<noteq> sp_host task" using assms(2) by auto
  define lp1 where "lp1 = lp\<lparr>lp_in_flight := dpop (lp_in_flight lp) f,
      lp_in_flight_hosts := remove_host_entry (sp_host task) (lp_in_flight_hosts lp)\<rparr>"
  define s1 where "s1 = s\<lparr>sd_runtime_in_flight := remove_host_entry (sp_host task) (sd_runtime_in_flight s)\<rparr>"
  obtain lp2 duration where close: "close_batch t (sp_batch_id task) lp1 = (lp2, duration)" by fastforce
  obtain s3 delay where failed: "note_failure (wd_interval w) t (sd_config s1) (sp_host task) s1 = (s3, delay)"
    by fastforce
  have "set (flight_hosts lp2) \<subseteq> set (flight_hosts lp)"
    using close_batch_same [OF close] subsetD [OF set_dpop] by (fastforce simp: flight_hosts_def lp1_def)
  then have gone: "h \<notin> set (flight_hosts lp2)" using assms(2) by blast
  note body = assms(1) [unfolded drain_one_def Let_def prod.case task completed option.case,
      folded lp1_def s1_def, unfolded close prod.case failed]
  have "sd_manual_requests s3 = sd_manual_requests s" "next_probe s3 h = next_probe s h"
    using note_failure_same [OF failed] note_failure_next [OF failed other] by (simp_all add: s1_def next_probe_def)
  moreover have "next_probe (s1\<lparr>sd_failure_counts := a, sd_backoff_policies := b,
      sd_next_probe_at := dset (sd_next_probe_at s1) (sp_host task) d\<rparr>) h = next_probe s h" for a b d
    using other by (simp add: next_probe_def s1_def)
  moreover have "flight_hosts (lp2\<lparr>lp_healthy_started_at := a, lp_healthy_intervals := b\<rparr>) = flight_hosts lp2" for a b
    by (simp add: flight_hosts_def)
  moreover have "next_probe s1 h = next_probe s h" "sd_manual_requests s1 = sd_manual_requests s"
    by (simp_all add: next_probe_def s1_def)
  ultimately show ?thesis
    using body gone
    by (cases "sp_host task \<in> set (lp_active_hosts lp2)
          \<and> wd_incarnation w (sp_host task) = Some (sp_incarnation task)";
        cases "pr_status (case outcome of Some r \<Rightarrow> r | None \<Rightarrow> unexpected_probe_result (wd_observed_at w) (sp_host task)) = Online")
       auto
qed

lemma drain_other:
  assumes "drain_completed w (s, lp) = (s', lp', calls)" and "h \<notin> set (flight_hosts lp)"
  shows "next_probe s' h = next_probe s h \<and> sd_manual_requests s' = sd_manual_requests s"
proof -
  have "h \<notin> set (flight_hosts lp) \<Longrightarrow> fold (drain_one w) fs (s, lp, calls) = (s', lp', calls') \<Longrightarrow>
      next_probe s' h = next_probe s h \<and> sd_manual_requests s' = sd_manual_requests s"
    for fs s lp calls s' lp' calls'
  proof (induction fs arbitrary: s lp calls)
    case (Cons f fs)
    obtain s1 lp1 calls1 where one: "drain_one w f (s, lp, calls) = (s1, lp1, calls1)" by (metis prod_cases3)
    have "fold (drain_one w) fs (s1, lp1, calls1) = (s', lp', calls')" using Cons.prems(2) one by simp
    then show ?case using Cons.IH [of lp1 s1 calls1] drain_one_other [OF one Cons.prems(1)] by simp
  qed simp
  with assms show ?thesis by (simp add: drain_completed_def)
qed

lemma foldl_zero:
  "dget_or 0 (foldl (\<lambda>d h. dset d h (0 :: rat)) d hs) h = (if h \<in> set hs then 0 else dget_or 0 d h)"
  by (induction hs arbitrary: d) (auto simp: dget_or_def)

lemma repace_one:
  assumes "repace i c (k, t) (s, lp) = (s', lp')"
  shows "sd_failure_counts s' = sd_failure_counts s"
    and "next_probe s' h \<noteq> next_probe s h \<Longrightarrow> k = h
      \<and> dget (lp_healthy_intervals lp) h \<noteq> Some (host_poll_interval i h c) \<and> dget (sd_failure_counts s) h = None
      \<and> next_probe s' h = t + host_poll_interval i h c
      \<and> dget (lp_healthy_intervals lp') h = Some (host_poll_interval i h c)"
    and "dget (lp_healthy_intervals lp) h = Some (host_poll_interval i h c)
      \<Longrightarrow> dget (lp_healthy_intervals lp') h = Some (host_poll_interval i h c)"
    and "dget (lp_healthy_intervals lp') h \<noteq> Some (host_poll_interval i h c)
      \<Longrightarrow> dget (lp_healthy_intervals lp) h \<noteq> Some (host_poll_interval i h c)"
  using assms by (auto simp: repace_def Let_def next_probe_def split: if_splits)

lemma repace_all:
  assumes "fold (repace i c) es (s, lp) = (s', lp')"
  shows "next_probe s' h = next_probe s h \<or> (\<exists>t. (h, t) \<in> set es
    \<and> dget (lp_healthy_intervals lp) h \<noteq> Some (host_poll_interval i h c) \<and> dget (sd_failure_counts s) h = None
    \<and> next_probe s' h = t + host_poll_interval i h c)"
  using assms
proof (induction es arbitrary: s lp)
  case (Cons e es)
  obtain k t where e: "e = (k, t)" by fastforce
  obtain s1 lp1 where one: "repace i c (k, t) (s, lp) = (s1, lp1)" by fastforce
  have "fold (repace i c) es (s1, lp1) = (s', lp')" using Cons.prems by (simp add: e one)
  note IH = Cons.IH [OF this] and R = repace_one [OF one]
  show ?case
  proof (cases "next_probe s1 h = next_probe s h")
    case True
    show ?thesis
    proof (cases "next_probe s' h = next_probe s1 h")
      case False
      then obtain u where "(h, u) \<in> set es" "next_probe s' h = u + host_poll_interval i h c"
        "dget (lp_healthy_intervals lp1) h \<noteq> Some (host_poll_interval i h c)" "dget (sd_failure_counts s1) h = None"
        using IH by blast
      then show ?thesis using R(1) R(4) [of h] by (intro disjI2 exI [of _ u]) simp
    qed (simp add: True)
  next
    case False
    note r = R(2) [OF False]
    then have "next_probe s' h = next_probe s1 h" using IH by blast
    then show ?thesis using r by (intro disjI2 exI [of _ t]) (simp add: e)
  qed
qed simp

text \<open>C10. A queued manual request takes effect in the next round: its host, when idle and monitored, gets
  the earliest deadline there is, and stays queued until it is dispatched. The one exception is a
  healthy host whose poll interval changed at the same time: the re-pacing that follows overwrites
  the deadline with the paced one, so the request waits for the round after.\<close>

theorem manual_request_takes_effect:
  assumes "run_reachable config (Synced c g now, s, lp)"
    and "pace w c (s, lp) = (s', lp', calls)"
    and "h \<in> set (sd_manual_requests s)" "h \<in> set (lp_active_hosts lp)" "h \<notin> set (sd_runtime_in_flight s)"
  shows "h \<in> set (sd_manual_requests s')
    \<and> (next_probe s' h = 0
      \<or> (\<exists>t. (h, t) \<in> set (lp_healthy_started_at lp) \<and> dget (sd_failure_counts s) h = None
          \<and> dget (lp_healthy_intervals lp) h \<noteq> Some (host_poll_interval (wd_interval w) h c)
          \<and> next_probe s' h = t + host_poll_interval (wd_interval w) h c))"
proof -
  have "run_inv (Synced c g now) s lp" using run_invariant [OF assms(1)] by simp
  then have idle: "h \<notin> set (flight_hosts lp)" using assms(5) by (simp add: run_inv_def loop_inv_def)
  obtain s1 calls1 where r: "rebase_failure_backoff (wd_interval w) (wd_now w) c s = (s1, calls1)"
    by fastforce
  obtain n p where s1: "s1 = s\<lparr>sd_next_probe_at := n, sd_backoff_policies := p\<rparr>"
    using rebase_frame [OF r] by blast
  define m where "m = foldl (\<lambda>d h. dset d h 0) (sd_next_probe_at s1) (manually_due s1 lp)"
  have "h \<in> set (manually_due s1 lp)" using assms(3-5) by (simp add: manually_due_def s1)
  then have zero: "next_probe (s1\<lparr>sd_next_probe_at := m\<rparr>) h = 0"
    by (simp add: next_probe_def m_def foldl_zero)
  obtain s2 lp2 where f: "fold (repace (wd_interval w) c) (lp_healthy_started_at lp)
      (s1\<lparr>sd_next_probe_at := m\<rparr>, lp) = (s2, lp2)" by fastforce
  obtain n2 i where s2: "s2 = s1\<lparr>sd_next_probe_at := n2\<rparr>" "lp2 = lp\<lparr>lp_healthy_intervals := i\<rparr>"
    using repace_all_frame [of "wd_interval w" c "lp_healthy_started_at lp" "s1\<lparr>sd_next_probe_at := m\<rparr>" lp] f
    by fastforce
  obtain drained where d: "drain_completed w (s2, lp2) = (s', lp', drained)"
    using assms(2) unfolding pace_def Let_def prod.case r m_def [symmetric] f by (auto split: prod.splits)
  have "h \<notin> set (flight_hosts lp2)" using idle by (simp add: s2 flight_hosts_def)
  from drain_other [OF d this] have "next_probe s' h = next_probe s2 h" "sd_manual_requests s' = sd_manual_requests s"
    by (simp_all add: s2 s1)
  with repace_all [OF f, of h] zero assms(3) show ?thesis by (simp add: s1) blast
qed

definition example_requested where
  "example_requested = snd (request_probe 100 ''b'' (fst example_synced))"

theorem manual_request_takes_effect_witness:
  "next_probe (fst (pace example_world (example_config 2) (example_requested, fst (snd example_synced)))) ''b'' = 0"
proof -
  let ?p = "pace example_world (example_config 2) (example_requested, fst (snd example_synced))"
  have "run_step (Synced (example_config 2) 0 100, fst example_synced, fst (snd example_synced))
      (Synced (example_config 2) 0 100, example_requested, fst (snd example_synced))"
    by (rule manual_request [where now = 100 and host = "''b''"
          and reply = "fst (request_probe 100 ''b'' (fst example_synced))"]) (simp add: example_requested_def)
  then have r: "run_reachable (example_config 2)
      (Synced (example_config 2) 0 100, example_requested, fst (snd example_synced))"
    using example_synced_reachable by (rule run_next [rotated])
  have p: "?p = (fst ?p, fst (snd ?p), snd (snd ?p))" by simp
  have "''b'' \<in> set (sd_manual_requests example_requested)"
    "''b'' \<in> set (lp_active_hosts (fst (snd example_synced)))"
    "''b'' \<notin> set (sd_runtime_in_flight example_requested)"
    "lp_healthy_started_at (fst (snd example_synced)) = []" by code_simp+
  with manual_request_takes_effect [OF r p] show ?thesis by simp
qed

end
