(* ===== verification/Webhook_Worker.thy ===== *)
theory Webhook_Worker
  imports Config Incident_Types Crc32
begin

text \<open>
  One webhook endpoint (\<open>_WebhookWorker\<close> of \<open>notifications.py\<close>): its bounded queue, the memory of
  the event ids it has seen, the delivery loop with its retries and throttle, and the pairing of
  recoveries with what the receiver was told. The calls of other threads (\<open>publish\<close>, \<open>test\<close>,
  \<open>close\<close>) and the worker thread interleave at the critical sections of the status lock.
\<close>

section \<open>State\<close>

definition queue_capacity :: nat where "queue_capacity = 1024"

definition seen_capacity :: nat where "seen_capacity = 4096"

record envelope =
  en_event :: event
  en_correlation :: "obj option"
  en_is_test :: bool

text \<open>\<open>wk_hand\<close> is the item the thread took from the queue and has not settled; \<open>wk_last_test_queued_at\<close>
  is \<open>None\<close> for minus infinity. Sets and the ordered dictionary are lists.\<close>

record worker =
  wk_queue :: "envelope list"
  wk_hand :: "envelope option"
  wk_stop :: bool
  wk_closing :: bool
  wk_alive :: bool
  wk_seen_order :: "nat list"
  wk_seen :: "nat list"
  wk_dropped :: nat
  wk_suppressed :: nat
  wk_delivered :: nat
  wk_last_error :: "string option"
  wk_last_attempt_at :: "string option"
  wk_last_success_at :: "string option"
  wk_last_test_queued_at :: "rat option"
  wk_closed :: bool
  wk_active :: "(string \<times> string) list"
  wk_saturated :: bool
  wk_next_delivery_at :: rat

text \<open>\<open>while len(d) > capacity: d.popitem(last=False)\<close>, and whether it removed anything.\<close>

definition evict_oldest :: "nat \<Rightarrow> 'a list \<Rightarrow> 'a list" where
  "evict_oldest n xs = drop (length xs - n) xs"

text \<open>\<open>d[k] = None\<close> on an ordered dictionary: a new key goes to the end.\<close>

definition ordered_insert :: "'a list \<Rightarrow> 'a \<Rightarrow> 'a list" where
  "ordered_insert xs x = (if x \<in> set xs then xs else xs @ [x])"

definition new_worker :: "(string \<times> string) list \<Rightarrow> worker" where
  "new_worker known_conditions =
    (let active = foldl ordered_insert [] known_conditions in
     \<lparr>wk_queue = [], wk_hand = None, wk_stop = False, wk_closing = False, wk_alive = True,
      wk_seen_order = [], wk_seen = [], wk_dropped = 0, wk_suppressed = 0, wk_delivered = 0,
      wk_last_error = None, wk_last_attempt_at = None, wk_last_success_at = None,
      wk_last_test_queued_at = None, wk_closed = False,
      wk_active = evict_oldest seen_capacity active,
      wk_saturated = (seen_capacity < length active), wk_next_delivery_at = 0\<rparr>)"

section \<open>Publishing\<close>

text \<open>\<open>deque.popleft\<close> and \<open>set.discard\<close> until the memory fits.\<close>

fun forget_seen :: "nat list \<Rightarrow> nat list \<Rightarrow> nat list \<times> nat list" where
  "forget_seen [] seen = ([], seen)"
| "forget_seen (x # order) seen =
    (if seen_capacity < length (x # order) then forget_seen order (removeAll x seen)
     else (x # order, seen))"

definition publish :: "webhook_config \<Rightarrow> envelope \<Rightarrow> worker \<Rightarrow> worker" where
  "publish config envelope w =
    (let event_id = ev_event_id (en_event envelope) in
     if state_text (ev_state (en_event envelope)) \<notin> set (wh_events config) then w
     else if wk_closed w then
       w\<lparr>wk_dropped := wk_dropped w + 1, wk_last_error := Some ''notification endpoint is closed''\<rparr>
     else if event_id \<in> set (wk_seen w) then w
     else if queue_capacity \<le> length (wk_queue w) then
       w\<lparr>wk_dropped := wk_dropped w + 1, wk_last_error := Some ''delivery queue is full''\<rparr>
     else
       (let (order, seen) = forget_seen (wk_seen_order w @ [event_id]) (event_id # wk_seen w)
        in w\<lparr>wk_queue := wk_queue w @ [envelope], wk_seen_order := order, wk_seen := seen\<rparr>))"

definition test_available :: "rat \<Rightarrow> worker \<Rightarrow> bool" where
  "test_available now w \<longleftrightarrow>
    \<not> wk_closed w
    \<and> (case wk_last_test_queued_at w of None \<Rightarrow> True | Some t \<Rightarrow> 30 \<le> now - t)
    \<and> \<not> queue_capacity \<le> length (wk_queue w)"

definition queue_test :: "envelope \<Rightarrow> rat \<Rightarrow> worker \<Rightarrow> worker" where
  "queue_test envelope now w =
    w\<lparr>wk_queue := wk_queue w @ [envelope], wk_last_test_queued_at := Some now\<rparr>"

definition worker_status :: "string \<Rightarrow> worker \<Rightarrow> obj" where
  "worker_status name w =
    [(''name'', PStr name),
     (''healthy'', PBool (wk_last_error w = None \<and> wk_alive w)),
     (''queuedDeliveries'', PInt (int (length (wk_queue w)))),
     (''deliveredEvents'', PInt (int (wk_delivered w))),
     (''droppedDeliveries'', PInt (int (wk_dropped w))),
     (''suppressedDeliveries'', PInt (int (wk_suppressed w))),
     (''lastError'', popt PStr (wk_last_error w)),
     (''lastAttemptAt'', popt PStr (wk_last_attempt_at w)),
     (''lastSuccessAt'', popt PStr (wk_last_success_at w))]"

text \<open>\<open>close\<close> in three critical sections: the announcement, the forced cancellation of a thread that
  is still running after half of the time, and the note that it outlived all of it.\<close>

definition close_begin :: "worker \<Rightarrow> worker" where
  "close_begin w = w\<lparr>wk_closed := True, wk_closing := True\<rparr>"

definition close_force :: "worker \<Rightarrow> worker" where
  "close_force w = (if wk_alive w then w\<lparr>wk_stop := True\<rparr> else w)"

definition close_report :: "worker \<Rightarrow> worker" where
  "close_report w =
    (if wk_alive w then w\<lparr>wk_last_error := Some ''notification worker did not stop cleanly''\<rparr> else w)"

section \<open>Delivery\<close>

record delivery_result =
  dr_success :: bool
  dr_retryable :: bool
  dr_error_code :: "string option"

datatype check_outcome = No_Check | Check_Raised | Check_Says bool

text \<open>What one attempt meets: the stop flag during the two waits, the clock before the throttle and
  after the send, the answer of the check, and the sender's result (\<open>None\<close> when it raised).\<close>

record attempt =
  at_stop_in_backoff :: bool
  at_now :: rat
  at_stop_in_throttle :: bool
  at_check :: check_outcome
  at_started_at :: string
  at_result :: "delivery_result option"
  at_finished :: rat

datatype outcome = Delivered | Suppressed | Failed string | Interrupted

text \<open>\<open>dl_backoffs\<close> and \<open>dl_throttles\<close> are the waits asked for, \<open>dl_sends\<close> the times of the sends.\<close>

record delivery =
  dl_next_delivery_at :: rat
  dl_last_attempt_at :: "string option"
  dl_backoffs :: "rat list"
  dl_throttles :: "rat list"
  dl_sends :: nat

definition still_actionable :: "envelope \<Rightarrow> check_outcome \<Rightarrow> bool" where
  "still_actionable envelope check =
    (if en_is_test envelope then True
     else (case check of No_Check \<Rightarrow> True | Check_Raised \<Rightarrow> True | Check_Says b \<Rightarrow> b))"

definition retry_delay :: "webhook_config \<Rightarrow> nat \<Rightarrow> nat \<Rightarrow> rat" where
  "retry_delay config event_id attempt =
    (let jitter = crc_unit (wh_name config @ [CHR 0x00] @ int_str (int event_id))
     in wh_retry_base_seconds config * 2 ^ (attempt - 1) * (85 / 100 + 3 / 10 * jitter))"

definition text_code :: "string option \<Rightarrow> string" where
  "text_code code = (case code of Some (c # cs) \<Rightarrow> c # cs | _ \<Rightarrow> ''delivery_failed'')"

text \<open>The loop over the attempts; \<open>n\<close> are left, \<open>k\<close> is the number of this one.\<close>

fun attempts ::
  "webhook_config \<Rightarrow> envelope \<Rightarrow> (nat \<Rightarrow> attempt) \<Rightarrow> nat \<Rightarrow> nat \<Rightarrow> string \<Rightarrow> delivery \<Rightarrow> outcome \<times> delivery" where
  "attempts config item world 0 k code d = (Failed code, d)"
| "attempts config item world (Suc n) k code d =
    (let a = world k;
         d = (if k = 0 then d
              else d\<lparr>dl_backoffs := dl_backoffs d @ [retry_delay config (ev_event_id (en_event item)) k]\<rparr>)
     in if 0 < k \<and> at_stop_in_backoff a then (Interrupted, d)
        else
          (let d = d\<lparr>dl_throttles := dl_throttles d @ [max 0 (dl_next_delivery_at d - at_now a)]\<rparr>
           in if at_stop_in_throttle a then (Interrupted, d)
              else if \<not> still_actionable item (at_check a) then (Suppressed, d)
              else
                (let result = (case at_result a of Some r \<Rightarrow> r
                       | None \<Rightarrow> \<lparr>dr_success = False, dr_retryable = True,
                                  dr_error_code = Some ''sender_internal_failure''\<rparr>);
                     d = d\<lparr>dl_next_delivery_at := at_finished a + wh_min_interval_seconds config,
                          dl_last_attempt_at := Some (at_started_at a), dl_sends := dl_sends d + 1\<rparr>
                 in if dr_success result then (Delivered, d)
                    else if \<not> dr_retryable result then (Failed (text_code (dr_error_code result)), d)
                    else attempts config item world n (Suc k) (text_code (dr_error_code result)) d)))"

definition condition_key :: "envelope \<Rightarrow> string \<times> string" where
  "condition_key item = (ev_host (en_event item), ic_key (ev_condition (en_event item)))"

definition paired_delivery :: "webhook_config \<Rightarrow> envelope \<Rightarrow> bool" where
  "paired_delivery config item \<longleftrightarrow>
    \<not> en_is_test item \<and> {''opened'', ''resolved''} \<subseteq> set (wh_events config)"

definition unpaired :: "webhook_config \<Rightarrow> envelope \<Rightarrow> worker \<Rightarrow> bool" where
  "unpaired config item w \<longleftrightarrow>
    paired_delivery config item \<and> ev_state (en_event item) = Resolved
    \<and> condition_key item \<notin> set (wk_active w) \<and> \<not> wk_saturated w"

text \<open>The thread takes the next item, and drops an unpaired recovery at once.\<close>

definition take_item :: "webhook_config \<Rightarrow> worker \<Rightarrow> worker" where
  "take_item config w =
    (case wk_queue w of
       [] \<Rightarrow> w
     | item # rest \<Rightarrow>
         (let w = w\<lparr>wk_queue := rest\<rparr> in
          if unpaired config item w then w\<lparr>wk_suppressed := wk_suppressed w + 1\<rparr>
          else w\<lparr>wk_hand := Some item\<rparr>))"

definition remember_active :: "webhook_config \<Rightarrow> envelope \<Rightarrow> worker \<Rightarrow> worker" where
  "remember_active config item w =
    (if paired_delivery config item \<and> ev_state (en_event item) = Resolved then
       w\<lparr>wk_active := removeAll (condition_key item) (wk_active w)\<rparr>
     else if paired_delivery config item then
       (let active = removeAll (condition_key item) (wk_active w) @ [condition_key item]
        in w\<lparr>wk_active := evict_oldest seen_capacity active,
             wk_saturated := (wk_saturated w \<or> seen_capacity < length active)\<rparr>)
     else w)"

text \<open>The delivery of the item in hand; an interrupted one ends the thread.\<close>

definition deliver_item ::
  "webhook_config \<Rightarrow> (nat \<Rightarrow> attempt) \<Rightarrow> string \<Rightarrow> worker \<Rightarrow> outcome \<times> worker" where
  "deliver_item config world succeeded_at w =
    (case wk_hand w of
       None \<Rightarrow> (Interrupted, w)
     | Some item \<Rightarrow>
         (let (outcome, d) = attempts config item world (wh_max_attempts config) 0 ''delivery_failed''
                \<lparr>dl_next_delivery_at = wk_next_delivery_at w, dl_last_attempt_at = wk_last_attempt_at w,
                 dl_backoffs = [], dl_throttles = [], dl_sends = 0\<rparr>;
              w = w\<lparr>wk_hand := None, wk_next_delivery_at := dl_next_delivery_at d,
                    wk_last_attempt_at := dl_last_attempt_at d\<rparr>
          in (outcome, case outcome of
               Delivered \<Rightarrow> remember_active config item
                 (w\<lparr>wk_delivered := wk_delivered w + 1, wk_last_error := None,
                    wk_last_success_at := Some succeeded_at\<rparr>)
             | Suppressed \<Rightarrow> w\<lparr>wk_suppressed := wk_suppressed w + 1\<rparr>
             | Failed code \<Rightarrow> w\<lparr>wk_dropped := wk_dropped w + 1, wk_last_error := Some code\<rparr>
             | Interrupted \<Rightarrow> w\<lparr>wk_alive := False\<rparr>)))"

text \<open>The thread ends when it is told to close and the queue is empty.\<close>

definition exit_thread :: "worker \<Rightarrow> worker" where
  "exit_thread w = (if wk_closing w \<and> wk_queue w = [] then w\<lparr>wk_alive := False\<rparr> else w)"

end
