(* ===== verification/Webhook_Runs.thy ===== *)
theory Webhook_Runs
  imports Webhook_Worker
begin

text \<open>
  Runs of a webhook worker: the calls of the other threads and the steps of the delivery thread in
  any order, with a ledger of what was offered, accepted and settled. The verdict on an offered event
  is specified here, not read off the worker. The invariant gives the bounds of the queue and the
  memories, the exact accounting, and the pairing of recoveries.
\<close>

section \<open>Steps\<close>

datatype fate = Unpaired_Recovery | Ended outcome

datatype verdict = Unsubscribed | Repeated | Refused | Accepted

record ledger =
  lg_offered :: "(envelope \<times> verdict) list"
  lg_accepted :: "envelope list"
  lg_settled :: "(envelope \<times> fate) list"

definition empty_ledger :: ledger where
  "empty_ledger = \<lparr>lg_offered = [], lg_accepted = [], lg_settled = []\<rparr>"

abbreviation event_id :: "envelope \<Rightarrow> nat" where
  "event_id item \<equiv> ev_event_id (en_event item)"

definition accepted_ids :: "ledger \<Rightarrow> nat list" where
  "accepted_ids lg = map event_id (filter (\<lambda>e. \<not> en_is_test e) (lg_accepted lg))"

text \<open>What an endpoint owes an event offered to it: it ignores the states it does not subscribe to,
  refuses everything once it is closed, ignores an event it accepted among its last 4096, refuses
  what does not fit its queue, and accepts the rest.\<close>

definition verdict_on :: "webhook_config \<Rightarrow> worker \<Rightarrow> ledger \<Rightarrow> envelope \<Rightarrow> verdict" where
  "verdict_on c w lg item =
    (if state_text (ev_state (en_event item)) \<notin> set (wh_events c) then Unsubscribed
     else if wk_closed w then Refused
     else if event_id item \<in> set (deque_of seen_capacity (accepted_ids lg)) then Repeated
     else if length (wk_queue w) < queue_capacity then Accepted
     else Refused)"

text \<open>The ledger after an offer depends on the worker before it only.\<close>

definition note_publish :: "webhook_config \<Rightarrow> envelope \<Rightarrow> worker \<Rightarrow> ledger \<Rightarrow> ledger" where
  "note_publish c item w lg =
    lg\<lparr>lg_offered := lg_offered lg @ [(item, verdict_on c w lg item)],
       lg_accepted := lg_accepted lg @ (if verdict_on c w lg item = Accepted then [item] else [])\<rparr>"

definition offers :: "verdict \<Rightarrow> ledger \<Rightarrow> envelope list" where
  "offers v lg = map fst (filter (\<lambda>e. snd e = v) (lg_offered lg))"

definition note_settled :: "envelope \<Rightarrow> fate \<Rightarrow> ledger \<Rightarrow> ledger" where
  "note_settled item fate lg = lg\<lparr>lg_settled := lg_settled lg @ [(item, fate)]\<rparr>"

text \<open>A wait returns early only when the stop flag is set; once set it stays set.\<close>

inductive worker_step :: "webhook_config \<Rightarrow> worker \<times> ledger \<Rightarrow> worker \<times> ledger \<Rightarrow> bool" for c where
  call_publish: "\<not> en_is_test item \<Longrightarrow>
    worker_step c (w, lg) (publish c item w, note_publish c item w lg)"
| call_test: "en_is_test item \<Longrightarrow> test_available now w \<Longrightarrow>
    worker_step c (w, lg) (queue_test item now w, lg\<lparr>lg_accepted := lg_accepted lg @ [item]\<rparr>)"
| take_unpaired: "wk_alive w \<Longrightarrow> wk_hand w = None \<Longrightarrow> wk_queue w = item # rest \<Longrightarrow> unpaired c item w \<Longrightarrow>
    worker_step c (w, lg) (take_item c w, note_settled item Unpaired_Recovery lg)"
| take_deliverable: "wk_alive w \<Longrightarrow> wk_hand w = None \<Longrightarrow> wk_queue w = item # rest \<Longrightarrow> \<not> unpaired c item w \<Longrightarrow>
    worker_step c (w, lg) (take_item c w, lg)"
| delivery: "wk_alive w \<Longrightarrow> wk_hand w = Some item \<Longrightarrow>
    (\<And>k. at_stop_in_backoff (world k) \<or> at_stop_in_throttle (world k) \<Longrightarrow> wk_stop w) \<Longrightarrow>
    deliver_item c world now w = (out, w') \<Longrightarrow>
    worker_step c (w, lg) (w', note_settled item (Ended out) lg)"
| thread_exit: "wk_alive w \<Longrightarrow> wk_hand w = None \<Longrightarrow> worker_step c (w, lg) (exit_thread w, lg)"
| closing: "worker_step c (w, lg) (close_begin w, lg)"
| forcing: "wk_closed w \<Longrightarrow> worker_step c (w, lg) (close_force w, lg)"
| reporting: "wk_stop w \<Longrightarrow> worker_step c (w, lg) (close_report w, lg)"

inductive worker_reachable :: "webhook_config \<Rightarrow> (string \<times> string) list \<Rightarrow> worker \<times> ledger \<Rightarrow> bool"
  for c known where
  worker_start: "worker_reachable c known (new_worker known, empty_ledger)"
| worker_next: "worker_reachable c known x \<Longrightarrow> worker_step c x y \<Longrightarrow> worker_reachable c known y"

section \<open>What the receiver was told\<close>

text \<open>Pairing concerns the endpoints that subscribe to openings and to recoveries, and the events
  other than tests.\<close>

definition pairs :: "webhook_config \<Rightarrow> envelope \<Rightarrow> bool" where
  "pairs c item \<longleftrightarrow> \<not> en_is_test item \<and> ''opened'' \<in> set (wh_events c) \<and> ''resolved'' \<in> set (wh_events c)"

lemma paired_delivery_pairs [simp]: "paired_delivery c item = pairs c item"
  by (auto simp: paired_delivery_def pairs_def)

text \<open>The conditions the receiver knows to be open after some settled items.\<close>

definition tell :: "webhook_config \<Rightarrow> envelope \<times> fate \<Rightarrow> (string \<times> string) set \<Rightarrow> (string \<times> string) set" where
  "tell c entry known =
    (let (item, fate) = entry in
     if fate \<noteq> Ended Delivered \<or> \<not> pairs c item then known
     else if ev_state (en_event item) = Resolved then known - {condition_key item}
     else insert (condition_key item) known)"

definition told :: "webhook_config \<Rightarrow> (string \<times> string) list \<Rightarrow> (envelope \<times> fate) list \<Rightarrow> (string \<times> string) set" where
  "told c known settled = fold (tell c) settled (set known)"

lemma told_Nil [simp]: "told c known [] = set known"
  by (simp add: told_def)

lemma told_snoc [simp]: "told c known (xs @ [x]) = tell c x (told c known xs)"
  by (simp add: told_def)

section \<open>The seen memory\<close>

lemma forget_seen_eq:
  assumes "distinct order" "set seen = set order"
  shows "fst (forget_seen order seen) = deque_of seen_capacity order
    \<and> set (snd (forget_seen order seen)) = set (deque_of seen_capacity order)"
  using assms
proof (induction order seen rule: forget_seen.induct)
  case (2 x order seen)
  show ?case
  proof (cases "seen_capacity < length (x # order)")
    case True
    have "set (removeAll x seen) = set order" using "2.prems" by auto
    then have "fst (forget_seen order (removeAll x seen)) = deque_of seen_capacity order
        \<and> set (snd (forget_seen order (removeAll x seen))) = set (deque_of seen_capacity order)"
      using "2.IH" [OF True] "2.prems"(1) by simp
    moreover have "deque_of seen_capacity (x # order) = deque_of seen_capacity order"
      using True by (simp add: deque_of_def Suc_diff_le)
    ultimately show ?thesis using True by simp
  next
    case False
    then show ?thesis using "2.prems" by (simp add: deque_of_short)
  qed
qed (simp add: deque_of_def)

text \<open>Equal ids are at least \<open>n\<close> apart.\<close>

definition spaced :: "nat \<Rightarrow> 'a list \<Rightarrow> bool" where
  "spaced n xs \<longleftrightarrow> (\<forall>i j. i < j \<and> j < length xs \<and> xs ! i = xs ! j \<longrightarrow> n \<le> j - i)"

lemma spaced_snoc:
  assumes "spaced n xs" "x \<notin> set (deque_of n xs)"
  shows "spaced n (xs @ [x])"
proof (unfold spaced_def, intro allI impI)
  fix i j
  assume a: "i < j \<and> j < length (xs @ [x]) \<and> (xs @ [x]) ! i = (xs @ [x]) ! j"
  show "n \<le> j - i"
  proof (cases "j < length xs")
    case True
    then have "i < length xs" using a by simp
    with True have "xs ! i = xs ! j" using a by (auto simp: nth_append)
    then show ?thesis using a True assms(1) unfolding spaced_def by blast
  next
    case False
    then have j: "j = length xs" and i: "i < length xs" using a by auto
    have "xs ! i = x" using a i j by (simp add: nth_append)
    show ?thesis
    proof (rule ccontr)
      assume "\<not> n \<le> j - i"
      then have "length xs - n \<le> i" using j by simp
      then have "drop (length xs - n) xs ! (i - (length xs - n)) = xs ! i"
        "i - (length xs - n) < length (drop (length xs - n) xs)" using i by auto
      then have "xs ! i \<in> set (drop (length xs - n) xs)" by (metis nth_mem)
      then show False using assms(2) \<open>xs ! i = x\<close> by (simp add: deque_of_def)
    qed
  qed
qed

lemma spaced_distinct_deque:
  assumes "spaced n xs"
  shows "distinct (deque_of n xs)"
proof (unfold distinct_conv_nth, intro allI impI)
  fix i j
  let ?d = "deque_of n xs" and ?s = "length xs - n"
  assume i: "i < length ?d" and j: "j < length ?d" and "i \<noteq> j"
  have nth: "?d ! k = xs ! (?s + k)" if "k < length ?d" for k
    using that by (simp add: deque_of_def)
  have len: "?s + k < length xs" if "k < length ?d" for k using that by auto
  have "length ?d \<le> n" by simp
  have "?d ! a \<noteq> ?d ! b" if "a < b" "b < length ?d" for a b
  proof
    assume "?d ! a = ?d ! b"
    then have "xs ! (?s + a) = xs ! (?s + b)" using nth that by simp
    then have "n \<le> (?s + b) - (?s + a)"
      using assms len that unfolding spaced_def by (metis nat_add_left_cancel_less)
    then show False using that \<open>length ?d \<le> n\<close> by linarith
  qed
  with i j \<open>i \<noteq> j\<close> show "?d ! i \<noteq> ?d ! j" by (metis nat_neq_iff)
qed

section \<open>The invariant\<close>

definition hand_list :: "worker \<Rightarrow> envelope list" where
  "hand_list w = (case wk_hand w of None \<Rightarrow> [] | Some item \<Rightarrow> [item])"

definition fates :: "(fate \<Rightarrow> bool) \<Rightarrow> ledger \<Rightarrow> nat" where
  "fates P lg = length (filter (\<lambda>e. P (snd e)) (lg_settled lg))"

fun is_failed :: "fate \<Rightarrow> bool" where
  "is_failed (Ended (Failed code)) = True"
| "is_failed _ = False"

text \<open>The order of the queue, the counters, and the memory of seen ids.\<close>

definition ledger_inv :: "worker \<Rightarrow> ledger \<Rightarrow> bool" where
  "ledger_inv w lg \<longleftrightarrow>
    lg_accepted lg = map fst (lg_settled lg) @ hand_list w @ wk_queue w
    \<and> filter (\<lambda>e. \<not> en_is_test e) (lg_accepted lg) = offers Accepted lg
    \<and> length (wk_queue w) \<le> queue_capacity
    \<and> wk_delivered w = fates (\<lambda>f. f = Ended Delivered) lg
    \<and> wk_suppressed w = fates (\<lambda>f. f = Unpaired_Recovery \<or> f = Ended Suppressed) lg
    \<and> wk_dropped w = fates is_failed lg + length (offers Refused lg)
    \<and> (wk_alive w \<longrightarrow> fates (\<lambda>f. f = Ended Interrupted) lg = 0)
    \<and> fates (\<lambda>f. f = Ended Interrupted) lg \<le> 1
    \<and> (fates (\<lambda>f. f = Ended Interrupted) lg = 1 \<longrightarrow> wk_stop w)"

definition seen_inv :: "worker \<Rightarrow> ledger \<Rightarrow> bool" where
  "seen_inv w lg \<longleftrightarrow>
    wk_seen_order w = deque_of seen_capacity (accepted_ids lg)
    \<and> set (wk_seen w) = set (wk_seen_order w) \<and> spaced seen_capacity (accepted_ids lg)"

text \<open>The table of active conditions is what the receiver was told, less what was evicted.\<close>

definition pairing_inv :: "webhook_config \<Rightarrow> (string \<times> string) list \<Rightarrow> worker \<Rightarrow> ledger \<Rightarrow> bool" where
  "pairing_inv c known w lg \<longleftrightarrow>
    set (wk_active w) \<subseteq> told c known (lg_settled lg)
    \<and> (\<not> wk_saturated w \<longrightarrow> set (wk_active w) = told c known (lg_settled lg))
    \<and> length (wk_active w) \<le> seen_capacity \<and> distinct (wk_active w)
    \<and> (\<forall>item. wk_hand w = Some item \<longrightarrow> \<not> unpaired c item w)"

text \<open>What every settled item kept of the pairing.\<close>

definition history_inv :: "webhook_config \<Rightarrow> (string \<times> string) list \<Rightarrow> worker \<Rightarrow> ledger \<Rightarrow> bool" where
  "history_inv c known w lg \<longleftrightarrow>
    (\<forall>xs item fate ys. lg_settled lg = xs @ (item, fate) # ys \<longrightarrow>
      (fate = Unpaired_Recovery \<longrightarrow> pairs c item \<and> ev_state (en_event item) = Resolved
        \<and> condition_key item \<notin> told c known xs)
      \<and> (fate = Ended Delivered \<and> pairs c item \<and> ev_state (en_event item) = Resolved \<longrightarrow>
        condition_key item \<in> told c known xs \<or> wk_saturated w))"

lemma fates_settled: "fates P (note_settled item f lg) = fates P lg + (if P f then 1 else 0)"
  by (simp add: fates_def note_settled_def)

lemma fates_same: "lg_settled lg' = lg_settled lg \<Longrightarrow> fates P lg' = fates P lg"
  by (simp add: fates_def)

lemma accepted_ids_settled [simp]: "accepted_ids (note_settled item f lg) = accepted_ids lg"
  by (simp add: accepted_ids_def note_settled_def)

lemma note_settled_fields [simp]:
  "lg_accepted (note_settled item f lg) = lg_accepted lg"
  "offers v (note_settled item f lg) = offers v lg"
  "lg_settled (note_settled item f lg) = lg_settled lg @ [(item, f)]"
  by (simp_all add: note_settled_def offers_def)

lemma history_snoc:
  assumes "history_inv c known w lg" "wk_saturated w \<Longrightarrow> wk_saturated w'"
    and "f = Unpaired_Recovery \<Longrightarrow> pairs c item \<and> ev_state (en_event item) = Resolved
        \<and> condition_key item \<notin> told c known (lg_settled lg)"
    and "f = Ended Delivered \<Longrightarrow> pairs c item \<Longrightarrow> ev_state (en_event item) = Resolved \<Longrightarrow>
        condition_key item \<in> told c known (lg_settled lg) \<or> wk_saturated w'"
  shows "history_inv c known w' (note_settled item f lg)"
proof (unfold history_inv_def, intro allI impI)
  fix xs item' f' ys
  assume split: "lg_settled (note_settled item f lg) = xs @ (item', f') # ys"
  show "(f' = Unpaired_Recovery \<longrightarrow> pairs c item' \<and> ev_state (en_event item') = Resolved
        \<and> condition_key item' \<notin> told c known xs)
      \<and> (f' = Ended Delivered \<and> pairs c item' \<and> ev_state (en_event item') = Resolved \<longrightarrow>
        condition_key item' \<in> told c known xs \<or> wk_saturated w')"
  proof (cases ys rule: rev_cases)
    case Nil
    then have "xs = lg_settled lg" "item' = item" "f' = f" using split by simp_all
    with assms(3,4) show ?thesis by blast
  next
    case (snoc zs z)
    then have "lg_settled lg @ [(item, f)] = (xs @ (item', f') # zs) @ [z]" using split by simp
    then have "lg_settled lg = xs @ (item', f') # zs" by (simp only: append1_eq_conv)
    with assms(1,2) show ?thesis unfolding history_inv_def by blast
  qed
qed

lemma history_same:
  assumes "history_inv c known w lg" "wk_saturated w' = wk_saturated w" "lg_settled lg' = lg_settled lg"
  shows "history_inv c known w' lg'"
  using assms unfolding history_inv_def by simp

subsection \<open>Calls of the other threads\<close>

lemma publish_verdict:
  assumes "seen_inv w lg"
  shows "publish c item w =
    (case verdict_on c w lg item of
       Unsubscribed \<Rightarrow> w
     | Repeated \<Rightarrow> w
     | Refused \<Rightarrow> w\<lparr>wk_dropped := wk_dropped w + 1,
         wk_last_error := Some (if wk_closed w then ''notification endpoint is closed''
           else ''delivery queue is full'')\<rparr>
     | Accepted \<Rightarrow> w\<lparr>wk_queue := wk_queue w @ [item],
         wk_seen_order := fst (forget_seen (wk_seen_order w @ [event_id item]) (event_id item # wk_seen w)),
         wk_seen := snd (forget_seen (wk_seen_order w @ [event_id item]) (event_id item # wk_seen w))\<rparr>)"
proof -
  have "event_id item \<in> set (deque_of seen_capacity (accepted_ids lg)) \<longleftrightarrow> event_id item \<in> set (wk_seen w)"
    using assms by (simp add: seen_inv_def)
  then show ?thesis by (simp add: publish_def verdict_on_def Let_def split_beta)
qed

lemma ledger_inv_queue:
  assumes "ledger_inv w lg" "wk_queue w' = wk_queue w @ new" "length (wk_queue w') \<le> queue_capacity"
    and "wk_hand w' = wk_hand w" "wk_delivered w' = wk_delivered w" "wk_suppressed w' = wk_suppressed w"
    and "wk_alive w' = wk_alive w" "wk_stop w' = wk_stop w"
    and "lg_settled lg' = lg_settled lg" "lg_accepted lg' = lg_accepted lg @ new"
    and "offers Accepted lg' = offers Accepted lg @ filter (\<lambda>e. \<not> en_is_test e) new"
    and "wk_dropped w' + length (offers Refused lg) = wk_dropped w + length (offers Refused lg')"
  shows "ledger_inv w' lg'"
  using assms unfolding ledger_inv_def hand_list_def fates_same [OF assms(9)] by auto

lemma offers_publish:
  "offers v (note_publish c item w lg) = offers v lg @ (if verdict_on c w lg item = v then [item] else [])"
  by (simp add: offers_def note_publish_def)

lemma note_publish_fields [simp]:
  "lg_accepted (note_publish c item w lg)
    = lg_accepted lg @ (if verdict_on c w lg item = Accepted then [item] else [])"
  "lg_settled (note_publish c item w lg) = lg_settled lg"
  by (simp_all add: note_publish_def)

lemma publish_keeps:
  assumes "ledger_inv w lg" "seen_inv w lg" "\<not> en_is_test item"
  shows "ledger_inv (publish c item w) (note_publish c item w lg)"
    and "seen_inv (publish c item w) (note_publish c item w lg)"
proof -
  let ?w = "publish c item w" and ?lg = "note_publish c item w lg"
  note [simp] = publish_verdict [OF assms(2), of c item]
  have quiet: "ledger_inv ?w ?lg \<and> seen_inv ?w ?lg" if "verdict_on c w lg item \<noteq> Accepted"
  proof -
    have len: "length (wk_queue w) \<le> queue_capacity" using assms(1) by (simp add: ledger_inv_def)
    from that have off: "offers Accepted ?lg = offers Accepted lg" "lg_accepted ?lg = lg_accepted lg"
      "lg_settled ?lg = lg_settled lg"
      by (simp_all add: offers_publish)
    from that have "wk_dropped ?w + length (offers Refused lg) = wk_dropped w + length (offers Refused ?lg)"
      "wk_queue ?w = wk_queue w" "wk_hand ?w = wk_hand w" "wk_delivered ?w = wk_delivered w"
      "wk_suppressed ?w = wk_suppressed w" "wk_alive ?w = wk_alive w" "wk_stop ?w = wk_stop w"
      by (cases "verdict_on c w lg item"; simp add: offers_publish)+
    with off len have "ledger_inv ?w ?lg"
      by (intro ledger_inv_queue [where new = "[]", OF assms(1)]) simp_all
    moreover have "accepted_ids ?lg = accepted_ids lg" using that by (simp add: accepted_ids_def)
    ultimately show ?thesis
      using assms(2) that by (cases "verdict_on c w lg item") (simp_all add: seen_inv_def)
  qed
  have "ledger_inv ?w ?lg \<and> seen_inv ?w ?lg" if accepted: "verdict_on c w lg item = Accepted"
  proof -
    have room: "length (wk_queue w) < queue_capacity"
      and new: "event_id item \<notin> set (deque_of seen_capacity (accepted_ids lg))"
      using accepted by (auto simp: verdict_on_def split: if_splits)
    have "ledger_inv ?w ?lg"
      by (rule ledger_inv_queue [where new = "[item]", OF assms(1)])
         (use accepted room assms(3) in \<open>simp_all add: offers_publish\<close>)
    have ids: "accepted_ids ?lg = accepted_ids lg @ [event_id item]"
      using assms(3) accepted by (simp add: accepted_ids_def)
    have order: "wk_seen_order w = deque_of seen_capacity (accepted_ids lg)"
      and seen: "set (wk_seen w) = set (wk_seen_order w)" and sp: "spaced seen_capacity (accepted_ids lg)"
      using assms(2) by (simp_all add: seen_inv_def)
    have "distinct (wk_seen_order w @ [event_id item])"
      using spaced_distinct_deque [OF sp] new order by simp
    moreover have "set (event_id item # wk_seen w) = set (wk_seen_order w @ [event_id item])"
      using seen by simp
    ultimately have f: "fst (forget_seen (wk_seen_order w @ [event_id item]) (event_id item # wk_seen w))
          = deque_of seen_capacity (wk_seen_order w @ [event_id item])
        \<and> set (snd (forget_seen (wk_seen_order w @ [event_id item]) (event_id item # wk_seen w)))
          = set (deque_of seen_capacity (wk_seen_order w @ [event_id item]))"
      by (rule forget_seen_eq)
    have "deque_of seen_capacity (wk_seen_order w @ [event_id item]) = deque_of seen_capacity (accepted_ids ?lg)"
      unfolding ids order by (rule deque_of_append)
    moreover have "spaced seen_capacity (accepted_ids ?lg)"
      unfolding ids by (rule spaced_snoc [OF sp new])
    ultimately have "seen_inv ?w ?lg" using f accepted by (simp add: seen_inv_def)
    then show ?thesis using \<open>ledger_inv ?w ?lg\<close> by blast
  qed
  with quiet have "ledger_inv ?w ?lg \<and> seen_inv ?w ?lg" by blast
  then show "ledger_inv ?w ?lg" "seen_inv ?w ?lg" by blast+
qed

lemma publish_other:
  "wk_active (publish c item w) = wk_active w" "wk_saturated (publish c item w) = wk_saturated w"
  "wk_hand (publish c item w) = wk_hand w" "lg_settled (note_publish c item w lg) = lg_settled lg"
  by (simp_all add: publish_def note_publish_def Let_def split_beta)

lemma pairing_same:
  assumes "pairing_inv c known w lg" "wk_active w' = wk_active w" "wk_saturated w' = wk_saturated w"
    "wk_hand w' = wk_hand w" "lg_settled lg' = lg_settled lg"
  shows "pairing_inv c known w' lg'"
  using assms unfolding pairing_inv_def unpaired_def by simp

subsection \<open>Steps of the thread\<close>

lemma evict_props:
  assumes "distinct xs"
  shows "set (evict_oldest n xs) \<subseteq> set xs" "length (evict_oldest n xs) \<le> n" "distinct (evict_oldest n xs)"
    "length xs \<le> n \<Longrightarrow> evict_oldest n xs = xs"
  using assms by (simp_all add: evict_oldest_def set_drop_subset)

lemma remember_same:
  "wk_queue (remember_active c item w) = wk_queue w" "wk_hand (remember_active c item w) = wk_hand w"
  "wk_delivered (remember_active c item w) = wk_delivered w" "wk_dropped (remember_active c item w) = wk_dropped w"
  "wk_suppressed (remember_active c item w) = wk_suppressed w" "wk_alive (remember_active c item w) = wk_alive w"
  "wk_stop (remember_active c item w) = wk_stop w" "wk_seen (remember_active c item w) = wk_seen w"
  "wk_seen_order (remember_active c item w) = wk_seen_order w"
  "wk_saturated w \<Longrightarrow> wk_saturated (remember_active c item w)"
  by (auto simp: remember_active_def Let_def)

lemma remember_pairing:
  assumes "set (wk_active w) \<subseteq> K" "\<not> wk_saturated w \<Longrightarrow> set (wk_active w) = K"
    and "length (wk_active w) \<le> seen_capacity" "distinct (wk_active w)"
  shows "set (wk_active (remember_active c item w)) \<subseteq> tell c (item, Ended Delivered) K"
    "\<not> wk_saturated (remember_active c item w) \<Longrightarrow>
      set (wk_active (remember_active c item w)) = tell c (item, Ended Delivered) K"
    "length (wk_active (remember_active c item w)) \<le> seen_capacity"
    "distinct (wk_active (remember_active c item w))"
proof -
  let ?k = "condition_key item"
  let ?new = "removeAll ?k (wk_active w) @ [?k]"
  have d: "distinct ?new" using assms(4) by (simp add: distinct_removeAll)
  have "length (removeAll ?k (wk_active w)) \<le> seen_capacity"
    using assms(3) length_removeAll_less_eq [of ?k "wk_active w"] by linarith
  note e = evict_props [OF d, of seen_capacity]
  have full: "seen_capacity < length ?new \<or> evict_oldest seen_capacity ?new = ?new" using e(4) by linarith
  show "set (wk_active (remember_active c item w)) \<subseteq> tell c (item, Ended Delivered) K"
    using assms(1) e(1) by (auto simp: remember_active_def tell_def Let_def)
  show "\<not> wk_saturated (remember_active c item w) \<Longrightarrow>
      set (wk_active (remember_active c item w)) = tell c (item, Ended Delivered) K"
    using assms(2) full by (auto simp: remember_active_def tell_def Let_def split: if_splits)
  show "length (wk_active (remember_active c item w)) \<le> seen_capacity"
    "distinct (wk_active (remember_active c item w))"
    using assms(3,4) e(2,3) \<open>length (removeAll ?k (wk_active w)) \<le> seen_capacity\<close>
    by (simp_all add: remember_active_def Let_def distinct_removeAll)
qed

lemma take_keeps:
  assumes "wk_hand w = None" "wk_queue w = item # rest"
    and "ledger_inv w lg" "seen_inv w lg" "pairing_inv c known w lg" "history_inv c known w lg"
  defines "lg' \<equiv> (if unpaired c item w then note_settled item Unpaired_Recovery lg else lg)"
  shows "ledger_inv (take_item c w) lg'" "seen_inv (take_item c w) lg'"
    "pairing_inv c known (take_item c w) lg'" "history_inv c known (take_item c w) lg'"
proof -
  have un: "unpaired c item (w\<lparr>wk_queue := rest\<rparr>) = unpaired c item w" by (simp add: unpaired_def)
  have take: "take_item c w = (if unpaired c item w
      then w\<lparr>wk_queue := rest, wk_suppressed := wk_suppressed w + 1\<rparr>
      else w\<lparr>wk_queue := rest, wk_hand := Some item\<rparr>)"
    using assms(2) by (simp add: take_item_def Let_def un)
  show "ledger_inv (take_item c w) lg'"
    using assms(1-3) by (auto simp: ledger_inv_def take lg'_def hand_list_def fates_settled)
  show "seen_inv (take_item c w) lg'"
    using assms(4) by (simp add: seen_inv_def take lg'_def)
  have settled: "told c known (lg_settled lg') = told c known (lg_settled lg)"
    by (simp add: lg'_def tell_def)
  show "pairing_inv c known (take_item c w) lg'"
    using assms(1,5) by (auto simp: pairing_inv_def take settled unpaired_def)
  show "history_inv c known (take_item c w) lg'"
  proof (cases "unpaired c item w")
    case True
    then have "condition_key item \<notin> told c known (lg_settled lg)" "pairs c item"
      "ev_state (en_event item) = Resolved"
      using assms(5) by (auto simp: pairing_inv_def unpaired_def)
    then have "history_inv c known (take_item c w) (note_settled item Unpaired_Recovery lg)"
      by (intro history_snoc [OF assms(6)]) (simp_all add: take)
    with True show ?thesis by (simp add: lg'_def)
  next
    case False
    then show ?thesis by (simp add: lg'_def) (rule history_same [OF assms(6)], simp_all add: take)
  qed
qed

lemma attempts_interrupted:
  assumes "attempts c item world n k code d = (Interrupted, d')"
  shows "\<exists>j. at_stop_in_backoff (world j) \<or> at_stop_in_throttle (world j)"
  using assms
proof (induction n arbitrary: k code d)
  case (Suc n)
  show ?case
  proof (cases "at_stop_in_backoff (world k) \<or> at_stop_in_throttle (world k)")
    case False
    then show ?thesis using Suc.prems Suc.IH by (auto simp: Let_def split: if_splits)
  qed blast
qed simp

lemma deliver_keeps:
  assumes "wk_alive w" "wk_hand w = Some item" "deliver_item c world now w = (out, w')"
    and stop: "\<And>k. at_stop_in_backoff (world k) \<or> at_stop_in_throttle (world k) \<Longrightarrow> wk_stop w"
    and "ledger_inv w lg" "seen_inv w lg" "pairing_inv c known w lg" "history_inv c known w lg"
  defines "lg' \<equiv> note_settled item (Ended out) lg"
  shows "ledger_inv w' lg' \<and> seen_inv w' lg' \<and> pairing_inv c known w' lg' \<and> history_inv c known w' lg'"
proof -
  obtain d where run: "attempts c item world (wh_max_attempts c) 0 ''delivery_failed''
      \<lparr>dl_next_delivery_at = wk_next_delivery_at w, dl_last_attempt_at = wk_last_attempt_at w,
       dl_backoffs = [], dl_throttles = [], dl_sends = 0\<rparr> = (out, d)"
    using assms(2,3) by (auto simp: deliver_item_def Let_def split: prod.splits)
  define w1 where "w1 = w\<lparr>wk_hand := None, wk_next_delivery_at := dl_next_delivery_at d,
      wk_last_attempt_at := dl_last_attempt_at d\<rparr>"
  define w2 where "w2 = w1\<lparr>wk_delivered := wk_delivered w1 + 1, wk_last_error := None,
      wk_last_success_at := Some now\<rparr>"
  have w': "w' = (case out of Delivered \<Rightarrow> remember_active c item w2
      | Suppressed \<Rightarrow> w1\<lparr>wk_suppressed := wk_suppressed w1 + 1\<rparr>
      | Failed code \<Rightarrow> w1\<lparr>wk_dropped := wk_dropped w1 + 1, wk_last_error := Some code\<rparr>
      | Interrupted \<Rightarrow> w1\<lparr>wk_alive := False\<rparr>)"
    using assms(3) unfolding deliver_item_def assms(2) option.case Let_def run prod.case w1_def w2_def by simp
  have stopped: "wk_stop w" if "out = Interrupted"
    using attempts_interrupted [OF run [unfolded that]] stop by blast
  have fields: "wk_queue w' = wk_queue w" "wk_hand w' = None" "wk_seen w' = wk_seen w"
    "wk_seen_order w' = wk_seen_order w" "wk_stop w' = wk_stop w" "wk_saturated w \<Longrightarrow> wk_saturated w'"
    "wk_delivered w' = wk_delivered w + (if out = Delivered then 1 else 0)"
    "wk_suppressed w' = wk_suppressed w + (if out = Suppressed then 1 else 0)"
    "wk_dropped w' = wk_dropped w + (if is_failed (Ended out) then 1 else 0)"
    "wk_alive w' = (wk_alive w \<and> out \<noteq> Interrupted)"
    unfolding w' by (cases out; simp add: remember_same w1_def w2_def)+
  have ledger: "ledger_inv w' lg'"
    using assms(1,2,5) stopped
    by (auto simp: ledger_inv_def lg'_def fields hand_list_def fates_settled)
  have seen: "seen_inv w' lg'" using assms(6) by (simp add: seen_inv_def lg'_def fields)
  have P: "set (wk_active w) \<subseteq> told c known (lg_settled lg)"
    "\<not> wk_saturated w \<Longrightarrow> set (wk_active w) = told c known (lg_settled lg)"
    "length (wk_active w) \<le> seen_capacity" "distinct (wk_active w)" "\<not> unpaired c item w"
    using assms(2,7) by (simp_all add: pairing_inv_def)
  have active2: "wk_active w2 = wk_active w" "wk_saturated w2 = wk_saturated w"
    by (simp_all add: w2_def w1_def)
  have pairing: "pairing_inv c known w' lg'"
  proof (cases "out = Delivered")
    case True
    then have "w' = remember_active c item w2" by (simp add: w')
    moreover note remember_pairing [of w2 "told c known (lg_settled lg)" c item, unfolded active2,
        OF P(1) P(2) P(3) P(4)]
    moreover have "wk_hand (remember_active c item w2) = None"
      by (simp add: remember_same w2_def w1_def)
    ultimately show ?thesis using True by (simp add: pairing_inv_def lg'_def)
  next
    case False
    then have "wk_active w' = wk_active w" "wk_saturated w' = wk_saturated w"
      unfolding w' by (cases out; simp add: w1_def)+
    moreover have "told c known (lg_settled lg') = told c known (lg_settled lg)"
      using False by (simp add: lg'_def tell_def)
    ultimately show ?thesis using P by (simp add: pairing_inv_def fields)
  qed
  have history: "history_inv c known w' lg'"
    unfolding lg'_def
  proof (rule history_snoc [OF assms(8)])
    assume "Ended out = Ended Delivered" "pairs c item" "ev_state (en_event item) = Resolved"
    then show "condition_key item \<in> told c known (lg_settled lg) \<or> wk_saturated w'"
      using P(1,5) fields(6) by (auto simp: unpaired_def)
  qed (use fields(6) in simp_all)
  from ledger seen pairing history show ?thesis by blast
qed

definition worker_inv :: "webhook_config \<Rightarrow> (string \<times> string) list \<Rightarrow> worker \<Rightarrow> ledger \<Rightarrow> bool" where
  "worker_inv c known w lg \<longleftrightarrow>
    ledger_inv w lg \<and> seen_inv w lg \<and> pairing_inv c known w lg \<and> history_inv c known w lg"

lemma ordered_insert_all:
  "set (foldl ordered_insert xs ys) = set xs \<union> set ys"
  "distinct xs \<Longrightarrow> distinct (foldl ordered_insert xs ys)"
  by (induction ys arbitrary: xs) (auto simp: ordered_insert_def)

lemma worker_inv_start: "worker_inv c known (new_worker known) empty_ledger"
proof -
  let ?a = "foldl ordered_insert [] known"
  have a: "set ?a = set known" "distinct ?a" using ordered_insert_all [of "[]" known] by simp_all
  note e = evict_props [OF a(2), of seen_capacity]
  have "ledger_inv (new_worker known) empty_ledger"
    by (simp add: ledger_inv_def new_worker_def empty_ledger_def hand_list_def fates_def offers_def Let_def)
  moreover have "seen_inv (new_worker known) empty_ledger"
    by (simp add: seen_inv_def new_worker_def empty_ledger_def accepted_ids_def deque_of_def spaced_def Let_def)
  moreover have "pairing_inv c known (new_worker known) empty_ledger"
    using e a by (auto simp: pairing_inv_def new_worker_def empty_ledger_def Let_def)
  moreover have "history_inv c known (new_worker known) empty_ledger"
    by (simp add: history_inv_def empty_ledger_def)
  ultimately show ?thesis by (simp add: worker_inv_def)
qed

lemma worker_inv_flags:
  assumes "worker_inv c known w lg"
    and "wk_queue w' = wk_queue w" "wk_hand w' = wk_hand w" "wk_delivered w' = wk_delivered w"
    "wk_suppressed w' = wk_suppressed w" "wk_dropped w' = wk_dropped w" "wk_seen w' = wk_seen w"
    "wk_seen_order w' = wk_seen_order w" "wk_active w' = wk_active w" "wk_saturated w' = wk_saturated w"
    and "wk_alive w' \<Longrightarrow> wk_alive w" "wk_stop w \<Longrightarrow> wk_stop w'"
  shows "worker_inv c known w' lg"
proof -
  have I: "ledger_inv w lg" "seen_inv w lg" "pairing_inv c known w lg" "history_inv c known w lg"
    using assms(1) by (simp_all add: worker_inv_def)
  have "ledger_inv w' lg" using I(1) assms(2-6,11,12)
    unfolding ledger_inv_def hand_list_def by (elim conjE) simp
  moreover have "seen_inv w' lg" using I(2) assms(7,8) by (simp add: seen_inv_def)
  moreover have "pairing_inv c known w' lg" by (rule pairing_same [OF I(3)]) (simp_all add: assms)
  moreover have "history_inv c known w' lg" by (rule history_same [OF I(4)]) (simp_all add: assms)
  ultimately show ?thesis by (simp add: worker_inv_def)
qed

lemma worker_inv_step:
  assumes "worker_step c (w, lg) (w', lg')" "worker_inv c known w lg"
  shows "worker_inv c known w' lg'"
proof -
  have I: "ledger_inv w lg" "seen_inv w lg" "pairing_inv c known w lg" "history_inv c known w lg"
    using assms(2) by (simp_all add: worker_inv_def)
  from assms(1) show ?thesis
  proof (cases rule: worker_step.cases)
    case (call_publish item)
    note P = publish_keeps [OF I(1,2) call_publish(3), of c]
    have "pairing_inv c known (publish c item w) (note_publish c item w lg)"
      by (rule pairing_same [OF I(3)]) (simp_all add: publish_other)
    moreover have "history_inv c known (publish c item w) (note_publish c item w lg)"
      by (rule history_same [OF I(4)]) (simp_all add: publish_other)
    ultimately show ?thesis using P call_publish by (simp add: worker_inv_def)
  next
    case (call_test item now)
    have q: "length (wk_queue w) < queue_capacity" using call_test(4) by (simp add: test_available_def)
    have "ledger_inv w' lg'"
      by (rule ledger_inv_queue [where new = "[item]", OF I(1)])
         (use q call_test(3) in \<open>simp_all add: call_test(1,2) queue_test_def offers_def\<close>)
    moreover have "accepted_ids lg' = accepted_ids lg"
      using call_test(2,3) by (simp add: accepted_ids_def)
    then have "seen_inv w' lg'" using I(2) by (simp add: seen_inv_def call_test(1) queue_test_def)
    moreover have "pairing_inv c known w' lg'"
      by (rule pairing_same [OF I(3)]) (simp_all add: call_test(1,2) queue_test_def)
    moreover have "history_inv c known w' lg'"
      by (rule history_same [OF I(4)]) (simp_all add: call_test(1,2) queue_test_def)
    ultimately show ?thesis by (simp add: worker_inv_def)
  next
    case (take_unpaired item rest)
    then show ?thesis using take_keeps [OF take_unpaired(4,5) I] by (simp add: worker_inv_def)
  next
    case (take_deliverable item rest)
    then show ?thesis using take_keeps [OF take_deliverable(4,5) I] by (simp add: worker_inv_def)
  next
    case (delivery item world now out)
    then show ?thesis using deliver_keeps [OF delivery(2,3,5) _ I] by (simp add: worker_inv_def)
  next
    case thread_exit
    show ?thesis unfolding thread_exit(1,2)
      by (rule worker_inv_flags [OF assms(2)]) (auto simp: exit_thread_def split: if_splits)
  next
    case closing
    show ?thesis unfolding closing
      by (rule worker_inv_flags [OF assms(2)]) (simp_all add: close_begin_def)
  next
    case forcing
    show ?thesis unfolding forcing(1,2)
      by (rule worker_inv_flags [OF assms(2)]) (auto simp: close_force_def split: if_splits)
  next
    case reporting
    show ?thesis unfolding reporting(1,2)
      by (rule worker_inv_flags [OF assms(2)]) (auto simp: close_report_def split: if_splits)
  qed
qed

lemma worker_invariant:
  "worker_reachable c known (w, lg) \<Longrightarrow> worker_inv c known w lg"
proof (induction "(w, lg)" arbitrary: w lg rule: worker_reachable.induct)
  case worker_start
  then show ?case by (simp add: worker_inv_start)
next
  case (worker_next x)
  then show ?case using worker_inv_step by (cases x) blast
qed

section \<open>Properties\<close>

text \<open>C12. A webhook endpoint loses and repeats nothing silently. An event offered to it is ignored
  when its state is not subscribed to or when it was accepted among the last 4096, refused when the
  endpoint is closed or 1024 deliveries are queued, and accepted otherwise. In every reachable state
  the accepted deliveries (these events and the tests) are, in order, those settled, the one in
  hand and those queued; the status counts are exact: delivered ones as delivered, recoveries dropped
  as unpaired and events no longer actionable as suppressed, failed and refused ones as dropped, and
  only the one delivery that a forced stop interrupted is not counted; and two accepted deliveries of
  the same event are at least 4096 accepted events apart.\<close>

theorem deliveries_accounted:
  assumes "worker_reachable c known (w, lg)"
  shows "lg_accepted lg = map fst (lg_settled lg) @ hand_list w @ wk_queue w
    \<and> filter (\<lambda>e. \<not> en_is_test e) (lg_accepted lg) = offers Accepted lg
    \<and> length (wk_queue w) \<le> queue_capacity
    \<and> wk_delivered w = fates (\<lambda>f. f = Ended Delivered) lg
    \<and> wk_suppressed w = fates (\<lambda>f. f = Unpaired_Recovery \<or> f = Ended Suppressed) lg
    \<and> wk_dropped w = fates is_failed lg + length (offers Refused lg)
    \<and> wk_delivered w + wk_suppressed w + wk_dropped w
        + fates (\<lambda>f. f = Ended Interrupted) lg = length (lg_settled lg) + length (offers Refused lg)
    \<and> (fates (\<lambda>f. f = Ended Interrupted) lg = 0 \<or> (wk_stop w \<and> \<not> wk_alive w
        \<and> fates (\<lambda>f. f = Ended Interrupted) lg = 1))
    \<and> spaced seen_capacity (accepted_ids lg)"
proof -
  have I: "ledger_inv w lg" "seen_inv w lg" using worker_invariant [OF assms] by (simp_all add: worker_inv_def)
  have split: "length fs = length (filter (\<lambda>f. f = Ended Delivered) fs)
      + length (filter (\<lambda>f. f = Unpaired_Recovery \<or> f = Ended Suppressed) fs)
      + length (filter is_failed fs) + length (filter (\<lambda>f. f = Ended Interrupted) fs)" for fs
  proof (induction fs)
    case (Cons f fs)
    then show ?case by (cases f rule: is_failed.cases) auto
  qed simp
  have f: "fates P lg = length (filter P (map snd (lg_settled lg)))" for P
    by (simp add: fates_def filter_map o_def)
  have "wk_delivered w + wk_suppressed w + wk_dropped w
        + fates (\<lambda>f. f = Ended Interrupted) lg = length (lg_settled lg) + length (offers Refused lg)"
    using I(1) split [of "map snd (lg_settled lg)"] unfolding ledger_inv_def f by simp
  moreover have "fates (\<lambda>f. f = Ended Interrupted) lg = 0 \<or> (wk_stop w \<and> \<not> wk_alive w
        \<and> fates (\<lambda>f. f = Ended Interrupted) lg = 1)"
    using I(1) unfolding ledger_inv_def by (metis le_antisym less_one not_le)
  ultimately show ?thesis using I unfolding ledger_inv_def seen_inv_def by blast
qed

text \<open>C13. Recoveries are paired with what the receiver was told. Only an endpoint that subscribes to
  openings and to recoveries is concerned, and no test. A delivery is dropped as an unpaired recovery
  only there, only when it is a recovery, and only when the receiver knows no open condition of that
  host and key; a recovery that is delivered there closes a condition the receiver was told of (by a
  delivery, or open when the service started), unless the table of open conditions ever overflowed;
  and a table that did not is exactly what the receiver knows.\<close>

theorem recoveries_paired:
  assumes "worker_reachable c known (w, lg)" and "lg_settled lg = xs @ (item, fate) # ys"
  shows "(fate = Unpaired_Recovery \<longrightarrow> pairs c item \<and> ev_state (en_event item) = Resolved
        \<and> condition_key item \<notin> told c known xs)
    \<and> (fate = Ended Delivered \<and> pairs c item \<and> ev_state (en_event item) = Resolved \<longrightarrow>
        condition_key item \<in> told c known xs \<or> wk_saturated w)
    \<and> (wk_saturated w \<or> set (wk_active w) = told c known (lg_settled lg))"
  using worker_invariant [OF assms(1)] assms(2)
  unfolding worker_inv_def history_inv_def pairing_inv_def by blast

section \<open>The attempts of one delivery\<close>

definition result_of :: "attempt \<Rightarrow> delivery_result" where
  "result_of a = (case at_result a of Some r \<Rightarrow> r
     | None \<Rightarrow> \<lparr>dr_success = False, dr_retryable = True, dr_error_code = Some ''sender_internal_failure''\<rparr>)"

text \<open>The attempt of number \<open>k\<close> reaches the sender.\<close>

definition reaches_sender :: "envelope \<Rightarrow> (nat \<Rightarrow> attempt) \<Rightarrow> nat \<Rightarrow> bool" where
  "reaches_sender item world k \<longleftrightarrow>
    (k = 0 \<or> \<not> at_stop_in_backoff (world k)) \<and> \<not> at_stop_in_throttle (world k)
    \<and> still_actionable item (at_check (world k))"

definition fails_retryably :: "envelope \<Rightarrow> (nat \<Rightarrow> attempt) \<Rightarrow> nat \<Rightarrow> bool" where
  "fails_retryably item world k \<longleftrightarrow> reaches_sender item world k
    \<and> \<not> dr_success (result_of (world k)) \<and> dr_retryable (result_of (world k))"

lemma attempts_step:
  assumes "attempts c item world (Suc n) k code d = (out, d')"
  shows "\<exists>d1. dl_backoffs d1 = dl_backoffs d @ (if k = 0 then [] else [retry_delay c (event_id item) k])
    \<and> dl_sends d1 = dl_sends d + (if reaches_sender item world k then 1 else 0)
    \<and> (if fails_retryably item world k
        then attempts c item world n (Suc k) (text_code (dr_error_code (result_of (world k)))) d1 = (out, d')
        else d' = d1 \<and> (out = Delivered \<longleftrightarrow> reaches_sender item world k \<and> dr_success (result_of (world k))))"
proof -
  let ?a = "world k"
  define da where "da = (if k = 0 then d
      else d\<lparr>dl_backoffs := dl_backoffs d @ [retry_delay c (event_id item) k]\<rparr>)"
  define db where "db = da\<lparr>dl_throttles := dl_throttles da @ [max 0 (dl_next_delivery_at da - at_now ?a)]\<rparr>"
  define dc where "dc = db\<lparr>dl_next_delivery_at := at_finished ?a + wh_min_interval_seconds c,
      dl_last_attempt_at := Some (at_started_at ?a), dl_sends := dl_sends db + 1\<rparr>"
  have run: "(if 0 < k \<and> at_stop_in_backoff ?a then (Interrupted, da)
      else if at_stop_in_throttle ?a then (Interrupted, db)
      else if \<not> still_actionable item (at_check ?a) then (Suppressed, db)
      else if dr_success (result_of ?a) then (Delivered, dc)
      else if \<not> dr_retryable (result_of ?a) then (Failed (text_code (dr_error_code (result_of ?a))), dc)
      else attempts c item world n (Suc k) (text_code (dr_error_code (result_of ?a))) dc) = (out, d')"
    using assms unfolding attempts.simps(2) Let_def da_def [symmetric] db_def [symmetric] dc_def [symmetric]
      result_of_def [symmetric] .
  have fields: "dl_backoffs da = dl_backoffs d @ (if k = 0 then [] else [retry_delay c (event_id item) k])"
    "dl_sends da = dl_sends d" by (simp_all add: da_def)
  have fields_c: "dl_backoffs db = dl_backoffs da" "dl_sends db = dl_sends da"
    "dl_backoffs dc = dl_backoffs da" "dl_sends dc = dl_sends da + 1"
    by (simp_all add: db_def dc_def)
  show ?thesis
  proof (cases "reaches_sender item world k")
    case True
    then have "if fails_retryably item world k
        then attempts c item world n (Suc k) (text_code (dr_error_code (result_of ?a))) dc = (out, d')
        else d' = dc \<and> (out = Delivered \<longleftrightarrow> dr_success (result_of ?a))"
      using run by (auto simp: reaches_sender_def fails_retryably_def split: if_splits)
    then show ?thesis using True fields fields_c by (intro exI [of _ dc]) simp
  next
    case False
    then have "\<not> fails_retryably item world k" by (simp add: fails_retryably_def)
    moreover have "(d' = da \<or> d' = db) \<and> out \<noteq> Delivered"
      using run False by (auto simp: reaches_sender_def split: if_splits)
    ultimately show ?thesis using False fields fields_c by (intro exI [of _ d']) auto
  qed
qed

lemma ex_less_Suc: "(\<exists>j < Suc n. P j) \<longleftrightarrow> P 0 \<or> (\<exists>j < n. P (Suc j))"
  using less_Suc_eq_0_disj by auto

lemma all_less_Suc: "(\<forall>j < Suc n. P j) \<longleftrightarrow> P 0 \<and> (\<forall>j < n. P (Suc j))"
  using less_Suc_eq_0_disj by auto

lemma attempts_delivered:
  assumes "attempts c item world n k code d = (out, d')"
  shows "out = Delivered \<longleftrightarrow> (\<exists>j < n. reaches_sender item world (k + j) \<and> dr_success (result_of (world (k + j)))
      \<and> (\<forall>i < j. fails_retryably item world (k + i)))"
  using assms
proof (induction n arbitrary: k code d)
  case (Suc n)
  let ?ok = "\<lambda>m. reaches_sender item world m \<and> dr_success (result_of (world m))"
  have body: "(\<exists>j < Suc n. ?ok (k + j) \<and> (\<forall>i < j. fails_retryably item world (k + i)))
      \<longleftrightarrow> ?ok k \<or> fails_retryably item world k
        \<and> (\<exists>j < n. ?ok (Suc k + j) \<and> (\<forall>i < j. fails_retryably item world (Suc k + i)))"
    unfolding ex_less_Suc all_less_Suc by auto
  obtain d1 where d1: "if fails_retryably item world k
        then attempts c item world n (Suc k) (text_code (dr_error_code (result_of (world k)))) d1 = (out, d')
        else d' = d1 \<and> (out = Delivered \<longleftrightarrow> ?ok k)"
    using attempts_step [OF Suc.prems] by blast
  show ?case
  proof (cases "fails_retryably item world k")
    case True
    then have "\<not> ?ok k" by (simp add: fails_retryably_def)
    moreover have "out = Delivered \<longleftrightarrow> (\<exists>j < n. ?ok (Suc k + j) \<and> (\<forall>i < j. fails_retryably item world (Suc k + i)))"
      using Suc.IH [of "Suc k"] d1 True by (simp only: if_True) blast
    ultimately show ?thesis using body True by (simp only: conj_assoc) blast
  next
    case False
    then show ?thesis using body d1 by (simp only: if_False conj_assoc) blast
  qed
qed auto

lemma attempts_waits:
  assumes "attempts c item world n k code d = (out, d')"
  shows "\<exists>m \<le> n. dl_backoffs d' = dl_backoffs d @ map (retry_delay c (event_id item)) [max 1 k ..< k + m]
    \<and> dl_sends d' \<le> dl_sends d + m"
  using assms
proof (induction n arbitrary: k code d)
  case (Suc n)
  obtain d1 where d1: "dl_backoffs d1 = dl_backoffs d @ (if k = 0 then [] else [retry_delay c (event_id item) k])"
    "dl_sends d1 = dl_sends d + (if reaches_sender item world k then 1 else 0)"
    "if fails_retryably item world k
        then attempts c item world n (Suc k) (text_code (dr_error_code (result_of (world k)))) d1 = (out, d')
        else d' = d1 \<and> (out = Delivered \<longleftrightarrow> reaches_sender item world k \<and> dr_success (result_of (world k)))"
    using attempts_step [OF Suc.prems] by blast
  have first: "[max 1 k ..< k + Suc m] = (if k = 0 then [] else [k]) @ [Suc k ..< Suc k + m]" for m
  proof (cases k)
    case (Suc j)
    then show ?thesis using upt_conv_Cons [of k "k + Suc m"] by simp
  qed simp
  show ?case
  proof (cases "fails_retryably item world k")
    case True
    then obtain m where m: "m \<le> n"
      "dl_backoffs d' = dl_backoffs d1 @ map (retry_delay c (event_id item)) [max 1 (Suc k) ..< Suc k + m]"
      "dl_sends d' \<le> dl_sends d1 + m" using Suc.IH [of "Suc k"] d1(3) by (simp only: if_True) blast
    have "dl_backoffs d' = dl_backoffs d @ map (retry_delay c (event_id item)) [max 1 k ..< k + Suc m]"
      unfolding first m(2) d1(1) by simp
    moreover have "dl_sends d' \<le> dl_sends d + Suc m" using m(3) d1(2) by (simp split: if_splits)
    ultimately show ?thesis using m(1) by (intro exI [of _ "Suc m"]) simp
  next
    case False
    then have "d' = d1" using d1(3) by simp
    moreover have "dl_backoffs d1 = dl_backoffs d @ map (retry_delay c (event_id item)) [max 1 k ..< k + Suc 0]"
      unfolding first d1(1) by simp
    moreover have "dl_sends d1 \<le> dl_sends d + Suc 0" using d1(2) by simp
    ultimately show ?thesis by (intro exI [of _ "Suc 0"]) simp
  qed
qed (auto intro: exI [of _ 0])

lemma retry_delay_bounds:
  assumes "0 < wh_retry_base_seconds c"
  shows "85 / 100 * wh_retry_base_seconds c * 2 ^ (k - 1) \<le> retry_delay c e k"
    "retry_delay c e k \<le> 115 / 100 * wh_retry_base_seconds c * 2 ^ (k - 1)"
proof -
  let ?u = "crc_unit (wh_name c @ [CHR 0x00] @ int_str (int e))"
  have u: "0 \<le> ?u" "?u \<le> 1" by (rule crc_unit_nonneg, rule crc_unit_le_1)
  have p: "0 \<le> wh_retry_base_seconds c * 2 ^ (k - 1)" using assms by simp
  have "wh_retry_base_seconds c * 2 ^ (k - 1) * (85 / 100) \<le> wh_retry_base_seconds c * 2 ^ (k - 1) * (85 / 100 + 3 / 10 * ?u)"
    "wh_retry_base_seconds c * 2 ^ (k - 1) * (85 / 100 + 3 / 10 * ?u) \<le> wh_retry_base_seconds c * 2 ^ (k - 1) * (115 / 100)"
    using p u by (intro mult_left_mono; simp)+
  then show "85 / 100 * wh_retry_base_seconds c * 2 ^ (k - 1) \<le> retry_delay c e k"
    "retry_delay c e k \<le> 115 / 100 * wh_retry_base_seconds c * 2 ^ (k - 1)"
    by (simp_all add: retry_delay_def Let_def ac_simps)
qed

text \<open>C14. One delivery makes at most the configured number of attempts. It is delivered exactly when some
  attempt succeeds and every earlier one failed retryably, none of them stopped by a close or by
  the event no longer being actionable; the wait before the n-th retry is the base delay
  doubled n - 1 times, varied by at most 15 percent.\<close>

theorem delivery_attempts_bounded:
  assumes "0 < wh_retry_base_seconds c" and "dl_backoffs d = []" "dl_sends d = 0"
    and "attempts c item world (wh_max_attempts c) 0 ''delivery_failed'' d = (out, d')"
  shows "dl_sends d' \<le> wh_max_attempts c \<and> length (dl_backoffs d') < max 1 (wh_max_attempts c)
    \<and> (\<forall>i < length (dl_backoffs d').
        85 / 100 * wh_retry_base_seconds c * 2 ^ i \<le> dl_backoffs d' ! i
        \<and> dl_backoffs d' ! i \<le> 115 / 100 * wh_retry_base_seconds c * 2 ^ i)
    \<and> (out = Delivered \<longleftrightarrow> (\<exists>j < wh_max_attempts c. reaches_sender item world j
        \<and> dr_success (result_of (world j)) \<and> (\<forall>i < j. fails_retryably item world i)))"
proof -
  obtain m where m: "m \<le> wh_max_attempts c"
    "dl_backoffs d' = map (retry_delay c (event_id item)) [1 ..< m]" "dl_sends d' \<le> m"
    using attempts_waits [OF assms(4)] assms(2,3) by auto
  have "85 / 100 * wh_retry_base_seconds c * 2 ^ i \<le> dl_backoffs d' ! i
        \<and> dl_backoffs d' ! i \<le> 115 / 100 * wh_retry_base_seconds c * 2 ^ i"
    if "i < length (dl_backoffs d')" for i
    using that retry_delay_bounds [where e = "event_id item" and k = "Suc i", OF assms(1)] by (simp add: m(2))
  moreover have "length (dl_backoffs d') < max 1 (wh_max_attempts c)" using m by auto
  moreover have "out = Delivered \<longleftrightarrow> (\<exists>j < wh_max_attempts c. reaches_sender item world j
        \<and> dr_success (result_of (world j)) \<and> (\<forall>i < j. fails_retryably item world i))"
    using attempts_delivered [OF assms(4)] by simp
  ultimately show ?thesis using m(1,3) by simp
qed

section \<open>Examples\<close>

definition example_webhook :: webhook_config where
  "example_webhook = \<lparr>wh_name = ''ops'', wh_url_env = ''URL'', wh_secret_env = None,
    wh_events = [''opened'', ''resolved''], wh_timeout_seconds = 5, wh_max_attempts = 3,
    wh_retry_base_seconds = 1, wh_min_interval_seconds = 0, wh_allow_private_networks = False\<rparr>"

definition example_envelope :: "nat \<Rightarrow> incident_state \<Rightarrow> envelope" where
  "example_envelope n st = \<lparr>en_event = \<lparr>ev_event_id = n, ev_host = ''a'',
     ev_condition = mk_condition ''cpu'' ''cpu'' ''CPU'' Warning None None ''t'',
     ev_state = st, ev_observed_at = ''t''\<rparr>, en_correlation = None, en_is_test = False\<rparr>"

definition example_attempt :: "nat \<Rightarrow> attempt" where
  "example_attempt k = \<lparr>at_stop_in_backoff = False, at_now = of_nat k, at_stop_in_throttle = False,
     at_check = No_Check, at_started_at = ''t'',
     at_result = (if k = 0 then None else Some \<lparr>dr_success = True, dr_retryable = False, dr_error_code = None\<rparr>),
     at_finished = of_nat k\<rparr>"

definition example_opened :: "envelope" where "example_opened = example_envelope 1 Opened"

definition example_resolved :: "envelope" where "example_resolved = example_envelope 2 Resolved"

definition example_sent :: "nat \<Rightarrow> attempt" where
  "example_sent k = (example_attempt k)\<lparr>at_result := Some \<lparr>dr_success = True, dr_retryable = False,
     dr_error_code = None\<rparr>\<rparr>"

text \<open>A recovery nobody was told the opening of; an opening and its recovery, each delivered; an event
  offered to a closed endpoint.\<close>

definition example_unpaired :: "worker \<times> ledger" where
  "example_unpaired =
    (let w = new_worker [] in
     (take_item example_webhook (publish example_webhook example_resolved w),
      note_settled example_resolved Unpaired_Recovery
        (note_publish example_webhook example_resolved w empty_ledger)))"

text \<open>One event offered, taken and delivered.\<close>

definition example_deliver :: "envelope \<Rightarrow> worker \<times> ledger \<Rightarrow> worker \<times> ledger" where
  "example_deliver item state =
    (let (w, lg) = state in
     (snd (deliver_item example_webhook example_sent ''t''
        (take_item example_webhook (publish example_webhook item w))),
      note_settled item (Ended Delivered) (note_publish example_webhook item w lg)))"

definition example_told :: "worker \<times> ledger" where
  "example_told = example_deliver example_resolved (example_deliver example_opened (new_worker [], empty_ledger))"

definition example_closed :: "worker \<times> ledger" where
  "example_closed =
    (let (w, lg) = example_told; w = close_begin w; item = example_envelope 3 Opened in
     (publish example_webhook item w, note_publish example_webhook item w lg))"

lemma example_not_test: "\<not> en_is_test (example_envelope n st)"
  by (simp add: example_envelope_def)

lemmas example_eval = publish_def take_item_def deliver_item_def new_worker_def remember_active_def
  evict_oldest_def unpaired_def pairs_def condition_key_def still_actionable_def verdict_on_def
  note_publish_def note_settled_def empty_ledger_def accepted_ids_def deque_of_def queue_capacity_def
  seen_capacity_def example_webhook_def example_opened_def example_resolved_def example_envelope_def
  example_sent_def example_attempt_def mk_condition_def numeral_3_eq_3 close_begin_def Let_def

lemma example_unpaired_reachable: "worker_reachable example_webhook [] example_unpaired"
proof -
  let ?w = "publish example_webhook example_resolved (new_worker [])"
  have "worker_reachable example_webhook [] (?w, note_publish example_webhook example_resolved (new_worker []) empty_ledger)"
    by (rule worker_next [OF worker_start], rule call_publish)
      (simp only: example_resolved_def example_not_test not_False_eq_True)
  moreover have "wk_alive ?w" "wk_hand ?w = None" "wk_queue ?w = [example_resolved]"
    "unpaired example_webhook example_resolved ?w" by (simp_all add: example_eval)
  ultimately show ?thesis unfolding example_unpaired_def Let_def by (rule worker_next [OF _ take_unpaired])
qed

lemma example_deliver_reachable:
  assumes "worker_reachable example_webhook known (w, lg)" "\<not> en_is_test item"
  defines "w1 \<equiv> publish example_webhook item w"
  defines "w2 \<equiv> take_item example_webhook w1"
  assumes "wk_alive w1" "wk_hand w1 = None" "wk_queue w1 = [item]" "\<not> unpaired example_webhook item w1"
    and "wk_alive w2" "wk_hand w2 = Some item"
    and "fst (deliver_item example_webhook example_sent ''t'' w2) = Delivered"
  shows "worker_reachable example_webhook known (example_deliver item (w, lg))"
proof -
  have "worker_reachable example_webhook known (w1, note_publish example_webhook item w lg)"
    unfolding w1_def by (rule worker_next [OF assms(1)], rule call_publish [OF assms(2)])
  from worker_next [OF this take_deliverable [OF assms(5-8)]]
  have taken: "worker_reachable example_webhook known (w2, note_publish example_webhook item w lg)"
    unfolding w2_def .
  have "deliver_item example_webhook example_sent ''t'' w2 =
      (Delivered, snd (deliver_item example_webhook example_sent ''t'' w2))"
    using assms(11) by (cases "deliver_item example_webhook example_sent ''t'' w2") simp
  then have "worker_step example_webhook (w2, note_publish example_webhook item w lg)
      (snd (deliver_item example_webhook example_sent ''t'' w2),
       note_settled item (Ended Delivered) (note_publish example_webhook item w lg))"
    by (rule delivery [OF assms(9,10), rotated]) (simp add: example_sent_def example_attempt_def)
  from worker_next [OF taken this] show ?thesis
    unfolding example_deliver_def prod.case w1_def w2_def Let_def .
qed

lemma example_told_reachable: "worker_reachable example_webhook [] example_told"
proof -
  let ?x = "example_deliver example_opened (new_worker [], empty_ledger)"
  have "worker_reachable example_webhook [] ?x"
    by (rule example_deliver_reachable [OF worker_start]) (simp_all add: example_eval)
  then have "worker_reachable example_webhook [] (fst ?x, snd ?x)" by simp
  from example_deliver_reachable [OF this, of example_resolved]
  have "worker_reachable example_webhook [] (example_deliver example_resolved (fst ?x, snd ?x))"
    by this (simp_all add: example_deliver_def example_eval)
  then show ?thesis by (simp add: example_told_def)
qed

lemma example_closed_reachable: "worker_reachable example_webhook [] example_closed"
proof -
  have "worker_reachable example_webhook [] (fst example_told, snd example_told)"
    using example_told_reachable by simp
  from worker_next [OF worker_next [OF this closing] call_publish [OF example_not_test]]
  show ?thesis by (simp add: example_closed_def split_beta Let_def)
qed

lemma example_closed_ledger:
  "fates (\<lambda>f. f = Ended Delivered) (snd example_closed) = 2
    \<and> fates is_failed (snd example_closed) + length (offers Refused (snd example_closed)) = 1"
  by (simp add: example_closed_def example_told_def example_deliver_def fates_def offers_def example_eval)

theorem deliveries_accounted_witness:
  "wk_delivered (fst example_closed) = 2 \<and> wk_dropped (fst example_closed) = 1
    \<and> wk_queue (fst example_closed) = []"
proof -
  have run: "worker_reachable example_webhook [] (fst example_closed, snd example_closed)"
    using example_closed_reachable by simp
  have "wk_queue (fst example_closed) = []"
    by (simp add: example_closed_def example_told_def example_deliver_def example_eval)
  with deliveries_accounted [OF run] example_closed_ledger show ?thesis by linarith
qed

lemma example_settled:
  "lg_settled (snd example_unpaired) = [] @ (example_resolved, Unpaired_Recovery) # []"
  "lg_settled (snd example_told) = [(example_opened, Ended Delivered)] @ (example_resolved, Ended Delivered) # []"
  "pairs example_webhook example_resolved" "ev_state (en_event example_resolved) = Resolved"
  "\<not> wk_saturated (fst example_told)"
  by (simp_all add: example_unpaired_def example_told_def example_deliver_def example_eval)

theorem recoveries_paired_witness:
  "condition_key example_resolved \<notin> told example_webhook [] []
    \<and> condition_key example_resolved \<in> told example_webhook [] [(example_opened, Ended Delivered)]"
proof -
  have "worker_reachable example_webhook [] (fst example_unpaired, snd example_unpaired)"
    "worker_reachable example_webhook [] (fst example_told, snd example_told)"
    using example_unpaired_reachable example_told_reachable by simp_all
  from recoveries_paired [OF this(1) example_settled(1)] recoveries_paired [OF this(2) example_settled(2)]
    example_settled(3-5)
  show ?thesis by blast
qed

theorem delivery_attempts_bounded_witness:
  "fst (attempts example_webhook example_opened example_attempt 3 0 ''delivery_failed''
      \<lparr>dl_next_delivery_at = 0, dl_last_attempt_at = None, dl_backoffs = [], dl_throttles = [], dl_sends = 0\<rparr>) = Delivered"
proof -
  let ?d = "\<lparr>dl_next_delivery_at = 0, dl_last_attempt_at = None, dl_backoffs = [], dl_throttles = [], dl_sends = 0\<rparr>"
  obtain out d' where run: "attempts example_webhook example_opened example_attempt (wh_max_attempts example_webhook)
      0 ''delivery_failed'' ?d = (out, d')" by fastforce
  have "reaches_sender example_opened example_attempt 1" "dr_success (result_of (example_attempt 1))"
    "fails_retryably example_opened example_attempt 0"
    by (simp_all add: reaches_sender_def fails_retryably_def result_of_def example_attempt_def still_actionable_def)
  moreover have "(1::nat) < wh_max_attempts example_webhook" "0 < wh_retry_base_seconds example_webhook"
    by (simp_all add: example_webhook_def)
  moreover have "\<forall>i < (1::nat). i = 0" by simp
  ultimately have "out = Delivered" using delivery_attempts_bounded [OF _ _ _ run] by fastforce
  with run show ?thesis by (simp add: example_webhook_def)
qed

end
