(* ===== verification/Webhook_Transport.thy ===== *)
theory Webhook_Transport
  imports Webhook_Worker Json_Text
begin

text \<open>
  Endpoints and the sender: resolving the configured endpoints (\<open>_resolve_endpoints\<close> of
  \<open>notifications.py\<close>), the validation of the addresses a host name resolves to and the single
  attempt over them (\<open>webhook_transport.py\<close>), and the signed request. URL splitting, DNS, the
  test whether an address is global (\<open>ipaddress\<close>), the HTTPS exchange and HMAC-SHA256 are
  arguments.
\<close>

section \<open>Addresses\<close>

text \<open>What \<open>urlsplit\<close> gives; \<open>None\<close> stands for a missing part.\<close>

record split_url =
  su_scheme :: string
  su_hostname :: "string option"
  su_username :: "string option"
  su_password :: "string option"
  su_fragment :: string
  su_port :: "int option"

record endpoint =
  ep_config :: webhook_config
  ep_url :: split_url
  ep_secret :: "nat list option"

text \<open>The records of a resolver: the text of each address, \<open>None\<close> for a record without one.\<close>

datatype resolution = Resolver_Failed | Records "string option list"

text \<open>\<open>global a\<close> is \<open>None\<close> when the text is no address.\<close>

fun collect_addresses ::
  "(string \<Rightarrow> bool option) \<Rightarrow> bool \<Rightarrow> string option list \<Rightarrow> string + string list" where
  "collect_addresses global allow_private [] = Inr []"
| "collect_addresses global allow_private (r # rs) =
    (case Option.bind r (\<lambda>a. map_option (Pair a) (global a)) of
       None \<Rightarrow> collect_addresses global allow_private rs
     | Some (a, is_global) \<Rightarrow>
         if \<not> allow_private \<and> \<not> is_global
         then Inl ''webhook hostname resolves to a non-public network''
         else (case collect_addresses global allow_private rs of
             Inl e \<Rightarrow> Inl e | Inr as \<Rightarrow> Inr (a # as)))"

definition effective_port :: "split_url \<Rightarrow> int" where
  "effective_port url = (case su_port url of Some p \<Rightarrow> if p = 0 then 443 else p | None \<Rightarrow> 443)"

definition validated_addresses ::
  "(string \<Rightarrow> int \<Rightarrow> resolution) \<Rightarrow> (string \<Rightarrow> bool option) \<Rightarrow> endpoint \<Rightarrow> string + string list" where
  "validated_addresses resolver global endpoint =
    (case su_hostname (ep_url endpoint) of
       None \<Rightarrow> Inl ''webhook URL has no hostname''
     | Some hostname \<Rightarrow>
        (case resolver hostname (effective_port (ep_url endpoint)) of
           Resolver_Failed \<Rightarrow> Inl ''webhook hostname cannot be resolved''
         | Records records \<Rightarrow>
            (case collect_addresses global (wh_allow_private_networks (ep_config endpoint)) records of
               Inl e \<Rightarrow> Inl e
             | Inr [] \<Rightarrow> Inl ''webhook hostname has no usable address''
             | Inr addresses \<Rightarrow> Inr (take 64 (foldl ordered_insert [] addresses)))))"

section \<open>One attempt\<close>

text \<open>What the exchange with an address meets: the deadline already over, or the status of the
  response (\<open>None\<close> when none arrived).\<close>

record exchange =
  xc_expired :: bool
  xc_status :: "int option"

text \<open>The result and the addresses that were connected to.\<close>

fun try_addresses :: "(string \<Rightarrow> exchange) \<Rightarrow> string list \<Rightarrow> delivery_result \<times> string list" where
  "try_addresses world [] =
    (\<lparr>dr_success = False, dr_retryable = True, dr_error_code = Some ''network_or_tls_failure''\<rparr>, [])"
| "try_addresses world (a # as) =
    (if xc_expired (world a)
     then (\<lparr>dr_success = False, dr_retryable = True, dr_error_code = Some ''network_or_tls_failure''\<rparr>, [])
     else (case xc_status (world a) of
         None \<Rightarrow> (let (r, tried) = try_addresses world as in (r, a # tried))
       | Some status \<Rightarrow>
           if 200 \<le> status \<and> status < 300
           then (\<lparr>dr_success = True, dr_retryable = False, dr_error_code = None\<rparr>, [a])
           else (\<lparr>dr_success = False,
                 dr_retryable = (status \<in> {408, 425, 429} \<or> 500 \<le> status),
                 dr_error_code = Some (''http_'' @ int_str status)\<rparr>, [a])))"

definition send ::
  "(string \<Rightarrow> int \<Rightarrow> resolution) \<Rightarrow> (string \<Rightarrow> bool option) \<Rightarrow> (string \<Rightarrow> exchange) \<Rightarrow> endpoint \<Rightarrow>
   delivery_result \<times> string list" where
  "send resolver global world endpoint =
    (case validated_addresses resolver global endpoint of
       Inl message \<Rightarrow>
         (\<lparr>dr_success = False, dr_retryable = True,
           dr_error_code = Some
             (if contains ''non-public network'' message \<or> contains ''no usable address'' message
              then ''unsafe_destination'' else ''dns_resolution_failed'')\<rparr>, [])
     | Inr addresses \<Rightarrow> try_addresses world addresses)"

section \<open>The request\<close>

definition payload :: "string \<Rightarrow> (rat \<Rightarrow> string) \<Rightarrow> envelope \<Rightarrow> nat list" where
  "payload version render envelope =
    (let payload = [(''schemaVersion'', PInt 1), (''source'', PStr ''mocop''),
           (''sourceVersion'', PStr version), (''event'', PDict (event_to_dict (en_event envelope)))]
         @ (case en_correlation envelope of None \<Rightarrow> [] | Some c \<Rightarrow> [(''correlation'', PDict c)])
         @ (if en_is_test envelope then [(''test'', PBool True)] else [])
     in utf8 (json_text render (PDict payload)))"

definition request_headers ::
  "string \<Rightarrow> (nat list \<Rightarrow> nat list \<Rightarrow> string) \<Rightarrow> endpoint \<Rightarrow> event \<Rightarrow> nat list \<Rightarrow> (string \<times> string) list" where
  "request_headers version hmac_sha256 endpoint event body =
    [(''Content-Type'', ''application/json; charset=utf-8''),
     (''User-Agent'', ''mocop/'' @ version),
     (''X-Mocop-Event-ID'', int_str (int (ev_event_id event)))]
    @ (case ep_secret endpoint of
         None \<Rightarrow> []
       | Some secret \<Rightarrow> [(''X-Mocop-Signature'', ''sha256='' @ hmac_sha256 secret body)])"

section \<open>Configured endpoints\<close>

definition quoted_name :: "webhook_config \<Rightarrow> string" where
  "quoted_name config = [CHR 0x27] @ wh_name config @ [CHR 0x27]"

definition safe_url :: "split_url \<Rightarrow> bool" where
  "safe_url url \<longleftrightarrow> su_scheme url = ''https'' \<and> su_hostname url \<noteq> None \<and> su_username url = None
    \<and> su_password url = None \<and> su_fragment url = []
    \<and> (case su_port url of None \<Rightarrow> True | Some p \<Rightarrow> 1 \<le> p \<and> p \<le> 65535)"

definition resolve_endpoint ::
  "(string, string) dict \<Rightarrow> (string \<Rightarrow> split_url option) \<Rightarrow> (string \<Rightarrow> int \<Rightarrow> resolution) \<Rightarrow>
   (string \<Rightarrow> bool option) \<Rightarrow> webhook_config \<Rightarrow> string + endpoint" where
  "resolve_endpoint environ urlsplit resolver global config =
    (let name = ''webhook '' @ quoted_name config;
         url = strip (dget_or [] environ (wh_url_env config))
     in if url = [] then Inl (name @ '' URL environment variable is missing'')
        else if 2048 < length url then Inl (name @ '' URL is too long'')
        else (case urlsplit url of
            None \<Rightarrow> Inl (name @ '' URL is invalid'')
          | Some parsed \<Rightarrow>
              if \<not> safe_url parsed then Inl (name @ '' must use a credential-free HTTPS URL'')
              else
                sum_bind
                  (case wh_secret_env config of
                     None \<Rightarrow> Inr None
                   | Some env \<Rightarrow>
                       (let secret = utf8 (dget_or [] environ env) in
                        if secret = [] \<or> 4096 < length secret
                        then Inl (name @ '' signing secret is missing or too long'')
                        else Inr (Some secret)))
                  (\<lambda>secret.
                    (let endpoint = \<lparr>ep_config = config, ep_url = parsed, ep_secret = secret\<rparr>
                     in sum_bind (validated_addresses resolver global endpoint) (\<lambda>_. Inr endpoint)))))"

fun resolve_endpoints ::
  "(string, string) dict \<Rightarrow> (string \<Rightarrow> split_url option) \<Rightarrow> (string \<Rightarrow> int \<Rightarrow> resolution) \<Rightarrow>
   (string \<Rightarrow> bool option) \<Rightarrow> webhook_config list \<Rightarrow> string + endpoint list" where
  "resolve_endpoints environ urlsplit resolver global [] = Inr []"
| "resolve_endpoints environ urlsplit resolver global (c # cs) =
    sum_bind (resolve_endpoint environ urlsplit resolver global c) (\<lambda>endpoint.
      sum_bind (resolve_endpoints environ urlsplit resolver global cs) (\<lambda>rest. Inr (endpoint # rest)))"

section \<open>What is connected to\<close>

lemma collect_addresses_step:
  assumes "collect_addresses global allow (r # rs) = Inr as"
  shows "(\<forall>a. r = Some a \<longrightarrow> global a = None) \<and> collect_addresses global allow rs = Inr as
    \<or> (\<exists>a g as'. r = Some a \<and> global a = Some g \<and> (g \<or> allow) \<and> as = a # as'
        \<and> collect_addresses global allow rs = Inr as')"
proof (cases "Option.bind r (\<lambda>a. map_option (Pair a) (global a))")
  case None
  then have "\<forall>a. r = Some a \<longrightarrow> global a = None" by (cases r) auto
  with None assms show ?thesis by simp
next
  case (Some ag)
  then obtain a g where "ag = (a, g)" "r = Some a" "global a = Some g" by (cases r) auto
  with Some assms show ?thesis by (auto split: if_splits sum.splits)
qed

lemma collect_addresses_sound:
  assumes "collect_addresses global allow records = Inr as"
  shows "\<forall>a \<in> set as. Some a \<in> set records \<and> (\<exists>g. global a = Some g \<and> (g \<or> allow))"
  using assms
proof (induction records arbitrary: as)
  case (Cons r rs)
  consider "collect_addresses global allow rs = Inr as"
    | a g as' where "r = Some a" "global a = Some g" "g \<or> allow" "as = a # as'"
        "collect_addresses global allow rs = Inr as'"
    using collect_addresses_step [OF Cons.prems] by blast
  then show ?case
  proof cases
    case 1
    from Cons.IH [OF this] show ?thesis by simp
  next
    case 2
    from Cons.IH [OF 2(5)] 2 show ?thesis by simp
  qed
qed simp

lemma collect_addresses_unsafe:
  assumes "Some a \<in> set records" "global a = Some False"
  shows "collect_addresses global False records = Inl ''webhook hostname resolves to a non-public network''"
  using assms
proof (induction records)
  case (Cons r rs)
  show ?case
  proof (cases "Option.bind r (\<lambda>a. map_option (Pair a) (global a))")
    case None
    then have "r \<noteq> Some a" using Cons.prems by auto
    then show ?thesis using Cons None by simp
  next
    case (Some ag)
    obtain b g where ag: "ag = (b, g)" by fastforce
    show ?thesis
    proof (cases g)
      case True
      then have "r \<noteq> Some a" using Cons.prems Some ag by auto
      then show ?thesis using Cons Some ag True by simp
    qed (simp add: Some ag)
  qed
qed simp

lemma first_occurrences: "set (foldl ordered_insert [] xs) = set xs" "distinct (foldl ordered_insert [] xs)"
proof -
  have "set (foldl ordered_insert ys xs) = set ys \<union> set xs" "distinct ys \<Longrightarrow> distinct (foldl ordered_insert ys xs)" for ys
    by (induction xs arbitrary: ys) (auto simp: ordered_insert_def)
  from this [of "[]"] show "set (foldl ordered_insert [] xs) = set xs" "distinct (foldl ordered_insert [] xs)"
    by simp_all
qed

lemma validated_sound:
  assumes "validated_addresses resolver global ep = Inr as"
  shows "\<exists>host records. su_hostname (ep_url ep) = Some host
      \<and> resolver host (effective_port (ep_url ep)) = Records records
      \<and> as \<noteq> [] \<and> distinct as \<and> length as \<le> 64
      \<and> (\<forall>a \<in> set as. Some a \<in> set records
          \<and> (\<exists>g. global a = Some g \<and> (g \<or> wh_allow_private_networks (ep_config ep))))
      \<and> (wh_allow_private_networks (ep_config ep) \<or> (\<forall>a. Some a \<in> set records \<longrightarrow> global a \<noteq> Some False))"
proof -
  obtain host records found where h: "su_hostname (ep_url ep) = Some host"
    "resolver host (effective_port (ep_url ep)) = Records records"
    and f: "collect_addresses global (wh_allow_private_networks (ep_config ep)) records = Inr found"
    and as: "found \<noteq> []" "as = take 64 (foldl ordered_insert [] found)"
    using assms by (auto simp: validated_addresses_def split: option.splits resolution.splits sum.splits list.splits)
  have "set as \<subseteq> set found" using set_take_subset first_occurrences(1) unfolding as(2) by metis
  moreover have "foldl ordered_insert [] found \<noteq> []" using as(1) first_occurrences(1) [of found] by (metis set_empty)
  then have "as \<noteq> []" by (simp add: as(2))
  moreover have "distinct as" "length as \<le> 64" by (simp_all add: as(2) first_occurrences(2))
  moreover have "wh_allow_private_networks (ep_config ep) \<or> (\<forall>a. Some a \<in> set records \<longrightarrow> global a \<noteq> Some False)"
    using f collect_addresses_unsafe by (cases "wh_allow_private_networks (ep_config ep)") force+
  ultimately show ?thesis using h collect_addresses_sound [OF f] by blast
qed

lemma try_addresses_sound:
  assumes "try_addresses world as = (r, tried)"
  shows "\<exists>n. tried = take n as"
    and "dr_success r \<longleftrightarrow> (\<exists>xs a ys status. as = xs @ a # ys \<and> xc_status (world a) = Some status
        \<and> 200 \<le> status \<and> status < 300 \<and> \<not> xc_expired (world a)
        \<and> (\<forall>x \<in> set xs. \<not> xc_expired (world x) \<and> xc_status (world x) = None))"
proof -
  show "\<exists>n. tried = take n as"
    using assms
  proof (induction as arbitrary: r tried)
    case (Cons a as)
    show ?case
    proof (cases "\<not> xc_expired (world a) \<and> xc_status (world a) = None")
      case True
      obtain r' tried' where "try_addresses world as = (r', tried')" by fastforce
      moreover then obtain n where "tried' = take n as" using Cons.IH by blast
      ultimately show ?thesis using True Cons.prems by (intro exI [of _ "Suc n"]) simp
    next
      case False
      then have "tried = [] \<or> tried = [a]" using Cons.prems by (auto split: if_splits option.splits)
      then show ?thesis by (metis take0 take_Suc_Cons)
    qed
  qed simp
  show "dr_success r \<longleftrightarrow> (\<exists>xs a ys status. as = xs @ a # ys \<and> xc_status (world a) = Some status
        \<and> 200 \<le> status \<and> status < 300 \<and> \<not> xc_expired (world a)
        \<and> (\<forall>x \<in> set xs. \<not> xc_expired (world x) \<and> xc_status (world x) = None))"
    using assms
  proof (induction as arbitrary: r tried)
    case (Cons b as)
    let ?Q = "\<lambda>xs a ys status zs. zs = xs @ a # ys \<and> xc_status (world a) = Some status
        \<and> 200 \<le> status \<and> status < 300 \<and> \<not> xc_expired (world a)
        \<and> (\<forall>x \<in> set xs. \<not> xc_expired (world x) \<and> xc_status (world x) = None)"
    have split: "(\<exists>xs a ys status. ?Q xs a ys status (b # as)) \<longleftrightarrow>
        (\<exists>status. xc_status (world b) = Some status \<and> 200 \<le> status \<and> status < 300 \<and> \<not> xc_expired (world b))
        \<or> (\<not> xc_expired (world b) \<and> xc_status (world b) = None \<and> (\<exists>xs a ys status. ?Q xs a ys status as))"
      (is "?L \<longleftrightarrow> ?A \<or> ?B")
    proof
      assume ?L
      then obtain xs a ys status where q: "?Q xs a ys status (b # as)" by blast
      then show "?A \<or> ?B" by (cases xs) auto
    next
      assume "?A \<or> ?B"
      then show ?L
      proof
        assume ?A
        then obtain status where "?Q [] b as status (b # as)" by auto
        then show ?L by blast
      next
        assume ?B
        then obtain xs a ys status where "?Q (b # xs) a ys status (b # as)" by auto
        then show ?L by blast
      qed
    qed
    show ?case
    proof (cases "\<not> xc_expired (world b) \<and> xc_status (world b) = None")
      case True
      obtain r' tried' where t: "try_addresses world as = (r', tried')" by fastforce
      then have "r = r'" using True Cons.prems by simp
      then show ?thesis unfolding split using Cons.IH [OF t] True by simp
    next
      case False
      then show ?thesis unfolding split using Cons.prems by (auto split: if_splits option.splits)
    qed
  qed simp
qed

text \<open>C15. A webhook never connects to an address outside the public network unless its configuration
  allows it: every address that is tried comes from the resolver's answer and is global (or private
  networks are allowed), no address is tried twice, and when the answer contains one address that is
  not global nothing is connected to. The attempt succeeds exactly when the first address that
  answers before the deadline answers with a status of the 200s.\<close>

theorem sends_only_to_validated:
  assumes "send resolver global world ep = (r, tried)"
  shows "(\<forall>a \<in> set tried. \<exists>host records. su_hostname (ep_url ep) = Some host
        \<and> resolver host (effective_port (ep_url ep)) = Records records \<and> Some a \<in> set records
        \<and> (global a = Some True \<or> wh_allow_private_networks (ep_config ep)))
    \<and> distinct tried \<and> length tried \<le> 64
    \<and> (\<forall>host records a. su_hostname (ep_url ep) = Some host
        \<and> resolver host (effective_port (ep_url ep)) = Records records \<and> Some a \<in> set records
        \<and> global a = Some False \<and> \<not> wh_allow_private_networks (ep_config ep) \<longrightarrow>
        tried = [] \<and> \<not> dr_success r)
    \<and> (dr_success r \<longleftrightarrow> (\<exists>as xs a ys status. validated_addresses resolver global ep = Inr as
        \<and> as = xs @ a # ys \<and> xc_status (world a) = Some status \<and> 200 \<le> status \<and> status < 300
        \<and> \<not> xc_expired (world a) \<and> (\<forall>x \<in> set xs. \<not> xc_expired (world x) \<and> xc_status (world x) = None)))"
proof (cases "validated_addresses resolver global ep")
  case (Inl e)
  then have "tried = []" "\<not> dr_success r" using assms by (auto simp: send_def)
  then show ?thesis using Inl by simp
next
  case (Inr as)
  then have t: "try_addresses world as = (r, tried)" using assms by (simp add: send_def)
  obtain n where n: "tried = take n as" using try_addresses_sound(1) [OF t] by blast
  obtain host records where V: "su_hostname (ep_url ep) = Some host"
    "resolver host (effective_port (ep_url ep)) = Records records" "distinct as" "length as \<le> 64"
    "\<forall>a \<in> set as. Some a \<in> set records
        \<and> (\<exists>g. global a = Some g \<and> (g \<or> wh_allow_private_networks (ep_config ep)))"
    "wh_allow_private_networks (ep_config ep) \<or> (\<forall>a. Some a \<in> set records \<longrightarrow> global a \<noteq> Some False)"
    using validated_sound [OF Inr] by blast
  have "set tried \<subseteq> set as" unfolding n by (rule set_take_subset)
  then have "\<forall>a \<in> set tried. \<exists>host records. su_hostname (ep_url ep) = Some host
        \<and> resolver host (effective_port (ep_url ep)) = Records records \<and> Some a \<in> set records
        \<and> (global a = Some True \<or> wh_allow_private_networks (ep_config ep))"
    using V(1,2,5) by fastforce
  moreover have "distinct tried" "length tried \<le> 64" using V(3,4) by (simp_all add: n)
  moreover have "\<forall>host' records' a. su_hostname (ep_url ep) = Some host'
        \<and> resolver host' (effective_port (ep_url ep)) = Records records' \<and> Some a \<in> set records'
        \<and> global a = Some False \<and> \<not> wh_allow_private_networks (ep_config ep) \<longrightarrow>
        tried = [] \<and> \<not> dr_success r"
    using V(1,2,6) by auto
  moreover have "dr_success r \<longleftrightarrow> (\<exists>as xs a ys status. validated_addresses resolver global ep = Inr as
        \<and> as = xs @ a # ys \<and> xc_status (world a) = Some status \<and> 200 \<le> status \<and> status < 300
        \<and> \<not> xc_expired (world a) \<and> (\<forall>x \<in> set xs. \<not> xc_expired (world x) \<and> xc_status (world x) = None))"
    unfolding try_addresses_sound(2) [OF t] Inr by simp
  ultimately show ?thesis by blast
qed

definition example_endpoint :: endpoint where
  "example_endpoint = \<lparr>ep_config = \<lparr>wh_name = ''ops'', wh_url_env = ''URL'', wh_secret_env = None,
      wh_events = [''opened''], wh_timeout_seconds = 5, wh_max_attempts = 3, wh_retry_base_seconds = 1,
      wh_min_interval_seconds = 0, wh_allow_private_networks = False\<rparr>,
    ep_url = \<lparr>su_scheme = ''https'', su_hostname = Some ''hooks.example'', su_username = None,
      su_password = None, su_fragment = [], su_port = None\<rparr>, ep_secret = None\<rparr>"

theorem sends_only_to_validated_witness:
  "snd (send (\<lambda>host port. Records [Some ''1.1.1.1'', Some ''10.0.0.1''])
      (\<lambda>a. Some (a \<noteq> ''10.0.0.1'')) (\<lambda>a. \<lparr>xc_expired = False, xc_status = Some 200\<rparr>) example_endpoint) = []"
proof -
  let ?r = "\<lambda>host port. Records [Some ''1.1.1.1'', Some ''10.0.0.1'']"
  let ?g = "\<lambda>a. Some (a \<noteq> ''10.0.0.1'')" and ?w = "\<lambda>a :: string. \<lparr>xc_expired = False, xc_status = Some 200\<rparr>"
  obtain r tried where send: "send ?r ?g ?w example_endpoint = (r, tried)" by fastforce
  have "su_hostname (ep_url example_endpoint) = Some ''hooks.example''"
    "\<not> wh_allow_private_networks (ep_config example_endpoint)" by (simp_all add: example_endpoint_def)
  moreover have "Some ''10.0.0.1'' \<in> set [Some ''1.1.1.1'', Some ''10.0.0.1'']" by simp
  ultimately have "tried = []" using sends_only_to_validated [OF send] by blast
  with send show ?thesis by simp
qed

section \<open>What is accepted\<close>

lemma resolve_endpoint_sound:
  assumes "resolve_endpoint environ urlsplit resolver global c = Inr ep"
  shows "ep_config ep = c \<and> safe_url (ep_url ep)
    \<and> urlsplit (strip (dget_or [] environ (wh_url_env c))) = Some (ep_url ep)
    \<and> ep_secret ep = map_option (\<lambda>env. utf8 (dget_or [] environ env)) (wh_secret_env c)
    \<and> (\<forall>secret. ep_secret ep = Some secret \<longrightarrow> secret \<noteq> [] \<and> length secret \<le> 4096)
    \<and> (\<exists>as. validated_addresses resolver global ep = Inr as)"
proof -
  obtain parsed where p: "urlsplit (strip (dget_or [] environ (wh_url_env c))) = Some parsed" "safe_url parsed"
    using assms by (auto simp: resolve_endpoint_def Let_def split: if_splits option.splits)
  let ?secret = "map_option (\<lambda>env. utf8 (dget_or [] environ env)) (wh_secret_env c)"
  have secret: "\<forall>s. ?secret = Some s \<longrightarrow> s \<noteq> [] \<and> length s \<le> 4096"
    using assms p by (auto simp: resolve_endpoint_def Let_def not_less split: if_splits option.splits)
  have ep: "ep = \<lparr>ep_config = c, ep_url = parsed, ep_secret = ?secret\<rparr>"
    using assms p by (auto simp: resolve_endpoint_def Let_def sum_bind_Inr split: if_splits option.splits)
  have "\<exists>as. validated_addresses resolver global ep = Inr as"
    using assms p unfolding ep
    by (auto simp: resolve_endpoint_def Let_def sum_bind_Inr split: if_splits option.splits)
  then show ?thesis using p secret by (simp add: ep)
qed

lemma resolve_endpoints_sound:
  assumes "resolve_endpoints environ urlsplit resolver global cs = Inr eps"
  shows "map ep_config eps = cs \<and> (\<forall>ep \<in> set eps. safe_url (ep_url ep)
    \<and> (\<exists>as. validated_addresses resolver global ep = Inr as)
    \<and> ep_secret ep = map_option (\<lambda>env. utf8 (dget_or [] environ env)) (wh_secret_env (ep_config ep))
    \<and> (\<forall>secret. ep_secret ep = Some secret \<longrightarrow> secret \<noteq> [] \<and> length secret \<le> 4096))"
  using assms
proof (induction cs arbitrary: eps)
  case (Cons c cs)
  obtain ep rest where "resolve_endpoint environ urlsplit resolver global c = Inr ep"
    "resolve_endpoints environ urlsplit resolver global cs = Inr rest" "eps = ep # rest"
    using Cons.prems by (auto simp: sum_bind_Inr)
  with Cons.IH [OF this(2)] resolve_endpoint_sound [OF this(1)] show ?case by simp
qed simp

end
