(* ===== verification/Webhook_Sink.thy ===== *)
theory Webhook_Sink
  imports Webhook_Runs Webhook_Transport
begin

text \<open>
  The notification sinks (\<open>DisabledNotificationSink\<close>, \<open>WebhookNotificationSink\<close> and
  \<open>create_notification_sink\<close> of \<open>notifications.py\<close>). Their common protocol is a locale: what the
  state store relies on when it publishes events and asks for a delivery test.
\<close>

section \<open>The protocol\<close>

text \<open>\<open>last_test\<close> is the time of the last accepted test.\<close>

locale notification_sink =
  fixes publish_events :: "event list \<Rightarrow> obj list \<Rightarrow> 's \<Rightarrow> 's"
    and run_test :: "rat \<Rightarrow> string \<Rightarrow> 's \<Rightarrow> bool \<times> 's"
    and last_test :: "'s \<Rightarrow> rat option"
  assumes publish_none: "publish_events [] cs s = s"
    and publish_append: "publish_events (es @ fs) cs s = publish_events fs cs (publish_events es cs s)"
    and publish_keeps_test: "last_test (publish_events es cs s) = last_test s"
    and test_refused: "run_test now observed_at s = (False, s') \<Longrightarrow> s' = s"
    and test_accepted: "run_test now observed_at s = (True, s') \<Longrightarrow>
      last_test s' = Some now \<and> (\<forall>t. last_test s = Some t \<longrightarrow> 30 \<le> now - t)"
begin

text \<open>Publishing a list of events is publishing them one by one.\<close>

lemma publish_one_by_one: "publish_events es cs s = fold (\<lambda>e. publish_events [e] cs) es s"
proof (induction es arbitrary: s)
  case Nil
  then show ?case by (simp add: publish_none)
next
  case (Cons e es)
  then show ?case using publish_append [of "[e]" es] by simp
qed

text \<open>Publishing and tests in any order; the times at which tests were accepted.\<close>

fun client_run :: "(event list \<times> obj list + rat \<times> string) list \<Rightarrow> 's \<Rightarrow> rat list \<Rightarrow> 's \<times> rat list" where
  "client_run [] s ts = (s, ts)"
| "client_run (Inl (es, cs) # ops) s ts = client_run ops (publish_events es cs s) ts"
| "client_run (Inr (now, observed_at) # ops) s ts =
    (let (ok, s') = run_test now observed_at s
     in client_run ops s' (if ok then ts @ [now] else ts))"

lemma tests_spaced:
  assumes "client_run ops s ts = (s', ts')" "sorted_wrt (\<lambda>a b. 30 \<le> b - a) ts"
    and "ts \<noteq> [] \<Longrightarrow> last_test s = Some (List.last ts)"
  shows "sorted_wrt (\<lambda>a b. 30 \<le> b - a) ts'"
  using assms
proof (induction ops s ts rule: client_run.induct)
  case (1 s ts)
  then show ?case by simp
next
  case (2 es cs ops s ts)
  then show ?case by (simp add: publish_keeps_test)
next
  case (3 now observed_at ops s ts)
  obtain ok s1 where t: "run_test now observed_at s = (ok, s1)" by fastforce
  show ?case
  proof (cases ok)
    case False
    then have "s1 = s" using test_refused t by simp
    then show ?thesis using 3 t False by simp
  next
    case True
    then have acc: "last_test s1 = Some now" "\<And>u. last_test s = Some u \<Longrightarrow> 30 \<le> now - u"
      using test_accepted t by auto
    have "\<forall>u \<in> set ts. 30 \<le> now - u"
    proof
      fix u
      assume u: "u \<in> set ts"
      then have ne: "ts \<noteq> []" by auto
      have "u = List.last ts \<or> 30 \<le> List.last ts - u"
      proof -
        have "ts = butlast ts @ [List.last ts]" using ne by simp
        then have "sorted_wrt (\<lambda>a b. 30 \<le> b - a) (butlast ts @ [List.last ts])" "u \<in> set (butlast ts @ [List.last ts])"
          using "3.prems"(2) u by simp_all
        then show ?thesis by (auto simp: sorted_wrt_append)
      qed
      moreover have "30 \<le> now - List.last ts" using acc(2) "3.prems"(3) [OF ne] by blast
      ultimately show "30 \<le> now - u" by auto
    qed
    then have "sorted_wrt (\<lambda>a b. 30 \<le> b - a) (ts @ [now])" using "3.prems"(2) by (simp add: sorted_wrt_append)
    moreover have "client_run ops s1 (ts @ [now]) = (s', ts')" using "3.prems"(1) t True by simp
    ultimately show ?thesis
      using "3.IH" [OF t [symmetric] refl] acc(1) True by simp
  qed
qed

end

section \<open>The sinks\<close>

datatype sink = Disabled_Sink | Webhook_Sink "(endpoint \<times> worker) list"

definition disabled_status :: obj where
  "disabled_status =
    [(''enabled'', PBool False), (''healthy'', PBool True), (''queuedDeliveries'', PInt 0),
     (''droppedDeliveries'', PInt 0), (''suppressedDeliveries'', PInt 0), (''endpoints'', PList [])]"

text \<open>\<open>event.host in item.get("hosts", ())\<close>; a correlation carries its hosts as a list of texts.\<close>

definition mentions :: "string \<Rightarrow> obj \<Rightarrow> bool" where
  "mentions host item = (case oget item ''hosts'' of PList hosts \<Rightarrow> PStr host \<in> set hosts | _ \<Rightarrow> False)"

definition envelope_for :: "obj list \<Rightarrow> event \<Rightarrow> envelope" where
  "envelope_for correlations event =
    \<lparr>en_event = event, en_correlation = List.find (mentions (ev_host event)) correlations, en_is_test = False\<rparr>"

definition publish_workers :: "envelope \<Rightarrow> (endpoint \<times> worker) list \<Rightarrow> (endpoint \<times> worker) list" where
  "publish_workers envelope workers = map (\<lambda>(ep, w). (ep, publish (ep_config ep) envelope w)) workers"

definition sink_publish :: "event list \<Rightarrow> obj list \<Rightarrow> sink \<Rightarrow> sink" where
  "sink_publish events correlations s =
    (case s of
       Disabled_Sink \<Rightarrow> Disabled_Sink
     | Webhook_Sink workers \<Rightarrow>
         Webhook_Sink (fold (\<lambda>event. publish_workers (envelope_for correlations event)) events workers))"

definition test_envelope :: "string \<Rightarrow> envelope" where
  "test_envelope observed_at =
    \<lparr>en_event =
       \<lparr>ev_event_id = 0, ev_host = ''mocop'',
        ev_condition = (mk_condition ''notification_test'' ''notification_test'' ''Webhook delivery'' Warning
            None None observed_at)\<lparr>ic_detail := Some ''Operator-requested delivery test'',
            ic_open_after_cycles := 1, ic_recovery_cycles := 1\<rparr>,
        ev_state = Opened, ev_observed_at = observed_at\<rparr>,
     en_correlation = None, en_is_test = True\<rparr>"

text \<open>The locks of all workers are held together, so a test reaches every endpoint or none.\<close>

definition sink_test :: "rat \<Rightarrow> string \<Rightarrow> sink \<Rightarrow> bool \<times> sink" where
  "sink_test now observed_at s =
    (case s of
       Disabled_Sink \<Rightarrow> (False, Disabled_Sink)
     | Webhook_Sink workers \<Rightarrow>
         if workers = [] \<or> \<not> (\<forall>(ep, w) \<in> set workers. test_available now w) then (False, s)
         else (True, Webhook_Sink (map (\<lambda>(ep, w). (ep, queue_test (test_envelope observed_at) now w)) workers)))"

definition sink_status :: "sink \<Rightarrow> obj" where
  "sink_status s =
    (case s of
       Disabled_Sink \<Rightarrow> disabled_status
     | Webhook_Sink workers \<Rightarrow>
         (let endpoints = map (\<lambda>(ep, w). worker_status (wh_name (ep_config ep)) w) workers in
          [(''enabled'', PBool (endpoints \<noteq> [])),
           (''healthy'', PBool (list_all (\<lambda>e. truthy (oget e ''healthy'')) endpoints)),
           (''queuedDeliveries'', PInt (sum_list (map (\<lambda>(ep, w). int (length (wk_queue w))) workers))),
           (''droppedDeliveries'', PInt (sum_list (map (\<lambda>(ep, w). int (wk_dropped w)) workers))),
           (''suppressedDeliveries'', PInt (sum_list (map (\<lambda>(ep, w). int (wk_suppressed w)) workers))),
           (''endpoints'', PList (map PDict endpoints))]))"

definition create_notification_sink ::
  "(string, string) dict \<Rightarrow> (string \<Rightarrow> split_url option) \<Rightarrow> (string \<Rightarrow> int \<Rightarrow> resolution) \<Rightarrow>
   (string \<Rightarrow> bool option) \<Rightarrow> webhook_config list \<Rightarrow> (string \<times> string) list \<Rightarrow> string + sink" where
  "create_notification_sink environ urlsplit resolver global configs known =
    (if configs = [] then Inr Disabled_Sink
     else sum_bind (resolve_endpoints environ urlsplit resolver global configs)
       (\<lambda>endpoints. Inr (Webhook_Sink (map (\<lambda>ep. (ep, new_worker known)) endpoints))))"

section \<open>The sinks implement the protocol\<close>

definition sink_last_test :: "sink \<Rightarrow> rat option" where
  "sink_last_test s =
    (case s of Webhook_Sink ((ep, w) # rest) \<Rightarrow> wk_last_test_queued_at w | _ \<Rightarrow> None)"

lemma publish_last_test: "wk_last_test_queued_at (publish c item w) = wk_last_test_queued_at w"
  by (simp add: publish_def Let_def split_beta)

lemma fold_publish_last_test:
  "sink_last_test (Webhook_Sink (fold (\<lambda>e. publish_workers (f e)) es ws)) = sink_last_test (Webhook_Sink ws)"
proof (induction es arbitrary: ws)
  case (Cons e es)
  have "sink_last_test (Webhook_Sink (publish_workers (f e) ws)) = sink_last_test (Webhook_Sink ws)"
    by (cases ws) (auto simp: sink_last_test_def publish_workers_def publish_last_test)
  then show ?case using Cons by simp
qed simp

interpretation sinks: notification_sink sink_publish sink_test sink_last_test
proof
  fix cs s
  show "sink_publish [] cs s = s" by (cases s) (simp_all add: sink_publish_def)
next
  fix es fs cs s
  show "sink_publish (es @ fs) cs s = sink_publish fs cs (sink_publish es cs s)"
    by (cases s) (simp_all add: sink_publish_def)
next
  fix es cs s
  show "sink_last_test (sink_publish es cs s) = sink_last_test s"
    by (cases s) (simp_all add: sink_publish_def fold_publish_last_test)
next
  fix now observed_at s s'
  assume "sink_test now observed_at s = (False, s')"
  then show "s' = s" by (cases s) (auto simp: sink_test_def split: if_splits)
next
  fix now observed_at s s'
  assume t: "sink_test now observed_at s = (True, s')"
  then obtain ep w ws where s: "s = Webhook_Sink ((ep, w) # ws)"
    by (cases s) (auto simp: sink_test_def neq_Nil_conv split: if_splits)
  have av: "test_available now w" and s': "s' = Webhook_Sink
      (map (\<lambda>(ep, w). (ep, queue_test (test_envelope observed_at) now w)) ((ep, w) # ws))"
    using t by (auto simp: sink_test_def s split: if_splits)
  show "sink_last_test s' = Some now \<and> (\<forall>t. sink_last_test s = Some t \<longrightarrow> 30 \<le> now - t)"
    using av by (auto simp: s s' sink_last_test_def queue_test_def test_available_def split: option.splits)
qed

section \<open>What the sinks guarantee\<close>

text \<open>A delivery test reaches every endpoint or none, is refused without an endpoint, and after an
  accepted one the next is at least 30 seconds later, whatever is published in between.\<close>

lemma delivery_test_all_or_none:
  assumes "sink_test now observed_at s = (ok, s')"
  shows "\<not> ok \<Longrightarrow> s' = s"
    and "ok \<Longrightarrow> \<exists>ws. s = Webhook_Sink ws \<and> ws \<noteq> []
      \<and> s' = Webhook_Sink (map (\<lambda>(ep, w). (ep, queue_test (test_envelope observed_at) now w)) ws)
      \<and> (\<forall>(ep, w) \<in> set ws. length (wk_queue w) < queue_capacity \<and> \<not> wk_closed w)"
    and "ok \<Longrightarrow> sink_test now' observed_at' (sink_publish es cs s') = (True, s'') \<Longrightarrow> 30 \<le> now' - now"
proof -
  show "\<not> ok \<Longrightarrow> s' = s" using sinks.test_refused assms by simp
  show "ok \<Longrightarrow> \<exists>ws. s = Webhook_Sink ws \<and> ws \<noteq> []
      \<and> s' = Webhook_Sink (map (\<lambda>(ep, w). (ep, queue_test (test_envelope observed_at) now w)) ws)
      \<and> (\<forall>(ep, w) \<in> set ws. length (wk_queue w) < queue_capacity \<and> \<not> wk_closed w)"
    using assms by (cases s) (auto simp: sink_test_def test_available_def split: if_splits)
  assume ok "sink_test now' observed_at' (sink_publish es cs s') = (True, s'')"
  then show "30 \<le> now' - now"
    using assms sinks.test_accepted sinks.publish_keeps_test by metis
qed

text \<open>Every endpoint of an accepted sink is safe, in the order of the configuration.\<close>

lemma created_sink_safe:
  assumes "create_notification_sink environ urlsplit resolver global configs known = Inr s"
  shows "s = Disabled_Sink \<and> configs = []
    \<or> (\<exists>eps. s = Webhook_Sink (map (\<lambda>ep. (ep, new_worker known)) eps) \<and> map ep_config eps = configs
        \<and> (\<forall>ep \<in> set eps. safe_url (ep_url ep) \<and> (\<exists>as. validated_addresses resolver global ep = Inr as)))"
proof (cases "configs = []")
  case False
  then obtain eps where "resolve_endpoints environ urlsplit resolver global configs = Inr eps"
    "s = Webhook_Sink (map (\<lambda>ep. (ep, new_worker known)) eps)"
    using assms by (auto simp: create_notification_sink_def sum_bind_Inr)
  with resolve_endpoints_sound [OF this(1)] show ?thesis by blast
qed (use assms in \<open>simp add: create_notification_sink_def\<close>)

text \<open>What is published reaches every worker with the first correlation that names its host.\<close>

lemma publish_reaches_workers:
  "sink_publish es cs (Webhook_Sink ws) =
    Webhook_Sink (map (\<lambda>(ep, w). (ep, fold (\<lambda>e. publish (ep_config ep) (envelope_for cs e)) es w)) ws)"
proof -
  have "fold (\<lambda>e. publish_workers (envelope_for cs e)) es ws
      = map (\<lambda>(ep, w). (ep, fold (\<lambda>e. publish (ep_config ep) (envelope_for cs e)) es w)) ws"
  proof (induction es arbitrary: ws)
    case (Cons e es)
    then show ?case by (simp add: publish_workers_def) auto
  qed (auto simp: map_idI)
  then show ?thesis by (simp add: sink_publish_def)
qed

text \<open>The totals of the status are the sums over the endpoints.\<close>

lemma status_healthy:
  "oget (sink_status (Webhook_Sink ws)) ''healthy'' = PBool (\<forall>(ep, w) \<in> set ws. wk_last_error w = None \<and> wk_alive w)"
  by (auto simp: sink_status_def worker_status_def Let_def list_all_iff)

end
