(* ===== verification/Spec2Isabelle.thy ===== *)
theory Spec2Isabelle
  imports Incident_Properties Maintenance Usage Config_Integrations Telemetry_Points Capacity Fleet_Stats Ssh_Failures
    Store_Incarnations Ssh_Topology_Tree Config_Properties Config_Files
    Scheduler_Runs Webhook_Sink
begin

text \<open>
  A verification development for MoCoP, the agentless SSH monitor of a GPU fleet
  (\<open>src/src/mocop\<close>). The service probes every host over SSH on its own schedule, turns each probe
  result into host state, history and incidents, and serves the fleet over HTTP; the development
  models the parts of it that decide something: when a host is probed, what counts as an incident
  and when it opens and resolves, what is counted, matched and correlated, and what a configuration
  may say.

  \<^bold>\<open>Parts and theories.\<close>

  \<^item> Common ground. \<open>Prelude\<close>: Python dictionaries as association lists in insertion order
    (\<open>dget\<close>, \<open>dset\<close>, \<open>dpop\<close>, \<open>dsub\<close>, \<open>wf_dict\<close>), bounded deques, sum-typed errors, list lemmas.
    \<open>PyText\<close>, \<open>PyNumber\<close>, \<open>PyValue\<close>: strings, decimal numbers, rounding and the dynamic values of
    decoded JSON. \<open>Timestamp\<close>: ISO-8601 instants (\<open>models.py\<close>). \<open>Crc32\<close>: \<open>zlib.crc32\<close> on 32-bit words.
  \<^item> \<open>Models\<close> (\<open>models.py\<close>): probe results, server state and their dictionaries.
  \<^item> \<open>Config\<close>, \<open>Monitor_Config\<close> (\<open>config.py\<close>, \<open>discovery_policy.py\<close>, \<open>updates.py\<close>) and
    \<open>Config_Integrations\<close> (\<open>config_integrations.py\<close>): the configuration records and the parsers of the
    topology, persistence, workload, webhook, SSH-discovery and update sections, errors included.
  \<^item> The configuration loader (\<open>config_loader.py\<close>): \<open>Config_Fields\<close> has the bounded fields and the
    validators of \<open>config.py\<close>, \<open>Config_Sections\<close> the sections, \<open>Config_Loader\<close> the document, the rejection
    of duplicate keys and the order of the sections, \<open>Config_Files\<close> the search for the file and its
    bounded and private reads. \<open>Config_Loaded\<close> says what every loaded configuration satisfies
    (\<open>config_ok\<close>), \<open>Config_Properties\<close> states it with the errors and the round trip of actions.
  \<^item> The trust policy (\<open>hostnames.py\<close>, \<open>web_auth.py\<close>): \<open>Py_Url\<close> has \<open>urlsplit\<close> and the test of IP literals,
    \<open>Hostnames\<close> the canonical host names, the policy, the request guards and the authentication.
  \<^item> Incidents (\<open>incidents.py\<close>, \<open>incident_types.py\<close>, \<open>incident_domains.py\<close>, \<open>incident_health.py\<close>):
    \<open>Incident_Types\<close> has the vocabulary, \<open>Threshold_Policy\<close> the policy that derives the conditions of a
    sample, \<open>Incident_Tracker\<close> the tracker (\<open>update\<close>, \<open>remove_hosts\<close>, \<open>snapshot\<close>). The specification is
    a state machine of one incident, \<open>Incident_Lifecycle\<close>; \<open>Incident_Confirmation\<close> relates its runs to
    streaks of samples, \<open>Incident_History\<close> lifts it to the tracker, and \<open>Incident_Properties\<close> states
    what follows for every reachable tracker.
  \<^item> The scheduler (\<open>service_scheduler.py\<close>): \<open>Scheduler\<close> has the shared state and its operations
    (manual requests, backoff, rebasing, configuration updates, \<open>poll_once\<close>), \<open>Scheduler_Loop\<close> the
    thread \<open>run\<close> as four steps per iteration, interleaved with the other threads by the relation
    \<open>run_step\<close>, and \<open>Scheduler_Runs\<close> the properties of its runs.
  \<^item> Notifications (\<open>notifications.py\<close>, \<open>webhook_transport.py\<close>): \<open>Webhook_Worker\<close> has one destination's
    queue, pairing and retries, \<open>Webhook_Runs\<close> its interleavings with a ledger of every event offered
    and the verdict it deserves,
    \<open>Json_Text\<close> and \<open>Webhook_Transport\<close> the payload and the connection to validated addresses, and
    \<open>Webhook_Sink\<close> the interface of a notification sink and its two implementations.
  \<^item> The state store (\<open>service.py\<close>): \<open>Gpu_Tracking\<close> has its per-GPU part (restored state, samples, closing
    of occupancy), \<open>Gpu_Runs\<close> and \<open>Gpu_Invariant\<close> what holds of it after every run, and that live tables
    carry the time their events give. \<open>State_Store\<close> has the
    whole state with its versions and signatures, \<open>Store_Operations\<close> the inventory and the settings,
    \<open>Store_Apply\<close> the application of a probe result, \<open>Store_Views\<close> the snapshot and the other views.
    \<open>Store_Runs\<close> makes the operations one step relation with its invariant, and \<open>Store_Incarnations\<close>
    states what the incarnations of hosts protect against; \<open>Store_Frames\<close> has the rules for the fields an
    operation leaves alone.
  \<^item> SSH topology inference (\<open>ssh_topology.py\<close>): \<open>PyShell\<close> has \<open>shlex.split\<close> and the string searches,
    \<open>Ssh_Topology\<close> the routes of the effective options, their resolution in rounds and the projection
    into a display tree, \<open>Ssh_Topology_Tree\<close> what the projection promises.
  \<^item> Reports and views: \<open>Maintenance\<close> (\<open>maintenance.py\<close>), \<open>Process_Transitions\<close>
    (\<open>process_transitions.py\<close>), \<open>Occupancy\<close> (\<open>occupancy.py\<close>), \<open>Usage\<close> (\<open>usage.py\<close>), \<open>Correlation\<close>
    (\<open>correlation.py\<close>), \<open>Telemetry_Points\<close> (\<open>telemetry_points.py\<close>), \<open>Capacity\<close> (\<open>capacity.py\<close>),
    \<open>Fleet_Stats\<close> (\<open>fleet_stats.py\<close>), \<open>Ssh_Failures\<close> (\<open>ssh_failures.py\<close>).

  \<^bold>\<open>What is shown.\<close> The tracker refines the life of a single incident: what it reports and keeps
  for a host and a key is the run of the state machine over that host's samples, from which follow
  when incidents open and resolve, that transitions alternate, and that restarts, removed hosts and
  unreachable hosts behave as promised. The scheduler's invariant holds under every interleaving:
  bounded and exactly accounted probes; from it follow earliest-deadline dispatch, that no due host
  waits while a worker is free, and that manual requests take effect. The parsers accept exactly
  the well-formed sections and survive a round trip; the reports are sound and complete with
  respect to direct definitions of what they count.

  \<^bold>\<open>Conventions.\<close> A float is a rational: arithmetic is exact, rounding of results is modelled only
  where the code calls \<open>round\<close>, and NaN and the infinities are values of their own type where the
  code can meet them. Strings are lists of characters, so code points are below 256. Sets whose
  iteration order can show are lists in an arbitrary order, or the order is a parameter (\<open>set_iter\<close>).
  The clock, \<open>time.monotonic\<close>, the probes, the discovery of hosts and the text of a float, a list or
  an object (\<open>render\<close>) are arguments. Exceptions are values of a sum or option type. The calls the
  scheduler makes on the state store are recorded as a list of \<open>external_call\<close> values. Naive
  timestamps are read as UTC.

  \<^bold>\<open>Bounds and fuel.\<close> Two recursions have fuel: the walk up the topology in \<open>Correlation\<close>, whose
  fuel is one more than the number of links, which suffices for every topology the parser accepts
  (\<open>accepted_topology_correlates\<close>); and the search for a free root name in \<open>Ssh_Topology\<close>, whose fuel
  exceeds the number of reserved names. The rounds of the resolution and the walk along jump chains
  terminate by a measure. The thread \<open>run\<close> is a step relation, so it needs no fuel.

  \<^bold>\<open>Not modelled.\<close> Sockets, subprocesses, SQLite, DNS, TLS, argparse and logging: these modules
  mostly call libraries. The parsers of the collector output, the metrics text, the
  inventory transactions and the diagnosis are pure enough to model but are left out; the HTTP
  server, the command line and the client are input and output around the modelled parts.
\<close>

end
